(* ===== verification/Prelude.thy ===== *)
theory Prelude
  imports Main "HOL-Library.Word"
begin

text \<open>
  Shared vocabulary of the development: machine integers, the little-endian byte layouts the
  sources write out by hand, fixed \<open>char\<close> fields read as C strings, and the generic facts on
  lists and words that the component theories share.

  Conventions.  A buffer \<open>uint8_t buf[n]\<close> is a \<open>byte list\<close> of length \<open>n\<close>; a pointer and a
  length are the list they delimit.  \<open>uintN_t\<close> is \<open>N word\<close>, so that \<open>+\<close> and \<open>-\<close> wrap exactly as
  in the code.  \<open>size_t\<close> values that only count bytes of a buffer are \<open>nat\<close>; where the code's
  own arithmetic on a 32-bit quantity is modelled on \<open>nat\<close>, it goes through \<open>add32\<close> and \<open>sub32\<close>,
  which write the wrap-around out.
\<close>

unbundle bit_operations_syntax

type_synonym byte = "8 word"
type_synonym u8 = "8 word"
type_synonym u16 = "16 word"
type_synonym u32 = "32 word"
type_synonym u64 = "64 word"

named_theorems le_simps \<open>little-endian layouts: lengths and round trips\<close>
named_theorems cstr_simps \<open>fixed char fields read as C strings\<close>
named_theorems wrap_simps \<open>32-bit arithmetic on natural numbers inside its range\<close>

subsection \<open>32-bit arithmetic on natural numbers\<close>

definition add32 :: "nat \<Rightarrow> nat \<Rightarrow> nat" where
  "add32 a b = (a + b) mod 2 ^ 32"

definition sub32 :: "nat \<Rightarrow> nat \<Rightarrow> nat" where
  "sub32 a b = (a + (2 ^ 32 - b mod 2 ^ 32)) mod 2 ^ 32"

lemma add32_small [wrap_simps]: "a + b < 2 ^ 32 \<Longrightarrow> add32 a b = a + b"
  by (simp add: add32_def)

lemma sub32_small [wrap_simps]:
  assumes "b \<le> a" "a < 2 ^ 32"
  shows "sub32 a b = a - b"
proof -
  have "a + (2 ^ 32 - b mod 2 ^ 32) = (a - b) + 2 ^ 32"
    using assms by simp
  then have "sub32 a b = ((a - b) + 2 ^ 32) mod 2 ^ 32"
    unfolding sub32_def by (rule arg_cong)
  also have "\<dots> = (a - b) mod 2 ^ 32"
    by (rule mod_add_self2)
  also have "\<dots> = a - b"
    using assms by (intro mod_less) linarith
  finally show ?thesis .
qed

lemma add32_bound: "add32 a b < 2 ^ 32"
  by (simp add: add32_def)

subsection \<open>Little-endian integers\<close>

text \<open>
  The sources split an integer with \<open>(uint8_t)((x >> 8*i) & 0xFF)\<close> and put it back together with
  shifts and ors; these are those expressions, once.
\<close>

definition put_u16 :: "u16 \<Rightarrow> byte list" where
  "put_u16 x = [ucast (x AND 0xFF), ucast (drop_bit 8 x)]"

definition get_u16 :: "byte \<Rightarrow> byte \<Rightarrow> u16" where
  "get_u16 b0 b1 = ucast b0 OR push_bit 8 (ucast b1)"

definition put_u32 :: "u32 \<Rightarrow> byte list" where
  "put_u32 x = [ucast (x AND 0xFF), ucast (drop_bit 8 x AND 0xFF),
                ucast (drop_bit 16 x AND 0xFF), ucast (drop_bit 24 x AND 0xFF)]"

definition get_u32 :: "byte \<Rightarrow> byte \<Rightarrow> byte \<Rightarrow> byte \<Rightarrow> u32" where
  "get_u32 b0 b1 b2 b3 = ((ucast b0 OR push_bit 8 (ucast b1)) OR push_bit 16 (ucast b2))
                          OR push_bit 24 (ucast b3)"

definition put_u64 :: "u64 \<Rightarrow> byte list" where
  "put_u64 x = [ucast (x AND 0xFF), ucast (drop_bit 8 x AND 0xFF),
                ucast (drop_bit 16 x AND 0xFF), ucast (drop_bit 24 x AND 0xFF),
                ucast (drop_bit 32 x AND 0xFF), ucast (drop_bit 40 x AND 0xFF),
                ucast (drop_bit 48 x AND 0xFF), ucast (drop_bit 56 x AND 0xFF)]"

definition get_u64 :: "byte list \<Rightarrow> u64" where
  "get_u64 bs = foldr (\<lambda>b acc. ucast b OR push_bit 8 acc) bs 0"

lemma word_xor_eq_0_iff: "a XOR b = 0 \<longleftrightarrow> a = (b :: 'a :: len word)"
  by (metis xor_self_eq xor.assoc xor.left_neutral xor.right_neutral)

lemma unat_of_nat_byte: "n < 256 \<Longrightarrow> unat (of_nat n :: byte) = n"
  by (simp add: unat_of_nat)

lemma and_255: "x AND 255 = take_bit 8 (x :: 'a :: len word)"
  by (simp add: take_bit_eq_mask mask_eq_exp_minus_1)

lemma length_put [le_simps]:
  "length (put_u16 a) = 2" "length (put_u32 b) = 4" "length (put_u64 c) = 8"
  by (simp_all add: put_u16_def put_u32_def put_u64_def)

lemma get_put_u16 [le_simps]:
  "get_u16 (ucast (x AND 0xFF)) (ucast (drop_bit 8 x)) = x"
  unfolding get_u16_def and_255
  by (rule bit_word_eqI) (auto simp: bit_simps)

lemma get_put_u32 [le_simps]:
  "get_u32 (ucast (x AND 0xFF)) (ucast (drop_bit 8 x AND 0xFF))
           (ucast (drop_bit 16 x AND 0xFF)) (ucast (drop_bit 24 x AND 0xFF)) = x"
proof -
  have step: "n < 8 \<or> 8 \<le> n \<and> n < 16 \<or> 16 \<le> n \<and> n < 24 \<or> 24 \<le> n" for n :: nat
    by linarith
  show ?thesis
    unfolding get_u32_def and_255
  proof (rule bit_word_eqI)
    fix n assume "n < LENGTH(32)"
    then show "bit (((ucast (ucast (take_bit 8 x) :: byte) OR
                 push_bit 8 (ucast (ucast (take_bit 8 (drop_bit 8 x)) :: byte))) OR
                 push_bit 16 (ucast (ucast (take_bit 8 (drop_bit 16 x)) :: byte))) OR
                 push_bit 24 (ucast (ucast (take_bit 8 (drop_bit 24 x)) :: byte)) :: u32) n = bit x n"
      using step [of n] by (elim disjE) (auto simp: bit_simps)
  qed
qed

lemma le_horner:
  fixes x :: u64
  shows "ucast (ucast (take_bit 8 (drop_bit k x)) :: byte) OR push_bit 8 (drop_bit (k + 8) x)
           = drop_bit k x"
proof (rule bit_word_eqI)
  fix n assume "n < LENGTH(64)"
  then show "bit (ucast (ucast (take_bit 8 (drop_bit k x)) :: byte) OR push_bit 8 (drop_bit (k + 8) x)) n
      = bit (drop_bit k x) n"
    by (cases "n < 8") (auto simp: bit_simps not_less add.assoc)
qed

lemma get_put_u64 [le_simps]: "get_u64 (put_u64 x) = x"
proof -
  have last: "ucast (ucast (take_bit 8 (drop_bit 56 x)) :: byte) = drop_bit 56 x"
    by (rule bit_word_eqI) (auto simp: bit_simps dest: bit_imp_le_length)
  show ?thesis
    using le_horner [of 48 x] le_horner [of 40 x] le_horner [of 32 x] le_horner [of 24 x]
      le_horner [of 16 x] le_horner [of 8 x] le_horner [of 0 x]
    by (simp add: get_u64_def put_u64_def and_255 last)
qed

lemma put_get_u16 [le_simps]: "put_u16 (get_u16 b0 b1) = [b0, b1]"
proof -
  have "ucast (get_u16 b0 b1 AND 0xFF) = b0"
    unfolding get_u16_def and_255 by (rule bit_word_eqI) (auto simp: bit_simps)
  moreover have "ucast (drop_bit 8 (get_u16 b0 b1)) = b1"
    unfolding get_u16_def by (rule bit_word_eqI) (auto simp: bit_simps dest: bit_imp_le_length)
  ultimately show ?thesis by (simp add: put_u16_def)
qed


subsection \<open>C strings in fixed char fields\<close>

text \<open>
  \<open>strlen\<close>, \<open>strnlen\<close> and \<open>strcmp\<close> read a buffer up to its first NUL; \<open>cstr\<close> is what they see.
  \<open>copy_str\<close> is the static helper of \<open>command_processor.cpp\<close>: truncate, terminate, pad with NULs.
\<close>

definition cstr :: "byte list \<Rightarrow> byte list" where
  "cstr s = takeWhile (\<lambda>b. b \<noteq> 0) s"

definition strlen :: "byte list \<Rightarrow> nat" where
  "strlen s = length (cstr s)"

definition strnlen :: "byte list \<Rightarrow> nat \<Rightarrow> nat" where
  "strnlen s n = length (cstr (take n s))"

definition copy_str :: "nat \<Rightarrow> byte list \<Rightarrow> byte list" where
  "copy_str cap src = (let n = strnlen src (cap - 1) in take n src @ replicate (cap - n) 0)"

lemma takeWhile_take: "takeWhile P (take n xs) = take n (takeWhile P xs)"
  by (induction xs arbitrary: n) (auto simp: take_Cons' split: nat.splits)

lemma cstr_take: "cstr (take n s) = take n (cstr s)"
  by (simp add: cstr_def takeWhile_take)

lemma cstr_append_zero [cstr_simps]: "0 \<notin> set xs \<Longrightarrow> cstr (xs @ 0 # ys) = xs"
  unfolding cstr_def by (induction xs) auto

lemma cstr_id [cstr_simps]: "0 \<notin> set xs \<Longrightarrow> cstr xs = xs"
  unfolding cstr_def by (induction xs) auto

lemma zero_notin_cstr [cstr_simps]: "0 \<notin> set (cstr s)"
  by (auto simp: cstr_def dest: set_takeWhileD)

lemma cstr_prefix: "cstr s = take (strlen s) s"
  unfolding strlen_def cstr_def by (rule takeWhile_eq_take)

lemma take_strnlen: "take (strnlen s n) s = take n (cstr s)"
proof -
  have "strnlen s n \<le> strlen s"
    by (simp add: strnlen_def strlen_def cstr_take)
  then have "take (strnlen s n) s = take (strnlen s n) (cstr s)"
    by (simp add: cstr_prefix min_absorb1)
  also have "\<dots> = take n (cstr s)"
    by (simp add: strnlen_def cstr_take take_Cons' min_def)
  finally show ?thesis .
qed

lemma cstr_copy_str [cstr_simps]:
  assumes "0 < cap"
  shows "cstr (copy_str cap s) = take (cap - 1) (cstr s)"
proof -
  have n: "strnlen s (cap - 1) < cap"
    using assms by (simp add: strnlen_def cstr_take)
  then obtain k where k: "cap - strnlen s (cap - 1) = Suc k"
    using not0_implies_Suc by fastforce
  have "0 \<notin> set (take (cap - 1) (cstr s))"
    using zero_notin_cstr in_set_takeD by fastforce
  then show ?thesis
    unfolding copy_str_def Let_def k replicate_Suc take_strnlen by (rule cstr_append_zero)
qed

lemma length_copy_str [cstr_simps]:
  assumes "0 < cap"
  shows "length (copy_str cap s) = cap"
proof -
  have "length (take (cap - 1) (cstr s)) = strnlen s (cap - 1)"
    by (simp add: strnlen_def cstr_take)
  moreover have "strnlen s (cap - 1) < cap"
    using assms by (simp add: strnlen_def cstr_take)
  ultimately show ?thesis
    by (simp add: copy_str_def Let_def take_strnlen del: length_take)
qed

lemma copy_str_cong: "cstr a = cstr b \<Longrightarrow> copy_str cap a = copy_str cap b"
  by (simp add: copy_str_def Let_def take_strnlen) (simp add: strnlen_def cstr_take)

end
