(* ===== verification/PbStream.thy ===== *)
theory PbStream
  imports Prelude
begin

text \<open>
  The stream layer of nanopb (\<open>src/nanopb/pb_decode.c\<close>, \<open>pb_encode.c\<close>) as this firmware builds
  it: 64-bit integers on, no malloc, no UTF-8 validation, streams over memory buffers only.

  An input stream is the list of bytes from \<open>state\<close> to the end (\<open>bytes_left\<close> is its length), so a
  substream is a prefix of it.  A decoder returns the error it sets with \<open>PB_RETURN_ERROR\<close>, or
  the value it stores through its pointer together with the rest of the stream.
\<close>

datatype pb_error = End_Of_Stream | Varint_Overflow | Size_Too_Large | Invalid_Wire_Type
  | Wrong_Wire_Type | Parent_Stream_Too_Short | Integer_Too_Large | Bytes_Overflow
  | String_Overflow | Array_Overflow | Zero_Tag | Invalid_Data_Size | Invalid_Field_Type
  | Incorrect_Fixed_Length | Stream_Full | Bytes_Size_Exceeded | Unterminated_String
  | Zero_Length_String | Array_Max_Size_Exceeded | Submsg_Size_Changed

type_synonym pb_istream = "byte list"

section \<open>Reading\<close>

definition pb_read :: "nat \<Rightarrow> pb_istream \<Rightarrow> pb_error + byte list \<times> pb_istream" where
  "pb_read count stream =
     (if count = 0 then Inr ([], stream)
      else if length stream < count then Inl End_Of_Stream
      else Inr (take count stream, drop count stream))"

fun pb_readbyte :: "pb_istream \<Rightarrow> pb_error + byte \<times> pb_istream" where
  "pb_readbyte [] = Inl End_Of_Stream"
| "pb_readbyte (b # stream) = Inr (b, stream)"

text \<open>The \<open>do ... while (byte & 0x80)\<close> loop of \<open>pb_decode_varint32_eof\<close>.\<close>

fun varint32_loop :: "nat \<Rightarrow> u32 \<Rightarrow> pb_istream \<Rightarrow> pb_error + u32 \<times> pb_istream" where
  "varint32_loop bitpos result [] = Inl End_Of_Stream"
| "varint32_loop bitpos result (byte # stream) =
     (if bitpos \<ge> 32 \<and>
          (let sign_extension = (if bitpos < 63 then 0xFF else 0x01) :: byte;
               valid_extension = ((byte AND 0x7F) = 0x00 \<or>
                 (drop_bit 31 result \<noteq> 0 \<and> byte = sign_extension))
           in bitpos \<ge> 64 \<or> \<not> valid_extension)
      then Inl Varint_Overflow
      else if bitpos = 28 \<and> (byte AND 0x70) \<noteq> 0 \<and> (byte AND 0x78) \<noteq> 0x78 then Inl Varint_Overflow
      else let result' = (if bitpos \<ge> 32 then result
                 else if bitpos = 28 then result OR push_bit bitpos (ucast (byte AND 0x0F))
                 else result OR push_bit bitpos (ucast (byte AND 0x7F)))
        in if (byte AND 0x80) \<noteq> 0 then varint32_loop (bitpos + 7) result' stream
           else Inr (result', stream))"

text \<open>The second component is what \<open>*eof\<close> is left as.\<close>

definition pb_decode_varint32_eof :: "pb_istream \<Rightarrow> (pb_error + u32 \<times> pb_istream) \<times> bool" where
  "pb_decode_varint32_eof stream =
     (case pb_readbyte stream of
        Inl e \<Rightarrow> (Inl e, stream = [])
      | Inr (byte, rest) \<Rightarrow>
          (if (byte AND 0x80) = 0 then (Inr (ucast byte, rest), False)
           else (varint32_loop 7 (ucast (byte AND 0x7F)) rest, False)))"

definition pb_decode_varint32 :: "pb_istream \<Rightarrow> pb_error + u32 \<times> pb_istream" where
  "pb_decode_varint32 stream = fst (pb_decode_varint32_eof stream)"

fun varint_loop :: "nat \<Rightarrow> u64 \<Rightarrow> pb_istream \<Rightarrow> pb_error + u64 \<times> pb_istream" where
  "varint_loop bitpos result [] = Inl End_Of_Stream"
| "varint_loop bitpos result (byte # stream) =
     (if bitpos \<ge> 63 \<and> (byte AND 0xFE) \<noteq> 0 then Inl Varint_Overflow
      else let result' = result OR push_bit bitpos (ucast (byte AND 0x7F))
        in if (byte AND 0x80) \<noteq> 0 then varint_loop (bitpos + 7) result' stream
           else Inr (result', stream))"

definition pb_decode_varint :: "pb_istream \<Rightarrow> pb_error + u64 \<times> pb_istream" where
  "pb_decode_varint stream = varint_loop 0 0 stream"

fun pb_skip_varint :: "pb_istream \<Rightarrow> pb_error + unit \<times> pb_istream" where
  "pb_skip_varint [] = Inl End_Of_Stream"
| "pb_skip_varint (byte # stream) =
     (if (byte AND 0x80) \<noteq> 0 then pb_skip_varint stream else Inr ((), stream))"

definition pb_skip_string :: "pb_istream \<Rightarrow> pb_error + unit \<times> pb_istream" where
  "pb_skip_string stream =
     (case pb_decode_varint32 stream of
        Inl e \<Rightarrow> Inl e
      | Inr (len, rest) \<Rightarrow>
          (case pb_read (unat len) rest of Inl e \<Rightarrow> Inl e | Inr (_, rest') \<Rightarrow> Inr ((), rest')))"

datatype pb_wire_type = PB_WT_VARINT | PB_WT_64BIT | PB_WT_STRING | PB_WT_32BIT | PB_WT_PACKED
  | PB_WT_Other nat

text \<open>\<open>(pb_wire_type_t)(temp & 7)\<close>: the named values of the enum, and the others.\<close>

definition wire_type_of :: "nat \<Rightarrow> pb_wire_type" where
  "wire_type_of n = (if n = 0 then PB_WT_VARINT else if n = 1 then PB_WT_64BIT
     else if n = 2 then PB_WT_STRING else if n = 5 then PB_WT_32BIT else PB_WT_Other n)"

fun wire_type_num :: "pb_wire_type \<Rightarrow> nat" where
  "wire_type_num PB_WT_VARINT = 0"
| "wire_type_num PB_WT_64BIT = 1"
| "wire_type_num PB_WT_STRING = 2"
| "wire_type_num PB_WT_32BIT = 5"
| "wire_type_num PB_WT_PACKED = 255"
| "wire_type_num (PB_WT_Other n) = n"

definition pb_decode_tag :: "pb_istream \<Rightarrow> (pb_error + (pb_wire_type \<times> nat) \<times> pb_istream) \<times> bool" where
  "pb_decode_tag stream =
     (case pb_decode_varint32_eof stream of
        (Inl e, eof) \<Rightarrow> (Inl e, eof)
      | (Inr (temp, rest), eof) \<Rightarrow>
          (Inr ((wire_type_of (unat (temp AND 7)), unat (drop_bit 3 temp)), rest), eof))"

definition pb_skip_field :: "pb_wire_type \<Rightarrow> pb_istream \<Rightarrow> pb_error + unit \<times> pb_istream" where
  "pb_skip_field wire_type stream =
     (case wire_type of
        PB_WT_VARINT \<Rightarrow> pb_skip_varint stream
      | PB_WT_64BIT \<Rightarrow> map_sum id (\<lambda>(_, rest). ((), rest)) (pb_read 8 stream)
      | PB_WT_STRING \<Rightarrow> pb_skip_string stream
      | PB_WT_32BIT \<Rightarrow> map_sum id (\<lambda>(_, rest). ((), rest)) (pb_read 4 stream)
      | _ \<Rightarrow> Inl Invalid_Wire_Type)"

text \<open>
  \<open>pb_make_string_substream\<close> splits off the substream and \<open>pb_close_string_substream\<close> moves the
  parent to its end, consumed or not; together: the substream and the rest of the parent.
\<close>

definition pb_string_substream :: "pb_istream \<Rightarrow> pb_error + pb_istream \<times> pb_istream" where
  "pb_string_substream stream =
     (case pb_decode_varint32 stream of
        Inl e \<Rightarrow> Inl e
      | Inr (sz, rest) \<Rightarrow>
          (if length rest < unat sz then Inl Parent_Stream_Too_Short
           else Inr (take (unat sz) rest, drop (unat sz) rest)))"

definition pb_decode_bool :: "pb_istream \<Rightarrow> pb_error + bool \<times> pb_istream" where
  "pb_decode_bool stream = map_sum id (\<lambda>(value, rest). (value \<noteq> 0, rest)) (pb_decode_varint32 stream)"

definition pb_decode_svarint :: "pb_istream \<Rightarrow> pb_error + u64 \<times> pb_istream" where
  "pb_decode_svarint stream =
     map_sum id (\<lambda>(value, rest). (if value AND 1 \<noteq> 0 then NOT (drop_bit 1 value) else drop_bit 1 value, rest))
       (pb_decode_varint stream)"

definition pb_decode_fixed32 :: "pb_istream \<Rightarrow> pb_error + u32 \<times> pb_istream" where
  "pb_decode_fixed32 stream =
     map_sum id (\<lambda>(b, rest). (get_u32 (b ! 0) (b ! 1) (b ! 2) (b ! 3), rest)) (pb_read 4 stream)"

definition pb_decode_fixed64 :: "pb_istream \<Rightarrow> pb_error + u64 \<times> pb_istream" where
  "pb_decode_fixed64 stream = map_sum id (\<lambda>(b, rest). (get_u64 b, rest)) (pb_read 8 stream)"

section \<open>Writing\<close>

text \<open>
  \<open>pb_ostream_t\<close>: \<open>os_sizing\<close> is \<open>callback == NULL\<close> (\<open>PB_OSTREAM_SIZING\<close>), \<open>os_out\<close> the bytes written
  to the buffer so far.  \<open>size_t\<close> is 32 bits wide on the boards.
\<close>

record pb_ostream =
  os_sizing :: bool
  os_max_size :: nat
  os_bytes_written :: nat
  os_out :: "byte list"

definition PB_OSTREAM_SIZING :: pb_ostream where
  "PB_OSTREAM_SIZING = \<lparr>os_sizing = True, os_max_size = 0, os_bytes_written = 0, os_out = []\<rparr>"

definition pb_ostream_from_buffer :: "nat \<Rightarrow> pb_ostream" where
  "pb_ostream_from_buffer bufsize =
     \<lparr>os_sizing = False, os_max_size = bufsize, os_bytes_written = 0, os_out = []\<rparr>"

definition pb_write :: "byte list \<Rightarrow> pb_ostream \<Rightarrow> pb_error + pb_ostream" where
  "pb_write buf stream =
     (let count = length buf; total = add32 (os_bytes_written stream) count in
      if count > 0 \<and> \<not> os_sizing stream \<and> (total < os_bytes_written stream \<or> total > os_max_size stream)
      then Inl Stream_Full
      else Inr (stream\<lparr>os_bytes_written := total,
                 os_out := (if os_sizing stream then os_out stream else os_out stream @ buf)\<rparr>))"

text \<open>\<open>pb_write(stream, NULL, size)\<close> on a sizing stream only counts.\<close>

definition pb_write_sizing :: "nat \<Rightarrow> pb_ostream \<Rightarrow> pb_error + pb_ostream" where
  "pb_write_sizing count stream =
     Inr (stream\<lparr>os_bytes_written := add32 (os_bytes_written stream) count\<rparr>)"

text \<open>
  \<open>pb_encode_varint_32\<close>: \<open>varint32_low\<close> is its first loop (\<open>i < 4\<close>, here counted down), returning
  the bytes put into \<open>buffer\<close>, the byte still in hand and \<open>low\<close>; \<open>varint32_high\<close> is the loop on
  \<open>high\<close>.
\<close>

fun varint32_low :: "nat \<Rightarrow> byte \<Rightarrow> u32 \<Rightarrow> u32 \<Rightarrow> byte list \<times> byte" where
  "varint32_low 0 byte low high = ([], byte)"
| "varint32_low (Suc i) byte low high =
     (if low \<noteq> 0 \<or> high \<noteq> 0
      then let (buffer, last) = varint32_low i (ucast (low AND 0x7F)) (drop_bit 7 low) high
           in ((byte OR 0x80) # buffer, last)
      else ([], byte))"

lemma unat_drop_bit_div: "unat (drop_bit n (w :: 'a :: len word)) = unat w div 2 ^ n"
  by (rule trans [OF unat_drop_bit_eq drop_bit_eq_div])

lemma unat_drop_bit_less: "(w :: 'a :: len word) \<noteq> 0 \<Longrightarrow> 0 < n \<Longrightarrow> unat (drop_bit n w) < unat w"
  unfolding unat_drop_bit_div by (intro div_less_dividend one_less_power) (simp_all add: unat_gt_0)

function varint32_high :: "byte \<Rightarrow> u32 \<Rightarrow> byte list" where
  "varint32_high byte high =
     (if high \<noteq> 0 then (byte OR 0x80) # varint32_high (ucast (high AND 0x7F)) (drop_bit 7 high)
      else [byte])"
  by pat_completeness auto

termination
  by (relation "measure (\<lambda>(byte, high). unat high)") (auto intro: unat_drop_bit_less)

declare varint32_high.simps [simp del]

definition pb_encode_varint_32 :: "u32 \<Rightarrow> u32 \<Rightarrow> pb_ostream \<Rightarrow> pb_error + pb_ostream" where
  "pb_encode_varint_32 low high stream =
     (let (buffer, byte) = varint32_low 4 (ucast (low AND 0x7F)) (drop_bit 7 low) high;
          tail = (if high \<noteq> 0
                  then varint32_high (byte OR push_bit 4 (ucast (high AND 0x07))) (drop_bit 3 high)
                  else [byte])
      in pb_write (buffer @ tail) stream)"

definition pb_encode_varint :: "u64 \<Rightarrow> pb_ostream \<Rightarrow> pb_error + pb_ostream" where
  "pb_encode_varint value stream =
     (if value \<le> 0x7F then pb_write [ucast value] stream
      else pb_encode_varint_32 (ucast value) (ucast (drop_bit 32 value)) stream)"

definition pb_encode_svarint :: "u64 \<Rightarrow> pb_ostream \<Rightarrow> pb_error + pb_ostream" where
  "pb_encode_svarint value stream =
     (let mask = drop_bit 1 (- 1) :: u64;
          zigzagged = (if value <s 0 then NOT (push_bit 1 (value AND mask)) else push_bit 1 value)
      in pb_encode_varint zigzagged stream)"

definition pb_encode_fixed32 :: "u32 \<Rightarrow> pb_ostream \<Rightarrow> pb_error + pb_ostream" where
  "pb_encode_fixed32 val stream = pb_write (put_u32 val) stream"

definition pb_encode_fixed64 :: "u64 \<Rightarrow> pb_ostream \<Rightarrow> pb_error + pb_ostream" where
  "pb_encode_fixed64 val stream = pb_write (put_u64 val) stream"

definition pb_encode_tag :: "pb_wire_type \<Rightarrow> nat \<Rightarrow> pb_ostream \<Rightarrow> pb_error + pb_ostream" where
  "pb_encode_tag wiretype field_number stream =
     pb_encode_varint (push_bit 3 (of_nat field_number) OR of_nat (wire_type_num wiretype)) stream"

text \<open>\<open>pb_encode_string\<close>: the length, then the bytes.\<close>

definition pb_encode_string :: "byte list \<Rightarrow> pb_ostream \<Rightarrow> pb_error + pb_ostream" where
  "pb_encode_string buffer stream =
     (case pb_encode_varint (of_nat (length buffer)) stream of
        Inl e \<Rightarrow> Inl e | Inr stream' \<Rightarrow> pb_write buffer stream')"

section \<open>Varints\<close>

text \<open>The base-128 encoding of the protocol-buffers specification, as a reference.\<close>

function varint_bytes :: "u64 \<Rightarrow> byte list" where
  "varint_bytes v =
     (if v \<le> 0x7F then [ucast v]
      else (ucast (v AND 0x7F) OR 0x80) # varint_bytes (drop_bit 7 v))"
  by pat_completeness auto

termination
  by (relation "measure unat") (auto intro!: unat_drop_bit_less)

declare varint_bytes.simps [simp del]

named_theorems pb_simps \<open>evaluation of the stream layer\<close>

lemma and_7F: "x AND 127 = take_bit 7 (x :: 'a :: len word)"
  by (simp add: take_bit_eq_mask mask_eq_exp_minus_1)

lemma bit_80: "bit (0x80 :: byte) n \<longleftrightarrow> n = 7"
proof -
  have eq: "(0x80 :: byte) = push_bit 7 1" by simp
  show ?thesis
    unfolding eq by (auto simp only: bit_push_bit_iff bit_1_iff possible_bit_word) auto
qed

lemma and_80: "(x AND 0x80) \<noteq> 0 \<longleftrightarrow> bit (x :: byte) 7"
proof -
  have "x AND 0x80 = (if bit x 7 then 0x80 else 0)"
    by (rule bit_word_eqI) (auto simp only: bit_and_iff bit_80 bit_0_eq bot_apply bot_bool_def split: if_split)
  then show ?thesis by simp
qed

lemma le_7F: "v \<le> 0x7F \<longleftrightarrow> drop_bit 7 (v :: 'a :: len word) = 0" if "8 \<le> LENGTH('a)"
proof -
  have "(2 :: nat) ^ 8 \<le> 2 ^ LENGTH('a)"
    using that by (intro power_increasing) simp_all
  then have "unat (0x7F :: 'a word) = 127"
    by (simp add: unsigned_numeral take_bit_eq_mod)
  then show ?thesis
    by (simp add: word_le_nat_alt word_unat_eq_iff unat_drop_bit_div del: drop_bit_eq_div) linarith
qed

lemma bit_ge_length: "LENGTH('a) \<le> n \<Longrightarrow> \<not> bit (w :: 'a :: len word) n"
  using bit_imp_le_length by fastforce

lemma drop_bit_eq_0_bits:
  "drop_bit k (w :: 'a :: len word) = 0 \<longleftrightarrow> (\<forall>n. k \<le> n \<longrightarrow> \<not> bit w n)"
proof
  assume z: "drop_bit k w = 0"
  show "\<forall>n. k \<le> n \<longrightarrow> \<not> bit w n"
  proof (intro allI impI)
    fix n assume "k \<le> n"
    have "bit (drop_bit k w) (n - k) = bit (0 :: 'a word) (n - k)" using z by simp
    with \<open>k \<le> n\<close> show "\<not> bit w n" by (simp add: bit_drop_bit_eq)
  qed
next
  assume "\<forall>n. k \<le> n \<longrightarrow> \<not> bit w n"
  then show "drop_bit k w = 0"
    by (intro bit_word_eqI) (simp add: bit_drop_bit_eq)
qed

text \<open>What the decoders make of the reference encoding.\<close>

lemma cont_byte: "(ucast (v AND 0x7F) OR 0x80 :: byte) AND 0x80 \<noteq> 0"
    "ucast ((ucast (v AND 0x7F) OR 0x80 :: byte) AND 0x7F) = (take_bit 7 v :: 'a :: len word)"
  if "8 \<le> LENGTH('a)" for v :: "'a :: len word"
proof -
  show "(ucast (v AND 0x7F) OR 0x80 :: byte) AND 0x80 \<noteq> 0"
    unfolding and_80 bit_or_iff bit_80 by simp
  show "ucast ((ucast (v AND 0x7F) OR 0x80 :: byte) AND 0x7F) = (take_bit 7 v :: 'a word)"
    using that unfolding and_7F
    by (intro bit_word_eqI) (auto simp: bit_simps bit_80)
qed

lemma last_byte: "(ucast v :: byte) AND 0x80 = 0" "ucast ((ucast v :: byte) AND 0x7F) = (v :: 'a :: len word)"
  if "drop_bit 7 v = 0" "8 \<le> LENGTH('a)" for v :: "'a :: len word"
proof -
  have hi: "\<not> bit v n" if "7 \<le> n" for n
    using \<open>drop_bit 7 v = 0\<close> that unfolding drop_bit_eq_0_bits by simp
  then show "(ucast v :: byte) AND 0x80 = 0"
    using and_80 [of "ucast v"] by (simp add: bit_simps)
  show "ucast ((ucast v :: byte) AND 0x7F) = v"
    unfolding and_7F
  proof (rule bit_word_eqI)
    fix n assume "n < LENGTH('a)"
    then show "bit (ucast (take_bit 7 (ucast v :: byte)) :: 'a word) n = bit v n"
      using hi [of n] by (cases "n < 7") (auto simp: bit_simps)
  qed
qed

lemma join_7:
  "(result OR push_bit k (take_bit 7 v)) OR push_bit (k + 7) (drop_bit 7 v) = result OR push_bit k (v :: 'a :: len word)"
proof -
  have "push_bit k (take_bit 7 v) OR push_bit (k + 7) (drop_bit 7 v) = push_bit k v"
  proof (rule bit_word_eqI)
    fix n assume "n < LENGTH('a)"
    then show "bit (push_bit k (take_bit 7 v) OR push_bit (k + 7) (drop_bit 7 v)) n = bit (push_bit k v) n"
      by (cases "n < k"; cases "n < k + 7") (auto simp: bit_simps)
  qed
  then show ?thesis by (simp add: or.assoc)
qed

lemma varint_loop_bytes:
  "k \<le> 63 \<Longrightarrow> drop_bit (64 - k) v = 0 \<Longrightarrow>
     varint_loop k result (varint_bytes v @ rest) = Inr (result OR push_bit k v, rest)"
proof (induction v arbitrary: k result rule: varint_bytes.induct)
  case (1 v)
  show ?case
  proof (cases "v \<le> 0x7F")
    case True
    then have d: "drop_bit 7 v = 0" using le_7F [of v] by simp
    have over: "\<not> (k \<ge> 63 \<and> (ucast v AND 0xFE :: byte) \<noteq> 0)"
    proof
      assume a: "k \<ge> 63 \<and> (ucast v AND 0xFE :: byte) \<noteq> 0"
      then have "k = 63" using 1 by simp
      then have hi: "\<not> bit v n" if "1 \<le> n" for n
        using 1(3) that unfolding drop_bit_eq_0_bits by simp
      have eq: "(0xFE :: byte) = NOT 1" by simp
      have "(ucast v AND 0xFE :: byte) = 0"
      proof (rule bit_word_eqI)
        fix n assume "n < LENGTH(8)"
        then show "bit (ucast v AND 0xFE :: byte) n = bit 0 n"
          unfolding eq using hi [of n] by (cases n) (auto simp: bit_simps)
      qed
      with a show False by simp
    qed
    then show ?thesis
      using True last_byte [OF d] by (simp add: varint_bytes.simps Let_def)
  next
    case False
    have "\<not> k \<ge> 57"
    proof
      assume "k \<ge> 57"
      then have "drop_bit 7 v = 0"
        using 1(3) unfolding drop_bit_eq_0_bits by auto
      then show False using False le_7F [of v] by simp
    qed
    moreover have "drop_bit (64 - (k + 7)) (drop_bit 7 v) = 0"
      using 1(3) \<open>\<not> k \<ge> 57\<close> by (simp add: drop_bit_drop_bit)
    ultimately show ?thesis
      using False 1(1) [OF False, of "k + 7"] cont_byte [of v]
      by (subst varint_bytes.simps) (simp add: Let_def join_7)
  qed
qed

lemma pb_decode_varint_bytes [pb_simps]:
  "pb_decode_varint (varint_bytes v @ rest) = Inr (v, rest)"
  unfolding pb_decode_varint_def
  by (subst varint_loop_bytes) (simp_all add: drop_bit_eq_0_bits bit_ge_length)

lemma cont_byte_32:
  "ucast ((ucast ((v :: u64) AND 0x7F) OR 0x80 :: byte) AND 0x7F) = (take_bit 7 (ucast v) :: u32)"
  unfolding and_7F by (intro bit_word_eqI) (auto simp: bit_simps bit_80)

lemma last_byte_32:
  assumes "drop_bit 7 (v :: u64) = 0"
  shows "ucast ((ucast v :: byte) AND 0x7F) = (ucast v :: u32)" "ucast (ucast v :: byte) = (ucast v :: u32)"
proof -
  have hi: "\<not> bit v n" if "7 \<le> n" for n
    using assms that unfolding drop_bit_eq_0_bits by simp
  show "ucast ((ucast v :: byte) AND 0x7F) = (ucast v :: u32)"
    unfolding and_7F
  proof (rule bit_word_eqI)
    fix n assume "n < LENGTH(32)"
    then show "bit (ucast (take_bit 7 (ucast v :: byte)) :: u32) n = bit (ucast v :: u32) n"
      using hi [of n] by (cases "n < 7") (auto simp: bit_simps)
  qed
  show "ucast (ucast v :: byte) = (ucast v :: u32)"
  proof (rule bit_word_eqI)
    fix n assume "n < LENGTH(32)"
    then show "bit (ucast (ucast v :: byte) :: u32) n = bit (ucast v :: u32) n"
      using hi [of n] by (cases "n < 7") (auto simp: bit_simps)
  qed
qed

lemma and_0F_70: "b AND 0x0F = b \<Longrightarrow> b AND 0x70 = (0 :: byte)"
proof -
  assume "b AND 0x0F = b"
  then have "b AND 0x70 = (b AND 0x0F) AND 0x70" by simp
  also have "\<dots> = b AND (0x0F AND 0x70)" by (rule and.assoc)
  finally show ?thesis by simp
qed

lemma nibble:
  assumes "drop_bit 4 (v :: u64) = 0"
  shows "(ucast v :: byte) AND 0x70 = 0" "(ucast v :: byte) AND 0x0F = ucast v"
proof -
  have hi: "\<not> bit v n" if "4 \<le> n" for n
    using assms that unfolding drop_bit_eq_0_bits by simp
  have m: "(0x0F :: byte) = mask 4" by (simp add: mask_eq_exp_minus_1)
  show f: "(ucast v :: byte) AND 0x0F = ucast v"
    unfolding m
  proof (rule bit_word_eqI)
    fix n assume "n < LENGTH(8)"
    then show "bit ((ucast v :: byte) AND mask 4) n = bit (ucast v :: byte) n"
      using hi [of n] by (cases "n < 4") (auto simp: bit_simps)
  qed
  show "(ucast v :: byte) AND 0x70 = 0" by (rule and_0F_70 [OF f])
qed

lemma ucast_drop_7: "push_bit (k + 7) (ucast (drop_bit 7 (v :: u64)) :: u32) = push_bit (k + 7) (drop_bit 7 (ucast v))"
  if "drop_bit 32 v = 0"
proof -
  have "(ucast (drop_bit 7 v) :: u32) = drop_bit 7 (ucast v)"
  proof (rule bit_word_eqI)
    fix n assume "n < LENGTH(32)"
    then show "bit (ucast (drop_bit 7 v) :: u32) n = bit (drop_bit 7 (ucast v) :: u32) n"
      using that unfolding drop_bit_eq_0_bits by (cases "n + 7 < 32") (auto simp: bit_simps)
  qed
  then show ?thesis by simp
qed

lemma varint32_last:
  assumes "k \<le> 28" "b AND 0x80 = 0" "k = 28 \<Longrightarrow> b AND 0x70 = 0"
  shows "varint32_loop k r (b # rest) =
    Inr (r OR push_bit k (ucast (if k = 28 then b AND 0x0F else b AND 0x7F)), rest)"
  using assms by (cases "k = 28") (simp_all add: Let_def)

lemma varint32_more:
  assumes "k < 28" "b AND 0x80 \<noteq> 0"
  shows "varint32_loop k r (b # rest) = varint32_loop (k + 7) (r OR push_bit k (ucast (b AND 0x7F))) rest"
  using assms by (simp add: Let_def)

lemma varint32_loop_bytes:
  "k \<in> {7, 14, 21, 28} \<Longrightarrow> drop_bit (32 - k) v = 0 \<Longrightarrow>
     varint32_loop k result (varint_bytes v @ rest) = Inr (result OR push_bit k (ucast v), rest)"
proof (induction v arbitrary: k result rule: varint_bytes.induct)
  case (1 v)
  have k: "k \<le> 28" "\<not> 32 \<le> k" using 1(2) by auto
  show ?case
  proof (cases "v \<le> 0x7F")
    case True
    then have d: "drop_bit 7 v = 0" using le_7F [of v] by simp
    have lb: "(ucast v :: byte) AND 0x80 = 0" using last_byte(1) [OF d] by simp
    have vb: "varint_bytes v = [ucast v]" using True by (simp add: varint_bytes.simps [of v])
    show ?thesis
    proof (cases "k = 28")
      case 28: True
      then have "drop_bit 4 v = 0" using 1(3) by simp
      note n = nibble [OF this]
      have "varint32_loop k result (ucast v # rest) =
          Inr (result OR push_bit k (ucast (if k = 28 then (ucast v :: byte) AND 0x0F else ucast v AND 0x7F)), rest)"
        using varint32_last [OF k(1) lb] n(1) by blast
      then show ?thesis
        unfolding vb append_Cons append_Nil if_P [OF 28] n(2) last_byte_32(2) [OF d] .
    next
      case False
      have "varint32_loop k result (ucast v # rest) =
          Inr (result OR push_bit k (ucast (if k = 28 then (ucast v :: byte) AND 0x0F else ucast v AND 0x7F)), rest)"
        using varint32_last [OF k(1) lb] False by blast
      then show ?thesis
        unfolding vb append_Cons append_Nil if_not_P [OF False] last_byte_32(1) [OF d] .
    qed
  next
    case False
    have "k \<noteq> 28"
    proof
      assume "k = 28"
      then have "drop_bit 7 v = 0" using 1(3) unfolding drop_bit_eq_0_bits by auto
      then show False using False le_7F [of v] by simp
    qed
    then have "k + 7 \<in> {7, 14, 21, 28}" "drop_bit (32 - (k + 7)) (drop_bit 7 v) = 0"
      using 1(2,3) by (auto simp: drop_bit_drop_bit)
    moreover have "drop_bit 32 v = 0"
      using 1(3) unfolding drop_bit_eq_0_bits by auto
    ultimately have "varint32_loop (k + 7) (result OR push_bit k (take_bit 7 (ucast v))) (varint_bytes (drop_bit 7 v) @ rest)
        = Inr (result OR push_bit k (ucast v), rest)"
      using 1(1) [OF False, of "k + 7"] by (simp only: ucast_drop_7 join_7)
    moreover have "varint_bytes v = (ucast (v AND 0x7F) OR 0x80) # varint_bytes (drop_bit 7 v)"
      using False by (subst varint_bytes.simps) simp
    ultimately show ?thesis
      using varint32_more [of k "ucast (v AND 0x7F) OR 0x80" result "varint_bytes (drop_bit 7 v) @ rest"]
        k(1) \<open>k \<noteq> 28\<close> cont_byte(1) [of v]
      by (simp only: cont_byte_32 append_Cons) simp
  qed
qed

lemma pb_decode_varint32_eof_bytes [pb_simps]:
  assumes "drop_bit 32 v = 0"
  shows "pb_decode_varint32_eof (varint_bytes v @ rest) = (Inr (ucast v, rest), False)"
proof (cases "v \<le> 0x7F")
  case True
  then have d: "drop_bit 7 v = 0" using le_7F [of v] by simp
  show ?thesis
    using True last_byte(1) [OF d] last_byte_32(2) [OF d]
    by (simp add: pb_decode_varint32_eof_def varint_bytes.simps [of v])
next
  case False
  have "varint32_loop 7 (take_bit 7 (ucast v)) (varint_bytes (drop_bit 7 v) @ rest)
      = Inr (take_bit 7 (ucast v) OR push_bit 7 (ucast (drop_bit 7 v)), rest)"
    using assms by (intro varint32_loop_bytes) (simp_all add: drop_bit_drop_bit)
  also have "take_bit 7 (ucast v) OR push_bit 7 (ucast (drop_bit 7 v)) = (ucast v :: u32)"
    using ucast_drop_7 [OF assms, of 0] join_7 [of 0 0 "ucast v :: u32"] by simp
  finally show ?thesis
    using False cont_byte(1) [of v] cont_byte_32 [of v]
    by (subst varint_bytes.simps) (simp add: pb_decode_varint32_eof_def)
qed

lemma pb_decode_varint32_bytes [pb_simps]:
  "drop_bit 32 v = 0 \<Longrightarrow> pb_decode_varint32 (varint_bytes v @ rest) = Inr (ucast v, rest)"
  by (simp add: pb_decode_varint32_def pb_decode_varint32_eof_bytes)

text \<open>The two loops of the encoder produce the reference encoding.\<close>

lemma varint_bytes_more:
  "drop_bit 7 v \<noteq> 0 \<Longrightarrow> varint_bytes v = (ucast (v AND 0x7F) OR 0x80) # varint_bytes (drop_bit 7 v)"
  using le_7F [of v] by (subst varint_bytes.simps) simp

lemma varint_bytes_last: "drop_bit 7 v = 0 \<Longrightarrow> varint_bytes v = [ucast v]"
  using le_7F [of v] by (subst varint_bytes.simps) simp

lemma varint32_high_bytes:
  "drop_bit 39 w = 0 \<Longrightarrow> varint32_high (ucast (w AND 0x7F)) (ucast (drop_bit 7 w)) = varint_bytes w"
proof (induction w rule: varint_bytes.induct)
  case (1 w)
  have z: "(ucast (drop_bit 7 w) :: u32) = 0 \<longleftrightarrow> drop_bit 7 w = 0"
  proof
    assume u: "(ucast (drop_bit 7 w) :: u32) = 0"
    show "drop_bit 7 w = 0"
      unfolding drop_bit_eq_0_bits
    proof (intro allI impI)
      fix n :: nat assume n: "7 \<le> n"
      have "bit (ucast (drop_bit 7 w) :: u32) (n - 7) = bit (0 :: u32) (n - 7)" using u by simp
      then show "\<not> bit w n"
        using n 1(2) unfolding drop_bit_eq_0_bits by (cases "n < 39") (auto simp: bit_simps)
    qed
  qed simp
  show ?case
  proof (cases "drop_bit 7 w = 0")
    case True
    have "(ucast (w AND 0x7F) :: byte) = ucast w"
      unfolding and_7F
    proof (rule bit_word_eqI)
      fix n assume "n < LENGTH(8)"
      then show "bit (ucast (take_bit 7 w) :: byte) n = bit (ucast w :: byte) n"
        using True unfolding drop_bit_eq_0_bits by (cases "n < 7") (auto simp: bit_simps)
    qed
    then show ?thesis
      using True z by (simp add: varint32_high.simps varint_bytes_last)
  next
    case False
    have "drop_bit 7 (ucast (drop_bit 7 w) :: u32) = ucast (drop_bit 7 (drop_bit 7 w))"
    proof (rule bit_word_eqI)
      fix n assume "n < LENGTH(32)"
      then show "bit (drop_bit 7 (ucast (drop_bit 7 w)) :: u32) n = bit (ucast (drop_bit 7 (drop_bit 7 w)) :: u32) n"
        using 1(2) unfolding drop_bit_eq_0_bits by (cases "n < 25") (auto simp: bit_simps)
    qed
    moreover have "(ucast ((ucast (drop_bit 7 w) :: u32) AND 0x7F) :: byte) = ucast (drop_bit 7 w AND 0x7F)"
      unfolding and_7F by (rule bit_word_eqI) (auto simp: bit_simps)
    moreover have "\<not> w \<le> 0x7F" "drop_bit 39 (drop_bit 7 w) = 0"
      using False le_7F [of w] 1(2) unfolding drop_bit_eq_0_bits by (auto simp: bit_simps)
    ultimately show ?thesis
      using 1(1) False z by (subst varint32_high.simps) (simp only: varint_bytes_more [OF False], simp)
  qed
qed

definition varint32_tail :: "byte list \<times> byte \<Rightarrow> u32 \<Rightarrow> byte list" where
  "varint32_tail bb high = fst bb @ (if high \<noteq> 0
     then varint32_high (snd bb OR push_bit 4 (ucast (high AND 0x07))) (drop_bit 3 high)
     else [snd bb])"

definition joined :: "nat \<Rightarrow> u32 \<Rightarrow> u32 \<Rightarrow> u64" where
  "joined m high low = push_bit m (ucast high) OR ucast low"

lemma joined_facts:
  assumes "7 \<le> m" "m \<le> 32"
  shows "drop_bit 7 (joined m high low) = joined (m - 7) high (drop_bit 7 low)"
    and "(ucast (joined m high low AND 0x7F) :: byte) = ucast (low AND 0x7F)"
proof -
  show "drop_bit 7 (joined m high low) = joined (m - 7) high (drop_bit 7 low)"
    unfolding joined_def
  proof (rule bit_word_eqI)
    fix n assume "n < LENGTH(64)"
    have "n + 7 < 64 \<or> \<not> bit high (n + 7 - m)"
      using bit_ge_length [where ?'a = 32, of "n + 7 - m" high] assms by (cases "n + 7 < 64") auto
    moreover have "n - (m - 7) = 7 + n - m" "n + 7 - m = 7 + n - m" "m - 7 \<le> n \<longleftrightarrow> m \<le> 7 + n"
      using assms by linarith+
    ultimately show "bit (drop_bit 7 (push_bit m (ucast high) OR ucast low :: u64)) n
        = bit (push_bit (m - 7) (ucast high) OR ucast (drop_bit 7 low) :: u64) n"
      using assms bit_ge_length [where ?'a = 32, of "7 + n" low]
      by (cases "m \<le> 7 + n"; cases "7 + n < 64") (auto simp: bit_simps)
  qed
  show "(ucast (joined m high low AND 0x7F) :: byte) = ucast (low AND 0x7F)"
    using assms unfolding joined_def and_7F by (intro bit_word_eqI) (auto simp: bit_simps)
qed

lemma joined_eq_0: "m \<le> 32 \<Longrightarrow> joined m high low = 0 \<longleftrightarrow> low = 0 \<and> high = 0" if "drop_bit m low = 0"
proof -
  assume m: "m \<le> 32"
  show ?thesis
  proof
    assume z: "joined m high low = 0"
    have b: "\<not> bit (joined m high low) n" for n using z by simp
    have "\<not> bit high n" for n
      using b [of "n + m"] m bit_ge_length [where ?'a = 32, of n high]
      by (cases "n < 32") (auto simp: joined_def bit_simps)
    moreover have "\<not> bit low n" for n
      using b [of n] bit_ge_length [where ?'a = 32, of n low]
      by (cases "n < 32") (auto simp: joined_def bit_simps)
    ultimately show "low = 0 \<and> high = 0"
      by (auto intro: bit_word_eqI)
  qed (simp add: joined_def)
qed

lemma high_tail_facts:
  assumes "drop_bit 4 low = 0"
  shows "(ucast (low AND 0x7F) OR push_bit 4 (ucast (high AND 0x07)) :: byte) = ucast (joined 4 high low AND 0x7F)"
    and "drop_bit 3 high = ucast (drop_bit 7 (joined 4 high low))" and "drop_bit 39 (joined 4 high low) = 0"
proof -
  have lo: "\<not> bit low n" if "4 \<le> n" for n
    using assms that unfolding drop_bit_eq_0_bits by simp
  have m: "(0x07 :: u32) = mask 3" by (simp add: mask_eq_exp_minus_1)
  show "(ucast (low AND 0x7F) OR push_bit 4 (ucast (high AND 0x07)) :: byte) = ucast (joined 4 high low AND 0x7F)"
    unfolding joined_def and_7F m
  proof (rule bit_word_eqI)
    fix n assume "n < LENGTH(8)"
    then show "bit (ucast (take_bit 7 low) OR push_bit 4 (ucast (high AND mask 3)) :: byte) n
        = bit (ucast (take_bit 7 (push_bit 4 (ucast high) OR ucast low :: u64)) :: byte) n"
      using lo [of n] by (auto simp: bit_simps)
  qed
  show "drop_bit 3 high = ucast (drop_bit 7 (joined 4 high low))"
    unfolding joined_def
  proof (rule bit_word_eqI)
    fix n assume "n < LENGTH(32)"
    then show "bit (drop_bit 3 high) n = bit (ucast (drop_bit 7 (push_bit 4 (ucast high) OR ucast low :: u64)) :: u32) n"
      using lo [of "n + 7"] by (auto simp: bit_simps add.commute)
  qed
  show "drop_bit 39 (joined 4 high low) = 0"
    unfolding drop_bit_eq_0_bits joined_def
    using lo bit_ge_length [where ?'a = 32, of _ high] by (auto simp: bit_simps)
qed

lemma ucast_and_7F: "drop_bit 7 (w :: 'a :: len word) = 0 \<Longrightarrow> (ucast (w AND 0x7F) :: byte) = ucast w"
  unfolding and_7F
proof (rule bit_word_eqI)
  fix n assume "drop_bit 7 w = 0" "n < LENGTH(8)"
  then show "bit (ucast (take_bit 7 w) :: byte) n = bit (ucast w :: byte) n"
    unfolding drop_bit_eq_0_bits by (cases "n < 7") (auto simp: bit_simps)
qed

lemma varint32_low_bytes:
  "m = 4 + 7 * i \<Longrightarrow> i \<le> 4 \<Longrightarrow> drop_bit m low = 0 \<Longrightarrow>
     varint32_tail (varint32_low i (ucast (low AND 0x7F)) (drop_bit 7 low) high) high
       = varint_bytes (joined m high low)"
proof (induction i arbitrary: m low)
  case 0
  then have low: "drop_bit 4 low = 0" and m: "m = 4" by simp_all
  have none: "ucast (low AND 0x7F) = (ucast (joined 4 0 low) :: byte)"
  proof -
    have "drop_bit 7 low = 0" using low unfolding drop_bit_eq_0_bits by simp
    from ucast_and_7F [OF this] show ?thesis
      by (simp only: joined_def) (rule bit_word_eqI, auto simp: bit_simps)
  qed
  have seven: "drop_bit 7 (joined 4 0 low) = 0"
    using low unfolding drop_bit_eq_0_bits joined_def by (auto simp: bit_simps)
  show ?case
  proof (cases "high = 0")
    case True
    then show ?thesis
      using varint_bytes_last [OF seven] none by (simp add: varint32_tail_def m)
  next
    case False
    then show ?thesis
      using varint32_high_bytes [OF high_tail_facts(3) [OF low, of high]] high_tail_facts(1,2) [OF low, of high]
      by (simp add: varint32_tail_def m)
  qed
next
  case (Suc i)
  have m: "7 \<le> m" "m \<le> 32" "m - 7 = 4 + 7 * i" "7 + (m - 7) = m"
    using Suc.prems by simp_all
  have low': "drop_bit (m - 7) (drop_bit 7 low) = 0"
    using Suc.prems(3) m(4) by (simp add: drop_bit_drop_bit add.commute)
  note j = joined_facts [OF m(1,2), of high low]
  have z: "drop_bit 7 (joined m high low) = 0 \<longleftrightarrow> drop_bit 7 low = 0 \<and> high = 0"
    unfolding j(1) using joined_eq_0 [OF low', of high] m(2) by simp
  show ?case
  proof (cases "drop_bit 7 low = 0 \<and> high = 0")
    case True
    then have "varint_bytes (joined m high low) = [ucast (joined m high low)]"
      using z by (intro varint_bytes_last) simp
    moreover have "ucast (low AND 0x7F) = (ucast (joined m high low) :: byte)"
    proof -
      have "drop_bit 7 low = 0" using True by simp
      from ucast_and_7F [OF this] show ?thesis
        using True by (simp only: joined_def) (rule bit_word_eqI, auto simp: bit_simps)
    qed
    ultimately show ?thesis
      using True by (simp add: varint32_tail_def)
  next
    case False
    obtain buf b where r: "varint32_low i (ucast (drop_bit 7 low AND 0x7F)) (drop_bit 7 (drop_bit 7 low)) high = (buf, b)"
      by fastforce
    have "varint32_tail (buf, b) high = varint_bytes (joined (m - 7) high (drop_bit 7 low))"
      using Suc.IH [OF m(3) _ low'] Suc.prems(2) r by simp
    moreover have "varint_bytes (joined m high low) =
        (ucast (low AND 0x7F) OR 0x80) # varint_bytes (joined (m - 7) high (drop_bit 7 low))"
      using varint_bytes_more [of "joined m high low"] False z unfolding j by blast
    moreover have "varint32_low (Suc i) (ucast (low AND 0x7F)) (drop_bit 7 low) high
        = ((ucast (low AND 0x7F) OR 0x80) # buf, b)"
      unfolding varint32_low.simps r Let_def split_conv using False by (intro if_P) blast
    moreover have "varint32_tail (x # buf, b) high = x # varint32_tail (buf, b) high" for x
      by (simp add: varint32_tail_def)
    ultimately show ?thesis by simp
  qed
qed

lemma pb_encode_varint_bytes: "pb_encode_varint v stream = pb_write (varint_bytes v) stream"
proof (cases "v \<le> 0x7F")
  case True
  then show ?thesis by (simp add: pb_encode_varint_def varint_bytes.simps [of v])
next
  case False
  have "joined 32 (ucast (drop_bit 32 v)) (ucast v) = v"
    unfolding joined_def
  proof (rule bit_word_eqI)
    fix n assume "n < LENGTH(64)"
    then show "bit (push_bit 32 (ucast (ucast (drop_bit 32 v) :: u32)) OR ucast (ucast v :: u32) :: u64) n = bit v n"
      by (cases "n < 32") (auto simp: bit_simps)
  qed
  moreover have "drop_bit 32 (ucast v :: u32) = 0"
    by (simp add: drop_bit_eq_0_bits bit_ge_length)
  ultimately have "varint32_tail (varint32_low 4 (ucast ((ucast v :: u32) AND 0x7F)) (drop_bit 7 (ucast v)) (ucast (drop_bit 32 v)))
      (ucast (drop_bit 32 v)) = varint_bytes v"
    using varint32_low_bytes [of 32 4 "ucast v" "ucast (drop_bit 32 v)"] by simp
  moreover obtain buf b where "varint32_low 4 (ucast ((ucast v :: u32) AND 0x7F)) (drop_bit 7 (ucast v))
      (ucast (drop_bit 32 v)) = (buf, b)"
    by fastforce
  ultimately show ?thesis
    using False
    by (simp only: pb_encode_varint_def pb_encode_varint_32_def varint32_tail_def Let_def if_False
        split_conv fst_conv snd_conv)
qed

lemma length_varint_bytes: "drop_bit (7 * Suc n) v = 0 \<Longrightarrow> length (varint_bytes v) \<le> Suc n"
proof (induction n arbitrary: v)
  case 0
  then show ?case by (simp add: varint_bytes_last)
next
  case (Suc n)
  then have "length (varint_bytes (drop_bit 7 v)) \<le> Suc n"
    by (intro Suc.IH) (simp add: drop_bit_drop_bit add.commute)
  then show ?case
    by (cases "drop_bit 7 v = 0") (simp_all add: varint_bytes_last varint_bytes_more)
qed

lemma length_varint_bytes_10: "length (varint_bytes v) \<le> 10"
  using length_varint_bytes [of 9 v] by (simp add: drop_bit_eq_0_bits bit_ge_length)

lemma varint_bytes_nonempty: "varint_bytes v \<noteq> []"
  by (subst varint_bytes.simps) simp

lemma bit_times_2: "bit (w * 2) n \<longleftrightarrow> n \<noteq> 0 \<and> n < 64 \<and> bit w (n - 1)" for w :: u64
  by (subst mult.commute) (auto simp: bit_double_iff bit_ge_length)

lemma svarint_zigzag:
  "pb_decode_svarint (varint_bytes (if v <s 0 then NOT (push_bit 1 (v AND drop_bit 1 (- 1))) else push_bit 1 v) @ rest)
     = Inr (v, rest)"
proof -
  have sgn: "v <s 0 \<longleftrightarrow> bit v 63"
    using bit_last_iff [of v] by (simp add: word_sless_alt)
  have even: "(push_bit 1 w AND 1 :: u64) = 0" for w :: u64
    by (simp add: and_one_eq mod_2_eq_odd)
  have odd: "(NOT (push_bit 1 w) AND 1 :: u64) \<noteq> 0" for w :: u64
    by (simp add: and_one_eq mod_2_eq_odd even_not_iff)
  show ?thesis
  proof (cases "v <s 0")
    case True
    have "NOT (drop_bit 1 (NOT (push_bit 1 (v AND drop_bit 1 (- 1))))) = v"
    proof (rule bit_word_eqI)
      fix n assume "n < LENGTH(64)"
      then show "bit (NOT (drop_bit 1 (NOT (push_bit 1 (v AND drop_bit 1 (- 1)))))) n = bit v n"
        using True [unfolded sgn] by (cases "n = 63") (auto simp: bit_simps bit_times_2 less_Suc_eq)
    qed
    moreover define z where "z = NOT (push_bit 1 (v AND drop_bit 1 (- 1)))"
    moreover have "z AND 1 \<noteq> 0"
      unfolding z_def by (rule odd)
    ultimately show ?thesis
      using True by (simp add: pb_decode_svarint_def pb_decode_varint_bytes flip: z_def)
  next
    case False
    have "drop_bit 1 (push_bit 1 v) = v"
    proof (rule bit_word_eqI)
      fix n assume "n < LENGTH(64)"
      then show "bit (drop_bit 1 (push_bit 1 v)) n = bit v n"
        using False [unfolded sgn] by (cases "n = 63") (auto simp: bit_simps bit_times_2 less_Suc_eq)
    qed
    moreover define z where "z = push_bit 1 v"
    moreover have "z AND 1 = 0"
      unfolding z_def by (rule even)
    ultimately show ?thesis
      using False by (simp add: pb_decode_svarint_def pb_decode_varint_bytes flip: z_def)
  qed
qed

lemma fixed_bytes:
  "pb_decode_fixed32 (put_u32 a @ rest) = Inr (a, rest)"
  "pb_decode_fixed64 (put_u64 b @ rest) = Inr (b, rest)"
  by (simp_all add: pb_decode_fixed32_def pb_decode_fixed64_def pb_read_def length_put get_put_u64)
     (simp add: put_u32_def get_put_u32)

section \<open>Properties\<close>

text \<open>
  Variable-length integers.  The encoder, which avoids 64-bit shifts with two 32-bit loops,
  writes for every 64-bit value exactly the base-128 encoding of the protocol-buffers
  specification, in at most 10 bytes; the 64-bit decoder reads it back whatever follows, the
  32-bit one whenever the value fits 32 bits; the zigzag and fixed-width forms read back too.
\<close>

theorem varint_round_trip:
  "pb_encode_varint v stream = pb_write (varint_bytes v) stream \<and> length (varint_bytes v) \<le> 10 \<and>
   pb_decode_varint (varint_bytes v @ rest) = Inr (v, rest) \<and>
   pb_decode_varint32 (varint_bytes (ucast w) @ rest) = Inr (w, rest) \<and>
   (\<exists>zz. pb_encode_svarint v stream = pb_write zz stream \<and> pb_decode_svarint (zz @ rest) = Inr (v, rest)) \<and>
   (\<exists>f. pb_encode_fixed64 v stream = pb_write f stream \<and> pb_decode_fixed64 (f @ rest) = Inr (v, rest)) \<and>
   (\<exists>f. pb_encode_fixed32 w stream = pb_write f stream \<and> pb_decode_fixed32 (f @ rest) = Inr (w, rest))"
proof -
  have "drop_bit 32 (ucast w :: u64) = 0"
    by (simp add: drop_bit_eq_0_bits bit_simps bit_ge_length)
  moreover have "(ucast (ucast w :: u64) :: u32) = w"
    by (rule bit_word_eqI) (simp add: bit_simps)
  moreover have "\<exists>zz. pb_encode_svarint v stream = pb_write zz stream \<and> pb_decode_svarint (zz @ rest) = Inr (v, rest)"
    using svarint_zigzag [of v rest]
    by (auto simp: pb_encode_svarint_def pb_encode_varint_bytes Let_def)
  ultimately show ?thesis
    by (simp add: pb_encode_varint_bytes length_varint_bytes_10 pb_decode_varint_bytes
        pb_decode_varint32_bytes pb_encode_fixed32_def pb_encode_fixed64_def)
       (use fixed_bytes in blast)
qed

end
