(* ===== verification/Pb.thy ===== *)
theory Pb
  imports PbStream
begin

text \<open>
  The message layer of nanopb (\<open>pb_decode.c\<close>, \<open>pb_encode.c\<close>): fields, presence, submessages and
  the two loops over a message.

  A message is a HOL record; a field descriptor (\<open>pb_field_iter_t\<close>) carries the field's tag, its
  presence rule and a reader and a writer in place of the offset of its data.  The descriptors of
  this firmware use static allocation only and have no required, fixed-count, callback, extension
  or default-valued fields, so those branches of the library are not modelled.  \<open>size_t\<close> counts are
  natural numbers, and a failed call returns its error only: the caller of a failed \<open>pb_decode\<close>
  never looks at the message.
\<close>

section \<open>Descriptors\<close>

datatype pb_ltype = LT_BOOL | LT_VARINT | LT_UVARINT | LT_SVARINT | LT_FIXED32 | LT_FIXED64

text \<open>
  The data of a field.  The cell of a scalar of \<open>data_size\<close> bytes is its memory content, zero-extended
  to 64 bits.  A bytes field \<open>{size; bytes[n]}\<close> is the list of its \<open>size\<close> valid bytes, and its
  \<open>data_size\<close> that of the struct; a string field is the whole \<open>char\<close> array.  An array
  \<open>{count; cell[n]}\<close> is the list of its \<open>count\<close> cells.  A submessage is given by its decoder
  (\<open>pb_decode_inner\<close> on its descriptor), its encoder (\<open>pb_encode\<close>), what initialises it and whether
  all its fields have their default value.
\<close>

datatype 'm pb_data =
    Pb_Scalar pb_ltype nat "'m \<Rightarrow> u64" "u64 \<Rightarrow> 'm \<Rightarrow> 'm"
  | Pb_Bytes nat "'m \<Rightarrow> byte list" "byte list \<Rightarrow> 'm \<Rightarrow> 'm"
  | Pb_String nat "'m \<Rightarrow> byte list" "byte list \<Rightarrow> 'm \<Rightarrow> 'm"
  | Pb_Array pb_ltype nat nat "'m \<Rightarrow> u64 list" "u64 list \<Rightarrow> 'm \<Rightarrow> 'm"
  | Pb_Message "pb_istream \<Rightarrow> 'm \<Rightarrow> pb_error + 'm" "'m \<Rightarrow> pb_ostream \<Rightarrow> pb_error + pb_ostream"
      "'m \<Rightarrow> 'm" "'m \<Rightarrow> bool"

text \<open>
  \<open>Oneof which enter clear\<close>: \<open>which\<close> reads \<open>which_body\<close>, \<open>enter\<close> selects this member with a zeroed
  content, \<open>clear\<close> sets \<open>which_body\<close> to 0.
\<close>

datatype 'm pb_presence = Singular | Optional "'m \<Rightarrow> bool" "bool \<Rightarrow> 'm \<Rightarrow> 'm"
  | Oneof "'m \<Rightarrow> nat" "'m \<Rightarrow> 'm" "'m \<Rightarrow> 'm"

record 'm pb_field =
  f_tag :: nat
  f_presence :: "'m pb_presence"
  f_data :: "'m pb_data"

definition pb_field_iter_find :: "'m pb_field list \<Rightarrow> nat \<Rightarrow> 'm pb_field option" where
  "pb_field_iter_find fs tag = find (\<lambda>f. f_tag f = tag) fs"

section \<open>Decoding a field\<close>

definition pb_dec_bool :: "pb_istream \<Rightarrow> pb_error + u64 \<times> pb_istream" where
  "pb_dec_bool stream = map_sum id (\<lambda>(b, rest). (of_bool b, rest)) (pb_decode_bool stream)"

definition pb_dec_varint :: "pb_ltype \<Rightarrow> nat \<Rightarrow> pb_istream \<Rightarrow> pb_error + u64 \<times> pb_istream" where
  "pb_dec_varint ltype data_size stream =
     (if ltype = LT_UVARINT
      then (case pb_decode_varint stream of
              Inl e \<Rightarrow> Inl e
            | Inr (value, rest) \<Rightarrow>
                (if data_size \<notin> {1, 2, 4, 8} then Inl Invalid_Data_Size
                 else let clamped = take_bit (8 * data_size) value in
                   if clamped \<noteq> value then Inl Integer_Too_Large else Inr (clamped, rest)))
      else (case (if ltype = LT_SVARINT then pb_decode_svarint stream
                  else map_sum id (\<lambda>(value, rest).
                         (if data_size = 8 then value else signed_take_bit 31 value, rest))
                       (pb_decode_varint stream)) of
              Inl e \<Rightarrow> Inl e
            | Inr (svalue, rest) \<Rightarrow>
                (if data_size \<notin> {1, 2, 4, 8} then Inl Invalid_Data_Size
                 else let clamped = signed_take_bit (8 * data_size - 1) svalue in
                   if clamped \<noteq> svalue then Inl Integer_Too_Large
                   else Inr (take_bit (8 * data_size) svalue, rest))))"

text \<open>The scalar cases of \<open>decode_basic_field\<close>; the value is the cell written.\<close>

definition decode_scalar :: "pb_ltype \<Rightarrow> nat \<Rightarrow> pb_wire_type \<Rightarrow> pb_istream \<Rightarrow> pb_error + u64 \<times> pb_istream" where
  "decode_scalar ltype data_size wire_type stream =
     (case ltype of
        LT_BOOL \<Rightarrow> (if wire_type \<noteq> PB_WT_VARINT \<and> wire_type \<noteq> PB_WT_PACKED then Inl Wrong_Wire_Type
                    else pb_dec_bool stream)
      | LT_FIXED32 \<Rightarrow> (if wire_type \<noteq> PB_WT_32BIT \<and> wire_type \<noteq> PB_WT_PACKED then Inl Wrong_Wire_Type
                    else map_sum id (\<lambda>(v, rest). (ucast v, rest)) (pb_decode_fixed32 stream))
      | LT_FIXED64 \<Rightarrow> (if wire_type \<noteq> PB_WT_64BIT \<and> wire_type \<noteq> PB_WT_PACKED then Inl Wrong_Wire_Type
                    else pb_decode_fixed64 stream)
      | _ \<Rightarrow> (if wire_type \<noteq> PB_WT_VARINT \<and> wire_type \<noteq> PB_WT_PACKED then Inl Wrong_Wire_Type
                    else pb_dec_varint ltype data_size stream))"

definition pb_dec_bytes :: "nat \<Rightarrow> pb_istream \<Rightarrow> pb_error + byte list \<times> pb_istream" where
  "pb_dec_bytes data_size stream =
     (case pb_decode_varint32 stream of
        Inl e \<Rightarrow> Inl e
      | Inr (sz, rest) \<Rightarrow>
          (if unat sz > 65535 then Inl Bytes_Overflow
           else if unat sz + 2 > data_size then Inl Bytes_Overflow
           else pb_read (unat sz) rest))"

text \<open>\<open>pb_dec_string\<close> writes the bytes and a NUL over the front of the array \<open>dest\<close>.\<close>

definition pb_dec_string :: "nat \<Rightarrow> byte list \<Rightarrow> pb_istream \<Rightarrow> pb_error + byte list \<times> pb_istream" where
  "pb_dec_string data_size dest stream =
     (case pb_decode_varint32 stream of
        Inl e \<Rightarrow> Inl e
      | Inr (sz, rest) \<Rightarrow>
          (if sz = - 1 then Inl Size_Too_Large
           else if unat sz + 1 > data_size then Inl String_Overflow
           else map_sum id (\<lambda>(bs, rest'). (bs @ 0 # drop (unat sz + 1) dest, rest'))
                  (pb_read (unat sz) rest)))"

text \<open>
  \<open>pb_dec_submessage\<close>: the flags are \<open>PB_DECODE_NOINIT\<close>, so the content present is decoded into.
\<close>

definition pb_dec_submessage ::
  "(pb_istream \<Rightarrow> 'm \<Rightarrow> pb_error + 'm) \<Rightarrow> pb_istream \<Rightarrow> 'm \<Rightarrow> pb_error + 'm \<times> pb_istream" where
  "pb_dec_submessage decode_inner stream m =
     (case pb_string_substream stream of
        Inl e \<Rightarrow> Inl e
      | Inr (substream, rest) \<Rightarrow>
          (case decode_inner substream m of Inl e \<Rightarrow> Inl e | Inr m' \<Rightarrow> Inr (m', rest)))"

text \<open>
  The packed array of \<open>decode_static_field\<close>: elements are decoded while there are bytes and room.
  Bytes left over are an overflow.  (When an element fails with bytes left, the code keeps the
  element's message.)
\<close>

fun packed_loop :: "nat \<Rightarrow> pb_ltype \<Rightarrow> nat \<Rightarrow> pb_istream \<Rightarrow> u64 list \<Rightarrow> pb_error + u64 list" where
  "packed_loop room ltype data_size [] cells = Inr cells"
| "packed_loop 0 ltype data_size (b # bs) cells = Inl Array_Overflow"
| "packed_loop (Suc room) ltype data_size (b # bs) cells =
     (case decode_scalar ltype data_size PB_WT_PACKED (b # bs) of
        Inl e \<Rightarrow> Inl e
      | Inr (cell, rest) \<Rightarrow> packed_loop room ltype data_size rest (cells @ [cell]))"

definition decode_array ::
  "pb_ltype \<Rightarrow> nat \<Rightarrow> nat \<Rightarrow> pb_wire_type \<Rightarrow> pb_istream \<Rightarrow> u64 list \<Rightarrow> pb_error + u64 list \<times> pb_istream" where
  "decode_array ltype data_size array_size wire_type stream cells =
     (if wire_type = PB_WT_STRING
      then (case pb_string_substream stream of
              Inl e \<Rightarrow> Inl e
            | Inr (substream, rest) \<Rightarrow>
                (case packed_loop (array_size - length cells) ltype data_size substream cells of
                   Inl e \<Rightarrow> Inl e | Inr cells' \<Rightarrow> Inr (cells', rest)))
      else if length cells \<ge> array_size then Inl Array_Overflow
      else map_sum id (\<lambda>(cell, rest). (cells @ [cell], rest)) (decode_scalar ltype data_size wire_type stream))"

definition decode_basic_field :: "'m pb_data \<Rightarrow> pb_wire_type \<Rightarrow> pb_istream \<Rightarrow> 'm \<Rightarrow> pb_error + 'm \<times> pb_istream" where
  "decode_basic_field data wire_type stream m =
     (case data of
        Pb_Scalar ltype data_size rd wr \<Rightarrow>
          map_sum id (\<lambda>(cell, rest). (wr cell m, rest)) (decode_scalar ltype data_size wire_type stream)
      | Pb_Bytes data_size rd wr \<Rightarrow>
          (if wire_type \<noteq> PB_WT_STRING then Inl Wrong_Wire_Type
           else map_sum id (\<lambda>(bs, rest). (wr bs m, rest)) (pb_dec_bytes data_size stream))
      | Pb_String data_size rd wr \<Rightarrow>
          (if wire_type \<noteq> PB_WT_STRING then Inl Wrong_Wire_Type
           else map_sum id (\<lambda>(str, rest). (wr str m, rest)) (pb_dec_string data_size (rd m) stream))
      | Pb_Array ltype data_size array_size rd wr \<Rightarrow>
          map_sum id (\<lambda>(cells, rest). (wr cells m, rest))
            (decode_array ltype data_size array_size wire_type stream (rd m))
      | Pb_Message dec enc zero is_default \<Rightarrow>
          (if wire_type \<noteq> PB_WT_STRING then Inl Wrong_Wire_Type
           else pb_dec_submessage dec stream m))"

definition decode_static_field :: "'m pb_field \<Rightarrow> pb_wire_type \<Rightarrow> pb_istream \<Rightarrow> 'm \<Rightarrow> pb_error + 'm \<times> pb_istream" where
  "decode_static_field f wire_type stream m =
     (let m' = (case f_presence f of
                  Singular \<Rightarrow> m
                | Optional has set_has \<Rightarrow> set_has True m
                | Oneof which enter clear \<Rightarrow> (if which m \<noteq> f_tag f then enter m else m))
      in decode_basic_field (f_data f) wire_type stream m')"

definition pb_field_set_to_default :: "'m pb_field \<Rightarrow> 'm \<Rightarrow> 'm" where
  "pb_field_set_to_default f m =
     (let m' = (case f_presence f of
                  Singular \<Rightarrow> m | Optional has set_has \<Rightarrow> set_has False m | Oneof which enter clear \<Rightarrow> clear m)
      in case f_presence f of
           Oneof which enter clear \<Rightarrow> m'
         | _ \<Rightarrow> (case f_data f of
                   Pb_Scalar ltype data_size rd wr \<Rightarrow> wr 0 m'
                 | Pb_Bytes data_size rd wr \<Rightarrow> wr [] m'
                 | Pb_String data_size rd wr \<Rightarrow> wr (replicate data_size 0) m'
                 | Pb_Array ltype data_size array_size rd wr \<Rightarrow> wr [] m'
                 | Pb_Message dec enc zero is_default \<Rightarrow> zero m'))"

definition pb_message_set_to_defaults :: "'m pb_field list \<Rightarrow> 'm \<Rightarrow> 'm" where
  "pb_message_set_to_defaults fs m = fold pb_field_set_to_default fs m"

section \<open>Decoding consumes its input\<close>

named_theorems pb_shrink \<open>what a successful decoder leaves is shorter than what it was given\<close>

lemma pb_read_shrink [pb_shrink]: "pb_read n s = Inr (bs, rest) \<Longrightarrow> length rest \<le> length s"
  by (auto simp: pb_read_def split: if_splits)

lemma varint32_loop_shrink:
  "varint32_loop k r s = Inr (v, rest) \<Longrightarrow> length rest < length s"
proof (induction s arbitrary: k r)
  case (Cons b s)
  from Cons.prems show ?case
    by (auto simp: Let_def split: if_splits dest!: Cons.IH)
qed simp

lemma pb_decode_varint32_eof_shrink:
  "pb_decode_varint32_eof s = (Inr (v, rest), eof) \<Longrightarrow> length rest < length s"
  by (cases s) (auto simp: pb_decode_varint32_eof_def split: if_splits dest: varint32_loop_shrink)

lemma pb_decode_varint32_shrink [pb_shrink]:
  "pb_decode_varint32 s = Inr (v, rest) \<Longrightarrow> length rest < length s"
  unfolding pb_decode_varint32_def
  by (cases "pb_decode_varint32_eof s") (auto dest: pb_decode_varint32_eof_shrink)

lemma varint_loop_shrink:
  "varint_loop k r s = Inr (v, rest) \<Longrightarrow> length rest < length s"
proof (induction s arbitrary: k r)
  case (Cons b s)
  from Cons.prems show ?case
    by (auto simp: Let_def split: if_splits dest!: Cons.IH)
qed simp

lemma pb_decode_varint_shrink [pb_shrink]:
  "pb_decode_varint s = Inr (v, rest) \<Longrightarrow> length rest < length s"
  unfolding pb_decode_varint_def by (rule varint_loop_shrink)

lemma pb_skip_varint_shrink [pb_shrink]:
  "pb_skip_varint s = Inr (u, rest) \<Longrightarrow> length rest < length s"
  by (induction s rule: pb_skip_varint.induct) (auto split: if_splits)

lemma map_sum_Inr_iff: "map_sum id g x = Inr y \<longleftrightarrow> (\<exists>z. x = Inr z \<and> g z = y)"
  by (cases x) auto

lemma pb_decode_tag_shrink [pb_shrink]:
  "pb_decode_tag s = (Inr (x, rest), eof) \<Longrightarrow> length rest < length s"
  by (auto simp: pb_decode_tag_def split: prod.splits sum.splits dest: pb_decode_varint32_eof_shrink)

lemma pb_skip_field_shrink [pb_shrink]:
  "pb_skip_field wt s = Inr (u, rest) \<Longrightarrow> length rest \<le> length s"
  by (auto simp: pb_skip_field_def pb_skip_string_def map_sum_Inr_iff split: pb_wire_type.splits sum.splits
      dest!: pb_shrink)

lemma pb_string_substream_shrink [pb_shrink]:
  "pb_string_substream s = Inr (sub, rest) \<Longrightarrow> length rest \<le> length s"
  by (auto simp: pb_string_substream_def split: sum.splits if_splits dest!: pb_shrink)

lemma decode_scalar_shrink [pb_shrink]:
  "decode_scalar l n wt s = Inr (v, rest) \<Longrightarrow> length rest \<le> length s"
  unfolding decode_scalar_def pb_dec_bool_def pb_decode_bool_def pb_dec_varint_def pb_decode_fixed32_def
    pb_decode_fixed64_def pb_decode_svarint_def
  by (auto simp: map_sum_Inr_iff Let_def split: pb_ltype.splits sum.splits if_splits dest!: pb_shrink)

lemma decode_array_shrink [pb_shrink]:
  "decode_array l n k wt s cells = Inr (v, rest) \<Longrightarrow> length rest \<le> length s"
  by (auto simp: decode_array_def map_sum_Inr_iff split: sum.splits if_splits dest!: pb_shrink)

lemma pb_dec_bytes_shrink [pb_shrink]:
  "pb_dec_bytes n s = Inr (v, rest) \<Longrightarrow> length rest \<le> length s"
  by (auto simp: pb_dec_bytes_def split: sum.splits if_splits dest!: pb_shrink)

lemma pb_dec_string_shrink [pb_shrink]:
  "pb_dec_string n d s = Inr (v, rest) \<Longrightarrow> length rest \<le> length s"
  by (auto simp: pb_dec_string_def map_sum_Inr_iff split: sum.splits if_splits dest!: pb_shrink)

lemma decode_static_field_shrink [pb_shrink]:
  "decode_static_field f wt s m = Inr (m', rest) \<Longrightarrow> length rest \<le> length s"
  by (auto simp: decode_static_field_def decode_basic_field_def pb_dec_submessage_def map_sum_Inr_iff Let_def
      split: pb_data.splits sum.splits if_splits dest!: pb_shrink)

section \<open>Decoding a message\<close>

text \<open>
  The loop of \<open>pb_decode_inner\<close>.  A failed tag at the end of the stream ends the message, any other
  failure fails it; an unknown tag is skipped by its wire type.
\<close>

function pb_decode_loop :: "'m pb_field list \<Rightarrow> pb_istream \<Rightarrow> 'm \<Rightarrow> pb_error + 'm" where
  "pb_decode_loop fs stream m =
     (if stream = [] then Inr m
      else (case pb_decode_tag stream of
              (Inl e, eof) \<Rightarrow> (if eof then Inr m else Inl e)
            | (Inr ((wire_type, tag), rest), eof) \<Rightarrow>
                (if tag = 0 then Inl Zero_Tag
                 else (case pb_field_iter_find fs tag of
                         None \<Rightarrow> (case pb_skip_field wire_type rest of
                                    Inl e \<Rightarrow> Inl e
                                  | Inr (u, rest') \<Rightarrow> pb_decode_loop fs rest' m)
                       | Some f \<Rightarrow> (case decode_static_field f wire_type rest m of
                                    Inl e \<Rightarrow> Inl e
                                  | Inr (m', rest') \<Rightarrow> pb_decode_loop fs rest' m')))))"
  by pat_completeness auto

termination
  by (relation "measure (\<lambda>(fs, stream, m). length stream)")
     (auto dest!: pb_decode_tag_shrink [OF sym] pb_skip_field_shrink decode_static_field_shrink
       dest: order.strict_trans1)

declare pb_decode_loop.simps [simp del]

definition pb_decode :: "'m pb_field list \<Rightarrow> pb_istream \<Rightarrow> 'm \<Rightarrow> pb_error + 'm" where
  "pb_decode fs stream m = pb_decode_loop fs stream (pb_message_set_to_defaults fs m)"

section \<open>Encoding\<close>

definition pb_enc_bool :: "u64 \<Rightarrow> pb_ostream \<Rightarrow> pb_error + pb_ostream" where
  "pb_enc_bool cell stream = pb_encode_varint (if cell \<noteq> 0 then 1 else 0) stream"

definition pb_enc_varint :: "pb_ltype \<Rightarrow> nat \<Rightarrow> u64 \<Rightarrow> pb_ostream \<Rightarrow> pb_error + pb_ostream" where
  "pb_enc_varint ltype data_size cell stream =
     (if data_size \<notin> {1, 2, 4, 8} then Inl Invalid_Data_Size
      else if ltype = LT_UVARINT then pb_encode_varint (take_bit (8 * data_size) cell) stream
      else let value = signed_take_bit (8 * data_size - 1) cell in
        if ltype = LT_SVARINT then pb_encode_svarint value stream else pb_encode_varint value stream)"

definition pb_enc_fixed :: "nat \<Rightarrow> u64 \<Rightarrow> pb_ostream \<Rightarrow> pb_error + pb_ostream" where
  "pb_enc_fixed data_size cell stream =
     (if data_size = 4 then pb_encode_fixed32 (ucast cell) stream
      else if data_size = 8 then pb_encode_fixed64 cell stream
      else Inl Invalid_Data_Size)"

definition encode_scalar :: "pb_ltype \<Rightarrow> nat \<Rightarrow> u64 \<Rightarrow> pb_ostream \<Rightarrow> pb_error + pb_ostream" where
  "encode_scalar ltype data_size cell stream =
     (case ltype of
        LT_BOOL \<Rightarrow> pb_enc_bool cell stream
      | LT_FIXED32 \<Rightarrow> pb_enc_fixed data_size cell stream
      | LT_FIXED64 \<Rightarrow> pb_enc_fixed data_size cell stream
      | _ \<Rightarrow> pb_enc_varint ltype data_size cell stream)"

definition pb_enc_bytes :: "nat \<Rightarrow> byte list \<Rightarrow> pb_ostream \<Rightarrow> pb_error + pb_ostream" where
  "pb_enc_bytes data_size bs stream =
     (if length bs > data_size - 2 then Inl Bytes_Size_Exceeded else pb_encode_string bs stream)"

text \<open>The loop of \<open>pb_enc_string\<close> counts the characters before the first NUL, \<open>max_size\<close> at most.\<close>

definition pb_enc_string :: "nat \<Rightarrow> byte list \<Rightarrow> pb_ostream \<Rightarrow> pb_error + pb_ostream" where
  "pb_enc_string data_size str stream =
     (if data_size = 0 then Inl Zero_Length_String
      else let sz = length (takeWhile (\<lambda>c. c \<noteq> 0) (take (data_size - 1) str)) in
        if str ! sz \<noteq> 0 then Inl Unterminated_String
        else pb_encode_string (take sz str) stream)"

text \<open>\<open>pb_encode_submessage\<close>: size the content, write the size, then write the content for real.\<close>

definition pb_encode_submessage ::
  "('m \<Rightarrow> pb_ostream \<Rightarrow> pb_error + pb_ostream) \<Rightarrow> 'm \<Rightarrow> pb_ostream \<Rightarrow> pb_error + pb_ostream" where
  "pb_encode_submessage enc m stream =
     (case enc m PB_OSTREAM_SIZING of
        Inl e \<Rightarrow> Inl e
      | Inr sizing \<Rightarrow>
          (let sz = os_bytes_written sizing in
           case pb_encode_varint (of_nat sz) stream of
             Inl e \<Rightarrow> Inl e
           | Inr stream1 \<Rightarrow>
               (if os_sizing stream1 then pb_write_sizing sz stream1
                else if add32 (os_bytes_written stream1) sz > os_max_size stream1 then Inl Stream_Full
                else (case enc m \<lparr>os_sizing = False, os_max_size = sz, os_bytes_written = 0,
                                  os_out = os_out stream1\<rparr> of
                        Inl e \<Rightarrow> Inl e
                      | Inr substream \<Rightarrow>
                          (if os_bytes_written substream \<noteq> sz then Inl Submsg_Size_Changed
                           else Inr (stream1\<lparr>os_bytes_written :=
                                    add32 (os_bytes_written stream1) (os_bytes_written substream),
                                    os_out := os_out substream\<rparr>))))))"

definition wire_type_for :: "'m pb_data \<Rightarrow> pb_wire_type" where
  "wire_type_for data =
     (case data of
        Pb_Scalar ltype _ _ _ \<Rightarrow>
          (case ltype of LT_FIXED32 \<Rightarrow> PB_WT_32BIT | LT_FIXED64 \<Rightarrow> PB_WT_64BIT | _ \<Rightarrow> PB_WT_VARINT)
      | _ \<Rightarrow> PB_WT_STRING)"

definition pb_encode_tag_for_field :: "'m pb_field \<Rightarrow> pb_ostream \<Rightarrow> pb_error + pb_ostream" where
  "pb_encode_tag_for_field f stream = pb_encode_tag (wire_type_for (f_data f)) (f_tag f) stream"

fun encode_cells :: "pb_ltype \<Rightarrow> nat \<Rightarrow> u64 list \<Rightarrow> pb_ostream \<Rightarrow> pb_error + pb_ostream" where
  "encode_cells ltype data_size [] stream = Inr stream"
| "encode_cells ltype data_size (cell # cells) stream =
     (case encode_scalar ltype data_size cell stream of
        Inl e \<Rightarrow> Inl e | Inr stream' \<Rightarrow> encode_cells ltype data_size cells stream')"

text \<open>
  \<open>encode_array\<close> on a packable type: always packed, the size of the elements being found by sizing.
\<close>

definition encode_array ::
  "pb_ltype \<Rightarrow> nat \<Rightarrow> nat \<Rightarrow> nat \<Rightarrow> u64 list \<Rightarrow> pb_ostream \<Rightarrow> pb_error + pb_ostream" where
  "encode_array ltype data_size array_size tag cells stream =
     (if cells = [] then Inr stream
      else if length cells > array_size then Inl Array_Max_Size_Exceeded
      else (case pb_encode_tag PB_WT_STRING tag stream of
              Inl e \<Rightarrow> Inl e
            | Inr stream1 \<Rightarrow>
                (case (if ltype = LT_FIXED32 then Inr (4 * length cells)
                       else if ltype = LT_FIXED64 then Inr (8 * length cells)
                       else map_sum id os_bytes_written (encode_cells ltype data_size cells PB_OSTREAM_SIZING)) of
                   Inl e \<Rightarrow> Inl e
                 | Inr sz \<Rightarrow>
                     (case pb_encode_varint (of_nat sz) stream1 of
                        Inl e \<Rightarrow> Inl e
                      | Inr stream2 \<Rightarrow>
                          (if os_sizing stream2 then pb_write_sizing sz stream2
                           else encode_cells ltype data_size cells stream2)))))"

definition encode_basic_field :: "'m pb_field \<Rightarrow> 'm \<Rightarrow> pb_ostream \<Rightarrow> pb_error + pb_ostream" where
  "encode_basic_field f m stream =
     (case pb_encode_tag_for_field f stream of
        Inl e \<Rightarrow> Inl e
      | Inr stream' \<Rightarrow>
          (case f_data f of
             Pb_Scalar ltype data_size rd wr \<Rightarrow> encode_scalar ltype data_size (rd m) stream'
           | Pb_Bytes data_size rd wr \<Rightarrow> pb_enc_bytes data_size (rd m) stream'
           | Pb_String data_size rd wr \<Rightarrow> pb_enc_string data_size (rd m) stream'
           | Pb_Array ltype data_size array_size rd wr \<Rightarrow> Inl Invalid_Field_Type
           | Pb_Message dec enc zero is_default \<Rightarrow> pb_encode_submessage enc m stream'))"

definition pb_check_proto3_default_value :: "'m pb_field \<Rightarrow> 'm \<Rightarrow> bool" where
  "pb_check_proto3_default_value f m =
     (case f_data f of
        Pb_Array ltype data_size array_size rd wr \<Rightarrow> rd m = []
      | data \<Rightarrow>
          (case f_presence f of
             Oneof which enter clear \<Rightarrow> which m = 0
           | Optional has set_has \<Rightarrow> \<not> has m
           | Singular \<Rightarrow>
               (case data of
                  Pb_Scalar ltype data_size rd wr \<Rightarrow> take_bit (8 * data_size) (rd m) = 0
                | Pb_Bytes data_size rd wr \<Rightarrow> rd m = []
                | Pb_String data_size rd wr \<Rightarrow> rd m ! 0 = 0
                | Pb_Array ltype data_size array_size rd wr \<Rightarrow> rd m = []
                | Pb_Message dec enc zero is_default \<Rightarrow> is_default m)))"

definition encode_field :: "'m pb_field \<Rightarrow> 'm \<Rightarrow> pb_ostream \<Rightarrow> pb_error + pb_ostream" where
  "encode_field f m stream =
     (if (case f_presence f of
            Oneof which enter clear \<Rightarrow> which m \<noteq> f_tag f
          | Optional has set_has \<Rightarrow> \<not> has m
          | Singular \<Rightarrow> pb_check_proto3_default_value f m)
      then Inr stream
      else (case f_data f of
              Pb_Array ltype data_size array_size rd wr \<Rightarrow>
                encode_array ltype data_size array_size (f_tag f) (rd m) stream
            | _ \<Rightarrow> encode_basic_field f m stream))"

fun pb_encode :: "'m pb_field list \<Rightarrow> 'm \<Rightarrow> pb_ostream \<Rightarrow> pb_error + pb_ostream" where
  "pb_encode [] m stream = Inr stream"
| "pb_encode (f # fs) m stream =
     (case encode_field f m stream of Inl e \<Rightarrow> Inl e | Inr stream' \<Rightarrow> pb_encode fs m stream')"

definition pb_get_encoded_size :: "'m pb_field list \<Rightarrow> 'm \<Rightarrow> pb_error + nat" where
  "pb_get_encoded_size fs m = map_sum id os_bytes_written (pb_encode fs m PB_OSTREAM_SIZING)"

text \<open>
  A submessage inside a message: the sub-descriptor's decoder, encoder and defaults, applied to the
  part of the enclosing struct that \<open>rd\<close> and \<open>wr\<close> delimit.
\<close>

definition submsg :: "'s pb_field list \<Rightarrow> 's \<Rightarrow> ('m \<Rightarrow> 's) \<Rightarrow> ('s \<Rightarrow> 'm \<Rightarrow> 'm) \<Rightarrow> 'm pb_data" where
  "submsg fs zero rd wr =
     Pb_Message (\<lambda>stream m. map_sum id (\<lambda>x. wr x m) (pb_decode_loop fs stream (rd m)))
       (\<lambda>m. pb_encode fs (rd m)) (wr zero)
       (\<lambda>m. list_all (\<lambda>f. pb_check_proto3_default_value f (rd m)) fs)"

end
