(* ===== verification/FieldInfo.thy ===== *)
theory FieldInfo
  imports Pb
begin

unbundle bit_operations_syntax

text \<open>
  The packed description of a field: the \<open>PB_FIELDINFO\<close> macros of \<open>pb.h\<close>, which pack the facts of a
  field into one, two, four or eight words, and the switch of \<open>load_descriptor_values\<close> (\<open>pb_common.c\<close>)
  that unpacks them; the second undoes the first whenever the static assertions hold.
\<close>

section \<open>Packing\<close>

definition PB_LTYPE :: "u8 \<Rightarrow> u8" where "PB_LTYPE t = t AND 0x0F"
definition PB_HTYPE :: "u8 \<Rightarrow> u8" where "PB_HTYPE t = t AND 0x30"
definition PB_ATYPE :: "u8 \<Rightarrow> u8" where "PB_ATYPE t = t AND 0xC0"
definition PB_LTYPE_BOOL :: u8 where "PB_LTYPE_BOOL = 0x00"
definition PB_LTYPE_VARINT :: u8 where "PB_LTYPE_VARINT = 0x01"
definition PB_LTYPE_UVARINT :: u8 where "PB_LTYPE_UVARINT = 0x02"
definition PB_LTYPE_SVARINT :: u8 where "PB_LTYPE_SVARINT = 0x03"
definition PB_LTYPE_FIXED32 :: u8 where "PB_LTYPE_FIXED32 = 0x04"
definition PB_LTYPE_FIXED64 :: u8 where "PB_LTYPE_FIXED64 = 0x05"
definition PB_LTYPE_BYTES :: u8 where "PB_LTYPE_BYTES = 0x06"
definition PB_LTYPE_STRING :: u8 where "PB_LTYPE_STRING = 0x07"
definition PB_LTYPE_SUBMESSAGE :: u8 where "PB_LTYPE_SUBMESSAGE = 0x08"
definition PB_LTYPE_SUBMSG_W_CB :: u8 where "PB_LTYPE_SUBMSG_W_CB = 0x09"
definition PB_LTYPE_EXTENSION :: u8 where "PB_LTYPE_EXTENSION = 0x0A"
definition PB_LTYPE_FIXED_LENGTH_BYTES :: u8 where "PB_LTYPE_FIXED_LENGTH_BYTES = 0x0B"
definition PB_HTYPE_REQUIRED :: u8 where "PB_HTYPE_REQUIRED = 0x00"
definition PB_HTYPE_OPTIONAL :: u8 where "PB_HTYPE_OPTIONAL = 0x10"
definition PB_HTYPE_SINGULAR :: u8 where "PB_HTYPE_SINGULAR = 0x10"
definition PB_HTYPE_REPEATED :: u8 where "PB_HTYPE_REPEATED = 0x20"
definition PB_HTYPE_FIXARRAY :: u8 where "PB_HTYPE_FIXARRAY = 0x20"
definition PB_HTYPE_ONEOF :: u8 where "PB_HTYPE_ONEOF = 0x30"
definition PB_ATYPE_STATIC :: u8 where "PB_ATYPE_STATIC = 0x00"
definition PB_ATYPE_POINTER :: u8 where "PB_ATYPE_POINTER = 0x80"
definition PB_ATYPE_CALLBACK :: u8 where "PB_ATYPE_CALLBACK = 0x40"

definition PB_LTYPE_IS_SUBMSG :: "u8 \<Rightarrow> bool" where
  "PB_LTYPE_IS_SUBMSG t \<longleftrightarrow> PB_LTYPE t = PB_LTYPE_SUBMESSAGE \<or> PB_LTYPE t = PB_LTYPE_SUBMSG_W_CB"

datatype info_width = Width_1 | Width_2 | Width_4 | Width_8

record field_info =
  fi_tag :: u32
  fi_type :: u8
  fi_data_offset :: u32
  fi_data_size :: u32
  fi_size_offset :: u32
  fi_array_size :: u32

fun PB_FIELDINFO :: "info_width \<Rightarrow> field_info \<Rightarrow> u32 list" where
  "PB_FIELDINFO Width_1 f =
     [0 OR (push_bit 2 (fi_tag f) AND 0xFF) OR push_bit 8 (ucast (fi_type f)) OR push_bit 16 (fi_data_offset f AND 0xFF) OR
      push_bit 24 (fi_size_offset f AND 0x0F) OR push_bit 28 (fi_data_size f AND 0x0F)]"
| "PB_FIELDINFO Width_2 f =
     [1 OR (push_bit 2 (fi_tag f) AND 0xFF) OR push_bit 8 (ucast (fi_type f)) OR push_bit 16 (fi_array_size f AND 0xFFF) OR
      push_bit 28 (fi_size_offset f AND 0x0F),
      (fi_data_offset f AND 0xFFFF) OR push_bit 16 (fi_data_size f AND 0xFFF) OR push_bit 22 (fi_tag f AND 0x3C0)]"
| "PB_FIELDINFO Width_4 f =
     [2 OR (push_bit 2 (fi_tag f) AND 0xFF) OR push_bit 8 (ucast (fi_type f)) OR push_bit 16 (fi_array_size f AND 0xFFFF),
      scast (ucast (fi_size_offset f) :: u8) OR (push_bit 2 (fi_tag f) AND 0xFFFFFF00),
      fi_data_offset f, fi_data_size f]"
| "PB_FIELDINFO Width_8 f =
     [3 OR (push_bit 2 (fi_tag f) AND 0xFF) OR push_bit 8 (ucast (fi_type f)),
      scast (ucast (fi_size_offset f) :: u8) OR (push_bit 2 (fi_tag f) AND 0xFFFFFF00),
      fi_data_offset f, fi_data_size f, fi_array_size f, 0, 0, 0]"

text \<open>The static assertions.\<close>

definition PB_FITS :: "u32 \<Rightarrow> nat \<Rightarrow> bool" where
  "PB_FITS value bits \<longleftrightarrow> value < push_bit bits 1"

fun PB_FIELDINFO_ASSERT :: "info_width \<Rightarrow> field_info \<Rightarrow> bool" where
  "PB_FIELDINFO_ASSERT Width_1 f \<longleftrightarrow> PB_FITS (fi_tag f) 6 \<and> PB_FITS (fi_data_offset f) 8 \<and> PB_FITS (fi_size_offset f) 4 \<and>
     PB_FITS (fi_data_size f) 4 \<and> PB_FITS (fi_array_size f) 1"
| "PB_FIELDINFO_ASSERT Width_2 f \<longleftrightarrow> PB_FITS (fi_tag f) 10 \<and> PB_FITS (fi_data_offset f) 16 \<and> PB_FITS (fi_size_offset f) 4 \<and>
     PB_FITS (fi_data_size f) 12 \<and> PB_FITS (fi_array_size f) 12"
| "PB_FIELDINFO_ASSERT _ f \<longleftrightarrow> PB_FITS (fi_tag f) 16 \<and> PB_FITS (fi_data_offset f) 16 \<and>
     PB_FITS (scast (ucast (fi_size_offset f) :: u8)) 8 \<and> PB_FITS (fi_data_size f) 16 \<and> PB_FITS (fi_array_size f) 16"

section \<open>Unpacking\<close>

text \<open>The switch over the format: array size, tag, \<open>size_offset\<close>, \<open>data_offset\<close>, data size.\<close>

definition unpack_info :: "(nat \<Rightarrow> u32) \<Rightarrow> u16 \<times> u16 \<times> u8 \<times> u32 \<times> u16" where
  "unpack_info word =
     (let word0 = word 0; low = drop_bit 2 word0 AND 0x3F in
      if word0 AND 3 = 0
      then (1, ucast low, ucast (drop_bit 24 word0 AND 0x0F), drop_bit 16 word0 AND 0xFF, ucast (drop_bit 28 word0 AND 0x0F))
      else if word0 AND 3 = 1
      then let word1 = word 1 in
        (ucast (drop_bit 16 word0 AND 0x0FFF), ucast (low OR push_bit 6 (drop_bit 28 word1)), ucast (drop_bit 28 word0 AND 0x0F),
         word1 AND 0xFFFF, ucast (drop_bit 16 word1 AND 0x0FFF))
      else if word0 AND 3 = 2
      then (ucast (drop_bit 16 word0), ucast (low OR push_bit 6 (drop_bit 8 (word 1))), ucast (word 1 AND 0xFF), word 2, ucast (word 3))
      else (ucast (word 4), ucast (low OR push_bit 6 (drop_bit 8 (word 1))), ucast (word 1 AND 0xFF), word 2, ucast (word 3)))"

section \<open>Unpacking undoes packing\<close>

text \<open>What the iterator makes of a field.\<close>

definition info_values :: "info_width \<Rightarrow> field_info \<Rightarrow> u16 \<times> u16 \<times> u8 \<times> u32 \<times> u16" where
  "info_values w f = (if w = Width_1 then 1 else ucast (fi_array_size f), ucast (fi_tag f), ucast (fi_size_offset f), fi_data_offset f,
     ucast (fi_data_size f))"

lemma masks:
  fixes x :: "'a :: len word"
  shows "x AND 0x03 = take_bit 2 x" "x AND 0x0F = take_bit 4 x" "x AND 0x3F = take_bit 6 x" "x AND 0xFF = take_bit 8 x" "x AND 0xFFF = take_bit 12 x"
    "x AND 0xFFFF = take_bit 16 x"
  by (simp_all add: take_bit_eq_mask mask_eq_exp_minus_1)

lemma high_mask: "(x :: u32) AND 0xFFFFFF00 = push_bit 8 (drop_bit 8 x)"
proof -
  have "(0xFFFFFF00 :: u32) = NOT (mask 8)" by (simp add: mask_eq_exp_minus_1)
  then have "x AND 0xFFFFFF00 = x AND NOT (mask 8)" by (rule arg_cong)
  also have "\<dots> = push_bit 8 (drop_bit 8 x)" by (rule bit_word_eqI) (auto simp: bit_simps)
  finally show ?thesis .
qed

lemma bit_three: "bit (3 :: u32) k \<longleftrightarrow> k < 2"
proof -
  have "(3 :: u32) = mask 2" by (simp add: mask_eq_exp_minus_1)
  then show ?thesis by (simp only: bit_mask_iff) auto
qed

lemma fits_iff:
  assumes "n < 32"
  shows "PB_FITS v n \<longleftrightarrow> take_bit n v = v"
proof -
  have "unat (of_nat (2 ^ n) :: u32) = 2 ^ n"
    using assms by (simp only: unsigned_of_nat) (simp add: take_bit_nat_eq_self)
  then have "PB_FITS v n \<longleftrightarrow> unat v < 2 ^ n" by (simp add: PB_FITS_def word_less_nat_alt push_bit_eq_mult)
  also have "\<dots> \<longleftrightarrow> take_bit n (unat v) = unat v" by (rule take_bit_nat_eq_self_iff [symmetric])
  also have "\<dots> \<longleftrightarrow> unat (take_bit n v) = unat v" by (simp only: unsigned_take_bit_eq)
  also have "\<dots> \<longleftrightarrow> take_bit n v = v" by (rule word_unat_eq_iff [symmetric])
  finally show ?thesis .
qed

lemma fits_obtain:
  assumes "PB_FITS v n" and "n < 32"
  obtains u where "v = take_bit n u"
  using assms by (metis fits_iff)

lemma u8_bit_beyond: "8 \<le> k \<Longrightarrow> \<not> bit (x :: u8) k"
  using bit_imp_le_length [of x k] by auto

lemma unpack_1:
  assumes "PB_FIELDINFO_ASSERT Width_1 f"
  shows "unpack_info (\<lambda>k. PB_FIELDINFO Width_1 f ! k) = info_values Width_1 f"
proof -
  let ?w = "PB_FIELDINFO Width_1 f ! 0"
  obtain t where t: "fi_tag f = take_bit 6 t" using assms fits_obtain [of "fi_tag f" 6] by auto
  obtain d where d: "fi_data_offset f = take_bit 8 d" using assms fits_obtain [of "fi_data_offset f" 8] by auto
  obtain s where s: "fi_size_offset f = take_bit 4 s" using assms fits_obtain [of "fi_size_offset f" 4] by auto
  obtain n where n: "fi_data_size f = take_bit 4 n" using assms fits_obtain [of "fi_data_size f" 4] by auto
  obtain a where a: "fi_array_size f = take_bit 1 a" using assms fits_obtain [of "fi_array_size f" 1] by auto
  have "take_bit 2 ?w = 0"
    by (rule bit_word_eqI) (simp add: masks bit_simps)
  moreover have "take_bit 6 (drop_bit 2 ?w) = fi_tag f"
    by (rule bit_word_eqI) (auto simp: t masks bit_simps u8_bit_beyond)
  moreover have "take_bit 8 (drop_bit 16 ?w) = fi_data_offset f"
    by (rule bit_word_eqI) (auto simp: d masks bit_simps u8_bit_beyond)
  moreover have "take_bit 4 (drop_bit 24 ?w) = fi_size_offset f"
    by (rule bit_word_eqI) (auto simp: s masks bit_simps u8_bit_beyond)
  moreover have "take_bit 4 (drop_bit 28 ?w) = fi_data_size f"
    by (rule bit_word_eqI) (auto simp: n masks bit_simps u8_bit_beyond)
  ultimately show ?thesis
    by (simp add: unpack_info_def info_values_def masks del: PB_FIELDINFO.simps)
qed

lemma unpack_2:
  assumes "PB_FIELDINFO_ASSERT Width_2 f"
  shows "unpack_info (\<lambda>k. PB_FIELDINFO Width_2 f ! k) = info_values Width_2 f"
proof -
  let ?w = "PB_FIELDINFO Width_2 f ! 0" and ?v = "PB_FIELDINFO Width_2 f ! 1"
  obtain t where t: "fi_tag f = take_bit 10 t" using assms fits_obtain [of "fi_tag f" 10] by auto
  obtain d where d: "fi_data_offset f = take_bit 16 d" using assms fits_obtain [of "fi_data_offset f" 16] by auto
  obtain s where s: "fi_size_offset f = take_bit 4 s" using assms fits_obtain [of "fi_size_offset f" 4] by auto
  obtain n where n: "fi_data_size f = take_bit 12 n" using assms fits_obtain [of "fi_data_size f" 12] by auto
  obtain a where a: "fi_array_size f = take_bit 12 a" using assms fits_obtain [of "fi_array_size f" 12] by auto
  have "take_bit 2 ?w = 1"
    by (rule bit_word_eqI) (auto simp: masks bit_simps)
  moreover have "take_bit 6 (drop_bit 2 ?w) OR push_bit 6 (drop_bit 28 ?v) = fi_tag f"
    by (rule bit_word_eqI) (auto simp: t masks bit_simps u8_bit_beyond)
  moreover have "take_bit 12 (drop_bit 16 ?w) = fi_array_size f"
    by (rule bit_word_eqI) (auto simp: a masks bit_simps u8_bit_beyond)
  moreover have "take_bit 4 (drop_bit 28 ?w) = fi_size_offset f"
    by (rule bit_word_eqI) (auto simp: s masks bit_simps u8_bit_beyond)
  moreover have "take_bit 16 ?v = fi_data_offset f"
    by (rule bit_word_eqI) (auto simp: d masks bit_simps u8_bit_beyond)
  moreover have "take_bit 12 (drop_bit 16 ?v) = fi_data_size f"
    by (rule bit_word_eqI) (auto simp: n masks bit_simps u8_bit_beyond)
  ultimately show ?thesis
    by (simp add: unpack_info_def info_values_def masks del: PB_FIELDINFO.simps)
qed

lemma ucast_scast_u8: "ucast (scast (x :: u8) :: u32) = x"
proof (rule bit_word_eqI)
  fix k
  show "k < LENGTH(8) \<Longrightarrow> bit (ucast (scast x :: u32) :: u8) k = bit x k"
    by (cases "k = 7") (auto simp: bit_simps min_def)
qed

lemma unpack_4:
  assumes "PB_FIELDINFO_ASSERT Width_4 f"
  shows "unpack_info (\<lambda>k. PB_FIELDINFO Width_4 f ! k) = info_values Width_4 f"
proof -
  let ?w = "PB_FIELDINFO Width_4 f ! 0" and ?v = "PB_FIELDINFO Width_4 f ! 1"
  let ?s = "scast (ucast (fi_size_offset f) :: u8) :: u32"
  obtain t where t: "fi_tag f = take_bit 16 t" using assms fits_obtain [of "fi_tag f" 16] by auto
  obtain s where s: "?s = take_bit 8 s" using assms fits_obtain [of "?s" 8] by auto
  obtain a where a: "fi_array_size f = take_bit 16 a" using assms fits_obtain [of "fi_array_size f" 16] by auto
  note bits = t s a masks high_mask bit_three bit_simps u8_bit_beyond
  have "take_bit 2 ?w = 2"
    by (rule bit_word_eqI) (auto simp: masks high_mask bit_three bit_simps)
  moreover have "take_bit 6 (drop_bit 2 ?w) OR push_bit 6 (drop_bit 8 ?v) = fi_tag f"
    by (rule bit_word_eqI) (auto simp: bits)
  moreover have "drop_bit 16 ?w = fi_array_size f"
    by (rule bit_word_eqI) (auto simp: bits)
  moreover have "take_bit 8 ?v = ?s"
    by (rule bit_word_eqI) (auto simp: bits)
  moreover have "PB_FIELDINFO Width_4 f ! 2 = fi_data_offset f" "PB_FIELDINFO Width_4 f ! 3 = fi_data_size f" by simp_all
  ultimately show ?thesis
    by (simp add: unpack_info_def info_values_def masks ucast_scast_u8 del: PB_FIELDINFO.simps)
qed

lemma unpack_8:
  assumes "PB_FIELDINFO_ASSERT Width_8 f"
  shows "unpack_info (\<lambda>k. PB_FIELDINFO Width_8 f ! k) = info_values Width_8 f"
proof -
  let ?w = "PB_FIELDINFO Width_8 f ! 0" and ?v = "PB_FIELDINFO Width_8 f ! 1"
  let ?s = "scast (ucast (fi_size_offset f) :: u8) :: u32"
  obtain t where t: "fi_tag f = take_bit 16 t" using assms fits_obtain [of "fi_tag f" 16] by auto
  obtain s where s: "?s = take_bit 8 s" using assms fits_obtain [of "?s" 8] by auto
  note bits = t s masks high_mask bit_three bit_simps u8_bit_beyond
  have "take_bit 2 ?w = 3"
    by (rule bit_word_eqI) (auto simp: masks high_mask bit_three bit_simps)
  moreover have "take_bit 6 (drop_bit 2 ?w) OR push_bit 6 (drop_bit 8 ?v) = fi_tag f"
    by (rule bit_word_eqI) (auto simp: bits)
  moreover have "take_bit 8 ?v = ?s"
    by (rule bit_word_eqI) (auto simp: bits)
  moreover have "PB_FIELDINFO Width_8 f ! 2 = fi_data_offset f" "PB_FIELDINFO Width_8 f ! 3 = fi_data_size f"
    "PB_FIELDINFO Width_8 f ! 4 = fi_array_size f" by simp_all
  ultimately show ?thesis
    by (simp add: unpack_info_def info_values_def masks ucast_scast_u8 del: PB_FIELDINFO.simps)
qed

lemma unpack_pack:
  "PB_FIELDINFO_ASSERT w f \<Longrightarrow> unpack_info (\<lambda>k. PB_FIELDINFO w f ! k) = info_values w f"
  by (cases w) (simp_all only: unpack_1 unpack_2 unpack_4 unpack_8)

lemma word0_fields:
  assumes "PB_FIELDINFO_ASSERT w f"
  shows "PB_FIELDINFO w f ! 0 AND 3 = (case w of Width_1 \<Rightarrow> 0 | Width_2 \<Rightarrow> 1 | Width_4 \<Rightarrow> 2 | Width_8 \<Rightarrow> 3)"
    and "ucast (drop_bit 8 (PB_FIELDINFO w f ! 0) AND 0xFF) = fi_type f"
    and "drop_bit 2 (PB_FIELDINFO w f ! 0) AND 0x3F = fi_tag f AND 0x3F"
proof -
  show "PB_FIELDINFO w f ! 0 AND 3 = (case w of Width_1 \<Rightarrow> 0 | Width_2 \<Rightarrow> 1 | Width_4 \<Rightarrow> 2 | Width_8 \<Rightarrow> 3)"
    by (cases w; rule bit_word_eqI) (auto simp: masks high_mask bit_three bit_simps)
  show "ucast (drop_bit 8 (PB_FIELDINFO w f ! 0) AND 0xFF) = fi_type f"
    by (cases w; rule bit_word_eqI) (auto simp: masks high_mask bit_three bit_simps)
  show "drop_bit 2 (PB_FIELDINFO w f ! 0) AND 0x3F = fi_tag f AND 0x3F"
    by (cases w; rule bit_word_eqI) (auto simp: masks high_mask bit_three bit_simps u8_bit_beyond)
qed

lemma info_nonempty: "length (PB_FIELDINFO w f) > 0"
  by (cases w) simp_all

lemma info_length: "length (PB_FIELDINFO w f) = (case w of Width_1 \<Rightarrow> 1 | Width_2 \<Rightarrow> 2 | Width_4 \<Rightarrow> 4 | Width_8 \<Rightarrow> 8)"
  by (cases w) simp_all

lemma info_len: "length (PB_FIELDINFO w f) = 2 ^ unat (PB_FIELDINFO w f ! 0 AND 3)" if "PB_FIELDINFO_ASSERT w f"
  using word0_fields(1) [OF that] by (cases w) (simp_all del: PB_FIELDINFO.simps add: info_length)

end
