(* ===== verification/FieldBind.thy ===== *)
theory FieldBind
  imports FieldInfo
begin

text \<open>
  The X-macros of \<open>pb.h\<close> that turn a line \<open>X(a, STATIC, SINGULAR, UINT32, freq_hz, 1)\<close> of a generated field list
  into the facts of a field, and \<open>PB_BIND\<close>, which makes a message descriptor of the list.

  What the compiler knows of the C structure, \<open>offsetof\<close> and \<open>sizeof\<close> of its members, is the parameter
  \<open>st\<close>; a member is named as in C, \<open>name[0]\<close> being the first element of an array.
\<close>

section \<open>Field lists\<close>

datatype x_atype = X_STATIC | X_POINTER | X_CALLBACK

datatype x_htype = X_REQUIRED | X_SINGULAR | X_OPTIONAL | X_REPEATED | X_FIXARRAY | X_ONEOF

datatype x_ltype = X_BOOL | X_BYTES | X_DOUBLE | X_ENUM | X_UENUM | X_FIXED32 | X_FIXED64 | X_FLOAT | X_INT32
  | X_INT64 | X_MESSAGE | X_MSG_W_CB | X_SFIXED32 | X_SFIXED64 | X_SINT32 | X_SINT64 | X_STRING | X_UINT32 | X_UINT64 | X_EXTENSION | X_FIXED_LENGTH_BYTES

text \<open>The name of a field, or the tuple that names a member of a oneof.\<close>

datatype x_name = Field_Name string | Oneof_Name string string string

datatype x_field = X_Field (x_atype: x_atype) (x_htype: x_htype) (x_ltype: x_ltype) (x_name: x_name) (x_tag: nat)

fun PB_ONEOF_NAME_FULL :: "x_name \<Rightarrow> string" where
  "PB_ONEOF_NAME_FULL (Oneof_Name unionname membername fullname) = fullname"
| "PB_ONEOF_NAME_FULL (Field_Name fieldname) = fieldname"

record struct_layout =
  lo_offsetof :: "string \<Rightarrow> u32"
  lo_membersize :: "string \<Rightarrow> u32"

definition pb_arraysize :: "struct_layout \<Rightarrow> string \<Rightarrow> u32" where
  "pb_arraysize st m = lo_membersize st m div lo_membersize st (m @ ''[0]'')"

definition pb_delta :: "struct_layout \<Rightarrow> string \<Rightarrow> string \<Rightarrow> u32" where
  "pb_delta st m1 m2 = lo_offsetof st m1 - lo_offsetof st m2"

section \<open>Types\<close>

fun PB_LTYPE_MAP :: "x_ltype \<Rightarrow> u8" where
  "PB_LTYPE_MAP X_BOOL = PB_LTYPE_BOOL"
| "PB_LTYPE_MAP X_BYTES = PB_LTYPE_BYTES"
| "PB_LTYPE_MAP X_DOUBLE = PB_LTYPE_FIXED64"
| "PB_LTYPE_MAP X_ENUM = PB_LTYPE_VARINT"
| "PB_LTYPE_MAP X_UENUM = PB_LTYPE_UVARINT"
| "PB_LTYPE_MAP X_FIXED32 = PB_LTYPE_FIXED32"
| "PB_LTYPE_MAP X_FIXED64 = PB_LTYPE_FIXED64"
| "PB_LTYPE_MAP X_FLOAT = PB_LTYPE_FIXED32"
| "PB_LTYPE_MAP X_INT32 = PB_LTYPE_VARINT"
| "PB_LTYPE_MAP X_INT64 = PB_LTYPE_VARINT"
| "PB_LTYPE_MAP X_MESSAGE = PB_LTYPE_SUBMESSAGE"
| "PB_LTYPE_MAP X_MSG_W_CB = PB_LTYPE_SUBMSG_W_CB"
| "PB_LTYPE_MAP X_SFIXED32 = PB_LTYPE_FIXED32"
| "PB_LTYPE_MAP X_SFIXED64 = PB_LTYPE_FIXED64"
| "PB_LTYPE_MAP X_SINT32 = PB_LTYPE_SVARINT"
| "PB_LTYPE_MAP X_SINT64 = PB_LTYPE_SVARINT"
| "PB_LTYPE_MAP X_STRING = PB_LTYPE_STRING"
| "PB_LTYPE_MAP X_UINT32 = PB_LTYPE_UVARINT"
| "PB_LTYPE_MAP X_UINT64 = PB_LTYPE_UVARINT"
| "PB_LTYPE_MAP X_EXTENSION = PB_LTYPE_EXTENSION"
| "PB_LTYPE_MAP X_FIXED_LENGTH_BYTES = PB_LTYPE_FIXED_LENGTH_BYTES"

fun PB_HTYPE_OF :: "x_htype \<Rightarrow> u8" where
  "PB_HTYPE_OF X_REQUIRED = PB_HTYPE_REQUIRED"
| "PB_HTYPE_OF X_SINGULAR = PB_HTYPE_SINGULAR"
| "PB_HTYPE_OF X_OPTIONAL = PB_HTYPE_OPTIONAL"
| "PB_HTYPE_OF X_REPEATED = PB_HTYPE_REPEATED"
| "PB_HTYPE_OF X_FIXARRAY = PB_HTYPE_FIXARRAY"
| "PB_HTYPE_OF X_ONEOF = PB_HTYPE_ONEOF"

fun PB_ATYPE_OF :: "x_atype \<Rightarrow> u8" where
  "PB_ATYPE_OF X_STATIC = PB_ATYPE_STATIC"
| "PB_ATYPE_OF X_POINTER = PB_ATYPE_POINTER"
| "PB_ATYPE_OF X_CALLBACK = PB_ATYPE_CALLBACK"

section \<open>Width\<close>

fun PB_FI_WIDTH_PB_LTYPE :: "x_ltype \<Rightarrow> info_width" where
  "PB_FI_WIDTH_PB_LTYPE X_BOOL = Width_1"
| "PB_FI_WIDTH_PB_LTYPE X_BYTES = Width_2"
| "PB_FI_WIDTH_PB_LTYPE X_DOUBLE = Width_1"
| "PB_FI_WIDTH_PB_LTYPE X_ENUM = Width_1"
| "PB_FI_WIDTH_PB_LTYPE X_UENUM = Width_1"
| "PB_FI_WIDTH_PB_LTYPE X_FIXED32 = Width_1"
| "PB_FI_WIDTH_PB_LTYPE X_FIXED64 = Width_1"
| "PB_FI_WIDTH_PB_LTYPE X_FLOAT = Width_1"
| "PB_FI_WIDTH_PB_LTYPE X_INT32 = Width_1"
| "PB_FI_WIDTH_PB_LTYPE X_INT64 = Width_1"
| "PB_FI_WIDTH_PB_LTYPE X_MESSAGE = Width_2"
| "PB_FI_WIDTH_PB_LTYPE X_MSG_W_CB = Width_2"
| "PB_FI_WIDTH_PB_LTYPE X_SFIXED32 = Width_1"
| "PB_FI_WIDTH_PB_LTYPE X_SFIXED64 = Width_1"
| "PB_FI_WIDTH_PB_LTYPE X_SINT32 = Width_1"
| "PB_FI_WIDTH_PB_LTYPE X_SINT64 = Width_1"
| "PB_FI_WIDTH_PB_LTYPE X_STRING = Width_2"
| "PB_FI_WIDTH_PB_LTYPE X_UINT32 = Width_1"
| "PB_FI_WIDTH_PB_LTYPE X_UINT64 = Width_1"
| "PB_FI_WIDTH_PB_LTYPE X_EXTENSION = Width_1"
| "PB_FI_WIDTH_PB_LTYPE X_FIXED_LENGTH_BYTES = Width_2"

fun PB_FI_WIDTH_PB_HTYPE :: "x_htype \<Rightarrow> x_ltype \<Rightarrow> info_width" where
  "PB_FI_WIDTH_PB_HTYPE X_REPEATED ltype = Width_2"
| "PB_FI_WIDTH_PB_HTYPE X_FIXARRAY ltype = Width_2"
| "PB_FI_WIDTH_PB_HTYPE htype ltype = PB_FI_WIDTH_PB_LTYPE ltype"

fun PB_FIELDINFO_WIDTH_AUTO :: "x_atype \<Rightarrow> x_htype \<Rightarrow> x_ltype \<Rightarrow> info_width" where
  "PB_FIELDINFO_WIDTH_AUTO X_CALLBACK htype ltype = Width_2"
| "PB_FIELDINFO_WIDTH_AUTO atype htype ltype = PB_FI_WIDTH_PB_HTYPE htype ltype"

section \<open>Place and size\<close>

text \<open>The offset of the member is the same for every kind of field; a oneof is named in full.\<close>

definition PB_DATA_OFFSET :: "struct_layout \<Rightarrow> x_name \<Rightarrow> u32" where
  "PB_DATA_OFFSET st name = lo_offsetof st (PB_ONEOF_NAME_FULL name)"

fun PB_SO_PB_HTYPE :: "struct_layout \<Rightarrow> x_htype \<Rightarrow> x_name \<Rightarrow> u32" where
  "PB_SO_PB_HTYPE st X_ONEOF (Oneof_Name unionname membername fullname) = pb_delta st fullname (''which_'' @ unionname)"
| "PB_SO_PB_HTYPE st X_OPTIONAL (Field_Name fieldname) = pb_delta st fieldname (''has_'' @ fieldname)"
| "PB_SO_PB_HTYPE st X_REPEATED (Field_Name fieldname) = pb_delta st fieldname (fieldname @ ''_count'')"
| "PB_SO_PB_HTYPE st htype name = 0"

fun PB_SIZE_OFFSET :: "struct_layout \<Rightarrow> x_atype \<Rightarrow> x_htype \<Rightarrow> x_name \<Rightarrow> u32" where
  "PB_SIZE_OFFSET st X_STATIC htype name = PB_SO_PB_HTYPE st htype name"
| "PB_SIZE_OFFSET st X_POINTER htype name = (if htype = X_ONEOF \<or> htype = X_REPEATED then PB_SO_PB_HTYPE st htype name else 0)"
| "PB_SIZE_OFFSET st X_CALLBACK htype name = (if htype = X_ONEOF then PB_SO_PB_HTYPE st htype name else 0)"

fun PB_ARRAY_SIZE :: "struct_layout \<Rightarrow> x_atype \<Rightarrow> x_htype \<Rightarrow> x_name \<Rightarrow> u32" where
  "PB_ARRAY_SIZE st X_STATIC htype name =
     (if htype = X_REPEATED \<or> htype = X_FIXARRAY then pb_arraysize st (PB_ONEOF_NAME_FULL name) else 1)"
| "PB_ARRAY_SIZE st X_POINTER htype name = (if htype = X_FIXARRAY then pb_arraysize st (PB_ONEOF_NAME_FULL name @ ''[0]'') else 1)"
| "PB_ARRAY_SIZE st X_CALLBACK htype name = 1"

fun PB_DATA_SIZE :: "struct_layout \<Rightarrow> x_atype \<Rightarrow> x_htype \<Rightarrow> x_name \<Rightarrow> u32" where
  "PB_DATA_SIZE st X_STATIC htype name =
     lo_membersize st (if htype = X_REPEATED \<or> htype = X_FIXARRAY then PB_ONEOF_NAME_FULL name @ ''[0]'' else PB_ONEOF_NAME_FULL name)"
| "PB_DATA_SIZE st X_POINTER htype name =
     lo_membersize st (PB_ONEOF_NAME_FULL name @ (if htype = X_FIXARRAY then ''[0][0]'' else ''[0]''))"
| "PB_DATA_SIZE st X_CALLBACK htype name = lo_membersize st (PB_ONEOF_NAME_FULL name)"

section \<open>Descriptors\<close>

text \<open>The width argument of \<open>PB_BIND\<close>: \<open>AUTO\<close> or a number.\<close>

datatype bind_width = Width_AUTO | Width_Given info_width

fun bind_info_width :: "bind_width \<Rightarrow> x_field \<Rightarrow> info_width" where
  "bind_info_width Width_AUTO (X_Field atype htype ltype name tag) = PB_FIELDINFO_WIDTH_AUTO atype htype ltype"
| "bind_info_width (Width_Given w) x = w"

text \<open>The arguments of \<open>PB_FIELDINFO\<close>, and, with the same arguments, of the assertion.\<close>

fun field_facts :: "struct_layout \<Rightarrow> x_field \<Rightarrow> field_info" where
  "field_facts st (X_Field atype htype ltype name tag) =
     \<lparr>fi_tag = of_nat tag, fi_type = or (or (PB_ATYPE_OF atype) (PB_HTYPE_OF htype)) (PB_LTYPE_MAP ltype),
      fi_data_offset = PB_DATA_OFFSET st name, fi_data_size = PB_DATA_SIZE st atype htype name,
      fi_size_offset = PB_SIZE_OFFSET st atype htype name, fi_array_size = PB_ARRAY_SIZE st atype htype name\<rparr>"

definition PB_GEN_FIELD_INFO :: "bind_width \<Rightarrow> struct_layout \<Rightarrow> x_field \<Rightarrow> u32 list" where
  "PB_GEN_FIELD_INFO width st x = PB_FIELDINFO (bind_info_width width x) (field_facts st x)"

definition PB_GEN_FIELD_INFO_ASSERT :: "bind_width \<Rightarrow> struct_layout \<Rightarrow> x_field \<Rightarrow> bool" where
  "PB_GEN_FIELD_INFO_ASSERT width st x = PB_FIELDINFO_ASSERT (bind_info_width width x) (field_facts st x)"

text \<open>\<open>structname_fieldname_MSGTYPE\<close> names the descriptor of a submessage.\<close>

fun msgtype_name :: "x_name \<Rightarrow> string" where
  "msgtype_name (Oneof_Name unionname membername fullname) = unionname @ ''_'' @ membername"
| "msgtype_name (Field_Name fieldname) = fieldname"

definition PB_GEN_SUBMSG_INFO :: "(string \<Rightarrow> 'd) \<Rightarrow> x_field \<Rightarrow> 'd option list" where
  "PB_GEN_SUBMSG_INFO msgtype x =
     (if x_ltype x = X_MESSAGE \<or> x_ltype x = X_MSG_W_CB then [Some (msgtype (msgtype_name (x_name x)))] else [])"

record 'd msgdesc =
  md_field_info :: "u32 list"
  md_submsg_info :: "'d option list"
  md_field_count :: nat
  md_required_field_count :: nat
  md_largest_tag :: nat

text \<open>
  \<open>PB_GEN_LARGEST_TAG\<close> expands to a sum in which every tag but the last is multiplied by zero; the three
  counts are stored as \<open>pb_size_t\<close>.
\<close>

definition PB_BIND :: "bind_width \<Rightarrow> struct_layout \<Rightarrow> (string \<Rightarrow> 'd) \<Rightarrow> x_field list \<Rightarrow> 'd msgdesc" where
  "PB_BIND width st msgtype xs = \<lparr>md_field_info = concat (map (PB_GEN_FIELD_INFO width st) xs) @ [0],
     md_submsg_info = concat (map (PB_GEN_SUBMSG_INFO msgtype) xs) @ [None],
     md_field_count = length xs mod 2 ^ 16,
     md_required_field_count = length (filter (\<lambda>x. PB_HTYPE_OF (x_htype x) = PB_HTYPE_REQUIRED) xs) mod 2 ^ 16,
     md_largest_tag = fold (\<lambda>x n. n * 0 + x_tag x) xs 0 mod 2 ^ 16\<rparr>"

section \<open>Types read back\<close>

lemmas field_type_defs =
  PB_LTYPE_BOOL_def PB_LTYPE_VARINT_def PB_LTYPE_UVARINT_def PB_LTYPE_SVARINT_def PB_LTYPE_FIXED32_def PB_LTYPE_FIXED64_def
  PB_LTYPE_BYTES_def PB_LTYPE_STRING_def PB_LTYPE_SUBMESSAGE_def PB_LTYPE_SUBMSG_W_CB_def PB_LTYPE_EXTENSION_def
  PB_LTYPE_FIXED_LENGTH_BYTES_def PB_HTYPE_REQUIRED_def PB_HTYPE_OPTIONAL_def PB_HTYPE_SINGULAR_def PB_HTYPE_REPEATED_def
  PB_HTYPE_FIXARRAY_def PB_HTYPE_ONEOF_def PB_ATYPE_STATIC_def PB_ATYPE_POINTER_def PB_ATYPE_CALLBACK_def

lemma generated_type_parts:
  "PB_LTYPE (or (or (PB_ATYPE_OF atype) (PB_HTYPE_OF htype)) (PB_LTYPE_MAP ltype)) = PB_LTYPE_MAP ltype"
  "PB_HTYPE (or (or (PB_ATYPE_OF atype) (PB_HTYPE_OF htype)) (PB_LTYPE_MAP ltype)) = PB_HTYPE_OF htype"
  by (cases atype; cases htype; cases ltype; simp add: PB_LTYPE_def PB_HTYPE_def field_type_defs)+

lemma generated_ltype: "PB_LTYPE (fi_type (field_facts st x)) = PB_LTYPE_MAP (x_ltype x)"
  by (cases x) (simp add: generated_type_parts)

lemma generated_htype: "PB_HTYPE (fi_type (field_facts st x)) = PB_HTYPE_OF (x_htype x)"
  by (cases x) (simp add: generated_type_parts)

lemma generated_submsg:
  "PB_LTYPE_IS_SUBMSG (fi_type (field_facts st x)) \<longleftrightarrow> x_ltype x = X_MESSAGE \<or> x_ltype x = X_MSG_W_CB"
  unfolding PB_LTYPE_IS_SUBMSG_def generated_ltype by (cases "x_ltype x") (simp_all add: field_type_defs)

lemma generated_extension: "PB_LTYPE (fi_type (field_facts st x)) = PB_LTYPE_EXTENSION \<longleftrightarrow> x_ltype x = X_EXTENSION"
  unfolding generated_ltype by (cases "x_ltype x") (simp_all add: field_type_defs)

end
