(* ===== verification/FieldIter.thy ===== *)
theory FieldIter
  imports FieldBind
begin

unbundle bit_operations_syntax

text \<open>
  The field iterator of nanopb (\<open>pb_common.c\<close>), which walks over the packed words of a message descriptor.

  Indices and sizes of type \<open>pb_size_t\<close> are 16 bits wide; those that index an array are natural
  numbers with the wrap-around written out.  An address is an integer, \<open>None\<close> the null pointer; \<open>mem\<close>
  is what a pointer field holds.
\<close>

section \<open>The iterator\<close>

datatype size_pointer = Size_Null | Size_At int | Size_Array_Size

record 'd field_iter =
  it_descriptor :: "'d msgdesc"
  it_message :: "int option"
  it_index :: nat
  it_field_info_index :: nat
  it_required_field_index :: nat
  it_submessage_index :: nat
  it_tag :: u16
  it_data_size :: u16
  it_array_size :: u16
  it_type :: u8
  it_pField :: "int option"
  it_pData :: "int option"
  it_pSize :: size_pointer
  it_submsg_desc :: "'d option"

definition load_descriptor_values :: "(int \<Rightarrow> int option) \<Rightarrow> 'd field_iter \<Rightarrow> bool \<times> 'd field_iter" where
  "load_descriptor_values mem iter =
     (if it_index iter \<ge> md_field_count (it_descriptor iter) then (False, iter)
      else let word = (\<lambda>k. md_field_info (it_descriptor iter) ! (it_field_info_index iter + k));
               iter = iter\<lparr>it_type := ucast (drop_bit 8 (word 0) AND 0xFF)\<rparr>;
               (array_size, tag, size_offset, data_offset, data_size) = unpack_info word;
               iter = iter\<lparr>it_array_size := array_size, it_tag := tag, it_data_size := data_size\<rparr>;
               iter = (case it_message iter of
                   None \<Rightarrow> iter\<lparr>it_pField := None, it_pSize := Size_Null\<rparr>
                 | Some message \<Rightarrow>
                     let field = message + uint data_offset in
                     iter\<lparr>it_pField := Some field,
                          it_pSize := (if size_offset \<noteq> 0 then Size_At (field - sint size_offset)
                                       else if PB_HTYPE (it_type iter) = PB_HTYPE_REPEATED \<and>
                                         (PB_ATYPE (it_type iter) = PB_ATYPE_STATIC \<or> PB_ATYPE (it_type iter) = PB_ATYPE_POINTER)
                                       then Size_Array_Size else Size_Null),
                          it_pData := (if PB_ATYPE (it_type iter) = PB_ATYPE_POINTER then mem field else Some field)\<rparr>);
               iter = iter\<lparr>it_submsg_desc := (if PB_LTYPE_IS_SUBMSG (it_type iter)
                                then md_submsg_info (it_descriptor iter) ! it_submessage_index iter else None)\<rparr>
           in (True, iter))"

definition advance_iterator :: "'d field_iter \<Rightarrow> 'd field_iter" where
  "advance_iterator iter =
     (let iter = iter\<lparr>it_index := (it_index iter + 1) mod 2 ^ 16\<rparr> in
      if it_index iter \<ge> md_field_count (it_descriptor iter)
      then iter\<lparr>it_index := 0, it_field_info_index := 0, it_submessage_index := 0, it_required_field_index := 0\<rparr>
      else let prev_descriptor = md_field_info (it_descriptor iter) ! it_field_info_index iter;
               prev_type = ucast (drop_bit 8 prev_descriptor AND 0xFF) :: u8;
               descriptor_len = 2 ^ unat (prev_descriptor AND 3)
           in iter\<lparr>it_field_info_index := (it_field_info_index iter + descriptor_len) mod 2 ^ 16,
                   it_required_field_index := (it_required_field_index iter + of_bool (PB_HTYPE prev_type = PB_HTYPE_REQUIRED)) mod 2 ^ 16,
                   it_submessage_index := (it_submessage_index iter + of_bool (PB_LTYPE_IS_SUBMSG prev_type)) mod 2 ^ 16\<rparr>)"

definition field_iter_begin :: "(int \<Rightarrow> int option) \<Rightarrow> 'd msgdesc \<Rightarrow> int option \<Rightarrow> bool \<times> 'd field_iter" where
  "field_iter_begin mem desc message =
     load_descriptor_values mem \<lparr>it_descriptor = desc, it_message = message, it_index = 0, it_field_info_index = 0,
       it_required_field_index = 0, it_submessage_index = 0, it_tag = 0, it_data_size = 0, it_array_size = 0, it_type = 0,
       it_pField = None, it_pData = None, it_pSize = Size_Null, it_submsg_desc = None\<rparr>"

definition field_iter_next :: "(int \<Rightarrow> int option) \<Rightarrow> 'd field_iter \<Rightarrow> bool \<times> 'd field_iter" where
  "field_iter_next mem iter =
     (let iter = snd (load_descriptor_values mem (advance_iterator iter)) in (it_index iter \<noteq> 0, iter))"

text \<open>The loop of \<open>pb_field_iter_find\<close>; nothing ends it if \<open>start\<close> is no index of a field.\<close>

partial_function (option) field_iter_find_loop :: "(int \<Rightarrow> int option) \<Rightarrow> u32 \<Rightarrow> nat \<Rightarrow> 'd field_iter \<Rightarrow> (bool \<times> 'd field_iter) option" where
  "field_iter_find_loop mem tag start iter =
     (let iter = advance_iterator iter;
          fieldinfo = md_field_info (it_descriptor iter) ! it_field_info_index iter;
          iter = (if drop_bit 2 fieldinfo AND 0x3F = tag AND 0x3F then snd (load_descriptor_values mem iter) else iter)
      in if drop_bit 2 fieldinfo AND 0x3F = tag AND 0x3F \<and> ucast (it_tag iter) = tag \<and> PB_LTYPE (it_type iter) \<noteq> PB_LTYPE_EXTENSION
         then Some (True, iter)
         else if it_index iter \<noteq> start then field_iter_find_loop mem tag start iter
         else Some (False, snd (load_descriptor_values mem iter)))"

definition field_iter_find :: "(int \<Rightarrow> int option) \<Rightarrow> u32 \<Rightarrow> 'd field_iter \<Rightarrow> (bool \<times> 'd field_iter) option" where
  "field_iter_find mem tag iter =
     (if ucast (it_tag iter) = tag then Some (True, iter)
      else if unat tag > md_largest_tag (it_descriptor iter) then Some (False, iter)
      else let start = it_index iter;
               iter = (if tag < ucast (it_tag iter) then iter\<lparr>it_index := md_field_count (it_descriptor iter)\<rparr> else iter)
           in field_iter_find_loop mem tag start iter)"

text \<open>\<open>pb_field_iter_find_extension\<close>, by which the decoder looks for a home for an unknown tag.\<close>

partial_function (option) find_extension_loop :: "(int \<Rightarrow> int option) \<Rightarrow> nat \<Rightarrow> 'd field_iter \<Rightarrow> (bool \<times> 'd field_iter) option" where
  "find_extension_loop mem start iter =
     (let iter = advance_iterator iter; fieldinfo = md_field_info (it_descriptor iter) ! it_field_info_index iter in
      if PB_LTYPE (ucast (drop_bit 8 fieldinfo AND 0xFF)) = PB_LTYPE_EXTENSION then Some (load_descriptor_values mem iter)
      else if it_index iter \<noteq> start then find_extension_loop mem start iter
      else Some (False, snd (load_descriptor_values mem iter)))"

definition field_iter_find_extension :: "(int \<Rightarrow> int option) \<Rightarrow> 'd field_iter \<Rightarrow> (bool \<times> 'd field_iter) option" where
  "field_iter_find_extension mem iter =
     (if PB_LTYPE (it_type iter) = PB_LTYPE_EXTENSION then Some (True, iter) else find_extension_loop mem (it_index iter) iter)"

section \<open>Field tables\<close>

type_synonym 'd field_entry = "info_width \<times> field_info \<times> 'd"

abbreviation facts :: "'d field_entry \<Rightarrow> field_info" where "facts e \<equiv> fst (snd e)"

definition field_words :: "'d field_entry list \<Rightarrow> u32 list" where
  "field_words fs = concat (map (\<lambda>(w, f, d). PB_FIELDINFO w f) fs)"

definition required_fields :: "'d field_entry list \<Rightarrow> 'd field_entry list" where
  "required_fields = filter (\<lambda>e. PB_HTYPE (fi_type (facts e)) = PB_HTYPE_REQUIRED)"

definition submsg_fields :: "'d field_entry list \<Rightarrow> 'd field_entry list" where
  "submsg_fields = filter (\<lambda>e. PB_LTYPE_IS_SUBMSG (fi_type (facts e)))"

text \<open>The descriptor of a list of entries.\<close>

definition table_desc :: "'d field_entry list \<Rightarrow> 'd msgdesc" where
  "table_desc fs = \<lparr>md_field_info = field_words fs @ [0], md_submsg_info = map (\<lambda>e. Some (snd (snd e))) (submsg_fields fs) @ [None],
     md_field_count = length fs, md_required_field_count = length (required_fields fs), md_largest_tag = unat (fi_tag (facts (last fs)))\<rparr>"

text \<open>
  What the generator emits: no empty table, the static assertions hold, tags in ascending order, no
  extension, and the packed words with their terminator can be counted by a \<open>pb_size_t\<close> (the index of
  \<open>pb_field_iter_find\<close> steps one beyond the last field).
\<close>

definition field_table :: "'d field_entry list \<Rightarrow> bool" where
  "field_table fs \<longleftrightarrow> fs \<noteq> [] \<and> list_all (\<lambda>(w, f, d). PB_FIELDINFO_ASSERT w f \<and> PB_LTYPE (fi_type f) \<noteq> PB_LTYPE_EXTENSION) fs \<and>
     sorted_wrt (\<lambda>e e'. fi_tag (facts e) < fi_tag (facts e')) fs \<and> length (field_words fs @ [0]) < 2 ^ 16"

text \<open>The iterator that stands on field \<open>i\<close>, with all that was loaded.\<close>

definition iter_at :: "(int \<Rightarrow> int option) \<Rightarrow> 'd field_entry list \<Rightarrow> int option \<Rightarrow> nat \<Rightarrow> 'd field_iter" where
  "iter_at mem fs message i = (case fs ! i of (w, f, d) \<Rightarrow>
     let field = map_option (\<lambda>m. m + uint (fi_data_offset f)) message;
         offset = ucast (fi_size_offset f) :: u8 in
     \<lparr>it_descriptor = table_desc fs, it_message = message, it_index = i, it_field_info_index = length (field_words (take i fs)),
      it_required_field_index = length (required_fields (take i fs)), it_submessage_index = length (submsg_fields (take i fs)),
      it_tag = ucast (fi_tag f), it_data_size = ucast (fi_data_size f),
      it_array_size = (if w = Width_1 then 1 else ucast (fi_array_size f)), it_type = fi_type f, it_pField = field,
      it_pData = (if PB_ATYPE (fi_type f) = PB_ATYPE_POINTER then Option.bind field mem else field),
      it_pSize = (case field of None \<Rightarrow> Size_Null
        | Some a \<Rightarrow> if offset \<noteq> 0 then Size_At (a - sint offset)
                    else if PB_HTYPE (fi_type f) = PB_HTYPE_REPEATED \<and> PB_ATYPE (fi_type f) \<in> {PB_ATYPE_STATIC, PB_ATYPE_POINTER}
                    then Size_Array_Size else Size_Null),
      it_submsg_desc = (if PB_LTYPE_IS_SUBMSG (fi_type f) then Some d else None)\<rparr>)"

text \<open>An iterator whose indices are those of field \<open>i\<close>, whatever it has loaded.\<close>

definition stands_on :: "'d field_entry list \<Rightarrow> int option \<Rightarrow> nat \<Rightarrow> 'd field_iter \<Rightarrow> bool" where
  "stands_on fs message i it \<longleftrightarrow> it_descriptor it = table_desc fs \<and> it_message it = message \<and> it_index it = i \<and>
     it_field_info_index it = length (field_words (take i fs)) \<and>
     it_required_field_index it = length (required_fields (take i fs)) \<and>
     it_submessage_index it = length (submsg_fields (take i fs)) \<and> (message = None \<longrightarrow> it_pData it = None)"

lemma nth_concat_block:
  assumes "i < length xs" and "k < length (g (xs ! i))"
  shows "(concat (map g xs) @ ys) ! (length (concat (map g (take i xs))) + k) = g (xs ! i) ! k"
proof -
  have "concat (map g xs) @ ys = concat (map g (take i xs)) @ g (xs ! i) @ concat (map g (drop (Suc i) xs)) @ ys"
    using id_take_nth_drop [OF assms(1)]
    by (metis append.assoc concat.simps(2) concat_append list.simps(9) map_append)
  then show ?thesis using assms(2) by (simp add: nth_append)
qed

lemma field_words_Cons [simp]: "field_words ((w, f, d) # fs) = PB_FIELDINFO w f @ field_words fs"
  by (simp add: field_words_def)

lemma field_words_append [simp]: "field_words (fs @ gs) = field_words fs @ field_words gs"
  by (simp add: field_words_def)

lemma field_words_Nil [simp]: "field_words [] = []"
  by (simp add: field_words_def)

lemma table_desc_simps [simp]:
  "md_field_info (table_desc fs) = field_words fs @ [0]"
  "md_submsg_info (table_desc fs) = map (\<lambda>e. Some (snd (snd e))) (submsg_fields fs) @ [None]"
  "md_field_count (table_desc fs) = length fs"
  by (simp_all add: table_desc_def)

lemma word_of_field:
  assumes "i < length fs" and "fs ! i = (w, f, d)" and "k < length (PB_FIELDINFO w f)"
  shows "(field_words fs @ [0]) ! (length (field_words (take i fs)) + k) = PB_FIELDINFO w f ! k"
  using nth_concat_block [of i fs k "\<lambda>(w, f, d). PB_FIELDINFO w f" "[0]"] assms by (simp add: field_words_def)

lemma unpack_cong:
  assumes "PB_FIELDINFO_ASSERT w f" and "\<And>k. k < length (PB_FIELDINFO w f) \<Longrightarrow> word k = PB_FIELDINFO w f ! k"
  shows "unpack_info word = unpack_info (\<lambda>k. PB_FIELDINFO w f ! k)"
proof -
  have "word 0 = PB_FIELDINFO w f ! 0" using assms(2) info_nonempty by blast
  then show ?thesis
    using word0_fields(1) [OF assms(1)] assms(2)
    by (cases w) (simp_all del: PB_FIELDINFO.simps add: unpack_info_def Let_def info_length)
qed

lemma nth_filter_take:
  assumes "i < length xs" and "P (xs ! i)"
  shows "filter P xs ! length (filter P (take i xs)) = xs ! i" and "length (filter P (take i xs)) < length (filter P xs)"
proof -
  have "filter P xs = filter P (take i xs) @ xs ! i # filter P (drop (Suc i) xs)"
    using id_take_nth_drop [OF assms(1)] assms(2) by (metis filter.simps(2) filter_append)
  then show "filter P xs ! length (filter P (take i xs)) = xs ! i" and "length (filter P (take i xs)) < length (filter P xs)"
    by (simp_all add: nth_append)
qed

lemma submsg_info_at:
  assumes "i < length fs" and "fs ! i = (w, f, d)" and "PB_LTYPE_IS_SUBMSG (fi_type f)"
  shows "(map (\<lambda>e. Some (snd (snd e))) (submsg_fields fs) @ [None]) ! length (submsg_fields (take i fs)) = Some d"
  using nth_filter_take [of i fs "\<lambda>e. PB_LTYPE_IS_SUBMSG (fi_type (facts e))"] assms by (simp add: submsg_fields_def nth_append)

lemma field_at:
  assumes "field_table fs" and "i < length fs" and "fs ! i = (w, f, d)"
  shows "PB_FIELDINFO_ASSERT w f" and "PB_LTYPE (fi_type f) \<noteq> PB_LTYPE_EXTENSION"
  using assms by (auto simp: field_table_def list_all_length)

lemma words_at:
  assumes "i < length fs" and "fs ! i = (w, f, d)" and "PB_FIELDINFO_ASSERT w f"
  shows "(field_words fs @ [0]) ! length (field_words (take i fs)) = PB_FIELDINFO w f ! 0"
    and "unpack_info (\<lambda>k. (field_words fs @ [0]) ! (length (field_words (take i fs)) + k)) = info_values w f"
  using word_of_field [OF assms(1,2) info_nonempty] unpack_cong [OF assms(3) word_of_field [OF assms(1,2)]] unpack_pack [OF assms(3)]
  by simp_all

lemma load_at:
  assumes "field_table fs" and "i < length fs" and "stands_on fs message i it"
  shows "load_descriptor_values mem it = (True, iter_at mem fs message i)"
proof -
  obtain w f d where e: "fs ! i = (w, f, d)" by (metis prod_cases3)
  note A = field_at(1) [OF assms(1,2) e]
  note sub = submsg_info_at [OF assms(2) e]
  note words = words_at [OF assms(2) e A]
  show ?thesis
    using assms(2,3) sub word0_fields(2) [OF A]
    by (cases message)
      (auto simp: load_descriptor_values_def iter_at_def stands_on_def Let_def e words info_values_def
        simp del: PB_FIELDINFO.simps intro!: field_iter.equality)
qed

lemma field_words_take:
  assumes "i < length fs" and "fs ! i = (w, f, d)"
  shows "field_words (take (Suc i) fs) = field_words (take i fs) @ PB_FIELDINFO w f"
  using assms by (simp add: take_Suc_conv_app_nth)

lemma field_words_length: "length fs \<le> length (field_words fs)"
proof (induction fs)
  case (Cons e fs)
  obtain w f d where e: "e = (w, f, d)" by (metis prod_cases3)
  have "length (field_words (e # fs)) = length (PB_FIELDINFO w f) + length (field_words fs)" by (simp add: e)
  then show ?case using Cons info_nonempty [of w f] unfolding list.size by linarith
qed simp

lemma field_words_take_le: "length (field_words (take i fs)) \<le> length (field_words fs)"
  by (metis append_take_drop_id field_words_append le_add1 length_append)

lemma length_filter_take_Suc:
  "i < length xs \<Longrightarrow> length (filter P (take (Suc i) xs)) = length (filter P (take i xs)) + of_bool (P (xs ! i))"
  by (simp add: take_Suc_conv_app_nth)

lemma advance_wraps:
  assumes "it_descriptor it = table_desc fs" and "it_message it = message" and "it_index it + 1 \<ge> length fs" "it_index it + 1 < 2 ^ 16 "
    and "message = None \<longrightarrow> it_pData it = None"
  shows "stands_on fs message 0 (advance_iterator it)"
  using assms by (simp add: advance_iterator_def stands_on_def required_fields_def submsg_fields_def)

lemma advance_at:
  assumes "field_table fs" and "i < length fs" and "stands_on fs message i it"
  shows "stands_on fs message (Suc i mod length fs) (advance_iterator it)"
proof (cases "Suc i < length fs")
  case False
  then have last: "Suc i = length fs" using assms(2) by simp
  show ?thesis
    using assms(1,3) advance_wraps [of it fs message] field_words_length [of fs]
    by (simp add: stands_on_def field_table_def last)
next
  case True
  obtain w f d where e: "fs ! i = (w, f, d)" by (metis prod_cases3)
  note A = field_at(1) [OF assms(1,2) e]
  note words = words_at [OF assms(2) e A]
  have len: "length (field_words fs) < 2 ^ 16" using assms(1) by (simp add: field_table_def)
  have words_Suc: "length (field_words (take (Suc i) fs)) = length (field_words (take i fs)) + 2 ^ unat (PB_FIELDINFO w f ! 0 AND 3)"
    using field_words_take [OF assms(2) e] info_len [OF A] by simp
  have req: "length (required_fields (take (Suc i) fs)) =
      length (required_fields (take i fs)) + of_bool (PB_HTYPE (fi_type f) = PB_HTYPE_REQUIRED)"
    using length_filter_take_Suc [OF assms(2)] e by (simp add: required_fields_def)
  have sub: "length (submsg_fields (take (Suc i) fs)) = length (submsg_fields (take i fs)) + of_bool (PB_LTYPE_IS_SUBMSG (fi_type f))"
    using length_filter_take_Suc [OF assms(2)] e by (simp add: submsg_fields_def)
  have small: "length (field_words (take (Suc i) fs)) < 2 ^ 16" "length fs < 2 ^ 16"
    using len field_words_take_le [of "Suc i" fs] field_words_length [of fs] by linarith+
  have filter_small: "length (filter P (take (Suc i) fs)) < 2 ^ 16" for P
    using True small(2) length_filter_le [of P "take (Suc i) fs"] by simp
  have small': "length (required_fields (take (Suc i) fs)) < 2 ^ 16" "length (submsg_fields (take (Suc i) fs)) < 2 ^ 16"
    by (simp_all only: required_fields_def submsg_fields_def filter_small)
  show ?thesis
    using True assms(3) word0_fields(2) [OF A] small small' [unfolded req sub]
    by (simp add: stands_on_def advance_iterator_def Let_def words words_Suc req sub del: PB_FIELDINFO.simps)
qed

lemma stands_on_iter_at: "stands_on fs message i (iter_at mem fs message i)"
  by (auto simp: stands_on_def iter_at_def Let_def split: prod.splits)

section \<open>Finding a tag\<close>

abbreviation tag_at :: "'d field_entry list \<Rightarrow> nat \<Rightarrow> u32" where "tag_at fs q \<equiv> fi_tag (facts (fs ! q))"

definition tag_position :: "'d field_entry list \<Rightarrow> u32 \<Rightarrow> nat option" where
  "tag_position fs tag = find (\<lambda>q. tag_at fs q = tag) [0..<length fs]"

lemma take_bit_wider: "take_bit m x = x \<Longrightarrow> m \<le> n \<Longrightarrow> take_bit n x = (x :: u32)"
  by (metis take_bit_take_bit min_absorb2)

lemma fits_tag: "PB_FIELDINFO_ASSERT w f \<Longrightarrow> take_bit 16 (fi_tag f) = fi_tag f"
  by (cases w) (auto simp: fits_iff intro: take_bit_wider)

lemma iter_at_simps [simp]:
  "it_descriptor (iter_at mem fs message i) = table_desc fs"
  "it_index (iter_at mem fs message i) = i"
  "it_tag (iter_at mem fs message i) = ucast (tag_at fs i)"
  "it_type (iter_at mem fs message i) = fi_type (facts (fs ! i))"
  by (auto simp: iter_at_def Let_def split: prod.splits)

lemma iter_tag:
  assumes "field_table fs" and "i < length fs"
  shows "(ucast (it_tag (iter_at mem fs message i)) :: u32) = tag_at fs i"
proof -
  obtain w f d where e: "fs ! i = (w, f, d)" by (metis prod_cases3)
  have "take_bit 16 (tag_at fs i) = tag_at fs i" using fits_tag [OF field_at(1) [OF assms e]] e by simp
  moreover have "(ucast (ucast x :: u16) :: u32) = take_bit 16 x" for x :: u32
    by (rule bit_word_eqI) (auto simp: bit_simps)
  ultimately show ?thesis by simp
qed

text \<open>One round of the loop.\<close>

lemma find_loop_step:
  assumes table: "field_table fs" and p: "p < length fs" and "stands_on fs message p (advance_iterator it)"
  obtains it' where "stands_on fs message p it'"
    and "field_iter_find_loop mem tag start it =
      (if tag_at fs p = tag then Some (True, iter_at mem fs message p)
       else if p \<noteq> start then field_iter_find_loop mem tag start it' else Some (False, iter_at mem fs message p))"
proof -
  obtain w f e where f: "fs ! p = (w, f, e)" by (metis prod_cases3)
  note A = field_at [OF table p f]
  let ?it = "advance_iterator it"
  have word: "md_field_info (it_descriptor ?it) ! it_field_info_index ?it = PB_FIELDINFO w f ! 0"
    using assms(3) words_at(1) [OF p f A(1)] by (simp add: stands_on_def)
  have index: "it_index ?it = p" using assms(3) by (simp add: stands_on_def)
  note load = load_at [OF table p assms(3)] load_at [OF table p stands_on_iter_at]
  show ?thesis
  proof (cases "fi_tag f AND 0x3F = tag AND 0x3F")
    case True
    show ?thesis
    proof
      show "stands_on fs message p (iter_at mem fs message p)" by (rule stands_on_iter_at)
      show "field_iter_find_loop mem tag start it =
          (if tag_at fs p = tag then Some (True, iter_at mem fs message p)
           else if p \<noteq> start then field_iter_find_loop mem tag start (iter_at mem fs message p) else Some (False, iter_at mem fs message p))"
        unfolding field_iter_find_loop.simps [of mem tag start it] Let_def word word0_fields(3) [OF A(1)] load index
        using True iter_tag [OF table p] A(2) load(2) by (auto simp: f)
    qed
  next
    case False
    show ?thesis
    proof
      show "stands_on fs message p ?it" by (rule assms(3))
      show "field_iter_find_loop mem tag start it =
          (if tag_at fs p = tag then Some (True, iter_at mem fs message p)
           else if p \<noteq> start then field_iter_find_loop mem tag start ?it else Some (False, iter_at mem fs message p))"
        unfolding field_iter_find_loop.simps [of mem tag start it] Let_def word word0_fields(3) [OF A(1)] load index
        using False by (auto simp: f load index)
    qed
  qed
qed

lemma cyclic_step:
  assumes "p < n" and "Suc d < (n :: nat)"
  shows "(p + Suc d) mod n \<noteq> p" and "(Suc p mod n + k) mod n = (p + Suc k) mod n"
proof -
  show "(p + Suc d) mod n \<noteq> p"
    using assms by (cases "p + Suc d < n") (auto simp: mod_if [of "p + Suc d"] mod_if [of "p + Suc d - n"] simp del: add_Suc_right)
qed (simp add: mod_add_left_eq)

lemma find_loop_ends:
  assumes "field_table fs" and "p < length fs" and "d < length fs" and "start = (p + d) mod length fs"
    and "stands_on fs message p (advance_iterator it)"
  shows "field_iter_find_loop mem tag start it =
    Some (case find (\<lambda>q. tag_at fs q = tag) (map (\<lambda>k. (p + k) mod length fs) [0..<Suc d]) of
            Some q \<Rightarrow> (True, iter_at mem fs message q) | None \<Rightarrow> (False, iter_at mem fs message start))"
  using assms(2-)
proof (induction d arbitrary: p it)
  case (0 p it)
  then show ?case
    by (elim find_loop_step [OF assms(1), of p message it mem tag start, rotated]) simp_all
next
  case (Suc d p it)
  let ?q = "Suc p mod length fs"
  obtain it' where it': "stands_on fs message p it'"
    and loop: "field_iter_find_loop mem tag start it =
      (if tag_at fs p = tag then Some (True, iter_at mem fs message p)
       else if p \<noteq> start then field_iter_find_loop mem tag start it' else Some (False, iter_at mem fs message p))"
    using find_loop_step [OF assms(1) Suc(2) Suc(5)] by metis
  note cyclic = cyclic_step [OF Suc(2,3)]
  have step: "field_iter_find_loop mem tag start it' =
    Some (case find (\<lambda>q. tag_at fs q = tag) (map (\<lambda>k. (?q + k) mod length fs) [0..<Suc d]) of
            Some q \<Rightarrow> (True, iter_at mem fs message q) | None \<Rightarrow> (False, iter_at mem fs message start))"
    using Suc(2-4) advance_at [OF assms(1) Suc(2) it'] cyclic(2) [of d] by (intro Suc(1)) (auto intro: mod_less_divisor)
  have list: "map (\<lambda>k. (p + k) mod length fs) [0..<Suc (Suc d)] = p # map (\<lambda>k. (?q + k) mod length fs) [0..<Suc d]"
    using Suc(2) unfolding cyclic(2) by (simp add: upt_conv_Cons flip: map_Suc_upt del: upt_Suc)
  show ?case
    unfolding list loop step using cyclic(1) Suc(4) by simp
qed

lemma find_unique:
  assumes "\<And>x. P x \<Longrightarrow> x \<in> set xs \<longleftrightarrow> x \<in> set ys"
    and "\<And>x y. x \<in> set xs \<Longrightarrow> P x \<Longrightarrow> y \<in> set xs \<Longrightarrow> P y \<Longrightarrow> x = y"
  shows "find P xs = find P ys"
proof (cases "find P xs")
  case None
  then show ?thesis using assms(1) by (metis find_None_iff)
next
  case (Some x)
  then have x: "x \<in> set xs" "P x" by (auto simp: find_Some_iff)
  then obtain y where y: "find P ys = Some y" using assms(1) by (metis find_None_iff option.exhaust)
  then have "P y" "y \<in> set ys" by (auto simp: find_Some_iff)
  then show ?thesis using Some y x assms by metis
qed

lemma tags_ascend:
  assumes "field_table fs" and "q < r" and "r < length fs"
  shows "tag_at fs q < tag_at fs r"
  using assms by (auto simp: field_table_def sorted_wrt_iff_nth_less)

lemma tag_unique: "field_table fs \<Longrightarrow> q < length fs \<Longrightarrow> r < length fs \<Longrightarrow> tag_at fs q = tag_at fs r \<Longrightarrow> q = r"
  using tags_ascend by (metis less_irrefl linorder_neqE_nat)

lemma tag_position_Some:
  "field_table fs \<Longrightarrow> q < length fs \<Longrightarrow> tag_at fs q = tag \<Longrightarrow> tag_position fs tag = Some q"
  unfolding tag_position_def find_Some_iff using tags_ascend
  by (intro exI [of _ q]) (auto dest: less_imp_neq)

lemma tag_position_None: "tag_position fs tag = None \<longleftrightarrow> (\<forall>q < length fs. tag_at fs q \<noteq> tag)"
  by (auto simp: tag_position_def find_None_iff)

lemma tag_position_find:
  assumes "field_table fs" and "\<And>q. q \<in> set qs \<Longrightarrow> q < length fs"
    and "\<And>q. q < length fs \<Longrightarrow> tag_at fs q = tag \<Longrightarrow> q \<in> set qs"
  shows "find (\<lambda>q. tag_at fs q = tag) qs = tag_position fs tag"
  unfolding tag_position_def using assms tag_unique [OF assms(1)] by (intro find_unique) auto

lemma largest_tag:
  assumes "field_table fs"
  shows "md_largest_tag (table_desc fs) = unat (tag_at fs (length fs - 1))"
  using assms by (simp add: table_desc_def field_table_def last_conv_nth)

lemma cyclic_positions:
  assumes "i < n"
  shows "set (map (\<lambda>k. (Suc i mod n + k) mod n) [0..<Suc (n - 1)]) = {..<n}"
proof -
  have "q \<in> (\<lambda>k. (Suc i mod n + k) mod n) ` {0..<n}" if "q < n" for q
  proof (cases "i < q")
    case True
    then have "(Suc i mod n + (q - Suc i)) mod n = q" using that assms by (simp add: mod_add_left_eq)
    then show ?thesis using True that by (intro image_eqI [of _ _ "q - Suc i"]) auto
  next
    case False
    then have "(Suc i mod n + (n + q - Suc i)) mod n = q" using that assms by (subst mod_add_left_eq) simp
    then show ?thesis using False that assms by (intro image_eqI [of _ _ "n + q - Suc i"]) auto
  qed
  then show ?thesis using assms by (auto simp del: upt_Suc)
qed

lemma field_iter_begin_at:
  assumes "field_table fs"
  shows "field_iter_begin mem (table_desc fs) message = (True, iter_at mem fs message 0)"
proof -
  have "0 < length fs" using assms by (simp add: field_table_def)
  then show ?thesis
    unfolding field_iter_begin_def
    by (intro load_at [OF assms]) (simp_all add: stands_on_def required_fields_def submsg_fields_def)
qed

lemma field_iter_next_at:
  assumes "field_table fs" and "i < length fs"
  shows "field_iter_next mem (iter_at mem fs message i) = (Suc i < length fs, iter_at mem fs message (Suc i mod length fs))"
proof -
  have "Suc i mod length fs < length fs" using assms(2) by (intro mod_less_divisor) linarith
  note load = load_at [OF assms(1) this advance_at [OF assms stands_on_iter_at], of mem mem]
  have "Suc i mod length fs \<noteq> 0 \<longleftrightarrow> Suc i < length fs" using assms(2) by (cases "Suc i = length fs") auto
  then show ?thesis by (simp add: field_iter_next_def Let_def load)
qed

lemma find_loop_from_next:
  assumes table: "field_table fs" and i: "i < length fs"
  shows "field_iter_find_loop mem tag i (iter_at mem fs message i) =
    Some (case tag_position fs tag of Some q \<Rightarrow> (True, iter_at mem fs message q) | None \<Rightarrow> (False, iter_at mem fs message i))"
proof -
  have "Suc i mod length fs < length fs" using i by (intro mod_less_divisor) linarith
  note loop = find_loop_ends [OF table this, of "length fs - 1" i message _ mem tag]
  have "find (\<lambda>q. tag_at fs q = tag) (map (\<lambda>k. (Suc i mod length fs + k) mod length fs) [0..<Suc (length fs - 1)]) = tag_position fs tag"
    using cyclic_positions [OF i] by (intro tag_position_find [OF table]) auto
  moreover have "i = (Suc i mod length fs + (length fs - 1)) mod length fs"
  proof -
    have "Suc i + (length fs - 1) = i + length fs" using i by simp
    then show ?thesis using i by (simp only: mod_add_left_eq) simp
  qed
  ultimately show ?thesis
    using loop [OF _ _ advance_at [OF table i stands_on_iter_at]] i by (metis diff_less less_nat_zero_code less_one linorder_neqE_nat)
qed

lemma find_loop_from_start:
  assumes table: "field_table fs" and i: "i < length fs" and "tag < tag_at fs i"
  shows "field_iter_find_loop mem tag i (iter_at mem fs message i\<lparr>it_index := length fs\<rparr>) =
    Some (case tag_position fs tag of Some q \<Rightarrow> (True, iter_at mem fs message q) | None \<Rightarrow> (False, iter_at mem fs message i))"
proof -
  let ?qs = "map (\<lambda>k. (0 + k) mod length fs) [0..<Suc i]"
  have "length fs + 1 < 2 ^ 16" using table field_words_length [of fs] by (simp add: field_table_def)
  then have "stands_on fs message 0 (advance_iterator (iter_at mem fs message i\<lparr>it_index := length fs\<rparr>))"
    using stands_on_iter_at [of fs message i mem, unfolded stands_on_def] by (intro advance_wraps) simp_all
  then have loop: "field_iter_find_loop mem tag i (iter_at mem fs message i\<lparr>it_index := length fs\<rparr>) =
      Some (case find (\<lambda>q. tag_at fs q = tag) ?qs of
          Some q \<Rightarrow> (True, iter_at mem fs message q) | None \<Rightarrow> (False, iter_at mem fs message i))"
    using i by (intro find_loop_ends [OF table]) auto
  have before: "q < Suc i" if "q < length fs" "tag_at fs q = tag" for q
    using assms(3) tags_ascend [OF table _ that(1), of i] that by (metis less_SucI less_asym linorder_neqE_nat)
  have "?qs = [0..<Suc i]" using i by (intro map_idI) (simp add: less_Suc_eq_le del: upt_Suc)
  then have qs: "set ?qs = {..<Suc i}" by (simp add: lessThan_atLeast0 del: upt_Suc)
  have "find (\<lambda>q. tag_at fs q = tag) ?qs = tag_position fs tag"
    by (rule tag_position_find [OF table], unfold qs) (use i before in auto)
  then show ?thesis by (simp only: loop)
qed

lemma field_iter_find_at:
  assumes table: "field_table fs" and i: "i < length fs"
  shows "field_iter_find mem tag (iter_at mem fs message i) =
    Some (case tag_position fs tag of Some q \<Rightarrow> (True, iter_at mem fs message q) | None \<Rightarrow> (False, iter_at mem fs message i))"
proof -
  note tag_i = iter_tag [OF table i, of mem message, unfolded iter_at_simps]
  have last: "tag_at fs q \<le> tag_at fs (length fs - 1)" if "q < length fs" for q
    using tags_ascend [OF table, of q "length fs - 1"] that by (cases "q = length fs - 1") (auto intro: less_imp_le)
  consider "tag_at fs i = tag" | "tag > tag_at fs (length fs - 1)" | "tag_at fs i < tag" "tag \<le> tag_at fs (length fs - 1)" | "tag < tag_at fs i"
    by (metis linorder_neqE not_le)
  then show ?thesis
  proof cases
    case 1
    then show ?thesis using tag_position_Some [OF table i 1] tag_i by (simp add: field_iter_find_def)
  next
    case 2
    have "tag_at fs q < tag" if "q < length fs" for q
      using last [OF that] 2 by (rule le_less_trans)
    then have "tag_position fs tag = None" "tag_at fs i \<noteq> tag"
      using i by (auto simp: tag_position_None dest: less_imp_neq)
    then show ?thesis using 2 by (simp add: field_iter_find_def tag_i largest_tag [OF table] word_less_nat_alt)
  next
    case 3
    have "tag_at fs i \<noteq> tag" "\<not> tag < tag_at fs i"
      using less_imp_neq [OF 3(1)] order.asym [OF 3(1)] by auto
    moreover have "\<not> unat (tag_at fs (length fs - 1)) < unat tag"
      using 3(2) by (simp only: word_le_nat_alt not_less)
    ultimately show ?thesis
      by (simp add: field_iter_find_def tag_i largest_tag [OF table] find_loop_from_next [OF table i])
  next
    case 4
    have "tag \<le> tag_at fs (length fs - 1)" using last [OF i] 4 by (rule order.trans [OF less_imp_le, rotated])
    then have "\<not> unat (tag_at fs (length fs - 1)) < unat tag" by (simp only: word_le_nat_alt not_less)
    then show ?thesis
      using 4 less_imp_neq [OF 4] find_loop_from_start [OF table i 4]
      by (simp add: field_iter_find_def tag_i largest_tag [OF table])
  qed
qed

lemma find_extension_loop_ends:
  assumes "field_table fs" and "p < length fs" and "d < length fs" and "start = (p + d) mod length fs"
    and "stands_on fs message p (advance_iterator it)"
  shows "find_extension_loop mem start it = Some (False, iter_at mem fs message start)"
  using assms(2-)
proof (induction d arbitrary: p it)
  case (0 p it)
  obtain w f e where f: "fs ! p = (w, f, e)" by (metis prod_cases3)
  note A = field_at [OF assms(1) 0(1) f]
  have start: "start = p" using 0 by simp
  show ?case
    using words_at(1) [OF 0(1) f A(1)] 0(4) A(2) load_at [OF assms(1) 0(1,4), of mem]
    unfolding find_extension_loop.simps [of mem start it] by (simp add: Let_def stands_on_def word0_fields(2) [OF A(1)] start)
next
  case (Suc d p it)
  obtain w f e where f: "fs ! p = (w, f, e)" by (metis prod_cases3)
  note A = field_at [OF assms(1) Suc(2) f]
  have "Suc p mod length fs < length fs" using Suc(2) by (intro mod_less_divisor) linarith
  then have step: "find_extension_loop mem start (advance_iterator it) = Some (False, iter_at mem fs message start)"
    using Suc(3-5) advance_at [OF assms(1) Suc(2,5)] cyclic_step(2) [OF Suc(2,3), of d] by (intro Suc(1)) auto
  have "start \<noteq> p" using Suc(4) cyclic_step(1) [OF Suc(2,3)] by simp
  then show ?case
    using words_at(1) [OF Suc(2) f A(1)] Suc(5) A(2)
    unfolding find_extension_loop.simps [of mem start it] by (simp add: Let_def stands_on_def word0_fields(2) [OF A(1)] step)
qed

lemma find_extension_at:
  assumes "field_table fs" and "i < length fs"
  shows "field_iter_find_extension mem (iter_at mem fs message i) = Some (False, iter_at mem fs message i)"
proof -
  obtain w f e where f: "fs ! i = (w, f, e)" by (metis prod_cases3)
  have next': "Suc i mod length fs < length fs" using assms(2) by (intro mod_less_divisor) linarith
  have "i = (Suc i mod length fs + (length fs - 1)) mod length fs"
  proof -
    have "Suc i + (length fs - 1) = i + length fs" using assms(2) by simp
    then show ?thesis using assms(2) by (simp only: mod_add_left_eq) simp
  qed
  with find_extension_loop_ends [OF assms(1) next' _ _ advance_at [OF assms stands_on_iter_at], of "length fs - 1" i mem mem] assms(2)
  show ?thesis
    using field_at(2) [OF assms f] by (simp add: field_iter_find_extension_def f)
qed

section \<open>Field lists\<close>

text \<open>A field list that can be bound: the assertions hold, so it compiles.\<close>

definition searchable :: "bind_width \<Rightarrow> struct_layout \<Rightarrow> x_field list \<Rightarrow> bool" where
  "searchable width st xs \<longleftrightarrow> xs \<noteq> [] \<and>
     list_all (\<lambda>x. PB_GEN_FIELD_INFO_ASSERT width st x \<and> x_ltype x \<noteq> X_EXTENSION \<and> x_tag x < 2 ^ 16) xs \<and>
     sorted_wrt (\<lambda>x y. x_tag x < x_tag y) xs \<and> length xs < 2 ^ 12"

definition entries :: "bind_width \<Rightarrow> struct_layout \<Rightarrow> (string \<Rightarrow> 'd) \<Rightarrow> x_field list \<Rightarrow> 'd field_entry list" where
  "entries width st msgtype = map (\<lambda>x. (bind_info_width width x, field_facts st x, msgtype (msgtype_name (x_name x))))"

lemma entries_words: "field_words (entries width st msgtype xs) = concat (map (PB_GEN_FIELD_INFO width st) xs)"
  by (simp add: field_words_def entries_def PB_GEN_FIELD_INFO_def [abs_def] comp_def)

lemma entries_words_length: "length (field_words (entries width st msgtype xs)) \<le> 8 * length xs"
proof (induction xs)
  case (Cons x xs)
  have "length (PB_FIELDINFO (bind_info_width width x) (field_facts st x)) \<le> 8"
    by (simp add: info_length split: info_width.splits)
  with Cons show ?case by (simp add: entries_def)
qed (simp add: entries_def)

lemma entries_submsgs:
  "concat (map (PB_GEN_SUBMSG_INFO msgtype) xs) = map (\<lambda>e. Some (snd (snd e))) (submsg_fields (entries width st msgtype xs))"
  by (induction xs) (simp_all add: entries_def submsg_fields_def PB_GEN_SUBMSG_INFO_def generated_submsg)

lemma entries_required:
  "length (filter (\<lambda>x. PB_HTYPE_OF (x_htype x) = PB_HTYPE_REQUIRED) xs) = length (required_fields (entries width st msgtype xs))"
  by (induction xs) (simp_all add: entries_def required_fields_def generated_htype)

lemma fi_tag_facts: "fi_tag (field_facts st x) = of_nat (x_tag x)"
  by (cases x) simp

lemma unat_u32: "n < 2 ^ 16 \<Longrightarrow> unat (of_nat n :: u32) = n"
  by (simp add: unsigned_of_nat take_bit_nat_eq_self)

lemma searchableD:
  assumes "searchable width st xs"
  shows "xs \<noteq> []" and "sorted_wrt (\<lambda>x y. x_tag x < x_tag y) xs" and "length xs < 2 ^ 12"
    and "x \<in> set xs \<Longrightarrow> PB_FIELDINFO_ASSERT (bind_info_width width x) (field_facts st x)"
    and "x \<in> set xs \<Longrightarrow> x_ltype x \<noteq> X_EXTENSION" and "x \<in> set xs \<Longrightarrow> x_tag x < 2 ^ 16"
  using assms by (simp_all add: searchable_def list_all_iff PB_GEN_FIELD_INFO_ASSERT_def)

lemma entries_table:
  assumes "searchable width st xs"
  shows "field_table (entries width st msgtype xs)"
proof -
  note facts = searchableD [OF assms]
  have tags: "fi_tag (field_facts st x) < fi_tag (field_facts st y)"
    if "x \<in> set xs" "y \<in> set xs" "x_tag x < x_tag y" for x y
    unfolding fi_tag_facts word_less_nat_alt unat_u32 [OF facts(6) [OF that(1)]] unat_u32 [OF facts(6) [OF that(2)]] by (rule that)
  have "sorted_wrt (\<lambda>x y. fi_tag (field_facts st x) < fi_tag (field_facts st y)) xs"
    by (rule sorted_wrt_mono_rel [OF tags facts(2)])
  then have "sorted_wrt (\<lambda>e e'. fi_tag (facts e) < fi_tag (facts e')) (entries width st msgtype xs)"
    by (simp add: entries_def sorted_wrt_map)
  moreover have "length (field_words (entries width st msgtype xs) @ [0]) < 2 ^ 16"
    using entries_words_length [of width st msgtype xs] facts(3) by simp
  moreover have "list_all (\<lambda>(w, f, d). PB_FIELDINFO_ASSERT w f \<and> PB_LTYPE (fi_type f) \<noteq> PB_LTYPE_EXTENSION) (entries width st msgtype xs)"
    unfolding entries_def list_all_iff using facts(4,5) generated_extension by auto
  ultimately show ?thesis
    using facts(1) by (simp add: field_table_def entries_def)
qed

lemma bind_table:
  assumes "searchable width st xs"
  shows "PB_BIND width st msgtype xs = table_desc (entries width st msgtype xs)"
proof -
  note facts = searchableD [OF assms]
  have small: "length xs < 2 ^ 16" using facts(3) by simp
  have "fold (\<lambda>x n. n * 0 + x_tag x) ys 0 = (if ys = [] then 0 else x_tag (last ys))" for ys
    by (induction ys rule: rev_induct) simp_all
  then have "fold (\<lambda>x n. n * 0 + x_tag x) xs 0 = x_tag (last xs)" using facts(1) by simp
  moreover have tag: "x_tag (last xs) < 2 ^ 16" using facts(1,6) by simp
  moreover have "unat (fi_tag (facts (last (entries width st msgtype xs)))) = x_tag (last xs)"
    using facts(1) by (simp add: entries_def last_map fi_tag_facts unat_u32 [OF tag])
  moreover have "length (filter (\<lambda>x. PB_HTYPE_OF (x_htype x) = PB_HTYPE_REQUIRED) xs) < 2 ^ 16"
    using small by (rule le_less_trans [OF length_filter_le])
  moreover have "length (entries width st msgtype xs) = length xs" by (simp add: entries_def)
  ultimately show ?thesis
    using small
    unfolding PB_BIND_def table_desc_def entries_words entries_submsgs [where width = width and st = st] entries_required [where width = width and st = st and msgtype = msgtype]
    by simp
qed

end
