(* ===== verification/Protocol.thy ===== *)
theory Protocol
  imports Prelude
begin

text \<open>
  The constants of \<open>include/meshpigeon/protocol.h\<close> that every component of the core shares.
\<close>

definition MESHPIGEON_SPEC_VERSION :: nat where "MESHPIGEON_SPEC_VERSION = 2"
definition MESHPIGEON_MAX_RAW_PACKET :: nat where "MESHPIGEON_MAX_RAW_PACKET = 255"
definition MESHPIGEON_MAX_FRAME_PAYLOAD :: nat where "MESHPIGEON_MAX_FRAME_PAYLOAD = 512"
definition MESHPIGEON_TX_POWER_MAX :: nat where "MESHPIGEON_TX_POWER_MAX = 22"
definition MESHPIGEON_NAME_MAX :: nat where "MESHPIGEON_NAME_MAX = 20"
definition MESHPIGEON_PIN_MIN :: nat where "MESHPIGEON_PIN_MIN = 4"
definition MESHPIGEON_PIN_MAX :: nat where "MESHPIGEON_PIN_MAX = 8"
definition MESHPIGEON_SSID_MAX :: nat where "MESHPIGEON_SSID_MAX = 32"
definition MESHPIGEON_PASS_MAX :: nat where "MESHPIGEON_PASS_MAX = 63"
definition MESHPIGEON_WIFI_PORT_DEFAULT :: nat where "MESHPIGEON_WIFI_PORT_DEFAULT = 5000"

named_theorems protocol_limits \<open>the numeric limits of the protocol, as numerals\<close>

lemmas [protocol_limits] = MESHPIGEON_SPEC_VERSION_def MESHPIGEON_MAX_RAW_PACKET_def
  MESHPIGEON_MAX_FRAME_PAYLOAD_def MESHPIGEON_TX_POWER_MAX_def MESHPIGEON_NAME_MAX_def
  MESHPIGEON_PIN_MIN_def MESHPIGEON_PIN_MAX_def MESHPIGEON_SSID_MAX_def
  MESHPIGEON_PASS_MAX_def MESHPIGEON_WIFI_PORT_DEFAULT_def

end
