(* ===== verification/Messages.thy ===== *)
theory Messages
  imports Pb Protocol
begin

text \<open>
  The messages of the protocol, as generated for nanopb in
  \<open>src/generated/meshpigeon/{device,radio,envelope}.pb.h\<close>: every struct, its zero initializer and
  its field list.

  Struct fields carry a short prefix for their message.  A \<open>char\<close> array is the list of all its
  bytes, a bytes field the list of its valid bytes, an \<open>int32_t\<close> the 32-bit word of its bits.  The
  two \<open>which_body\<close>/\<open>union\<close> pairs are datatypes; entering a union member zeroes it, as the decoder
  does.  Enums are 32 bits wide (Xtensa, host); no request carries one, so the boards whose ABI
  has short enums exchange the same bytes.
\<close>

section \<open>Enum values\<close>

definition ERROR_CODE_BAD_COMMAND :: u32 where "ERROR_CODE_BAD_COMMAND = 1"
definition ERROR_CODE_BAD_PAYLOAD :: u32 where "ERROR_CODE_BAD_PAYLOAD = 2"
definition ERROR_CODE_BUSY :: u32 where "ERROR_CODE_BUSY = 3"
definition ERROR_CODE_TX_FAILED :: u32 where "ERROR_CODE_TX_FAILED = 4"
definition ERROR_CODE_NO_RADIO :: u32 where "ERROR_CODE_NO_RADIO = 5"
definition ERROR_CODE_NOT_SUPPORTED :: u32 where "ERROR_CODE_NOT_SUPPORTED = 6"
definition ERROR_CODE_AUTH_REQUIRED :: u32 where "ERROR_CODE_AUTH_REQUIRED = 7"

definition CAPABILITY_WIFI_STA :: u32 where "CAPABILITY_WIFI_STA = 1"
definition CAPABILITY_BATTERY :: u32 where "CAPABILITY_BATTERY = 2"
definition CAPABILITY_BLE :: u32 where "CAPABILITY_BLE = 3"
definition CAPABILITY_USB_CDC :: u32 where "CAPABILITY_USB_CDC = 4"

definition WIFI_STATE_OFF :: u32 where "WIFI_STATE_OFF = 1"
definition WIFI_STATE_CONNECTING :: u32 where "WIFI_STATE_CONNECTING = 2"
definition WIFI_STATE_CONNECTED :: u32 where "WIFI_STATE_CONNECTED = 3"
definition WIFI_STATE_AUTH_FAIL :: u32 where "WIFI_STATE_AUTH_FAIL = 4"
definition WIFI_STATE_ERROR :: u32 where "WIFI_STATE_ERROR = 5"

definition ORIGIN_SENT :: u32 where "ORIGIN_SENT = 1"
definition ORIGIN_RECEIVED :: u32 where "ORIGIN_RECEIVED = 2"

section \<open>Field types\<close>

text \<open>The \<open>PB_LTYPE_MAP\<close> of the scalar types used, at their C widths.\<close>

definition d_uint32 :: "('m \<Rightarrow> u32) \<Rightarrow> (u32 \<Rightarrow> 'm \<Rightarrow> 'm) \<Rightarrow> 'm pb_data" where
  "d_uint32 rd wr = Pb_Scalar LT_UVARINT 4 (\<lambda>m. ucast (rd m)) (\<lambda>v. wr (ucast v))"

definition d_uenum :: "('m \<Rightarrow> u32) \<Rightarrow> (u32 \<Rightarrow> 'm \<Rightarrow> 'm) \<Rightarrow> 'm pb_data" where
  "d_uenum rd wr = Pb_Scalar LT_UVARINT 4 (\<lambda>m. ucast (rd m)) (\<lambda>v. wr (ucast v))"

definition d_int32 :: "('m \<Rightarrow> u32) \<Rightarrow> (u32 \<Rightarrow> 'm \<Rightarrow> 'm) \<Rightarrow> 'm pb_data" where
  "d_int32 rd wr = Pb_Scalar LT_VARINT 4 (\<lambda>m. ucast (rd m)) (\<lambda>v. wr (ucast v))"

definition d_uint64 :: "('m \<Rightarrow> u64) \<Rightarrow> (u64 \<Rightarrow> 'm \<Rightarrow> 'm) \<Rightarrow> 'm pb_data" where
  "d_uint64 rd wr = Pb_Scalar LT_UVARINT 8 rd wr"

definition d_bool :: "('m \<Rightarrow> bool) \<Rightarrow> (bool \<Rightarrow> 'm \<Rightarrow> 'm) \<Rightarrow> 'm pb_data" where
  "d_bool rd wr = Pb_Scalar LT_BOOL 1 (\<lambda>m. of_bool (rd m)) (\<lambda>v. wr (v \<noteq> 0))"

definition d_enums :: "nat \<Rightarrow> ('m \<Rightarrow> u32 list) \<Rightarrow> (u32 list \<Rightarrow> 'm \<Rightarrow> 'm) \<Rightarrow> 'm pb_data" where
  "d_enums n rd wr = Pb_Array LT_UVARINT 4 n (\<lambda>m. map ucast (rd m)) (\<lambda>vs. wr (map ucast vs))"

definition f_one :: "nat \<Rightarrow> 'm pb_data \<Rightarrow> 'm pb_field" where
  "f_one tag data = \<lparr>f_tag = tag, f_presence = Singular, f_data = data\<rparr>"

definition f_opt :: "nat \<Rightarrow> ('m \<Rightarrow> bool) \<Rightarrow> (bool \<Rightarrow> 'm \<Rightarrow> 'm) \<Rightarrow> 'm pb_data \<Rightarrow> 'm pb_field" where
  "f_opt tag has set_has data = \<lparr>f_tag = tag, f_presence = Optional has set_has, f_data = data\<rparr>"

text \<open>The empty messages (\<open>GetStatus\<close>, \<open>Ok\<close>, \<open>Reboot\<close>, ...) have no fields and no content.\<close>

definition no_fields :: "unit pb_field list" where "no_fields = []"

section \<open>The messages\<close>

record meshpigeon_StoreInfo =
  si_count :: u32
  si_capacity_bytes :: u32
  si_dropped :: u32
  si_oldest_seq :: u32

definition StoreInfo_init_zero :: meshpigeon_StoreInfo where
  "StoreInfo_init_zero = \<lparr>si_count = 0, si_capacity_bytes = 0, si_dropped = 0,
     si_oldest_seq = 0\<rparr>"

definition StoreInfo_fields :: "meshpigeon_StoreInfo pb_field list" where
  "StoreInfo_fields = [
     f_one 1 (d_uint32 si_count (\<lambda>v. si_count_update (\<lambda>_. v))),
     f_one 2 (d_uint32 si_capacity_bytes (\<lambda>v. si_capacity_bytes_update (\<lambda>_. v))),
     f_one 3 (d_uint32 si_dropped (\<lambda>v. si_dropped_update (\<lambda>_. v))),
     f_one 4 (d_uint32 si_oldest_seq (\<lambda>v. si_oldest_seq_update (\<lambda>_. v)))]"

record meshpigeon_DeviceInfo =
  di_spec_version :: u32
  di_fw_version :: "byte list"
  di_board_name :: "byte list"
  di_capabilities :: "u32 list"
  di_uptime_ms :: u64
  di_boot_count :: u32
  di_has_store :: bool
  di_store :: meshpigeon_StoreInfo
  di_radio_config_epoch :: u32
  di_battery_mv :: u32
  di_radio_ok :: bool
  di_auth_required :: bool
  di_noise_floor_dbm :: u32

definition DeviceInfo_init_zero :: meshpigeon_DeviceInfo where
  "DeviceInfo_init_zero = \<lparr>di_spec_version = 0, di_fw_version = replicate 16 0,
     di_board_name = replicate 17 0, di_capabilities = [], di_uptime_ms = 0, di_boot_count = 0,
     di_has_store = False, di_store = StoreInfo_init_zero, di_radio_config_epoch = 0, di_battery_mv =
     0, di_radio_ok = False, di_auth_required = False, di_noise_floor_dbm = 0\<rparr>"

definition DeviceInfo_fields :: "meshpigeon_DeviceInfo pb_field list" where
  "DeviceInfo_fields = [
     f_one 1 (d_uint32 di_spec_version (\<lambda>v. di_spec_version_update (\<lambda>_. v))),
     f_one 2 (Pb_String 16 di_fw_version (\<lambda>v. di_fw_version_update (\<lambda>_. v))),
     f_one 3 (Pb_String 17 di_board_name (\<lambda>v. di_board_name_update (\<lambda>_. v))),
     f_one 4 (d_enums 16 di_capabilities (\<lambda>v. di_capabilities_update (\<lambda>_. v))),
     f_one 5 (d_uint64 di_uptime_ms (\<lambda>v. di_uptime_ms_update (\<lambda>_. v))),
     f_one 6 (d_uint32 di_boot_count (\<lambda>v. di_boot_count_update (\<lambda>_. v))),
     f_opt 7 di_has_store (\<lambda>v. di_has_store_update (\<lambda>_. v)) (submsg StoreInfo_fields
        StoreInfo_init_zero di_store (\<lambda>v. di_store_update (\<lambda>_. v))),
     f_one 8 (d_uint32 di_radio_config_epoch (\<lambda>v. di_radio_config_epoch_update (\<lambda>_.
        v))),
     f_one 9 (d_uint32 di_battery_mv (\<lambda>v. di_battery_mv_update (\<lambda>_. v))),
     f_one 10 (d_bool di_radio_ok (\<lambda>v. di_radio_ok_update (\<lambda>_. v))),
     f_one 11 (d_bool di_auth_required (\<lambda>v. di_auth_required_update (\<lambda>_. v))),
     f_one 12 (d_int32 di_noise_floor_dbm (\<lambda>v. di_noise_floor_dbm_update (\<lambda>_. v)))]"

record meshpigeon_DeviceSettings =
  dsm_name :: "byte list"
  dsm_wifi_enabled :: bool
  dsm_wifi_ssid :: "byte list"
  dsm_wifi_password :: "byte list"
  dsm_wifi_port :: u32

definition DeviceSettings_init_zero :: meshpigeon_DeviceSettings where
  "DeviceSettings_init_zero = \<lparr>dsm_name = replicate 21 0, dsm_wifi_enabled = False,
     dsm_wifi_ssid = replicate 33 0, dsm_wifi_password = replicate 64 0, dsm_wifi_port = 0\<rparr>"

definition DeviceSettings_fields :: "meshpigeon_DeviceSettings pb_field list" where
  "DeviceSettings_fields = [
     f_one 1 (Pb_String 21 dsm_name (\<lambda>v. dsm_name_update (\<lambda>_. v))),
     f_one 2 (d_bool dsm_wifi_enabled (\<lambda>v. dsm_wifi_enabled_update (\<lambda>_. v))),
     f_one 3 (Pb_String 33 dsm_wifi_ssid (\<lambda>v. dsm_wifi_ssid_update (\<lambda>_. v))),
     f_one 4 (Pb_String 64 dsm_wifi_password (\<lambda>v. dsm_wifi_password_update (\<lambda>_. v))),
     f_one 5 (d_uint32 dsm_wifi_port (\<lambda>v. dsm_wifi_port_update (\<lambda>_. v)))]"

record meshpigeon_SetDeviceSettings =
  sds_has_name :: bool
  sds_name :: "byte list"
  sds_has_pin :: bool
  sds_pin :: "byte list"
  sds_has_wifi_enabled :: bool
  sds_wifi_enabled :: bool
  sds_has_wifi_ssid :: bool
  sds_wifi_ssid :: "byte list"
  sds_has_wifi_password :: bool
  sds_wifi_password :: "byte list"
  sds_has_wifi_port :: bool
  sds_wifi_port :: u32

definition SetDeviceSettings_init_zero :: meshpigeon_SetDeviceSettings where
  "SetDeviceSettings_init_zero = \<lparr>sds_has_name = False, sds_name = replicate 21 0,
     sds_has_pin = False, sds_pin = replicate 9 0, sds_has_wifi_enabled = False, sds_wifi_enabled =
     False, sds_has_wifi_ssid = False, sds_wifi_ssid = replicate 33 0, sds_has_wifi_password = False,
     sds_wifi_password = replicate 64 0, sds_has_wifi_port = False, sds_wifi_port = 0\<rparr>"

definition SetDeviceSettings_fields :: "meshpigeon_SetDeviceSettings pb_field list" where
  "SetDeviceSettings_fields = [
     f_opt 1 sds_has_name (\<lambda>v. sds_has_name_update (\<lambda>_. v)) (Pb_String 21 sds_name
        (\<lambda>v. sds_name_update (\<lambda>_. v))),
     f_opt 2 sds_has_pin (\<lambda>v. sds_has_pin_update (\<lambda>_. v)) (Pb_String 9 sds_pin
        (\<lambda>v. sds_pin_update (\<lambda>_. v))),
     f_opt 3 sds_has_wifi_enabled (\<lambda>v. sds_has_wifi_enabled_update (\<lambda>_. v)) (d_bool
        sds_wifi_enabled (\<lambda>v. sds_wifi_enabled_update (\<lambda>_. v))),
     f_opt 4 sds_has_wifi_ssid (\<lambda>v. sds_has_wifi_ssid_update (\<lambda>_. v)) (Pb_String 33
        sds_wifi_ssid (\<lambda>v. sds_wifi_ssid_update (\<lambda>_. v))),
     f_opt 5 sds_has_wifi_password (\<lambda>v. sds_has_wifi_password_update (\<lambda>_. v))
        (Pb_String 64 sds_wifi_password (\<lambda>v. sds_wifi_password_update (\<lambda>_. v))),
     f_opt 6 sds_has_wifi_port (\<lambda>v. sds_has_wifi_port_update (\<lambda>_. v)) (d_uint32
        sds_wifi_port (\<lambda>v. sds_wifi_port_update (\<lambda>_. v)))]"

record meshpigeon_Status =
  st_wifi_state :: u32
  st_wifi_ssid :: "byte list"
  st_wifi_ipv4 :: "byte list"
  st_wifi_port :: u32
  st_wifi_rssi :: u32
  st_ble_clients :: u32
  st_usb_cdc_clients :: u32
  st_wifi_tcp_clients :: u32

definition Status_init_zero :: meshpigeon_Status where
  "Status_init_zero = \<lparr>st_wifi_state = 0, st_wifi_ssid = replicate 33 0, st_wifi_ipv4 = [],
     st_wifi_port = 0, st_wifi_rssi = 0, st_ble_clients = 0, st_usb_cdc_clients = 0,
     st_wifi_tcp_clients = 0\<rparr>"

definition Status_fields :: "meshpigeon_Status pb_field list" where
  "Status_fields = [
     f_one 1 (d_uenum st_wifi_state (\<lambda>v. st_wifi_state_update (\<lambda>_. v))),
     f_one 2 (Pb_String 33 st_wifi_ssid (\<lambda>v. st_wifi_ssid_update (\<lambda>_. v))),
     f_one 3 (Pb_Bytes 6 st_wifi_ipv4 (\<lambda>v. st_wifi_ipv4_update (\<lambda>_. v))),
     f_one 4 (d_uint32 st_wifi_port (\<lambda>v. st_wifi_port_update (\<lambda>_. v))),
     f_one 5 (d_int32 st_wifi_rssi (\<lambda>v. st_wifi_rssi_update (\<lambda>_. v))),
     f_one 6 (d_uint32 st_ble_clients (\<lambda>v. st_ble_clients_update (\<lambda>_. v))),
     f_one 7 (d_uint32 st_usb_cdc_clients (\<lambda>v. st_usb_cdc_clients_update (\<lambda>_. v))),
     f_one 8 (d_uint32 st_wifi_tcp_clients (\<lambda>v. st_wifi_tcp_clients_update (\<lambda>_. v)))]"

record meshpigeon_Auth =
  au_pin :: "byte list"

definition Auth_init_zero :: meshpigeon_Auth where
  "Auth_init_zero = \<lparr>au_pin = replicate 9 0\<rparr>"

definition Auth_fields :: "meshpigeon_Auth pb_field list" where
  "Auth_fields = [
     f_one 1 (Pb_String 9 au_pin (\<lambda>v. au_pin_update (\<lambda>_. v)))]"

record meshpigeon_RadioSettings =
  rsm_freq_hz :: u32
  rsm_bandwidth_hz :: u32
  rsm_sf :: u32
  rsm_cr :: u32
  rsm_power_dbm :: u32
  rsm_config_epoch :: u32

definition RadioSettings_init_zero :: meshpigeon_RadioSettings where
  "RadioSettings_init_zero = \<lparr>rsm_freq_hz = 0, rsm_bandwidth_hz = 0, rsm_sf = 0, rsm_cr =
     0, rsm_power_dbm = 0, rsm_config_epoch = 0\<rparr>"

definition RadioSettings_fields :: "meshpigeon_RadioSettings pb_field list" where
  "RadioSettings_fields = [
     f_one 1 (d_uint32 rsm_freq_hz (\<lambda>v. rsm_freq_hz_update (\<lambda>_. v))),
     f_one 2 (d_uint32 rsm_bandwidth_hz (\<lambda>v. rsm_bandwidth_hz_update (\<lambda>_. v))),
     f_one 3 (d_uint32 rsm_sf (\<lambda>v. rsm_sf_update (\<lambda>_. v))),
     f_one 4 (d_uint32 rsm_cr (\<lambda>v. rsm_cr_update (\<lambda>_. v))),
     f_one 5 (d_uint32 rsm_power_dbm (\<lambda>v. rsm_power_dbm_update (\<lambda>_. v))),
     f_one 6 (d_uint32 rsm_config_epoch (\<lambda>v. rsm_config_epoch_update (\<lambda>_. v)))]"

record meshpigeon_SetRadioSettings =
  srs_has_settings :: bool
  srs_settings :: meshpigeon_RadioSettings

definition SetRadioSettings_init_zero :: meshpigeon_SetRadioSettings where
  "SetRadioSettings_init_zero = \<lparr>srs_has_settings = False, srs_settings =
     RadioSettings_init_zero\<rparr>"

definition SetRadioSettings_fields :: "meshpigeon_SetRadioSettings pb_field list" where
  "SetRadioSettings_fields = [
     f_opt 1 srs_has_settings (\<lambda>v. srs_has_settings_update (\<lambda>_. v)) (submsg
        RadioSettings_fields RadioSettings_init_zero srs_settings (\<lambda>v. srs_settings_update
        (\<lambda>_. v)))]"

record meshpigeon_SendPacket =
  spm_raw :: "byte list"

definition SendPacket_init_zero :: meshpigeon_SendPacket where
  "SendPacket_init_zero = \<lparr>spm_raw = []\<rparr>"

definition SendPacket_fields :: "meshpigeon_SendPacket pb_field list" where
  "SendPacket_fields = [
     f_one 1 (Pb_Bytes 258 spm_raw (\<lambda>v. spm_raw_update (\<lambda>_. v)))]"

record meshpigeon_PacketAccepted =
  pa_seq :: u32

definition PacketAccepted_init_zero :: meshpigeon_PacketAccepted where
  "PacketAccepted_init_zero = \<lparr>pa_seq = 0\<rparr>"

definition PacketAccepted_fields :: "meshpigeon_PacketAccepted pb_field list" where
  "PacketAccepted_fields = [
     f_one 1 (d_uint32 pa_seq (\<lambda>v. pa_seq_update (\<lambda>_. v)))]"

record meshpigeon_FetchPackets =
  fp_since_seq :: u32
  fp_max_count :: u32

definition FetchPackets_init_zero :: meshpigeon_FetchPackets where
  "FetchPackets_init_zero = \<lparr>fp_since_seq = 0, fp_max_count = 0\<rparr>"

definition FetchPackets_fields :: "meshpigeon_FetchPackets pb_field list" where
  "FetchPackets_fields = [
     f_one 1 (d_uint32 fp_since_seq (\<lambda>v. fp_since_seq_update (\<lambda>_. v))),
     f_one 2 (d_uint32 fp_max_count (\<lambda>v. fp_max_count_update (\<lambda>_. v)))]"

record meshpigeon_PacketEntry =
  pe_seq :: u32
  pe_raw :: "byte list"
  pe_uptime_ms :: u64
  pe_rssi :: u32
  pe_snr :: u32
  pe_origin :: u32

definition PacketEntry_init_zero :: meshpigeon_PacketEntry where
  "PacketEntry_init_zero = \<lparr>pe_seq = 0, pe_raw = [], pe_uptime_ms = 0, pe_rssi = 0, pe_snr
     = 0, pe_origin = 0\<rparr>"

definition PacketEntry_fields :: "meshpigeon_PacketEntry pb_field list" where
  "PacketEntry_fields = [
     f_one 1 (d_uint32 pe_seq (\<lambda>v. pe_seq_update (\<lambda>_. v))),
     f_one 2 (Pb_Bytes 258 pe_raw (\<lambda>v. pe_raw_update (\<lambda>_. v))),
     f_one 3 (d_uint64 pe_uptime_ms (\<lambda>v. pe_uptime_ms_update (\<lambda>_. v))),
     f_one 4 (d_int32 pe_rssi (\<lambda>v. pe_rssi_update (\<lambda>_. v))),
     f_one 5 (d_int32 pe_snr (\<lambda>v. pe_snr_update (\<lambda>_. v))),
     f_one 6 (d_uenum pe_origin (\<lambda>v. pe_origin_update (\<lambda>_. v)))]"

record meshpigeon_FetchEnd =
  fe_count :: u32

definition FetchEnd_init_zero :: meshpigeon_FetchEnd where
  "FetchEnd_init_zero = \<lparr>fe_count = 0\<rparr>"

definition FetchEnd_fields :: "meshpigeon_FetchEnd pb_field list" where
  "FetchEnd_fields = [
     f_one 1 (d_uint32 fe_count (\<lambda>v. fe_count_update (\<lambda>_. v)))]"

record meshpigeon_TxResult =
  tr_seq :: u32
  tr_success :: bool

definition TxResult_init_zero :: meshpigeon_TxResult where
  "TxResult_init_zero = \<lparr>tr_seq = 0, tr_success = False\<rparr>"

definition TxResult_fields :: "meshpigeon_TxResult pb_field list" where
  "TxResult_fields = [
     f_one 1 (d_uint32 tr_seq (\<lambda>v. tr_seq_update (\<lambda>_. v))),
     f_one 2 (d_bool tr_success (\<lambda>v. tr_success_update (\<lambda>_. v)))]"

record meshpigeon_Error =
  er_code :: u32
  er_message :: "byte list"

definition Error_init_zero :: meshpigeon_Error where
  "Error_init_zero = \<lparr>er_code = 0, er_message = replicate 65 0\<rparr>"

definition Error_fields :: "meshpigeon_Error pb_field list" where
  "Error_fields = [
     f_one 1 (d_uenum er_code (\<lambda>v. er_code_update (\<lambda>_. v))),
     f_one 2 (Pb_String 65 er_message (\<lambda>v. er_message_update (\<lambda>_. v)))]"

record meshpigeon_Ping =
  pi_payload :: "byte list"

definition Ping_init_zero :: meshpigeon_Ping where
  "Ping_init_zero = \<lparr>pi_payload = []\<rparr>"

definition Ping_fields :: "meshpigeon_Ping pb_field list" where
  "Ping_fields = [
     f_one 1 (Pb_Bytes 502 pi_payload (\<lambda>v. pi_payload_update (\<lambda>_. v)))]"

record meshpigeon_Pong =
  po_payload :: "byte list"

definition Pong_init_zero :: meshpigeon_Pong where
  "Pong_init_zero = \<lparr>po_payload = []\<rparr>"

definition Pong_fields :: "meshpigeon_Pong pb_field list" where
  "Pong_fields = [
     f_one 1 (Pb_Bytes 502 po_payload (\<lambda>v. po_payload_update (\<lambda>_. v)))]"

datatype cr_body = C_none | C_ping meshpigeon_Ping | C_get_device_info | C_get_radio_settings |
   C_set_radio_settings meshpigeon_SetRadioSettings | C_send_packet meshpigeon_SendPacket |
   C_fetch_packets meshpigeon_FetchPackets | C_purge_store | C_get_device_settings |
   C_set_device_settings meshpigeon_SetDeviceSettings | C_get_status | C_auth meshpigeon_Auth |
   C_reboot | C_factory_reset | C_bootloader

fun C_which :: "cr_body \<Rightarrow> nat" where
  "C_which C_none = 0"
| "C_which (C_ping _) = 2"
| "C_which (C_get_device_info) = 3"
| "C_which (C_get_radio_settings) = 4"
| "C_which (C_set_radio_settings _) = 5"
| "C_which (C_send_packet _) = 6"
| "C_which (C_fetch_packets _) = 7"
| "C_which (C_purge_store) = 8"
| "C_which (C_get_device_settings) = 9"
| "C_which (C_set_device_settings _) = 10"
| "C_which (C_get_status) = 11"
| "C_which (C_auth _) = 12"
| "C_which (C_reboot) = 13"
| "C_which (C_factory_reset) = 14"
| "C_which (C_bootloader) = 15"

record meshpigeon_ClientToRadio =
  cr_id :: u32
  cr_body :: cr_body

definition ClientToRadio_init_zero :: meshpigeon_ClientToRadio where
  "ClientToRadio_init_zero = \<lparr>cr_id = 0, cr_body = C_none\<rparr>"

definition cr_member :: "nat \<Rightarrow> cr_body \<Rightarrow> meshpigeon_ClientToRadio
   pb_data \<Rightarrow> meshpigeon_ClientToRadio pb_field" where
  "cr_member tag start data =
     \<lparr>f_tag = tag,
      f_presence = Oneof (\<lambda>m. C_which (cr_body m)) (cr_body_update (\<lambda>_. start))
         (cr_body_update (\<lambda>_. C_none)),
      f_data = data\<rparr>"

definition ClientToRadio_fields :: "meshpigeon_ClientToRadio pb_field list" where
  "ClientToRadio_fields = [
     f_one 1 (d_uint32 cr_id (\<lambda>v. cr_id_update (\<lambda>_. v))),
     cr_member 2 (C_ping Ping_init_zero) (submsg Ping_fields Ping_init_zero
         (\<lambda>m. case cr_body m of C_ping x \<Rightarrow> x | _ \<Rightarrow> Ping_init_zero)
         (\<lambda>x. cr_body_update (\<lambda>_. C_ping x))),
     cr_member 3 (C_get_device_info) (submsg no_fields () (\<lambda>m. ()) (\<lambda>x m. m)),
     cr_member 4 (C_get_radio_settings) (submsg no_fields () (\<lambda>m. ()) (\<lambda>x m. m)),
     cr_member 5 (C_set_radio_settings SetRadioSettings_init_zero) (submsg SetRadioSettings_fields
        SetRadioSettings_init_zero
         (\<lambda>m. case cr_body m of C_set_radio_settings x \<Rightarrow> x | _ \<Rightarrow>
            SetRadioSettings_init_zero)
         (\<lambda>x. cr_body_update (\<lambda>_. C_set_radio_settings x))),
     cr_member 6 (C_send_packet SendPacket_init_zero) (submsg SendPacket_fields SendPacket_init_zero
         (\<lambda>m. case cr_body m of C_send_packet x \<Rightarrow> x | _ \<Rightarrow>
            SendPacket_init_zero)
         (\<lambda>x. cr_body_update (\<lambda>_. C_send_packet x))),
     cr_member 7 (C_fetch_packets FetchPackets_init_zero) (submsg FetchPackets_fields
        FetchPackets_init_zero
         (\<lambda>m. case cr_body m of C_fetch_packets x \<Rightarrow> x | _ \<Rightarrow>
            FetchPackets_init_zero)
         (\<lambda>x. cr_body_update (\<lambda>_. C_fetch_packets x))),
     cr_member 8 (C_purge_store) (submsg no_fields () (\<lambda>m. ()) (\<lambda>x m. m)),
     cr_member 9 (C_get_device_settings) (submsg no_fields () (\<lambda>m. ()) (\<lambda>x m. m)),
     cr_member 10 (C_set_device_settings SetDeviceSettings_init_zero) (submsg
        SetDeviceSettings_fields SetDeviceSettings_init_zero
         (\<lambda>m. case cr_body m of C_set_device_settings x \<Rightarrow> x | _ \<Rightarrow>
            SetDeviceSettings_init_zero)
         (\<lambda>x. cr_body_update (\<lambda>_. C_set_device_settings x))),
     cr_member 11 (C_get_status) (submsg no_fields () (\<lambda>m. ()) (\<lambda>x m. m)),
     cr_member 12 (C_auth Auth_init_zero) (submsg Auth_fields Auth_init_zero
         (\<lambda>m. case cr_body m of C_auth x \<Rightarrow> x | _ \<Rightarrow> Auth_init_zero)
         (\<lambda>x. cr_body_update (\<lambda>_. C_auth x))),
     cr_member 13 (C_reboot) (submsg no_fields () (\<lambda>m. ()) (\<lambda>x m. m)),
     cr_member 14 (C_factory_reset) (submsg no_fields () (\<lambda>m. ()) (\<lambda>x m. m)),
     cr_member 15 (C_bootloader) (submsg no_fields () (\<lambda>m. ()) (\<lambda>x m. m))]"

datatype rc_body = R_none | R_pong meshpigeon_Pong | R_device_info meshpigeon_DeviceInfo |
   R_radio_settings meshpigeon_RadioSettings | R_packet_accepted meshpigeon_PacketAccepted |
   R_packet_entry meshpigeon_PacketEntry | R_fetch_end meshpigeon_FetchEnd | R_tx_result
   meshpigeon_TxResult | R_device_settings meshpigeon_DeviceSettings | R_status meshpigeon_Status |
   R_ok | R_error meshpigeon_Error

fun R_which :: "rc_body \<Rightarrow> nat" where
  "R_which R_none = 0"
| "R_which (R_pong _) = 2"
| "R_which (R_device_info _) = 3"
| "R_which (R_radio_settings _) = 4"
| "R_which (R_packet_accepted _) = 5"
| "R_which (R_packet_entry _) = 6"
| "R_which (R_fetch_end _) = 7"
| "R_which (R_tx_result _) = 8"
| "R_which (R_device_settings _) = 9"
| "R_which (R_status _) = 10"
| "R_which (R_ok) = 11"
| "R_which (R_error _) = 12"

record meshpigeon_RadioToClient =
  rc_id :: u32
  rc_body :: rc_body

definition RadioToClient_init_zero :: meshpigeon_RadioToClient where
  "RadioToClient_init_zero = \<lparr>rc_id = 0, rc_body = R_none\<rparr>"

definition rc_member :: "nat \<Rightarrow> rc_body \<Rightarrow> meshpigeon_RadioToClient
   pb_data \<Rightarrow> meshpigeon_RadioToClient pb_field" where
  "rc_member tag start data =
     \<lparr>f_tag = tag,
      f_presence = Oneof (\<lambda>m. R_which (rc_body m)) (rc_body_update (\<lambda>_. start))
         (rc_body_update (\<lambda>_. R_none)),
      f_data = data\<rparr>"

definition RadioToClient_fields :: "meshpigeon_RadioToClient pb_field list" where
  "RadioToClient_fields = [
     f_one 1 (d_uint32 rc_id (\<lambda>v. rc_id_update (\<lambda>_. v))),
     rc_member 2 (R_pong Pong_init_zero) (submsg Pong_fields Pong_init_zero
         (\<lambda>m. case rc_body m of R_pong x \<Rightarrow> x | _ \<Rightarrow> Pong_init_zero)
         (\<lambda>x. rc_body_update (\<lambda>_. R_pong x))),
     rc_member 3 (R_device_info DeviceInfo_init_zero) (submsg DeviceInfo_fields DeviceInfo_init_zero
         (\<lambda>m. case rc_body m of R_device_info x \<Rightarrow> x | _ \<Rightarrow>
            DeviceInfo_init_zero)
         (\<lambda>x. rc_body_update (\<lambda>_. R_device_info x))),
     rc_member 4 (R_radio_settings RadioSettings_init_zero) (submsg RadioSettings_fields
        RadioSettings_init_zero
         (\<lambda>m. case rc_body m of R_radio_settings x \<Rightarrow> x | _ \<Rightarrow>
            RadioSettings_init_zero)
         (\<lambda>x. rc_body_update (\<lambda>_. R_radio_settings x))),
     rc_member 5 (R_packet_accepted PacketAccepted_init_zero) (submsg PacketAccepted_fields
        PacketAccepted_init_zero
         (\<lambda>m. case rc_body m of R_packet_accepted x \<Rightarrow> x | _ \<Rightarrow>
            PacketAccepted_init_zero)
         (\<lambda>x. rc_body_update (\<lambda>_. R_packet_accepted x))),
     rc_member 6 (R_packet_entry PacketEntry_init_zero) (submsg PacketEntry_fields PacketEntry_init_zero
         (\<lambda>m. case rc_body m of R_packet_entry x \<Rightarrow> x | _ \<Rightarrow>
            PacketEntry_init_zero)
         (\<lambda>x. rc_body_update (\<lambda>_. R_packet_entry x))),
     rc_member 7 (R_fetch_end FetchEnd_init_zero) (submsg FetchEnd_fields FetchEnd_init_zero
         (\<lambda>m. case rc_body m of R_fetch_end x \<Rightarrow> x | _ \<Rightarrow>
            FetchEnd_init_zero)
         (\<lambda>x. rc_body_update (\<lambda>_. R_fetch_end x))),
     rc_member 8 (R_tx_result TxResult_init_zero) (submsg TxResult_fields TxResult_init_zero
         (\<lambda>m. case rc_body m of R_tx_result x \<Rightarrow> x | _ \<Rightarrow>
            TxResult_init_zero)
         (\<lambda>x. rc_body_update (\<lambda>_. R_tx_result x))),
     rc_member 9 (R_device_settings DeviceSettings_init_zero) (submsg DeviceSettings_fields
        DeviceSettings_init_zero
         (\<lambda>m. case rc_body m of R_device_settings x \<Rightarrow> x | _ \<Rightarrow>
            DeviceSettings_init_zero)
         (\<lambda>x. rc_body_update (\<lambda>_. R_device_settings x))),
     rc_member 10 (R_status Status_init_zero) (submsg Status_fields Status_init_zero
         (\<lambda>m. case rc_body m of R_status x \<Rightarrow> x | _ \<Rightarrow> Status_init_zero)
         (\<lambda>x. rc_body_update (\<lambda>_. R_status x))),
     rc_member 11 (R_ok) (submsg no_fields () (\<lambda>m. ()) (\<lambda>x m. m)),
     rc_member 12 (R_error Error_init_zero) (submsg Error_fields Error_init_zero
         (\<lambda>m. case rc_body m of R_error x \<Rightarrow> x | _ \<Rightarrow> Error_init_zero)
         (\<lambda>x. rc_body_update (\<lambda>_. R_error x)))]"

section \<open>Encoded sizes\<close>

text \<open>The \<open>_size\<close> bounds of the generated headers.\<close>

definition Auth_size :: nat where "Auth_size = 10"
definition DeviceInfo_size :: nat where "DeviceInfo_size = 143"
definition DeviceSettings_size :: nat where "DeviceSettings_size = 129"
definition SetDeviceSettings_size :: nat where "SetDeviceSettings_size = 139"
definition Status_size :: nat where "Status_size = 77"
definition StoreInfo_size :: nat where "StoreInfo_size = 24"
definition FetchEnd_size :: nat where "FetchEnd_size = 6"
definition FetchPackets_size :: nat where "FetchPackets_size = 12"
definition PacketAccepted_size :: nat where "PacketAccepted_size = 6"
definition PacketEntry_size :: nat where "PacketEntry_size = 299"
definition RadioSettings_size :: nat where "RadioSettings_size = 36"
definition SendPacket_size :: nat where "SendPacket_size = 258"
definition SetRadioSettings_size :: nat where "SetRadioSettings_size = 38"
definition TxResult_size :: nat where "TxResult_size = 8"
definition ClientToRadio_size :: nat where "ClientToRadio_size = 512"
definition Error_size :: nat where "Error_size = 68"
definition Ping_size :: nat where "Ping_size = 503"
definition Pong_size :: nat where "Pong_size = 503"
definition RadioToClient_size :: nat where "RadioToClient_size = 512"

end
