(* ===== verification/MessageTables.thy ===== *)
theory MessageTables
  imports FieldIter Messages
begin

text \<open>
  The field lists and bindings that the generator wrote for the messages (\<open>generated/meshpigeon\<close>), and the
  properties of the iterator: whatever the compiler's layout of the structures, if the assertions of a
  binding hold, the iterator walks the fields of the message in order and finds the field of a tag.
\<close>

section \<open>Field lists\<close>

definition GetDeviceInfo_FIELDLIST :: "x_field list" where
  "GetDeviceInfo_FIELDLIST = []"

definition DeviceInfo_FIELDLIST :: "x_field list" where
  "DeviceInfo_FIELDLIST = [
     X_Field X_STATIC X_SINGULAR X_UINT32 (Field_Name ''spec_version'') 1,
     X_Field X_STATIC X_SINGULAR X_STRING (Field_Name ''fw_version'') 2,
     X_Field X_STATIC X_SINGULAR X_STRING (Field_Name ''board_name'') 3,
     X_Field X_STATIC X_REPEATED X_UENUM (Field_Name ''capabilities'') 4,
     X_Field X_STATIC X_SINGULAR X_UINT64 (Field_Name ''uptime_ms'') 5,
     X_Field X_STATIC X_SINGULAR X_UINT32 (Field_Name ''boot_count'') 6,
     X_Field X_STATIC X_OPTIONAL X_MESSAGE (Field_Name ''store'') 7,
     X_Field X_STATIC X_SINGULAR X_UINT32 (Field_Name ''radio_config_epoch'') 8,
     X_Field X_STATIC X_SINGULAR X_UINT32 (Field_Name ''battery_mv'') 9,
     X_Field X_STATIC X_SINGULAR X_BOOL (Field_Name ''radio_ok'') 10,
     X_Field X_STATIC X_SINGULAR X_BOOL (Field_Name ''auth_required'') 11,
     X_Field X_STATIC X_SINGULAR X_INT32 (Field_Name ''noise_floor_dbm'') 12]"

definition StoreInfo_FIELDLIST :: "x_field list" where
  "StoreInfo_FIELDLIST = [
     X_Field X_STATIC X_SINGULAR X_UINT32 (Field_Name ''count'') 1,
     X_Field X_STATIC X_SINGULAR X_UINT32 (Field_Name ''capacity_bytes'') 2,
     X_Field X_STATIC X_SINGULAR X_UINT32 (Field_Name ''dropped'') 3,
     X_Field X_STATIC X_SINGULAR X_UINT32 (Field_Name ''oldest_seq'') 4]"

definition GetDeviceSettings_FIELDLIST :: "x_field list" where
  "GetDeviceSettings_FIELDLIST = []"

definition DeviceSettings_FIELDLIST :: "x_field list" where
  "DeviceSettings_FIELDLIST = [
     X_Field X_STATIC X_SINGULAR X_STRING (Field_Name ''name'') 1,
     X_Field X_STATIC X_SINGULAR X_BOOL (Field_Name ''wifi_enabled'') 2,
     X_Field X_STATIC X_SINGULAR X_STRING (Field_Name ''wifi_ssid'') 3,
     X_Field X_STATIC X_SINGULAR X_STRING (Field_Name ''wifi_password'') 4,
     X_Field X_STATIC X_SINGULAR X_UINT32 (Field_Name ''wifi_port'') 5]"

definition SetDeviceSettings_FIELDLIST :: "x_field list" where
  "SetDeviceSettings_FIELDLIST = [
     X_Field X_STATIC X_OPTIONAL X_STRING (Field_Name ''name'') 1,
     X_Field X_STATIC X_OPTIONAL X_STRING (Field_Name ''pin'') 2,
     X_Field X_STATIC X_OPTIONAL X_BOOL (Field_Name ''wifi_enabled'') 3,
     X_Field X_STATIC X_OPTIONAL X_STRING (Field_Name ''wifi_ssid'') 4,
     X_Field X_STATIC X_OPTIONAL X_STRING (Field_Name ''wifi_password'') 5,
     X_Field X_STATIC X_OPTIONAL X_UINT32 (Field_Name ''wifi_port'') 6]"

definition GetStatus_FIELDLIST :: "x_field list" where
  "GetStatus_FIELDLIST = []"

definition Status_FIELDLIST :: "x_field list" where
  "Status_FIELDLIST = [
     X_Field X_STATIC X_SINGULAR X_UENUM (Field_Name ''wifi_state'') 1,
     X_Field X_STATIC X_SINGULAR X_STRING (Field_Name ''wifi_ssid'') 2,
     X_Field X_STATIC X_SINGULAR X_BYTES (Field_Name ''wifi_ipv4'') 3,
     X_Field X_STATIC X_SINGULAR X_UINT32 (Field_Name ''wifi_port'') 4,
     X_Field X_STATIC X_SINGULAR X_INT32 (Field_Name ''wifi_rssi'') 5,
     X_Field X_STATIC X_SINGULAR X_UINT32 (Field_Name ''ble_clients'') 6,
     X_Field X_STATIC X_SINGULAR X_UINT32 (Field_Name ''usb_cdc_clients'') 7,
     X_Field X_STATIC X_SINGULAR X_UINT32 (Field_Name ''wifi_tcp_clients'') 8]"

definition Auth_FIELDLIST :: "x_field list" where
  "Auth_FIELDLIST = [
     X_Field X_STATIC X_SINGULAR X_STRING (Field_Name ''pin'') 1]"

definition Reboot_FIELDLIST :: "x_field list" where
  "Reboot_FIELDLIST = []"

definition FactoryReset_FIELDLIST :: "x_field list" where
  "FactoryReset_FIELDLIST = []"

definition Bootloader_FIELDLIST :: "x_field list" where
  "Bootloader_FIELDLIST = []"

definition ClientToRadio_FIELDLIST :: "x_field list" where
  "ClientToRadio_FIELDLIST = [
     X_Field X_STATIC X_SINGULAR X_UINT32 (Field_Name ''id'') 1,
     X_Field X_STATIC X_ONEOF X_MESSAGE (Oneof_Name ''body'' ''ping'' ''body.ping'') 2,
     X_Field X_STATIC X_ONEOF X_MESSAGE (Oneof_Name ''body'' ''get_device_info'' ''body.get_device_info'') 3,
     X_Field X_STATIC X_ONEOF X_MESSAGE (Oneof_Name ''body'' ''get_radio_settings'' ''body.get_radio_settings'') 4,
     X_Field X_STATIC X_ONEOF X_MESSAGE (Oneof_Name ''body'' ''set_radio_settings'' ''body.set_radio_settings'') 5,
     X_Field X_STATIC X_ONEOF X_MESSAGE (Oneof_Name ''body'' ''send_packet'' ''body.send_packet'') 6,
     X_Field X_STATIC X_ONEOF X_MESSAGE (Oneof_Name ''body'' ''fetch_packets'' ''body.fetch_packets'') 7,
     X_Field X_STATIC X_ONEOF X_MESSAGE (Oneof_Name ''body'' ''purge_store'' ''body.purge_store'') 8,
     X_Field X_STATIC X_ONEOF X_MESSAGE (Oneof_Name ''body'' ''get_device_settings'' ''body.get_device_settings'') 9,
     X_Field X_STATIC X_ONEOF X_MESSAGE (Oneof_Name ''body'' ''set_device_settings'' ''body.set_device_settings'') 10,
     X_Field X_STATIC X_ONEOF X_MESSAGE (Oneof_Name ''body'' ''get_status'' ''body.get_status'') 11,
     X_Field X_STATIC X_ONEOF X_MESSAGE (Oneof_Name ''body'' ''auth'' ''body.auth'') 12,
     X_Field X_STATIC X_ONEOF X_MESSAGE (Oneof_Name ''body'' ''reboot'' ''body.reboot'') 13,
     X_Field X_STATIC X_ONEOF X_MESSAGE (Oneof_Name ''body'' ''factory_reset'' ''body.factory_reset'') 14,
     X_Field X_STATIC X_ONEOF X_MESSAGE (Oneof_Name ''body'' ''bootloader'' ''body.bootloader'') 15]"

definition RadioToClient_FIELDLIST :: "x_field list" where
  "RadioToClient_FIELDLIST = [
     X_Field X_STATIC X_SINGULAR X_UINT32 (Field_Name ''id'') 1,
     X_Field X_STATIC X_ONEOF X_MESSAGE (Oneof_Name ''body'' ''pong'' ''body.pong'') 2,
     X_Field X_STATIC X_ONEOF X_MESSAGE (Oneof_Name ''body'' ''device_info'' ''body.device_info'') 3,
     X_Field X_STATIC X_ONEOF X_MESSAGE (Oneof_Name ''body'' ''radio_settings'' ''body.radio_settings'') 4,
     X_Field X_STATIC X_ONEOF X_MESSAGE (Oneof_Name ''body'' ''packet_accepted'' ''body.packet_accepted'') 5,
     X_Field X_STATIC X_ONEOF X_MESSAGE (Oneof_Name ''body'' ''packet_entry'' ''body.packet_entry'') 6,
     X_Field X_STATIC X_ONEOF X_MESSAGE (Oneof_Name ''body'' ''fetch_end'' ''body.fetch_end'') 7,
     X_Field X_STATIC X_ONEOF X_MESSAGE (Oneof_Name ''body'' ''tx_result'' ''body.tx_result'') 8,
     X_Field X_STATIC X_ONEOF X_MESSAGE (Oneof_Name ''body'' ''device_settings'' ''body.device_settings'') 9,
     X_Field X_STATIC X_ONEOF X_MESSAGE (Oneof_Name ''body'' ''status'' ''body.status'') 10,
     X_Field X_STATIC X_ONEOF X_MESSAGE (Oneof_Name ''body'' ''ok'' ''body.ok'') 11,
     X_Field X_STATIC X_ONEOF X_MESSAGE (Oneof_Name ''body'' ''error'' ''body.error'') 12]"

definition Ok_FIELDLIST :: "x_field list" where
  "Ok_FIELDLIST = []"

definition Error_FIELDLIST :: "x_field list" where
  "Error_FIELDLIST = [
     X_Field X_STATIC X_SINGULAR X_UENUM (Field_Name ''code'') 1,
     X_Field X_STATIC X_SINGULAR X_STRING (Field_Name ''message'') 2]"

definition Ping_FIELDLIST :: "x_field list" where
  "Ping_FIELDLIST = [
     X_Field X_STATIC X_SINGULAR X_BYTES (Field_Name ''payload'') 1]"

definition Pong_FIELDLIST :: "x_field list" where
  "Pong_FIELDLIST = [
     X_Field X_STATIC X_SINGULAR X_BYTES (Field_Name ''payload'') 1]"

definition GetRadioSettings_FIELDLIST :: "x_field list" where
  "GetRadioSettings_FIELDLIST = []"

definition RadioSettings_FIELDLIST :: "x_field list" where
  "RadioSettings_FIELDLIST = [
     X_Field X_STATIC X_SINGULAR X_UINT32 (Field_Name ''freq_hz'') 1,
     X_Field X_STATIC X_SINGULAR X_UINT32 (Field_Name ''bandwidth_hz'') 2,
     X_Field X_STATIC X_SINGULAR X_UINT32 (Field_Name ''sf'') 3,
     X_Field X_STATIC X_SINGULAR X_UINT32 (Field_Name ''cr'') 4,
     X_Field X_STATIC X_SINGULAR X_UINT32 (Field_Name ''power_dbm'') 5,
     X_Field X_STATIC X_SINGULAR X_UINT32 (Field_Name ''config_epoch'') 6]"

definition SetRadioSettings_FIELDLIST :: "x_field list" where
  "SetRadioSettings_FIELDLIST = [
     X_Field X_STATIC X_OPTIONAL X_MESSAGE (Field_Name ''settings'') 1]"

definition SendPacket_FIELDLIST :: "x_field list" where
  "SendPacket_FIELDLIST = [
     X_Field X_STATIC X_SINGULAR X_BYTES (Field_Name ''raw'') 1]"

definition PacketAccepted_FIELDLIST :: "x_field list" where
  "PacketAccepted_FIELDLIST = [
     X_Field X_STATIC X_SINGULAR X_UINT32 (Field_Name ''seq'') 1]"

definition FetchPackets_FIELDLIST :: "x_field list" where
  "FetchPackets_FIELDLIST = [
     X_Field X_STATIC X_SINGULAR X_UINT32 (Field_Name ''since_seq'') 1,
     X_Field X_STATIC X_SINGULAR X_UINT32 (Field_Name ''max_count'') 2]"

definition PacketEntry_FIELDLIST :: "x_field list" where
  "PacketEntry_FIELDLIST = [
     X_Field X_STATIC X_SINGULAR X_UINT32 (Field_Name ''seq'') 1,
     X_Field X_STATIC X_SINGULAR X_BYTES (Field_Name ''raw'') 2,
     X_Field X_STATIC X_SINGULAR X_UINT64 (Field_Name ''uptime_ms'') 3,
     X_Field X_STATIC X_SINGULAR X_INT32 (Field_Name ''rssi'') 4,
     X_Field X_STATIC X_SINGULAR X_INT32 (Field_Name ''snr'') 5,
     X_Field X_STATIC X_SINGULAR X_UENUM (Field_Name ''origin'') 6]"

definition FetchEnd_FIELDLIST :: "x_field list" where
  "FetchEnd_FIELDLIST = [
     X_Field X_STATIC X_SINGULAR X_UINT32 (Field_Name ''count'') 1]"

definition TxResult_FIELDLIST :: "x_field list" where
  "TxResult_FIELDLIST = [
     X_Field X_STATIC X_SINGULAR X_UINT32 (Field_Name ''seq'') 1,
     X_Field X_STATIC X_SINGULAR X_BOOL (Field_Name ''success'') 2]"

definition PurgeStore_FIELDLIST :: "x_field list" where
  "PurgeStore_FIELDLIST = []"

section \<open>Bindings\<close>

definition device_pb :: "(bind_width \<times> x_field list) list" where
  "device_pb = [
     (Width_AUTO, GetDeviceInfo_FIELDLIST),
     (Width_AUTO, DeviceInfo_FIELDLIST),
     (Width_AUTO, StoreInfo_FIELDLIST),
     (Width_AUTO, GetDeviceSettings_FIELDLIST),
     (Width_AUTO, DeviceSettings_FIELDLIST),
     (Width_AUTO, SetDeviceSettings_FIELDLIST),
     (Width_AUTO, GetStatus_FIELDLIST),
     (Width_AUTO, Status_FIELDLIST),
     (Width_AUTO, Auth_FIELDLIST),
     (Width_AUTO, Reboot_FIELDLIST),
     (Width_AUTO, FactoryReset_FIELDLIST),
     (Width_AUTO, Bootloader_FIELDLIST)]"

definition envelope_pb :: "(bind_width \<times> x_field list) list" where
  "envelope_pb = [
     (Width_Given Width_2, ClientToRadio_FIELDLIST),
     (Width_Given Width_2, RadioToClient_FIELDLIST),
     (Width_AUTO, Ok_FIELDLIST),
     (Width_AUTO, Error_FIELDLIST),
     (Width_Given Width_2, Ping_FIELDLIST),
     (Width_Given Width_2, Pong_FIELDLIST)]"

definition radio_pb :: "(bind_width \<times> x_field list) list" where
  "radio_pb = [
     (Width_AUTO, GetRadioSettings_FIELDLIST),
     (Width_AUTO, RadioSettings_FIELDLIST),
     (Width_AUTO, SetRadioSettings_FIELDLIST),
     (Width_Given Width_2, SendPacket_FIELDLIST),
     (Width_AUTO, PacketAccepted_FIELDLIST),
     (Width_AUTO, FetchPackets_FIELDLIST),
     (Width_Given Width_2, PacketEntry_FIELDLIST),
     (Width_AUTO, FetchEnd_FIELDLIST),
     (Width_AUTO, TxResult_FIELDLIST),
     (Width_AUTO, PurgeStore_FIELDLIST)]"

lemmas FIELDLIST_defs =
  GetDeviceInfo_FIELDLIST_def DeviceInfo_FIELDLIST_def StoreInfo_FIELDLIST_def GetDeviceSettings_FIELDLIST_def DeviceSettings_FIELDLIST_def
  SetDeviceSettings_FIELDLIST_def GetStatus_FIELDLIST_def Status_FIELDLIST_def Auth_FIELDLIST_def Reboot_FIELDLIST_def
  FactoryReset_FIELDLIST_def Bootloader_FIELDLIST_def ClientToRadio_FIELDLIST_def RadioToClient_FIELDLIST_def Ok_FIELDLIST_def
  Error_FIELDLIST_def Ping_FIELDLIST_def Pong_FIELDLIST_def GetRadioSettings_FIELDLIST_def RadioSettings_FIELDLIST_def
  SetRadioSettings_FIELDLIST_def SendPacket_FIELDLIST_def PacketAccepted_FIELDLIST_def FetchPackets_FIELDLIST_def PacketEntry_FIELDLIST_def
  FetchEnd_FIELDLIST_def TxResult_FIELDLIST_def PurgeStore_FIELDLIST_def

definition message_bindings :: "(bind_width \<times> x_field list) list" where
  "message_bindings = device_pb @ envelope_pb @ radio_pb"

lemmas binding_defs = message_bindings_def device_pb_def envelope_pb_def radio_pb_def FIELDLIST_defs

text \<open>The tables of the codec have the tags of the field lists, in the same order.\<close>

lemma codec_tables_have_the_tags:
  "map f_tag no_fields = map x_tag Ok_FIELDLIST"
  "map f_tag DeviceInfo_fields = map x_tag DeviceInfo_FIELDLIST"
  "map f_tag StoreInfo_fields = map x_tag StoreInfo_FIELDLIST"
  "map f_tag DeviceSettings_fields = map x_tag DeviceSettings_FIELDLIST"
  "map f_tag SetDeviceSettings_fields = map x_tag SetDeviceSettings_FIELDLIST"
  "map f_tag Status_fields = map x_tag Status_FIELDLIST"
  "map f_tag Auth_fields = map x_tag Auth_FIELDLIST"
  "map f_tag ClientToRadio_fields = map x_tag ClientToRadio_FIELDLIST"
  "map f_tag RadioToClient_fields = map x_tag RadioToClient_FIELDLIST"
  "map f_tag Error_fields = map x_tag Error_FIELDLIST"
  "map f_tag Ping_fields = map x_tag Ping_FIELDLIST"
  "map f_tag Pong_fields = map x_tag Pong_FIELDLIST"
  "map f_tag RadioSettings_fields = map x_tag RadioSettings_FIELDLIST"
  "map f_tag SetRadioSettings_fields = map x_tag SetRadioSettings_FIELDLIST"
  "map f_tag SendPacket_fields = map x_tag SendPacket_FIELDLIST"
  "map f_tag PacketAccepted_fields = map x_tag PacketAccepted_FIELDLIST"
  "map f_tag FetchPackets_fields = map x_tag FetchPackets_FIELDLIST"
  "map f_tag PacketEntry_fields = map x_tag PacketEntry_FIELDLIST"
  "map f_tag FetchEnd_fields = map x_tag FetchEnd_FIELDLIST"
  "map f_tag TxResult_fields = map x_tag TxResult_FIELDLIST"
  by (simp_all add: FIELDLIST_defs no_fields_def DeviceInfo_fields_def StoreInfo_fields_def DeviceSettings_fields_def SetDeviceSettings_fields_def Status_fields_def Auth_fields_def ClientToRadio_fields_def RadioToClient_fields_def Error_fields_def Ping_fields_def Pong_fields_def RadioSettings_fields_def SetRadioSettings_fields_def SendPacket_fields_def PacketAccepted_fields_def FetchPackets_fields_def PacketEntry_fields_def FetchEnd_fields_def TxResult_fields_def f_one_def f_opt_def cr_member_def rc_member_def)

lemma find_map_eq: "find P (map f qs) = map_option f (find (\<lambda>q. P (f q)) qs)"
  by (induction qs) simp_all

lemma codec_finds_the_same:
  assumes "map f_tag gs = map x_tag xs"
  shows "pb_field_iter_find gs tag = map_option ((!) gs) (find (\<lambda>q. x_tag (xs ! q) = tag) [0..<length xs])"
proof -
  have len: "length gs = length xs" using assms by (rule map_eq_imp_length_eq)
  have tags: "f_tag (gs ! q) = x_tag (xs ! q)" if "q < length xs" for q
    using that assms len by (metis nth_map)
  have "find (\<lambda>f. f_tag f = tag) (map ((!) gs) [0..<length xs]) = map_option ((!) gs) (find (\<lambda>q. f_tag (gs ! q) = tag) [0..<length xs])"
    by (rule find_map_eq)
  moreover have "map ((!) gs) [0..<length xs] = gs" using len map_nth [of gs] by simp
  moreover have "find (\<lambda>q. f_tag (gs ! q) = tag) [0..<length xs] = find (\<lambda>q. x_tag (xs ! q) = tag) [0..<length xs]"
    using tags by (intro find_cong) auto
  ultimately show ?thesis by (simp add: pb_field_iter_find_def)
qed

section \<open>Searchable messages\<close>

lemma bindings_shape:
  "list_all (\<lambda>(width, xs). list_all (\<lambda>x. x_ltype x \<noteq> X_EXTENSION \<and> x_tag x < 2 ^ 16) xs \<and>
     sorted_wrt (\<lambda>x y. x_tag x < x_tag y) xs \<and> length xs < 2 ^ 12) message_bindings"
  unfolding binding_defs by simp

lemma bindings_searchable:
  assumes "(width, xs) \<in> set message_bindings" and "xs \<noteq> []" and "list_all (PB_GEN_FIELD_INFO_ASSERT width st) xs"
  shows "searchable width st xs"
proof -
  have "list_all (\<lambda>x. x_ltype x \<noteq> X_EXTENSION \<and> x_tag x < 2 ^ 16) xs \<and> sorted_wrt (\<lambda>x y. x_tag x < x_tag y) xs \<and> length xs < 2 ^ 12"
    using bindings_shape assms(1) by (simp add: list_all_iff split_beta) (metis fst_conv snd_conv)
  then show ?thesis using assms(2,3) by (auto simp: searchable_def list_all_iff)
qed

definition walk :: "(int \<Rightarrow> int option) \<Rightarrow> 'd msgdesc \<Rightarrow> int option \<Rightarrow> nat \<Rightarrow> 'd field_iter" where
  "walk mem desc message k = ((\<lambda>it. snd (field_iter_next mem it)) ^^ k) (snd (field_iter_begin mem desc message))"

lemma walk_at:
  assumes "field_table fs"
  shows "walk mem (table_desc fs) message k = iter_at mem fs message (k mod length fs)"
proof (induction k)
  case (Suc k)
  have "k mod length fs < length fs" using assms by (simp add: field_table_def)
  from field_iter_next_at [OF assms this] Suc show ?case by (simp add: walk_def mod_Suc_eq)
qed (simp add: walk_def field_iter_begin_at [OF assms])

lemma walk_message:
  assumes "searchable width st xs"
  shows "walk mem (PB_BIND width st msgtype xs) message k = iter_at mem (entries width st msgtype xs) message (k mod length xs)"
  using walk_at [OF entries_table [OF assms]] by (simp add: bind_table [OF assms]) (simp add: entries_def)

lemma tag_position_entries:
  assumes "searchable width st xs"
  shows "tag_position (entries width st msgtype xs) tag = find (\<lambda>q. x_tag (xs ! q) = unat tag) [0..<length xs]"
proof -
  have "fi_tag (field_facts st (xs ! q)) = tag \<longleftrightarrow> x_tag (xs ! q) = unat tag" if "q < length xs" for q
    using searchableD(6) [OF assms nth_mem [OF that]] by (simp add: fi_tag_facts word_unat_eq_iff unat_u32)
  then show ?thesis unfolding tag_position_def by (intro find_cong) (simp_all add: entries_def)
qed

section \<open>Properties\<close>

text \<open>
  Walking over a bound message, the iterator stands on its fields one after the other and starts over
  after the last one, the only step at which \<open>pb_field_iter_next\<close> returns false; on every field it has
  what the macros packed: tag, type, sizes, the address of the member and the descriptor of the submessage.
\<close>

theorem iterator_walks_the_message:
  assumes "searchable width st xs" and "i = k mod length xs" and "xs ! i = x" and "it = walk mem (PB_BIND width st msgtype xs) message k"
  shows "it_index it = i \<and> unat (it_tag it) = x_tag x \<and> it_type it = fi_type (field_facts st x) \<and>
    it_data_size it = ucast (fi_data_size (field_facts st x)) \<and>
    it_array_size it = (if bind_info_width width x = Width_1 then 1 else ucast (fi_array_size (field_facts st x))) \<and>
    it_pField it = map_option (\<lambda>a. a + uint (PB_DATA_OFFSET st (x_name x))) message \<and>
    it_submsg_desc it = (if x_ltype x = X_MESSAGE \<or> x_ltype x = X_MSG_W_CB then Some (msgtype (msgtype_name (x_name x))) else None) \<and>
    fst (field_iter_next mem it) = (i + 1 \<noteq> length xs)"
proof -
  have i: "i < length xs" using searchableD(1) [OF assms(1)] assms(2) by simp
  let ?fs = "entries width st msgtype xs"
  have e: "?fs ! i = (bind_info_width width x, field_facts st x, msgtype (msgtype_name (x_name x)))" "length ?fs = length xs"
    using i assms(3) by (simp_all add: entries_def)
  have it: "it = iter_at mem ?fs message i" unfolding assms(2,4) by (rule walk_message [OF assms(1)])
  have "unat (it_tag it) = x_tag x"
  proof -
    have "x_tag x < 2 ^ 16" using searchableD(6) [OF assms(1)] nth_mem [OF i] assms(3) by simp
    then show ?thesis by (simp add: it e fi_tag_facts unsigned_ucast_eq unsigned_of_nat take_bit_nat_eq_self)
  qed
  moreover have "fi_data_offset (field_facts st x) = PB_DATA_OFFSET st (x_name x)" by (cases x) simp
  ultimately show ?thesis
    using field_iter_next_at [OF entries_table [OF assms(1)], where i = i and mem = mem and msgtype1 = msgtype and message = message] i
    by (auto simp: it iter_at_def e Let_def generated_submsg)
qed

text \<open>
  C39. Wherever an iterator over one of the firmware's messages stands, \<open>pb_field_iter_find\<close> returns; it
  stands then on the field with the tag, as if it had walked there, or where it stood if there is none.
  That is the field which the table of the codec has for the tag.  No extension is ever found.
\<close>

theorem messages_are_searched_by_tag:
  assumes "(width, xs) \<in> set message_bindings" and "xs \<noteq> []" and "list_all (PB_GEN_FIELD_INFO_ASSERT width st) xs"
    and "desc = PB_BIND width st msgtype xs" and "map f_tag gs = map x_tag xs"
  shows "field_iter_find mem tag (walk mem desc message k) =
      Some (case find (\<lambda>q. x_tag (xs ! q) = unat tag) [0..<length xs] of
          Some q \<Rightarrow> (True, walk mem desc message q) | None \<Rightarrow> (False, walk mem desc message k)) \<and>
    pb_field_iter_find gs (unat tag) = map_option ((!) gs) (find (\<lambda>q. x_tag (xs ! q) = unat tag) [0..<length xs]) \<and>
    field_iter_find_extension mem (walk mem desc message k) = Some (False, walk mem desc message k)"
proof -
  have s: "searchable width st xs" using assms(1-3) by (rule bindings_searchable)
  let ?fs = "entries width st msgtype xs"
  have len: "length ?fs = length xs" by (simp add: entries_def)
  have inside: "k mod length xs < length ?fs" using assms(2) by (simp add: entries_def)
  note found = field_iter_find_at [OF entries_table [OF s] inside, of mem tag message]
  have "walk mem desc message q = iter_at mem ?fs message q"
    if "find (\<lambda>q. x_tag (xs ! q) = unat tag) [0..<length xs] = Some q" for q
    using that by (auto simp: assms(4) walk_message [OF s] find_Some_iff)
  then show ?thesis
    using found find_extension_at [OF entries_table [OF s] inside, of mem message] codec_finds_the_same [OF assms(5)]
    by (auto simp: assms(4) walk_message [OF s] tag_position_entries [OF s] split: option.split)
qed

text \<open>A layout of \<open>meshpigeon_TxResult\<close>: a word and a byte behind it.\<close>

definition tx_result_layout :: struct_layout where
  "tx_result_layout = \<lparr>lo_offsetof = (\<lambda>m. if m = ''success'' then 4 else 0), lo_membersize = (\<lambda>m. if m = ''seq'' then 4 else 1)\<rparr>"

lemma tx_result_compiles: "list_all (PB_GEN_FIELD_INFO_ASSERT Width_AUTO tx_result_layout) TxResult_FIELDLIST"
  by (simp add: TxResult_FIELDLIST_def PB_GEN_FIELD_INFO_ASSERT_def PB_FITS_def tx_result_layout_def PB_DATA_OFFSET_def)

lemma tx_result_bound: "(Width_AUTO, TxResult_FIELDLIST) \<in> set message_bindings"
  by (simp add: message_bindings_def radio_pb_def)

lemma tx_result_searchable: "searchable Width_AUTO tx_result_layout TxResult_FIELDLIST"
  by (rule bindings_searchable [OF tx_result_bound _ tx_result_compiles]) (simp add: TxResult_FIELDLIST_def)

theorem iterator_walks_the_message_witness:
  "(let it = walk (\<lambda>a. None) (PB_BIND Width_AUTO tx_result_layout (\<lambda>m. ()) TxResult_FIELDLIST) (Some 1000) 3 in
     it_index it = 1 \<and> unat (it_tag it) = 2 \<and> it_data_size it = 1 \<and> it_pField it = Some 1004 \<and>
     it_submsg_desc it = None \<and> fst (field_iter_next (\<lambda>a. None) it) = False)"
proof -
  have len: "length TxResult_FIELDLIST = 2"
    and x: "TxResult_FIELDLIST ! 1 = X_Field X_STATIC X_SINGULAR X_BOOL (Field_Name ''success'') 2"
    by (simp_all add: TxResult_FIELDLIST_def)
  have "1 = 3 mod length TxResult_FIELDLIST" unfolding len by simp
  with len x show ?thesis
    using iterator_walks_the_message [OF tx_result_searchable _ _ refl, where i = 1 and k = 3 and mem = "\<lambda>a. None" and
        msgtype = "\<lambda>m. ()" and message = "Some 1000"]
    by (simp add: Let_def) (simp add: PB_DATA_OFFSET_def tx_result_layout_def)
qed

theorem messages_are_searched_by_tag_witness:
  "(let desc = PB_BIND Width_AUTO tx_result_layout (\<lambda>m. ()) TxResult_FIELDLIST in
     field_iter_find (\<lambda>a. None) 2 (walk (\<lambda>a. None) desc None 4) = Some (True, walk (\<lambda>a. None) desc None 1) \<and>
     field_iter_find (\<lambda>a. None) 9 (walk (\<lambda>a. None) desc None 4) = Some (False, walk (\<lambda>a. None) desc None 4) \<and>
     pb_field_iter_find TxResult_fields 2 = Some (TxResult_fields ! 1) \<and>
     field_iter_find_extension (\<lambda>a. None) (walk (\<lambda>a. None) desc None 4) = Some (False, walk (\<lambda>a. None) desc None 4))"
proof -
  have tags: "map f_tag TxResult_fields = map x_tag TxResult_FIELDLIST" by (rule codec_tables_have_the_tags)
  have ne: "TxResult_FIELDLIST \<noteq> []" by (simp add: TxResult_FIELDLIST_def)
  note found = messages_are_searched_by_tag [OF tx_result_bound ne tx_result_compiles refl tags, where mem = "\<lambda>a. None" and msgtype = "\<lambda>m. ()" and message = None and k = 4]
  have q: "find (\<lambda>q. x_tag (TxResult_FIELDLIST ! q) = 2) [0..<length TxResult_FIELDLIST] = Some 1"
    "find (\<lambda>q. x_tag (TxResult_FIELDLIST ! q) = 9) [0..<length TxResult_FIELDLIST] = None"
    by (simp_all add: TxResult_FIELDLIST_def upt_rec)
  show ?thesis using found [where tag = 2] found [where tag = 9] by (simp add: Let_def q)
qed

end
