(* ===== verification/Framing.thy ===== *)
theory Framing
  imports Protocol
begin

text \<open>
  The wire framing of \<open>lib/meshpigeon-core\<close> (\<open>framing.h\<close>, \<open>framing.cpp\<close>, \<open>frame_drain.h\<close>):
  CRC-16/CCITT-FALSE, the streaming COBS encoder, the bounded COBS decoder, the frame builders,
  the byte-at-a-time \<open>FrameReader\<close> and the budgeted drain loop every transport uses.

  An output buffer is the list of bytes written to it so far, so the \<open>size_t\<close> a C++ function
  returns is the length of the list the model returns.
\<close>

definition FRAME_MAX_DECODED :: nat where
  "FRAME_MAX_DECODED = MESHPIGEON_MAX_FRAME_PAYLOAD + 2"

definition FRAME_MAX_WIRE :: nat where
  "FRAME_MAX_WIRE = FRAME_MAX_DECODED + (FRAME_MAX_DECODED + 253) div 254 + 1"

definition FRAME_MAX_DRAIN_BYTES_PER_PUMP :: nat where
  "FRAME_MAX_DRAIN_BYTES_PER_PUMP = 16 * FRAME_MAX_WIRE"

lemmas frame_limits = MESHPIGEON_MAX_FRAME_PAYLOAD_def FRAME_MAX_DECODED_def FRAME_MAX_WIRE_def
  FRAME_MAX_DRAIN_BYTES_PER_PUMP_def

section \<open>CRC-16/CCITT-FALSE\<close>

text \<open>
  \<open>crc_shift\<close> is the body of the inner loop of \<open>crc16_ccitt\<close>, \<open>crc_byte\<close> the body of the outer
  one: the byte is xored into the high half and eight shifts follow.
\<close>

definition crc_shift :: "u16 \<Rightarrow> u16" where
  "crc_shift crc =
     (if crc AND 0x8000 \<noteq> 0 then push_bit 1 crc XOR 0x1021 else push_bit 1 crc)"

definition crc_byte :: "u16 \<Rightarrow> byte \<Rightarrow> u16" where
  "crc_byte crc b = (crc_shift ^^ 8) (crc XOR push_bit 8 (ucast b))"

definition crc16_ccitt :: "byte list \<Rightarrow> u16 \<Rightarrow> u16" where
  "crc16_ccitt data init = foldl crc_byte init data"

definition frame_crc16 :: "byte list \<Rightarrow> u16" where
  "frame_crc16 envelope = crc16_ccitt envelope 0xFFFF"

definition frame_crc :: "byte list \<Rightarrow> u16" where
  "frame_crc frame =
     (if length frame < 2 then 0 else frame_crc16 (take (length frame - 2) frame))"

lemma bit_0x8000: "bit (0x8000 :: u16) n \<longleftrightarrow> n = 15"
proof -
  have eq: "(0x8000 :: u16) = push_bit 15 1" by simp
  show ?thesis
    unfolding eq by (auto simp only: bit_push_bit_iff bit_1_iff possible_bit_word) auto
qed

lemma msb_of_u16: "x AND 0x8000 \<noteq> 0 \<longleftrightarrow> bit (x :: u16) 15"
proof -
  have "x AND 0x8000 = (if bit x 15 then 0x8000 else 0)"
    by (rule bit_word_eqI) (auto simp only: bit_and_iff bit_0x8000 bit_0_eq bot_apply bot_bool_def split: if_split)
  then show ?thesis by simp
qed

lemma crc_shift_alt:
  "crc_shift x = push_bit 1 x XOR (if bit x 15 then 0x1021 else 0)"
  by (simp add: crc_shift_def msb_of_u16)

lemma crc_shift_xor: "crc_shift (x XOR y) = crc_shift x XOR crc_shift y"
  unfolding crc_shift_alt bit_xor_iff push_bit_xor
  by (cases "bit x 15"; cases "bit y 15")
     (simp_all add: xor.assoc xor.commute xor.left_commute)

lemma crc_shift_0 [simp]: "crc_shift 0 = 0"
  by (simp add: crc_shift_alt)

lemma crc_shift_eq_0: "crc_shift x = 0 \<longleftrightarrow> x = 0"
proof
  assume 0: "crc_shift x = 0"
  have bits: "bit (push_bit 1 x) n = bit ((if bit x 15 then 0x1021 else 0) :: u16) n" for n
    using 0 unfolding crc_shift_alt by (metis bit_xor_iff bit_0_eq bot_apply bot_bool_def)
  have msb: "\<not> bit x 15"
  proof
    assume top: "bit x 15"
    have "bit (push_bit 1 x) 0 = bit (0x1021 :: u16) 0"
      using bits [of 0] unfolding if_P [OF top] .
    moreover have "\<not> bit (push_bit 1 x) 0" by (simp only: bit_push_bit_iff) simp
    moreover have "bit (0x1021 :: u16) 0" by simp
    ultimately show False by blast
  qed
  show "x = 0"
  proof (rule bit_word_eqI)
    fix n assume n: "n < LENGTH(16)"
    have "bit (push_bit 1 x) (Suc n) = bit (0 :: u16) (Suc n)"
      using bits [of "Suc n"] unfolding if_not_P [OF msb] .
    then show "bit x n = bit 0 n"
      unfolding bit_push_bit_iff using msb n by (cases "n = 15") auto
  qed
qed simp

lemma crc_shifts_xor: "(crc_shift ^^ n) (x XOR y) = (crc_shift ^^ n) x XOR (crc_shift ^^ n) y"
  by (induction n) (simp_all add: crc_shift_xor)

lemma crc_shifts_eq_0: "(crc_shift ^^ n) x = 0 \<longleftrightarrow> x = 0"
  by (induction n) (simp_all add: crc_shift_eq_0)

lemma crc_byte_xor: "crc_byte (x XOR y) (a XOR b) = crc_byte x a XOR crc_byte y b"
proof -
  have u: "(ucast (a XOR b) :: u16) = ucast a XOR ucast b"
    by (rule bit_word_eqI) (auto simp: bit_simps)
  have "(x XOR y) XOR push_bit 8 (ucast (a XOR b)) =
        (x XOR push_bit 8 (ucast a)) XOR (y XOR push_bit 8 (ucast b))"
    unfolding u push_bit_xor by (simp only: xor.assoc xor.left_commute)
  then show ?thesis by (simp only: crc_byte_def crc_shifts_xor)
qed


text \<open>
  The register map is linear, and one byte step is injective in the register, so a difference
  once introduced never disappears.  Two adjacent bytes are sixteen shifts of the word they
  spell, which is how a burst of two bytes is caught as well.
\<close>

lemma crc_byte_inj: "crc_byte x b = crc_byte y b \<longleftrightarrow> x = y"
proof
  assume "crc_byte x b = crc_byte y b"
  then have "crc_byte x b XOR crc_byte y b = 0" by simp
  then have "crc_byte (x XOR y) 0 = 0"
    unfolding crc_byte_xor [symmetric] by simp
  then have "x XOR y = 0"
    by (simp add: crc_byte_def crc_shifts_eq_0)
  then show "x = y" by (simp only: word_xor_eq_0_iff)
qed simp

lemma crc_byte_byte: "crc_byte x a = crc_byte x b \<longleftrightarrow> a = b"
proof
  assume "crc_byte x a = crc_byte x b"
  then have "crc_byte 0 (a XOR b) = 0"
    by (metis crc_byte_xor xor_self_eq)
  then have "push_bit 8 (ucast (a XOR b)) = (0 :: u16)"
    by (simp only: crc_byte_def crc_shifts_eq_0 xor.left_neutral)
  then have z: "bit (push_bit 8 (ucast (a XOR b)) :: u16) (n + 8) = bit (0 :: u16) (n + 8)" for n
    by (rule arg_cong)
  have "a XOR b = 0"
  proof (rule bit_word_eqI)
    fix n assume "n < LENGTH(8)"
    then show "bit (a XOR b) n = bit 0 n"
      using z [of n] unfolding bit_push_bit_iff by (auto simp: bit_simps)
  qed
  then show "a = b" by (simp only: word_xor_eq_0_iff)
qed simp

lemma crc_shifts_low: "n \<le> 8 \<Longrightarrow> (crc_shift ^^ n) (ucast (b :: byte)) = push_bit n (ucast b)"
proof (induction n)
  case (Suc n)
  have "\<not> bit (push_bit n (ucast b) :: u16) 15"
    using Suc.prems unfolding bit_push_bit_iff by (auto simp: bit_simps dest: bit_imp_le_length)
  with Suc show ?case
    by (simp only: funpow.simps o_apply crc_shift_alt if_False push_bit_push_bit
        xor.right_neutral Suc_leD) simp
qed simp

lemma crc_two_bytes:
  "crc_byte (crc_byte 0 a) b = (crc_shift ^^ 16) (push_bit 8 (ucast a) XOR ucast b)"
proof -
  have "(crc_shift ^^ 16) (push_bit 8 (ucast a) XOR ucast b)
      = (crc_shift ^^ 8) ((crc_shift ^^ 8) (push_bit 8 (ucast a) XOR ucast b))"
    by (simp only: funpow_add [THEN fun_cong, unfolded o_apply, symmetric]) simp
  then show ?thesis
    by (simp only: crc_byte_def crc_shifts_xor crc_shifts_low order_refl xor.left_neutral)
qed

lemma crc_inj_init: "crc16_ccitt data x = crc16_ccitt data y \<longleftrightarrow> x = y"
  by (induction data arbitrary: x y) (simp_all add: crc16_ccitt_def crc_byte_inj)

lemma crc_append: "crc16_ccitt (xs @ ys) x = crc16_ccitt ys (crc16_ccitt xs x)"
  by (simp add: crc16_ccitt_def)


lemma crc_burst_2:
  "crc16_ccitt [a, b] x = crc16_ccitt [c, d] x \<longleftrightarrow> a = c \<and> b = d"
proof
  assume "crc16_ccitt [a, b] x = crc16_ccitt [c, d] x"
  then have "crc_byte (crc_byte 0 (a XOR c)) (b XOR d) = 0"
    by (simp add: crc16_ccitt_def) (metis crc_byte_xor xor_self_eq)
  then have "push_bit 8 (ucast (a XOR c)) = (ucast (b XOR d) :: u16)"
    by (simp only: crc_two_bytes crc_shifts_eq_0 word_xor_eq_0_iff)
  then have e: "bit (push_bit 8 (ucast (a XOR c)) :: u16) n = bit (ucast (b XOR d) :: u16) n" for n
    by (rule arg_cong)
  have "b XOR d = 0"
  proof (rule bit_word_eqI)
    fix n assume "n < LENGTH(8)"
    then show "bit (b XOR d) n = bit 0 n"
      using e [of n] unfolding bit_push_bit_iff by (auto simp: bit_simps)
  qed
  then have bd: "b = d" by (simp only: word_xor_eq_0_iff)
  with \<open>crc16_ccitt [a, b] x = crc16_ccitt [c, d] x\<close> show "a = c \<and> b = d"
    by (simp add: crc16_ccitt_def crc_byte_inj crc_byte_byte)
qed simp

lemma crc_burst_1: "crc16_ccitt [a] x = crc16_ccitt [c] x \<longleftrightarrow> a = c"
  by (simp add: crc16_ccitt_def crc_byte_byte)

lemma crc_detects_burst:
  assumes "length mid = length mid'" "length mid \<le> 2" "mid \<noteq> mid'"
  shows "crc16_ccitt (pre @ mid @ post) x \<noteq> crc16_ccitt (pre @ mid' @ post) x"
proof -
  have "crc16_ccitt mid y \<noteq> crc16_ccitt mid' y" for y
  proof (cases mid)
    case Nil
    with assms show ?thesis by simp
  next
    case (Cons a as)
    with assms obtain c cs where "mid' = c # cs" "length as = length cs" "length as \<le> 1"
      by (cases mid') auto
    with Cons assms(3) show ?thesis
      by (cases as; cases cs) (auto simp: crc_burst_1 crc_burst_2)
  qed
  then show ?thesis by (simp add: crc_append crc_inj_init)
qed


section \<open>COBS\<close>

text \<open>
  \<open>CobsEncoder\<close>: \<open>ce_out\<close> holds the bytes from \<open>dst\<close> up to \<open>out_\<close>, \<open>ce_code_ptr\<close> the offset of
  the code byte of the open block (its content is whatever \<open>dst\<close> held, here 0, until
  \<open>close_block\<close> or \<open>finish\<close> writes it), \<open>ce_code\<close> the code counted so far.
\<close>

record cobs_encoder =
  ce_out :: "byte list"
  ce_code_ptr :: nat
  ce_code :: byte

definition cobs_init :: cobs_encoder where
  "cobs_init = \<lparr>ce_out = [0], ce_code_ptr = 0, ce_code = 1\<rparr>"

definition close_block :: "cobs_encoder \<Rightarrow> cobs_encoder" where
  "close_block e =
     (let buf = (ce_out e)[ce_code_ptr e := ce_code e]
      in e\<lparr>ce_out := buf @ [0], ce_code_ptr := length buf, ce_code := 1\<rparr>)"

definition cobs_put :: "byte \<Rightarrow> cobs_encoder \<Rightarrow> cobs_encoder" where
  "cobs_put v e =
     (if v = 0 then close_block e
      else let e1 = e\<lparr>ce_out := ce_out e @ [v], ce_code := ce_code e + 1\<rparr>
           in if ce_code e1 = 0xFF then close_block e1 else e1)"

definition cobs_finish :: "cobs_encoder \<Rightarrow> byte list" where
  "cobs_finish e = (ce_out e)[ce_code_ptr e := ce_code e]"

definition cobs_encode :: "byte list \<Rightarrow> byte list" where
  "cobs_encode src = cobs_finish (fold cobs_put src cobs_init)"

text \<open>
  \<open>cobs_decode\<close>: the loop over the blocks, \<open>written\<close> being the bytes stored in \<open>dst\<close> so far.
  \<open>None\<close> is each of the early \<open>return 0\<close>s; \<open>cobs_decode\<close> returns the bytes, so the length 0 the
  C++ returns for malformed input is the empty list.
\<close>

fun cobs_decode_loop :: "nat \<Rightarrow> byte list \<Rightarrow> byte list \<Rightarrow> byte list option" where
  "cobs_decode_loop dst_cap [] written = Some written"
| "cobs_decode_loop dst_cap (code # src) written =
     (if code = 0 then None
      else let block = unat code - 1 in
        if length src < block then None
        else if length written + block > dst_cap then None
        else let written' = written @ take block src; src' = drop block src in
          if code < 0xFF \<and> src' \<noteq> []
          then (if length written' \<ge> dst_cap then None
                else cobs_decode_loop dst_cap src' (written' @ [0]))
          else cobs_decode_loop dst_cap src' written')"

definition cobs_decode :: "byte list \<Rightarrow> nat \<Rightarrow> byte list" where
  "cobs_decode src dst_cap =
     (if src = [] then []
      else case cobs_decode_loop dst_cap src [] of None \<Rightarrow> [] | Some w \<Rightarrow> w)"

text \<open>
  A finished block \<open>pre\<close> of encoder output that stands for the data \<open>d\<close>: decoding it in front
  of anything non-empty appends \<open>d\<close>, it holds no zero, and it is at most one byte longer per
  254 bytes of data.
\<close>

definition cobs_closed :: "byte list \<Rightarrow> byte list \<Rightarrow> bool" where
  "cobs_closed pre d \<longleftrightarrow> 0 \<notin> set pre \<and> length pre \<le> length d + length d div 254 \<and>
     (\<forall>cap rest w. rest \<noteq> [] \<longrightarrow> length w + length d \<le> cap \<longrightarrow>
        cobs_decode_loop cap (pre @ rest) w = cobs_decode_loop cap rest (w @ d))"

definition cobs_inv :: "byte list \<Rightarrow> cobs_encoder \<Rightarrow> bool" where
  "cobs_inv xs e \<longleftrightarrow>
     (\<exists>pre d p run. xs = d @ run \<and> cobs_closed pre d \<and> ce_out e = pre @ p # run \<and>
        ce_code_ptr e = length pre \<and> ce_code e = of_nat (Suc (length run)) \<and>
        length run < 254 \<and> 0 \<notin> set run)"


lemma cobs_inv_init: "cobs_inv [] cobs_init"
  unfolding cobs_inv_def cobs_closed_def cobs_init_def by (intro exI [of _ "[]"] exI [of _ 0]) simp

text \<open>Closing a full block appends its data, and its code is not zero.\<close>

lemma cobs_closed_block:
  assumes c: "cobs_closed pre d" and run: "0 \<notin> set run" "length run \<le> 254"
    and z: "z = (if length run = 254 then [] else [0])"
  shows "cobs_closed (pre @ of_nat (Suc (length run)) # run) (d @ run @ z)"
proof -
  let ?code = "of_nat (Suc (length run)) :: byte"
  have u: "unat ?code = Suc (length run)"
    using run(2) by (intro unat_of_nat_byte) simp
  have nz: "?code \<noteq> 0" and ff: "?code < 0xFF \<longleftrightarrow> length run \<noteq> 254"
    using u run(2) by (auto simp: word_less_nat_alt unat_eq_zero)
  have div: "length pre + Suc (length run) \<le> (length d + length run + length z)
      + (length d + length run + length z) div 254"
    using c run(2) z unfolding cobs_closed_def by (auto simp: div_le_mono)
  have dec: "cobs_decode_loop cap (pre @ ?code # run @ rest) w = cobs_decode_loop cap rest (w @ d @ run @ z)"
    if "rest \<noteq> []" "length w + (length d + length run + length z) \<le> cap" for cap rest w
  proof -
    have "cobs_decode_loop cap (pre @ ?code # run @ rest) w
        = cobs_decode_loop cap (?code # run @ rest) (w @ d)"
      using c that unfolding cobs_closed_def by simp
    also have "\<dots> = cobs_decode_loop cap rest (w @ d @ run @ z)"
    proof (cases "length run = 254")
      case True
      with that u nz ff z show ?thesis by (simp add: Let_def)
    next
      case False
      with that u nz ff z show ?thesis by (simp add: Let_def)
    qed
    finally show ?thesis .
  qed
  show ?thesis
    using c run(1) nz div dec unfolding cobs_closed_def by auto
qed

lemma cobs_inv_put:
  assumes "cobs_inv xs e"
  shows "cobs_inv (xs @ [v]) (cobs_put v e)"
proof -
  obtain pre d p run where e: "xs = d @ run" "cobs_closed pre d" "ce_out e = pre @ p # run"
      "ce_code_ptr e = length pre" "ce_code e = of_nat (Suc (length run))"
      "length run < 254" "0 \<notin> set run"
    using assms unfolding cobs_inv_def by blast
  show ?thesis
  proof (cases "v = 0")
    case True
    have "cobs_closed (pre @ of_nat (Suc (length run)) # run) (d @ run @ [0])"
      using e by (intro cobs_closed_block) auto
    then show ?thesis
      using True e unfolding cobs_inv_def
      by (intro exI [of _ "pre @ of_nat (Suc (length run)) # run"] exI [of _ "d @ run @ [0]"]
          exI [of _ 0] exI [of _ "[]"]) (simp add: cobs_put_def close_block_def Let_def)
  next
    case False
    have code: "ce_code e + 1 = (of_nat (Suc (length (run @ [v]))) :: byte)"
      using e by simp
    have full: "(of_nat (Suc (length (run @ [v]))) :: byte) = 0xFF \<longleftrightarrow> length (run @ [v]) = 254"
    proof -
      have "unat (of_nat (Suc (length (run @ [v]))) :: byte) = Suc (length (run @ [v]))"
        using e by (intro unat_of_nat_byte) simp
      then show ?thesis unfolding word_unat_eq_iff by simp
    qed
    show ?thesis
    proof (cases "length (run @ [v]) = 254")
      case T: True
      have "cobs_closed (pre @ of_nat (Suc (length (run @ [v]))) # run @ [v]) (d @ (run @ [v]) @ [])"
        using e False T by (intro cobs_closed_block) auto
      then show ?thesis
        using False T e code full unfolding cobs_inv_def
        by (intro exI [of _ "pre @ 0xFF # run @ [v]"] exI [of _ "d @ run @ [v]"]
            exI [of _ 0] exI [of _ "[]"]) (simp add: cobs_put_def close_block_def Let_def)
    next
      case F: False
      then show ?thesis
        using False e code full unfolding cobs_inv_def
        by (intro exI [of _ pre] exI [of _ d] exI [of _ p] exI [of _ "run @ [v]"])
           (simp add: cobs_put_def Let_def)
    qed
  qed
qed

lemma cobs_inv_puts: "cobs_inv xs e \<Longrightarrow> cobs_inv (xs @ ys) (fold cobs_put ys e)"
proof (induction ys arbitrary: xs e)
  case (Cons y ys)
  from Cons.IH [OF cobs_inv_put [OF Cons.prems]] show ?case by simp
qed simp


lemma cobs_inv_encode: "cobs_inv src (fold cobs_put src cobs_init)"
  using cobs_inv_puts [OF cobs_inv_init, of src] by simp

text \<open>What \<open>finish\<close> leaves behind decodes to the data, whatever was there before it.\<close>

lemma cobs_finish_properties:
  assumes "cobs_inv xs e"
  shows "0 \<notin> set (cobs_finish e)"
    and "length (cobs_finish e) \<le> length xs + length xs div 254 + 1"
    and "cobs_finish e \<noteq> []"
    and "length xs \<le> cap \<Longrightarrow> cobs_decode_loop cap (cobs_finish e) [] = Some xs"
proof -
  obtain pre d p run where e: "xs = d @ run" "cobs_closed pre d" "ce_out e = pre @ p # run"
      "ce_code_ptr e = length pre" "ce_code e = of_nat (Suc (length run))"
      "length run < 254" "0 \<notin> set run"
    using assms unfolding cobs_inv_def by blast
  let ?code = "of_nat (Suc (length run)) :: byte"
  have fin: "cobs_finish e = pre @ ?code # run"
    using e by (simp add: cobs_finish_def)
  have u: "unat ?code = Suc (length run)"
    using e by (intro unat_of_nat_byte) simp
  then have nz: "?code \<noteq> 0" by (auto simp: unat_eq_zero)
  show "0 \<notin> set (cobs_finish e)" "cobs_finish e \<noteq> []"
    using e nz unfolding fin cobs_closed_def by auto
  have "length d div 254 \<le> length xs div 254"
    using e(1) by (intro div_le_mono) simp
  then show "length (cobs_finish e) \<le> length xs + length xs div 254 + 1"
    using e unfolding fin cobs_closed_def by auto
  show "cobs_decode_loop cap (cobs_finish e) [] = Some xs" if "length xs \<le> cap"
  proof -
    have "cobs_decode_loop cap (cobs_finish e) [] = cobs_decode_loop cap (?code # run) d"
      using e that unfolding fin cobs_closed_def by simp
    then show ?thesis
      using e that u nz by (simp add: Let_def)
  qed
qed

lemma cobs_decode_encode: "length src \<le> cap \<Longrightarrow> cobs_decode (cobs_encode src) cap = src"
  using cobs_finish_properties(3) [OF cobs_inv_encode, of src]
    cobs_finish_properties(4) [OF cobs_inv_encode, of src cap]
  by (simp add: cobs_decode_def cobs_encode_def)

lemma cobs_encode_no_zero: "0 \<notin> set (cobs_encode src)"
  unfolding cobs_encode_def by (rule cobs_finish_properties [OF cobs_inv_encode])

lemma cobs_encode_nonempty: "cobs_encode src \<noteq> []"
  unfolding cobs_encode_def by (rule cobs_finish_properties [OF cobs_inv_encode])

lemma cobs_encode_length: "length (cobs_encode src) \<le> length src + length src div 254 + 1"
  unfolding cobs_encode_def by (rule cobs_finish_properties [OF cobs_inv_encode])

lemma cobs_decode_loop_bound:
  "cobs_decode_loop cap src w = Some v \<Longrightarrow> length w \<le> cap \<Longrightarrow> length v \<le> cap"
  by (induction cap src w rule: cobs_decode_loop.induct) (auto simp: Let_def split: if_splits)

lemma cobs_decode_bound: "length (cobs_decode src cap) \<le> cap"
  by (auto simp: cobs_decode_def split: option.splits dest: cobs_decode_loop_bound)

section \<open>Frames\<close>

text \<open>
  \<open>frame_build\<close> appends the CRC little-endian, \<open>frame_encode_wire\<close> encodes a decoded frame and
  appends the delimiter, \<open>frame_encode_envelope\<close> streams envelope and CRC through one encoder,
  refusing (return 0, here the empty list) what no frame can hold.
\<close>

definition frame_build :: "byte list \<Rightarrow> byte list" where
  "frame_build envelope =
     (let crc = frame_crc16 envelope
      in envelope @ [ucast (crc AND 0xFF), ucast (drop_bit 8 crc)])"

definition frame_encode_wire :: "byte list \<Rightarrow> byte list" where
  "frame_encode_wire decoded = cobs_encode decoded @ [0]"

definition frame_encode_envelope :: "byte list \<Rightarrow> byte list" where
  "frame_encode_envelope envelope =
     (if length envelope + 2 > FRAME_MAX_DECODED then []
      else let crc = frame_crc16 envelope;
               enc = fold cobs_put envelope cobs_init;
               enc = cobs_put (ucast (crc AND 0xFF)) enc;
               enc = cobs_put (ucast (drop_bit 8 crc)) enc
           in cobs_finish enc @ [0])"

text \<open>
  \<open>FrameReader\<close>: \<open>fr_wire\<close> is \<open>wire_[0 .. wire_len_)\<close>.  The three things \<open>feed\<close> can return are
  0 (\<open>Pending\<close>), \<open>(size_t)-1\<close> (\<open>Bad_Frame\<close>) and the length of the envelope left in
  \<open>frame_out\<close> (\<open>Frame\<close>); a frame with an empty envelope has length 0 and so is \<open>Pending\<close>.
\<close>

record frame_reader =
  fr_wire :: "byte list"
  fr_overflow :: bool

datatype feed_result = Pending | Bad_Frame | Frame "byte list"

definition frame_reader_reset :: frame_reader where
  "frame_reader_reset = \<lparr>fr_wire = [], fr_overflow = False\<rparr>"

definition frame_crc_matches :: "byte list \<Rightarrow> bool" where
  "frame_crc_matches frame =
     (let n = length frame in frame_crc frame = get_u16 (frame ! (n - 2)) (frame ! (n - 1)))"

definition frame_reader_feed :: "byte \<Rightarrow> frame_reader \<Rightarrow> frame_reader \<times> feed_result" where
  "frame_reader_feed byte r =
     (if byte = 0
      then if fr_overflow r \<or> fr_wire r = [] then (frame_reader_reset, Pending)
           else let frame = cobs_decode (fr_wire r) FRAME_MAX_DECODED; n = length frame in
             if n < 2 then (frame_reader_reset, Bad_Frame)
             else if \<not> frame_crc_matches frame then (frame_reader_reset, Bad_Frame)
             else (frame_reader_reset, if n - 2 = 0 then Pending else Frame (take (n - 2) frame))
      else if length (fr_wire r) \<ge> FRAME_MAX_WIRE then (r\<lparr>fr_overflow := True\<rparr>, Pending)
      else (r\<lparr>fr_wire := fr_wire r @ [byte]\<rparr>, Pending))"

text \<open>
  \<open>drain_frames\<close>: at most \<open>FRAME_MAX_DRAIN_BYTES_PER_PUMP\<close> bytes of the source are read, and each
  complete envelope is handed to \<open>on_envelope\<close>, here a state transformer.  The third result is
  what is left in the source.
\<close>

fun drain_loop :: "nat \<Rightarrow> ('s \<Rightarrow> byte list \<Rightarrow> 's) \<Rightarrow> frame_reader \<Rightarrow> 's \<Rightarrow> byte list
    \<Rightarrow> frame_reader \<times> 's \<times> byte list" where
  "drain_loop 0 on_envelope reader proc src = (reader, proc, src)"
| "drain_loop (Suc budget) on_envelope reader proc [] = (reader, proc, [])"
| "drain_loop (Suc budget) on_envelope reader proc (b # src) =
     (case frame_reader_feed b reader of
        (reader', Frame env) \<Rightarrow> drain_loop budget on_envelope reader' (on_envelope proc env) src
      | (reader', _) \<Rightarrow> drain_loop budget on_envelope reader' proc src)"

definition drain_frames :: "('s \<Rightarrow> byte list \<Rightarrow> 's) \<Rightarrow> frame_reader \<Rightarrow> 's \<Rightarrow> byte list
    \<Rightarrow> frame_reader \<times> 's \<times> byte list" where
  "drain_frames on_envelope reader proc src =
     drain_loop FRAME_MAX_DRAIN_BYTES_PER_PUMP on_envelope reader proc src"

subsection \<open>The wire image of an envelope\<close>

lemma frame_crc16_Nil: "frame_crc16 [] = 0xFFFF"
  by (simp add: frame_crc16_def crc16_ccitt_def)

lemma frame_encode_envelope_wire:
  "length env \<le> MESHPIGEON_MAX_FRAME_PAYLOAD \<Longrightarrow>
     frame_encode_envelope env = frame_encode_wire (frame_build env)"
  by (simp add: frame_encode_envelope_def frame_encode_wire_def frame_build_def cobs_encode_def
      frame_limits Let_def)

lemma frame_wire_length:
  "length (cobs_encode decoded) < FRAME_MAX_WIRE" if "length decoded \<le> FRAME_MAX_DECODED"
proof -
  have "length decoded div 254 \<le> 514 div 254"
    using that by (intro div_le_mono) (simp add: frame_limits)
  then show ?thesis
    using that cobs_encode_length [of decoded] by (simp add: frame_limits)
qed

lemma frame_encode_envelope_length: "length (frame_encode_envelope env) \<le> FRAME_MAX_WIRE"
proof (cases "length env \<le> MESHPIGEON_MAX_FRAME_PAYLOAD")
  case True
  then have "length (frame_build env) \<le> FRAME_MAX_DECODED"
    by (simp add: frame_build_def FRAME_MAX_DECODED_def Let_def)
  from frame_wire_length [OF this] True show ?thesis
    by (simp add: frame_encode_envelope_wire frame_encode_wire_def)
qed (simp add: frame_encode_envelope_def FRAME_MAX_DECODED_def)

lemma length_frame_build: "length (frame_build env) = length env + 2"
  by (simp add: frame_build_def Let_def)

lemma frame_crc_build: "frame_crc (frame_build env) = frame_crc16 env"
  by (simp add: frame_crc_def frame_build_def Let_def)

lemma frame_crc_matches_build: "frame_crc_matches (frame_build env)"
  unfolding frame_crc_matches_def Let_def frame_crc_build
  by (simp add: frame_build_def Let_def get_put_u16 nth_append)

lemma take_frame_build: "take (length env) (frame_build env) = env"
  by (simp add: frame_build_def Let_def)

subsection \<open>What the reader makes of a stream\<close>

text \<open>The drain loop is a fold of one step over the bytes its budget covers.\<close>

definition drain_step :: "('s \<Rightarrow> byte list \<Rightarrow> 's) \<Rightarrow> byte \<Rightarrow> frame_reader \<times> 's \<Rightarrow> frame_reader \<times> 's" where
  "drain_step on_envelope b st =
     (case frame_reader_feed b (fst st) of
        (reader', Frame env) \<Rightarrow> (reader', on_envelope (snd st) env)
      | (reader', _) \<Rightarrow> (reader', snd st))"

lemma drain_loop_fold:
  "drain_loop n f r s src =
     (let st = fold (drain_step f) (take n src) (r, s) in (fst st, snd st, drop n src))"
  by (induction n f r s src rule: drain_loop.induct)
     (simp_all add: drain_step_def Let_def split: prod.splits feed_result.splits)

lemma feed_zero_resets: "fst (frame_reader_feed 0 r) = frame_reader_reset"
  by (simp add: frame_reader_feed_def Let_def)

lemma drain_zero_resets: "fst (drain_step f 0 st) = frame_reader_reset"
  using feed_zero_resets [of "fst st"]
  by (auto simp: drain_step_def split: prod.splits feed_result.splits)

lemma drain_nonzero_keeps:
  "0 \<notin> set bs \<Longrightarrow> snd (fold (drain_step f) bs st) = snd st"
  by (induction bs arbitrary: st) (auto simp: drain_step_def frame_reader_feed_def)

lemma drain_collects:
  "0 \<notin> set bs \<Longrightarrow> length (fr_wire r) + length bs \<le> FRAME_MAX_WIRE \<Longrightarrow>
     fold (drain_step f) bs (r, s) = (r\<lparr>fr_wire := fr_wire r @ bs\<rparr>, s)"
  by (induction bs arbitrary: r) (auto simp: drain_step_def frame_reader_feed_def)

lemma feed_delimiter:
  assumes "length decoded \<le> FRAME_MAX_DECODED"
  shows "frame_reader_feed 0 \<lparr>fr_wire = cobs_encode decoded, fr_overflow = False\<rparr> =
    (frame_reader_reset,
     if length decoded < 2 \<or> \<not> frame_crc_matches decoded then Bad_Frame
     else if length decoded = 2 then Pending else Frame (take (length decoded - 2) decoded))"
  using assms by (simp add: frame_reader_feed_def cobs_encode_nonempty cobs_decode_encode Let_def)

lemma drain_wire_frame:
  assumes "length decoded \<le> FRAME_MAX_DECODED"
  shows "fold (drain_step f) (frame_encode_wire decoded) (frame_reader_reset, s) =
    (frame_reader_reset,
     if length decoded > 2 \<and> frame_crc_matches decoded
     then f s (take (length decoded - 2) decoded) else s)"
proof -
  have len: "length (cobs_encode decoded) \<le> FRAME_MAX_WIRE"
    using frame_wire_length [OF assms] by simp
  have "fold (drain_step f) (cobs_encode decoded) (frame_reader_reset, s)
      = (\<lparr>fr_wire = cobs_encode decoded, fr_overflow = False\<rparr>, s)"
    using drain_collects [OF cobs_encode_no_zero, of frame_reader_reset decoded f s] len
    by (simp add: frame_reader_reset_def)
  then show ?thesis
    using assms by (auto simp: frame_encode_wire_def drain_step_def feed_delimiter)
qed

lemma drain_envelope:
  assumes "env \<noteq> []" "length env \<le> MESHPIGEON_MAX_FRAME_PAYLOAD"
  shows "fold (drain_step f) (frame_encode_envelope env) (frame_reader_reset, s)
    = (frame_reader_reset, f s env)"
  using assms drain_wire_frame [of "frame_build env" f s]
  by (simp add: frame_encode_envelope_wire length_frame_build frame_crc_matches_build
      take_frame_build FRAME_MAX_DECODED_def)

lemma drain_envelopes:
  assumes "\<forall>env \<in> set envs. env \<noteq> [] \<and> length env \<le> MESHPIGEON_MAX_FRAME_PAYLOAD"
  shows "fold (drain_step f) (concat (map frame_encode_envelope envs)) (frame_reader_reset, s)
    = (frame_reader_reset, foldl f s envs)"
  using assms by (induction envs arbitrary: s) (simp_all add: drain_envelope)

lemma drain_frames_all:
  assumes "length src \<le> FRAME_MAX_DRAIN_BYTES_PER_PUMP"
  shows "drain_frames f r s src =
    (fst (fold (drain_step f) src (r, s)), snd (fold (drain_step f) src (r, s)), [])"
  using assms by (simp add: drain_frames_def drain_loop_fold Let_def)

text \<open>A change of the decoded frame the trailing CRC notices.\<close>

lemma last_two:
  assumes "2 \<le> length g"
  shows "g = take (length g - 2) g @ [g ! (length g - 2), g ! (length g - 1)]"
proof -
  obtain xs b where g: "g = xs @ [b]" using assms by (cases g rule: rev_cases) auto
  with assms obtain ys a where "xs = ys @ [a]" by (cases xs rule: rev_cases) auto
  with g show ?thesis by (simp add: nth_append)
qed

lemma crc_field_change:
  assumes "length fr = length fr'" "length fr \<ge> 2" "frame_crc_matches fr"
    and "take (length fr - 2) fr = take (length fr - 2) fr'" "fr \<noteq> fr'"
  shows "\<not> frame_crc_matches fr'"
proof
  let ?n = "length fr"
  assume "frame_crc_matches fr'"
  then have "get_u16 (fr ! (?n - 2)) (fr ! (?n - 1)) = get_u16 (fr' ! (?n - 2)) (fr' ! (?n - 1))"
    using assms by (simp add: frame_crc_matches_def frame_crc_def Let_def)
  then have "[fr ! (?n - 2), fr ! (?n - 1)] = [fr' ! (?n - 2), fr' ! (?n - 1)]"
    by (metis put_get_u16)
  with last_two [of fr] last_two [of fr'] assms show False by metis
qed

lemma crc_envelope_change:
  assumes "length (pre @ mid) \<le> length env" "length mid = length mid'" "length mid \<le> 2" "mid \<noteq> mid'"
    and "frame_build env = pre @ mid @ post"
  shows "\<not> frame_crc_matches (pre @ mid' @ post)"
proof -
  obtain post' where post: "post = post' @ drop (length env) (frame_build env)"
      "env = pre @ mid @ post'"
  proof
    show "env = pre @ mid @ take (length env - length (pre @ mid)) post"
      using assms(1) take_frame_build [of env] unfolding assms(5) by (cases "length pre \<le> length env") auto
    show "post = take (length env - length (pre @ mid)) post @ drop (length env) (frame_build env)"
      using assms(1) unfolding assms(5) by simp
  qed
  define crc where "crc = drop (length env) (frame_build env)"
  have crc: "length crc = 2" "frame_build env = env @ crc"
    by (simp_all add: crc_def frame_build_def Let_def)
  have n: "length (pre @ mid' @ post) - 2 = length (pre @ mid' @ post')"
    and idx: "(pre @ mid' @ post) ! (length (pre @ mid' @ post) - 2) = crc ! 0"
      "(pre @ mid' @ post) ! (length (pre @ mid' @ post) - 1) = crc ! 1"
      "frame_build env ! (length (frame_build env) - 2) = crc ! 0"
      "frame_build env ! (length (frame_build env) - 1) = crc ! 1"
    using crc assms(2) post by (auto simp: crc_def [symmetric] nth_append)
  have "frame_crc16 env = get_u16 (crc ! 0) (crc ! 1)"
    using frame_crc_matches_build [of env] idx by (simp add: frame_crc_matches_def Let_def frame_crc_build)
  moreover have "frame_crc (pre @ mid' @ post) = frame_crc16 (pre @ mid' @ post')"
    using post(1) crc by (simp add: frame_crc_def crc_def [symmetric])
  moreover have "frame_crc16 (pre @ mid' @ post') \<noteq> frame_crc16 env"
    unfolding post(2) frame_crc16_def using crc_detects_burst [OF assms(2,3,4)] by metis
  ultimately show ?thesis
    using idx by (simp add: frame_crc_matches_def Let_def)
qed

lemma crc_detects_corruption:
  assumes "frame_build env = pre @ mid @ post" "length mid' = length mid" "mid' \<noteq> mid"
    and "length mid = 1 \<or> length mid = 2 \<and> length (pre @ mid) \<le> length env"
  shows "\<not> frame_crc_matches (pre @ mid' @ post)"
proof (cases "length (pre @ mid) \<le> length env")
  case True
  with assms show ?thesis by (intro crc_envelope_change) auto
next
  case False
  then have "length env \<le> length pre" using assms(4) by auto
  then have "take (length env) (pre @ mid' @ post) = take (length env) (frame_build env)"
    by (simp add: assms(1))
  moreover have "frame_build env \<noteq> pre @ mid' @ post"
    using assms by auto
  moreover have "length (frame_build env) = length (pre @ mid' @ post)"
    using assms(1,2) by simp
  ultimately show ?thesis
    using crc_field_change [of "frame_build env" "pre @ mid' @ post"]
    by (metis add_diff_cancel_right' frame_crc_matches_build le_add2 length_frame_build)
qed

section \<open>Properties\<close>

text \<open>
  C19. Framing round trip over a stream.  Whatever bytes came before (noise, a half-received
  frame, an overrun of the wire buffer) and whatever state they left the reader in, from the
  next delimiter on every envelope that was framed with \<open>frame_encode_envelope\<close> reaches
  \<open>on_envelope\<close>, once, in order and unchanged, and the reader ends ready for the next frame.
\<close>

theorem reader_self_heals:
  assumes "\<forall>env \<in> set envs. env \<noteq> [] \<and> length env \<le> MESHPIGEON_MAX_FRAME_PAYLOAD"
    and "length (noise @ 0 # concat (map frame_encode_envelope envs)) \<le> FRAME_MAX_DRAIN_BYTES_PER_PUMP"
  shows "drain_frames on_envelope reader proc (noise @ 0 # concat (map frame_encode_envelope envs)) =
    (frame_reader_reset,
     foldl on_envelope (fst (snd (drain_frames on_envelope reader proc (noise @ [0])))) envs, [])"
proof -
  obtain s where "drain_step on_envelope 0 (fold (drain_step on_envelope) noise (reader, proc))
      = (frame_reader_reset, s)"
    by (metis drain_zero_resets prod.collapse)
  then show ?thesis
    using assms(2) drain_envelopes [OF assms(1), of on_envelope s] by (simp add: drain_frames_all)
qed

lemma reader_self_heals_witness:
  "snd (drain_frames (\<lambda>got env. got @ [env]) \<lparr>fr_wire = [9, 9], fr_overflow = True\<rparr> []
     ([7, 7] @ 0 # concat (map frame_encode_envelope [[1, 0, 2], [0]]))) = ([[1, 0, 2], [0]], [])"
proof -
  have "snd (drain_frames (\<lambda>got env. got @ [env]) \<lparr>fr_wire = [9, 9], fr_overflow = True\<rparr> []
     ([7, 7] @ [0])) = ([], [])"
    by (simp add: drain_frames_all frame_limits drain_step_def frame_reader_feed_def)
  moreover have "length ([7, 7] @ 0 # concat (map frame_encode_envelope [[1, 0, 2], [0 :: byte]]))
      \<le> FRAME_MAX_DRAIN_BYTES_PER_PUMP"
    using frame_encode_envelope_length [of "[1, 0, 2]"] frame_encode_envelope_length [of "[0]"]
    by (simp add: frame_limits)
  ultimately show ?thesis
    by (subst reader_self_heals) (simp_all add: frame_limits)
qed

text \<open>
  C23. Error detection.  If a frame arrives with one byte changed anywhere (envelope or CRC), or
  with two adjacent bytes of the envelope changed, the reader delivers nothing and is back in
  its initial state for the next frame.
\<close>

theorem corrupted_frame_rejected:
  assumes "frame_build env = pre @ mid @ post" "length mid' = length mid" "mid' \<noteq> mid"
    and "length mid = 1 \<or> length mid = 2 \<and> length (pre @ mid) \<le> length env"
    and "length env \<le> MESHPIGEON_MAX_FRAME_PAYLOAD"
  shows "drain_frames on_envelope frame_reader_reset proc (frame_encode_wire (pre @ mid' @ post)) =
    (frame_reader_reset, proc, [])"
proof -
  let ?bad = "pre @ mid' @ post"
  have len: "length ?bad = length env + 2"
    using assms(1,2) length_frame_build [of env] by simp
  have "length (frame_encode_wire ?bad) \<le> FRAME_MAX_DRAIN_BYTES_PER_PUMP"
    using frame_wire_length [of ?bad] assms(5) len
    by (simp add: frame_encode_wire_def frame_limits)
  then show ?thesis
    using drain_wire_frame [of ?bad on_envelope proc] assms(5) len
      crc_detects_corruption [OF assms(1-4)]
    by (simp add: drain_frames_all FRAME_MAX_DECODED_def)
qed

lemma corrupted_frame_rejected_witness:
  "drain_frames (\<lambda>got env. got @ [env]) frame_reader_reset []
     (frame_encode_wire ([5] @ [1, 0] @ drop 3 (frame_build [5, 6, 7]))) = (frame_reader_reset, [], [])"
  by (rule corrupted_frame_rejected [of "[5, 6, 7]" "[5]" "[6, 7]"])
     (simp_all add: frame_build_def Let_def frame_limits)

text \<open>
  COBS.  The encoding of any data has no zero byte, costs one byte plus one per 254, and
  decodes to the data whenever the data fits the destination; and no input whatever makes the
  decoder write more than \<open>dst_cap\<close> bytes.
\<close>

theorem cobs_round_trip:
  "0 \<notin> set (cobs_encode src) \<and>
   length (cobs_encode src) \<le> length src + length src div 254 + 1 \<and>
   cobs_decode (cobs_encode src) (length src + slack) = src \<and>
   length (cobs_decode any_bytes dst_cap) \<le> dst_cap"
  using cobs_encode_length [of src]
  by (simp add: cobs_encode_no_zero cobs_decode_encode cobs_decode_bound)

text \<open>
  The streaming framer.  \<open>frame_encode_envelope\<close> refuses exactly the envelopes above the
  payload limit; every other one it writes byte for byte as \<open>frame_encode_wire\<close> of \<open>frame_build\<close>
  does, ends it with the only zero of the frame, and stays inside \<open>FRAME_MAX_WIRE\<close>.
\<close>

theorem frame_encode_envelope_agrees:
  "frame_encode_envelope env =
     (if length env > MESHPIGEON_MAX_FRAME_PAYLOAD then [] else frame_encode_wire (frame_build env))
   \<and> length (frame_encode_envelope env) \<le> FRAME_MAX_WIRE
   \<and> count_list (frame_encode_envelope env) 0 \<le> 1"
proof (cases "length env > MESHPIGEON_MAX_FRAME_PAYLOAD")
  case True
  then show ?thesis by (simp add: frame_encode_envelope_def FRAME_MAX_DECODED_def)
next
  case False
  moreover have "count_list (cobs_encode (frame_build env)) 0 = 0"
    using cobs_encode_no_zero by (simp add: count_notin)
  ultimately show ?thesis
    using frame_encode_envelope_length [of env]
    by (simp add: frame_encode_envelope_wire frame_encode_wire_def)
qed

text \<open>
  The drain budget.  One pump takes at most \<open>FRAME_MAX_DRAIN_BYTES_PER_PUMP\<close> bytes off the
  source, whatever the bytes are, leaves the rest in place, and never lets the reader's wire
  buffer outgrow \<open>FRAME_MAX_WIRE\<close>.
\<close>

lemma feed_wire_bound:
  "length (fr_wire r) \<le> FRAME_MAX_WIRE \<Longrightarrow>
     length (fr_wire (fst (frame_reader_feed b r))) \<le> FRAME_MAX_WIRE"
  by (auto simp: frame_reader_feed_def frame_reader_reset_def Let_def)

lemma drain_wire_bound:
  "length (fr_wire (fst st)) \<le> FRAME_MAX_WIRE \<Longrightarrow>
     length (fr_wire (fst (fold (drain_step f) bs st))) \<le> FRAME_MAX_WIRE"
proof (induction bs arbitrary: st)
  case (Cons b bs)
  have "length (fr_wire (fst (drain_step f b st))) \<le> FRAME_MAX_WIRE"
    using feed_wire_bound [OF Cons.prems, of b]
    by (auto simp: drain_step_def split: prod.splits feed_result.splits)
  then show ?case using Cons.IH by simp
qed simp

theorem drain_bounded:
  assumes "length (fr_wire reader) \<le> FRAME_MAX_WIRE"
    and "drain_frames on_envelope reader proc src = (reader', proc', rest)"
  shows "rest = drop FRAME_MAX_DRAIN_BYTES_PER_PUMP src \<and> length (fr_wire reader') \<le> FRAME_MAX_WIRE"
  using assms drain_wire_bound [of "(reader, proc)" on_envelope "take FRAME_MAX_DRAIN_BYTES_PER_PUMP src"]
  by (auto simp: drain_frames_def drain_loop_fold Let_def)

lemma drain_bounded_witness:
  "length (snd (snd (drain_frames (\<lambda>n env. n + 1) frame_reader_reset (0 :: nat) (replicate 9000 1)))) = 712"
proof -
  obtain r p rest where d: "drain_frames (\<lambda>n env. n + 1) frame_reader_reset (0 :: nat)
      (replicate 9000 1) = (r, p, rest)"
    by (metis prod.collapse)
  have "length (fr_wire frame_reader_reset) \<le> FRAME_MAX_WIRE"
    by (simp add: frame_reader_reset_def)
  from drain_bounded [OF this d] d show ?thesis
    by (simp add: frame_limits)
qed

end
