(* ===== verification/Settings.thy ===== *)
theory Settings
  imports Framing
begin

text \<open>
  \<open>settings.h\<close> and \<open>settings.cpp\<close>: the two persisted records, their serialized forms with the
  trailing CRC, the field validators, and the in-memory \<open>SettingsStore\<close>.

  A \<open>char\<close> array field is the list of all its bytes; \<open>operator==\<close> and \<open>strcmp\<close> compare what
  \<open>cstr\<close> reads.  \<open>deserialize\<close> returns the object it leaves behind together with its result.
\<close>

section \<open>Radio settings\<close>

record radio_settings =
  rs_version :: u8
  rs_region :: u8
  rs_freq_hz :: u32
  rs_bw_x100khz :: u16
  rs_sf :: u8
  rs_cr :: u8
  rs_power_dbm :: u8
  rs_config_epoch :: u32

definition kSerializedVersion :: u8 where "kSerializedVersion = 1"

definition radio_kSerializedSize :: nat where "radio_kSerializedSize = 17"

definition append_crc :: "byte list \<Rightarrow> byte list" where
  "append_crc out =
     (let crc = crc16_ccitt out 0xFFFF in out @ [ucast (crc AND 0xFF), ucast (drop_bit 8 crc)])"

definition check_crc :: "byte list \<Rightarrow> bool" where
  "check_crc inp =
     (if length inp < 2 then False
      else let n = length inp; crc = crc16_ccitt (take (n - 2) inp) 0xFFFF
           in crc = get_u16 (inp ! (n - 2)) (inp ! (n - 1)))"

definition radio_unset :: radio_settings where
  "radio_unset = \<lparr>rs_version = kSerializedVersion, rs_region = 0, rs_freq_hz = 869525000,
     rs_bw_x100khz = 12500, rs_sf = 9, rs_cr = 5, rs_power_dbm = 14, rs_config_epoch = 0\<rparr>"

definition radio_eq :: "radio_settings \<Rightarrow> radio_settings \<Rightarrow> bool" where
  "radio_eq a b \<longleftrightarrow> rs_version a = rs_version b \<and> rs_region a = rs_region b \<and>
     rs_freq_hz a = rs_freq_hz b \<and> rs_bw_x100khz a = rs_bw_x100khz b \<and> rs_sf a = rs_sf b \<and>
     rs_cr a = rs_cr b \<and> rs_power_dbm a = rs_power_dbm b \<and> rs_config_epoch a = rs_config_epoch b"

definition radio_serialize :: "radio_settings \<Rightarrow> byte list" where
  "radio_serialize s = append_crc
     ([rs_version s, rs_region s] @ put_u32 (rs_freq_hz s) @
      [ucast (rs_bw_x100khz s AND 0xFF), ucast (drop_bit 8 (rs_bw_x100khz s) AND 0xFF)] @
      [rs_sf s, rs_cr s, rs_power_dbm s] @ put_u32 (rs_config_epoch s))"

definition radio_deserialize :: "byte list \<Rightarrow> radio_settings \<times> bool" where
  "radio_deserialize inp =
     (if length inp \<noteq> radio_kSerializedSize then (radio_unset, False)
      else if \<not> check_crc inp then (radio_unset, False)
      else let s = radio_unset\<lparr>rs_version := inp ! 0\<rparr> in
        if rs_version s \<noteq> kSerializedVersion then (s, False)
        else (s\<lparr>rs_region := inp ! 1,
                rs_freq_hz := get_u32 (inp ! 2) (inp ! 3) (inp ! 4) (inp ! 5),
                rs_bw_x100khz := get_u16 (inp ! 6) (inp ! 7),
                rs_sf := inp ! 8, rs_cr := inp ! 9, rs_power_dbm := inp ! 10,
                rs_config_epoch := get_u32 (inp ! 11) (inp ! 12) (inp ! 13) (inp ! 14)\<rparr>, True))"

section \<open>Device settings\<close>

record device_settings =
  ds_name :: "byte list"
  ds_pin :: "byte list"
  ds_wifi_enabled :: bool
  ds_wifi_ssid :: "byte list"
  ds_wifi_password :: "byte list"
  ds_wifi_port :: u16

definition kDefaultPin :: "byte list" where
  "kDefaultPin = [0x30, 0x30, 0x30, 0x30]"

definition device_kSerializedSize :: nat where
  "device_kSerializedSize = 1 + (MESHPIGEON_NAME_MAX + 1) + (MESHPIGEON_PIN_MAX + 1) + 1 +
     (MESHPIGEON_SSID_MAX + 1) + (MESHPIGEON_PASS_MAX + 1) + 2 + 2"

definition device_defaults :: device_settings where
  "device_defaults = \<lparr>ds_name = replicate (MESHPIGEON_NAME_MAX + 1) 0,
     ds_pin = kDefaultPin @ replicate (MESHPIGEON_PIN_MAX + 1 - length kDefaultPin) 0,
     ds_wifi_enabled = False,
     ds_wifi_ssid = replicate (MESHPIGEON_SSID_MAX + 1) 0,
     ds_wifi_password = replicate (MESHPIGEON_PASS_MAX + 1) 0,
     ds_wifi_port = of_nat MESHPIGEON_WIFI_PORT_DEFAULT\<rparr>"

definition pin_is_default :: "device_settings \<Rightarrow> bool" where
  "pin_is_default d \<longleftrightarrow> cstr (ds_pin d) = cstr kDefaultPin"

definition device_eq :: "device_settings \<Rightarrow> device_settings \<Rightarrow> bool" where
  "device_eq a b \<longleftrightarrow> cstr (ds_name a) = cstr (ds_name b) \<and> cstr (ds_pin a) = cstr (ds_pin b) \<and>
     ds_wifi_enabled a = ds_wifi_enabled b \<and> cstr (ds_wifi_ssid a) = cstr (ds_wifi_ssid b) \<and>
     cstr (ds_wifi_password a) = cstr (ds_wifi_password b) \<and> ds_wifi_port a = ds_wifi_port b"

definition device_serialize :: "device_settings \<Rightarrow> byte list" where
  "device_serialize d = append_crc
     ([kSerializedVersion] @ ds_name d @ ds_pin d @ [if ds_wifi_enabled d then 1 else 0] @
      ds_wifi_ssid d @ ds_wifi_password d @
      [ucast (ds_wifi_port d AND 0xFF), ucast (drop_bit 8 (ds_wifi_port d))])"

text \<open>\<open>memcpy(field, in + i, n)\<close> followed by the terminator the last lines of \<open>deserialize\<close> impose.\<close>

definition read_field :: "nat \<Rightarrow> nat \<Rightarrow> byte list \<Rightarrow> byte list" where
  "read_field i n inp = (take n (drop i inp))[n - 1 := 0]"

definition device_deserialize :: "byte list \<Rightarrow> device_settings \<times> bool" where
  "device_deserialize inp =
     (if length inp \<noteq> device_kSerializedSize then (device_defaults, False)
      else if \<not> check_crc inp then (device_defaults, False)
      else if inp ! 0 \<noteq> kSerializedVersion then (device_defaults, False)
      else let i_name = 1;
               i_pin = i_name + (MESHPIGEON_NAME_MAX + 1);
               i_en = i_pin + (MESHPIGEON_PIN_MAX + 1);
               i_ssid = i_en + 1;
               i_pass = i_ssid + (MESHPIGEON_SSID_MAX + 1);
               i_port = i_pass + (MESHPIGEON_PASS_MAX + 1)
           in (\<lparr>ds_name = read_field i_name (MESHPIGEON_NAME_MAX + 1) inp,
                ds_pin = read_field i_pin (MESHPIGEON_PIN_MAX + 1) inp,
                ds_wifi_enabled = (inp ! i_en \<noteq> 0),
                ds_wifi_ssid = read_field i_ssid (MESHPIGEON_SSID_MAX + 1) inp,
                ds_wifi_password = read_field i_pass (MESHPIGEON_PASS_MAX + 1) inp,
                ds_wifi_port = get_u16 (inp ! i_port) (inp ! (i_port + 1))\<rparr>, True))"

subsection \<open>Validation of a request\<close>

definition valid_name :: "byte list \<Rightarrow> bool" where
  "valid_name s \<longleftrightarrow> \<not> length s > MESHPIGEON_NAME_MAX \<and> list_all (\<lambda>c. \<not> (c < 0x20 \<or> c = 0x7F)) s"

definition valid_pin :: "byte list \<Rightarrow> bool" where
  "valid_pin s \<longleftrightarrow> \<not> (length s < MESHPIGEON_PIN_MIN \<or> length s > MESHPIGEON_PIN_MAX) \<and>
     list_all (\<lambda>c. \<not> (c < 0x30 \<or> c > 0x39)) s"

definition valid_pin_set :: "byte list \<Rightarrow> bool" where
  "valid_pin_set s \<longleftrightarrow> length s = 0 \<or> valid_pin s"

definition set_pin :: "byte list \<Rightarrow> byte list" where
  "set_pin s =
     (let pin = (if s ! 0 = 0 then kDefaultPin @ [0] else s);
          len = strnlen pin MESHPIGEON_PIN_MAX
      in take len pin @ replicate (MESHPIGEON_PIN_MAX + 1 - len) 0)"

definition valid_ssid :: "byte list \<Rightarrow> bool" where
  "valid_ssid s \<longleftrightarrow> length s \<le> MESHPIGEON_SSID_MAX"

definition valid_password :: "byte list \<Rightarrow> bool" where
  "valid_password s \<longleftrightarrow> length s \<le> MESHPIGEON_PASS_MAX"

definition valid_port :: "u32 \<Rightarrow> bool" where
  "valid_port port \<longleftrightarrow> port \<noteq> 0 \<and> port \<le> 0xFFFF"

section \<open>The in-memory store\<close>

text \<open>
  \<open>MemorySettingsStore\<close>.  \<open>load\<close> writes \<open>*out\<close> only when it succeeds, so the caller's object is
  an argument; \<open>load_device\<close> always writes it.  Each save returns the new store and its result.
\<close>

record memory_store =
  ms_saved :: radio_settings
  ms_have :: bool
  ms_saved_device :: device_settings
  ms_have_device :: bool

definition memory_store_new :: "radio_settings \<Rightarrow> memory_store" where
  "memory_store_new uninitialised = \<lparr>ms_saved = uninitialised, ms_have = False,
     ms_saved_device = device_defaults, ms_have_device = False\<rparr>"

definition ms_save :: "radio_settings \<Rightarrow> memory_store \<Rightarrow> memory_store \<times> bool" where
  "ms_save s st = (st\<lparr>ms_saved := s, ms_have := True\<rparr>, True)"

definition ms_load :: "radio_settings \<Rightarrow> memory_store \<Rightarrow> radio_settings \<times> bool" where
  "ms_load out st = (if \<not> ms_have st then (out, False) else (ms_saved st, True))"

definition ms_save_device :: "device_settings \<Rightarrow> memory_store \<Rightarrow> memory_store \<times> bool" where
  "ms_save_device s st = (st\<lparr>ms_saved_device := s, ms_have_device := True\<rparr>, True)"

definition ms_load_device :: "memory_store \<Rightarrow> device_settings \<times> bool" where
  "ms_load_device st =
     (if \<not> ms_have_device st then (device_defaults, False) else (ms_saved_device st, True))"

definition ms_clear_device :: "memory_store \<Rightarrow> memory_store" where
  "ms_clear_device st = st\<lparr>ms_have_device := False\<rparr>"

section \<open>Lemmas\<close>

lemma append_crc_build: "append_crc out = frame_build out"
  by (simp add: append_crc_def frame_build_def frame_crc16_def)

lemma check_crc_matches: "check_crc inp \<longleftrightarrow> 2 \<le> length inp \<and> frame_crc_matches inp"
  by (auto simp: check_crc_def frame_crc_matches_def frame_crc_def frame_crc16_def Let_def)

lemma check_append_crc: "check_crc (append_crc out)"
  by (simp add: check_crc_matches append_crc_build length_frame_build frame_crc_matches_build)

lemma nth_append_crc: "i < length out \<Longrightarrow> append_crc out ! i = out ! i"
  by (simp add: append_crc_def Let_def nth_append)

lemma length_append_crc: "length (append_crc out) = length out + 2"
  by (simp add: append_crc_def Let_def)

lemma u16_high_byte: "(ucast (drop_bit 8 (x :: u16) AND 0xFF) :: byte) = ucast (drop_bit 8 x)"
  unfolding and_255 by (rule bit_word_eqI) (auto simp: bit_simps)

lemma length_radio_serialize: "length (radio_serialize s) = radio_kSerializedSize"
  by (simp add: radio_serialize_def length_append_crc length_put radio_kSerializedSize_def)

lemma check_crc_radio: "check_crc (radio_serialize s)"
  by (simp add: radio_serialize_def check_append_crc)

lemma radio_deserialize_serialize:
  "radio_deserialize (radio_serialize s) =
     (if rs_version s = kSerializedVersion then (s, True)
      else (radio_unset\<lparr>rs_version := rs_version s\<rparr>, False))"
proof -
  have b: "radio_serialize s ! i = ([rs_version s, rs_region s] @ put_u32 (rs_freq_hz s) @
      put_u16 (rs_bw_x100khz s) @ [rs_sf s, rs_cr s, rs_power_dbm s] @ put_u32 (rs_config_epoch s)) ! i"
    if "i < 15" for i
    using that unfolding radio_serialize_def
    by (subst nth_append_crc) (simp_all add: length_put put_u16_def u16_high_byte)
  show ?thesis
    unfolding radio_deserialize_def Let_def
    by (simp add: length_radio_serialize check_crc_radio b radio_unset_def put_u16_def put_u32_def
        get_put_u16 get_put_u32)
qed

text \<open>A well-formed object: every \<open>char\<close> field has its size and is NUL-terminated.\<close>

definition char_field :: "nat \<Rightarrow> byte list \<Rightarrow> bool" where
  "char_field n s \<longleftrightarrow> length s = n + 1 \<and> s ! n = 0"

definition device_wf :: "device_settings \<Rightarrow> bool" where
  "device_wf d \<longleftrightarrow> char_field MESHPIGEON_NAME_MAX (ds_name d) \<and>
     char_field MESHPIGEON_PIN_MAX (ds_pin d) \<and> char_field MESHPIGEON_SSID_MAX (ds_wifi_ssid d) \<and>
     char_field MESHPIGEON_PASS_MAX (ds_wifi_password d)"

lemma char_field_read: "i + Suc n \<le> length inp \<Longrightarrow> char_field n (read_field i (Suc n) inp)"
  by (simp add: char_field_def read_field_def)

lemma read_field_append:
  "char_field n f \<Longrightarrow> length p = i \<Longrightarrow> read_field i (n + 1) (p @ f @ q) = f"
  by (auto simp: char_field_def read_field_def) (metis list_update_id)

lemma device_wf_defaults: "device_wf device_defaults"
  by (simp add: device_wf_def char_field_def device_defaults_def kDefaultPin_def protocol_limits
      nth_append)

lemma device_wf_deserialize: "device_wf (fst (device_deserialize inp))"
  by (simp add: device_deserialize_def device_wf_defaults Let_def)
     (simp add: device_wf_def char_field_read device_kSerializedSize_def)

lemma length_device_serialize: "device_wf d \<Longrightarrow> length (device_serialize d) = device_kSerializedSize"
  by (simp add: device_wf_def char_field_def device_serialize_def length_append_crc device_kSerializedSize_def)

lemma char_field_cstr: "char_field n s \<Longrightarrow> 0 \<in> set s" "char_field n s \<Longrightarrow> strlen s \<le> n"
proof -
  assume s: "char_field n s"
  then have "s ! n \<in> set s" by (intro nth_mem) (simp add: char_field_def)
  with s show "0 \<in> set s" by (simp add: char_field_def)
  show "strlen s \<le> n"
  proof (rule ccontr)
    assume "\<not> strlen s \<le> n"
    then have n: "n < length (takeWhile (\<lambda>b. b \<noteq> 0) s)"
      by (simp add: strlen_def cstr_def)
    from nth_mem [OF n] takeWhile_nth [OF n] s show False
      by (auto simp: char_field_def dest: set_takeWhileD)
  qed
qed

lemma device_deserialize_serialize:
  assumes "device_wf d"
  shows "device_deserialize (device_serialize d) = (d, True)"
proof -
  let ?en = "[if ds_wifi_enabled d then 1 else 0]"
  let ?port = "[ucast (ds_wifi_port d AND 0xFF), ucast (drop_bit 8 (ds_wifi_port d))]"
  obtain c where ser: "device_serialize d = [kSerializedVersion] @ ds_name d @ ds_pin d @ ?en @
      ds_wifi_ssid d @ ds_wifi_password d @ ?port @ c"
    by (simp add: device_serialize_def append_crc_def Let_def)
  note fields = assms [unfolded device_wf_def]
  have len: "length (ds_name d) = 21" "length (ds_pin d) = 9" "length (ds_wifi_ssid d) = 33"
      "length (ds_wifi_password d) = 64"
    using fields by (simp_all add: char_field_def protocol_limits)
  have name: "read_field 1 21 (device_serialize d) = ds_name d"
    using read_field_append [of 20 "ds_name d" "[kSerializedVersion]" 1] fields ser
    by (simp add: protocol_limits)
  have pin: "read_field 22 9 (device_serialize d) = ds_pin d"
    using read_field_append [of 8 "ds_pin d" "[kSerializedVersion] @ ds_name d" 22] fields len ser
    by (simp add: protocol_limits)
  have ssid: "read_field 32 33 (device_serialize d) = ds_wifi_ssid d"
    using read_field_append [of 32 "ds_wifi_ssid d" "[kSerializedVersion] @ ds_name d @ ds_pin d @ ?en" 32]
      fields len ser by (simp add: protocol_limits)
  have pass: "read_field 65 64 (device_serialize d) = ds_wifi_password d"
    using read_field_append [of 63 "ds_wifi_password d"
        "[kSerializedVersion] @ ds_name d @ ds_pin d @ ?en @ ds_wifi_ssid d" 65]
      fields len ser by (simp add: protocol_limits)
  have "device_serialize d ! 0 = kSerializedVersion"
    "device_serialize d ! 31 = (if ds_wifi_enabled d then 1 else 0)"
    "device_serialize d ! 129 = ucast (ds_wifi_port d AND 0xFF)"
    "device_serialize d ! 130 = ucast (drop_bit 8 (ds_wifi_port d))"
    unfolding ser using len by (simp_all add: nth_append)
  moreover have "check_crc (device_serialize d)"
    by (simp add: device_serialize_def check_append_crc)
  ultimately show ?thesis
    using length_device_serialize [OF assms] name pin ssid pass
    by (simp add: device_deserialize_def Let_def protocol_limits get_put_u16)
qed

lemma corrupt_record:
  assumes "append_crc body = pre @ mid @ post" "length mid' = length mid" "mid' \<noteq> mid"
    and "length mid = 1 \<or> length mid = 2 \<and> length (pre @ mid) \<le> length body"
  shows "\<not> check_crc (pre @ mid' @ post)"
  using crc_detects_corruption [OF assms(1) [unfolded append_crc_build] assms(2-4)]
  by (simp add: check_crc_matches)

lemma strnlen_le: "strnlen s n \<le> n"
  by (simp add: strnlen_def cstr_take)

lemma length_set_pin: "length (set_pin s) = MESHPIGEON_PIN_MAX + 1"
proof -
  have "length (take (strnlen p MESHPIGEON_PIN_MAX) p) = strnlen p MESHPIGEON_PIN_MAX" for p
    by (simp add: take_strnlen) (simp add: strnlen_def cstr_take)
  then show ?thesis
    using strnlen_le [of "kDefaultPin @ [0]" MESHPIGEON_PIN_MAX] strnlen_le [of s MESHPIGEON_PIN_MAX]
    by (simp add: set_pin_def Let_def del: length_take)
qed

lemma set_pin_copy_str:
  "set_pin s = copy_str (MESHPIGEON_PIN_MAX + 1) (if s ! 0 = 0 then kDefaultPin @ [0] else s)"
  by (simp add: set_pin_def copy_str_def Let_def)

lemma char_field_copy_str: "char_field n (copy_str (n + 1) s)"
proof -
  have len: "length (take (strnlen s n) s) = strnlen s n"
    by (simp add: take_strnlen) (simp add: strnlen_def cstr_take)
  have "copy_str (n + 1) s = take (strnlen s n) s @ replicate (Suc n - strnlen s n) 0"
    by (simp add: copy_str_def Let_def)
  then show ?thesis
    using len strnlen_le [of s n] by (simp add: char_field_def nth_append)
qed

section \<open>The settings-store interface\<close>

text \<open>
  What \<open>SettingsStore\<close> promises its client, the command processor: a save that reports success is
  what every later load returns, a failed one changes nothing, the two records do not disturb
  each other, and a cleared device record reads as the defaults.
\<close>

locale settings_store =
  fixes save :: "radio_settings \<Rightarrow> 's \<Rightarrow> 's \<times> bool"
    and load :: "radio_settings \<Rightarrow> 's \<Rightarrow> radio_settings \<times> bool"
    and save_device :: "device_settings \<Rightarrow> 's \<Rightarrow> 's \<times> bool"
    and load_device :: "'s \<Rightarrow> device_settings \<times> bool"
    and clear_device :: "'s \<Rightarrow> 's"
  assumes load_saved: "rs_version r = kSerializedVersion \<Longrightarrow> save r s = (s', True) \<Longrightarrow> load out s' = (r, True)"
    and load_unsaved: "save r s = (s', False) \<Longrightarrow> load out s' = load out s"
    and device_saved: "device_wf d \<Longrightarrow> save_device d s = (s', True) \<Longrightarrow> load_device s' = (d, True)"
    and device_unsaved: "device_wf d \<Longrightarrow> save_device d s = (s', False) \<Longrightarrow> load_device s' = load_device s"
    and device_cleared: "load_device (clear_device s) = (device_defaults, False)"
    and radio_keeps_device: "load_device (fst (save r s)) = load_device s"
    and device_keeps_radio: "load out (fst (save_device d s)) = load out s"
    and clear_keeps_radio: "load out (clear_device s) = load out s"

datatype store_op = Save_Radio radio_settings | Save_Device device_settings | Clear_Device

text \<open>The abstract store: the last radio record, if any, and the last device record, if any.\<close>

type_synonym store_view = "radio_settings option \<times> device_settings option"

fun store_spec :: "store_op \<Rightarrow> store_view \<Rightarrow> store_view" where
  "store_spec (Save_Radio r) v = (Some r, snd v)"
| "store_spec (Save_Device d) v = (fst v, Some d)"
| "store_spec Clear_Device v = (fst v, None)"

fun store_op_ok :: "store_op \<Rightarrow> bool" where
  "store_op_ok (Save_Radio r) = (rs_version r = kSerializedVersion)"
| "store_op_ok (Save_Device d) = device_wf d"
| "store_op_ok Clear_Device = True"

context settings_store
begin

fun run_op :: "store_op \<Rightarrow> 's \<Rightarrow> 's \<times> bool" where
  "run_op (Save_Radio r) s = save r s"
| "run_op (Save_Device d) s = save_device d s"
| "run_op Clear_Device s = (clear_device s, True)"

definition view :: "'s \<Rightarrow> store_view" where
  "view s = ((case load radio_unset s of (r, ok) \<Rightarrow> if ok then Some r else None),
             (case load_device s of (d, ok) \<Rightarrow> if ok then Some d else None))"

lemma run_op_refines:
  assumes "store_op_ok op"
  shows "view (fst (run_op op s)) = (if snd (run_op op s) then store_spec op (view s) else view s)"
proof (cases op)
  case (Save_Radio r)
  obtain s' ok where "save r s = (s', ok)" by (cases "save r s")
  with Save_Radio assms show ?thesis
    using load_saved [of r s s' radio_unset] load_unsaved [of r s s' radio_unset]
      radio_keeps_device [of r s]
    by (cases ok) (simp_all add: view_def)
next
  case (Save_Device d)
  obtain s' ok where "save_device d s = (s', ok)" by (cases "save_device d s")
  with Save_Device assms show ?thesis
    using device_saved [of d s s'] device_unsaved [of d s s'] device_keeps_radio [of radio_unset d s]
    by (cases ok) (simp_all add: view_def)
next
  case Clear_Device
  then show ?thesis by (simp add: view_def device_cleared clear_keeps_radio)
qed

end

interpretation ms: settings_store ms_save ms_load ms_save_device ms_load_device ms_clear_device
  by unfold_locales
     (auto simp: ms_save_def ms_load_def ms_save_device_def ms_load_device_def ms_clear_device_def)

section \<open>Properties\<close>

text \<open>
  Device record round trip.  Every well-formed device record, whatever its name, PIN and
  Wi-Fi credentials hold after the terminators, reads back exactly as it was written, in
  \<open>kSerializedSize\<close> bytes; and whatever bytes are read, the object left behind is well-formed
  (every field NUL-terminated), the defaults when the record is refused.
\<close>

theorem device_record_round_trip:
  assumes "device_wf d"
  shows "device_deserialize (device_serialize d) = (d, True) \<and>
    length (device_serialize d) = device_kSerializedSize \<and>
    device_wf (fst (device_deserialize any_bytes)) \<and>
    (\<not> snd (device_deserialize any_bytes) \<longrightarrow> fst (device_deserialize any_bytes) = device_defaults)"
  using assms
  by (simp add: device_deserialize_serialize length_device_serialize device_wf_deserialize)
     (simp add: device_deserialize_def Let_def)

lemma device_record_round_trip_witness:
  "device_deserialize (device_serialize (device_defaults\<lparr>ds_wifi_enabled := True\<rparr>))
     = (device_defaults\<lparr>ds_wifi_enabled := True\<rparr>, True)"
  by (rule device_record_round_trip [THEN conjunct1])
     (use device_wf_defaults in \<open>simp add: device_wf_def\<close>)

text \<open>
  Radio record round trip.  A radio record of the current version reads back exactly; one
  of any other version is refused.
\<close>

theorem radio_record_round_trip:
  "length (radio_serialize s) = radio_kSerializedSize \<and>
   snd (radio_deserialize (radio_serialize s)) = (rs_version s = kSerializedVersion) \<and>
   (rs_version s \<noteq> kSerializedVersion \<or> fst (radio_deserialize (radio_serialize s)) = s)"
  by (simp add: length_radio_serialize radio_deserialize_serialize)

lemma radio_record_round_trip_witness:
  "radio_deserialize (radio_serialize (radio_unset\<lparr>rs_freq_hz := 915000000\<rparr>))
     = (radio_unset\<lparr>rs_freq_hz := 915000000\<rparr>, True)"
  using radio_record_round_trip [of "radio_unset\<lparr>rs_freq_hz := 915000000\<rparr>"]
  by (simp add: prod_eq_iff) (simp add: radio_unset_def)



text \<open>
  Changing the PIN.  For every value the validator lets through, the stored PIN field is
  well-formed, holds a valid PIN of 4 to 8 digits, and that PIN is the requested one, or the
  public default when the request was the empty string.
\<close>

theorem set_pin_correct:
  assumes "valid_pin_set s"
  shows "char_field MESHPIGEON_PIN_MAX (set_pin (s @ [0])) \<and>
    cstr (set_pin (s @ [0])) = (if s = [] then kDefaultPin else s) \<and>
    valid_pin (cstr (set_pin (s @ [0])))"
proof -
  have nz: "0 \<notin> set s" and len: "length s \<le> MESHPIGEON_PIN_MAX"
    using assms by (auto simp: valid_pin_set_def valid_pin_def list_all_iff)
  have "cstr (set_pin (s @ [0])) = (if s = [] then kDefaultPin else s)"
  proof (cases s)
    case Nil
    then show ?thesis
      by (simp add: set_pin_copy_str cstr_copy_str) (simp add: kDefaultPin_def cstr_def protocol_limits)
  next
    case (Cons c cs)
    then have "(s @ [0]) ! 0 \<noteq> 0" using nz by auto
    then show ?thesis
      using Cons nz len cstr_append_zero [OF nz, of "[]"]
      by (simp add: set_pin_copy_str cstr_copy_str)
  qed
  moreover have "char_field MESHPIGEON_PIN_MAX (set_pin (s @ [0]))"
    unfolding set_pin_copy_str by (rule char_field_copy_str)
  moreover have "valid_pin kDefaultPin"
    by (simp add: valid_pin_def kDefaultPin_def protocol_limits)
  ultimately show ?thesis
    using assms by (auto simp: valid_pin_set_def)
qed

lemma set_pin_correct_witness:
  "cstr (set_pin ([0x31, 0x32, 0x33, 0x34, 0x35] @ [0])) = [0x31, 0x32, 0x33, 0x34, 0x35]"
  using set_pin_correct [of "[0x31, 0x32, 0x33, 0x34, 0x35]"]
  by (simp add: valid_pin_set_def valid_pin_def protocol_limits)

text \<open>
  The in-memory store implements the abstract one.  After any sequence of saves and clears
  of well-formed records, \<open>load\<close> and \<open>load_device\<close> return exactly what the last of them left:
  the two records never disturb each other, and a cleared device record reads as defaults.
\<close>

theorem memory_store_refines:
  assumes "list_all store_op_ok ops"
  shows "ms.view (fold (\<lambda>op s. fst (ms.run_op op s)) ops s) = fold store_spec ops (ms.view s)"
  using assms
proof (induction ops arbitrary: s)
  case (Cons op ops)
  have "snd (ms.run_op op s)"
    by (cases op) (simp_all add: ms_save_def ms_save_device_def)
  then have "ms.view (fst (ms.run_op op s)) = store_spec op (ms.view s)"
    using ms.run_op_refines [of op s] Cons.prems by simp
  then show ?case
    using Cons.IH [of "fst (ms.run_op op s)"] Cons.prems by simp
qed simp

lemma memory_store_refines_witness:
  "ms.view (fold (\<lambda>op s. fst (ms.run_op op s)) [Save_Device device_defaults, Save_Radio radio_unset, Clear_Device]
     (memory_store_new radio_unset))
     = (Some radio_unset, None)"
  by (subst memory_store_refines) (simp_all add: radio_unset_def device_wf_defaults)

end
