(* ===== verification/PacketStore.thy ===== *)
theory PacketStore
  imports Protocol "HOL-Library.Sublist"
begin

text \<open>
  \<open>packet_store.h\<close> and \<open>packet_store.cpp\<close>: the byte-budgeted ring of retained packets.

  \<open>ps_buf\<close> is the pool, byte for byte; the other fields of the record are the members of the
  class.  Offsets, counts and sequence numbers are the \<open>uint32_t\<close>s of the code as natural
  numbers, every addition and subtraction the code does going through \<open>add32\<close> and \<open>sub32\<close>.
  Of \<open>StoredPacket::raw\<close> only the \<open>len\<close> bytes the code writes are kept.
\<close>

definition kFlagSent :: byte where "kFlagSent = 0x01"
definition kFlagReceived :: byte where "kFlagReceived = 0x02"

definition kStoredPacketOverhead :: nat where "kStoredPacketOverhead = 16"

record stored_packet =
  sp_seq :: nat
  sp_uptime_ms :: u64
  sp_rssi :: byte
  sp_snr :: byte
  sp_flags :: byte
  sp_len :: byte
  sp_raw :: "byte list"

record ring_header =
  h_uptime_ms :: u64
  h_seq :: nat
  h_rssi :: byte
  h_snr :: byte
  h_flags :: byte
  h_len :: byte

record packet_store =
  ps_capacity :: nat
  ps_buf :: "byte list"
  ps_head_off :: nat
  ps_tail_off :: nat
  ps_wrap :: nat
  ps_count :: nat
  ps_next_seq :: nat
  ps_head_seq :: nat
  ps_dropped :: nat

text \<open>The constructor; \<open>calloc_ok\<close> says whether the allocation of the pool succeeded.\<close>

definition packet_store_new :: "nat \<Rightarrow> bool \<Rightarrow> packet_store" where
  "packet_store_new capacity_bytes calloc_ok =
     (let cap = (if capacity_bytes < kStoredPacketOverhead + 1 then 0 else capacity_bytes);
          cap = (if cap \<noteq> 0 \<and> calloc_ok then cap else 0)
      in \<lparr>ps_capacity = cap, ps_buf = replicate cap 0, ps_head_off = 0, ps_tail_off = 0,
          ps_wrap = cap, ps_count = 0, ps_next_seq = 1, ps_head_seq = 1, ps_dropped = 0\<rparr>)"

definition oldest_seq :: "packet_store \<Rightarrow> nat" where
  "oldest_seq s = (if ps_count s = 0 then ps_next_seq s else ps_head_seq s)"

definition ps_clear :: "packet_store \<Rightarrow> packet_store" where
  "ps_clear s = s\<lparr>ps_head_off := 0, ps_tail_off := 0, ps_wrap := ps_capacity s, ps_count := 0,
     ps_head_seq := ps_next_seq s\<rparr>"

definition next_offset :: "packet_store \<Rightarrow> nat \<Rightarrow> byte \<Rightarrow> nat" where
  "next_offset s off len =
     (let nxt = add32 (add32 off kStoredPacketOverhead) (unat len)
      in if nxt \<ge> ps_wrap s then 0 else nxt)"

definition free_bytes :: "packet_store \<Rightarrow> nat" where
  "free_bytes s =
     (if ps_count s = 0 then ps_capacity s
      else if ps_head_off s = ps_tail_off s then 0
      else if ps_head_off s > ps_tail_off s then sub32 (ps_head_off s) (ps_tail_off s)
      else add32 (sub32 (ps_wrap s) (ps_tail_off s)) (ps_head_off s))"

definition bytes_used :: "packet_store \<Rightarrow> nat" where
  "bytes_used s = sub32 (ps_capacity s) (free_bytes s)"

text \<open>The packed header: \<open>[uptime_ms:u64][seq:u32][rssi][snr][flags][len]\<close>, little-endian.\<close>

definition header_bytes :: "ring_header \<Rightarrow> byte list" where
  "header_bytes h = put_u64 (h_uptime_ms h) @ put_u32 (of_nat (h_seq h)) @
     [h_rssi h, h_snr h, h_flags h, h_len h]"

definition read_header :: "packet_store \<Rightarrow> nat \<Rightarrow> ring_header" where
  "read_header s off =
     (let b = take kStoredPacketOverhead (drop off (ps_buf s))
      in \<lparr>h_uptime_ms = get_u64 (take 8 b),
          h_seq = unat (get_u32 (b ! 8) (b ! 9) (b ! 10) (b ! 11)),
          h_rssi = b ! 12, h_snr = b ! 13, h_flags = b ! 14, h_len = b ! 15\<rparr>)"

text \<open>\<open>memcpy(buf + off, bytes, n)\<close>.\<close>

definition write_at :: "byte list \<Rightarrow> nat \<Rightarrow> byte list \<Rightarrow> byte list" where
  "write_at buf off bytes = take off buf @ bytes @ drop (off + length bytes) buf"

definition write_header :: "nat \<Rightarrow> ring_header \<Rightarrow> packet_store \<Rightarrow> packet_store" where
  "write_header off h s = s\<lparr>ps_buf := write_at (ps_buf s) off (header_bytes h)\<rparr>"

definition read_entry :: "packet_store \<Rightarrow> nat \<Rightarrow> ring_header \<Rightarrow> stored_packet" where
  "read_entry s off h =
     \<lparr>sp_seq = h_seq h, sp_uptime_ms = h_uptime_ms h, sp_rssi = h_rssi h, sp_snr = h_snr h,
      sp_flags = h_flags h, sp_len = h_len h,
      sp_raw = take (unat (h_len h)) (drop (off + kStoredPacketOverhead) (ps_buf s))\<rparr>"

definition pop_oldest :: "packet_store \<Rightarrow> packet_store" where
  "pop_oldest s =
     (let h = read_header s (ps_head_off s);
          s = s\<lparr>ps_head_off := next_offset s (ps_head_off s) (h_len h)\<rparr>;
          s = (if ps_head_off s = 0 then s\<lparr>ps_wrap := ps_capacity s\<rparr> else s)
      in s\<lparr>ps_count := sub32 (ps_count s) 1, ps_head_seq := add32 (ps_head_seq s) 1,
           ps_dropped := add32 (ps_dropped s) 1\<rparr>)"

lemma sub32_1_less: "0 < a \<Longrightarrow> sub32 a 1 < a"
proof -
  assume "0 < a"
  then have "sub32 a 1 = ((a - 1) + 2 ^ 32) mod 2 ^ 32"
    by (simp add: sub32_def add.commute)
  also have "\<dots> = (a - 1) mod 2 ^ 32" by (rule mod_add_self2)
  also have "\<dots> \<le> a - 1" by (rule mod_less_eq_dividend)
  finally show ?thesis using \<open>0 < a\<close> by linarith
qed

lemma pop_oldest_count: "ps_count (pop_oldest s) = sub32 (ps_count s) 1"
  by (simp add: pop_oldest_def Let_def)

text \<open>\<open>while (count_ > 0 && cond) pop_oldest();\<close>, the shape of both loops of \<open>append\<close>.\<close>

function evict_while :: "(packet_store \<Rightarrow> bool) \<Rightarrow> packet_store \<Rightarrow> packet_store" where
  "evict_while cond s =
     (if ps_count s > 0 \<and> cond s then evict_while cond (pop_oldest s) else s)"
  by pat_completeness auto

termination
  by (relation "measure (\<lambda>(cond, s). ps_count s)") (auto simp: pop_oldest_count sub32_1_less [unfolded One_nat_def])

declare evict_while.simps [simp del]

definition reset_offsets :: "packet_store \<Rightarrow> packet_store" where
  "reset_offsets s = s\<lparr>ps_head_off := 0, ps_tail_off := 0, ps_wrap := ps_capacity s\<rparr>"

definition make_room :: "nat \<Rightarrow> packet_store \<Rightarrow> packet_store" where
  "make_room need s =
     (let s = evict_while (\<lambda>s. free_bytes s < need) s in
      if ps_count s = 0 then reset_offsets s
      else if ps_head_off s > ps_tail_off s then s
      else if sub32 (ps_wrap s) (ps_tail_off s) < need then
        let s = evict_while (\<lambda>s. ps_head_off s < need) s in
        if ps_count s = 0 then reset_offsets s
        else s\<lparr>ps_wrap := ps_tail_off s, ps_tail_off := 0\<rparr>
      else s)"

text \<open>
  \<open>append\<close> returns the new store, the assigned sequence number (0: nothing was stored) and what
  \<open>stored_out\<close> receives, if anything.
\<close>

definition ps_append :: "u64 \<Rightarrow> byte \<Rightarrow> byte \<Rightarrow> byte \<Rightarrow> byte list \<Rightarrow> packet_store
    \<Rightarrow> packet_store \<times> nat \<times> stored_packet option" where
  "ps_append uptime_ms rssi snr flags raw s =
     (let len = of_nat (length raw) :: byte;
          need = add32 kStoredPacketOverhead (unat len) in
      if ps_capacity s = 0 \<or> need > ps_capacity s
      then (s\<lparr>ps_dropped := add32 (ps_dropped s) 1\<rparr>, 0, None)
      else
        let s = make_room need s;
            at = ps_tail_off s;
            h = \<lparr>h_uptime_ms = uptime_ms, h_seq = ps_next_seq s, h_rssi = rssi, h_snr = snr,
                 h_flags = flags, h_len = len\<rparr>;
            s = write_header at h s;
            s = s\<lparr>ps_buf := write_at (ps_buf s) (at + kStoredPacketOverhead) raw\<rparr>;
            stored_out = read_entry s at h;
            s = s\<lparr>ps_tail_off := add32 at need\<rparr>;
            s = (if ps_tail_off s \<ge> ps_wrap s then s\<lparr>ps_tail_off := 0\<rparr> else s);
            s = s\<lparr>ps_count := add32 (ps_count s) 1\<rparr>
        in (s\<lparr>ps_next_seq := add32 (ps_next_seq s) 1\<rparr>, ps_next_seq s, Some stored_out))"

fun skip_entries :: "packet_store \<Rightarrow> nat \<Rightarrow> nat \<Rightarrow> nat" where
  "skip_entries s 0 off = off"
| "skip_entries s (Suc i) off = skip_entries s i (next_offset s off (h_len (read_header s off)))"

definition ps_get :: "packet_store \<Rightarrow> nat \<Rightarrow> stored_packet option" where
  "ps_get s seq =
     (if ps_count s = 0 \<or> seq < ps_head_seq s \<or> seq \<ge> ps_next_seq s then None
      else let off = skip_entries s (sub32 seq (ps_head_seq s)) (ps_head_off s);
               h = read_header s off
           in if h_seq h \<noteq> seq then None else Some (read_entry s off h))"

definition count_since :: "packet_store \<Rightarrow> nat \<Rightarrow> nat" where
  "count_since s since_seq =
     (if ps_count s = 0 then 0
      else let first = (if ps_head_seq s > since_seq then ps_head_seq s else add32 since_seq 1)
           in if first \<ge> ps_next_seq s then 0 else sub32 (ps_next_seq s) first)"

text \<open>
  \<open>fetch_since\<close>: the callback is a state transformer that also says whether to go on; the result
  is the number delivered and the callback's final state.
\<close>

fun fetch_loop :: "packet_store \<Rightarrow> nat \<Rightarrow> nat \<Rightarrow> ('a \<Rightarrow> stored_packet \<Rightarrow> 'a \<times> bool)
    \<Rightarrow> nat \<Rightarrow> nat \<Rightarrow> nat \<Rightarrow> 'a \<Rightarrow> nat \<times> 'a" where
  "fetch_loop s since_seq max_count cb 0 off delivered a = (delivered, a)"
| "fetch_loop s since_seq max_count cb (Suc i) off delivered a =
     (if \<not> delivered < max_count then (delivered, a)
      else let h = read_header s off; nxt = next_offset s off (h_len h) in
        if h_seq h > since_seq
        then case cb a (read_entry s off h) of
               (a', ok) \<Rightarrow> if \<not> ok then (delivered, a')
                 else fetch_loop s since_seq max_count cb i nxt (add32 delivered 1) a'
        else fetch_loop s since_seq max_count cb i nxt delivered a)"

definition fetch_since :: "packet_store \<Rightarrow> nat \<Rightarrow> nat \<Rightarrow> ('a \<Rightarrow> stored_packet \<Rightarrow> 'a \<times> bool)
    \<Rightarrow> 'a \<Rightarrow> nat \<times> 'a" where
  "fetch_since s since_seq max_count cb a =
     fetch_loop s since_seq max_count cb (ps_count s) (ps_head_off s) 0 a"

section \<open>Records in the pool\<close>

definition header_of :: "stored_packet \<Rightarrow> ring_header" where
  "header_of e = \<lparr>h_uptime_ms = sp_uptime_ms e, h_seq = sp_seq e, h_rssi = sp_rssi e,
     h_snr = sp_snr e, h_flags = sp_flags e, h_len = sp_len e\<rparr>"

definition entry_bytes :: "stored_packet \<Rightarrow> byte list" where
  "entry_bytes e = header_bytes (header_of e) @ sp_raw e"

definition entry_size :: "stored_packet \<Rightarrow> nat" where
  "entry_size e = kStoredPacketOverhead + length (sp_raw e)"

definition entry_ok :: "stored_packet \<Rightarrow> bool" where
  "entry_ok e \<longleftrightarrow> length (sp_raw e) \<le> MESHPIGEON_MAX_RAW_PACKET \<and>
     sp_len e = of_nat (length (sp_raw e)) \<and> sp_seq e < 2 ^ 32"

definition total_size :: "stored_packet list \<Rightarrow> nat" where
  "total_size es = sum_list (map entry_size es)"

text \<open>The bytes from \<open>a\<close> up to \<open>b\<close> are the records \<open>es\<close>, end to end.\<close>

definition laid :: "byte list \<Rightarrow> nat \<Rightarrow> stored_packet list \<Rightarrow> nat \<Rightarrow> bool" where
  "laid buf a es b \<longleftrightarrow> a \<le> b \<and> b \<le> length buf \<and>
     take (b - a) (drop a buf) = concat (map entry_bytes es)"

lemma total_size_simps [simp]:
  "total_size [] = 0" "total_size (e # es) = entry_size e + total_size es"
  "total_size (es @ fs) = total_size es + total_size fs"
  by (simp_all add: total_size_def)

lemma length_header_bytes: "length (header_bytes h) = kStoredPacketOverhead"
  by (simp add: header_bytes_def length_put kStoredPacketOverhead_def)

lemma length_entry_bytes: "length (entry_bytes e) = entry_size e"
  by (simp add: entry_bytes_def length_header_bytes entry_size_def)

lemma length_entries: "length (concat (map entry_bytes es)) = total_size es"
  by (induction es) (simp_all add: length_entry_bytes)

lemma entry_ok_len: "entry_ok e \<Longrightarrow> unat (sp_len e) = length (sp_raw e)"
  by (simp add: entry_ok_def unat_of_nat_byte protocol_limits)

lemma entry_size_bounds: "0 < entry_size e" "entry_ok e \<Longrightarrow> entry_size e \<le> 271"
  by (simp_all add: entry_size_def entry_ok_def kStoredPacketOverhead_def protocol_limits)

lemma read_header_at:
  assumes "take (entry_size e) (drop off (ps_buf s)) = entry_bytes e" "entry_ok e"
  shows "read_header s off = header_of e"
    and "read_entry s off (header_of e) = e"
proof -
  let ?d = "drop off (ps_buf s)"
  have "take 16 ?d = take 16 (take (entry_size e) ?d)"
    by (simp add: entry_size_def kStoredPacketOverhead_def min_def)
  then have b: "take 16 ?d = header_bytes (header_of e)"
    using assms(1) length_header_bytes [of "header_of e"]
    by (simp add: entry_bytes_def kStoredPacketOverhead_def)
  have "get_u64 (take 8 (header_bytes (header_of e))) = sp_uptime_ms e"
    by (simp add: header_bytes_def length_put header_of_def get_put_u64)
  moreover have "get_u32 (header_bytes (header_of e) ! 8) (header_bytes (header_of e) ! 9)
      (header_bytes (header_of e) ! 10) (header_bytes (header_of e) ! 11) = of_nat (sp_seq e)"
    by (simp add: header_bytes_def length_put header_of_def nth_append put_u32_def get_put_u32)
  moreover have "unat (of_nat (sp_seq e) :: u32) = sp_seq e"
    using assms(2) by (simp add: entry_ok_def unat_of_nat)
  moreover have "header_bytes (header_of e) ! 12 = sp_rssi e" "header_bytes (header_of e) ! 13 = sp_snr e"
    "header_bytes (header_of e) ! 14 = sp_flags e" "header_bytes (header_of e) ! 15 = sp_len e"
    by (simp_all add: header_bytes_def length_put header_of_def nth_append)
  ultimately show "read_header s off = header_of e"
    by (simp add: read_header_def Let_def kStoredPacketOverhead_def b) (simp add: header_of_def)
  have "drop 16 (take (entry_size e) ?d) = sp_raw e"
    using assms(1) length_header_bytes [of "header_of e"]
    by (simp add: entry_bytes_def kStoredPacketOverhead_def)
  then have "take (length (sp_raw e)) (drop (off + 16) (ps_buf s)) = sp_raw e"
    by (simp add: entry_size_def kStoredPacketOverhead_def drop_take add.commute)
  then show "read_entry s off (header_of e) = e"
    using entry_ok_len [OF assms(2)] by (simp add: read_entry_def header_of_def kStoredPacketOverhead_def)
qed

lemma laid_Nil: "laid buf a [] b \<longleftrightarrow> a = b \<and> b \<le> length buf"
  by (auto simp: laid_def)

lemma laid_length: "laid buf a es b \<Longrightarrow> b = a + total_size es"
  unfolding laid_def
  by (metis (no_types, lifting) diff_le_mono le_add_diff_inverse length_drop length_entries length_take min.absorb2)

lemma laid_Cons:
  assumes "laid buf a (e # es) b"
  shows "take (entry_size e) (drop a buf) = entry_bytes e" "laid buf (a + entry_size e) es b"
proof -
  have b: "b = a + (entry_size e + total_size es)"
    using laid_length [OF assms] by simp
  have t: "take (entry_size e + total_size es) (drop a buf) = entry_bytes e @ concat (map entry_bytes es)"
    using assms b by (simp add: laid_def)
  have "take (entry_size e) (take (entry_size e + total_size es) (drop a buf)) = entry_bytes e"
    unfolding t by (simp add: length_entry_bytes)
  then show "take (entry_size e) (drop a buf) = entry_bytes e" by simp
  have "drop (entry_size e) (take (entry_size e + total_size es) (drop a buf)) = concat (map entry_bytes es)"
    unfolding t by (simp add: length_entry_bytes)
  then show "laid buf (a + entry_size e) es b"
    using assms b by (simp add: laid_def drop_take add.commute)
qed

lemma laid_snoc:
  assumes "laid buf a es b" "take (entry_size e) (drop b buf) = entry_bytes e" "b + entry_size e \<le> length buf"
  shows "laid buf a (es @ [e]) (b + entry_size e)"
proof -
  have ab: "a \<le> b" using assms(1) by (simp add: laid_def)
  then have len: "b + entry_size e - a = (b - a) + entry_size e" and "drop (b - a) (drop a buf) = drop b buf"
    by simp_all
  then have "take (b + entry_size e - a) (drop a buf)
      = take (b - a) (drop a buf) @ take (entry_size e) (drop b buf)"
    unfolding len take_add by simp
  then show ?thesis
    using assms ab by (simp add: laid_def)
qed

lemma length_write_at: "off + length bs \<le> length buf \<Longrightarrow> length (write_at buf off bs) = length buf"
  by (simp add: write_at_def)

lemma laid_write:
  assumes "laid buf a es b" "off + length bs \<le> length buf" "b \<le> off \<or> off + length bs \<le> a"
  shows "laid (write_at buf off bs) a es b"
proof -
  have ab: "a \<le> b" "b \<le> length buf" using assms(1) by (simp_all add: laid_def)
  have "take (b - a) (drop a (write_at buf off bs)) = take (b - a) (drop a buf)"
    using assms(3)
  proof
    assume "b \<le> off"
    then have "take (b - a) (drop a (write_at buf off bs)) = take (b - a) (drop a (take off buf))"
      using ab assms(2) by (simp add: write_at_def)
    also have "\<dots> = take (b - a) (drop a buf)"
      using \<open>b \<le> off\<close> ab by (simp add: drop_take min_def)
    finally show ?thesis .
  next
    assume "off + length bs \<le> a"
    then have "drop a (write_at buf off bs) = drop a buf"
      using assms(2) by (simp add: write_at_def)
    then show ?thesis by simp
  qed
  then show ?thesis
    using assms by (simp add: laid_def length_write_at)
qed

section \<open>The invariant\<close>

text \<open>
  \<open>ps_frame\<close>: bookkeeping; \<open>linear\<close>: the records lie in \<open>[head, tail)\<close>; \<open>wrapped\<close>: they lie in
  \<open>[head, wrap)\<close> and then \<open>[0, tail)\<close>, the bytes from \<open>wrap\<close> on being too few for a record.
  Inside \<open>append\<close> the offsets of an empty store are arbitrary (\<open>ps_core\<close>); between operations
  they are reset (\<open>ps_rel\<close>).
\<close>

definition ps_frame :: "packet_store \<Rightarrow> stored_packet list \<Rightarrow> bool" where
  "ps_frame s es \<longleftrightarrow> ps_capacity s = length (ps_buf s) \<and> ps_capacity s < 2 ^ 32 \<and>
     ps_dropped s < 2 ^ 32 \<and>
     list_all entry_ok es \<and> ps_count s = length es \<and> ps_head_seq s + length es = ps_next_seq s \<and>
     ps_next_seq s < 2 ^ 32 \<and> 0 < ps_head_seq s \<and> map sp_seq es = [ps_head_seq s..<ps_next_seq s]"

definition linear :: "packet_store \<Rightarrow> stored_packet list \<Rightarrow> bool" where
  "linear s es \<longleftrightarrow> ps_head_off s < ps_tail_off s \<and> ps_tail_off s < ps_wrap s \<and>
     ps_wrap s = ps_capacity s \<and> laid (ps_buf s) (ps_head_off s) es (ps_tail_off s)"

definition wrapped :: "packet_store \<Rightarrow> stored_packet list \<Rightarrow> bool" where
  "wrapped s es \<longleftrightarrow> ps_tail_off s \<le> ps_head_off s \<and> ps_head_off s < ps_wrap s \<and>
     ps_wrap s \<le> ps_capacity s \<and> ps_capacity s - ps_wrap s < 271 \<and>
     (\<exists>es1 es2. es = es1 @ es2 \<and> es1 \<noteq> [] \<and> laid (ps_buf s) (ps_head_off s) es1 (ps_wrap s) \<and>
        laid (ps_buf s) 0 es2 (ps_tail_off s))"

definition ps_core :: "packet_store \<Rightarrow> stored_packet list \<Rightarrow> bool" where
  "ps_core s es \<longleftrightarrow> ps_frame s es \<and> (es = [] \<or> linear s es \<or> wrapped s es)"

definition ps_rel :: "packet_store \<Rightarrow> stored_packet list \<Rightarrow> bool" where
  "ps_rel s es \<longleftrightarrow> ps_frame s es \<and>
     (es = [] \<and> ps_head_off s = 0 \<and> ps_tail_off s = 0 \<and> ps_wrap s = ps_capacity s \<or>
      es \<noteq> [] \<and> (linear s es \<or> wrapped s es))"

lemma ps_rel_core: "ps_rel s es \<Longrightarrow> ps_core s es"
  by (auto simp: ps_rel_def ps_core_def)

text \<open>The record at the head, and where the next one starts.\<close>

lemma head_entry:
  assumes "ps_core s (e # es)"
  shows "read_header s (ps_head_off s) = header_of e"
    and "read_entry s (ps_head_off s) (header_of e) = e"
    and "ps_head_off s + entry_size e \<le> ps_wrap s" "ps_wrap s \<le> ps_capacity s"
proof -
  have ok: "entry_ok e" using assms by (simp add: ps_core_def ps_frame_def)
  obtain es1 b where l: "laid (ps_buf s) (ps_head_off s) (e # es1) b" "b \<le> ps_wrap s"
      "ps_wrap s \<le> ps_capacity s"
  proof (cases "linear s (e # es)")
    case True
    then show ?thesis
      by (intro that [of es "ps_tail_off s"]) (simp_all add: linear_def)
  next
    case False
    then have "wrapped s (e # es)"
      using assms by (simp add: ps_core_def)
    then obtain es1 es2 where "e # es = es1 @ es2" "es1 \<noteq> []" "ps_wrap s \<le> ps_capacity s"
        "laid (ps_buf s) (ps_head_off s) es1 (ps_wrap s)"
      by (auto simp: wrapped_def)
    then show ?thesis
      by (cases es1) (auto intro: that [of "tl es1" "ps_wrap s"])
  qed
  show "read_header s (ps_head_off s) = header_of e" "read_entry s (ps_head_off s) (header_of e) = e"
    using read_header_at [OF laid_Cons(1) [OF l(1)] ok] by simp_all
  show "ps_head_off s + entry_size e \<le> ps_wrap s" "ps_wrap s \<le> ps_capacity s"
    using laid_length [OF l(1)] l(2,3) by simp_all
qed

lemma next_offset_entry:
  assumes "entry_ok e" "off + entry_size e \<le> ps_wrap s" "ps_wrap s < 2 ^ 32"
  shows "next_offset s off (sp_len e) =
    (if off + entry_size e = ps_wrap s then 0 else off + entry_size e)"
proof -
  have "add32 (add32 off kStoredPacketOverhead) (unat (sp_len e)) = off + entry_size e"
    using assms by (simp add: entry_ok_len entry_size_def add32_def)
  then show ?thesis
    using assms(2) by (simp add: next_offset_def)
qed

lemma pop_oldest_fields:
  assumes "ps_core s (e # es)"
  shows "pop_oldest s = s\<lparr>
    ps_head_off := (if ps_head_off s + entry_size e = ps_wrap s then 0 else ps_head_off s + entry_size e),
    ps_wrap := (if ps_head_off s + entry_size e = ps_wrap s then ps_capacity s else ps_wrap s),
    ps_count := length es, ps_head_seq := ps_head_seq s + 1, ps_dropped := add32 (ps_dropped s) 1\<rparr>"
proof -
  note h = head_entry [OF assms]
  have f: "entry_ok e" "ps_capacity s < 2 ^ 32" "ps_count s = Suc (length es)"
      "ps_head_seq s + Suc (length es) < 2 ^ 32"
    using assms by (auto simp: ps_core_def ps_frame_def)
  have "next_offset s (ps_head_off s) (sp_len e) =
    (if ps_head_off s + entry_size e = ps_wrap s then 0 else ps_head_off s + entry_size e)"
    using h f by (intro next_offset_entry) auto
  moreover have "sub32 (ps_count s) 1 = length es" "add32 (ps_head_seq s) 1 = ps_head_seq s + 1"
    using f by (simp_all add: wrap_simps)
  moreover have "0 < entry_size e" by (rule entry_size_bounds)
  ultimately show ?thesis
    using h(1) by (simp add: pop_oldest_def Let_def header_of_def)
qed

lemma map_seq_Cons: "map sp_seq (e # es) = [a..<b] \<Longrightarrow> map sp_seq es = [Suc a..<b]"
  by (cases "a < b") (auto simp: upt_conv_Cons)

lemma pop_oldest_frame:
  assumes "ps_core s (e # es)"
  shows "ps_frame (pop_oldest s) es"
  using assms map_seq_Cons [of e es]
  by (auto simp: pop_oldest_fields [OF assms] ps_core_def ps_frame_def add32_bound [simplified])

lemma pop_oldest_linear:
  assumes "ps_core s (e # es)" "linear s (e # es)"
  shows "es = [] \<or> linear (pop_oldest s) es" "ps_tail_off (pop_oldest s) = ps_tail_off s"
    "ps_wrap (pop_oldest s) = ps_wrap s"
proof -
  have l: "laid (ps_buf s) (ps_head_off s + entry_size e) es (ps_tail_off s)"
    and b: "ps_tail_off s = ps_head_off s + entry_size e + total_size es" and w: "ps_tail_off s < ps_wrap s"
    "ps_wrap s = ps_capacity s"
    using assms(2) laid_Cons(2) laid_length unfolding linear_def by fastforce+
  then show "ps_tail_off (pop_oldest s) = ps_tail_off s" "ps_wrap (pop_oldest s) = ps_wrap s"
    by (simp_all add: pop_oldest_fields [OF assms(1)])
  show "es = [] \<or> linear (pop_oldest s) es"
  proof (cases es)
    case (Cons f fs)
    then show ?thesis
      using l b w entry_size_bounds(1) [of f]
      by (auto simp: pop_oldest_fields [OF assms(1)] linear_def)
  qed simp
qed

lemma pop_oldest_core:
  assumes "ps_core s (e # es)"
  shows "ps_core (pop_oldest s) es"
proof (cases "linear s (e # es)")
  case True
  then show ?thesis
    using pop_oldest_linear(1) [OF assms] pop_oldest_frame [OF assms] by (auto simp: ps_core_def)
next
  case False
  then have "wrapped s (e # es)" using assms by (simp add: ps_core_def)
  then obtain es1 es2 where es: "e # es = es1 @ es2" "es1 \<noteq> []"
      and off: "ps_tail_off s \<le> ps_head_off s" "ps_head_off s < ps_wrap s" "ps_wrap s \<le> ps_capacity s"
        "ps_capacity s - ps_wrap s < 271"
      and l: "laid (ps_buf s) (ps_head_off s) es1 (ps_wrap s)" "laid (ps_buf s) 0 es2 (ps_tail_off s)"
    by (auto simp: wrapped_def)
  obtain fs where fs: "es1 = e # fs" "es = fs @ es2"
    using es by (cases es1) auto
  have r: "laid (ps_buf s) (ps_head_off s + entry_size e) fs (ps_wrap s)"
    using l(1) laid_Cons(2) unfolding fs by blast
  then have w: "ps_wrap s = ps_head_off s + entry_size e + total_size fs"
    by (rule laid_length)
  show ?thesis
  proof (cases fs)
    case Nil
    have "es2 = [] \<or> linear (pop_oldest s) es2"
    proof (cases es2)
      case (Cons g gs)
      then have "0 < ps_tail_off s"
        using laid_length [OF l(2)] entry_size_bounds(1) [of g] by simp
      then show ?thesis
        using Nil w off l(2) by (auto simp: pop_oldest_fields [OF assms] linear_def)
    qed simp
    then show ?thesis
      using pop_oldest_frame [OF assms] Nil fs by (auto simp: ps_core_def)
  next
    case (Cons g gs)
    then have lt: "ps_head_off s + entry_size e < ps_wrap s"
      using w entry_size_bounds(1) [of g] by simp
    have "\<exists>es1 es2. es = es1 @ es2 \<and> es1 \<noteq> [] \<and>
        laid (ps_buf s) (ps_head_off s + entry_size e) es1 (ps_wrap s) \<and> laid (ps_buf s) 0 es2 (ps_tail_off s)"
      using fs(2) Cons r l(2) by blast
    then have "wrapped (pop_oldest s) es"
      using lt off by (simp add: pop_oldest_fields [OF assms] wrapped_def)
    then show ?thesis
      using pop_oldest_frame [OF assms] by (simp add: ps_core_def)
  qed
qed

section \<open>Eviction\<close>

text \<open>
  One lemma for both loops: any \<open>Q\<close> that implies the invariant and that a pop preserves holds
  after the loop, of a suffix of the records, and held before the last pop with the loop
  condition true.
\<close>

definition evicted :: "(packet_store \<Rightarrow> stored_packet list \<Rightarrow> bool) \<Rightarrow> (packet_store \<Rightarrow> bool)
    \<Rightarrow> packet_store \<Rightarrow> stored_packet list \<Rightarrow> nat \<Rightarrow> packet_store \<Rightarrow> bool" where
  "evicted Q c s es k t \<longleftrightarrow> k \<le> length es \<and> Q t (drop k es) \<and> (drop k es = [] \<or> \<not> c t) \<and>
    (k = 0 \<or> (\<exists>s'. Q s' (drop (k - 1) es) \<and> c s' \<and> ps_capacity s' = ps_capacity s)) \<and>
    ps_capacity t = ps_capacity s \<and> ps_next_seq t = ps_next_seq s \<and>
    ps_dropped t = (ps_dropped s + k) mod 2 ^ 32"

lemma evict_while_suffix:
  assumes step: "\<And>s e es. Q s (e # es) \<Longrightarrow> Q (pop_oldest s) es"
    and core: "\<And>s es. Q s es \<Longrightarrow> ps_core s es"
    and "Q s es"
  shows "\<exists>k. evicted Q c s es k (evict_while c s)"
  using assms(3) unfolding evicted_def
proof (induction es arbitrary: s)
  case Nil
  then have "ps_frame s []" using core by (simp add: ps_core_def)
  then have "evict_while c s = s" "ps_dropped s < 2 ^ 32"
    by (simp_all add: ps_frame_def evict_while.simps)
  then show ?case using Nil by simp
next
  case (Cons e es)
  note co = core [OF Cons.prems]
  then have f: "ps_count s > 0" "ps_dropped s < 2 ^ 32"
    by (simp_all add: ps_core_def ps_frame_def)
  show ?case
  proof (cases "c s")
    case False
    then have "evict_while c s = s" by (simp add: evict_while.simps)
    then show ?thesis using False Cons.prems f by (intro exI [of _ 0]) simp
  next
    case True
    then have ev: "evict_while c s = evict_while c (pop_oldest s)"
      using f by (subst evict_while.simps) simp
    have fields: "ps_capacity (pop_oldest s) = ps_capacity s" "ps_next_seq (pop_oldest s) = ps_next_seq s"
        "ps_dropped (pop_oldest s) = (ps_dropped s + 1) mod 2 ^ 32"
      by (simp_all add: pop_oldest_fields [OF co] add32_def)
    obtain k where k: "k \<le> length es" "Q (evict_while c s) (drop k es)"
        "drop k es = [] \<or> \<not> c (evict_while c s)"
        "k = 0 \<or> (\<exists>s'. Q s' (drop (k - 1) es) \<and> c s' \<and> ps_capacity s' = ps_capacity s)"
        "ps_capacity (evict_while c s) = ps_capacity s" "ps_next_seq (evict_while c s) = ps_next_seq s"
        "ps_dropped (evict_while c s) = ((ps_dropped s + 1) mod 2 ^ 32 + k) mod 2 ^ 32"
      using Cons.IH [OF step [OF Cons.prems]] unfolding fields ev by blast
    have last: "\<exists>s'. Q s' (drop (Suc k - 1) (e # es)) \<and> c s' \<and> ps_capacity s' = ps_capacity s"
    proof (cases "k = 0")
      case True
      with \<open>c s\<close> Cons.prems show ?thesis by auto
    next
      case False
      with k(4) show ?thesis by (cases k) auto
    qed
    have "ps_dropped (evict_while c s) = (ps_dropped s + Suc k) mod 2 ^ 32"
      using k(7) by (simp add: mod_simps)
    then show ?thesis
      using k last by (intro exI [of _ "Suc k"]) simp
  qed
qed

lemma used_bytes:
  "linear s es \<Longrightarrow> ps_tail_off s = ps_head_off s + total_size es"
  "wrapped s es \<Longrightarrow> ps_wrap s + ps_tail_off s = ps_head_off s + total_size es"
  by (auto simp: linear_def wrapped_def dest!: laid_length)

lemma free_bytes_eq:
  assumes "ps_core s es" "es \<noteq> []"
  shows "linear s es \<Longrightarrow> free_bytes s + total_size es = ps_capacity s"
    and "wrapped s es \<Longrightarrow> free_bytes s + total_size es = ps_wrap s"
    and "ps_capacity s < free_bytes s + total_size es + 271"
proof -
  have f: "ps_count s \<noteq> 0" "ps_capacity s < 2 ^ 32"
    using assms by (auto simp: ps_core_def ps_frame_def)
  show l: "free_bytes s + total_size es = ps_capacity s" if "linear s es"
    using that f used_bytes(1) [OF that] unfolding linear_def
    by (simp add: free_bytes_def wrap_simps)
  show w: "free_bytes s + total_size es = ps_wrap s" if "wrapped s es"
    using that f used_bytes(2) [OF that] unfolding wrapped_def
    by (auto simp: free_bytes_def wrap_simps)
  show "ps_capacity s < free_bytes s + total_size es + 271"
  proof (cases "linear s es")
    case False
    then have "wrapped s es" using assms by (simp add: ps_core_def)
    moreover from this have "ps_wrap s \<le> ps_capacity s" "ps_capacity s - ps_wrap s < 271"
      by (simp_all add: wrapped_def)
    ultimately show ?thesis using w by linarith
  qed (use l in simp)
qed

text \<open>
  Making room: a suffix of the records survives, the new record fits at the tail, and a record
  was evicted only when the store was nearly full.
\<close>

definition room :: "nat \<Rightarrow> packet_store \<Rightarrow> stored_packet list \<Rightarrow> bool" where
  "room need s es \<longleftrightarrow> ps_frame s es \<and>
     (es = [] \<and> ps_head_off s = 0 \<and> ps_tail_off s = 0 \<and> ps_wrap s = ps_capacity s \<and> need \<le> ps_wrap s \<or>
      es \<noteq> [] \<and> linear s es \<and> ps_tail_off s + need \<le> ps_wrap s \<or>
      es \<noteq> [] \<and> wrapped s es \<and> ps_tail_off s + need \<le> ps_head_off s)"

lemma make_room_first_loop:
  assumes core: "ps_core s es" and need: "need \<le> 271"
  obtains k where "k \<le> length es" "ps_core (evict_while (\<lambda>s. free_bytes s < need) s) (drop k es)"
    "drop k es = [] \<or> need \<le> free_bytes (evict_while (\<lambda>s. free_bytes s < need) s)"
    "k = 0 \<or> ps_capacity s < total_size (drop (k - 1) es) + 542"
    "ps_capacity (evict_while (\<lambda>s. free_bytes s < need) s) = ps_capacity s"
    "ps_next_seq (evict_while (\<lambda>s. free_bytes s < need) s) = ps_next_seq s"
    "ps_dropped (evict_while (\<lambda>s. free_bytes s < need) s) = (ps_dropped s + k) mod 2 ^ 32"
proof -
  obtain k where k: "evicted ps_core (\<lambda>s. free_bytes s < need) s es k (evict_while (\<lambda>s. free_bytes s < need) s)"
    using evict_while_suffix [of ps_core s es "\<lambda>s. free_bytes s < need"] pop_oldest_core core by blast
  have "k = 0 \<or> ps_capacity s < total_size (drop (k - 1) es) + 542"
  proof (cases "k = 0")
    case False
    then obtain s' where s': "ps_core s' (drop (k - 1) es)" "free_bytes s' < need" "ps_capacity s' = ps_capacity s"
      using k by (auto simp: evicted_def)
    have "drop (k - 1) es \<noteq> []" using False k unfolding evicted_def by (simp, linarith)
    from free_bytes_eq(3) [OF s'(1) this] s' need show ?thesis by linarith
  qed simp
  with k show ?thesis
    by (intro that [of k]) (simp_all add: evicted_def not_less)
qed

definition linear_at :: "nat \<Rightarrow> nat \<Rightarrow> packet_store \<Rightarrow> stored_packet list \<Rightarrow> bool" where
  "linear_at t w s es \<longleftrightarrow> ps_core s es \<and> (es = [] \<or> linear s es) \<and> ps_tail_off s = t \<and> ps_wrap s = w"

lemma linear_at_pop: "linear_at t w s (e # es) \<Longrightarrow> linear_at t w (pop_oldest s) es"
  using pop_oldest_linear [of s e es] pop_oldest_core [of s e es] by (simp add: linear_at_def)

lemma linear_at_core: "linear_at t w s es \<Longrightarrow> ps_core s es"
  by (simp add: linear_at_def)

lemma make_room_second_loop:
  assumes core: "ps_core s es" and lin: "linear s es" and need: "need \<le> 271"
    and tight: "ps_wrap s - ps_tail_off s < need"
  obtains k where "k \<le> length es" "linear_at (ps_tail_off s) (ps_wrap s) (evict_while (\<lambda>s. ps_head_off s < need) s) (drop k es)"
    "drop k es = [] \<or> need \<le> ps_head_off (evict_while (\<lambda>s. ps_head_off s < need) s)"
    "k = 0 \<or> ps_capacity s < total_size (drop (k - 1) es) + 542"
    "ps_capacity (evict_while (\<lambda>s. ps_head_off s < need) s) = ps_capacity s"
    "ps_next_seq (evict_while (\<lambda>s. ps_head_off s < need) s) = ps_next_seq s"
    "ps_dropped (evict_while (\<lambda>s. ps_head_off s < need) s) = (ps_dropped s + k) mod 2 ^ 32"
proof -
  have "linear_at (ps_tail_off s) (ps_wrap s) s es"
    using core lin by (simp add: linear_at_def)
  then obtain k where k: "evicted (linear_at (ps_tail_off s) (ps_wrap s)) (\<lambda>s. ps_head_off s < need) s es k
      (evict_while (\<lambda>s. ps_head_off s < need) s)"
    using evict_while_suffix [of "linear_at (ps_tail_off s) (ps_wrap s)" s es "\<lambda>s. ps_head_off s < need"]
      linear_at_pop linear_at_core by blast
  have "k = 0 \<or> ps_capacity s < total_size (drop (k - 1) es) + 542"
  proof (cases "k = 0")
    case False
    then obtain s' where s': "linear_at (ps_tail_off s) (ps_wrap s) s' (drop (k - 1) es)"
        "ps_head_off s' < need"
      using k by (auto simp: evicted_def)
    have "drop (k - 1) es \<noteq> []" using False k unfolding evicted_def by (simp, linarith)
    then have l: "linear s' (drop (k - 1) es)" and t: "ps_tail_off s' = ps_tail_off s"
      using s' by (simp_all add: linear_at_def)
    have "ps_wrap s = ps_capacity s" "ps_tail_off s < ps_wrap s" using lin by (simp_all add: linear_def)
    with used_bytes(1) [OF l] s'(2) t need tight show ?thesis by linarith
  qed simp
  with k show ?thesis
    by (intro that [of k]) (simp_all add: evicted_def not_less)
qed

lemma room_reset:
  "ps_frame t [] \<Longrightarrow> need \<le> ps_capacity t \<Longrightarrow> room need (reset_offsets t) []"
  by (simp add: room_def reset_offsets_def ps_frame_def)

lemma room_wrap_tail:
  assumes l: "linear_at (ps_tail_off s) (ps_wrap s) t es" and es: "es \<noteq> []"
    and tight: "ps_wrap s - ps_tail_off s < need" "need \<le> 271" and head: "need \<le> ps_head_off t"
  shows "room need (t\<lparr>ps_wrap := ps_tail_off t, ps_tail_off := 0\<rparr>) es"
proof -
  have lin: "ps_head_off t < ps_tail_off t" "ps_tail_off t < ps_wrap t" "ps_wrap t = ps_capacity t"
      "laid (ps_buf t) (ps_head_off t) es (ps_tail_off t)"
      "ps_wrap t = ps_wrap s" "ps_tail_off t = ps_tail_off s"
    using l es by (auto simp: linear_at_def linear_def)
  have "ps_frame t es" using l by (simp add: linear_at_def ps_core_def)
  moreover have "\<exists>es1 es2. es = es1 @ es2 \<and> es1 \<noteq> [] \<and> laid (ps_buf t) (ps_head_off t) es1 (ps_tail_off t)
      \<and> laid (ps_buf t) 0 es2 0"
    using lin(4) es by (intro exI [of _ es] exI [of _ "[]"]) (simp add: laid_Nil)
  ultimately show ?thesis
    using lin es tight head by (simp add: room_def ps_frame_def wrapped_def)
qed

lemma room_cases:
  assumes core: "ps_core s es" "es \<noteq> []" and need: "0 < need" "need \<le> free_bytes s"
  obtains (gap) "wrapped s es" "ps_tail_off s + need \<le> ps_head_off s"
    | (fits) "linear s es" "ps_tail_off s + need \<le> ps_wrap s" "\<not> sub32 (ps_wrap s) (ps_tail_off s) < need"
    | (tight) "linear s es" "ps_wrap s - ps_tail_off s < need" "sub32 (ps_wrap s) (ps_tail_off s) < need"
proof (cases "linear s es")
  case True
  then have w: "ps_tail_off s < ps_wrap s" "ps_wrap s = ps_capacity s"
    by (simp_all add: linear_def)
  have "ps_capacity s < 2 ^ 32" using core by (simp add: ps_core_def ps_frame_def)
  then have "sub32 (ps_wrap s) (ps_tail_off s) = ps_wrap s - ps_tail_off s"
    using w by (intro sub32_small) simp_all
  with True w show ?thesis by (cases "ps_wrap s - ps_tail_off s < need") (auto intro: tight fits)
next
  case False
  then have w: "wrapped s es" using core by (simp add: ps_core_def)
  from free_bytes_eq(2) [OF core w] used_bytes(2) [OF w] need show ?thesis
    by (intro gap [OF w]) linarith
qed

lemma make_room_correct:
  assumes core: "ps_core s es" and need: "0 < need" "need \<le> 271" "need \<le> ps_capacity s"
  shows "\<exists>k \<le> length es. room need (make_room need s) (drop k es) \<and>
    (k = 0 \<or> ps_capacity s < total_size (drop (k - 1) es) + 542) \<and>
    ps_capacity (make_room need s) = ps_capacity s \<and> ps_next_seq (make_room need s) = ps_next_seq s \<and>
    ps_dropped (make_room need s) = (ps_dropped s + k) mod 2 ^ 32"
proof -
  define s1 where "s1 = evict_while (\<lambda>s. free_bytes s < need) s"
  obtain k where k: "k \<le> length es" "ps_core s1 (drop k es)"
      "drop k es = [] \<or> need \<le> free_bytes s1"
      "k = 0 \<or> ps_capacity s < total_size (drop (k - 1) es) + 542"
    and same: "ps_capacity s1 = ps_capacity s" "ps_next_seq s1 = ps_next_seq s"
      "ps_dropped s1 = (ps_dropped s + k) mod 2 ^ 32"
    unfolding s1_def by (rule make_room_first_loop [OF core need(2)])
  have frame: "ps_frame s1 (drop k es)" and count: "ps_count s1 = 0 \<longleftrightarrow> drop k es = []"
    using k(2) by (auto simp: ps_core_def ps_frame_def)
  note mr = make_room_def [of need s, folded s1_def, unfolded Let_def]
  show ?thesis
  proof (cases "drop k es = []")
    case True
    then have "make_room need s = reset_offsets s1" using count by (simp add: mr)
    then show ?thesis
      using True k(1,4) same frame room_reset [of s1 need] need(3)
      by (intro exI [of _ k]) (simp add: reset_offsets_def)
  next
    case ne: False
    with k(3) have free: "need \<le> free_bytes s1" by simp
    from k(2) ne need(1) free show ?thesis
    proof (cases rule: room_cases)
      case gap
      then have "make_room need s = s1" using count ne need(1) by (simp add: mr)
      then show ?thesis
        using gap ne k(1,4) same frame by (intro exI [of _ k]) (simp add: room_def)
    next
      case fits
      then have "make_room need s = s1" using count ne by (simp add: mr linear_def)
      then show ?thesis
        using fits ne k(1,4) same frame by (intro exI [of _ k]) (simp add: room_def)
    next
      case tight
      define s2 where "s2 = evict_while (\<lambda>s. ps_head_off s < need) s1"
      obtain j where j: "j \<le> length (drop k es)" "linear_at (ps_tail_off s1) (ps_wrap s1) s2 (drop j (drop k es))"
          "drop j (drop k es) = [] \<or> need \<le> ps_head_off s2"
          "j = 0 \<or> ps_capacity s1 < total_size (drop (j - 1) (drop k es)) + 542"
        and same2: "ps_capacity s2 = ps_capacity s1" "ps_next_seq s2 = ps_next_seq s1"
          "ps_dropped s2 = (ps_dropped s1 + j) mod 2 ^ 32"
        unfolding s2_def by (rule make_room_second_loop [OF k(2) tight(1) need(2) tight(2)])
      have full: "k + j = 0 \<or> ps_capacity s < total_size (drop (k + j - 1) es) + 542"
        using k(4) j(4) same(1) by (cases j) (simp_all add: add.commute)
      have drops: "drop j (drop k es) = drop (k + j) es" "k + j \<le> length es"
        "ps_dropped s2 = (ps_dropped s + (k + j)) mod 2 ^ 32"
        using k(1) j(1) same(3) same2(3) by (simp_all add: mod_simps add.commute add.left_commute)
      have fr2: "ps_frame s2 (drop (k + j) es)" and cnt2: "ps_count s2 = 0 \<longleftrightarrow> drop (k + j) es = []"
        using j(2) unfolding drops by (auto simp: linear_at_def ps_core_def ps_frame_def)
      have mr2: "make_room need s = (if ps_count s2 = 0 then reset_offsets s2
          else s2\<lparr>ps_wrap := ps_tail_off s2, ps_tail_off := 0\<rparr>)"
        using tight(1,3) ne count by (simp add: mr s2_def linear_def)
      have "room need (make_room need s) (drop (k + j) es)"
      proof (cases "drop (k + j) es = []")
        case True
        then show ?thesis
          using fr2 cnt2 same same2 need(3) room_reset [of s2 need] by (simp add: mr2)
      next
        case False
        then show ?thesis
          using j(2,3) cnt2 tight(2) need(2) room_wrap_tail [of s1 s2 "drop (k + j) es" need]
          unfolding drops by (simp add: mr2)
      qed
      moreover have "ps_capacity (make_room need s) = ps_capacity s" "ps_next_seq (make_room need s) = ps_next_seq s"
        "ps_dropped (make_room need s) = (ps_dropped s + (k + j)) mod 2 ^ 32"
        using same same2 drops(3) by (simp_all add: mr2 reset_offsets_def)
      ultimately show ?thesis
        using drops(2) full by blast
    qed
  qed
qed

section \<open>Appending\<close>

definition placed :: "stored_packet \<Rightarrow> packet_store \<Rightarrow> packet_store" where
  "placed e s = s\<lparr>ps_buf := write_at (ps_buf s) (ps_tail_off s) (entry_bytes e),
     ps_tail_off := (if ps_tail_off s + entry_size e \<ge> ps_wrap s then 0 else ps_tail_off s + entry_size e),
     ps_count := ps_count s + 1, ps_next_seq := ps_next_seq s + 1\<rparr>"

lemma write_at_append:
  assumes "off + length (a @ b) \<le> length buf"
  shows "write_at (write_at buf off a) (off + length a) b = write_at buf off (a @ b)"
  using assms by (cases a) (auto simp: write_at_def min_def add.assoc add.commute add.left_commute)

lemma read_written:
  "off + length bs \<le> length buf \<Longrightarrow> take (length bs) (drop off (write_at buf off bs)) = bs"
  by (simp add: write_at_def)

lemma placed_frame:
  assumes "ps_frame s es" "entry_ok e" "sp_seq e = ps_next_seq s" "ps_next_seq s + 1 < 2 ^ 32"
    and "ps_tail_off s + entry_size e \<le> ps_capacity s"
  shows "ps_frame (placed e s) (es @ [e])"
  using assms by (simp add: ps_frame_def placed_def length_write_at length_entry_bytes)

lemma laid_placed:
  assumes "laid buf a es b" "b + entry_size e \<le> length buf"
  shows "laid (write_at buf b (entry_bytes e)) a (es @ [e]) (b + entry_size e)"
proof (rule laid_snoc)
  show "laid (write_at buf b (entry_bytes e)) a es b"
    using assms by (intro laid_write) (simp_all add: length_entry_bytes)
  show "take (entry_size e) (drop b (write_at buf b (entry_bytes e))) = entry_bytes e"
    using read_written [of b "entry_bytes e" buf] assms(2) by (simp add: length_entry_bytes)
  show "b + entry_size e \<le> length (write_at buf b (entry_bytes e))"
    using assms(2) by (simp add: length_write_at length_entry_bytes)
qed

text \<open>A record that goes behind the last one of a linear layout, the empty one included.\<close>

lemma placed_linear:
  assumes l: "laid (ps_buf s) (ps_head_off s) es (ps_tail_off s)"
    and fit: "ps_tail_off s + entry_size e \<le> ps_wrap s" "ps_wrap s = ps_capacity s"
      "ps_capacity s = length (ps_buf s)"
  shows "linear (placed e s) (es @ [e]) \<or> wrapped (placed e s) (es @ [e])"
proof -
  have head: "ps_head_off s \<le> ps_tail_off s" using l by (simp add: laid_def)
  have new: "laid (write_at (ps_buf s) (ps_tail_off s) (entry_bytes e)) (ps_head_off s) (es @ [e])
      (ps_tail_off s + entry_size e)"
    using l fit by (intro laid_placed) simp_all
  note pos = entry_size_bounds(1) [of e]
  show ?thesis
  proof (cases "ps_tail_off s + entry_size e = ps_wrap s")
    case True
    have "\<exists>es1 es2. es @ [e] = es1 @ es2 \<and> es1 \<noteq> [] \<and>
        laid (write_at (ps_buf s) (ps_tail_off s) (entry_bytes e)) (ps_head_off s) es1 (ps_wrap s) \<and>
        laid (write_at (ps_buf s) (ps_tail_off s) (entry_bytes e)) 0 es2 0"
      using new True by (intro exI [of _ "es @ [e]"] exI [of _ "[]"]) (simp add: laid_Nil)
    then have "wrapped (placed e s) (es @ [e])"
      using True head pos fit by (simp add: wrapped_def placed_def)
    then show ?thesis ..
  next
    case False
    then show ?thesis
      using new head pos fit by (simp add: linear_def placed_def)
  qed
qed

lemma placed_wrapped:
  assumes w: "wrapped s es" and fit: "ps_tail_off s + entry_size e \<le> ps_head_off s"
    and len: "ps_capacity s = length (ps_buf s)"
  shows "wrapped (placed e s) (es @ [e])"
proof -
  obtain es1 es2 where es: "es = es1 @ es2" "es1 \<noteq> []"
      and off: "ps_tail_off s \<le> ps_head_off s" "ps_head_off s < ps_wrap s" "ps_wrap s \<le> ps_capacity s"
        "ps_capacity s - ps_wrap s < 271"
      and l: "laid (ps_buf s) (ps_head_off s) es1 (ps_wrap s)" "laid (ps_buf s) 0 es2 (ps_tail_off s)"
    using w by (auto simp: wrapped_def)
  have "laid (write_at (ps_buf s) (ps_tail_off s) (entry_bytes e)) (ps_head_off s) es1 (ps_wrap s)"
    using l(1) off fit len by (intro laid_write) (simp_all add: length_entry_bytes)
  moreover have "laid (write_at (ps_buf s) (ps_tail_off s) (entry_bytes e)) 0 (es2 @ [e])
      (ps_tail_off s + entry_size e)"
    using l(2) off fit len by (intro laid_placed) simp_all
  ultimately have "\<exists>fs1 fs2. es @ [e] = fs1 @ fs2 \<and> fs1 \<noteq> [] \<and>
      laid (write_at (ps_buf s) (ps_tail_off s) (entry_bytes e)) (ps_head_off s) fs1 (ps_wrap s) \<and>
      laid (write_at (ps_buf s) (ps_tail_off s) (entry_bytes e)) 0 fs2 (ps_tail_off s + entry_size e)"
    using es by (intro exI [of _ es1] exI [of _ "es2 @ [e]"]) simp
  then show ?thesis
    using off fit by (simp add: wrapped_def placed_def)
qed

lemma room_fits: "room n s es \<Longrightarrow> ps_tail_off s + n \<le> ps_capacity s"
  by (auto simp: room_def linear_def wrapped_def)

lemma placed_rel:
  assumes r: "room (entry_size e) s es" and e: "entry_ok e" "sp_seq e = ps_next_seq s" "ps_next_seq s + 1 < 2 ^ 32"
  shows "ps_rel (placed e s) (es @ [e])"
proof -
  have f: "ps_frame s es" and len: "ps_capacity s = length (ps_buf s)"
    using r by (auto simp: room_def ps_frame_def)
  have "linear (placed e s) (es @ [e]) \<or> wrapped (placed e s) (es @ [e])"
    using r unfolding room_def
  proof (elim conjE disjE)
    assume "es = []" "ps_head_off s = 0" "ps_tail_off s = 0" "ps_wrap s = ps_capacity s"
      "entry_size e \<le> ps_wrap s"
    then show ?thesis using len by (intro placed_linear) (simp_all add: laid_Nil)
  next
    assume "linear s es" "ps_tail_off s + entry_size e \<le> ps_wrap s"
    then show ?thesis using len by (intro placed_linear) (simp_all add: linear_def)
  next
    assume "wrapped s es" "ps_tail_off s + entry_size e \<le> ps_head_off s"
    then show ?thesis using len placed_wrapped by blast
  qed
  then show ?thesis
    using placed_frame [OF f e room_fits [OF r]] by (simp add: ps_rel_def)
qed

text \<open>The record \<open>append\<close> stores, and what it does when the packet can be stored at all.\<close>

definition new_entry :: "u64 \<Rightarrow> byte \<Rightarrow> byte \<Rightarrow> byte \<Rightarrow> byte list \<Rightarrow> nat \<Rightarrow> stored_packet" where
  "new_entry uptime_ms rssi snr flags raw seq = \<lparr>sp_seq = seq, sp_uptime_ms = uptime_ms, sp_rssi = rssi,
     sp_snr = snr, sp_flags = flags, sp_len = of_nat (length raw), sp_raw = raw\<rparr>"

lemma append_placed:
  assumes r: "room (entry_size e) (make_room (entry_size e) s) es" and e: "entry_ok e"
    and q: "ps_next_seq (make_room (entry_size e) s) = q" and new: "e = new_entry uptime_ms rssi snr flags raw q"
    and cap: "0 < ps_capacity s" "entry_size e \<le> ps_capacity s"
    and seq: "q + 1 < 2 ^ 32"
  shows "ps_append uptime_ms rssi snr flags raw s =
    (placed e (make_room (entry_size e) s), q, Some e)"
proof -
  define m where "m = make_room (entry_size e) s"
  define b where "b = write_at (ps_buf m) (ps_tail_off m) (entry_bytes e)"
  have rm: "room (entry_size e) m es" and f: "ps_frame m es"
    using r by (simp_all add: m_def room_def)
  have raw: "sp_raw e = raw" by (simp add: new new_entry_def)
  have len: "length raw \<le> 255"
    using e raw by (simp add: entry_ok_def protocol_limits)
  have q: "ps_next_seq m = q" using q by (simp add: m_def)
  have fit: "ps_tail_off m + entry_size e \<le> length (ps_buf m)" and cap32: "length (ps_buf m) < 2 ^ 32"
      and cnt: "ps_count m < 2 ^ 32 - 1"
    using room_fits [OF rm] f seq q by (auto simp: ps_frame_def)
  have need: "add32 kStoredPacketOverhead (unat (of_nat (length raw) :: byte)) = entry_size e"
    using len by (simp add: entry_size_def raw unat_of_nat_byte add32_def kStoredPacketOverhead_def)
  have hdr: "\<lparr>h_uptime_ms = uptime_ms, h_seq = ps_next_seq m, h_rssi = rssi, h_snr = snr,
      h_flags = flags, h_len = of_nat (length raw)\<rparr> = header_of e"
    unfolding q by (simp add: header_of_def new new_entry_def)
  have buf: "write_at (write_at (ps_buf m) (ps_tail_off m) (header_bytes (header_of e)))
      (ps_tail_off m + kStoredPacketOverhead) raw = b"
    using write_at_append [of "ps_tail_off m" "header_bytes (header_of e)" raw "ps_buf m"] fit
    by (simp add: b_def entry_bytes_def raw length_header_bytes entry_size_def)
  have out: "read_entry (m\<lparr>ps_buf := b\<rparr>) (ps_tail_off m) (header_of e) = e"
    using read_written [of "ps_tail_off m" "entry_bytes e" "ps_buf m"] fit e
    by (intro read_header_at) (simp_all add: b_def length_entry_bytes)
  have sums: "add32 (ps_tail_off m) (entry_size e) = ps_tail_off m + entry_size e"
    "add32 (ps_count m) 1 = ps_count m + 1" "add32 (ps_next_seq m) 1 = ps_next_seq m + 1"
    using fit cap32 cnt seq q by (simp_all add: wrap_simps)
  have "\<not> (ps_capacity s = 0 \<or> entry_size e > ps_capacity s)"
    using cap by simp
  then show ?thesis
    unfolding ps_append_def Let_def need m_def [symmetric] write_header_def
    by (simp add: hdr buf out sums [unfolded One_nat_def] placed_def b_def [symmetric] q [symmetric])
qed

lemma append_stored:
  fixes uptime_ms :: u64 and rssi snr flags :: byte
  assumes rel: "ps_rel s es" and raw: "length raw \<le> MESHPIGEON_MAX_RAW_PACKET"
    and fits: "kStoredPacketOverhead + length raw \<le> ps_capacity s" and seq: "ps_next_seq s + 1 < 2 ^ 32"
  defines "e \<equiv> new_entry uptime_ms rssi snr flags raw (ps_next_seq s)"
  shows "\<exists>k \<le> length es. ps_append uptime_ms rssi snr flags raw s
       = (fst (ps_append uptime_ms rssi snr flags raw s), ps_next_seq s, Some e) \<and>
    ps_rel (fst (ps_append uptime_ms rssi snr flags raw s)) (drop k es @ [e]) \<and>
    (k = 0 \<or> ps_capacity s < total_size (drop (k - 1) es) + 542) \<and>
    ps_capacity (fst (ps_append uptime_ms rssi snr flags raw s)) = ps_capacity s \<and>
    ps_dropped (fst (ps_append uptime_ms rssi snr flags raw s)) = (ps_dropped s + k) mod 2 ^ 32"
proof -
  have size: "entry_size e = kStoredPacketOverhead + length raw"
    by (simp add: e_def new_entry_def entry_size_def)
  have ok: "entry_ok e" "sp_seq e = ps_next_seq s"
    using raw seq by (simp_all add: e_def new_entry_def entry_ok_def)
  let ?m = "make_room (entry_size e) s"
  obtain k where k: "k \<le> length es" "room (entry_size e) ?m (drop k es)"
      "k = 0 \<or> ps_capacity s < total_size (drop (k - 1) es) + 542"
      "ps_capacity ?m = ps_capacity s" "ps_next_seq ?m = ps_next_seq s"
      "ps_dropped ?m = (ps_dropped s + k) mod 2 ^ 32"
    using make_room_correct [OF ps_rel_core [OF rel] entry_size_bounds(1) entry_size_bounds(2) [OF ok(1)]]
      fits size by auto
  have cap: "0 < ps_capacity s" "entry_size e \<le> ps_capacity s"
    using fits size by (simp_all add: kStoredPacketOverhead_def)
  have ap: "ps_append uptime_ms rssi snr flags raw s = (placed e ?m, ps_next_seq s, Some e)"
    using append_placed [OF k(2) ok(1) k(5) _ cap seq] by (simp add: e_def)
  moreover have "ps_rel (placed e ?m) (drop k es @ [e])"
    using k(2,5) ok seq by (intro placed_rel) simp_all
  moreover have "ps_capacity (placed e ?m) = ps_capacity s" "ps_dropped (placed e ?m) = (ps_dropped s + k) mod 2 ^ 32"
    using k by (simp_all add: placed_def)
  ultimately show ?thesis
    using k(1,3) by (intro exI [of _ k]) (simp only: fst_conv simp_thms)
qed

lemma append_refused:
  assumes "length raw \<le> MESHPIGEON_MAX_RAW_PACKET" "ps_capacity s < kStoredPacketOverhead + length raw"
  shows "ps_append uptime_ms rssi snr flags raw s = (s\<lparr>ps_dropped := add32 (ps_dropped s) 1\<rparr>, 0, None)"
  using assms by (simp add: ps_append_def Let_def protocol_limits unat_of_nat_byte add32_def kStoredPacketOverhead_def)

section \<open>Walking the ring\<close>

text \<open>The offsets of the records, oldest first, as every walk of the code steps through them.\<close>

fun walk :: "packet_store \<Rightarrow> nat \<Rightarrow> stored_packet list \<Rightarrow> bool" where
  "walk s off [] \<longleftrightarrow> True"
| "walk s off (e # es) \<longleftrightarrow> read_header s off = header_of e \<and> read_entry s off (header_of e) = e \<and>
     walk s (next_offset s off (sp_len e)) es"

lemma walk_laid:
  assumes "laid (ps_buf s) a es b" "list_all entry_ok es" "b < ps_wrap s" "ps_wrap s < 2 ^ 32"
  shows "walk s a es"
  using assms
proof (induction es arbitrary: a)
  case (Cons e es)
  have bd: "a + entry_size e \<le> b"
    using laid_length [OF Cons.prems(1)] by simp
  then have "next_offset s a (sp_len e) = a + entry_size e"
    using Cons.prems by (simp add: next_offset_entry)
  then show ?case
    using Cons.IH [OF laid_Cons(2) [OF Cons.prems(1)]] Cons.prems
      read_header_at [OF laid_Cons(1) [OF Cons.prems(1)]] by simp
qed simp

lemma walk_wrapped:
  assumes "laid (ps_buf s) a es1 (ps_wrap s)" "list_all entry_ok (es1 @ es2)" "es1 \<noteq> []"
    and "laid (ps_buf s) 0 es2 b" "b < ps_wrap s" "ps_wrap s < 2 ^ 32"
  shows "walk s a (es1 @ es2)"
  using assms
proof (induction es1 arbitrary: a)
  case (Cons e es1)
  have w: "ps_wrap s = a + entry_size e + total_size es1"
    using laid_length [OF Cons.prems(1)] by simp
  have nxt: "next_offset s a (sp_len e) = (if es1 = [] then 0 else a + entry_size e)"
  proof (cases es1)
    case (Cons f fs)
    then show ?thesis
      using w entry_size_bounds(1) [of f] \<open>list_all entry_ok ((e # es1) @ es2)\<close> \<open>ps_wrap s < 2 ^ 32\<close>
      by (simp add: next_offset_entry)
  qed (use w Cons.prems in \<open>simp add: next_offset_entry\<close>)
  have "walk s (next_offset s a (sp_len e)) (es1 @ es2)"
  proof (cases "es1 = []")
    case True
    then show ?thesis
      using nxt walk_laid [OF Cons.prems(4)] Cons.prems by simp
  next
    case False
    then show ?thesis
      using nxt Cons.IH [OF laid_Cons(2) [OF Cons.prems(1)]] Cons.prems by simp
  qed
  then show ?case
    using Cons.prems read_header_at [OF laid_Cons(1) [OF Cons.prems(1)]] by simp
qed simp

lemma ps_rel_walk:
  assumes "ps_rel s es"
  shows "walk s (ps_head_off s) es"
proof -
  have f: "list_all entry_ok es" "ps_capacity s < 2 ^ 32"
    using assms by (simp_all add: ps_rel_def ps_frame_def)
  consider "es = []" | "linear s es" | "wrapped s es"
    using assms by (auto simp: ps_rel_def)
  then show ?thesis
  proof cases
    case 2
    then show ?thesis using f by (intro walk_laid) (auto simp: linear_def)
  next
    case 3
    then obtain es1 es2 where "es = es1 @ es2" "es1 \<noteq> []" "laid (ps_buf s) (ps_head_off s) es1 (ps_wrap s)"
        "laid (ps_buf s) 0 es2 (ps_tail_off s)" "ps_tail_off s < ps_wrap s" "ps_wrap s < 2 ^ 32"
      using f by (auto simp: wrapped_def)
    with f show ?thesis using walk_wrapped [of s _ es1 es2] by simp
  qed simp
qed

lemma walk_skip:
  "walk s off es \<Longrightarrow> i \<le> length es \<Longrightarrow> walk s (skip_entries s i off) (drop i es)"
proof (induction i arbitrary: off es)
  case (Suc i)
  then show ?case by (cases es) (auto simp: header_of_def)
qed simp

text \<open>The retained packets, as a walk from the head reads them.\<close>

fun entries_from :: "packet_store \<Rightarrow> nat \<Rightarrow> nat \<Rightarrow> stored_packet list" where
  "entries_from s 0 off = []"
| "entries_from s (Suc i) off =
     (let h = read_header s off in read_entry s off h # entries_from s i (next_offset s off (h_len h)))"

definition ps_entries :: "packet_store \<Rightarrow> stored_packet list" where
  "ps_entries s = entries_from s (ps_count s) (ps_head_off s)"

lemma walk_entries: "walk s off es \<Longrightarrow> entries_from s (length es) off = es"
  by (induction es arbitrary: off) (simp_all add: Let_def header_of_def)

lemma ps_rel_entries: "ps_rel s es \<Longrightarrow> ps_entries s = es"
  using walk_entries [OF ps_rel_walk] by (simp add: ps_entries_def ps_rel_def ps_frame_def)

definition ps_inv :: "packet_store \<Rightarrow> bool" where
  "ps_inv s \<longleftrightarrow> ps_rel s (ps_entries s)"

lemma ps_rel_iff: "ps_rel s es \<longleftrightarrow> ps_inv s \<and> ps_entries s = es"
  using ps_rel_entries by (auto simp: ps_inv_def)

section \<open>What the queries return\<close>

lemma ps_inv_facts:
  assumes "ps_inv s"
  shows "ps_count s = length (ps_entries s)" "ps_head_seq s + length (ps_entries s) = ps_next_seq s"
    "ps_next_seq s < 2 ^ 32" "map sp_seq (ps_entries s) = [ps_head_seq s..<ps_next_seq s]"
    "walk s (ps_head_off s) (ps_entries s)" "0 < ps_head_seq s" "list_all entry_ok (ps_entries s)"
  using assms ps_rel_walk [OF assms [unfolded ps_inv_def]]
  by (auto simp: ps_inv_def ps_rel_def ps_frame_def)

lemma nth_seq:
  assumes "map sp_seq es = [a..<b]" "i < length es"
  shows "sp_seq (es ! i) = a + i"
proof -
  have "length es = b - a" using arg_cong [OF assms(1), of length] by simp
  then show ?thesis
    using arg_cong [OF assms(1), of "\<lambda>xs. xs ! i"] assms(2) by simp
qed

lemma find_seq:
  assumes "map sp_seq es = [a..<b]"
  shows "find (\<lambda>e. sp_seq e = q) es = (if a \<le> q \<and> q < b then Some (es ! (q - a)) else None)"
proof -
  have len: "length es = b - a" using arg_cong [OF assms, of length] by simp
  show ?thesis
  proof (cases "a \<le> q \<and> q < b")
    case True
    then have i: "q - a < length es" using len by linarith
    have "sp_seq (es ! (q - a)) = q" using nth_seq [OF assms i] True by simp
    moreover have "sp_seq (es ! j) \<noteq> q" if "j < q - a" for j
      using nth_seq [OF assms, of j] that i by simp
    ultimately show ?thesis
      using True i by (auto simp: find_Some_iff intro!: exI [of _ "q - a"])
  next
    case False
    have "sp_seq e \<in> set [a..<b]" if "e \<in> set es" for e
      using that assms by (metis image_eqI list.set_map)
    then show ?thesis using False by (auto simp: find_None_iff)
  qed
qed

lemma get_find:
  assumes "ps_inv s"
  shows "ps_get s seq = find (\<lambda>e. sp_seq e = seq) (ps_entries s)"
proof -
  note f = ps_inv_facts [OF assms]
  show ?thesis
  proof (cases "ps_head_seq s \<le> seq \<and> seq < ps_next_seq s")
    case False
    then show ?thesis
      using find_seq [OF f(4), of seq] by (auto simp: ps_get_def)
  next
    case True
    let ?i = "seq - ps_head_seq s"
    have i: "?i < length (ps_entries s)" using True f(2) by linarith
    have sub: "sub32 seq (ps_head_seq s) = ?i"
      using True f(3) by (intro sub32_small) simp_all
    have "walk s (skip_entries s ?i (ps_head_off s)) (drop ?i (ps_entries s))"
      using walk_skip [OF f(5)] i by simp
    moreover have "drop ?i (ps_entries s) = ps_entries s ! ?i # drop (Suc ?i) (ps_entries s)"
      using i by (rule Cons_nth_drop_Suc [symmetric])
    ultimately have h: "read_header s (skip_entries s ?i (ps_head_off s)) = header_of (ps_entries s ! ?i)"
        "read_entry s (skip_entries s ?i (ps_head_off s)) (header_of (ps_entries s ! ?i)) = ps_entries s ! ?i"
      by simp_all
    have "h_seq (header_of (ps_entries s ! ?i)) = seq"
      using nth_seq [OF f(4) i] True by (simp add: header_of_def)
    moreover have "\<not> (ps_count s = 0 \<or> seq < ps_head_seq s \<or> seq \<ge> ps_next_seq s)"
      using True i f(1) by auto
    ultimately have "ps_get s seq = Some (ps_entries s ! ?i)"
      unfolding ps_get_def Let_def sub h by simp
    then show ?thesis
      using find_seq [OF f(4), of seq] True by simp
  qed
qed

lemma count_since_filter:
  assumes "ps_inv s" "since_seq < 2 ^ 32 - 1"
  shows "count_since s since_seq = length (filter (\<lambda>e. since_seq < sp_seq e) (ps_entries s))"
proof -
  note f = ps_inv_facts [OF assms(1)]
  have "length (filter (\<lambda>e. since_seq < sp_seq e) (ps_entries s))
      = length (filter (\<lambda>q. since_seq < q) [ps_head_seq s..<ps_next_seq s])"
    unfolding f(4) [symmetric] filter_map by (simp add: o_def)
  also have "\<dots> = card {q. since_seq < q \<and> ps_head_seq s \<le> q \<and> q < ps_next_seq s}"
    by (simp add: distinct_card [symmetric] distinct_filter) (rule arg_cong [of _ _ card], auto)
  also have "{q. since_seq < q \<and> ps_head_seq s \<le> q \<and> q < ps_next_seq s}
      = {max (Suc since_seq) (ps_head_seq s)..<ps_next_seq s}"
    by auto
  also have "card \<dots> = ps_next_seq s - max (Suc since_seq) (ps_head_seq s)"
    by simp
  finally show ?thesis
    using f(1-3) assms(2) by (auto simp: count_since_def Let_def wrap_simps max_def add32_def)
qed

text \<open>What a callback sees: up to \<open>m\<close> packets, until it says stop.\<close>

fun deliver :: "('a \<Rightarrow> stored_packet \<Rightarrow> 'a \<times> bool) \<Rightarrow> nat \<Rightarrow> stored_packet list \<Rightarrow> 'a \<Rightarrow> nat \<times> 'a" where
  "deliver cb 0 es a = (0, a)"
| "deliver cb (Suc m) [] a = (0, a)"
| "deliver cb (Suc m) (e # es) a =
     (case cb a e of (a', ok) \<Rightarrow>
        if ok then (Suc (fst (deliver cb m es a')), snd (deliver cb m es a')) else (0, a'))"

lemma deliver_Nil [simp]: "deliver cb m [] a = (0, a)"
  by (cases m) simp_all

lemma fetch_loop_deliver:
  assumes "walk s off es" "d \<le> max_count" "d + length es < 2 ^ 32"
  shows "fetch_loop s since_seq max_count cb (length es) off d a =
    (d + fst (deliver cb (max_count - d) (filter (\<lambda>e. since_seq < sp_seq e) es) a),
     snd (deliver cb (max_count - d) (filter (\<lambda>e. since_seq < sp_seq e) es) a))"
  using assms
proof (induction es arbitrary: off d a)
  case (Cons e es)
  show ?case
  proof (cases "d < max_count")
    case True
    then obtain m where m: "max_count - d = Suc m" "max_count - Suc d = m"
      by (metis Suc_diff_Suc)
    have d: "add32 d 1 = Suc d" using Cons.prems(3) by (simp add: add32_def)
    show ?thesis
    proof (cases "since_seq < sp_seq e")
      case since: True
      obtain a' ok where cb: "cb a e = (a', ok)" by (cases "cb a e")
      have "fetch_loop s since_seq max_count cb (length es) (next_offset s off (sp_len e)) (Suc d) a' =
          (Suc d + fst (deliver cb (max_count - Suc d) (filter (\<lambda>e. since_seq < sp_seq e) es) a'),
           snd (deliver cb (max_count - Suc d) (filter (\<lambda>e. since_seq < sp_seq e) es) a'))"
        using Cons.prems True by (intro Cons.IH) simp_all
      then show ?thesis
        using True since m cb d [unfolded One_nat_def] Cons.prems(1)
        by (simp add: Let_def header_of_def)
    next
      case False
      have "fetch_loop s since_seq max_count cb (length es) (next_offset s off (sp_len e)) d a =
          (d + fst (deliver cb (max_count - d) (filter (\<lambda>e. since_seq < sp_seq e) es) a),
           snd (deliver cb (max_count - d) (filter (\<lambda>e. since_seq < sp_seq e) es) a))"
        using Cons.prems by (intro Cons.IH) simp_all
      then show ?thesis
        using True False Cons.prems(1) by (simp add: Let_def header_of_def)
    qed
  next
    case False
    then show ?thesis using Cons.prems by simp
  qed
qed simp

lemma fetch_since_deliver:
  assumes "ps_inv s"
  shows "fetch_since s since_seq max_count cb a =
    deliver cb max_count (filter (\<lambda>e. since_seq < sp_seq e) (ps_entries s)) a"
  using ps_inv_facts [OF assms] fetch_loop_deliver [of s "ps_head_off s" "ps_entries s" 0 max_count since_seq cb a]
  by (simp add: fetch_since_def)

lemma deliver_all:
  assumes "\<And>a e. cb a e = (f a e, True)"
  shows "deliver cb m es a = (min m (length es), foldl f a (take m es))"
  using assms by (induction m arbitrary: es a) (case_tac es; simp)+

section \<open>The store as its client sees it\<close>

text \<open>
  The interface the command processor relies on: a well-formed store holds a run of consecutive
  sequence numbers, a fetch returns the oldest packets above the cursor, and every operation
  that changes the store keeps a suffix of what was there and may add packets behind it.
\<close>

locale packet_log =
  fixes inv :: "'s \<Rightarrow> bool"
    and entries :: "'s \<Rightarrow> stored_packet list"
    and fetch :: "'s \<Rightarrow> nat \<Rightarrow> nat \<Rightarrow> stored_packet list"
  assumes contiguous: "inv s \<Longrightarrow> \<exists>a b. map sp_seq (entries s) = [a..<b]"
    and fetch_oldest: "inv s \<Longrightarrow> fetch s c m = take m (filter (\<lambda>e. c < sp_seq e) (entries s))"
begin

text \<open>
  A client that pages through the history: it asks each of the stores \<open>ss\<close> (the store may change
  between two pages) for a page of at most \<open>m\<close> packets above the last sequence number it saw.
\<close>

fun paging :: "nat \<Rightarrow> nat \<Rightarrow> 's list \<Rightarrow> stored_packet list" where
  "paging m c [] = []"
| "paging m c (s # ss) =
     (let page = fetch s c m
      in page @ paging m (if page = [] then c else sp_seq (last page)) ss)"

lemma entries_increasing: "inv s \<Longrightarrow> sorted_wrt (<) (map sp_seq (entries s))"
  using contiguous [of s] by auto

lemma page_increasing:
  assumes "inv s"
  shows "sorted_wrt (<) (map sp_seq (fetch s c m))" "\<forall>e \<in> set (fetch s c m). c < sp_seq e"
proof -
  have "sorted_wrt (\<lambda>x y. sp_seq x < sp_seq y) (entries s)"
    using entries_increasing [OF assms] by (simp add: sorted_wrt_map)
  then show "sorted_wrt (<) (map sp_seq (fetch s c m))"
    unfolding fetch_oldest [OF assms] sorted_wrt_map by (intro sorted_wrt_take sorted_wrt_filter)
  show "\<forall>e \<in> set (fetch s c m). c < sp_seq e"
    unfolding fetch_oldest [OF assms] by (auto dest: in_set_takeD)
qed

lemma paging_no_duplicates:
  assumes "\<forall>s \<in> set ss. inv s"
  shows "sorted_wrt (<) (map sp_seq (paging m c ss)) \<and> (\<forall>e \<in> set (paging m c ss). c < sp_seq e)"
  using assms
proof (induction ss arbitrary: c)
  case (Cons s ss)
  define page where "page = fetch s c m"
  define c' where "c' = (if page = [] then c else sp_seq (last page))"
  have inc: "sorted_wrt (<) (map sp_seq page)" "\<forall>e \<in> set page. c < sp_seq e"
    using page_increasing [of s c m] Cons.prems by (simp_all add: page_def)
  have top: "sp_seq e \<le> c'" if "e \<in> set page" for e
  proof -
    obtain i where i: "i < length page" "e = page ! i" using \<open>e \<in> set page\<close> by (auto simp: in_set_conv_nth)
    have "sp_seq (page ! i) < sp_seq (page ! (length page - 1))" if "i < length page - 1"
      using inc(1) that by (simp add: sorted_wrt_iff_nth_less)
    moreover have "i = length page - 1 \<or> i < length page - 1" "page \<noteq> []" using i by auto
    ultimately show ?thesis
      using i by (auto simp: c'_def last_conv_nth less_imp_le)
  qed
  have cc: "c \<le> c'"
    using inc(2) by (auto simp: c'_def intro: less_imp_le)
  have rest: "sorted_wrt (<) (map sp_seq (paging m c' ss))" "\<forall>e \<in> set (paging m c' ss). c' < sp_seq e"
    using Cons.IH [of c'] Cons.prems by simp_all
  have "paging m c (s # ss) = page @ paging m c' ss"
    by (simp add: page_def c'_def Let_def)
  then show ?case
    using inc rest top cc by (auto simp: sorted_wrt_append) (meson le_less_trans)
qed simp

lemma paging_complete:
  assumes "inv s" "0 < m" "length (filter (\<lambda>e. c < sp_seq e) (entries s)) \<le> n * m"
  shows "paging m c (replicate n s) = filter (\<lambda>e. c < sp_seq e) (entries s)"
  using assms(3)
proof (induction n arbitrary: c)
  case (Suc n)
  let ?F = "filter (\<lambda>e. c < sp_seq e) (entries s)"
  have page: "fetch s c m = take m ?F" by (rule fetch_oldest [OF assms(1)])
  have inc: "sorted_wrt (\<lambda>x y. sp_seq x < sp_seq y) ?F"
    using entries_increasing [OF assms(1)] by (simp add: sorted_wrt_map sorted_wrt_filter)
  show ?case
  proof (cases "?F = []")
    case True
    have "paging m c (replicate k s) = []" for k
      using True page by (induction k) (simp_all add: Let_def)
    then show ?thesis using True by metis
  next
    case False
    then have ne: "take m ?F \<noteq> []" using assms(2) by simp
    let ?c = "sp_seq (last (take m ?F))"
    have split: "?F = take m ?F @ drop m ?F" by simp
    have low: "sp_seq e \<le> ?c" if "e \<in> set (take m ?F)" for e
    proof -
      have "sorted_wrt (\<lambda>x y. sp_seq x < sp_seq y) (butlast (take m ?F) @ [last (take m ?F)])"
        using ne inc by (simp add: sorted_wrt_take)
      moreover have "e \<in> set (butlast (take m ?F) @ [last (take m ?F)])"
        using ne that by simp
      ultimately show ?thesis by (auto simp: sorted_wrt_append)
    qed
    have high: "?c < sp_seq e" if "e \<in> set (drop m ?F)" for e
      using inc that ne last_in_set [OF ne] split sorted_wrt_append by (metis (no_types, lifting))
    have "c < ?c" using last_in_set [OF ne] by (auto dest: in_set_takeD)
    then have "filter (\<lambda>e. ?c < sp_seq e) (entries s) = filter (\<lambda>e. ?c < sp_seq e) ?F"
      by (auto intro: filter_cong)
    also have "\<dots> = filter (\<lambda>e. ?c < sp_seq e) (take m ?F) @ filter (\<lambda>e. ?c < sp_seq e) (drop m ?F)"
      unfolding filter_append [symmetric] append_take_drop_id ..
    also have "\<dots> = drop m ?F"
      using low high by (auto simp: filter_empty_conv not_less intro!: filter_True)
    finally have rest: "filter (\<lambda>e. ?c < sp_seq e) (entries s) = drop m ?F" .
    have "paging m ?c (replicate n s) = drop m ?F"
      using Suc.IH [of ?c] Suc.prems unfolding rest by simp
    then show ?thesis
      using ne page split by (simp add: Let_def)
  qed
qed simp

end

definition ps_fetch :: "packet_store \<Rightarrow> nat \<Rightarrow> nat \<Rightarrow> stored_packet list" where
  "ps_fetch s since_seq m = snd (fetch_since s since_seq m (\<lambda>got e. (got @ [e], True)) [])"

lemma foldl_snoc: "foldl (\<lambda>xs x. xs @ [x]) acc ys = acc @ ys"
  by (induction ys arbitrary: acc) simp_all

lemma ps_fetch_filter:
  "ps_inv s \<Longrightarrow> ps_fetch s c m = take m (filter (\<lambda>e. c < sp_seq e) (ps_entries s))"
  by (simp add: ps_fetch_def fetch_since_deliver deliver_all [of _ "\<lambda>got e. got @ [e]"] foldl_snoc)

interpretation pl: packet_log ps_inv ps_entries ps_fetch
  by unfold_locales (use ps_inv_facts(4) in blast, rule ps_fetch_filter)

section \<open>Properties\<close>

type_synonym packet_in = "u64 \<times> byte \<times> byte \<times> byte \<times> byte list"

definition append_in :: "packet_in \<Rightarrow> packet_store \<Rightarrow> packet_store" where
  "append_in p s = (case p of (up, rssi, snr, flags, raw) \<Rightarrow> fst (ps_append up rssi snr flags raw s))"

fun numbered :: "nat \<Rightarrow> packet_in list \<Rightarrow> stored_packet list" where
  "numbered q [] = []"
| "numbered q ((up, rssi, snr, flags, raw) # ps) = new_entry up rssi snr flags raw q # numbered (q + 1) ps"

lemma length_numbered: "length (numbered q ps) = length ps"
  by (induction q ps rule: numbered.induct) simp_all

lemma ps_inv_new: "cap < 2 ^ 32 \<Longrightarrow> ps_inv (packet_store_new cap calloc_ok)"
  by (simp add: ps_inv_def ps_rel_def ps_frame_def packet_store_new_def Let_def ps_entries_def)

lemma ps_inv_clear: "ps_inv s \<Longrightarrow> ps_inv (ps_clear s) \<and> ps_entries (ps_clear s) = []"
  unfolding ps_rel_iff [symmetric] by (auto simp: ps_inv_def ps_rel_def ps_frame_def ps_clear_def)

text \<open>A suffix that fits with room to spare survives one more append.\<close>

lemma drop_small_suffix:
  assumes "k = 0 \<or> cap < total_size (drop (k - 1) es) + 542" "total_size (drop i es) + 542 \<le> cap"
  shows "k \<le> i"
proof (rule ccontr)
  assume "\<not> k \<le> i"
  then have "drop (k - 1) es = drop (k - 1 - i) (drop i es)" "k \<noteq> 0" by simp_all
  moreover have "total_size (drop n xs) \<le> total_size xs" for n xs
    by (metis append_take_drop_id le_add2 total_size_simps(3))
  ultimately show False using assms by (metis add_le_mono1 leD le_trans)
qed

lemma append_in_run:
  assumes "ps_inv s" "271 \<le> ps_capacity s" "\<forall>(up, rssi, snr, flags, raw) \<in> set ps. length raw \<le> 255"
    and "ps_next_seq s + length ps < 2 ^ 32"
  shows "\<exists>k \<le> length (ps_entries s @ numbered (ps_next_seq s) ps).
    ps_inv (fold append_in ps s) \<and>
    ps_entries (fold append_in ps s) = drop k (ps_entries s @ numbered (ps_next_seq s) ps) \<and>
    (\<forall>i. total_size (drop i (ps_entries s @ numbered (ps_next_seq s) ps)) + 542 \<le> ps_capacity s \<longrightarrow> k \<le> i)"
  using assms
proof (induction ps arbitrary: s)
  case Nil
  then show ?case by (intro exI [of _ 0]) simp
next
  case (Cons p ps)
  obtain up rssi snr flags raw where p: "p = (up, rssi, snr, flags, raw)" by (cases p)
  define s' where "s' = append_in p s"
  define e where "e = new_entry up rssi snr flags raw (ps_next_seq s)"
  obtain k where k: "k \<le> length (ps_entries s)" "ps_rel s' (drop k (ps_entries s) @ [e])"
      "k = 0 \<or> ps_capacity s < total_size (drop (k - 1) (ps_entries s)) + 542"
      "ps_capacity s' = ps_capacity s"
    using append_stored [of s "ps_entries s" raw up rssi snr flags] Cons.prems
    by (auto simp: ps_inv_def p s'_def append_in_def e_def kStoredPacketOverhead_def protocol_limits)
  then have inv: "ps_inv s'" and es: "ps_entries s' = drop k (ps_entries s) @ [e]"
    by (simp_all add: ps_rel_iff)
  have nxt: "ps_next_seq s' = ps_next_seq s + 1"
    using arg_cong [OF ps_inv_facts(4) [OF inv], of last] ps_inv_facts(2) [OF inv]
    by (simp add: es e_def new_entry_def)
  let ?all = "ps_entries s @ numbered (ps_next_seq s) (p # ps)"
  have all: "drop k ?all = ps_entries s' @ numbered (ps_next_seq s') ps"
    using k(1) by (simp add: es nxt p e_def)
  obtain j where j: "j \<le> length (ps_entries s' @ numbered (ps_next_seq s') ps)"
      "ps_inv (fold append_in ps s')" "ps_entries (fold append_in ps s') = drop j (drop k ?all)"
      "\<And>i. total_size (drop i (drop k ?all)) + 542 \<le> ps_capacity s \<Longrightarrow> j \<le> i"
    using Cons.IH [of s'] inv k(4) Cons.prems nxt unfolding all by auto
  have small: "j + k \<le> i" if i: "total_size (drop i ?all) + 542 \<le> ps_capacity s" for i
  proof -
    have "total_size (drop i (ps_entries s)) \<le> total_size (drop i ?all)" by simp
    then have "k \<le> i" using drop_small_suffix [OF k(3)] i by (meson add_le_mono1 le_trans)
    then have "drop (i - k) (drop k ?all) = drop i ?all" by (simp only: drop_drop le_add_diff_inverse2)
    then have "j \<le> i - k" using j(4) [of "i - k"] i by (simp only:)
    then show ?thesis using \<open>k \<le> i\<close> by simp
  qed
  have "j + k \<le> length ?all" using j(1) k(1) by (simp add: es length_numbered)
  moreover have "ps_entries (fold append_in ps s') = drop (j + k) ?all"
    unfolding j(3) by (rule drop_drop)
  moreover have "fold append_in (p # ps) s = fold append_in ps s'"
    by (simp add: s'_def)
  ultimately show ?case
    using j(2) small by metis
qed

text \<open>
  C20. Appending to the ring refines appending to a list.  In every well-formed store, wrapped or
  not, a packet that fits the pool is stored behind a suffix of what was retained, under the next
  sequence number, and is handed back exactly as it lies in the ring; \<open>dropped\<close> counts the
  evicted ones, and one is evicted only when the pool is full up to two maximum-size records.
  A packet larger than the pool changes nothing but \<open>dropped\<close>.
\<close>

theorem packet_store_append:
  assumes "ps_inv s" "length raw \<le> MESHPIGEON_MAX_RAW_PACKET" "ps_next_seq s + 1 < 2 ^ 32"
  shows "if kStoredPacketOverhead + length raw \<le> ps_capacity s
    then \<exists>s' k. ps_append up rssi snr flags raw s
        = (s', ps_next_seq s, Some (new_entry up rssi snr flags raw (ps_next_seq s))) \<and>
      ps_inv s' \<and> ps_entries s' = drop k (ps_entries s) @ [new_entry up rssi snr flags raw (ps_next_seq s)] \<and>
      ps_dropped s' = (ps_dropped s + k) mod 2 ^ 32 \<and>
      (k = 0 \<or> k \<le> length (ps_entries s) \<and> ps_capacity s < total_size (drop (k - 1) (ps_entries s)) + 542)
    else ps_append up rssi snr flags raw s = (s\<lparr>ps_dropped := add32 (ps_dropped s) 1\<rparr>, 0, None)"
proof (cases "kStoredPacketOverhead + length raw \<le> ps_capacity s")
  case True
  from append_stored [OF assms(1) [unfolded ps_inv_def] assms(2) True assms(3), of up rssi snr flags]
  show ?thesis
    unfolding ps_rel_iff if_P [OF True] by (elim exE conjE) blast
next
  case False
  then show ?thesis using append_refused [OF assms(2)] by simp
qed

lemma packet_store_append_witness:
  "\<exists>s' k. ps_append 5 1 2 kFlagReceived [9, 8, 7] (packet_store_new 100 True)
     = (s', 1, Some (new_entry 5 1 2 kFlagReceived [9, 8, 7] 1)) \<and> ps_inv s'"
proof -
  let ?s = "packet_store_new 100 True"
  have "ps_inv ?s" by (rule ps_inv_new) simp
  moreover have "ps_next_seq ?s = 1" "ps_capacity ?s = 100"
    by (simp_all add: packet_store_new_def kStoredPacketOverhead_def Let_def)
  ultimately show ?thesis
    using packet_store_append [of ?s "[9, 8, 7]" 5 1 2 kFlagReceived]
    by (auto simp: kStoredPacketOverhead_def protocol_limits)
qed

text \<open>A store with two packets in it, for the witnesses.\<close>

definition two_packets :: packet_store where
  "two_packets = fold append_in [(1, 0, 0, 2, [1, 2]), (2, 0, 0, 2, [3])] (packet_store_new 700 True)"

lemma two_packets:
  "ps_inv two_packets" "ps_entries two_packets = numbered 1 [(1, 0, 0, 2, [1, 2]), (2, 0, 0, 2, [3])]"
proof -
  let ?s = "packet_store_new 700 True" and ?ps = "[(1, 0, 0, 2, [1, 2]), (2, 0, 0, 2, [3])]"
  have inv: "ps_inv ?s" by (rule ps_inv_new) simp
  have f: "ps_next_seq ?s = 1" "ps_capacity ?s = 700" "ps_entries ?s = []"
    by (simp_all add: packet_store_new_def kStoredPacketOverhead_def Let_def ps_entries_def)
  obtain k where k: "ps_inv two_packets" "ps_entries two_packets = drop k (numbered 1 ?ps)"
      "\<forall>i. total_size (drop i (numbered 1 ?ps)) + 542 \<le> 700 \<longrightarrow> k \<le> i"
    using append_in_run [OF inv, of ?ps] unfolding f two_packets_def by auto
  have "k \<le> 0"
    using spec [OF k(3), of 0] by (simp add: new_entry_def entry_size_def kStoredPacketOverhead_def)
  with k show "ps_inv two_packets" "ps_entries two_packets = numbered 1 ?ps" by simp_all
qed

text \<open>
  Retention.  After any sequence of receptions into a pool of at least 271 bytes, the store
  is well-formed and holds, in order and unchanged, a suffix of everything ever appended that
  includes every suffix of at most \<open>capacity - 542\<close> bytes: the most recent packets are never lost.
\<close>

theorem packet_store_retains:
  assumes "ps_inv s" "271 \<le> ps_capacity s" "\<forall>(up, rssi, snr, flags, raw) \<in> set ps. length raw \<le> 255"
    and "ps_next_seq s + length ps < 2 ^ 32"
  shows "\<exists>k. ps_inv (fold append_in ps s) \<and>
    ps_entries (fold append_in ps s) = drop k (ps_entries s @ numbered (ps_next_seq s) ps) \<and>
    (\<forall>i. total_size (drop i (ps_entries s @ numbered (ps_next_seq s) ps)) + 542 \<le> ps_capacity s \<longrightarrow> k \<le> i)"
  using append_in_run [OF assms] by blast

lemma packet_store_retains_witness:
  "\<exists>k \<le> 0. ps_entries two_packets = drop k (numbered 1 [(1, 0, 0, 2, [1, 2]), (2, 0, 0, 2, [3])])"
proof -
  let ?s = "packet_store_new 700 True" and ?ps = "[(1, 0, 0, 2, [1, 2]), (2, 0, 0, 2, [3])]"
  have inv: "ps_inv ?s" by (rule ps_inv_new) simp
  have f: "ps_next_seq ?s = 1" "ps_capacity ?s = 700" "ps_entries ?s = []"
    by (simp_all add: packet_store_new_def kStoredPacketOverhead_def Let_def ps_entries_def)
  obtain k where k: "ps_inv two_packets" "ps_entries two_packets = drop k (numbered 1 ?ps)"
      "\<forall>i. total_size (drop i (numbered 1 ?ps)) + 542 \<le> 700 \<longrightarrow> k \<le> i"
    using packet_store_retains [OF inv, of ?ps] unfolding f two_packets_def by auto
  have "k \<le> 0"
    using spec [OF k(3), of 0] by (simp add: new_entry_def entry_size_def kStoredPacketOverhead_def)
  with k(2) show ?thesis by blast
qed

text \<open>
  Lookup and fetch.  \<open>get\<close> finds exactly the retained packet with the sequence number;
  \<open>fetch_since\<close> hands the callback the retained packets above the cursor, oldest first, until
  \<open>max_count\<close> of them were delivered or the callback stops it; \<open>clear\<close> forgets the packets and
  keeps the sequence counter.
\<close>

theorem packet_store_queries:
  assumes "ps_inv s"
  shows "ps_get s seq = find (\<lambda>e. sp_seq e = seq) (ps_entries s) \<and>
    fetch_since s since_seq max_count cb a =
      deliver cb max_count (filter (\<lambda>e. since_seq < sp_seq e) (ps_entries s)) a \<and>
    ps_inv (ps_clear s) \<and> ps_entries (ps_clear s) = [] \<and> oldest_seq (ps_clear s) = ps_next_seq s"
  using assms by (simp add: get_find fetch_since_deliver ps_inv_clear) (simp add: oldest_seq_def ps_clear_def)

lemma packet_store_queries_witness:
  "ps_get two_packets 2 = Some (new_entry 2 0 0 2 [3] 2)"
  using packet_store_queries [OF two_packets(1), of 2, THEN conjunct1]
  by (simp add: two_packets new_entry_def)

text \<open>
  Paging.  A client that pages through the history with a resumable cursor, page after page
  and across any change of the store between the pages, sees no packet twice; and while the
  store stands still, enough pages see every packet above its first cursor.
\<close>

theorem packet_store_paging:
  assumes "\<forall>s \<in> set ss. ps_inv s" "ps_inv s" "0 < m"
    and "length (ps_entries s) \<le> n * m"
  shows "sorted_wrt (<) (map sp_seq (pl.paging m c ss)) \<and>
    pl.paging m c (replicate n s) = filter (\<lambda>e. c < sp_seq e) (ps_entries s)"
proof -
  have "length (filter (\<lambda>e. c < sp_seq e) (ps_entries s)) \<le> n * m"
    using assms(4) length_filter_le [of "\<lambda>e. c < sp_seq e" "ps_entries s"] by linarith
  with assms show ?thesis
    by (simp add: pl.paging_no_duplicates pl.paging_complete)
qed

lemma packet_store_paging_witness:
  "pl.paging 1 0 (replicate 2 two_packets) = numbered 1 [(1, 0, 0, 2, [1, 2]), (2, 0, 0, 2, [3])]"
  using packet_store_paging [of "[]" two_packets 1 2 0] two_packets
  by (simp add: new_entry_def)

text \<open>
  C40. Counting, and its wrap-around.  \<open>count_since\<close> is the number of retained packets above the
  cursor for every cursor below \<open>2^32 - 1\<close>; for the last one \<open>since_seq + 1\<close> wraps to 0 and it
  returns \<open>next_seq\<close> although no packet is above the cursor.
\<close>

theorem count_since_correct:
  assumes "ps_inv s"
  shows "(since_seq < 2 ^ 32 - 1 \<longrightarrow>
      count_since s since_seq = length (filter (\<lambda>e. since_seq < sp_seq e) (ps_entries s))) \<and>
    (ps_count s > 0 \<longrightarrow> count_since s (2 ^ 32 - 1) = ps_next_seq s \<and>
      filter (\<lambda>e. 2 ^ 32 - 1 < sp_seq e) (ps_entries s) = [])"
proof -
  note f = ps_inv_facts [OF assms]
  have "count_since s (2 ^ 32 - 1) = ps_next_seq s \<and>
      filter (\<lambda>e. 2 ^ 32 - 1 < sp_seq e) (ps_entries s) = []" if "ps_count s > 0"
    using that f by (auto simp: count_since_def Let_def add32_def sub32_small filter_empty_conv
        list_all_iff entry_ok_def not_less)
  then show ?thesis using count_since_filter [OF assms] by simp
qed

lemma count_since_correct_witness:
  "count_since two_packets 1 = 1 \<and> count_since two_packets (2 ^ 32 - 1) = 3"
proof -
  have "ps_count two_packets = 2" "ps_next_seq two_packets = 3"
    using ps_inv_facts(1,2) [OF two_packets(1)] arg_cong [OF ps_inv_facts(4) [OF two_packets(1)], of last]
    by (simp_all add: two_packets new_entry_def)
  then show ?thesis
    using count_since_correct [OF two_packets(1), of 1] by (simp add: two_packets new_entry_def)
qed

end
