(* ===== verification/Clock.thy ===== *)
theory Clock
  imports Prelude
begin

text \<open>
  \<open>include/meshpigeon/uptime_clock.h\<close>: the 64-bit uptime kept over a 32-bit millisecond counter
  (\<open>UptimeClock\<close>) and the settable source the simulator uses (\<open>ManualClock\<close>).  The reading of
  \<open>source_\<close> is an argument of \<open>uc_poll\<close>.
\<close>

record uptime_clock =
  last_ms :: u32
  rollovers :: u32
  boot_count :: u32

definition uptime_clock_new :: uptime_clock where
  "uptime_clock_new = \<lparr>last_ms = 0, rollovers = 0, boot_count = 0\<rparr>"

definition uc_poll :: "u32 \<Rightarrow> uptime_clock \<Rightarrow> uptime_clock" where
  "uc_poll now c =
     (let c = (if now < last_ms c then c\<lparr>rollovers := rollovers c + 1\<rparr> else c)
      in c\<lparr>last_ms := now\<rparr>)"

definition uptime_ms64 :: "uptime_clock \<Rightarrow> u64" where
  "uptime_ms64 c = push_bit 32 (ucast (rollovers c)) OR ucast (last_ms c)"

definition set_boot_count :: "u32 \<Rightarrow> uptime_clock \<Rightarrow> uptime_clock" where
  "set_boot_count n c = c\<lparr>boot_count := n\<rparr>"

record manual_clock =
  mc_now :: u32

definition mc_millis :: "manual_clock \<Rightarrow> u32" where
  "mc_millis c = mc_now c"

definition mc_advance :: "u32 \<Rightarrow> manual_clock \<Rightarrow> manual_clock" where
  "mc_advance ms c = c\<lparr>mc_now := mc_now c + ms\<rparr>"

definition mc_set :: "u32 \<Rightarrow> manual_clock \<Rightarrow> manual_clock" where
  "mc_set ms c = c\<lparr>mc_now := ms\<rparr>"

text \<open>
  \<open>uc_at t c\<close>: the clock \<open>c\<close> stands at the true time \<open>t\<close>, in milliseconds since the source
  started.
\<close>

definition uc_at :: "nat \<Rightarrow> uptime_clock \<Rightarrow> bool" where
  "uc_at t c \<longleftrightarrow> unat (last_ms c) = t mod 2 ^ 32 \<and> unat (rollovers c) = t div 2 ^ 32"

lemma unat_uptime_ms64:
  "unat (uptime_ms64 c) = unat (rollovers c) * 2 ^ 32 + unat (last_ms c)"
proof -
  have r: "unat (rollovers c) < 2 ^ 32" and l: "unat (last_ms c) < 2 ^ 32"
    using unsigned_less [of "rollovers c"] unsigned_less [of "last_ms c"] by simp_all
  have "uptime_ms64 c = push_bit 32 (ucast (rollovers c)) + ucast (last_ms c)"
    unfolding uptime_ms64_def
    by (rule disjunctive_add_eq_or [symmetric]) (rule bit_word_eqI, auto simp: bit_simps dest: bit_imp_le_length)
  moreover have "unat (push_bit 32 (ucast (rollovers c)) :: u64) = unat (rollovers c) * 2 ^ 32"
    using r by (simp add: push_bit_eq_mult unat_mult_lem [THEN iffD1] unat_word_ariths unsigned_ucast_eq take_bit_eq_mod)
  moreover have "unat (ucast (last_ms c) :: u64) = unat (last_ms c)"
    using l by (simp add: unsigned_ucast_eq take_bit_eq_mod)
  ultimately show ?thesis
    using r l by (simp add: unat_word_ariths)
qed

lemma uc_at_uptime: "uc_at t c \<Longrightarrow> unat (uptime_ms64 c) = t"
  by (simp add: uc_at_def unat_uptime_ms64)

lemma uc_at_new: "uc_at 0 uptime_clock_new"
  by (simp add: uc_at_def uptime_clock_new_def)

lemma div_within_wrap:
  assumes "t \<le> u" "u - t < N"
  shows "u div N = (if u mod N < t mod N then Suc (t div N) else t div N)"
proof -
  have "0 < N" using assms(2) by linarith
  then have "u div N \<le> Suc (t div N)"
    using assms div_le_mono [of u "t + N" N] by (simp add: div_add_self2)
  moreover have "t div N \<le> u div N"
    using assms(1) by (rule div_le_mono)
  ultimately consider "u div N = t div N" | "u div N = Suc (t div N)"
    by linarith
  moreover have "u = u div N * N + u mod N" "t = t div N * N + t mod N"
    by simp_all
  ultimately show ?thesis
  proof cases
    case 1
    then have "t mod N \<le> u mod N"
      using assms(1) \<open>u = u div N * N + u mod N\<close> \<open>t = t div N * N + t mod N\<close>
      by (metis add_le_cancel_left)
    with 1 show ?thesis by simp
  next
    case 2
    then have "u = t div N * N + (N + u mod N)"
      using \<open>u = u div N * N + u mod N\<close> by simp
    then have "u mod N < t mod N"
      using assms(2) \<open>t = t div N * N + t mod N\<close> \<open>0 < N\<close> assms(1) by linarith
    with 2 show ?thesis by simp
  qed
qed

lemma uc_at_poll:
  assumes "uc_at t c" "t \<le> u" "u - t < 2 ^ 32" "u < 2 ^ 64"
  shows "uc_at u (uc_poll (of_nat u) c)"
proof -
  have now: "unat (of_nat u :: u32) = u mod 2 ^ 32"
    by (simp add: unat_of_nat)
  have last: "unat (last_ms c) = t mod 2 ^ 32" and roll: "unat (rollovers c) = t div 2 ^ 32"
    using assms(1) by (simp_all add: uc_at_def)
  show ?thesis
  proof (cases "u mod 2 ^ 32 < t mod 2 ^ 32")
    case True
    then have d: "u div 2 ^ 32 = Suc (t div 2 ^ 32)"
      using div_within_wrap [OF assms(2,3)] by simp
    have "u div 2 ^ 32 < 2 ^ 32"
      using assms(4) by (simp add: less_mult_imp_div_less)
    then have "unat (rollovers c + 1) = Suc (t div 2 ^ 32)"
      using d roll by (simp add: unat_word_ariths)
    moreover have "(of_nat u :: u32) < last_ms c"
      using True now last by (simp add: word_less_nat_alt)
    ultimately show ?thesis
      using d now by (simp add: uc_at_def uc_poll_def Let_def)
  next
    case False
    then have d: "u div 2 ^ 32 = t div 2 ^ 32"
      using div_within_wrap [OF assms(2,3)] by simp
    moreover have "\<not> (of_nat u :: u32) < last_ms c"
      using False now last by (simp add: word_less_nat_alt)
    ultimately show ?thesis
      using now roll by (simp add: uc_at_def uc_poll_def Let_def)
  qed
qed

text \<open>The schedule \<open>poll()\<close> asks for: the true times of the polls, never a full wrap apart.\<close>

fun poll_schedule :: "nat \<Rightarrow> nat list \<Rightarrow> bool" where
  "poll_schedule t [] \<longleftrightarrow> True"
| "poll_schedule t (u # us) \<longleftrightarrow> t \<le> u \<and> u - t < 2 ^ 32 \<and> u < 2 ^ 64 \<and> poll_schedule u us"

lemma uc_at_polls:
  "uc_at t c \<Longrightarrow> poll_schedule t ts \<Longrightarrow> uc_at (last (t # ts)) (fold uc_poll (map of_nat ts) c)"
proof (induction ts arbitrary: t c)
  case (Cons u us)
  then have "uc_at u (uc_poll (of_nat u) c)"
    by (intro uc_at_poll) auto
  then show ?case
    using Cons.IH [of u] Cons.prems(2) by simp
qed simp

text \<open>
  The 64-bit uptime is the true time.  If the board loop polls the clock at true times that
  are less than \<open>2^32\<close> ms apart, starting from power-up, then after every poll
  \<open>uptime_ms64\<close> is the true number of milliseconds since power-up, however often the 32-bit
  counter wrapped; setting the boot count does not disturb it.
\<close>

theorem uptime_is_true_time:
  assumes "poll_schedule 0 ts"
  shows "unat (uptime_ms64 (set_boot_count n (fold uc_poll (map of_nat ts) uptime_clock_new))) = last (0 # ts)"
  using uc_at_uptime [OF uc_at_polls [OF uc_at_new assms]]
  by (simp add: uptime_ms64_def set_boot_count_def)

lemma uptime_is_true_time_witness:
  "unat (uptime_ms64 (set_boot_count 3 (fold uc_poll (map of_nat [4000000000, 5000000000, 9000000000])
     uptime_clock_new))) = 9000000000"
  by (subst uptime_is_true_time) simp_all

end
