(* ===== verification/Processor.thy ===== *)
theory Processor
  imports Messages Settings PacketStore Clock
begin

text \<open>
  \<open>command_processor.h\<close> and \<open>command_processor.cpp\<close>: the envelope codec, the connected-client
  registry, access control and every request handler.

  The processor's members and the objects it refers to (packet store, clock, settings store, the
  \<open>authenticated\<close> flag of every sink) form one state record; a member function takes the state to
  the state.  A sink is a number, its address.  What leaves the processor (frames handed to a sink,
  calls of the radio, of the settings store and of the board hooks that change something) is
  recorded in order in \<open>cp_trace\<close>.  The radio's answers are the argument \<open>lora\<close>; the board hooks
  that return something are the record \<open>board_hooks\<close>.  \<open>cp_response\<close> is the scratch envelope.
\<close>

section \<open>State\<close>

record lora_radio =
  lr_begin :: bool
  lr_apply :: "radio_settings \<Rightarrow> bool"
  lr_transmit :: "byte list \<Rightarrow> int"
  lr_tx_done :: bool

record board_hooks =
  hk_battery_mv :: u16
  hk_mac_suffix :: "byte list \<Rightarrow> byte list"
  hk_ble_clients :: u8
  hk_usb_cdc_clients :: u8
  hk_wifi_tcp_clients :: u8
  hk_fill_status :: "meshpigeon_Status \<Rightarrow> meshpigeon_Status"
  hk_wifi_supported :: bool
  hk_fill_capabilities :: "u32 list \<Rightarrow> nat \<Rightarrow> u32 list \<times> u16"

text \<open>The bodies \<open>IBoardHooks\<close> itself gives.\<close>

definition default_hooks :: board_hooks where
  "default_hooks = \<lparr>hk_battery_mv = 0xFFFF, hk_mac_suffix = (\<lambda>out. out[0 := 0]),
     hk_ble_clients = 0, hk_usb_cdc_clients = 0, hk_wifi_tcp_clients = 0,
     hk_fill_status = (\<lambda>status. status\<lparr>st_wifi_state := WIFI_STATE_OFF\<rparr>),
     hk_wifi_supported = False, hk_fill_capabilities = (\<lambda>out max. (out, 0))\<rparr>"

type_synonym sink = nat

datatype event =
    Send_Frame sink "byte list"
  | Radio_Begin
  | Radio_Apply radio_settings
  | Radio_Transmit "byte list"
  | Save_Radio radio_settings
  | Save_Device device_settings
  | Clear_Device
  | Hook_Set_Device_Name "byte list"
  | Hook_Apply_Wifi device_settings
  | Hook_Reboot
  | Hook_Reboot_To_Bootloader
  | Hook_Factory_Reset

record command_processor =
  cp_store :: packet_store
  cp_clock :: uptime_clock
  cp_settings_store :: memory_store
  cp_hooks :: "board_hooks option"
  cp_board_name :: "byte list"
  cp_fw_version :: "byte list"
  cp_settings :: radio_settings
  cp_set_count_since_boot :: u32
  cp_device :: device_settings
  cp_radio_ok :: bool
  cp_noise_floor_dbm :: u32
  cp_auth_fails :: u8
  cp_auth_backoff_until :: u64
  cp_tx_pending :: bool
  cp_tx_pending_seq :: nat
  cp_response :: meshpigeon_RadioToClient
  cp_sinks :: "sink list"
  cp_authenticated :: "sink \<Rightarrow> bool"
  cp_trace :: "event list"

definition kMaxSinks :: nat where "kMaxSinks = 8"
definition kMaxCapabilities :: nat where "kMaxCapabilities = 16"
definition kFirstOwnerGraceMs :: u32 where "kFirstOwnerGraceMs = 5 * 60 * 1000"
definition kAuthFailsBeforeDelay :: u8 where "kAuthFailsBeforeDelay = 3"
definition kAuthFailDelayMs :: u32 where "kAuthFailDelayMs = 1000"
definition kMaxFetchPerRequest :: nat where "kMaxFetchPerRequest = 64"

text \<open>\<open>"MeshPigeon-"\<close>\<close>

definition kDefaultNamePrefix :: "byte list" where
  "kDefaultNamePrefix = [0x4D, 0x65, 0x73, 0x68, 0x50, 0x69, 0x67, 0x65, 0x6F, 0x6E, 0x2D]"

text \<open>
  The constructor: the two names are copied, the members with initialisers set.  \<open>settings_\<close>,
  \<open>device_\<close> and \<open>response_\<close> have no initialiser, so what they start as is an argument.
\<close>

definition command_processor_new :: "packet_store \<Rightarrow> uptime_clock \<Rightarrow> memory_store \<Rightarrow> byte list \<Rightarrow> byte list
    \<Rightarrow> radio_settings \<Rightarrow> device_settings \<Rightarrow> meshpigeon_RadioToClient \<Rightarrow> (sink \<Rightarrow> bool) \<Rightarrow> command_processor" where
  "command_processor_new store clock persist board_name fw_version settings device response auth =
     \<lparr>cp_store = store, cp_clock = clock, cp_settings_store = persist, cp_hooks = None,
      cp_board_name = copy_str 17 board_name, cp_fw_version = copy_str 16 fw_version,
      cp_settings = settings, cp_set_count_since_boot = 0, cp_device = device,
      cp_radio_ok = False, cp_noise_floor_dbm = 0, cp_auth_fails = 0, cp_auth_backoff_until = 0,
      cp_tx_pending = False, cp_tx_pending_seq = 0, cp_response = response, cp_sinks = [],
      cp_authenticated = auth, cp_trace = []\<rparr>"

definition set_hooks :: "board_hooks option \<Rightarrow> command_processor \<Rightarrow> command_processor" where
  "set_hooks hooks s = s\<lparr>cp_hooks := hooks\<rparr>"

definition emit :: "event \<Rightarrow> command_processor \<Rightarrow> command_processor" where
  "emit e s = s\<lparr>cp_trace := cp_trace s @ [e]\<rparr>"

definition add_sink :: "sink \<Rightarrow> command_processor \<Rightarrow> command_processor \<times> bool" where
  "add_sink sink s =
     (if length (cp_sinks s) \<ge> kMaxSinks then (s, False)
      else (s\<lparr>cp_sinks := cp_sinks s @ [sink]\<rparr>, True))"

text \<open>\<open>remove_sink\<close> removes the first occurrence.\<close>

definition remove_sink :: "sink \<Rightarrow> command_processor \<Rightarrow> command_processor" where
  "remove_sink sink s = s\<lparr>cp_sinks := remove1 sink (cp_sinks s)\<rparr>"

text \<open>
  \<open>effective_name\<close> fills the 21-byte array it is given; after the terminator of \<open>snprintf\<close> the bytes
  are those of the zeroed field it writes into.
\<close>

definition effective_name :: "command_processor \<Rightarrow> byte list" where
  "effective_name s =
     (if ds_name (cp_device s) ! 0 \<noteq> 0 then copy_str (MESHPIGEON_NAME_MAX + 1) (ds_name (cp_device s))
      else let suffix = [0x30, 0x30, 0x30, 0x30, 0];
               suffix = (case cp_hooks s of None \<Rightarrow> suffix | Some hooks \<Rightarrow> hk_mac_suffix hooks suffix);
               suffix = suffix[4 := 0]
           in copy_str (MESHPIGEON_NAME_MAX + 1) (kDefaultNamePrefix @ cstr suffix @ [0]))"

definition boot :: "lora_radio \<Rightarrow> command_processor \<Rightarrow> command_processor \<times> bool" where
  "boot lora s =
     (let stored = radio_unset;
          s = s\<lparr>cp_settings := radio_unset, cp_set_count_since_boot := 0\<rparr>;
          (stored, ok) = ms_load stored (cp_settings_store s);
          s = (if ok then s\<lparr>cp_settings := stored\<rparr> else s);
          s = s\<lparr>cp_device := fst (ms_load_device (cp_settings_store s))\<rparr>;
          s = (if ds_wifi_port (cp_device s) = 0
               then s\<lparr>cp_device := (cp_device s)\<lparr>ds_wifi_port := of_nat MESHPIGEON_WIFI_PORT_DEFAULT\<rparr>\<rparr>
               else s);
          s = emit Radio_Begin s;
          s = (if lr_begin lora
               then (emit (Radio_Apply (cp_settings s)) s)\<lparr>cp_radio_ok := lr_apply lora (cp_settings s)\<rparr>
               else s\<lparr>cp_radio_ok := False\<rparr>)
      in (s, cp_radio_ok s))"

definition first_owner_lock_active :: "command_processor \<Rightarrow> bool" where
  "first_owner_lock_active s \<longleftrightarrow>
     cp_set_count_since_boot s \<ge> 1 \<and> uptime_ms64 (cp_clock s) < ucast kFirstOwnerGraceMs"

section \<open>Envelopes\<close>

definition decode_envelope :: "byte list \<Rightarrow> meshpigeon_ClientToRadio option" where
  "decode_envelope data =
     (case pb_decode ClientToRadio_fields data ClientToRadio_init_zero of
        Inl e \<Rightarrow> None
      | Inr out \<Rightarrow> (if cr_id out \<noteq> 0 then Some out else None))"

text \<open>The bytes written to the buffer of \<open>cap\<close> bytes; none when encoding fails.\<close>

definition encode_envelope :: "nat \<Rightarrow> meshpigeon_RadioToClient \<Rightarrow> byte list" where
  "encode_envelope cap msg =
     (case pb_encode RadioToClient_fields msg (pb_ostream_from_buffer cap) of
        Inl e \<Rightarrow> [] | Inr stream \<Rightarrow> os_out stream)"

section \<open>Delivering responses\<close>

definition begin_response :: "u32 \<Rightarrow> command_processor \<Rightarrow> command_processor" where
  "begin_response rid s = s\<lparr>cp_response := RadioToClient_init_zero\<lparr>rc_id := rid\<rparr>\<rparr>"

definition set_body :: "rc_body \<Rightarrow> command_processor \<Rightarrow> command_processor" where
  "set_body b s = s\<lparr>cp_response := (cp_response s)\<lparr>rc_body := b\<rparr>\<rparr>"

definition encode_response :: "command_processor \<Rightarrow> byte list" where
  "encode_response s = encode_envelope MESHPIGEON_MAX_FRAME_PAYLOAD (cp_response s)"

definition is_authorized :: "command_processor \<Rightarrow> sink \<Rightarrow> bool" where
  "is_authorized s from \<longleftrightarrow> cp_authenticated s from \<or> pin_is_default (cp_device s)"

text \<open>\<open>dispatch\<close> with a recipient, and its loop over the sinks.\<close>

definition deliver :: "sink \<Rightarrow> command_processor \<Rightarrow> command_processor" where
  "deliver to s =
     (let buf = encode_response s in if length buf = 0 then s else emit (Send_Frame to buf) s)"

fun broadcast_loop :: "sink list \<Rightarrow> byte list \<Rightarrow> sink option \<Rightarrow> bool \<Rightarrow> command_processor \<Rightarrow> command_processor" where
  "broadcast_loop [] buf except authorized_only s = s"
| "broadcast_loop (sink # sinks) buf except authorized_only s =
     (if Some sink = except then broadcast_loop sinks buf except authorized_only s
      else if authorized_only \<and> \<not> is_authorized s sink then broadcast_loop sinks buf except authorized_only s
      else broadcast_loop sinks buf except authorized_only (emit (Send_Frame sink buf) s))"

definition broadcast_response :: "sink option \<Rightarrow> bool \<Rightarrow> command_processor \<Rightarrow> command_processor" where
  "broadcast_response except authorized_only s =
     (let buf = encode_response s in
      if length buf = 0 then s else broadcast_loop (cp_sinks s) buf except authorized_only s)"

section \<open>Building responses\<close>

definition build_radio_settings :: "command_processor \<Rightarrow> command_processor" where
  "build_radio_settings s =
     (let c = cp_settings s in
      set_body (R_radio_settings
        \<lparr>rsm_freq_hz = rs_freq_hz c, rsm_bandwidth_hz = ucast (rs_bw_x100khz c) * 10,
         rsm_sf = ucast (rs_sf c), rsm_cr = ucast (rs_cr c), rsm_power_dbm = ucast (rs_power_dbm c),
         rsm_config_epoch = rs_config_epoch c\<rparr>) s)"

definition build_device_settings :: "command_processor \<Rightarrow> command_processor" where
  "build_device_settings s =
     (let d = cp_device s in
      set_body (R_device_settings
        \<lparr>dsm_name = effective_name s, dsm_wifi_enabled = ds_wifi_enabled d,
         dsm_wifi_ssid = copy_str 33 (ds_wifi_ssid d),
         dsm_wifi_password = copy_str 64 (ds_wifi_password d),
         dsm_wifi_port = ucast (ds_wifi_port d)\<rparr>) s)"

definition build_status :: "command_processor \<Rightarrow> command_processor" where
  "build_status s =
     (let m = (case cp_hooks s of None \<Rightarrow> Status_init_zero
               | Some hooks \<Rightarrow> hk_fill_status hooks Status_init_zero)
      in set_body (R_status (m
           \<lparr>st_ble_clients := (case cp_hooks s of None \<Rightarrow> 0 | Some hooks \<Rightarrow> ucast (hk_ble_clients hooks)),
            st_usb_cdc_clients := (case cp_hooks s of None \<Rightarrow> 0 | Some hooks \<Rightarrow> ucast (hk_usb_cdc_clients hooks)),
            st_wifi_tcp_clients := (case cp_hooks s of None \<Rightarrow> 0 | Some hooks \<Rightarrow> ucast (hk_wifi_tcp_clients hooks))\<rparr>)) s)"

definition packet_entry_of :: "stored_packet \<Rightarrow> meshpigeon_PacketEntry" where
  "packet_entry_of e =
     \<lparr>pe_seq = of_nat (sp_seq e), pe_raw = take (unat (sp_len e)) (sp_raw e), pe_uptime_ms = sp_uptime_ms e,
      pe_rssi = scast (sp_rssi e), pe_snr = scast (sp_snr e),
      pe_origin = (if (sp_flags e AND kFlagSent) \<noteq> 0 then ORIGIN_SENT else ORIGIN_RECEIVED)\<rparr>"

definition build_packet_entry :: "u32 \<Rightarrow> stored_packet \<Rightarrow> command_processor \<Rightarrow> command_processor" where
  "build_packet_entry rid e s = set_body (R_packet_entry (packet_entry_of e)) (begin_response rid s)"

definition send_error :: "u32 \<Rightarrow> u32 \<Rightarrow> sink \<Rightarrow> command_processor \<Rightarrow> command_processor" where
  "send_error rid code to s =
     deliver to (set_body (R_error (Error_init_zero\<lparr>er_code := code\<rparr>)) (begin_response rid s))"

definition send_ok :: "u32 \<Rightarrow> sink \<Rightarrow> command_processor \<Rightarrow> command_processor" where
  "send_ok rid to s = deliver to (set_body R_ok (begin_response rid s))"

definition send_pong :: "u32 \<Rightarrow> byte list \<Rightarrow> sink \<Rightarrow> command_processor \<Rightarrow> command_processor" where
  "send_pong rid payload to s =
     deliver to (set_body (R_pong \<lparr>po_payload = take 500 payload\<rparr>) (begin_response rid s))"

definition send_radio_settings :: "u32 \<Rightarrow> sink \<Rightarrow> command_processor \<Rightarrow> command_processor" where
  "send_radio_settings rid to s = deliver to (build_radio_settings (begin_response rid s))"

definition send_device_settings :: "u32 \<Rightarrow> sink \<Rightarrow> command_processor \<Rightarrow> command_processor" where
  "send_device_settings rid to s = deliver to (build_device_settings (begin_response rid s))"

definition send_status :: "u32 \<Rightarrow> sink \<Rightarrow> command_processor \<Rightarrow> command_processor" where
  "send_status rid to s = deliver to (build_status (begin_response rid s))"

definition capabilities :: "command_processor \<Rightarrow> u32 list" where
  "capabilities s =
     (case cp_hooks s of
        None \<Rightarrow> []
      | Some hooks \<Rightarrow>
          (let (out, n) = hk_fill_capabilities hooks (replicate kMaxCapabilities 0) kMaxCapabilities
           in take (min (unat n) kMaxCapabilities) out))"

definition send_device_info :: "u32 \<Rightarrow> sink \<Rightarrow> command_processor \<Rightarrow> command_processor" where
  "send_device_info rid from s =
     deliver from (set_body (R_device_info
       \<lparr>di_spec_version = of_nat MESHPIGEON_SPEC_VERSION,
        di_fw_version = copy_str 16 (cp_fw_version s), di_board_name = copy_str 17 (cp_board_name s),
        di_capabilities = capabilities s,
        di_uptime_ms = uptime_ms64 (cp_clock s), di_boot_count = boot_count (cp_clock s),
        di_has_store = True,
        di_store = \<lparr>si_count = of_nat (ps_count (cp_store s)), si_capacity_bytes = of_nat (ps_capacity (cp_store s)),
                    si_dropped = of_nat (ps_dropped (cp_store s)),
                    si_oldest_seq = of_nat (oldest_seq (cp_store s))\<rparr>,
        di_radio_config_epoch = rs_config_epoch (cp_settings s),
        di_battery_mv = (case cp_hooks s of None \<Rightarrow> 0xFFFF | Some hooks \<Rightarrow> ucast (hk_battery_mv hooks)),
        di_radio_ok = cp_radio_ok s, di_auth_required = (\<not> is_authorized s from),
        di_noise_floor_dbm = cp_noise_floor_dbm s\<rparr>) (begin_response rid s))"

section \<open>Pushes\<close>

definition emit_tx_result :: "nat \<Rightarrow> bool \<Rightarrow> command_processor \<Rightarrow> command_processor" where
  "emit_tx_result seq ok s =
     broadcast_response None False
       (set_body (R_tx_result \<lparr>tr_seq = of_nat seq, tr_success = ok\<rparr>) (begin_response 0 s))"

definition notify_radio_changed :: "sink option \<Rightarrow> command_processor \<Rightarrow> command_processor" where
  "notify_radio_changed except s =
     broadcast_response except True (build_radio_settings (begin_response 0 s))"

definition notify_device_settings_changed :: "sink option \<Rightarrow> command_processor \<Rightarrow> command_processor" where
  "notify_device_settings_changed except s =
     broadcast_response except True (build_device_settings (begin_response 0 s))"

definition on_wifi_state_changed :: "command_processor \<Rightarrow> command_processor" where
  "on_wifi_state_changed s = broadcast_response None False (build_status (begin_response 0 s))"

section \<open>Access control\<close>

text \<open>\<open>pin_matches(pin, len)\<close>: \<open>memcmp\<close> of \<open>len\<close> bytes, then the terminator of the stored PIN.\<close>

definition pin_matches :: "byte list \<Rightarrow> nat \<Rightarrow> command_processor \<Rightarrow> bool" where
  "pin_matches pin len s =
     (if len = 0 \<or> len > MESHPIGEON_PIN_MAX then False
      else take len pin = take len (ds_pin (cp_device s)) \<and> ds_pin (cp_device s) ! len = 0)"

definition auth_backoff_active :: "command_processor \<Rightarrow> bool" where
  "auth_backoff_active s \<longleftrightarrow>
     cp_auth_backoff_until s \<noteq> 0 \<and> (uptime_ms64 (cp_clock s) - cp_auth_backoff_until s) <s 0"

definition note_auth_failure :: "command_processor \<Rightarrow> command_processor" where
  "note_auth_failure s =
     (let s = (if cp_auth_fails s < 0xFF then s\<lparr>cp_auth_fails := cp_auth_fails s + 1\<rparr> else s)
      in if cp_auth_fails s > kAuthFailsBeforeDelay
         then s\<lparr>cp_auth_backoff_until := uptime_ms64 (cp_clock s) + ucast kAuthFailDelayMs\<rparr> else s)"

text \<open>\<open>require_auth\<close>, with what the caller does when it holds as a continuation.\<close>

definition require_auth :: "u32 \<Rightarrow> sink \<Rightarrow> (command_processor \<Rightarrow> command_processor)
    \<Rightarrow> command_processor \<Rightarrow> command_processor" where
  "require_auth rid from k s =
     (if is_authorized s from then k s else send_error rid ERROR_CODE_AUTH_REQUIRED from s)"

section \<open>Request handlers\<close>

definition handle_set_radio_settings ::
  "lora_radio \<Rightarrow> u32 \<Rightarrow> meshpigeon_SetRadioSettings \<Rightarrow> sink \<Rightarrow> command_processor \<Rightarrow> command_processor" where
  "handle_set_radio_settings lora rid req from = require_auth rid from (\<lambda>s.
     if \<not> srs_has_settings req then send_error rid ERROR_CODE_BAD_PAYLOAD from s
     else let m = srs_settings req; c = radio_unset\<lparr>rs_freq_hz := rsm_freq_hz m\<rparr> in
       if rsm_bandwidth_hz m = 0 \<or> rsm_bandwidth_hz m mod 10 \<noteq> 0 \<or> rsm_bandwidth_hz m div 10 > 0xFFFF \<or>
          rsm_freq_hz m = 0 \<or> rsm_sf m < 5 \<or> rsm_sf m > 12 \<or> rsm_cr m < 5 \<or> rsm_cr m > 8 \<or>
          rsm_power_dbm m > of_nat MESHPIGEON_TX_POWER_MAX
       then send_error rid ERROR_CODE_BAD_PAYLOAD from s
       else let c = c\<lparr>rs_bw_x100khz := ucast (rsm_bandwidth_hz m div 10), rs_sf := ucast (rsm_sf m),
                      rs_cr := ucast (rsm_cr m), rs_power_dbm := ucast (rsm_power_dbm m)\<rparr> in
         if first_owner_lock_active s \<or> cp_tx_pending s then send_error rid ERROR_CODE_BUSY from s
         else let s = emit (Radio_Apply c) s in
           if \<not> lr_apply lora c then send_error rid ERROR_CODE_TX_FAILED from s
           else let s = s\<lparr>cp_radio_ok := True\<rparr>;
                    c = c\<lparr>rs_config_epoch := rs_config_epoch (cp_settings s) + 1\<rparr>;
                    s = s\<lparr>cp_settings := c\<rparr>;
                    s = emit (Save_Radio c) (s\<lparr>cp_settings_store := fst (ms_save c (cp_settings_store s))\<rparr>);
                    s = s\<lparr>cp_set_count_since_boot := cp_set_count_since_boot s + 1\<rparr>;
                    s = notify_radio_changed (Some from) s
                in send_radio_settings rid from s)"

definition handle_send_packet ::
  "lora_radio \<Rightarrow> u32 \<Rightarrow> meshpigeon_SendPacket \<Rightarrow> sink \<Rightarrow> command_processor \<Rightarrow> command_processor" where
  "handle_send_packet lora rid req from = require_auth rid from (\<lambda>s.
     let raw = spm_raw req; n = length raw in
     if n = 0 \<or> n > MESHPIGEON_MAX_RAW_PACKET then send_error rid ERROR_CODE_BAD_PAYLOAD from s
     else if \<not> cp_radio_ok s then send_error rid ERROR_CODE_NO_RADIO from s
     else if cp_tx_pending s then send_error rid ERROR_CODE_BUSY from s
     else let (store, seq, out) = ps_append (uptime_ms64 (cp_clock s)) 0 0 kFlagSent raw (cp_store s);
              s = s\<lparr>cp_store := store\<rparr> in
       if seq = 0 then send_error rid ERROR_CODE_BUSY from s
       else let s = deliver from (set_body (R_packet_accepted \<lparr>pa_seq = of_nat seq\<rparr>) (begin_response rid s));
                s = emit (Radio_Transmit raw) s in
         if lr_transmit lora raw \<noteq> 0 then emit_tx_result seq False s
         else s\<lparr>cp_tx_pending := True, cp_tx_pending_seq := seq\<rparr>)"

text \<open>
  The callback of \<open>fetch_since\<close>, on the state and \<open>delivered\<close>; it always asks for more.  The store
  itself is not changed by what the callback does, so the fetch reads the store it started with.
\<close>

definition fetch_callback :: "u32 \<Rightarrow> sink \<Rightarrow> command_processor \<times> u32 \<Rightarrow> stored_packet
    \<Rightarrow> (command_processor \<times> u32) \<times> bool" where
  "fetch_callback rid from a e =
     (let (s, delivered) = a; s = deliver from (build_packet_entry rid e s) in ((s, delivered + 1), True))"

definition handle_fetch_packets ::
  "u32 \<Rightarrow> meshpigeon_FetchPackets \<Rightarrow> sink \<Rightarrow> command_processor \<Rightarrow> command_processor" where
  "handle_fetch_packets rid req from = require_auth rid from (\<lambda>s.
     let max_count = unat (fp_max_count req);
         max_count = (if max_count = 0 \<or> max_count > kMaxFetchPerRequest then kMaxFetchPerRequest else max_count);
         (s, delivered) = snd (fetch_since (cp_store s) (unat (fp_since_seq req)) max_count
                                 (fetch_callback rid from) (s, 0))
     in deliver from (set_body (R_fetch_end \<lparr>fe_count = delivered\<rparr>) (begin_response rid s)))"

text \<open>
  \<open>handle_set_device_settings\<close> in the steps its comments name: the validation of all fields, the
  candidate, what a PIN write does to the sessions, what is stored and applied, and what is told.
\<close>

definition wifi_touched :: "meshpigeon_SetDeviceSettings \<Rightarrow> bool" where
  "wifi_touched m \<longleftrightarrow> sds_has_wifi_enabled m \<or> sds_has_wifi_ssid m \<or> sds_has_wifi_password m \<or> sds_has_wifi_port m"

definition invalid_request :: "meshpigeon_SetDeviceSettings \<Rightarrow> bool" where
  "invalid_request m \<longleftrightarrow>
     sds_has_name m \<and> \<not> valid_name (cstr (sds_name m)) \<or>
     sds_has_pin m \<and> \<not> valid_pin_set (cstr (sds_pin m)) \<or>
     sds_has_wifi_ssid m \<and> \<not> valid_ssid (cstr (sds_wifi_ssid m)) \<or>
     sds_has_wifi_password m \<and> \<not> valid_password (cstr (sds_wifi_password m)) \<or>
     sds_has_wifi_port m \<and> \<not> valid_port (sds_wifi_port m)"

definition candidate :: "meshpigeon_SetDeviceSettings \<Rightarrow> device_settings \<Rightarrow> device_settings" where
  "candidate m d =
     (let next = d;
          next = (if sds_has_name m then next\<lparr>ds_name := copy_str (MESHPIGEON_NAME_MAX + 1) (sds_name m)\<rparr> else next);
          next = (if sds_has_pin m then next\<lparr>ds_pin := set_pin (sds_pin m)\<rparr> else next);
          next = (if sds_has_wifi_enabled m then next\<lparr>ds_wifi_enabled := sds_wifi_enabled m\<rparr> else next);
          next = (if sds_has_wifi_ssid m
                  then next\<lparr>ds_wifi_ssid := copy_str (MESHPIGEON_SSID_MAX + 1) (sds_wifi_ssid m)\<rparr> else next);
          next = (if sds_has_wifi_password m
                  then next\<lparr>ds_wifi_password := copy_str (MESHPIGEON_PASS_MAX + 1) (sds_wifi_password m)\<rparr> else next);
          next = (if sds_has_wifi_port m then next\<lparr>ds_wifi_port := ucast (sds_wifi_port m)\<rparr> else next)
      in next)"

text \<open>The loop over \<open>sinks_\<close> that ends every session but the writer's.\<close>

fun drop_sessions :: "sink list \<Rightarrow> sink \<Rightarrow> (sink \<Rightarrow> bool) \<Rightarrow> (sink \<Rightarrow> bool)" where
  "drop_sessions [] from auth = auth"
| "drop_sessions (sink # sinks) from auth =
     drop_sessions sinks from (if sink \<noteq> from then auth(sink := False) else auth)"

definition rotate_sessions :: "sink \<Rightarrow> command_processor \<Rightarrow> command_processor" where
  "rotate_sessions from s =
     s\<lparr>cp_authenticated := drop_sessions (cp_sinks s) from ((cp_authenticated s)(from := True)),
       cp_auth_fails := 0, cp_auth_backoff_until := 0\<rparr>"

definition store_device_settings :: "meshpigeon_SetDeviceSettings \<Rightarrow> sink \<Rightarrow> command_processor \<Rightarrow> command_processor" where
  "store_device_settings m from s =
     (let s = s\<lparr>cp_device := candidate m (cp_device s)\<rparr>;
          s = (if sds_has_pin m then rotate_sessions from s else s);
          s = emit (Save_Device (cp_device s))
                (s\<lparr>cp_settings_store := fst (ms_save_device (cp_device s) (cp_settings_store s))\<rparr>);
          s = (if sds_has_name m \<and> cp_hooks s \<noteq> None then emit (Hook_Set_Device_Name (effective_name s)) s else s)
      in if wifi_touched m \<and> cp_hooks s \<noteq> None then emit (Hook_Apply_Wifi (cp_device s)) s else s)"

definition announce_device_settings :: "u32 \<Rightarrow> sink \<Rightarrow> command_processor \<Rightarrow> command_processor" where
  "announce_device_settings rid from s = send_device_settings rid from (notify_device_settings_changed (Some from) s)"

definition handle_set_device_settings ::
  "u32 \<Rightarrow> meshpigeon_SetDeviceSettings \<Rightarrow> sink \<Rightarrow> command_processor \<Rightarrow> command_processor" where
  "handle_set_device_settings rid m from = require_auth rid from (\<lambda>s.
     if invalid_request m then send_error rid ERROR_CODE_BAD_PAYLOAD from s
     else if wifi_touched m \<and> (case cp_hooks s of None \<Rightarrow> False | Some hooks \<Rightarrow> \<not> hk_wifi_supported hooks)
     then send_error rid ERROR_CODE_NOT_SUPPORTED from s
     else if device_eq (candidate m (cp_device s)) (cp_device s) then send_device_settings rid from s
     else announce_device_settings rid from (store_device_settings m from s))"

definition handle_auth :: "u32 \<Rightarrow> meshpigeon_Auth \<Rightarrow> sink \<Rightarrow> command_processor \<Rightarrow> command_processor" where
  "handle_auth rid m from s =
     (if auth_backoff_active s then send_error rid ERROR_CODE_AUTH_REQUIRED from s
      else if cp_authenticated s from \<or> pin_is_default (cp_device s) \<or> pin_matches (au_pin m) (strlen (au_pin m)) s
      then send_ok rid from (s\<lparr>cp_authenticated := (cp_authenticated s)(from := True), cp_auth_fails := 0\<rparr>)
      else send_error rid ERROR_CODE_AUTH_REQUIRED from (note_auth_failure s))"

definition run_hook :: "event \<Rightarrow> command_processor \<Rightarrow> command_processor" where
  "run_hook e s = (if cp_hooks s \<noteq> None then emit e s else s)"

definition handle_request ::
  "lora_radio \<Rightarrow> meshpigeon_ClientToRadio \<Rightarrow> sink \<Rightarrow> command_processor \<Rightarrow> command_processor" where
  "handle_request lora req from s =
     (case cr_body req of
        C_ping m \<Rightarrow> send_pong (cr_id req) (pi_payload m) from s
      | C_get_device_info \<Rightarrow> send_device_info (cr_id req) from s
      | C_get_radio_settings \<Rightarrow> require_auth (cr_id req) from (send_radio_settings (cr_id req) from) s
      | C_set_radio_settings m \<Rightarrow> handle_set_radio_settings lora (cr_id req) m from s
      | C_send_packet m \<Rightarrow> handle_send_packet lora (cr_id req) m from s
      | C_fetch_packets m \<Rightarrow> handle_fetch_packets (cr_id req) m from s
      | C_purge_store \<Rightarrow> require_auth (cr_id req) from
          (\<lambda>s. send_ok (cr_id req) from (s\<lparr>cp_store := ps_clear (cp_store s)\<rparr>)) s
      | C_bootloader \<Rightarrow> require_auth (cr_id req) from
          (\<lambda>s. run_hook Hook_Reboot_To_Bootloader (send_ok (cr_id req) from s)) s
      | C_get_device_settings \<Rightarrow> require_auth (cr_id req) from (send_device_settings (cr_id req) from) s
      | C_set_device_settings m \<Rightarrow> handle_set_device_settings (cr_id req) m from s
      | C_get_status \<Rightarrow> send_status (cr_id req) from s
      | C_auth m \<Rightarrow> handle_auth (cr_id req) m from s
      | C_reboot \<Rightarrow> require_auth (cr_id req) from (\<lambda>s. run_hook Hook_Reboot (send_ok (cr_id req) from s)) s
      | C_factory_reset \<Rightarrow> require_auth (cr_id req) from
          (\<lambda>s. let s = s\<lparr>cp_device := device_defaults\<rparr>;
                   s = emit Clear_Device (s\<lparr>cp_settings_store := ms_clear_device (cp_settings_store s)\<rparr>);
                   s = s\<lparr>cp_store := ps_clear (cp_store s)\<rparr>
               in run_hook Hook_Factory_Reset (send_ok (cr_id req) from s)) s
      | C_none \<Rightarrow> send_error (cr_id req) ERROR_CODE_BAD_COMMAND from s)"

text \<open>\<open>None\<close> is the null connection.\<close>

definition on_envelope :: "lora_radio \<Rightarrow> byte list \<Rightarrow> sink option \<Rightarrow> command_processor \<Rightarrow> command_processor" where
  "on_envelope lora data from s =
     (case from of
        None \<Rightarrow> s
      | Some from \<Rightarrow> (case decode_envelope data of None \<Rightarrow> s | Some req \<Rightarrow> handle_request lora req from s))"

section \<open>The radio and the main loop\<close>

definition on_packet_received ::
  "byte \<Rightarrow> byte \<Rightarrow> byte list \<Rightarrow> command_processor \<Rightarrow> command_processor \<times> nat" where
  "on_packet_received rssi snr raw s =
     (let s = s\<lparr>cp_noise_floor_dbm := scast rssi - scast snr\<rparr>;
          (store, seq, out) = ps_append (uptime_ms64 (cp_clock s)) rssi snr kFlagReceived raw (cp_store s);
          s = s\<lparr>cp_store := store\<rparr>
      in if seq = 0 then (s, 0)
         else case out of
           None \<Rightarrow> (s, seq)
         | Some e \<Rightarrow> (broadcast_response None True (build_packet_entry 0 e s), seq))"

definition on_tx_result :: "nat \<Rightarrow> bool \<Rightarrow> command_processor \<Rightarrow> command_processor" where
  "on_tx_result seq ok s =
     (if \<not> cp_tx_pending s \<or> seq \<noteq> cp_tx_pending_seq s then s
      else emit_tx_result seq ok (s\<lparr>cp_tx_pending := False\<rparr>))"

definition processor_poll :: "lora_radio \<Rightarrow> u32 \<Rightarrow> command_processor \<Rightarrow> command_processor" where
  "processor_poll lora now s =
     (let s = s\<lparr>cp_clock := uc_poll now (cp_clock s)\<rparr>
      in if cp_tx_pending s \<and> lr_tx_done lora then on_tx_result (cp_tx_pending_seq s) True s else s)"

end
