(* ===== verification/PbCodec.thy ===== *)
theory PbCodec
  imports Messages
begin

text \<open>
  What nanopb's encoder writes and what its decoder makes of it.  \<open>w_uint\<close>, \<open>w_int32\<close>, \<open>w_bool\<close>,
  \<open>w_bytes\<close>, \<open>w_str\<close>, \<open>w_enums\<close> and \<open>w_len\<close> are the wire formats of the protocol-buffers
  specification; \<open>encodes e bs\<close> says that the encoder \<open>e\<close> writes exactly \<open>bs\<close> to every stream, sizing
  or real, that has room for them.  One introduction rule per kind of field (\<open>enc_intros\<close>) and one
  decoding step per kind of field (\<open>dec_steps\<close>) carry the theorems on the messages.
\<close>

named_theorems enc_intros \<open>what the encoders write\<close>

section \<open>Encoders that write exactly some bytes\<close>

definition fits :: "nat \<Rightarrow> pb_ostream \<Rightarrow> bool" where
  "fits n st \<longleftrightarrow> os_bytes_written st + n < 2 ^ 32 \<and> (\<not> os_sizing st \<longrightarrow> os_bytes_written st + n \<le> os_max_size st)"

definition put :: "byte list \<Rightarrow> pb_ostream \<Rightarrow> pb_ostream" where
  "put bs st = st\<lparr>os_bytes_written := os_bytes_written st + length bs,
     os_out := (if os_sizing st then os_out st else os_out st @ bs)\<rparr>"

definition encodes :: "(pb_ostream \<Rightarrow> pb_error + pb_ostream) \<Rightarrow> byte list \<Rightarrow> bool" where
  "encodes e bs \<longleftrightarrow> (\<forall>st. fits (length bs) st \<longrightarrow> e st = Inr (put bs st))"

lemma put_simps [simp]:
  "os_sizing (put bs st) = os_sizing st" "os_max_size (put bs st) = os_max_size st"
  "os_bytes_written (put bs st) = os_bytes_written st + length bs"
  "put [] st = st" "put ys (put xs st) = put (xs @ ys) st"
  by (simp_all add: put_def)

lemma fits_append: "fits (m + n) st \<longleftrightarrow> fits m st \<and> fits n (put bs st)" if "length bs = m"
  using that by (auto simp: fits_def)

lemma encodesD: "encodes e bs \<Longrightarrow> fits (length bs) st \<Longrightarrow> e st = Inr (put bs st)"
  by (simp add: encodes_def)

lemma encodes_write: "encodes (pb_write bs) bs"
  unfolding encodes_def
proof (intro allI impI)
  fix st assume "fits (length bs) st"
  then show "pb_write bs st = Inr (put bs st)"
    by (simp add: fits_def pb_write_def put_def wrap_simps Let_def) (auto simp: add32_def)
qed

lemma encodes_bind:
  "encodes e xs \<Longrightarrow> encodes e' ys \<Longrightarrow>
     encodes (\<lambda>st. case e st of Inl x \<Rightarrow> Inl x | Inr st' \<Rightarrow> e' st') (xs @ ys)"
  by (simp add: encodes_def fits_append [of xs "length xs"])

lemma encodes_varint: "encodes (pb_encode_varint v) (varint_bytes v)"
  using encodes_write [of "varint_bytes v"] by (simp add: encodes_def pb_encode_varint_bytes)

section \<open>The wire formats\<close>

definition w_tag :: "nat \<Rightarrow> nat \<Rightarrow> byte list" where
  "w_tag n wt = varint_bytes (push_bit 3 (of_nat n) OR of_nat wt)"

definition w_uint :: "nat \<Rightarrow> u64 \<Rightarrow> byte list" where
  "w_uint n v = (if v = 0 then [] else w_tag n 0 @ varint_bytes v)"

definition w_int32 :: "nat \<Rightarrow> u32 \<Rightarrow> byte list" where
  "w_int32 n v = (if v = 0 then [] else w_tag n 0 @ varint_bytes (scast v))"

definition w_bool :: "nat \<Rightarrow> bool \<Rightarrow> byte list" where
  "w_bool n b = (if b then w_tag n 0 @ varint_bytes 1 else [])"

definition w_len :: "nat \<Rightarrow> byte list \<Rightarrow> byte list" where
  "w_len n bs = w_tag n 2 @ varint_bytes (of_nat (length bs)) @ bs"

definition w_bytes :: "nat \<Rightarrow> byte list \<Rightarrow> byte list" where
  "w_bytes n bs = (if bs = [] then [] else w_len n bs)"

definition w_str :: "nat \<Rightarrow> byte list \<Rightarrow> byte list" where
  "w_str n s = w_bytes n (cstr s)"

definition w_enums :: "nat \<Rightarrow> u32 list \<Rightarrow> byte list" where
  "w_enums n vs = (if vs = [] then [] else w_len n (concat (map (\<lambda>v. varint_bytes (ucast v)) vs)))"

definition w_opt :: "bool \<Rightarrow> byte list \<Rightarrow> byte list" where
  "w_opt has bs = (if has then bs else [])"

text \<open>A \<open>char\<close> array as the firmware fills it: terminated, and NULs to the end.\<close>

definition padded :: "nat \<Rightarrow> byte list \<Rightarrow> bool" where
  "padded n s \<longleftrightarrow> length (cstr s) < n \<and> s = cstr s @ replicate (n - length (cstr s)) 0"

lemma encodes_tag: "encodes (pb_encode_tag wt n) (w_tag n (wire_type_num wt))"
  using encodes_varint by (simp add: encodes_def pb_encode_tag_def w_tag_def)

lemma encodes_tag_string: "encodes (pb_encode_tag PB_WT_STRING n) (w_tag n 2)"
  using encodes_tag [of PB_WT_STRING n] by simp

lemma encodes_string: "encodes (pb_encode_string bs) (varint_bytes (of_nat (length bs)) @ bs)"
  using encodes_bind [OF encodes_varint encodes_write] by (simp add: encodes_def pb_encode_string_def)

lemma encodes_submessage:
  assumes "encodes (enc m) bs"
  shows "encodes (pb_encode_submessage enc m) (varint_bytes (of_nat (length bs)) @ bs)"
  unfolding encodes_def
proof (intro allI impI)
  fix st
  define v where "v = varint_bytes (of_nat (length bs))"
  assume "fits (length (varint_bytes (of_nat (length bs)) @ bs)) st"
  then have f: "os_bytes_written st + length v + length bs < 2 ^ 32"
      "\<not> os_sizing st \<Longrightarrow> os_bytes_written st + length v + length bs \<le> os_max_size st"
    by (simp_all add: fits_def v_def)
  have v: "pb_encode_varint (of_nat (length bs)) st = Inr (put v st)"
    unfolding v_def by (rule encodesD [OF encodes_varint]) (use f in \<open>auto simp: fits_def v_def\<close>)
  have sizing: "enc m PB_OSTREAM_SIZING = Inr (put bs PB_OSTREAM_SIZING)"
    using f by (intro encodesD [OF assms]) (simp add: fits_def PB_OSTREAM_SIZING_def)
  have written: "os_bytes_written PB_OSTREAM_SIZING = 0"
    by (simp add: PB_OSTREAM_SIZING_def)
  let ?sub = "\<lparr>os_sizing = False, os_max_size = length bs, os_bytes_written = 0, os_out = os_out (put v st)\<rparr>"
  have real: "enc m ?sub = Inr (put bs ?sub)"
    using f by (intro encodesD [OF assms]) (simp add: fits_def)
  have add: "add32 (os_bytes_written st + length v) (length bs) = os_bytes_written st + length v + length bs"
    using f by (intro add32_small)
  show "pb_encode_submessage enc m st = Inr (put (varint_bytes (of_nat (length bs)) @ bs) st)"
    unfolding v_def [symmetric]
  proof (cases "os_sizing st")
    case True
    then show "pb_encode_submessage enc m st = Inr (put (v @ bs) st)"
      by (simp add: pb_encode_submessage_def sizing v written pb_write_sizing_def add) (simp add: put_def)
  next
    case False
    then show "pb_encode_submessage enc m st = Inr (put (v @ bs) st)"
      using f(2) by (simp add: pb_encode_submessage_def sizing v written real add) (simp add: put_def)
  qed
qed

section \<open>Fields\<close>

lemma encodes_none: "(\<And>st. e st = Inr st) \<Longrightarrow> encodes e []"
  by (simp add: encodes_def)

lemma encodes_basic:
  assumes "encodes (\<lambda>st. case f_data f of
             Pb_Scalar ltype data_size rd wr \<Rightarrow> encode_scalar ltype data_size (rd m) st
           | Pb_Bytes data_size rd wr \<Rightarrow> pb_enc_bytes data_size (rd m) st
           | Pb_String data_size rd wr \<Rightarrow> pb_enc_string data_size (rd m) st
           | Pb_Array ltype data_size array_size rd wr \<Rightarrow> Inl Invalid_Field_Type
           | Pb_Message dec enc zero is_default \<Rightarrow> pb_encode_submessage enc m st) bs"
  shows "encodes (encode_basic_field f m) (w_tag (f_tag f) (wire_type_num (wire_type_for (f_data f))) @ bs)"
  using encodes_bind [OF encodes_tag assms]
  by (simp add: encodes_def encode_basic_field_def pb_encode_tag_for_field_def)

lemma take_bit_32: "take_bit 32 (ucast (v :: u32) :: u64) = ucast v"
  by (rule bit_word_eqI) (auto simp: bit_simps dest: bit_imp_le_length)

lemma take_bit_64: "take_bit 64 (v :: u64) = v"
  by (rule bit_word_eqI) (auto simp: bit_simps)

lemma unat_of_nat_u64: "k < 2 ^ 64 \<Longrightarrow> unat (of_nat k :: u64) = k"
  by (simp add: unat_of_nat)

lemma ucast_0_iff: "(ucast (v :: u32) :: u64) = 0 \<longleftrightarrow> v = 0"
proof
  assume "(ucast v :: u64) = 0"
  then have "(ucast (ucast v :: u64) :: u32) = ucast (0 :: u64)" by simp
  moreover have "(ucast (ucast v :: u64) :: u32) = v"
    by (rule bit_word_eqI) (simp add: bit_simps)
  ultimately show "v = 0" by simp
qed simp

lemma signed_take_bit_32: "signed_take_bit 31 (ucast (v :: u32)) = (scast v :: u64)"
  by (rule bit_word_eqI) (auto simp: bit_simps)

text \<open>The content of a field of each kind, and the fields built from it.\<close>

definition encode_data :: "'m pb_data \<Rightarrow> 'm \<Rightarrow> pb_ostream \<Rightarrow> pb_error + pb_ostream" where
  "encode_data d m st = (case d of
             Pb_Scalar ltype data_size rd wr \<Rightarrow> encode_scalar ltype data_size (rd m) st
           | Pb_Bytes data_size rd wr \<Rightarrow> pb_enc_bytes data_size (rd m) st
           | Pb_String data_size rd wr \<Rightarrow> pb_enc_string data_size (rd m) st
           | Pb_Array ltype data_size array_size rd wr \<Rightarrow> Inl Invalid_Field_Type
           | Pb_Message dec enc zero is_default \<Rightarrow> pb_encode_submessage enc m st)"

definition is_array :: "'m pb_data \<Rightarrow> bool" where
  "is_array d \<longleftrightarrow> (case d of Pb_Array _ _ _ _ _ \<Rightarrow> True | _ \<Rightarrow> False)"

lemma encodes_present:
  assumes "encodes (encode_data (f_data f) m) bs" "\<not> is_array (f_data f)"
    and "\<not> (case f_presence f of
            Oneof which enter clear \<Rightarrow> which m \<noteq> f_tag f
          | Optional has set_has \<Rightarrow> \<not> has m
          | Singular \<Rightarrow> pb_check_proto3_default_value f m)"
  shows "encodes (encode_field f m) (w_tag (f_tag f) (wire_type_num (wire_type_for (f_data f))) @ bs)"
proof -
  have "encode_field f m = encode_basic_field f m"
    using assms(2,3) by (cases "f_data f") (simp_all add: encode_field_def is_array_def fun_eq_iff)
  then show ?thesis
    using encodes_basic [where f = f and m = m and bs = bs] assms(1) by (simp add: encodes_def encode_data_def)
qed

lemma encodes_one:
  assumes "encodes (encode_data d m) bs" "\<not> is_array d"
  shows "encodes (encode_field (f_one n d) m)
    (if pb_check_proto3_default_value (f_one n d) m then [] else w_tag n (wire_type_num (wire_type_for d)) @ bs)"
proof (cases "pb_check_proto3_default_value (f_one n d) m")
  case True
  then show ?thesis by (simp add: encodes_def encode_field_def f_one_def)
next
  case False
  then show ?thesis
    using encodes_present [of "f_one n d" m bs] assms by (simp add: f_one_def)
qed

lemma encodes_opt:
  assumes "encodes (encode_data d m) bs" "\<not> is_array d"
  shows "encodes (encode_field (f_opt n has set_has d) m)
    (w_opt (has m) (w_tag n (wire_type_num (wire_type_for d)) @ bs))"
proof (cases "has m")
  case False
  then show ?thesis by (simp add: encodes_def encode_field_def f_opt_def w_opt_def)
next
  case True
  then show ?thesis
    using encodes_present [of "f_opt n has set_has d" m bs] assms by (simp add: f_opt_def w_opt_def)
qed

lemma data_uint32:
  "encodes (encode_data (d_uint32 rd wr) m) (varint_bytes (ucast (rd m)))"
  using encodes_varint [of "ucast (rd m)"]
  by (simp add: encodes_def encode_data_def d_uint32_def encode_scalar_def pb_enc_varint_def take_bit_32)

lemma data_int32:
  "encodes (encode_data (d_int32 rd wr) m) (varint_bytes (scast (rd m)))"
  using encodes_varint [of "scast (rd m)"]
  by (simp add: encodes_def encode_data_def d_int32_def encode_scalar_def pb_enc_varint_def signed_take_bit_32)

lemma data_uint64:
  "encodes (encode_data (d_uint64 rd wr) m) (varint_bytes (rd m))"
  using encodes_varint [of "rd m"]
  by (simp add: encodes_def encode_data_def d_uint64_def encode_scalar_def pb_enc_varint_def take_bit_64)

lemma data_bool:
  "encodes (encode_data (d_bool rd wr) m) (varint_bytes (of_bool (rd m)))"
  using encodes_varint [of 0] encodes_varint [of 1]
  by (cases "rd m") (simp_all add: encodes_def encode_data_def d_bool_def encode_scalar_def pb_enc_bool_def)

lemma data_bytes:
  "length (rd m) \<le> n - 2 \<Longrightarrow>
    encodes (encode_data (Pb_Bytes n rd wr) m) (varint_bytes (of_nat (length (rd m))) @ rd m)"
  using encodes_string [of "rd m"] by (simp add: encodes_def encode_data_def pb_enc_bytes_def)

lemma padded_facts:
  assumes "padded n s"
  shows "length s = n" "0 < n" "length (takeWhile (\<lambda>c. c \<noteq> 0) (take (n - 1) s)) = length (cstr s)"
    "s ! length (cstr s) = 0" "take (length (cstr s)) s = cstr s"
proof -
  have l: "length (cstr s) < n" and s: "s = cstr s @ replicate (n - length (cstr s)) 0"
    using assms by (auto simp: padded_def)
  show "0 < n" using l by simp
  show "length s = n" using l s by (metis le_add_diff_inverse length_append length_replicate less_imp_le)
  have "takeWhile (\<lambda>c. c \<noteq> 0) (take (n - 1) s) = take (n - 1) (cstr s)"
    by (simp add: takeWhile_take cstr_def)
  then show "length (takeWhile (\<lambda>c. c \<noteq> 0) (take (n - 1) s)) = length (cstr s)"
    using l by simp
  show "s ! length (cstr s) = 0"
    using l by (subst s) (simp add: nth_append)
  show "take (length (cstr s)) s = cstr s"
    by (subst (2) s) simp
qed

lemma data_string:
  "padded n (rd m) \<Longrightarrow>
    encodes (encode_data (Pb_String n rd wr) m) (varint_bytes (of_nat (length (cstr (rd m)))) @ cstr (rd m))"
  using encodes_string [of "cstr (rd m)"] padded_facts [of n "rd m"]
  by (simp add: encode_data_def pb_enc_string_def encodes_def)

lemma data_submsg:
  "encodes (pb_encode fs (rd m)) bs \<Longrightarrow>
    encodes (encode_data (submsg fs zero rd wr) m) (varint_bytes (of_nat (length bs)) @ bs)"
  using encodes_submessage [of "\<lambda>m. pb_encode fs (rd m)" m bs]
  by (simp add: encodes_def encode_data_def submsg_def)

lemmas data_defs = d_uint32_def d_uenum_def d_int32_def d_uint64_def d_bool_def submsg_def

lemma d_uenum_eq: "d_uenum = d_uint32"
  by (simp add: fun_eq_iff d_uenum_def d_uint32_def)

lemma encodes_uint32 [enc_intros]: "encodes (encode_field (f_one n (d_uint32 rd wr)) m) (w_uint n (ucast (rd m)))"
  using encodes_one [OF data_uint32 [where rd = rd and wr = wr and m = m], where n = n]
  by (cases "rd m = 0") (simp_all add: data_defs is_array_def wire_type_for_def pb_check_proto3_default_value_def
      f_one_def w_uint_def take_bit_32 ucast_0_iff)

lemma encodes_uenum [enc_intros]: "encodes (encode_field (f_one n (d_uenum rd wr)) m) (w_uint n (ucast (rd m)))"
  unfolding d_uenum_eq by (rule encodes_uint32)

lemma encodes_int32 [enc_intros]: "encodes (encode_field (f_one n (d_int32 rd wr)) m) (w_int32 n (rd m))"
  using encodes_one [OF data_int32 [where rd = rd and wr = wr and m = m], where n = n]
  by (cases "rd m = 0") (simp_all add: data_defs is_array_def wire_type_for_def pb_check_proto3_default_value_def
      f_one_def w_int32_def take_bit_32 ucast_0_iff)

lemma encodes_uint64 [enc_intros]: "encodes (encode_field (f_one n (d_uint64 rd wr)) m) (w_uint n (rd m))"
  using encodes_one [OF data_uint64 [where rd = rd and wr = wr and m = m], where n = n]
  by (cases "rd m = 0") (simp_all add: data_defs is_array_def wire_type_for_def pb_check_proto3_default_value_def
      f_one_def w_uint_def take_bit_64)

lemma encodes_bool [enc_intros]: "encodes (encode_field (f_one n (d_bool rd wr)) m) (w_bool n (rd m))"
  using encodes_one [OF data_bool [where rd = rd and wr = wr and m = m], where n = n]
  by (cases "rd m") (simp_all add: data_defs is_array_def wire_type_for_def pb_check_proto3_default_value_def f_one_def
      w_bool_def)

lemma encodes_bytes [enc_intros]:
  "length (rd m) \<le> k - 2 \<Longrightarrow> encodes (encode_field (f_one n (Pb_Bytes k rd wr)) m) (w_bytes n (rd m))"
  using encodes_one [OF data_bytes, of rd m k wr n]
  by (cases "rd m = []") (simp_all add: is_array_def wire_type_for_def pb_check_proto3_default_value_def f_one_def w_bytes_def w_len_def)

lemma encodes_str [enc_intros]:
  "padded k (rd m) \<Longrightarrow> encodes (encode_field (f_one n (Pb_String k rd wr)) m) (w_str n (rd m))"
proof -
  assume p: "padded k (rd m)"
  have "rd m ! 0 = 0 \<longleftrightarrow> cstr (rd m) = []"
    using padded_facts(1,2) [OF p] by (cases "rd m") (auto simp: cstr_def)
  then show ?thesis
    using encodes_one [OF data_string, of k rd m wr n] p
    by (cases "cstr (rd m) = []") (simp_all add: is_array_def wire_type_for_def pb_check_proto3_default_value_def f_one_def w_str_def w_bytes_def w_len_def)
qed

lemma encodes_opt_str [enc_intros]:
  "padded k (rd m) \<Longrightarrow>
    encodes (encode_field (f_opt n has set_has (Pb_String k rd wr)) m) (w_opt (has m) (w_len n (cstr (rd m))))"
  using encodes_opt [OF data_string, of k rd m wr n has set_has]
  by (simp add: is_array_def wire_type_for_def w_len_def)

lemma encodes_opt_bool [enc_intros]:
  "encodes (encode_field (f_opt n has set_has (d_bool rd wr)) m)
     (w_opt (has m) (w_tag n 0 @ varint_bytes (of_bool (rd m))))"
  using encodes_opt [OF data_bool, of rd wr n has set_has m]
  by (simp add: is_array_def data_defs wire_type_for_def)

lemma encodes_opt_uint32 [enc_intros]:
  "encodes (encode_field (f_opt n has set_has (d_uint32 rd wr)) m)
     (w_opt (has m) (w_tag n 0 @ varint_bytes (ucast (rd m))))"
  using encodes_opt [OF data_uint32, of rd wr n has set_has m]
  by (simp add: is_array_def data_defs wire_type_for_def)

lemma encodes_opt_submsg [enc_intros]:
  "encodes (pb_encode fs (rd m)) bs \<Longrightarrow>
    encodes (encode_field (f_opt n has set_has (submsg fs zero rd wr)) m) (w_opt (has m) (w_len n bs))"
  using encodes_opt [OF data_submsg, of fs rd m bs zero wr n has set_has]
  by (simp add: is_array_def data_defs wire_type_for_def w_len_def)

section \<open>Arrays and messages\<close>

lemma encodes_cells:
  "encodes (encode_cells LT_UVARINT 4 (map ucast vs)) (concat (map (\<lambda>v. varint_bytes (ucast (v :: u32))) vs))"
proof (induction vs)
  case Nil
  then show ?case by (simp add: encodes_def)
next
  case (Cons v vs)
  have "encodes (encode_scalar LT_UVARINT 4 (ucast v)) (varint_bytes (ucast v))"
    using encodes_varint [of "ucast v"] by (simp add: encodes_def encode_scalar_def pb_enc_varint_def take_bit_32)
  from encodes_bind [OF this Cons.IH] show ?case
    by (simp add: encodes_def)
qed

lemma encodes_enums [enc_intros]:
  assumes "length (rd m) \<le> k"
  shows "encodes (encode_field (f_one n (d_enums k rd wr)) m) (w_enums n (rd m))"
proof (cases "rd m = []")
  case True
  then show ?thesis
    by (simp add: encodes_def w_enums_def encode_field_def f_one_def d_enums_def pb_check_proto3_default_value_def)
next
  case False
  let ?bs = "concat (map (\<lambda>v. varint_bytes (ucast (v :: u32))) (rd m))"
  have e: "encode_field (f_one n (d_enums k rd wr)) m = encode_array LT_UVARINT 4 k n (map ucast (rd m))"
    using False by (simp add: fun_eq_iff encode_field_def f_one_def d_enums_def pb_check_proto3_default_value_def)
  show ?thesis
    unfolding e encodes_def
  proof (intro allI impI)
    fix st assume f: "fits (length (w_enums n (rd m))) st"
    define tg vl bs where "tg = w_tag n 2" and "vl = varint_bytes (of_nat (length ?bs))" and "bs = ?bs"
    have w: "w_enums n (rd m) = tg @ vl @ bs"
      using False by (simp add: w_enums_def w_len_def tg_def vl_def bs_def)
    have f': "os_bytes_written st + length tg + length vl + length bs < 2 ^ 32"
        "\<not> os_sizing st \<longrightarrow> os_bytes_written st + length tg + length vl + length bs \<le> os_max_size st"
      using f unfolding w by (auto simp: fits_def add.assoc)
    have t: "pb_encode_tag PB_WT_STRING n st = Inr (put tg st)"
      unfolding tg_def by (rule encodesD [OF encodes_tag_string]) (use f' in \<open>auto simp: fits_def tg_def\<close>)
    have v: "pb_encode_varint (of_nat (length bs)) (put tg st) = Inr (put (tg @ vl) st)"
    proof -
      have vl: "varint_bytes (of_nat (length bs)) = vl" by (simp add: vl_def bs_def)
      have "fits (length vl) (put tg st)" using f' by (auto simp: fits_def)
      then show ?thesis
        using encodesD [OF encodes_varint [of "of_nat (length bs)", unfolded vl]] by simp
    qed
    have sizing: "encode_cells LT_UVARINT 4 (map ucast (rd m)) PB_OSTREAM_SIZING = Inr (put bs PB_OSTREAM_SIZING)"
      unfolding bs_def
      by (rule encodesD [OF encodes_cells]) (use f' in \<open>simp add: fits_def PB_OSTREAM_SIZING_def bs_def\<close>)
    have cells: "encode_cells LT_UVARINT 4 (map ucast (rd m)) (put (tg @ vl) st) = Inr (put ((tg @ vl) @ bs) st)"
    proof -
      have "fits (length bs) (put (tg @ vl) st)" using f' by (auto simp: fits_def)
      then show ?thesis
        using encodesD [OF encodes_cells [of "rd m", folded bs_def]] by simp
    qed
    have written: "os_bytes_written PB_OSTREAM_SIZING = 0"
      by (simp add: PB_OSTREAM_SIZING_def)
    have add: "add32 (os_bytes_written st + length tg + length vl) (length bs)
        = os_bytes_written st + length tg + length vl + length bs"
      using f' by (intro add32_small)
    show "encode_array LT_UVARINT 4 k n (map ucast (rd m)) st = Inr (put (w_enums n (rd m)) st)"
      unfolding w using False assms
      by (simp add: encode_array_def t sizing written v cells)
         (auto simp: pb_write_sizing_def put_def add [simplified add.assoc] add.assoc)
  qed
qed

lemma encodes_fields:
  "encodes (pb_encode [] m) []"
  "encodes (encode_field f m) bs \<Longrightarrow> encodes (pb_encode [f] m) bs"
  "encodes (encode_field f m) bs \<Longrightarrow> encodes (pb_encode (g # fs) m) bs' \<Longrightarrow>
     encodes (pb_encode (f # g # fs) m) (bs @ bs')"
proof -
  show nil: "encodes (pb_encode [] m) []"
    by (simp add: encodes_def)
  have cons: "encodes (pb_encode (f # fs) m) (bs @ bs')"
    if "encodes (encode_field f m) bs" "encodes (pb_encode fs m) bs'" for fs bs'
    using encodes_bind [OF that] by (simp add: encodes_def)
  show "encodes (encode_field f m) bs \<Longrightarrow> encodes (pb_encode [f] m) bs"
    using cons [OF _ nil] by simp
  show "encodes (encode_field f m) bs \<Longrightarrow> encodes (pb_encode (g # fs) m) bs' \<Longrightarrow>
     encodes (pb_encode (f # g # fs) m) (bs @ bs')"
    by (rule cons)
qed

section \<open>Decoding what was encoded\<close>

named_theorems dec_steps \<open>one field decoded by the message loop\<close>

lemma tag_value:
  assumes "n < 2 ^ 29" "wt < 8"
  shows "(push_bit 3 (of_nat n) OR of_nat wt :: u64) = of_nat (8 * n + wt)"
proof -
  have z: "\<not> bit wt i" if "3 \<le> i" for i
    using assms(2) power_increasing [OF that, of "2 :: nat"] by (simp add: bit_iff_odd)
  have "push_bit 3 (of_nat n) OR of_nat wt = push_bit 3 (of_nat n) + (of_nat wt :: u64)"
  proof (rule disjunctive_add_eq_or [symmetric])
    show "push_bit 3 (of_nat n) AND of_nat wt = (0 :: u64)"
      by (rule bit_word_eqI) (auto simp: bit_simps z)
  qed
  also have "\<dots> = of_nat (8 * n + wt)"
    by (simp add: push_bit_eq_mult)
  finally show ?thesis .
qed

lemma unat_and_7: "unat ((w :: u32) AND 7) = unat w mod 8"
proof -
  have e: "w AND 7 = take_bit 3 w"
    by (simp add: take_bit_eq_mask mask_eq_exp_minus_1)
  show ?thesis
    unfolding e by (rule trans [OF unsigned_take_bit_eq]) (simp add: take_bit_eq_mod)
qed

lemma pb_decode_tag_w:
  assumes "n < 2 ^ 29" "wt < 8"
  shows "pb_decode_tag (w_tag n wt @ rest) = (Inr ((wire_type_of wt, n), rest), False)"
proof -
  let ?v = "of_nat (8 * n + wt) :: u64"
  have small: "8 * n + wt < 2 ^ 32" using assms by simp
  have u: "unat ?v = 8 * n + wt"
    by (rule unat_of_nat_u64) (use small in simp)
  have "drop_bit 32 ?v = 0"
    unfolding word_unat_eq_iff unat_drop_bit_div u using small by simp
  then have d: "pb_decode_varint32_eof (w_tag n wt @ rest) = (Inr (ucast ?v, rest), False)"
    unfolding w_tag_def tag_value [OF assms] by (rule pb_decode_varint32_eof_bytes)
  have u32: "unat (ucast ?v :: u32) = 8 * n + wt"
    unfolding unsigned_ucast_eq u take_bit_eq_mod using small by simp
  have "unat ((ucast ?v :: u32) AND 7) = (8 * n + wt) mod 8"
    using u32 by (simp add: unat_and_7)
  moreover have "unat (drop_bit 3 (ucast ?v :: u32)) = (8 * n + wt) div 8"
    unfolding unat_drop_bit_div u32 by simp
  ultimately show ?thesis
    using assms d by (simp add: pb_decode_tag_def)
qed

lemma w_tag_nonempty: "w_tag n wt \<noteq> []"
  by (simp add: w_tag_def varint_bytes_nonempty)

lemma loop_field:
  assumes "0 < n" "n < 16" "wt < 8" "pb_field_iter_find fs n = Some f"
    and "decode_static_field f (wire_type_of wt) (content @ rest) m = Inr (m', rest)"
  shows "pb_decode_loop fs (w_tag n wt @ content @ rest) m = pb_decode_loop fs rest m'"
proof -
  have "pb_decode_tag (w_tag n wt @ content @ rest) = (Inr ((wire_type_of wt, n), content @ rest), False)"
    using assms(2,3) by (intro pb_decode_tag_w) simp_all
  then show ?thesis
    using assms by (subst pb_decode_loop.simps) (simp add: w_tag_nonempty)
qed

lemma ucast_ucast_32: "(ucast (ucast (v :: u32) :: u64) :: u32) = v"
  by (rule bit_word_eqI) (simp add: bit_simps)

lemma small_u64: "n < 2 ^ 32 \<Longrightarrow> drop_bit 32 (of_nat n :: u64) = 0"
  by (simp add: word_unat_eq_iff unat_drop_bit_div unat_of_nat del: drop_bit_eq_div)

lemma small_u64': "n < 2 ^ 32 \<Longrightarrow> unat (ucast (of_nat n :: u64) :: u32) = n"
  by (simp add: unsigned_ucast_eq take_bit_eq_mod unat_of_nat)

lemma decode_uint32:
  "decode_scalar LT_UVARINT 4 PB_WT_VARINT (varint_bytes (ucast v) @ rest) = Inr (ucast (v :: u32), rest)"
  "decode_scalar LT_UVARINT 4 PB_WT_PACKED (varint_bytes (ucast v) @ rest) = Inr (ucast v, rest)"
  by (simp_all add: decode_scalar_def pb_dec_varint_def pb_decode_varint_bytes take_bit_32)

lemma decode_uint64:
  "decode_scalar LT_UVARINT 8 PB_WT_VARINT (varint_bytes v @ rest) = Inr (v, rest)"
  by (simp add: decode_scalar_def pb_dec_varint_def pb_decode_varint_bytes take_bit_64)

lemma decode_int32:
  "decode_scalar LT_VARINT 4 PB_WT_VARINT (varint_bytes (scast v) @ rest) = Inr (ucast (v :: u32), rest)"
proof -
  have "bit (signed_take_bit 31 (scast v :: u64)) n = bit (scast v :: u64) n \<and>
      bit (take_bit 32 (scast v :: u64)) n = bit (ucast v :: u64) n" if "n < 64" for n
  proof -
    consider "n < 31" | "n = 31" | "31 < n" by linarith
    then show ?thesis
      using that by cases (auto simp: bit_simps min_def dest: bit_imp_le_length)
  qed
  then have "signed_take_bit 31 (scast v :: u64) = scast v" "take_bit 32 (scast v :: u64) = ucast v"
    by (auto intro!: bit_word_eqI)
  then show ?thesis
    by (simp add: decode_scalar_def pb_dec_varint_def pb_decode_varint_bytes)
qed

lemma decode_bool:
  "decode_scalar LT_BOOL 1 PB_WT_VARINT (varint_bytes (of_bool b) @ rest) = Inr (of_bool b, rest)"
  by (cases b) (simp_all add: decode_scalar_def pb_dec_bool_def pb_decode_bool_def pb_decode_varint32_bytes
      del: drop_bit_eq_div)

lemma decode_len:
  assumes "length bs < 2 ^ 32"
  shows "pb_string_substream (varint_bytes (of_nat (length bs)) @ bs @ rest) = Inr (bs, rest)"
    "pb_decode_varint32 (varint_bytes (of_nat (length bs)) @ bs @ rest) = Inr (ucast (of_nat (length bs) :: u64), bs @ rest)"
  using pb_decode_varint32_bytes [OF small_u64 [OF assms]] small_u64' [OF assms]
  by (simp_all add: pb_string_substream_def)

lemma read_exact: "pb_read (length bs) (bs @ rest) = Inr (bs, rest)"
  by (simp add: pb_read_def)

lemma find_in [simp]:
  "pb_field_iter_find (f # fs) n = (if f_tag f = n then Some f else pb_field_iter_find fs n)"
  "f_tag (f_one n d) = n" "f_tag (f_opt n has set_has d) = n"
  by (simp_all add: pb_field_iter_find_def f_one_def f_opt_def)

text \<open>
  The steps: \<open>n\<close> is the tag, \<open>m\<close> the message decoded so far; what is decoded over must still have
  its default where the encoder leaves a default value out.
\<close>

lemma step_uint32 [dec_steps]:
  assumes "pb_field_iter_find fs n = Some (f_one n (d_uint32 rd wr))" "0 < n" "n < 16" "v = 0 \<Longrightarrow> wr 0 m = m"
  shows "pb_decode_loop fs (w_uint n (ucast v) @ rest) m = pb_decode_loop fs rest (wr v m)"
proof (cases "v = 0")
  case True
  then show ?thesis using assms(4) by (simp add: w_uint_def)
next
  case False
  then show ?thesis
    using loop_field [OF assms(2,3) _ assms(1), of 0 "varint_bytes (ucast v)" rest m "wr v m"]
    by (simp add: w_uint_def ucast_0_iff decode_static_field_def f_one_def d_uint32_def decode_basic_field_def
        wire_type_of_def decode_uint32 ucast_ucast_32)
qed

lemma step_uenum [dec_steps]:
  assumes "pb_field_iter_find fs n = Some (f_one n (d_uenum rd wr))" "0 < n" "n < 16" "v = 0 \<Longrightarrow> wr 0 m = m"
  shows "pb_decode_loop fs (w_uint n (ucast v) @ rest) m = pb_decode_loop fs rest (wr v m)"
  by (rule step_uint32 [OF assms(1) [unfolded d_uenum_eq] assms(2-4)])

lemma step_int32 [dec_steps]:
  assumes "pb_field_iter_find fs n = Some (f_one n (d_int32 rd wr))" "0 < n" "n < 16" "v = 0 \<Longrightarrow> wr 0 m = m"
  shows "pb_decode_loop fs (w_int32 n v @ rest) m = pb_decode_loop fs rest (wr v m)"
proof (cases "v = 0")
  case True
  then show ?thesis using assms(4) by (simp add: w_int32_def)
next
  case False
  then show ?thesis
    using loop_field [OF assms(2,3) _ assms(1), of 0 "varint_bytes (scast v)" rest m "wr v m"]
    by (simp add: w_int32_def decode_static_field_def f_one_def d_int32_def decode_basic_field_def
        wire_type_of_def decode_int32 ucast_ucast_32)
qed

lemma step_uint64 [dec_steps]:
  assumes "pb_field_iter_find fs n = Some (f_one n (d_uint64 rd wr))" "0 < n" "n < 16" "v = 0 \<Longrightarrow> wr 0 m = m"
  shows "pb_decode_loop fs (w_uint n v @ rest) m = pb_decode_loop fs rest (wr v m)"
proof (cases "v = 0")
  case True
  then show ?thesis using assms(4) by (simp add: w_uint_def)
next
  case False
  then show ?thesis
    using loop_field [OF assms(2,3) _ assms(1), of 0 "varint_bytes v" rest m "wr v m"]
    by (simp add: w_uint_def decode_static_field_def f_one_def d_uint64_def decode_basic_field_def
        wire_type_of_def decode_uint64)
qed

lemma step_bool [dec_steps]:
  assumes "pb_field_iter_find fs n = Some (f_one n (d_bool rd wr))" "0 < n" "n < 16" "\<not> v \<Longrightarrow> wr False m = m"
  shows "pb_decode_loop fs (w_bool n v @ rest) m = pb_decode_loop fs rest (wr v m)"
proof (cases v)
  case False
  then show ?thesis using assms(4) by (simp add: w_bool_def)
next
  case True
  then show ?thesis
    using loop_field [OF assms(2,3) _ assms(1), of 0 "varint_bytes 1" rest m "wr v m"] decode_bool [of True rest]
    by (simp add: w_bool_def decode_static_field_def f_one_def d_bool_def decode_basic_field_def wire_type_of_def)
qed

lemma decode_bytes_field:
  assumes "length bs \<le> k - 2" "2 \<le> k" "k \<le> 65536"
  shows "pb_dec_bytes k (varint_bytes (of_nat (length bs)) @ bs @ rest) = Inr (bs, rest)"
  using assms decode_len(2) [of bs rest] small_u64' [of "length bs"] read_exact [of bs rest]
  by (simp add: pb_dec_bytes_def)

lemma step_bytes [dec_steps]:
  assumes "pb_field_iter_find fs n = Some (f_one n (Pb_Bytes k rd wr))" "0 < n" "n < 16"
    and "length bs \<le> k - 2" "2 \<le> k" "k \<le> 65536" "bs = [] \<Longrightarrow> wr [] m = m"
  shows "pb_decode_loop fs (w_bytes n bs @ rest) m = pb_decode_loop fs rest (wr bs m)"
proof (cases "bs = []")
  case True
  then show ?thesis using assms(7) by (simp add: w_bytes_def)
next
  case False
  then show ?thesis
    using loop_field [OF assms(2,3) _ assms(1), of 2 "varint_bytes (of_nat (length bs)) @ bs" rest m "wr bs m"]
      decode_bytes_field [OF assms(4,5,6), of rest]
    by (simp add: w_bytes_def w_len_def decode_static_field_def f_one_def decode_basic_field_def wire_type_of_def)
qed

lemma decode_string_field:
  assumes "padded k s" "k < 2 ^ 32" "dest = replicate k 0"
  shows "pb_dec_string k dest (varint_bytes (of_nat (length (cstr s))) @ cstr s @ rest) = Inr (s, rest)"
proof -
  have l: "length (cstr s) < k" and s: "s = cstr s @ replicate (k - length (cstr s)) 0"
    using assms by (auto simp: padded_def)
  have u: "unat (ucast (of_nat (length (cstr s)) :: u64) :: u32) = length (cstr s)"
    using l assms(2) by (intro small_u64') simp
  have "unat (- 1 :: u32) = 2 ^ 32 - 1"
    by (simp add: unsigned_minus_1_eq_mask mask_eq_exp_minus_1)
  then have "(ucast (of_nat (length (cstr s)) :: u64) :: u32) \<noteq> - 1"
    using u l assms(2) by auto
  moreover have "cstr s @ 0 # drop (length (cstr s) + 1) dest = s"
  proof -
    have "k - length (cstr s) = Suc (k - (length (cstr s) + 1))" using l by simp
    then have "0 # drop (length (cstr s) + 1) dest = replicate (k - length (cstr s)) 0"
      by (simp add: assms(3))
    then show ?thesis using s by simp
  qed
  ultimately show ?thesis
    using l assms(2) u decode_len(2) [of "cstr s" rest] read_exact [of "cstr s" rest]
    by (simp add: pb_dec_string_def)
qed

lemma step_str [dec_steps]:
  assumes "pb_field_iter_find fs n = Some (f_one n (Pb_String k rd wr))" "0 < n" "n < 16"
    and "padded k s" "k < 2 ^ 32" "rd m = replicate k 0" "s = replicate k 0 \<Longrightarrow> wr (replicate k 0) m = m"
  shows "pb_decode_loop fs (w_str n s @ rest) m = pb_decode_loop fs rest (wr s m)"
proof (cases "cstr s = []")
  case True
  then have "s = replicate k 0" using assms(4) by (simp add: padded_def)
  with True show ?thesis using assms(7) by (simp add: w_str_def w_bytes_def)
next
  case False
  then show ?thesis
    using loop_field [OF assms(2,3) _ assms(1), of 2 "varint_bytes (of_nat (length (cstr s))) @ cstr s" rest m "wr s m"]
      decode_string_field [OF assms(4,5,6), of rest]
    by (simp add: w_str_def w_bytes_def w_len_def decode_static_field_def f_one_def decode_basic_field_def wire_type_of_def)
qed

lemma step_opt_str [dec_steps]:
  assumes "pb_field_iter_find fs n = Some (f_opt n has set_has (Pb_String k rd wr))" "0 < n" "n < 16"
    and "padded k s" "k < 2 ^ 32" "rd (set_has True m) = replicate k 0" "\<not> b \<Longrightarrow> wr s (set_has b m) = m"
  shows "pb_decode_loop fs (w_opt b (w_len n (cstr s)) @ rest) m = pb_decode_loop fs rest (wr s (set_has b m))"
proof (cases b)
  case False
  then show ?thesis using assms(7) by (simp add: w_opt_def)
next
  case True
  then show ?thesis
    using loop_field [OF assms(2,3) _ assms(1), of 2 "varint_bytes (of_nat (length (cstr s))) @ cstr s" rest m
        "wr s (set_has True m)"] decode_string_field [OF assms(4,5,6), of rest]
    by (simp add: w_opt_def w_len_def decode_static_field_def f_opt_def decode_basic_field_def wire_type_of_def)
qed

lemma step_opt_bool [dec_steps]:
  assumes "pb_field_iter_find fs n = Some (f_opt n has set_has (d_bool rd wr))" "0 < n" "n < 16"
    and "\<not> b \<Longrightarrow> wr v (set_has b m) = m"
  shows "pb_decode_loop fs (w_opt b (w_tag n 0 @ varint_bytes (of_bool v)) @ rest) m
      = pb_decode_loop fs rest (wr v (set_has b m))"
proof (cases b)
  case False
  then show ?thesis using assms(4) by (simp add: w_opt_def)
next
  case True
  then show ?thesis
    using loop_field [OF assms(2,3) _ assms(1), of 0 "varint_bytes (of_bool v)" rest m "wr v (set_has True m)"]
      decode_bool [of v rest]
    by (simp add: w_opt_def decode_static_field_def f_opt_def d_bool_def decode_basic_field_def wire_type_of_def)
qed

lemma step_opt_uint32 [dec_steps]:
  assumes "pb_field_iter_find fs n = Some (f_opt n has set_has (d_uint32 rd wr))" "0 < n" "n < 16"
    and "\<not> b \<Longrightarrow> wr v (set_has b m) = m"
  shows "pb_decode_loop fs (w_opt b (w_tag n 0 @ varint_bytes (ucast v)) @ rest) m
      = pb_decode_loop fs rest (wr v (set_has b m))"
proof (cases b)
  case False
  then show ?thesis using assms(4) by (simp add: w_opt_def)
next
  case True
  then show ?thesis
    using loop_field [OF assms(2,3) _ assms(1), of 0 "varint_bytes (ucast v)" rest m "wr v (set_has True m)"]
    by (simp add: w_opt_def decode_static_field_def f_opt_def d_uint32_def decode_basic_field_def wire_type_of_def
        decode_uint32 ucast_ucast_32)
qed

lemma step_submsg:
  assumes "pb_field_iter_find fs n = Some f" "f_data f = submsg gs zero rd wr" "0 < n" "n < 16"
    and "m1 = (case f_presence f of
                  Singular \<Rightarrow> m
                | Optional has set_has \<Rightarrow> set_has True m
                | Oneof which enter clear \<Rightarrow> (if which m \<noteq> f_tag f then enter m else m))"
    and "pb_decode_loop gs bs (rd m1) = Inr x" "length bs < 2 ^ 32"
  shows "pb_decode_loop fs (w_len n bs @ rest) m = pb_decode_loop fs rest (wr x m1)"
proof -
  have "decode_static_field f PB_WT_STRING (varint_bytes (of_nat (length bs)) @ bs @ rest) m = Inr (wr x m1, rest)"
    unfolding decode_static_field_def assms(5) [symmetric] Let_def assms(2) submsg_def
    by (simp add: decode_basic_field_def pb_dec_submessage_def decode_len [OF assms(7)] assms(6))
  then show ?thesis
    using loop_field [OF assms(3,4) _ assms(1), of 2 "varint_bytes (of_nat (length bs)) @ bs" rest m "wr x m1"]
    by (simp add: w_len_def wire_type_of_def)
qed

lemma step_opt_submsg [dec_steps]:
  assumes "pb_field_iter_find fs n = Some (f_opt n has set_has (submsg gs zero rd wr))" "0 < n" "n < 16"
    and "pb_decode_loop gs bs (rd (set_has True m)) = Inr v" "length bs < 2 ^ 32"
    and "\<not> b \<Longrightarrow> wr v (set_has b m) = m"
  shows "pb_decode_loop fs (w_opt b (w_len n bs) @ rest) m = pb_decode_loop fs rest (wr v (set_has b m))"
proof (cases b)
  case False
  then show ?thesis using assms(6) by (simp add: w_opt_def)
next
  case True
  then show ?thesis
    using step_submsg [of fs n "f_opt n has set_has (submsg gs zero rd wr)" gs zero rd wr "set_has True m" m bs v rest]
      assms(1-5)
    by (simp add: w_opt_def f_opt_def)
qed

lemma packed_cells:
  "length vs \<le> room \<Longrightarrow>
    packed_loop room LT_UVARINT 4 (concat (map (\<lambda>v. varint_bytes (ucast (v :: u32))) vs)) cells
      = Inr (cells @ map ucast vs)"
proof (induction vs arbitrary: room cells)
  case (Cons v vs)
  obtain k where k: "room = Suc k" using Cons.prems by (cases room) auto
  obtain b bs where b: "varint_bytes (ucast v) = b # bs"
    using varint_bytes_nonempty [of "ucast v"] by (cases "varint_bytes (ucast v)") auto
  show ?case
    using Cons.IH [of k "cells @ [ucast v]"] Cons.prems decode_uint32(2) [of v] b k by simp
qed simp

lemma step_enums [dec_steps]:
  assumes "pb_field_iter_find fs n = Some (f_one n (d_enums k rd wr))" "0 < n" "n < 16"
    and "length vs \<le> k" "k < 2 ^ 28" "rd m = []" "vs = [] \<Longrightarrow> wr [] m = m"
  shows "pb_decode_loop fs (w_enums n vs @ rest) m = pb_decode_loop fs rest (wr vs m)"
proof (cases "vs = []")
  case True
  then show ?thesis using assms(7) by (simp add: w_enums_def)
next
  case False
  let ?bs = "concat (map (\<lambda>v. varint_bytes (ucast (v :: u32))) vs)"
  have "length ?bs \<le> 10 * length vs"
    by (induction vs) (auto simp: length_varint_bytes_10 add_mono)
  then have l: "length ?bs < 2 ^ 32" using assms(4,5) by simp
  have "decode_array LT_UVARINT 4 k PB_WT_STRING (varint_bytes (of_nat (length ?bs)) @ ?bs @ rest) []
      = Inr (map ucast vs, rest)"
    using packed_cells [OF assms(4), of "[]"] decode_len(1) [OF l, of rest] by (simp add: decode_array_def)
  moreover have "map ucast (map ucast vs :: u64 list) = vs"
    by (induction vs) (simp_all add: ucast_ucast_32)
  ultimately show ?thesis
    using loop_field [OF assms(2,3) _ assms(1), of 2 "varint_bytes (of_nat (length ?bs)) @ ?bs" rest m "wr vs m"]
      False assms(6)
    by (simp add: w_enums_def w_len_def decode_static_field_def f_one_def d_enums_def decode_basic_field_def
        wire_type_of_def)
qed

lemma loop_end [dec_steps]: "pb_decode_loop fs [] m = Inr m"
  by (simp add: pb_decode_loop.simps)

section \<open>Sizes\<close>

lemma length_w_tag: "0 < n \<Longrightarrow> n < 16 \<Longrightarrow> wt < 8 \<Longrightarrow> length (w_tag n wt) = 1"
proof -
  assume a: "0 < n" "n < 16" "wt < 8"
  have u: "unat (of_nat (8 * n + wt) :: u64) = 8 * n + wt"
    by (rule unat_of_nat_u64) (use a in simp)
  have "drop_bit 7 (of_nat (8 * n + wt) :: u64) = 0"
    unfolding word_unat_eq_iff unat_drop_bit_div u using a by simp
  then show ?thesis
    unfolding w_tag_def using a by (subst tag_value) (simp_all add: varint_bytes_last)
qed

lemma length_varint_u32: "length (varint_bytes (ucast (v :: u32))) \<le> 5"
proof -
  have "drop_bit (7 * Suc 4) (ucast v :: u64) = 0"
    unfolding drop_bit_eq_0_bits by (auto simp: bit_simps bit_ge_length)
  from length_varint_bytes [OF this] show ?thesis by simp
qed

lemma length_varint_nat: "n < 2 ^ (7 * Suc k) \<Longrightarrow> 7 * Suc k < 64 \<Longrightarrow> length (varint_bytes (of_nat n)) \<le> Suc k"
proof -
  assume a: "n < 2 ^ (7 * Suc k)" "7 * Suc k < 64"
  then have "n < 2 ^ 64"
    using power_strict_increasing [OF a(2), of "2 :: nat"] by simp
  then have "drop_bit (7 * Suc k) (of_nat n :: u64) = 0"
    using a(1) by (simp add: word_unat_eq_iff unat_drop_bit_div unat_of_nat del: drop_bit_eq_div power_Suc)
  then show ?thesis by (rule length_varint_bytes)
qed

named_theorems wire_sizes \<open>bounds on the encoded size of a field\<close>

lemma wire_sizes_rules [wire_sizes]:
  assumes "0 < n" "n < 16"
  shows "length (w_uint n (ucast (v :: u32))) \<le> 6" "length (w_uint n (u :: u64)) \<le> 11"
    "length (w_int32 n v) \<le> 11" "length (w_bool n b) \<le> 2"
    "length bs < 128 \<Longrightarrow> length (w_len n bs) \<le> 2 + length bs"
    "length bs < 16384 \<Longrightarrow> length (w_len n bs) \<le> 3 + length bs"
  using assms length_w_tag [OF assms] length_varint_u32 [of v] length_varint_bytes_10
    length_varint_nat [of "length bs" 0] length_varint_nat [of "length bs" 1]
    varint_bytes_last [of 1]
  by (auto simp: w_uint_def w_int32_def w_bool_def w_len_def length_varint_bytes_10)

lemma wire_sizes_text:
  assumes "0 < n" "n < 16"
  shows "padded k s \<Longrightarrow> k \<le> 128 \<Longrightarrow> length (w_str n s) \<le> k + 1"
    "padded k s \<Longrightarrow> k \<le> 128 \<Longrightarrow> length (w_opt b (w_len n (cstr s))) \<le> k + 1"
    "length bs \<le> k \<Longrightarrow> k < 128 \<Longrightarrow> length (w_bytes n bs) \<le> k + 2"
    "length bs \<le> k \<Longrightarrow> k < 16384 \<Longrightarrow> length (w_bytes n bs) \<le> k + 3"
    "length (w_opt b (w_tag n 0 @ varint_bytes (of_bool v))) \<le> 2"
    "length (w_opt b (w_tag n 0 @ varint_bytes (ucast (w :: u32)))) \<le> 6"
    "length vs \<le> 16 \<Longrightarrow> length (w_enums n vs) \<le> 83"
proof -
  show "padded k s \<Longrightarrow> k \<le> 128 \<Longrightarrow> length (w_str n s) \<le> k + 1"
    using wire_sizes_rules(5) [OF assms, of "cstr s"] by (auto simp: padded_def w_str_def w_bytes_def)
  show "padded k s \<Longrightarrow> k \<le> 128 \<Longrightarrow> length (w_opt b (w_len n (cstr s))) \<le> k + 1"
    using wire_sizes_rules(5) [OF assms, of "cstr s"] by (auto simp: padded_def w_opt_def)
  show "length bs \<le> k \<Longrightarrow> k < 128 \<Longrightarrow> length (w_bytes n bs) \<le> k + 2"
    "length bs \<le> k \<Longrightarrow> k < 16384 \<Longrightarrow> length (w_bytes n bs) \<le> k + 3"
    using wire_sizes_rules(5,6) [OF assms, of bs] by (auto simp: w_bytes_def)
  show "length (w_opt b (w_tag n 0 @ varint_bytes (of_bool v))) \<le> 2"
    using length_w_tag [OF assms, of 0] by (cases v) (simp_all add: w_opt_def varint_bytes_last)
  show "length (w_opt b (w_tag n 0 @ varint_bytes (ucast w))) \<le> 6"
    using length_w_tag [OF assms, of 0] length_varint_u32 [of w] by (simp add: w_opt_def)
  assume vs: "length vs \<le> 16"
  have "length (concat (map (\<lambda>v. varint_bytes (ucast (v :: u32))) vs)) \<le> 5 * length vs"
    using length_varint_u32 by (induction vs) (auto simp: add_mono)
  with vs have "length (concat (map (\<lambda>v. varint_bytes (ucast (v :: u32))) vs)) \<le> 80"
    by linarith
  then show "length (w_enums n vs) \<le> 83"
    using wire_sizes_rules(5) [OF assms, of "concat (map (\<lambda>v. varint_bytes (ucast (v :: u32))) vs)"]
    by (simp add: w_enums_def)
qed

lemma wire_size_sub:
  "0 < n \<Longrightarrow> n < 16 \<Longrightarrow> length bs \<le> k \<Longrightarrow> k < 128 \<Longrightarrow> length (w_opt b (w_len n bs)) \<le> k + 2"
  using wire_sizes_rules(5) [of n bs] by (auto simp: w_opt_def)

end
