(* ===== verification/MessageCodec.thy ===== *)
theory MessageCodec
  imports PbCodec
begin

text \<open>
  The wire format of every message of the protocol, the values a struct may hold (\<open>char\<close> arrays
  terminated and padded, counts within their arrays, absent optional fields at their default), and
  per message: the encoder writes that format, the decoder reads it back into a zeroed struct, and
  its length is at most the bound the generated headers state.
\<close>

named_theorems sub_dec \<open>a whole message decoded from a substream\<close>

subsection \<open>StoreInfo\<close>

definition StoreInfo_wire :: "meshpigeon_StoreInfo \<Rightarrow> byte list" where
  "StoreInfo_wire m = w_uint 1 (ucast (si_count m)) @ w_uint 2 (ucast (si_capacity_bytes m)) @ w_uint 3
    (ucast (si_dropped m)) @ w_uint 4 (ucast (si_oldest_seq m))"

lemma StoreInfo_find:
  "pb_field_iter_find StoreInfo_fields 1 = Some (f_one 1 (d_uint32 si_count (\<lambda>v. si_count_update
    (\<lambda>_. v))))"
  "pb_field_iter_find StoreInfo_fields 2 = Some (f_one 2 (d_uint32 si_capacity_bytes (\<lambda>v.
    si_capacity_bytes_update (\<lambda>_. v))))"
  "pb_field_iter_find StoreInfo_fields 3 = Some (f_one 3 (d_uint32 si_dropped (\<lambda>v.
    si_dropped_update (\<lambda>_. v))))"
  "pb_field_iter_find StoreInfo_fields 4 = Some (f_one 4 (d_uint32 si_oldest_seq (\<lambda>v.
    si_oldest_seq_update (\<lambda>_. v))))"
  by (simp_all add: StoreInfo_fields_def)

lemma StoreInfo_enc [enc_intros]: "encodes (pb_encode StoreInfo_fields m) (StoreInfo_wire m)"
  unfolding StoreInfo_fields_def StoreInfo_wire_def by (intro encodes_fields enc_intros)

lemma StoreInfo_dec:
  "pb_decode_loop StoreInfo_fields (StoreInfo_wire m @ rest) StoreInfo_init_zero = pb_decode_loop
    StoreInfo_fields rest m"
  unfolding StoreInfo_wire_def StoreInfo_init_zero_def append_assoc
  by - ((rule dec_steps [THEN trans], rule StoreInfo_find, (rule sub_dec | (simp; fail))+)+, cases m, simp)

lemma StoreInfo_sub [sub_dec]:
  "z = StoreInfo_init_zero \<Longrightarrow> pb_decode_loop StoreInfo_fields (StoreInfo_wire m) z = Inr m"
  using StoreInfo_dec [of m "[]"] by (simp add: loop_end)

lemma StoreInfo_length: "length (StoreInfo_wire m) \<le> 24"
  using wire_sizes_rules(1) [of 1 "si_count m"]
    wire_sizes_rules(1) [of 2 "si_capacity_bytes m"]
    wire_sizes_rules(1) [of 3 "si_dropped m"]
    wire_sizes_rules(1) [of 4 "si_oldest_seq m"]
  by (simp add: StoreInfo_wire_def)

subsection \<open>DeviceInfo\<close>

definition DeviceInfo_wire :: "meshpigeon_DeviceInfo \<Rightarrow> byte list" where
  "DeviceInfo_wire m = w_uint 1 (ucast (di_spec_version m)) @ w_str 2 (di_fw_version m) @ w_str 3
    (di_board_name m) @ w_enums 4 (di_capabilities m) @ w_uint 5 (di_uptime_ms m) @ w_uint 6 (ucast
    (di_boot_count m)) @ w_opt (di_has_store m) (w_len 7 (StoreInfo_wire (di_store m))) @ w_uint 8 (ucast
    (di_radio_config_epoch m)) @ w_uint 9 (ucast (di_battery_mv m)) @ w_bool 10 (di_radio_ok m) @ w_bool 11
    (di_auth_required m) @ w_int32 12 (di_noise_floor_dbm m)"

definition DeviceInfo_ok :: "meshpigeon_DeviceInfo \<Rightarrow> bool" where
  "DeviceInfo_ok m \<longleftrightarrow> padded 16 (di_fw_version m) \<and> padded 17 (di_board_name m)
    \<and> length (di_capabilities m) \<le> 16 \<and> (\<not> di_has_store m \<longrightarrow> di_store m =
    StoreInfo_init_zero)"

lemma DeviceInfo_find:
  "pb_field_iter_find DeviceInfo_fields 1 = Some (f_one 1 (d_uint32 di_spec_version (\<lambda>v.
    di_spec_version_update (\<lambda>_. v))))"
  "pb_field_iter_find DeviceInfo_fields 2 = Some (f_one 2 (Pb_String 16 di_fw_version (\<lambda>v.
    di_fw_version_update (\<lambda>_. v))))"
  "pb_field_iter_find DeviceInfo_fields 3 = Some (f_one 3 (Pb_String 17 di_board_name (\<lambda>v.
    di_board_name_update (\<lambda>_. v))))"
  "pb_field_iter_find DeviceInfo_fields 4 = Some (f_one 4 (d_enums 16 di_capabilities (\<lambda>v.
    di_capabilities_update (\<lambda>_. v))))"
  "pb_field_iter_find DeviceInfo_fields 5 = Some (f_one 5 (d_uint64 di_uptime_ms (\<lambda>v.
    di_uptime_ms_update (\<lambda>_. v))))"
  "pb_field_iter_find DeviceInfo_fields 6 = Some (f_one 6 (d_uint32 di_boot_count (\<lambda>v.
    di_boot_count_update (\<lambda>_. v))))"
  "pb_field_iter_find DeviceInfo_fields 7 = Some (f_opt 7 di_has_store (\<lambda>v. di_has_store_update
    (\<lambda>_. v)) (submsg StoreInfo_fields StoreInfo_init_zero di_store (\<lambda>v. di_store_update
    (\<lambda>_. v))))"
  "pb_field_iter_find DeviceInfo_fields 8 = Some (f_one 8 (d_uint32 di_radio_config_epoch (\<lambda>v.
    di_radio_config_epoch_update (\<lambda>_. v))))"
  "pb_field_iter_find DeviceInfo_fields 9 = Some (f_one 9 (d_uint32 di_battery_mv (\<lambda>v.
    di_battery_mv_update (\<lambda>_. v))))"
  "pb_field_iter_find DeviceInfo_fields 10 = Some (f_one 10 (d_bool di_radio_ok (\<lambda>v.
    di_radio_ok_update (\<lambda>_. v))))"
  "pb_field_iter_find DeviceInfo_fields 11 = Some (f_one 11 (d_bool di_auth_required (\<lambda>v.
    di_auth_required_update (\<lambda>_. v))))"
  "pb_field_iter_find DeviceInfo_fields 12 = Some (f_one 12 (d_int32 di_noise_floor_dbm (\<lambda>v.
    di_noise_floor_dbm_update (\<lambda>_. v))))"
  by (simp_all add: DeviceInfo_fields_def)

lemma DeviceInfo_enc [enc_intros]: "DeviceInfo_ok m \<Longrightarrow> encodes (pb_encode
  DeviceInfo_fields m) (DeviceInfo_wire m)"
  unfolding DeviceInfo_fields_def DeviceInfo_wire_def by (intro encodes_fields enc_intros) (simp_all add:
    DeviceInfo_ok_def)?

lemma DeviceInfo_dec:
  assumes "DeviceInfo_ok m"
  shows "pb_decode_loop DeviceInfo_fields (DeviceInfo_wire m @ rest) DeviceInfo_init_zero = pb_decode_loop
    DeviceInfo_fields rest m"
  using assms unfolding DeviceInfo_wire_def DeviceInfo_init_zero_def append_assoc
  by - ((rule dec_steps [THEN trans], rule DeviceInfo_find, (rule sub_dec | (simp add: DeviceInfo_ok_def
    le_less_trans [OF StoreInfo_length]; fail))+)+, cases m, simp)

lemma DeviceInfo_sub [sub_dec]:
  "z = DeviceInfo_init_zero \<Longrightarrow> DeviceInfo_ok m \<Longrightarrow> pb_decode_loop
    DeviceInfo_fields (DeviceInfo_wire m) z = Inr m"
  using DeviceInfo_dec [of m "[]"] by (simp add: loop_end)

lemma DeviceInfo_length: "DeviceInfo_ok m \<Longrightarrow> length (DeviceInfo_wire m) \<le> 194"
  using wire_sizes_rules(1) [of 1 "di_spec_version m"]
    wire_sizes_text(1) [of 2 16 "di_fw_version m"]
    wire_sizes_text(1) [of 3 17 "di_board_name m"]
    wire_sizes_text(7) [of 4 "di_capabilities m"]
    wire_sizes_rules(2) [of 5 "di_uptime_ms m"]
    wire_sizes_rules(1) [of 6 "di_boot_count m"]
    StoreInfo_length [of "di_store m"] wire_size_sub [of 7 "StoreInfo_wire (di_store m)" 24 "di_has_store m"]
    wire_sizes_rules(1) [of 8 "di_radio_config_epoch m"]
    wire_sizes_rules(1) [of 9 "di_battery_mv m"]
    wire_sizes_rules(4) [of 10 "di_radio_ok m"]
    wire_sizes_rules(4) [of 11 "di_auth_required m"]
    wire_sizes_rules(3) [of 12 "di_noise_floor_dbm m"]
  by (simp add: DeviceInfo_wire_def DeviceInfo_ok_def)

subsection \<open>DeviceSettings\<close>

definition DeviceSettings_wire :: "meshpigeon_DeviceSettings \<Rightarrow> byte list" where
  "DeviceSettings_wire m = w_str 1 (dsm_name m) @ w_bool 2 (dsm_wifi_enabled m) @ w_str 3 (dsm_wifi_ssid
    m) @ w_str 4 (dsm_wifi_password m) @ w_uint 5 (ucast (dsm_wifi_port m))"

definition DeviceSettings_ok :: "meshpigeon_DeviceSettings \<Rightarrow> bool" where
  "DeviceSettings_ok m \<longleftrightarrow> padded 21 (dsm_name m) \<and> padded 33 (dsm_wifi_ssid m)
    \<and> padded 64 (dsm_wifi_password m)"

lemma DeviceSettings_find:
  "pb_field_iter_find DeviceSettings_fields 1 = Some (f_one 1 (Pb_String 21 dsm_name (\<lambda>v.
    dsm_name_update (\<lambda>_. v))))"
  "pb_field_iter_find DeviceSettings_fields 2 = Some (f_one 2 (d_bool dsm_wifi_enabled (\<lambda>v.
    dsm_wifi_enabled_update (\<lambda>_. v))))"
  "pb_field_iter_find DeviceSettings_fields 3 = Some (f_one 3 (Pb_String 33 dsm_wifi_ssid (\<lambda>v.
    dsm_wifi_ssid_update (\<lambda>_. v))))"
  "pb_field_iter_find DeviceSettings_fields 4 = Some (f_one 4 (Pb_String 64 dsm_wifi_password (\<lambda>v.
    dsm_wifi_password_update (\<lambda>_. v))))"
  "pb_field_iter_find DeviceSettings_fields 5 = Some (f_one 5 (d_uint32 dsm_wifi_port (\<lambda>v.
    dsm_wifi_port_update (\<lambda>_. v))))"
  by (simp_all add: DeviceSettings_fields_def)

lemma DeviceSettings_enc [enc_intros]: "DeviceSettings_ok m \<Longrightarrow> encodes (pb_encode
  DeviceSettings_fields m) (DeviceSettings_wire m)"
  unfolding DeviceSettings_fields_def DeviceSettings_wire_def by (intro encodes_fields enc_intros)
    (simp_all add: DeviceSettings_ok_def)?

lemma DeviceSettings_dec:
  assumes "DeviceSettings_ok m"
  shows "pb_decode_loop DeviceSettings_fields (DeviceSettings_wire m @ rest) DeviceSettings_init_zero =
    pb_decode_loop DeviceSettings_fields rest m"
  using assms unfolding DeviceSettings_wire_def DeviceSettings_init_zero_def append_assoc
  by - ((rule dec_steps [THEN trans], rule DeviceSettings_find, (rule sub_dec | (simp add:
    DeviceSettings_ok_def; fail))+)+, cases m, simp)

lemma DeviceSettings_sub [sub_dec]:
  "z = DeviceSettings_init_zero \<Longrightarrow> DeviceSettings_ok m \<Longrightarrow> pb_decode_loop
    DeviceSettings_fields (DeviceSettings_wire m) z = Inr m"
  using DeviceSettings_dec [of m "[]"] by (simp add: loop_end)

lemma DeviceSettings_length: "DeviceSettings_ok m \<Longrightarrow> length (DeviceSettings_wire m) \<le> 129"
  using wire_sizes_text(1) [of 1 21 "dsm_name m"]
    wire_sizes_rules(4) [of 2 "dsm_wifi_enabled m"]
    wire_sizes_text(1) [of 3 33 "dsm_wifi_ssid m"]
    wire_sizes_text(1) [of 4 64 "dsm_wifi_password m"]
    wire_sizes_rules(1) [of 5 "dsm_wifi_port m"]
  by (simp add: DeviceSettings_wire_def DeviceSettings_ok_def)

subsection \<open>SetDeviceSettings\<close>

definition SetDeviceSettings_wire :: "meshpigeon_SetDeviceSettings \<Rightarrow> byte list" where
  "SetDeviceSettings_wire m = w_opt (sds_has_name m) (w_len 1 (cstr (sds_name m))) @ w_opt (sds_has_pin m)
    (w_len 2 (cstr (sds_pin m))) @ w_opt (sds_has_wifi_enabled m) (w_tag 3 0 @ varint_bytes (of_bool
    (sds_wifi_enabled m))) @ w_opt (sds_has_wifi_ssid m) (w_len 4 (cstr (sds_wifi_ssid m))) @ w_opt
    (sds_has_wifi_password m) (w_len 5 (cstr (sds_wifi_password m))) @ w_opt (sds_has_wifi_port m) (w_tag 6
    0 @ varint_bytes (ucast (sds_wifi_port m)))"

definition SetDeviceSettings_ok :: "meshpigeon_SetDeviceSettings \<Rightarrow> bool" where
  "SetDeviceSettings_ok m \<longleftrightarrow> padded 21 (sds_name m) \<and> (\<not> sds_has_name m
    \<longrightarrow> sds_name m = replicate 21 0) \<and> padded 9 (sds_pin m) \<and> (\<not> sds_has_pin m
    \<longrightarrow> sds_pin m = replicate 9 0) \<and> (\<not> sds_has_wifi_enabled m \<longrightarrow>
    \<not> sds_wifi_enabled m) \<and> padded 33 (sds_wifi_ssid m) \<and> (\<not> sds_has_wifi_ssid m
    \<longrightarrow> sds_wifi_ssid m = replicate 33 0) \<and> padded 64 (sds_wifi_password m) \<and>
    (\<not> sds_has_wifi_password m \<longrightarrow> sds_wifi_password m = replicate 64 0) \<and> (\<not>
    sds_has_wifi_port m \<longrightarrow> sds_wifi_port m = 0)"

lemma SetDeviceSettings_find:
  "pb_field_iter_find SetDeviceSettings_fields 1 = Some (f_opt 1 sds_has_name (\<lambda>v.
    sds_has_name_update (\<lambda>_. v)) (Pb_String 21 sds_name (\<lambda>v. sds_name_update (\<lambda>_.
    v))))"
  "pb_field_iter_find SetDeviceSettings_fields 2 = Some (f_opt 2 sds_has_pin (\<lambda>v.
    sds_has_pin_update (\<lambda>_. v)) (Pb_String 9 sds_pin (\<lambda>v. sds_pin_update (\<lambda>_. v))))"
  "pb_field_iter_find SetDeviceSettings_fields 3 = Some (f_opt 3 sds_has_wifi_enabled (\<lambda>v.
    sds_has_wifi_enabled_update (\<lambda>_. v)) (d_bool sds_wifi_enabled (\<lambda>v.
    sds_wifi_enabled_update (\<lambda>_. v))))"
  "pb_field_iter_find SetDeviceSettings_fields 4 = Some (f_opt 4 sds_has_wifi_ssid (\<lambda>v.
    sds_has_wifi_ssid_update (\<lambda>_. v)) (Pb_String 33 sds_wifi_ssid (\<lambda>v. sds_wifi_ssid_update
    (\<lambda>_. v))))"
  "pb_field_iter_find SetDeviceSettings_fields 5 = Some (f_opt 5 sds_has_wifi_password (\<lambda>v.
    sds_has_wifi_password_update (\<lambda>_. v)) (Pb_String 64 sds_wifi_password (\<lambda>v.
    sds_wifi_password_update (\<lambda>_. v))))"
  "pb_field_iter_find SetDeviceSettings_fields 6 = Some (f_opt 6 sds_has_wifi_port (\<lambda>v.
    sds_has_wifi_port_update (\<lambda>_. v)) (d_uint32 sds_wifi_port (\<lambda>v. sds_wifi_port_update
    (\<lambda>_. v))))"
  by (simp_all add: SetDeviceSettings_fields_def)

lemma SetDeviceSettings_enc [enc_intros]: "SetDeviceSettings_ok m \<Longrightarrow> encodes (pb_encode
  SetDeviceSettings_fields m) (SetDeviceSettings_wire m)"
  unfolding SetDeviceSettings_fields_def SetDeviceSettings_wire_def by (intro encodes_fields enc_intros)
    (simp_all add: SetDeviceSettings_ok_def)?

lemma SetDeviceSettings_dec:
  assumes "SetDeviceSettings_ok m"
  shows "pb_decode_loop SetDeviceSettings_fields (SetDeviceSettings_wire m @ rest)
    SetDeviceSettings_init_zero = pb_decode_loop SetDeviceSettings_fields rest m"
  using assms unfolding SetDeviceSettings_wire_def SetDeviceSettings_init_zero_def append_assoc
  by - ((rule dec_steps [THEN trans], rule SetDeviceSettings_find, (rule sub_dec | (simp add:
    SetDeviceSettings_ok_def; fail))+)+, cases m, simp)

lemma SetDeviceSettings_sub [sub_dec]:
  "z = SetDeviceSettings_init_zero \<Longrightarrow> SetDeviceSettings_ok m \<Longrightarrow>
    pb_decode_loop SetDeviceSettings_fields (SetDeviceSettings_wire m) z = Inr m"
  using SetDeviceSettings_dec [of m "[]"] by (simp add: loop_end)

lemma SetDeviceSettings_length: "SetDeviceSettings_ok m \<Longrightarrow> length (SetDeviceSettings_wire
  m) \<le> 139"
  using wire_sizes_text(2) [of 1 21 "sds_name m" "sds_has_name m"]
    wire_sizes_text(2) [of 2 9 "sds_pin m" "sds_has_pin m"]
    wire_sizes_text(5) [of 3 "sds_has_wifi_enabled m" "sds_wifi_enabled m"]
    wire_sizes_text(2) [of 4 33 "sds_wifi_ssid m" "sds_has_wifi_ssid m"]
    wire_sizes_text(2) [of 5 64 "sds_wifi_password m" "sds_has_wifi_password m"]
    wire_sizes_text(6) [of 6 "sds_has_wifi_port m" "sds_wifi_port m"]
  by (simp add: SetDeviceSettings_wire_def SetDeviceSettings_ok_def)

subsection \<open>Status\<close>

definition Status_wire :: "meshpigeon_Status \<Rightarrow> byte list" where
  "Status_wire m = w_uint 1 (ucast (st_wifi_state m)) @ w_str 2 (st_wifi_ssid m) @ w_bytes 3 (st_wifi_ipv4
    m) @ w_uint 4 (ucast (st_wifi_port m)) @ w_int32 5 (st_wifi_rssi m) @ w_uint 6 (ucast (st_ble_clients
    m)) @ w_uint 7 (ucast (st_usb_cdc_clients m)) @ w_uint 8 (ucast (st_wifi_tcp_clients m))"

definition Status_ok :: "meshpigeon_Status \<Rightarrow> bool" where
  "Status_ok m \<longleftrightarrow> padded 33 (st_wifi_ssid m) \<and> length (st_wifi_ipv4 m) \<le> 4"

lemma Status_find:
  "pb_field_iter_find Status_fields 1 = Some (f_one 1 (d_uenum st_wifi_state (\<lambda>v.
    st_wifi_state_update (\<lambda>_. v))))"
  "pb_field_iter_find Status_fields 2 = Some (f_one 2 (Pb_String 33 st_wifi_ssid (\<lambda>v.
    st_wifi_ssid_update (\<lambda>_. v))))"
  "pb_field_iter_find Status_fields 3 = Some (f_one 3 (Pb_Bytes 6 st_wifi_ipv4 (\<lambda>v.
    st_wifi_ipv4_update (\<lambda>_. v))))"
  "pb_field_iter_find Status_fields 4 = Some (f_one 4 (d_uint32 st_wifi_port (\<lambda>v.
    st_wifi_port_update (\<lambda>_. v))))"
  "pb_field_iter_find Status_fields 5 = Some (f_one 5 (d_int32 st_wifi_rssi (\<lambda>v.
    st_wifi_rssi_update (\<lambda>_. v))))"
  "pb_field_iter_find Status_fields 6 = Some (f_one 6 (d_uint32 st_ble_clients (\<lambda>v.
    st_ble_clients_update (\<lambda>_. v))))"
  "pb_field_iter_find Status_fields 7 = Some (f_one 7 (d_uint32 st_usb_cdc_clients (\<lambda>v.
    st_usb_cdc_clients_update (\<lambda>_. v))))"
  "pb_field_iter_find Status_fields 8 = Some (f_one 8 (d_uint32 st_wifi_tcp_clients (\<lambda>v.
    st_wifi_tcp_clients_update (\<lambda>_. v))))"
  by (simp_all add: Status_fields_def)

lemma Status_enc [enc_intros]: "Status_ok m \<Longrightarrow> encodes (pb_encode Status_fields m)
  (Status_wire m)"
  unfolding Status_fields_def Status_wire_def by (intro encodes_fields enc_intros) (simp_all add:
    Status_ok_def)?

lemma Status_dec:
  assumes "Status_ok m"
  shows "pb_decode_loop Status_fields (Status_wire m @ rest) Status_init_zero = pb_decode_loop
    Status_fields rest m"
  using assms unfolding Status_wire_def Status_init_zero_def append_assoc
  by - ((rule dec_steps [THEN trans], rule Status_find, (rule sub_dec | (simp add: Status_ok_def;
    fail))+)+, cases m, simp)

lemma Status_sub [sub_dec]:
  "z = Status_init_zero \<Longrightarrow> Status_ok m \<Longrightarrow> pb_decode_loop Status_fields
    (Status_wire m) z = Inr m"
  using Status_dec [of m "[]"] by (simp add: loop_end)

lemma Status_length: "Status_ok m \<Longrightarrow> length (Status_wire m) \<le> 81"
  using wire_sizes_rules(1) [of 1 "st_wifi_state m"]
    wire_sizes_text(1) [of 2 33 "st_wifi_ssid m"]
    wire_sizes_text(3) [of 3 "st_wifi_ipv4 m" 4]
    wire_sizes_rules(1) [of 4 "st_wifi_port m"]
    wire_sizes_rules(3) [of 5 "st_wifi_rssi m"]
    wire_sizes_rules(1) [of 6 "st_ble_clients m"]
    wire_sizes_rules(1) [of 7 "st_usb_cdc_clients m"]
    wire_sizes_rules(1) [of 8 "st_wifi_tcp_clients m"]
  by (simp add: Status_wire_def Status_ok_def)

subsection \<open>Auth\<close>

definition Auth_wire :: "meshpigeon_Auth \<Rightarrow> byte list" where
  "Auth_wire m = w_str 1 (au_pin m)"

definition Auth_ok :: "meshpigeon_Auth \<Rightarrow> bool" where
  "Auth_ok m \<longleftrightarrow> padded 9 (au_pin m)"

lemma Auth_find:
  "pb_field_iter_find Auth_fields 1 = Some (f_one 1 (Pb_String 9 au_pin (\<lambda>v. au_pin_update
    (\<lambda>_. v))))"
  by (simp_all add: Auth_fields_def)

lemma Auth_enc [enc_intros]: "Auth_ok m \<Longrightarrow> encodes (pb_encode Auth_fields m) (Auth_wire m)"
  unfolding Auth_fields_def Auth_wire_def by (intro encodes_fields enc_intros) (simp_all add: Auth_ok_def)?

lemma Auth_dec:
  assumes "Auth_ok m"
  shows "pb_decode_loop Auth_fields (Auth_wire m @ rest) Auth_init_zero = pb_decode_loop Auth_fields rest m"
  using assms unfolding Auth_wire_def Auth_init_zero_def append_assoc
  by - ((rule dec_steps [THEN trans], rule Auth_find, (rule sub_dec | (simp add: Auth_ok_def; fail))+)+,
    cases m, simp)

lemma Auth_sub [sub_dec]:
  "z = Auth_init_zero \<Longrightarrow> Auth_ok m \<Longrightarrow> pb_decode_loop Auth_fields (Auth_wire
    m) z = Inr m"
  using Auth_dec [of m "[]"] by (simp add: loop_end)

lemma Auth_length: "Auth_ok m \<Longrightarrow> length (Auth_wire m) \<le> 10"
  using wire_sizes_text(1) [of 1 9 "au_pin m"]
  by (simp add: Auth_wire_def Auth_ok_def)

subsection \<open>RadioSettings\<close>

definition RadioSettings_wire :: "meshpigeon_RadioSettings \<Rightarrow> byte list" where
  "RadioSettings_wire m = w_uint 1 (ucast (rsm_freq_hz m)) @ w_uint 2 (ucast (rsm_bandwidth_hz m)) @
    w_uint 3 (ucast (rsm_sf m)) @ w_uint 4 (ucast (rsm_cr m)) @ w_uint 5 (ucast (rsm_power_dbm m)) @ w_uint
    6 (ucast (rsm_config_epoch m))"

lemma RadioSettings_find:
  "pb_field_iter_find RadioSettings_fields 1 = Some (f_one 1 (d_uint32 rsm_freq_hz (\<lambda>v.
    rsm_freq_hz_update (\<lambda>_. v))))"
  "pb_field_iter_find RadioSettings_fields 2 = Some (f_one 2 (d_uint32 rsm_bandwidth_hz (\<lambda>v.
    rsm_bandwidth_hz_update (\<lambda>_. v))))"
  "pb_field_iter_find RadioSettings_fields 3 = Some (f_one 3 (d_uint32 rsm_sf (\<lambda>v. rsm_sf_update
    (\<lambda>_. v))))"
  "pb_field_iter_find RadioSettings_fields 4 = Some (f_one 4 (d_uint32 rsm_cr (\<lambda>v. rsm_cr_update
    (\<lambda>_. v))))"
  "pb_field_iter_find RadioSettings_fields 5 = Some (f_one 5 (d_uint32 rsm_power_dbm (\<lambda>v.
    rsm_power_dbm_update (\<lambda>_. v))))"
  "pb_field_iter_find RadioSettings_fields 6 = Some (f_one 6 (d_uint32 rsm_config_epoch (\<lambda>v.
    rsm_config_epoch_update (\<lambda>_. v))))"
  by (simp_all add: RadioSettings_fields_def)

lemma RadioSettings_enc [enc_intros]: "encodes (pb_encode RadioSettings_fields m) (RadioSettings_wire m)"
  unfolding RadioSettings_fields_def RadioSettings_wire_def by (intro encodes_fields enc_intros)

lemma RadioSettings_dec:
  "pb_decode_loop RadioSettings_fields (RadioSettings_wire m @ rest) RadioSettings_init_zero =
    pb_decode_loop RadioSettings_fields rest m"
  unfolding RadioSettings_wire_def RadioSettings_init_zero_def append_assoc
  by - ((rule dec_steps [THEN trans], rule RadioSettings_find, (rule sub_dec | (simp; fail))+)+, cases m,
    simp)

lemma RadioSettings_sub [sub_dec]:
  "z = RadioSettings_init_zero \<Longrightarrow> pb_decode_loop RadioSettings_fields (RadioSettings_wire
    m) z = Inr m"
  using RadioSettings_dec [of m "[]"] by (simp add: loop_end)

lemma RadioSettings_length: "length (RadioSettings_wire m) \<le> 36"
  using wire_sizes_rules(1) [of 1 "rsm_freq_hz m"]
    wire_sizes_rules(1) [of 2 "rsm_bandwidth_hz m"]
    wire_sizes_rules(1) [of 3 "rsm_sf m"]
    wire_sizes_rules(1) [of 4 "rsm_cr m"]
    wire_sizes_rules(1) [of 5 "rsm_power_dbm m"]
    wire_sizes_rules(1) [of 6 "rsm_config_epoch m"]
  by (simp add: RadioSettings_wire_def)

subsection \<open>SetRadioSettings\<close>

definition SetRadioSettings_wire :: "meshpigeon_SetRadioSettings \<Rightarrow> byte list" where
  "SetRadioSettings_wire m = w_opt (srs_has_settings m) (w_len 1 (RadioSettings_wire (srs_settings m)))"

definition SetRadioSettings_ok :: "meshpigeon_SetRadioSettings \<Rightarrow> bool" where
  "SetRadioSettings_ok m \<longleftrightarrow> (\<not> srs_has_settings m \<longrightarrow> srs_settings m
    = RadioSettings_init_zero)"

lemma SetRadioSettings_find:
  "pb_field_iter_find SetRadioSettings_fields 1 = Some (f_opt 1 srs_has_settings (\<lambda>v.
    srs_has_settings_update (\<lambda>_. v)) (submsg RadioSettings_fields RadioSettings_init_zero
    srs_settings (\<lambda>v. srs_settings_update (\<lambda>_. v))))"
  by (simp_all add: SetRadioSettings_fields_def)

lemma SetRadioSettings_enc [enc_intros]: "SetRadioSettings_ok m \<Longrightarrow> encodes (pb_encode
  SetRadioSettings_fields m) (SetRadioSettings_wire m)"
  unfolding SetRadioSettings_fields_def SetRadioSettings_wire_def by (intro encodes_fields enc_intros)
    (simp_all add: SetRadioSettings_ok_def)?

lemma SetRadioSettings_dec:
  assumes "SetRadioSettings_ok m"
  shows "pb_decode_loop SetRadioSettings_fields (SetRadioSettings_wire m @ rest)
    SetRadioSettings_init_zero = pb_decode_loop SetRadioSettings_fields rest m"
  using assms unfolding SetRadioSettings_wire_def SetRadioSettings_init_zero_def append_assoc
  by - ((rule dec_steps [THEN trans], rule SetRadioSettings_find, (rule sub_dec | (simp add:
    SetRadioSettings_ok_def le_less_trans [OF RadioSettings_length]; fail))+)+, cases m, simp)

lemma SetRadioSettings_sub [sub_dec]:
  "z = SetRadioSettings_init_zero \<Longrightarrow> SetRadioSettings_ok m \<Longrightarrow> pb_decode_loop
    SetRadioSettings_fields (SetRadioSettings_wire m) z = Inr m"
  using SetRadioSettings_dec [of m "[]"] by (simp add: loop_end)

lemma SetRadioSettings_length: "SetRadioSettings_ok m \<Longrightarrow> length (SetRadioSettings_wire m)
  \<le> 38"
  using RadioSettings_length [of "srs_settings m"] wire_size_sub [of 1 "RadioSettings_wire (srs_settings
    m)" 36 "srs_has_settings m"]
  by (simp add: SetRadioSettings_wire_def SetRadioSettings_ok_def)

subsection \<open>SendPacket\<close>

definition SendPacket_wire :: "meshpigeon_SendPacket \<Rightarrow> byte list" where
  "SendPacket_wire m = w_bytes 1 (spm_raw m)"

definition SendPacket_ok :: "meshpigeon_SendPacket \<Rightarrow> bool" where
  "SendPacket_ok m \<longleftrightarrow> length (spm_raw m) \<le> 255"

lemma SendPacket_find:
  "pb_field_iter_find SendPacket_fields 1 = Some (f_one 1 (Pb_Bytes 258 spm_raw (\<lambda>v.
    spm_raw_update (\<lambda>_. v))))"
  by (simp_all add: SendPacket_fields_def)

lemma SendPacket_enc [enc_intros]: "SendPacket_ok m \<Longrightarrow> encodes (pb_encode
  SendPacket_fields m) (SendPacket_wire m)"
  unfolding SendPacket_fields_def SendPacket_wire_def by (intro encodes_fields enc_intros) (simp_all add:
    SendPacket_ok_def)?

lemma SendPacket_dec:
  assumes "SendPacket_ok m"
  shows "pb_decode_loop SendPacket_fields (SendPacket_wire m @ rest) SendPacket_init_zero = pb_decode_loop
    SendPacket_fields rest m"
  using assms unfolding SendPacket_wire_def SendPacket_init_zero_def append_assoc
  by - ((rule dec_steps [THEN trans], rule SendPacket_find, (rule sub_dec | (simp add: SendPacket_ok_def;
    fail))+)+, cases m, simp)

lemma SendPacket_sub [sub_dec]:
  "z = SendPacket_init_zero \<Longrightarrow> SendPacket_ok m \<Longrightarrow> pb_decode_loop
    SendPacket_fields (SendPacket_wire m) z = Inr m"
  using SendPacket_dec [of m "[]"] by (simp add: loop_end)

lemma SendPacket_length: "SendPacket_ok m \<Longrightarrow> length (SendPacket_wire m) \<le> 258"
  using wire_sizes_text(4) [of 1 "spm_raw m" 255]
  by (simp add: SendPacket_wire_def SendPacket_ok_def)

subsection \<open>PacketAccepted\<close>

definition PacketAccepted_wire :: "meshpigeon_PacketAccepted \<Rightarrow> byte list" where
  "PacketAccepted_wire m = w_uint 1 (ucast (pa_seq m))"

lemma PacketAccepted_find:
  "pb_field_iter_find PacketAccepted_fields 1 = Some (f_one 1 (d_uint32 pa_seq (\<lambda>v. pa_seq_update
    (\<lambda>_. v))))"
  by (simp_all add: PacketAccepted_fields_def)

lemma PacketAccepted_enc [enc_intros]: "encodes (pb_encode PacketAccepted_fields m) (PacketAccepted_wire m)"
  unfolding PacketAccepted_fields_def PacketAccepted_wire_def by (intro encodes_fields enc_intros)

lemma PacketAccepted_dec:
  "pb_decode_loop PacketAccepted_fields (PacketAccepted_wire m @ rest) PacketAccepted_init_zero =
    pb_decode_loop PacketAccepted_fields rest m"
  unfolding PacketAccepted_wire_def PacketAccepted_init_zero_def append_assoc
  by - ((rule dec_steps [THEN trans], rule PacketAccepted_find, (rule sub_dec | (simp; fail))+)+, cases m,
    simp)

lemma PacketAccepted_sub [sub_dec]:
  "z = PacketAccepted_init_zero \<Longrightarrow> pb_decode_loop PacketAccepted_fields
    (PacketAccepted_wire m) z = Inr m"
  using PacketAccepted_dec [of m "[]"] by (simp add: loop_end)

lemma PacketAccepted_length: "length (PacketAccepted_wire m) \<le> 6"
  using wire_sizes_rules(1) [of 1 "pa_seq m"]
  by (simp add: PacketAccepted_wire_def)

subsection \<open>FetchPackets\<close>

definition FetchPackets_wire :: "meshpigeon_FetchPackets \<Rightarrow> byte list" where
  "FetchPackets_wire m = w_uint 1 (ucast (fp_since_seq m)) @ w_uint 2 (ucast (fp_max_count m))"

lemma FetchPackets_find:
  "pb_field_iter_find FetchPackets_fields 1 = Some (f_one 1 (d_uint32 fp_since_seq (\<lambda>v.
    fp_since_seq_update (\<lambda>_. v))))"
  "pb_field_iter_find FetchPackets_fields 2 = Some (f_one 2 (d_uint32 fp_max_count (\<lambda>v.
    fp_max_count_update (\<lambda>_. v))))"
  by (simp_all add: FetchPackets_fields_def)

lemma FetchPackets_enc [enc_intros]: "encodes (pb_encode FetchPackets_fields m) (FetchPackets_wire m)"
  unfolding FetchPackets_fields_def FetchPackets_wire_def by (intro encodes_fields enc_intros)

lemma FetchPackets_dec:
  "pb_decode_loop FetchPackets_fields (FetchPackets_wire m @ rest) FetchPackets_init_zero = pb_decode_loop
    FetchPackets_fields rest m"
  unfolding FetchPackets_wire_def FetchPackets_init_zero_def append_assoc
  by - ((rule dec_steps [THEN trans], rule FetchPackets_find, (rule sub_dec | (simp; fail))+)+, cases m, simp)

lemma FetchPackets_sub [sub_dec]:
  "z = FetchPackets_init_zero \<Longrightarrow> pb_decode_loop FetchPackets_fields (FetchPackets_wire m) z
    = Inr m"
  using FetchPackets_dec [of m "[]"] by (simp add: loop_end)

lemma FetchPackets_length: "length (FetchPackets_wire m) \<le> 12"
  using wire_sizes_rules(1) [of 1 "fp_since_seq m"]
    wire_sizes_rules(1) [of 2 "fp_max_count m"]
  by (simp add: FetchPackets_wire_def)

subsection \<open>PacketEntry\<close>

definition PacketEntry_wire :: "meshpigeon_PacketEntry \<Rightarrow> byte list" where
  "PacketEntry_wire m = w_uint 1 (ucast (pe_seq m)) @ w_bytes 2 (pe_raw m) @ w_uint 3 (pe_uptime_ms m) @
    w_int32 4 (pe_rssi m) @ w_int32 5 (pe_snr m) @ w_uint 6 (ucast (pe_origin m))"

definition PacketEntry_ok :: "meshpigeon_PacketEntry \<Rightarrow> bool" where
  "PacketEntry_ok m \<longleftrightarrow> length (pe_raw m) \<le> 255"

lemma PacketEntry_find:
  "pb_field_iter_find PacketEntry_fields 1 = Some (f_one 1 (d_uint32 pe_seq (\<lambda>v. pe_seq_update
    (\<lambda>_. v))))"
  "pb_field_iter_find PacketEntry_fields 2 = Some (f_one 2 (Pb_Bytes 258 pe_raw (\<lambda>v. pe_raw_update
    (\<lambda>_. v))))"
  "pb_field_iter_find PacketEntry_fields 3 = Some (f_one 3 (d_uint64 pe_uptime_ms (\<lambda>v.
    pe_uptime_ms_update (\<lambda>_. v))))"
  "pb_field_iter_find PacketEntry_fields 4 = Some (f_one 4 (d_int32 pe_rssi (\<lambda>v. pe_rssi_update
    (\<lambda>_. v))))"
  "pb_field_iter_find PacketEntry_fields 5 = Some (f_one 5 (d_int32 pe_snr (\<lambda>v. pe_snr_update
    (\<lambda>_. v))))"
  "pb_field_iter_find PacketEntry_fields 6 = Some (f_one 6 (d_uenum pe_origin (\<lambda>v.
    pe_origin_update (\<lambda>_. v))))"
  by (simp_all add: PacketEntry_fields_def)

lemma PacketEntry_enc [enc_intros]: "PacketEntry_ok m \<Longrightarrow> encodes (pb_encode
  PacketEntry_fields m) (PacketEntry_wire m)"
  unfolding PacketEntry_fields_def PacketEntry_wire_def by (intro encodes_fields enc_intros) (simp_all
    add: PacketEntry_ok_def)?

lemma PacketEntry_dec:
  assumes "PacketEntry_ok m"
  shows "pb_decode_loop PacketEntry_fields (PacketEntry_wire m @ rest) PacketEntry_init_zero =
    pb_decode_loop PacketEntry_fields rest m"
  using assms unfolding PacketEntry_wire_def PacketEntry_init_zero_def append_assoc
  by - ((rule dec_steps [THEN trans], rule PacketEntry_find, (rule sub_dec | (simp add:
    PacketEntry_ok_def; fail))+)+, cases m, simp)

lemma PacketEntry_sub [sub_dec]:
  "z = PacketEntry_init_zero \<Longrightarrow> PacketEntry_ok m \<Longrightarrow> pb_decode_loop
    PacketEntry_fields (PacketEntry_wire m) z = Inr m"
  using PacketEntry_dec [of m "[]"] by (simp add: loop_end)

lemma PacketEntry_length: "PacketEntry_ok m \<Longrightarrow> length (PacketEntry_wire m) \<le> 303"
  using wire_sizes_rules(1) [of 1 "pe_seq m"]
    wire_sizes_text(4) [of 2 "pe_raw m" 255]
    wire_sizes_rules(2) [of 3 "pe_uptime_ms m"]
    wire_sizes_rules(3) [of 4 "pe_rssi m"]
    wire_sizes_rules(3) [of 5 "pe_snr m"]
    wire_sizes_rules(1) [of 6 "pe_origin m"]
  by (simp add: PacketEntry_wire_def PacketEntry_ok_def)

subsection \<open>FetchEnd\<close>

definition FetchEnd_wire :: "meshpigeon_FetchEnd \<Rightarrow> byte list" where
  "FetchEnd_wire m = w_uint 1 (ucast (fe_count m))"

lemma FetchEnd_find:
  "pb_field_iter_find FetchEnd_fields 1 = Some (f_one 1 (d_uint32 fe_count (\<lambda>v. fe_count_update
    (\<lambda>_. v))))"
  by (simp_all add: FetchEnd_fields_def)

lemma FetchEnd_enc [enc_intros]: "encodes (pb_encode FetchEnd_fields m) (FetchEnd_wire m)"
  unfolding FetchEnd_fields_def FetchEnd_wire_def by (intro encodes_fields enc_intros)

lemma FetchEnd_dec:
  "pb_decode_loop FetchEnd_fields (FetchEnd_wire m @ rest) FetchEnd_init_zero = pb_decode_loop
    FetchEnd_fields rest m"
  unfolding FetchEnd_wire_def FetchEnd_init_zero_def append_assoc
  by - ((rule dec_steps [THEN trans], rule FetchEnd_find, (rule sub_dec | (simp; fail))+)+, cases m, simp)

lemma FetchEnd_sub [sub_dec]:
  "z = FetchEnd_init_zero \<Longrightarrow> pb_decode_loop FetchEnd_fields (FetchEnd_wire m) z = Inr m"
  using FetchEnd_dec [of m "[]"] by (simp add: loop_end)

lemma FetchEnd_length: "length (FetchEnd_wire m) \<le> 6"
  using wire_sizes_rules(1) [of 1 "fe_count m"]
  by (simp add: FetchEnd_wire_def)

subsection \<open>TxResult\<close>

definition TxResult_wire :: "meshpigeon_TxResult \<Rightarrow> byte list" where
  "TxResult_wire m = w_uint 1 (ucast (tr_seq m)) @ w_bool 2 (tr_success m)"

lemma TxResult_find:
  "pb_field_iter_find TxResult_fields 1 = Some (f_one 1 (d_uint32 tr_seq (\<lambda>v. tr_seq_update
    (\<lambda>_. v))))"
  "pb_field_iter_find TxResult_fields 2 = Some (f_one 2 (d_bool tr_success (\<lambda>v. tr_success_update
    (\<lambda>_. v))))"
  by (simp_all add: TxResult_fields_def)

lemma TxResult_enc [enc_intros]: "encodes (pb_encode TxResult_fields m) (TxResult_wire m)"
  unfolding TxResult_fields_def TxResult_wire_def by (intro encodes_fields enc_intros)

lemma TxResult_dec:
  "pb_decode_loop TxResult_fields (TxResult_wire m @ rest) TxResult_init_zero = pb_decode_loop
    TxResult_fields rest m"
  unfolding TxResult_wire_def TxResult_init_zero_def append_assoc
  by - ((rule dec_steps [THEN trans], rule TxResult_find, (rule sub_dec | (simp; fail))+)+, cases m, simp)

lemma TxResult_sub [sub_dec]:
  "z = TxResult_init_zero \<Longrightarrow> pb_decode_loop TxResult_fields (TxResult_wire m) z = Inr m"
  using TxResult_dec [of m "[]"] by (simp add: loop_end)

lemma TxResult_length: "length (TxResult_wire m) \<le> 8"
  using wire_sizes_rules(1) [of 1 "tr_seq m"]
    wire_sizes_rules(4) [of 2 "tr_success m"]
  by (simp add: TxResult_wire_def)

subsection \<open>Error\<close>

definition Error_wire :: "meshpigeon_Error \<Rightarrow> byte list" where
  "Error_wire m = w_uint 1 (ucast (er_code m)) @ w_str 2 (er_message m)"

definition Error_ok :: "meshpigeon_Error \<Rightarrow> bool" where
  "Error_ok m \<longleftrightarrow> padded 65 (er_message m)"

lemma Error_find:
  "pb_field_iter_find Error_fields 1 = Some (f_one 1 (d_uenum er_code (\<lambda>v. er_code_update
    (\<lambda>_. v))))"
  "pb_field_iter_find Error_fields 2 = Some (f_one 2 (Pb_String 65 er_message (\<lambda>v.
    er_message_update (\<lambda>_. v))))"
  by (simp_all add: Error_fields_def)

lemma Error_enc [enc_intros]: "Error_ok m \<Longrightarrow> encodes (pb_encode Error_fields m) (Error_wire m)"
  unfolding Error_fields_def Error_wire_def by (intro encodes_fields enc_intros) (simp_all add: Error_ok_def)?

lemma Error_dec:
  assumes "Error_ok m"
  shows "pb_decode_loop Error_fields (Error_wire m @ rest) Error_init_zero = pb_decode_loop Error_fields
    rest m"
  using assms unfolding Error_wire_def Error_init_zero_def append_assoc
  by - ((rule dec_steps [THEN trans], rule Error_find, (rule sub_dec | (simp add: Error_ok_def; fail))+)+,
    cases m, simp)

lemma Error_sub [sub_dec]:
  "z = Error_init_zero \<Longrightarrow> Error_ok m \<Longrightarrow> pb_decode_loop Error_fields
    (Error_wire m) z = Inr m"
  using Error_dec [of m "[]"] by (simp add: loop_end)

lemma Error_length: "Error_ok m \<Longrightarrow> length (Error_wire m) \<le> 72"
  using wire_sizes_rules(1) [of 1 "er_code m"]
    wire_sizes_text(1) [of 2 65 "er_message m"]
  by (simp add: Error_wire_def Error_ok_def)

subsection \<open>Ping\<close>

definition Ping_wire :: "meshpigeon_Ping \<Rightarrow> byte list" where
  "Ping_wire m = w_bytes 1 (pi_payload m)"

definition Ping_ok :: "meshpigeon_Ping \<Rightarrow> bool" where
  "Ping_ok m \<longleftrightarrow> length (pi_payload m) \<le> 500"

lemma Ping_find:
  "pb_field_iter_find Ping_fields 1 = Some (f_one 1 (Pb_Bytes 502 pi_payload (\<lambda>v.
    pi_payload_update (\<lambda>_. v))))"
  by (simp_all add: Ping_fields_def)

lemma Ping_enc [enc_intros]: "Ping_ok m \<Longrightarrow> encodes (pb_encode Ping_fields m) (Ping_wire m)"
  unfolding Ping_fields_def Ping_wire_def by (intro encodes_fields enc_intros) (simp_all add: Ping_ok_def)?

lemma Ping_dec:
  assumes "Ping_ok m"
  shows "pb_decode_loop Ping_fields (Ping_wire m @ rest) Ping_init_zero = pb_decode_loop Ping_fields rest m"
  using assms unfolding Ping_wire_def Ping_init_zero_def append_assoc
  by - ((rule dec_steps [THEN trans], rule Ping_find, (rule sub_dec | (simp add: Ping_ok_def; fail))+)+,
    cases m, simp)

lemma Ping_sub [sub_dec]:
  "z = Ping_init_zero \<Longrightarrow> Ping_ok m \<Longrightarrow> pb_decode_loop Ping_fields (Ping_wire
    m) z = Inr m"
  using Ping_dec [of m "[]"] by (simp add: loop_end)

lemma Ping_length: "Ping_ok m \<Longrightarrow> length (Ping_wire m) \<le> 503"
  using wire_sizes_text(4) [of 1 "pi_payload m" 500]
  by (simp add: Ping_wire_def Ping_ok_def)

subsection \<open>Pong\<close>

definition Pong_wire :: "meshpigeon_Pong \<Rightarrow> byte list" where
  "Pong_wire m = w_bytes 1 (po_payload m)"

definition Pong_ok :: "meshpigeon_Pong \<Rightarrow> bool" where
  "Pong_ok m \<longleftrightarrow> length (po_payload m) \<le> 500"

lemma Pong_find:
  "pb_field_iter_find Pong_fields 1 = Some (f_one 1 (Pb_Bytes 502 po_payload (\<lambda>v.
    po_payload_update (\<lambda>_. v))))"
  by (simp_all add: Pong_fields_def)

lemma Pong_enc [enc_intros]: "Pong_ok m \<Longrightarrow> encodes (pb_encode Pong_fields m) (Pong_wire m)"
  unfolding Pong_fields_def Pong_wire_def by (intro encodes_fields enc_intros) (simp_all add: Pong_ok_def)?

lemma Pong_dec:
  assumes "Pong_ok m"
  shows "pb_decode_loop Pong_fields (Pong_wire m @ rest) Pong_init_zero = pb_decode_loop Pong_fields rest m"
  using assms unfolding Pong_wire_def Pong_init_zero_def append_assoc
  by - ((rule dec_steps [THEN trans], rule Pong_find, (rule sub_dec | (simp add: Pong_ok_def; fail))+)+,
    cases m, simp)

lemma Pong_sub [sub_dec]:
  "z = Pong_init_zero \<Longrightarrow> Pong_ok m \<Longrightarrow> pb_decode_loop Pong_fields (Pong_wire
    m) z = Inr m"
  using Pong_dec [of m "[]"] by (simp add: loop_end)

lemma Pong_length: "Pong_ok m \<Longrightarrow> length (Pong_wire m) \<le> 503"
  using wire_sizes_text(4) [of 1 "po_payload m" 500]
  by (simp add: Pong_wire_def Pong_ok_def)

end
