(* ===== verification/Envelope.thy ===== *)
theory Envelope
  imports MessageCodec
begin

text \<open>
  The two envelopes: their wire format, the values they may hold, and the encoder and the decoder
  on them.
\<close>

lemma encodes_cong: "encodes e bs \<Longrightarrow> bs = bs' \<Longrightarrow> encodes e bs'"
  by simp

lemma no_fields_enc [enc_intros]: "encodes (pb_encode no_fields m) []"
  by (simp add: no_fields_def encodes_fields)

section \<open>ClientToRadio\<close>

definition cr_body_wire :: "cr_body \<Rightarrow> byte list" where
  "cr_body_wire b = (case b of
       C_none \<Rightarrow> []
     | C_ping x \<Rightarrow> w_len 2 (Ping_wire x)
     | C_get_device_info \<Rightarrow> w_len 3 []
     | C_get_radio_settings \<Rightarrow> w_len 4 []
     | C_set_radio_settings x \<Rightarrow> w_len 5 (SetRadioSettings_wire x)
     | C_send_packet x \<Rightarrow> w_len 6 (SendPacket_wire x)
     | C_fetch_packets x \<Rightarrow> w_len 7 (FetchPackets_wire x)
     | C_purge_store \<Rightarrow> w_len 8 []
     | C_get_device_settings \<Rightarrow> w_len 9 []
     | C_set_device_settings x \<Rightarrow> w_len 10 (SetDeviceSettings_wire x)
     | C_get_status \<Rightarrow> w_len 11 []
     | C_auth x \<Rightarrow> w_len 12 (Auth_wire x)
     | C_reboot \<Rightarrow> w_len 13 []
     | C_factory_reset \<Rightarrow> w_len 14 []
     | C_bootloader \<Rightarrow> w_len 15 [])"

definition ClientToRadio_wire :: "meshpigeon_ClientToRadio \<Rightarrow> byte list" where
  "ClientToRadio_wire m = w_uint 1 (ucast (cr_id m)) @ cr_body_wire (cr_body m)"

definition ClientToRadio_ok :: "meshpigeon_ClientToRadio \<Rightarrow> bool" where
  "ClientToRadio_ok m \<longleftrightarrow> (case cr_body m of
       C_ping x \<Rightarrow> Ping_ok x
     | C_set_radio_settings x \<Rightarrow> SetRadioSettings_ok x
     | C_send_packet x \<Rightarrow> SendPacket_ok x
     | C_set_device_settings x \<Rightarrow> SetDeviceSettings_ok x
     | C_auth x \<Rightarrow> Auth_ok x
     | _ \<Rightarrow> True)"

lemma encodes_cr_member:
  assumes "C_which (cr_body m) = n \<Longrightarrow> encodes (pb_encode gs (rd m)) bs"
  shows "encodes (encode_field (cr_member n start (submsg gs zero rd wr)) m)
    (if C_which (cr_body m) = n then w_len n bs else [])"
proof (cases "C_which (cr_body m) = n")
  case True
  have "encodes (encode_data (submsg gs zero rd wr) m) (varint_bytes (of_nat (length bs)) @ bs)"
    using assms True by (intro data_submsg)
  then show ?thesis
    using encodes_present [of "cr_member n start (submsg gs zero rd wr)" m "varint_bytes (of_nat (length bs)) @ bs"] True
    by (simp add: cr_member_def is_array_def submsg_def wire_type_for_def w_len_def)
next
  case False
  then show ?thesis by (simp add: encodes_def encode_field_def cr_member_def)
qed

lemma ClientToRadio_enc:
  assumes "ClientToRadio_ok m"
  shows "encodes (pb_encode ClientToRadio_fields m) (ClientToRadio_wire m)"
  unfolding ClientToRadio_fields_def
  by (rule encodes_cong)
     ((rule encodes_fields enc_intros encodes_cr_member
       | (insert assms, cases "cr_body m"; simp add: ClientToRadio_ok_def ClientToRadio_wire_def cr_body_wire_def; fail))+)

lemma cr_member_tag [simp]: "f_tag (cr_member n start d) = n"
  by (simp add: cr_member_def)

lemma cr_step:
  assumes "pb_field_iter_find ClientToRadio_fields n = Some (cr_member n start (submsg gs zero rd wr))" "0 < n" "n < 16"
    and "C_which (cr_body m) \<noteq> n" "pb_decode_loop gs bs (rd (m\<lparr>cr_body := start\<rparr>)) = Inr x" "length bs < 2 ^ 32"
    and "wr x (m\<lparr>cr_body := start\<rparr>) = m'"
  shows "pb_decode_loop ClientToRadio_fields (w_len n bs) m = Inr m'"
  using step_submsg [of ClientToRadio_fields n "cr_member n start (submsg gs zero rd wr)" gs zero rd wr
      "m\<lparr>cr_body := start\<rparr>" m bs x "[]"] assms
  by (simp add: cr_member_def loop_end)

lemma cr_body_length:
  assumes "ClientToRadio_ok m"
  shows "length (cr_body_wire (cr_body m)) \<le> 506"
proof -
  have sub: "length (w_len n bs) \<le> k + 3" if "length bs \<le> k" "k \<le> 503" "0 < n" "n < 16" for n k bs
    using wire_sizes_rules(6) [of n bs] that by simp
  have l0:
    "Ping_ok x2 \<Longrightarrow> length (w_len 2 (Ping_wire x2)) \<le> 506" for x2
    using Ping_length [of x2] sub [of "Ping_wire x2" 503 2] by simp
  have l1:
    "length (w_len 3 []) \<le> 506"
    by (rule order.trans [OF sub [of "[]" 0 3]], simp_all)
  have l2:
    "length (w_len 4 []) \<le> 506"
    by (rule order.trans [OF sub [of "[]" 0 4]], simp_all)
  have l3:
    "SetRadioSettings_ok x5 \<Longrightarrow> length (w_len 5 (SetRadioSettings_wire x5)) \<le> 506" for x5
    using SetRadioSettings_length [of x5] sub [of "SetRadioSettings_wire x5" 503 5] by simp
  have l4:
    "SendPacket_ok x6 \<Longrightarrow> length (w_len 6 (SendPacket_wire x6)) \<le> 506" for x6
    using SendPacket_length [of x6] sub [of "SendPacket_wire x6" 503 6] by simp
  have l5:
    "length (w_len 7 (FetchPackets_wire x7)) \<le> 506" for x7
    using FetchPackets_length [of x7] sub [of "FetchPackets_wire x7" 503 7] by simp
  have l6:
    "length (w_len 8 []) \<le> 506"
    by (rule order.trans [OF sub [of "[]" 0 8]], simp_all)
  have l7:
    "length (w_len 9 []) \<le> 506"
    by (rule order.trans [OF sub [of "[]" 0 9]], simp_all)
  have l8:
    "SetDeviceSettings_ok x10 \<Longrightarrow> length (w_len 10 (SetDeviceSettings_wire x10)) \<le> 506" for x10
    using SetDeviceSettings_length [of x10] sub [of "SetDeviceSettings_wire x10" 503 10] by simp
  have l9:
    "length (w_len 11 []) \<le> 506"
    by (rule order.trans [OF sub [of "[]" 0 11]], simp_all)
  have l10:
    "Auth_ok x12 \<Longrightarrow> length (w_len 12 (Auth_wire x12)) \<le> 506" for x12
    using Auth_length [of x12] sub [of "Auth_wire x12" 503 12] by simp
  have l11:
    "length (w_len 13 []) \<le> 506"
    by (rule order.trans [OF sub [of "[]" 0 13]], simp_all)
  have l12:
    "length (w_len 14 []) \<le> 506"
    by (rule order.trans [OF sub [of "[]" 0 14]], simp_all)
  have l13:
    "length (w_len 15 []) \<le> 506"
    by (rule order.trans [OF sub [of "[]" 0 15]], simp_all)
  show ?thesis
    using assms l0 l1 l2 l3 l4 l5 l6 l7 l8 l9 l10 l11 l12 l13 by (cases "cr_body m") (simp_all add: ClientToRadio_ok_def cr_body_wire_def)
qed

lemma ClientToRadio_length: "ClientToRadio_ok m \<Longrightarrow> length (ClientToRadio_wire m) \<le> ClientToRadio_size"
  using cr_body_length [of m] wire_sizes_rules(1) [of 1 "cr_id m"] by (simp add: ClientToRadio_wire_def ClientToRadio_size_def)

section \<open>RadioToClient\<close>

definition rc_body_wire :: "rc_body \<Rightarrow> byte list" where
  "rc_body_wire b = (case b of
       R_none \<Rightarrow> []
     | R_pong x \<Rightarrow> w_len 2 (Pong_wire x)
     | R_device_info x \<Rightarrow> w_len 3 (DeviceInfo_wire x)
     | R_radio_settings x \<Rightarrow> w_len 4 (RadioSettings_wire x)
     | R_packet_accepted x \<Rightarrow> w_len 5 (PacketAccepted_wire x)
     | R_packet_entry x \<Rightarrow> w_len 6 (PacketEntry_wire x)
     | R_fetch_end x \<Rightarrow> w_len 7 (FetchEnd_wire x)
     | R_tx_result x \<Rightarrow> w_len 8 (TxResult_wire x)
     | R_device_settings x \<Rightarrow> w_len 9 (DeviceSettings_wire x)
     | R_status x \<Rightarrow> w_len 10 (Status_wire x)
     | R_ok \<Rightarrow> w_len 11 []
     | R_error x \<Rightarrow> w_len 12 (Error_wire x))"

definition RadioToClient_wire :: "meshpigeon_RadioToClient \<Rightarrow> byte list" where
  "RadioToClient_wire m = w_uint 1 (ucast (rc_id m)) @ rc_body_wire (rc_body m)"

definition RadioToClient_ok :: "meshpigeon_RadioToClient \<Rightarrow> bool" where
  "RadioToClient_ok m \<longleftrightarrow> (case rc_body m of
       R_pong x \<Rightarrow> Pong_ok x
     | R_device_info x \<Rightarrow> DeviceInfo_ok x
     | R_packet_entry x \<Rightarrow> PacketEntry_ok x
     | R_device_settings x \<Rightarrow> DeviceSettings_ok x
     | R_status x \<Rightarrow> Status_ok x
     | R_error x \<Rightarrow> Error_ok x
     | _ \<Rightarrow> True)"

lemma encodes_rc_member:
  assumes "R_which (rc_body m) = n \<Longrightarrow> encodes (pb_encode gs (rd m)) bs"
  shows "encodes (encode_field (rc_member n start (submsg gs zero rd wr)) m)
    (if R_which (rc_body m) = n then w_len n bs else [])"
proof (cases "R_which (rc_body m) = n")
  case True
  have "encodes (encode_data (submsg gs zero rd wr) m) (varint_bytes (of_nat (length bs)) @ bs)"
    using assms True by (intro data_submsg)
  then show ?thesis
    using encodes_present [of "rc_member n start (submsg gs zero rd wr)" m "varint_bytes (of_nat (length bs)) @ bs"] True
    by (simp add: rc_member_def is_array_def submsg_def wire_type_for_def w_len_def)
next
  case False
  then show ?thesis by (simp add: encodes_def encode_field_def rc_member_def)
qed

lemma RadioToClient_enc:
  assumes "RadioToClient_ok m"
  shows "encodes (pb_encode RadioToClient_fields m) (RadioToClient_wire m)"
  unfolding RadioToClient_fields_def
  by (rule encodes_cong)
     ((rule encodes_fields enc_intros encodes_rc_member
       | (insert assms, cases "rc_body m"; simp add: RadioToClient_ok_def RadioToClient_wire_def rc_body_wire_def; fail))+)

lemma rc_member_tag [simp]: "f_tag (rc_member n start d) = n"
  by (simp add: rc_member_def)

lemma rc_step:
  assumes "pb_field_iter_find RadioToClient_fields n = Some (rc_member n start (submsg gs zero rd wr))" "0 < n" "n < 16"
    and "R_which (rc_body m) \<noteq> n" "pb_decode_loop gs bs (rd (m\<lparr>rc_body := start\<rparr>)) = Inr x" "length bs < 2 ^ 32"
    and "wr x (m\<lparr>rc_body := start\<rparr>) = m'"
  shows "pb_decode_loop RadioToClient_fields (w_len n bs) m = Inr m'"
  using step_submsg [of RadioToClient_fields n "rc_member n start (submsg gs zero rd wr)" gs zero rd wr
      "m\<lparr>rc_body := start\<rparr>" m bs x "[]"] assms
  by (simp add: rc_member_def loop_end)

lemma rc_body_length:
  assumes "RadioToClient_ok m"
  shows "length (rc_body_wire (rc_body m)) \<le> 506"
proof -
  have sub: "length (w_len n bs) \<le> k + 3" if "length bs \<le> k" "k \<le> 503" "0 < n" "n < 16" for n k bs
    using wire_sizes_rules(6) [of n bs] that by simp
  have l0:
    "Pong_ok x2 \<Longrightarrow> length (w_len 2 (Pong_wire x2)) \<le> 506" for x2
    using Pong_length [of x2] sub [of "Pong_wire x2" 503 2] by simp
  have l1:
    "DeviceInfo_ok x3 \<Longrightarrow> length (w_len 3 (DeviceInfo_wire x3)) \<le> 506" for x3
    using DeviceInfo_length [of x3] sub [of "DeviceInfo_wire x3" 503 3] by simp
  have l2:
    "length (w_len 4 (RadioSettings_wire x4)) \<le> 506" for x4
    using RadioSettings_length [of x4] sub [of "RadioSettings_wire x4" 503 4] by simp
  have l3:
    "length (w_len 5 (PacketAccepted_wire x5)) \<le> 506" for x5
    using PacketAccepted_length [of x5] sub [of "PacketAccepted_wire x5" 503 5] by simp
  have l4:
    "PacketEntry_ok x6 \<Longrightarrow> length (w_len 6 (PacketEntry_wire x6)) \<le> 506" for x6
    using PacketEntry_length [of x6] sub [of "PacketEntry_wire x6" 503 6] by simp
  have l5:
    "length (w_len 7 (FetchEnd_wire x7)) \<le> 506" for x7
    using FetchEnd_length [of x7] sub [of "FetchEnd_wire x7" 503 7] by simp
  have l6:
    "length (w_len 8 (TxResult_wire x8)) \<le> 506" for x8
    using TxResult_length [of x8] sub [of "TxResult_wire x8" 503 8] by simp
  have l7:
    "DeviceSettings_ok x9 \<Longrightarrow> length (w_len 9 (DeviceSettings_wire x9)) \<le> 506" for x9
    using DeviceSettings_length [of x9] sub [of "DeviceSettings_wire x9" 503 9] by simp
  have l8:
    "Status_ok x10 \<Longrightarrow> length (w_len 10 (Status_wire x10)) \<le> 506" for x10
    using Status_length [of x10] sub [of "Status_wire x10" 503 10] by simp
  have l9:
    "length (w_len 11 []) \<le> 506"
    by (rule order.trans [OF sub [of "[]" 0 11]], simp_all)
  have l10:
    "Error_ok x12 \<Longrightarrow> length (w_len 12 (Error_wire x12)) \<le> 506" for x12
    using Error_length [of x12] sub [of "Error_wire x12" 503 12] by simp
  show ?thesis
    using assms l0 l1 l2 l3 l4 l5 l6 l7 l8 l9 l10 by (cases "rc_body m") (simp_all add: RadioToClient_ok_def rc_body_wire_def)
qed

lemma RadioToClient_length: "RadioToClient_ok m \<Longrightarrow> length (RadioToClient_wire m) \<le> RadioToClient_size"
  using rc_body_length [of m] wire_sizes_rules(1) [of 1 "rc_id m"] by (simp add: RadioToClient_wire_def RadioToClient_size_def)

section \<open>Decoding\<close>

lemmas message_lengths = Ping_length Pong_length DeviceInfo_length RadioSettings_length PacketAccepted_length
  PacketEntry_length FetchEnd_length TxResult_length DeviceSettings_length Status_length Error_length
  SetRadioSettings_length SendPacket_length FetchPackets_length SetDeviceSettings_length Auth_length

lemma ClientToRadio_find:
  "pb_field_iter_find ClientToRadio_fields 1 = Some (f_one 1 (d_uint32 cr_id (\<lambda>v. cr_id_update (\<lambda>_. v))))"
  "pb_field_iter_find ClientToRadio_fields 2 = Some (cr_member 2 (C_ping Ping_init_zero) (submsg Ping_fields Ping_init_zero (\<lambda>m. case cr_body m of C_ping x \<Rightarrow> x | _ \<Rightarrow> Ping_init_zero) (\<lambda>x. cr_body_update (\<lambda>_. C_ping x))))"
  "pb_field_iter_find ClientToRadio_fields 3 = Some (cr_member 3 (C_get_device_info) (submsg no_fields () (\<lambda>m. ()) (\<lambda>x m. m)))"
  "pb_field_iter_find ClientToRadio_fields 4 = Some (cr_member 4 (C_get_radio_settings) (submsg no_fields () (\<lambda>m. ()) (\<lambda>x m. m)))"
  "pb_field_iter_find ClientToRadio_fields 5 = Some (cr_member 5 (C_set_radio_settings SetRadioSettings_init_zero) (submsg SetRadioSettings_fields SetRadioSettings_init_zero (\<lambda>m. case cr_body m of C_set_radio_settings x \<Rightarrow> x | _ \<Rightarrow> SetRadioSettings_init_zero) (\<lambda>x. cr_body_update (\<lambda>_. C_set_radio_settings x))))"
  "pb_field_iter_find ClientToRadio_fields 6 = Some (cr_member 6 (C_send_packet SendPacket_init_zero) (submsg SendPacket_fields SendPacket_init_zero (\<lambda>m. case cr_body m of C_send_packet x \<Rightarrow> x | _ \<Rightarrow> SendPacket_init_zero) (\<lambda>x. cr_body_update (\<lambda>_. C_send_packet x))))"
  "pb_field_iter_find ClientToRadio_fields 7 = Some (cr_member 7 (C_fetch_packets FetchPackets_init_zero) (submsg FetchPackets_fields FetchPackets_init_zero (\<lambda>m. case cr_body m of C_fetch_packets x \<Rightarrow> x | _ \<Rightarrow> FetchPackets_init_zero) (\<lambda>x. cr_body_update (\<lambda>_. C_fetch_packets x))))"
  "pb_field_iter_find ClientToRadio_fields 8 = Some (cr_member 8 (C_purge_store) (submsg no_fields () (\<lambda>m. ()) (\<lambda>x m. m)))"
  "pb_field_iter_find ClientToRadio_fields 9 = Some (cr_member 9 (C_get_device_settings) (submsg no_fields () (\<lambda>m. ()) (\<lambda>x m. m)))"
  "pb_field_iter_find ClientToRadio_fields 10 = Some (cr_member 10 (C_set_device_settings SetDeviceSettings_init_zero) (submsg SetDeviceSettings_fields SetDeviceSettings_init_zero (\<lambda>m. case cr_body m of C_set_device_settings x \<Rightarrow> x | _ \<Rightarrow> SetDeviceSettings_init_zero) (\<lambda>x. cr_body_update (\<lambda>_. C_set_device_settings x))))"
  "pb_field_iter_find ClientToRadio_fields 11 = Some (cr_member 11 (C_get_status) (submsg no_fields () (\<lambda>m. ()) (\<lambda>x m. m)))"
  "pb_field_iter_find ClientToRadio_fields 12 = Some (cr_member 12 (C_auth Auth_init_zero) (submsg Auth_fields Auth_init_zero (\<lambda>m. case cr_body m of C_auth x \<Rightarrow> x | _ \<Rightarrow> Auth_init_zero) (\<lambda>x. cr_body_update (\<lambda>_. C_auth x))))"
  "pb_field_iter_find ClientToRadio_fields 13 = Some (cr_member 13 (C_reboot) (submsg no_fields () (\<lambda>m. ()) (\<lambda>x m. m)))"
  "pb_field_iter_find ClientToRadio_fields 14 = Some (cr_member 14 (C_factory_reset) (submsg no_fields () (\<lambda>m. ()) (\<lambda>x m. m)))"
  "pb_field_iter_find ClientToRadio_fields 15 = Some (cr_member 15 (C_bootloader) (submsg no_fields () (\<lambda>m. ()) (\<lambda>x m. m)))"
  by (simp_all add: ClientToRadio_fields_def)

lemma ClientToRadio_dec:
  assumes "ClientToRadio_ok m"
  shows "pb_decode_loop ClientToRadio_fields (ClientToRadio_wire m) ClientToRadio_init_zero = Inr m"
proof -
  have "pb_decode_loop ClientToRadio_fields (ClientToRadio_wire m) ClientToRadio_init_zero
      = pb_decode_loop ClientToRadio_fields (cr_body_wire (cr_body m)) \<lparr>cr_id = cr_id m, cr_body = C_none\<rparr>"
    unfolding ClientToRadio_wire_def
    by (rule trans, rule step_uint32, rule ClientToRadio_find) (simp_all add: ClientToRadio_init_zero_def)
  also have "\<dots> = Inr m"
    using assms
    by (cases m; cases "cr_body m")
       (simp_all add: cr_body_wire_def ClientToRadio_ok_def loop_end,
        (rule cr_step, rule ClientToRadio_find,
         (rule sub_dec | (simp add: no_fields_def loop_end; fail)
          | (rule le_less_trans, rule message_lengths, (simp; fail)+))+)+)
  finally show ?thesis .
qed

lemma RadioToClient_find:
  "pb_field_iter_find RadioToClient_fields 1 = Some (f_one 1 (d_uint32 rc_id (\<lambda>v. rc_id_update (\<lambda>_. v))))"
  "pb_field_iter_find RadioToClient_fields 2 = Some (rc_member 2 (R_pong Pong_init_zero) (submsg Pong_fields Pong_init_zero (\<lambda>m. case rc_body m of R_pong x \<Rightarrow> x | _ \<Rightarrow> Pong_init_zero) (\<lambda>x. rc_body_update (\<lambda>_. R_pong x))))"
  "pb_field_iter_find RadioToClient_fields 3 = Some (rc_member 3 (R_device_info DeviceInfo_init_zero) (submsg DeviceInfo_fields DeviceInfo_init_zero (\<lambda>m. case rc_body m of R_device_info x \<Rightarrow> x | _ \<Rightarrow> DeviceInfo_init_zero) (\<lambda>x. rc_body_update (\<lambda>_. R_device_info x))))"
  "pb_field_iter_find RadioToClient_fields 4 = Some (rc_member 4 (R_radio_settings RadioSettings_init_zero) (submsg RadioSettings_fields RadioSettings_init_zero (\<lambda>m. case rc_body m of R_radio_settings x \<Rightarrow> x | _ \<Rightarrow> RadioSettings_init_zero) (\<lambda>x. rc_body_update (\<lambda>_. R_radio_settings x))))"
  "pb_field_iter_find RadioToClient_fields 5 = Some (rc_member 5 (R_packet_accepted PacketAccepted_init_zero) (submsg PacketAccepted_fields PacketAccepted_init_zero (\<lambda>m. case rc_body m of R_packet_accepted x \<Rightarrow> x | _ \<Rightarrow> PacketAccepted_init_zero) (\<lambda>x. rc_body_update (\<lambda>_. R_packet_accepted x))))"
  "pb_field_iter_find RadioToClient_fields 6 = Some (rc_member 6 (R_packet_entry PacketEntry_init_zero) (submsg PacketEntry_fields PacketEntry_init_zero (\<lambda>m. case rc_body m of R_packet_entry x \<Rightarrow> x | _ \<Rightarrow> PacketEntry_init_zero) (\<lambda>x. rc_body_update (\<lambda>_. R_packet_entry x))))"
  "pb_field_iter_find RadioToClient_fields 7 = Some (rc_member 7 (R_fetch_end FetchEnd_init_zero) (submsg FetchEnd_fields FetchEnd_init_zero (\<lambda>m. case rc_body m of R_fetch_end x \<Rightarrow> x | _ \<Rightarrow> FetchEnd_init_zero) (\<lambda>x. rc_body_update (\<lambda>_. R_fetch_end x))))"
  "pb_field_iter_find RadioToClient_fields 8 = Some (rc_member 8 (R_tx_result TxResult_init_zero) (submsg TxResult_fields TxResult_init_zero (\<lambda>m. case rc_body m of R_tx_result x \<Rightarrow> x | _ \<Rightarrow> TxResult_init_zero) (\<lambda>x. rc_body_update (\<lambda>_. R_tx_result x))))"
  "pb_field_iter_find RadioToClient_fields 9 = Some (rc_member 9 (R_device_settings DeviceSettings_init_zero) (submsg DeviceSettings_fields DeviceSettings_init_zero (\<lambda>m. case rc_body m of R_device_settings x \<Rightarrow> x | _ \<Rightarrow> DeviceSettings_init_zero) (\<lambda>x. rc_body_update (\<lambda>_. R_device_settings x))))"
  "pb_field_iter_find RadioToClient_fields 10 = Some (rc_member 10 (R_status Status_init_zero) (submsg Status_fields Status_init_zero (\<lambda>m. case rc_body m of R_status x \<Rightarrow> x | _ \<Rightarrow> Status_init_zero) (\<lambda>x. rc_body_update (\<lambda>_. R_status x))))"
  "pb_field_iter_find RadioToClient_fields 11 = Some (rc_member 11 (R_ok) (submsg no_fields () (\<lambda>m. ()) (\<lambda>x m. m)))"
  "pb_field_iter_find RadioToClient_fields 12 = Some (rc_member 12 (R_error Error_init_zero) (submsg Error_fields Error_init_zero (\<lambda>m. case rc_body m of R_error x \<Rightarrow> x | _ \<Rightarrow> Error_init_zero) (\<lambda>x. rc_body_update (\<lambda>_. R_error x))))"
  by (simp_all add: RadioToClient_fields_def)

lemma RadioToClient_dec:
  assumes "RadioToClient_ok m"
  shows "pb_decode_loop RadioToClient_fields (RadioToClient_wire m) RadioToClient_init_zero = Inr m"
proof -
  have "pb_decode_loop RadioToClient_fields (RadioToClient_wire m) RadioToClient_init_zero
      = pb_decode_loop RadioToClient_fields (rc_body_wire (rc_body m)) \<lparr>rc_id = rc_id m, rc_body = R_none\<rparr>"
    unfolding RadioToClient_wire_def
    by (rule trans, rule step_uint32, rule RadioToClient_find) (simp_all add: RadioToClient_init_zero_def)
  also have "\<dots> = Inr m"
    using assms
    by (cases m; cases "rc_body m")
       (simp_all add: rc_body_wire_def RadioToClient_ok_def loop_end,
        (rule rc_step, rule RadioToClient_find,
         (rule sub_dec | (simp add: no_fields_def loop_end; fail)
          | (rule le_less_trans, rule message_lengths, (simp; fail)+))+)+)
  finally show ?thesis .
qed

end
