(* ===== verification/Codec.thy ===== *)
theory Codec
  imports Processor Envelope
begin

text \<open>
  The envelope codec of \<open>command_processor.cpp\<close> on top of nanopb: what \<open>encode_envelope\<close> writes, what
  \<open>decode_envelope\<close> accepts, and that the two agree with a peer that uses the same schema.
\<close>

lemma encode_wire:
  assumes "encodes e bs" "length bs \<le> cap" "cap < 2 ^ 32"
  shows "e (pb_ostream_from_buffer cap) = Inr \<lparr>os_sizing = False, os_max_size = cap,
    os_bytes_written = length bs, os_out = bs\<rparr>"
  using encodesD [OF assms(1), of "pb_ostream_from_buffer cap"] assms(2,3)
  by (simp add: fits_def put_def pb_ostream_from_buffer_def)

lemma frame_limit: "MESHPIGEON_MAX_FRAME_PAYLOAD = 512"
  by (simp add: protocol_limits)

lemma encode_envelope_wire:
  assumes "RadioToClient_ok m"
  shows "encode_envelope MESHPIGEON_MAX_FRAME_PAYLOAD m = RadioToClient_wire m"
  using encode_wire [OF RadioToClient_enc [OF assms], of 512] RadioToClient_length [OF assms]
  by (simp add: encode_envelope_def frame_limit RadioToClient_size_def)

lemma wire_empty: "RadioToClient_wire m = [] \<longleftrightarrow> rc_id m = 0 \<and> rc_body m = R_none"
  by (cases "rc_body m")
     (auto simp: RadioToClient_wire_def w_uint_def w_len_def w_tag_nonempty rc_body_wire_def ucast_0_iff)

lemma request_default: "pb_message_set_to_defaults ClientToRadio_fields ClientToRadio_init_zero = ClientToRadio_init_zero"
  by (simp add: pb_message_set_to_defaults_def ClientToRadio_fields_def ClientToRadio_init_zero_def
      pb_field_set_to_default_def f_one_def d_uint32_def cr_member_def)

lemma response_default: "pb_message_set_to_defaults RadioToClient_fields RadioToClient_init_zero = RadioToClient_init_zero"
  by (simp add: pb_message_set_to_defaults_def RadioToClient_fields_def RadioToClient_init_zero_def
      pb_field_set_to_default_def f_one_def d_uint32_def rc_member_def)

lemma decode_request:
  assumes "ClientToRadio_ok m" "cr_id m \<noteq> 0"
  shows "decode_envelope (ClientToRadio_wire m) = Some m"
  using assms ClientToRadio_dec [OF assms(1)]
  by (simp add: decode_envelope_def pb_decode_def request_default)

text \<open>A field the schema does not know is skipped, wherever it stands.\<close>

lemma skip_unknown:
  assumes "pb_field_iter_find fs n = None" "0 < n" "n < 2 ^ 29"
    and "field = w_tag n 0 @ varint_bytes v \<or> field = w_tag n 1 @ put_u64 v \<or>
         length bs < 2 ^ 32 \<and> field = w_tag n 2 @ varint_bytes (of_nat (length bs)) @ bs \<or>
         field = w_tag n 5 @ put_u32 w"
  shows "pb_decode_loop fs (field @ rest) m = pb_decode_loop fs rest m"
proof -
  have step: "pb_decode_loop fs (w_tag n wt @ c @ rest) m = pb_decode_loop fs rest m"
    if "wt < 8" "pb_skip_field (wire_type_of wt) (c @ rest) = Inr (u, rest)" for wt c u
    using pb_decode_tag_w [OF assms(3) that(1), of "c @ rest"] that assms(1,2)
    by (subst pb_decode_loop.simps) (simp add: w_tag_nonempty)
  have varint: "pb_skip_varint (varint_bytes v @ rest) = Inr ((), rest)"
  proof (induction v rule: varint_bytes.induct)
    case (1 v)
    show ?case
    proof (cases "v \<le> 0x7F")
      case True
      then have "drop_bit 7 v = 0" using le_7F [of v] by simp
      then show ?thesis
        using last_byte(1) [of v] by (simp add: varint_bytes_last)
    next
      case False
      then have "drop_bit 7 v \<noteq> 0" using le_7F [of v] by simp
      then show ?thesis
        using 1 [OF False] cont_byte(1) [of v] by (simp add: varint_bytes_more)
    qed
  qed
  have read: "pb_read 8 (put_u64 v @ rest) = Inr (put_u64 v, rest)" "pb_read 4 (put_u32 w @ rest) = Inr (put_u32 w, rest)"
    using read_exact [of "put_u64 v" rest] read_exact [of "put_u32 w" rest] by (simp_all add: length_put)
  have string: "pb_skip_string (varint_bytes (of_nat (length bs)) @ bs @ rest) = Inr ((), rest)" if "length bs < 2 ^ 32"
    using decode_len(2) [OF that, of rest] small_u64' [OF that] read_exact [of bs rest]
    by (simp add: pb_skip_string_def)
  from assms(4) show ?thesis
    using step [of 0 "varint_bytes v"] step [of 1 "put_u64 v"] step [of 5 "put_u32 w"]
      step [of 2 "varint_bytes (of_nat (length bs)) @ bs"] varint read string
    by (auto simp: pb_skip_field_def wire_type_of_def)
qed

section \<open>Properties\<close>

text \<open>
  C30. Responses and pushes survive the wire.  Every envelope the firmware can build encodes within
  the frame limit and decodes, at a peer with the same schema, to the same envelope; in particular
  no answer is lost to a buffer that is too small.
\<close>

theorem response_round_trip:
  assumes "RadioToClient_ok m"
  shows "length (encode_envelope MESHPIGEON_MAX_FRAME_PAYLOAD m) \<le> MESHPIGEON_MAX_FRAME_PAYLOAD \<and>
    (encode_envelope MESHPIGEON_MAX_FRAME_PAYLOAD m = [] \<longleftrightarrow> m = RadioToClient_init_zero) \<and>
    pb_decode RadioToClient_fields (encode_envelope MESHPIGEON_MAX_FRAME_PAYLOAD m) RadioToClient_init_zero = Inr m"
proof -
  have "m = RadioToClient_init_zero \<longleftrightarrow> rc_id m = 0 \<and> rc_body m = R_none"
    by (cases m) (simp add: RadioToClient_init_zero_def)
  then show ?thesis
    using assms RadioToClient_length [OF assms] RadioToClient_dec [OF assms]
    by (simp add: encode_envelope_wire [unfolded frame_limit] wire_empty pb_decode_def response_default RadioToClient_size_def frame_limit)
qed

lemma response_round_trip_witness:
  "length (encode_envelope MESHPIGEON_MAX_FRAME_PAYLOAD \<lparr>rc_id = 7, rc_body = R_ok\<rparr>) \<le> MESHPIGEON_MAX_FRAME_PAYLOAD"
  using response_round_trip [of "\<lparr>rc_id = 7, rc_body = R_ok\<rparr>"] by (simp add: RadioToClient_ok_def)

text \<open>
  Requests survive the wire.  A client's encoding of a request fits a frame and decodes to that
  request; without a correlation id it is dropped.
\<close>

theorem request_round_trip:
  assumes "ClientToRadio_ok m"
  shows "\<exists>stream. pb_encode ClientToRadio_fields m (pb_ostream_from_buffer MESHPIGEON_MAX_FRAME_PAYLOAD) = Inr stream \<and>
    length (os_out stream) \<le> MESHPIGEON_MAX_FRAME_PAYLOAD \<and>
    decode_envelope (os_out stream) = (if cr_id m = 0 then None else Some m)"
proof -
  have "decode_envelope (ClientToRadio_wire m) = (if cr_id m = 0 then None else Some m)"
    using ClientToRadio_dec [OF assms] by (simp add: decode_envelope_def pb_decode_def request_default)
  then show ?thesis
    using encode_wire [OF ClientToRadio_enc [OF assms], of 512] ClientToRadio_length [OF assms]
    by (simp add: frame_limit ClientToRadio_size_def)
qed

lemma request_round_trip_witness:
  "\<exists>stream. pb_encode ClientToRadio_fields \<lparr>cr_id = 9, cr_body = C_ping \<lparr>pi_payload = [1, 2, 3]\<rparr>\<rparr>
     (pb_ostream_from_buffer MESHPIGEON_MAX_FRAME_PAYLOAD) = Inr stream \<and>
   decode_envelope (os_out stream) = Some \<lparr>cr_id = 9, cr_body = C_ping \<lparr>pi_payload = [1, 2, 3]\<rparr>\<rparr>"
  using request_round_trip [of "\<lparr>cr_id = 9, cr_body = C_ping \<lparr>pi_payload = [1, 2, 3]\<rparr>\<rparr>"]
  by (auto simp: ClientToRadio_ok_def Ping_ok_def)

text \<open>
  Forward compatibility.  A field added to the request schema later, of any wire type and in
  front of the known ones, does not disturb an old radio.
\<close>

theorem unknown_fields_skipped:
  assumes "ClientToRadio_ok m" "cr_id m \<noteq> 0" "15 < n" "n < 2 ^ 29" "length bs < 2 ^ 32"
    and "field \<in> {w_tag n 0 @ varint_bytes v, w_tag n 1 @ put_u64 v,
                  w_tag n 2 @ varint_bytes (of_nat (length bs)) @ bs, w_tag n 5 @ put_u32 w}"
  shows "decode_envelope (field @ ClientToRadio_wire m) = Some m"
proof -
  have "pb_field_iter_find ClientToRadio_fields n = None"
    using assms(3) by (simp add: ClientToRadio_fields_def) (simp add: pb_field_iter_find_def)
  then have "pb_decode_loop ClientToRadio_fields (field @ ClientToRadio_wire m) ClientToRadio_init_zero
      = pb_decode_loop ClientToRadio_fields (ClientToRadio_wire m) ClientToRadio_init_zero"
    using assms by (intro skip_unknown [where n = n and v = v and bs = bs and w = w]) auto
  then show ?thesis
    using assms(2) ClientToRadio_dec [OF assms(1)] by (simp add: decode_envelope_def pb_decode_def request_default)
qed

lemma unknown_fields_skipped_witness:
  "decode_envelope ((w_tag 100 2 @ varint_bytes 2 @ [5, 6]) @ ClientToRadio_wire \<lparr>cr_id = 1, cr_body = C_reboot\<rparr>)
     = Some \<lparr>cr_id = 1, cr_body = C_reboot\<rparr>"
  using unknown_fields_skipped [of "\<lparr>cr_id = 1, cr_body = C_reboot\<rparr>" 100 "[5, 6]"
      "w_tag 100 2 @ varint_bytes 2 @ [5, 6]" 0 0]
  by (simp add: ClientToRadio_ok_def)

end
