(* ===== verification/Decoded.thy ===== *)
theory Decoded
  imports Codec
begin

text \<open>
  What a decoded request looks like in memory, whatever bytes were received: every \<open>char\<close> array keeps
  its size and its terminator and no bytes field exceeds its array.  An invariant of the fields of
  a message is an invariant of \<open>pb_decode\<close>.
\<close>

section \<open>Invariants of the decoder\<close>

definition field_keeps :: "('m \<Rightarrow> bool) \<Rightarrow> 'm pb_field \<Rightarrow> bool" where
  "field_keeps P f \<longleftrightarrow> (\<forall>wt s m m' rest. P m \<longrightarrow> decode_static_field f wt s m = Inr (m', rest) \<longrightarrow> P m')"

lemma loop_keeps:
  assumes "list_all (field_keeps P) fs" "P m" "pb_decode_loop fs s m = Inr m'"
  shows "P m'"
  using assms
proof (induction fs s m rule: pb_decode_loop.induct)
  case (1 fs s m)
  have keep: "P m2" if "pb_field_iter_find fs tag = Some f" "decode_static_field f wt r m = Inr (m2, r2)" for f wt tag r m2 r2
  proof -
    have "f \<in> set fs" using that(1) by (auto simp: pb_field_iter_find_def find_Some_iff)
    then show ?thesis using 1(3,4) that(2) unfolding list_all_iff field_keeps_def by blast
  qed
  note unfold = 1(5) [unfolded pb_decode_loop.simps [of fs s m]]
  show ?case
  proof (cases "s = []")
    case True
    with unfold 1(4) show ?thesis by simp
  next
    case False
    obtain r eof where t: "pb_decode_tag s = (r, eof)" by (cases "pb_decode_tag s")
    show ?thesis
    proof (cases r)
      case (Inl e)
      with unfold 1(4) False t show ?thesis by (auto split: if_splits)
    next
      case (Inr x)
      obtain wt tag rest where x: "x = ((wt, tag), rest)" by (cases x) auto
      have tag: "tag \<noteq> 0" using unfold False t Inr x by (intro notI) simp
      note rest = unfold [unfolded if_not_P [OF False] t Inr x prod.case sum.case if_not_P [OF tag]]
      note ih = 1(1,2) [OF False t [symmetric] Inr x [symmetric] refl tag]
      show ?thesis
      proof (cases "pb_field_iter_find fs tag")
        case None
        then obtain u rest' where skip: "pb_skip_field wt rest = Inr (u, rest')" and l: "pb_decode_loop fs rest' m = Inr m'"
          using rest by (auto split: sum.splits)
        show ?thesis by (rule ih(1) [OF None skip refl 1(3,4) l])
      next
        case (Some f)
        then obtain m2 rest' where dec: "decode_static_field f wt rest m = Inr (m2, rest')"
            and l: "pb_decode_loop fs rest' m2 = Inr m'"
          using rest by (auto split: sum.splits)
        show ?thesis by (rule ih(2) [OF Some dec refl 1(3) keep [OF Some dec] l])
      qed
    qed
  qed
qed

named_theorems keeps_intros \<open>fields that keep an invariant of their message\<close>

definition data_keeps :: "('m \<Rightarrow> bool) \<Rightarrow> 'm pb_data \<Rightarrow> bool" where
  "data_keeps P d \<longleftrightarrow> (\<forall>wt s m m' rest. P m \<longrightarrow> decode_basic_field d wt s m = Inr (m', rest) \<longrightarrow> P m')"

lemma field_keeps_one [keeps_intros]: "data_keeps P d \<Longrightarrow> field_keeps P (f_one tag d)"
  by (simp add: field_keeps_def data_keeps_def decode_static_field_def f_one_def)

lemma field_keeps_opt [keeps_intros]:
  "data_keeps P d \<Longrightarrow> (\<And>m. P m \<Longrightarrow> P (set_has True m)) \<Longrightarrow> field_keeps P (f_opt tag has set_has d)"
  by (simp add: field_keeps_def data_keeps_def decode_static_field_def f_opt_def) blast

lemma field_keeps_member [keeps_intros]:
  "data_keeps P d \<Longrightarrow> (\<And>m. P m \<Longrightarrow> P (cr_body_update (\<lambda>_. start) m)) \<Longrightarrow> field_keeps P (cr_member tag start d)"
  by (simp add: field_keeps_def data_keeps_def decode_static_field_def cr_member_def) blast

lemma keeps_scalar [keeps_intros]:
  "(\<And>v m. P m \<Longrightarrow> P (wr v m)) \<Longrightarrow> data_keeps P (Pb_Scalar l n rd wr)"
  by (auto simp: data_keeps_def decode_basic_field_def map_sum_Inr_iff)

lemma pb_read_length: "pb_read n s = Inr (bs, rest) \<Longrightarrow> length bs = n"
  by (auto simp: pb_read_def split: if_splits)

lemma keeps_bytes [keeps_intros]:
  "(\<And>bs m. P m \<Longrightarrow> length bs + 2 \<le> n \<Longrightarrow> P (wr bs m)) \<Longrightarrow> data_keeps P (Pb_Bytes n rd wr)"
  by (auto simp: data_keeps_def decode_basic_field_def map_sum_Inr_iff pb_dec_bytes_def
      split: if_splits sum.splits dest!: pb_read_length)

lemma dec_string_field:
  assumes "pb_dec_string (n + 1) dest s = Inr (str, rest)" "char_field n dest"
  shows "char_field n str"
proof -
  obtain k bs where str: "str = bs @ 0 # drop (k + 1) dest" and k: "length bs = k" "k + 1 \<le> n + 1"
    using assms(1) by (auto simp: pb_dec_string_def map_sum_Inr_iff split: if_splits sum.splits dest!: pb_read_length)
  then show ?thesis
    using assms(2) by (cases "k = n") (auto simp: char_field_def nth_append nth_Cons')
qed

lemma keeps_string [keeps_intros]:
  "(\<And>str m. P m \<Longrightarrow> (char_field n (rd m) \<Longrightarrow> char_field n str) \<Longrightarrow> P (wr str m)) \<Longrightarrow> k = n + 1
    \<Longrightarrow> data_keeps P (Pb_String k rd wr)"
  using dec_string_field [of n] by (simp add: data_keeps_def decode_basic_field_def map_sum_Inr_iff) metis

lemma keeps_submsg [keeps_intros]:
  assumes "list_all (field_keeps Q) fs" "\<And>m. P m \<Longrightarrow> Q (rd m)" "\<And>x m. P m \<Longrightarrow> Q x \<Longrightarrow> P (wr x m)"
  shows "data_keeps P (submsg fs zero rd wr)"
proof -
  have "P (wr x m)" if "P m" "pb_decode_loop fs sub (rd m) = Inr x" for x m sub
    using loop_keeps [OF assms(1) assms(2) [OF that(1)] that(2)] that(1) assms(3) by blast
  then show ?thesis
    by (auto simp: data_keeps_def decode_basic_field_def submsg_def pb_dec_submessage_def map_sum_Inr_iff
        split: if_splits sum.splits)
qed

section \<open>Requests\<close>

definition settings_request_wf :: "meshpigeon_SetDeviceSettings \<Rightarrow> bool" where
  "settings_request_wf m \<longleftrightarrow> char_field MESHPIGEON_NAME_MAX (sds_name m) \<and> char_field MESHPIGEON_PIN_MAX (sds_pin m) \<and>
     char_field MESHPIGEON_SSID_MAX (sds_wifi_ssid m) \<and> char_field MESHPIGEON_PASS_MAX (sds_wifi_password m)"

definition request_wf :: "meshpigeon_ClientToRadio \<Rightarrow> bool" where
  "request_wf req \<longleftrightarrow> (case cr_body req of
       C_ping m \<Rightarrow> length (pi_payload m) \<le> 500
     | C_send_packet m \<Rightarrow> length (spm_raw m) \<le> 256
     | C_set_device_settings m \<Rightarrow> settings_request_wf m
     | C_auth m \<Rightarrow> char_field MESHPIGEON_PIN_MAX (au_pin m)
     | _ \<Rightarrow> True)"

lemma char_field_zero [simp]: "m = n + 1 \<Longrightarrow> char_field n (replicate m 0)"
  by (simp add: char_field_def del: replicate_Suc)

lemma keeps_settings: "list_all (field_keeps settings_request_wf) SetDeviceSettings_fields"
  unfolding SetDeviceSettings_fields_def list.pred_inject d_bool_def d_uint32_def
  by (intro conjI TrueI keeps_intros; simp add: settings_request_wf_def protocol_limits)

lemma keeps_bytes_messages:
  "list_all (field_keeps (\<lambda>m. length (pi_payload m) \<le> 500)) Ping_fields"
  "list_all (field_keeps (\<lambda>m. length (spm_raw m) \<le> 256)) SendPacket_fields"
  "list_all (field_keeps (\<lambda>m. char_field MESHPIGEON_PIN_MAX (au_pin m))) Auth_fields"
  unfolding Ping_fields_def SendPacket_fields_def Auth_fields_def list.pred_inject
  by (intro conjI TrueI keeps_intros; simp add: protocol_limits)+

lemma keeps_any: "list_all (field_keeps (\<lambda>m. True)) fs"
  by (simp add: list_all_iff field_keeps_def)

lemma request_wf_zero:
  "length (pi_payload Ping_init_zero) \<le> 500" "length (spm_raw SendPacket_init_zero) \<le> 256"
  "char_field MESHPIGEON_PIN_MAX (au_pin Auth_init_zero)" "settings_request_wf SetDeviceSettings_init_zero"
  by (simp_all add: Ping_init_zero_def SendPacket_init_zero_def Auth_init_zero_def SetDeviceSettings_init_zero_def
      settings_request_wf_def protocol_limits)

lemma keeps_request: "list_all (field_keeps request_wf) ClientToRadio_fields"
  unfolding ClientToRadio_fields_def list.pred_inject d_uint32_def
  by (intro conjI TrueI field_keeps_one field_keeps_member keeps_scalar
        keeps_submsg [OF keeps_bytes_messages(1)] keeps_submsg [OF keeps_bytes_messages(2)]
        keeps_submsg [OF keeps_bytes_messages(3)] keeps_submsg [OF keeps_settings] keeps_submsg [OF keeps_any];
      simp add: request_wf_def request_wf_zero split: cr_body.splits)

lemma decode_request_wf: "decode_envelope data = Some req \<Longrightarrow> request_wf req \<and> cr_id req \<noteq> 0"
proof -
  assume "decode_envelope data = Some req"
  then have "pb_decode_loop ClientToRadio_fields data ClientToRadio_init_zero = Inr req" "cr_id req \<noteq> 0"
    by (auto simp: decode_envelope_def pb_decode_def request_default split: sum.splits if_splits)
  moreover have "request_wf ClientToRadio_init_zero"
    by (simp add: request_wf_def ClientToRadio_init_zero_def)
  ultimately show ?thesis using loop_keeps [OF keeps_request] by blast
qed

end
