(* ===== verification/Delivery.thy ===== *)
theory Delivery
  imports Decoded
begin

text \<open>
  A calculus for the handlers of \<open>command_processor.cpp\<close>: every answer and every push is one \<open>say\<close>,
  which leaves the envelope in the scratch response and appends its frames to the trace.  The
  handlers are rewritten to it once (\<open>say_simps\<close>, \<open>handlers\<close>); the properties of the processor are
  proved on that form.
\<close>

named_theorems say_simps \<open>answers and pushes as \<open>say\<close>\<close>

section \<open>Saying an envelope to some sinks\<close>

definition frame_of :: "u32 \<Rightarrow> rc_body \<Rightarrow> byte list" where
  "frame_of rid b = encode_envelope MESHPIGEON_MAX_FRAME_PAYLOAD \<lparr>rc_id = rid, rc_body = b\<rparr>"

definition frames :: "u32 \<Rightarrow> rc_body \<Rightarrow> sink list \<Rightarrow> event list" where
  "frames rid b sinks =
     (if frame_of rid b = [] then [] else map (\<lambda>sink. Send_Frame sink (frame_of rid b)) sinks)"

definition say :: "u32 \<Rightarrow> rc_body \<Rightarrow> sink list \<Rightarrow> command_processor \<Rightarrow> command_processor" where
  "say rid b sinks s = s\<lparr>cp_response := \<lparr>rc_id = rid, rc_body = b\<rparr>, cp_trace := cp_trace s @ frames rid b sinks\<rparr>"

definition recipients :: "sink option \<Rightarrow> bool \<Rightarrow> command_processor \<Rightarrow> sink list" where
  "recipients except authorized_only s =
     filter (\<lambda>sink. Some sink \<noteq> except \<and> (authorized_only \<longrightarrow> is_authorized s sink)) (cp_sinks s)"

lemma say_fields [simp]:
  "cp_store (say rid b ks s) = cp_store s" "cp_clock (say rid b ks s) = cp_clock s"
  "cp_settings_store (say rid b ks s) = cp_settings_store s" "cp_hooks (say rid b ks s) = cp_hooks s"
  "cp_board_name (say rid b ks s) = cp_board_name s" "cp_fw_version (say rid b ks s) = cp_fw_version s"
  "cp_settings (say rid b ks s) = cp_settings s"
  "cp_set_count_since_boot (say rid b ks s) = cp_set_count_since_boot s"
  "cp_device (say rid b ks s) = cp_device s" "cp_radio_ok (say rid b ks s) = cp_radio_ok s"
  "cp_noise_floor_dbm (say rid b ks s) = cp_noise_floor_dbm s"
  "cp_auth_fails (say rid b ks s) = cp_auth_fails s"
  "cp_auth_backoff_until (say rid b ks s) = cp_auth_backoff_until s"
  "cp_tx_pending (say rid b ks s) = cp_tx_pending s" "cp_tx_pending_seq (say rid b ks s) = cp_tx_pending_seq s"
  "cp_response (say rid b ks s) = \<lparr>rc_id = rid, rc_body = b\<rparr>"
  "cp_sinks (say rid b ks s) = cp_sinks s" "cp_authenticated (say rid b ks s) = cp_authenticated s"
  "cp_trace (say rid b ks s) = cp_trace s @ frames rid b ks"
  by (simp_all add: say_def)

lemma emit_fields [simp]:
  "cp_store (emit e s) = cp_store s" "cp_clock (emit e s) = cp_clock s"
  "cp_settings_store (emit e s) = cp_settings_store s" "cp_hooks (emit e s) = cp_hooks s"
  "cp_board_name (emit e s) = cp_board_name s" "cp_fw_version (emit e s) = cp_fw_version s"
  "cp_settings (emit e s) = cp_settings s"
  "cp_set_count_since_boot (emit e s) = cp_set_count_since_boot s"
  "cp_device (emit e s) = cp_device s" "cp_radio_ok (emit e s) = cp_radio_ok s"
  "cp_noise_floor_dbm (emit e s) = cp_noise_floor_dbm s"
  "cp_auth_fails (emit e s) = cp_auth_fails s"
  "cp_auth_backoff_until (emit e s) = cp_auth_backoff_until s"
  "cp_tx_pending (emit e s) = cp_tx_pending s" "cp_tx_pending_seq (emit e s) = cp_tx_pending_seq s"
  "cp_response (emit e s) = cp_response s"
  "cp_sinks (emit e s) = cp_sinks s" "cp_authenticated (emit e s) = cp_authenticated s"
  "cp_trace (emit e s) = cp_trace s @ [e]"
  by (simp_all add: emit_def)

lemma is_authorized_fields [simp]:
  "is_authorized (say rid b ks s) k = is_authorized s k" "is_authorized (emit e s) k = is_authorized s k"
  by (simp_all add: is_authorized_def)

lemma recipients_update [simp]:
  "recipients x ao (s\<lparr>cp_tx_pending := a\<rparr>) = recipients x ao s" "recipients x ao (s\<lparr>cp_store := b\<rparr>) = recipients x ao s"
  "recipients x ao (s\<lparr>cp_clock := c\<rparr>) = recipients x ao s" "recipients x ao (s\<lparr>cp_noise_floor_dbm := d\<rparr>) = recipients x ao s"
  "recipients x ao (say rid bd ks s) = recipients x ao s" "recipients x ao (emit e s) = recipients x ao s"
  by (simp_all add: recipients_def is_authorized_def)

lemma effective_name_cong:
  "cp_device s = cp_device s' \<Longrightarrow> cp_hooks s = cp_hooks s' \<Longrightarrow> effective_name s = effective_name s'"
  by (simp add: effective_name_def)

subsection \<open>The delivery functions\<close>

lemma deliver_say [say_simps]: "deliver to (set_body b (begin_response rid s)) = say rid b [to] s"
  by (simp add: deliver_def encode_response_def set_body_def begin_response_def say_def frames_def frame_of_def
      emit_def RadioToClient_init_zero_def Let_def)

lemma broadcast_loop_trace:
  "broadcast_loop sinks buf except ao s = s\<lparr>cp_trace := cp_trace s @
     map (\<lambda>k. Send_Frame k buf) (filter (\<lambda>k. Some k \<noteq> except \<and> (ao \<longrightarrow> is_authorized s k)) sinks)\<rparr>"
  by (induction sinks arbitrary: s) (auto simp: emit_def is_authorized_def)

lemma broadcast_say [say_simps]:
  "broadcast_response except ao (set_body b (begin_response rid s)) = say rid b (recipients except ao s) s"
  by (simp add: broadcast_response_def broadcast_loop_trace encode_response_def set_body_def begin_response_def
      say_def frames_def frame_of_def recipients_def is_authorized_def RadioToClient_init_zero_def Let_def)

subsection \<open>The bodies that are built from the state\<close>

definition error_body :: "u32 \<Rightarrow> rc_body" where
  "error_body code = R_error (Error_init_zero\<lparr>er_code := code\<rparr>)"

definition radio_body :: "radio_settings \<Rightarrow> rc_body" where
  "radio_body c = R_radio_settings
     \<lparr>rsm_freq_hz = rs_freq_hz c, rsm_bandwidth_hz = ucast (rs_bw_x100khz c) * 10,
      rsm_sf = ucast (rs_sf c), rsm_cr = ucast (rs_cr c), rsm_power_dbm = ucast (rs_power_dbm c),
      rsm_config_epoch = rs_config_epoch c\<rparr>"

definition device_body :: "command_processor \<Rightarrow> rc_body" where
  "device_body s = R_device_settings
     \<lparr>dsm_name = effective_name s, dsm_wifi_enabled = ds_wifi_enabled (cp_device s),
      dsm_wifi_ssid = copy_str 33 (ds_wifi_ssid (cp_device s)),
      dsm_wifi_password = copy_str 64 (ds_wifi_password (cp_device s)),
      dsm_wifi_port = ucast (ds_wifi_port (cp_device s))\<rparr>"

definition status_body :: "board_hooks option \<Rightarrow> rc_body" where
  "status_body h = R_status ((case h of None \<Rightarrow> Status_init_zero | Some hooks \<Rightarrow> hk_fill_status hooks Status_init_zero)
     \<lparr>st_ble_clients := (case h of None \<Rightarrow> 0 | Some hooks \<Rightarrow> ucast (hk_ble_clients hooks)),
      st_usb_cdc_clients := (case h of None \<Rightarrow> 0 | Some hooks \<Rightarrow> ucast (hk_usb_cdc_clients hooks)),
      st_wifi_tcp_clients := (case h of None \<Rightarrow> 0 | Some hooks \<Rightarrow> ucast (hk_wifi_tcp_clients hooks))\<rparr>)"

definition info_body :: "sink \<Rightarrow> command_processor \<Rightarrow> rc_body" where
  "info_body from s = R_device_info
     \<lparr>di_spec_version = of_nat MESHPIGEON_SPEC_VERSION,
      di_fw_version = copy_str 16 (cp_fw_version s), di_board_name = copy_str 17 (cp_board_name s),
      di_capabilities = capabilities s,
      di_uptime_ms = uptime_ms64 (cp_clock s), di_boot_count = boot_count (cp_clock s),
      di_has_store = True,
      di_store = \<lparr>si_count = of_nat (ps_count (cp_store s)), si_capacity_bytes = of_nat (ps_capacity (cp_store s)),
                  si_dropped = of_nat (ps_dropped (cp_store s)),
                  si_oldest_seq = of_nat (oldest_seq (cp_store s))\<rparr>,
      di_radio_config_epoch = rs_config_epoch (cp_settings s),
      di_battery_mv = (case cp_hooks s of None \<Rightarrow> 0xFFFF | Some hooks \<Rightarrow> ucast (hk_battery_mv hooks)),
      di_radio_ok = cp_radio_ok s, di_auth_required = (\<not> is_authorized s from),
      di_noise_floor_dbm = cp_noise_floor_dbm s\<rparr>"

lemma device_body_cong [simp]: "device_body (say rid b ks s) = device_body s" "device_body (emit e s) = device_body s"
  by (simp_all add: device_body_def effective_name_def)

lemma build_say [say_simps]:
  "build_radio_settings (begin_response rid s) = set_body (radio_body (cp_settings s)) (begin_response rid s)"
  "build_device_settings (begin_response rid s) = set_body (device_body s) (begin_response rid s)"
  "build_status (begin_response rid s) = set_body (status_body (cp_hooks s)) (begin_response rid s)"
  "build_packet_entry rid e s = set_body (R_packet_entry (packet_entry_of e)) (begin_response rid s)"
  by (simp_all add: build_radio_settings_def build_device_settings_def build_status_def build_packet_entry_def
      radio_body_def device_body_def status_body_def begin_response_def set_body_def effective_name_def Let_def)

lemma send_say [say_simps]:
  "send_error rid code to s = say rid (error_body code) [to] s"
  "send_ok rid to s = say rid R_ok [to] s"
  "send_pong rid payload to s = say rid (R_pong \<lparr>po_payload = take 500 payload\<rparr>) [to] s"
  "send_radio_settings rid to s = say rid (radio_body (cp_settings s)) [to] s"
  "send_device_settings rid to s = say rid (device_body s) [to] s"
  "send_status rid to s = say rid (status_body (cp_hooks s)) [to] s"
  "send_device_info rid to s = say rid (info_body to s) [to] s"
  "emit_tx_result seq ok s = say 0 (R_tx_result \<lparr>tr_seq = of_nat seq, tr_success = ok\<rparr>) (recipients None False s) s"
  "notify_radio_changed except s = say 0 (radio_body (cp_settings s)) (recipients except True s) s"
  "notify_device_settings_changed except s = say 0 (device_body s) (recipients except True s) s"
  "on_wifi_state_changed s = say 0 (status_body (cp_hooks s)) (recipients None False s) s"
  by (simp_all add: send_error_def send_ok_def send_pong_def send_radio_settings_def send_device_settings_def
      send_status_def send_device_info_def emit_tx_result_def notify_radio_changed_def
      notify_device_settings_changed_def on_wifi_state_changed_def say_simps error_body_def info_body_def)


subsection \<open>Handlers\<close>

lemmas handler_defs = handle_set_radio_settings_def handle_send_packet_def handle_fetch_packets_def
  handle_set_device_settings_def handle_auth_def require_auth_def run_hook_def

text \<open>The packets a fetch answers with, and its answers, one after the other.\<close>

definition page_limit :: "meshpigeon_FetchPackets \<Rightarrow> nat" where
  "page_limit req = (let n = unat (fp_max_count req) in if n = 0 \<or> n > kMaxFetchPerRequest then kMaxFetchPerRequest else n)"

definition page_of :: "meshpigeon_FetchPackets \<Rightarrow> packet_store \<Rightarrow> stored_packet list" where
  "page_of req st = take (page_limit req) (filter (\<lambda>e. unat (fp_since_seq req) < sp_seq e) (ps_entries st))"

definition say_entry :: "u32 \<Rightarrow> sink \<Rightarrow> command_processor \<Rightarrow> stored_packet \<Rightarrow> command_processor" where
  "say_entry rid from s e = say rid (R_packet_entry (packet_entry_of e)) [from] s"

lemma foldl_count: "foldl (\<lambda>(s, n) e. (f s e, n + 1)) (s, n :: u32) es = (foldl f s es, n + of_nat (length es))"
  by (induction es arbitrary: s n) (simp_all add: add.assoc)

lemma fetch_say:
  assumes "ps_inv (cp_store s)" "is_authorized s from"
  shows "handle_fetch_packets rid req from s =
    say rid (R_fetch_end \<lparr>fe_count = of_nat (length (page_of req (cp_store s)))\<rparr>) [from]
      (foldl (say_entry rid from) s (page_of req (cp_store s)))"
proof -
  have cb: "fetch_callback rid from a e = ((\<lambda>(s, n) e. (say_entry rid from s e, n + 1)) a e, True)" for a e
    by (cases a) (simp add: fetch_callback_def say_simps say_entry_def)
  show ?thesis
    using assms(2)
    by (simp add: handle_fetch_packets_def require_auth_def fetch_since_deliver [OF assms(1)] deliver_all [OF cb]
        foldl_count say_simps page_of_def page_limit_def Let_def)
qed

lemma fold_say_entry:
  "foldl (say_entry rid from) s es = s\<lparr>cp_trace := cp_trace s @ concat (map (\<lambda>e. frames rid (R_packet_entry (packet_entry_of e)) [from]) es),
     cp_response := (if es = [] then cp_response s else \<lparr>rc_id = rid, rc_body = R_packet_entry (packet_entry_of (last es))\<rparr>)\<rparr>"
  by (induction es rule: rev_induct) (simp_all add: say_entry_def say_def)


subsection \<open>The handlers, outcome by outcome\<close>

definition requested_tuning :: "meshpigeon_RadioSettings \<Rightarrow> u32 \<Rightarrow> radio_settings" where
  "requested_tuning m epoch = \<lparr>rs_version = kSerializedVersion, rs_region = 0, rs_freq_hz = rsm_freq_hz m,
     rs_bw_x100khz = ucast (rsm_bandwidth_hz m div 10), rs_sf = ucast (rsm_sf m), rs_cr = ucast (rsm_cr m),
     rs_power_dbm = ucast (rsm_power_dbm m), rs_config_epoch = epoch\<rparr>"

definition tuning_request_ok :: "meshpigeon_RadioSettings \<Rightarrow> bool" where
  "tuning_request_ok m \<longleftrightarrow> rsm_bandwidth_hz m \<noteq> 0 \<and> rsm_bandwidth_hz m mod 10 = 0 \<and> rsm_bandwidth_hz m div 10 \<le> 0xFFFF \<and>
     rsm_freq_hz m \<noteq> 0 \<and> 5 \<le> rsm_sf m \<and> rsm_sf m \<le> 12 \<and> 5 \<le> rsm_cr m \<and> rsm_cr m \<le> 8 \<and>
     rsm_power_dbm m \<le> of_nat MESHPIGEON_TX_POWER_MAX"

text \<open>What a successful retuning does to the state.\<close>

definition retuned :: "radio_settings \<Rightarrow> command_processor \<Rightarrow> command_processor" where
  "retuned c s = s\<lparr>cp_settings := c, cp_settings_store := fst (ms_save c (cp_settings_store s)), cp_radio_ok := True,
     cp_set_count_since_boot := cp_set_count_since_boot s + 1,
     cp_trace := cp_trace s @ [Radio_Apply (c\<lparr>rs_config_epoch := 0\<rparr>), Save_Radio c]\<rparr>"

lemma set_radio_say:
  "handle_set_radio_settings lora rid req from s =
     (if \<not> is_authorized s from then say rid (error_body ERROR_CODE_AUTH_REQUIRED) [from] s
      else if \<not> srs_has_settings req \<or> \<not> tuning_request_ok (srs_settings req)
      then say rid (error_body ERROR_CODE_BAD_PAYLOAD) [from] s
      else if first_owner_lock_active s \<or> cp_tx_pending s then say rid (error_body ERROR_CODE_BUSY) [from] s
      else if \<not> lr_apply lora (requested_tuning (srs_settings req) 0)
      then say rid (error_body ERROR_CODE_TX_FAILED) [from] (emit (Radio_Apply (requested_tuning (srs_settings req) 0)) s)
      else let c = requested_tuning (srs_settings req) (rs_config_epoch (cp_settings s) + 1); t = retuned c s
           in say rid (radio_body c) [from] (say 0 (radio_body c) (recipients (Some from) True s) t))"
proof -
  have tuning: "radio_unset\<lparr>rs_freq_hz := rsm_freq_hz m, rs_bw_x100khz := ucast (rsm_bandwidth_hz m div 10),
      rs_sf := ucast (rsm_sf m), rs_cr := ucast (rsm_cr m), rs_power_dbm := ucast (rsm_power_dbm m)\<rparr> = requested_tuning m 0"
    "(requested_tuning m k)\<lparr>rs_config_epoch := n\<rparr> = requested_tuning m n" for m n k
    by (simp_all add: radio_unset_def requested_tuning_def)
  have bad: "(rsm_bandwidth_hz m = 0 \<or> rsm_bandwidth_hz m mod 10 \<noteq> 0 \<or> rsm_bandwidth_hz m div 10 > 0xFFFF \<or>
      rsm_freq_hz m = 0 \<or> rsm_sf m < 5 \<or> rsm_sf m > 12 \<or> rsm_cr m < 5 \<or> rsm_cr m > 8 \<or>
      rsm_power_dbm m > of_nat MESHPIGEON_TX_POWER_MAX) = (\<not> tuning_request_ok m)" for m
    by (simp add: tuning_request_ok_def not_le not_less)
  define m where "m = srs_settings req"
  define e where "e = rs_config_epoch (cp_settings s) + 1"
  let ?t = "emit (Radio_Apply (requested_tuning m 0)) s"
  have fin: "emit (Save_Radio (requested_tuning m e)) (?t\<lparr>cp_radio_ok := True, cp_settings := requested_tuning m e,
      cp_settings_store := fst (ms_save (requested_tuning m e) (cp_settings_store s))\<rparr>)
        \<lparr>cp_set_count_since_boot := cp_set_count_since_boot s + 1\<rparr> = retuned (requested_tuning m e) s"
    by (simp add: retuned_def emit_def tuning)
  have to: "recipients x ao (retuned c s) = recipients x ao s" for x ao c
    by (simp add: recipients_def is_authorized_def retuned_def)
  have cur: "cp_settings (retuned c s) = c" for c by (simp add: retuned_def)
  show ?thesis
    unfolding handle_set_radio_settings_def require_auth_def say_simps Let_def bad tuning
      m_def [symmetric] e_def [symmetric]
    by (simp add: fin to cur e_def [symmetric])
qed

text \<open>What an accepted device write does to the state, the pushes aside.\<close>

definition rewritten :: "meshpigeon_SetDeviceSettings \<Rightarrow> sink \<Rightarrow> command_processor \<Rightarrow> command_processor" where
  "rewritten m from s =
     (let d = candidate m (cp_device s); t = (if sds_has_pin m then rotate_sessions from s else s) in
      t\<lparr>cp_device := d, cp_settings_store := fst (ms_save_device d (cp_settings_store s)),
        cp_trace := cp_trace s @ [Save_Device d] @
          (if sds_has_name m \<and> cp_hooks s \<noteq> None then [Hook_Set_Device_Name (effective_name (s\<lparr>cp_device := d\<rparr>))] else []) @
          (if wifi_touched m \<and> cp_hooks s \<noteq> None then [Hook_Apply_Wifi d] else [])\<rparr>)"

lemma rotate_fields [simp]:
  "cp_device (rotate_sessions from s) = cp_device s" "cp_settings_store (rotate_sessions from s) = cp_settings_store s"
  "cp_trace (rotate_sessions from s) = cp_trace s" "cp_hooks (rotate_sessions from s) = cp_hooks s"
  "cp_sinks (rotate_sessions from s) = cp_sinks s"
  by (simp_all add: rotate_sessions_def)

lemma store_rewritten: "store_device_settings m from s = rewritten m from s"
proof -
  have name: "effective_name (s\<lparr>cp_device := d, cp_settings_store := a, cp_trace := b\<rparr>) = effective_name (s\<lparr>cp_device := d\<rparr>)"
    "effective_name (rotate_sessions from (s\<lparr>cp_device := d\<rparr>)\<lparr>cp_settings_store := a, cp_trace := b\<rparr>) = effective_name (s\<lparr>cp_device := d\<rparr>)"
    "effective_name ((rotate_sessions from s)\<lparr>cp_device := d, cp_settings_store := a, cp_trace := b\<rparr>) = effective_name (s\<lparr>cp_device := d\<rparr>)" for d a b
    by (simp_all add: effective_name_def)
  have rot: "rotate_sessions from (s\<lparr>cp_device := d\<rparr>) = (rotate_sessions from s)\<lparr>cp_device := d\<rparr>" for d
    by (simp add: rotate_sessions_def)
  show ?thesis
    unfolding store_device_settings_def rewritten_def
    by (cases "sds_has_pin m"; cases "sds_has_name m"; cases "wifi_touched m"; cases "cp_hooks s")
       (simp_all add: emit_def Let_def name rot)
qed

lemma set_device_say:
  "handle_set_device_settings rid m from s =
     (if \<not> is_authorized s from then say rid (error_body ERROR_CODE_AUTH_REQUIRED) [from] s
      else if invalid_request m then say rid (error_body ERROR_CODE_BAD_PAYLOAD) [from] s
      else if wifi_touched m \<and> (case cp_hooks s of None \<Rightarrow> False | Some hooks \<Rightarrow> \<not> hk_wifi_supported hooks)
      then say rid (error_body ERROR_CODE_NOT_SUPPORTED) [from] s
      else if device_eq (candidate m (cp_device s)) (cp_device s) then say rid (device_body s) [from] s
      else let t = rewritten m from s
           in say rid (device_body t) [from] (say 0 (device_body t) (recipients (Some from) True t) t))"
  unfolding handle_set_device_settings_def require_auth_def Let_def announce_device_settings_def store_rewritten
  by (simp add: say_simps)

lemma auth_say:
  "handle_auth rid m from s =
     (if \<not> auth_backoff_active s \<and> (is_authorized s from \<or> pin_matches (au_pin m) (strlen (au_pin m)) s)
      then say rid R_ok [from] (s\<lparr>cp_authenticated := (cp_authenticated s)(from := True), cp_auth_fails := 0\<rparr>)
      else say rid (error_body ERROR_CODE_AUTH_REQUIRED) [from] (if auth_backoff_active s then s else note_auth_failure s))"
  by (simp add: handle_auth_def say_simps is_authorized_def)

lemma send_packet_say:
  "handle_send_packet lora rid req from s =
     (if \<not> is_authorized s from then say rid (error_body ERROR_CODE_AUTH_REQUIRED) [from] s
      else if spm_raw req = [] \<or> length (spm_raw req) > MESHPIGEON_MAX_RAW_PACKET
      then say rid (error_body ERROR_CODE_BAD_PAYLOAD) [from] s
      else if \<not> cp_radio_ok s then say rid (error_body ERROR_CODE_NO_RADIO) [from] s
      else if cp_tx_pending s then say rid (error_body ERROR_CODE_BUSY) [from] s
      else case ps_append (uptime_ms64 (cp_clock s)) 0 0 kFlagSent (spm_raw req) (cp_store s) of (store, seq, out) \<Rightarrow>
        let t = s\<lparr>cp_store := store\<rparr> in
        if seq = 0 then say rid (error_body ERROR_CODE_BUSY) [from] t
        else let u = emit (Radio_Transmit (spm_raw req)) (say rid (R_packet_accepted \<lparr>pa_seq = of_nat seq\<rparr>) [from] t)
          in if lr_transmit lora (spm_raw req) \<noteq> 0
             then say 0 (R_tx_result \<lparr>tr_seq = of_nat seq, tr_success = False\<rparr>) (recipients None False s) u
             else u\<lparr>cp_tx_pending := True, cp_tx_pending_seq := seq\<rparr>)"
  by (auto simp: handle_send_packet_def require_auth_def say_simps Let_def recipients_def split: prod.splits)

text \<open>What every answer keeps, a fetch keeps, whatever the store holds.\<close>

lemma fetch_keeps:
  assumes keeps: "\<And>rid b ks t. P t \<Longrightarrow> P (say rid b ks t)" and "P s"
  shows "P (handle_fetch_packets rid req from s)"
proof -
  have cb: "P (fst a) \<Longrightarrow> P (fst (fst (fetch_callback rid from a e)))" "snd (fetch_callback rid from a e)" for a e
    by (cases a; simp add: fetch_callback_def say_simps keeps)+
  have "P (fst a) \<Longrightarrow> P (fst (snd (fetch_loop st since m (fetch_callback rid from) n off d a)))" for st since m n off d a
  proof (induction n arbitrary: off d a)
    case (Suc n)
    obtain a' ok where a: "fetch_callback rid from a (read_entry st off (read_header st off)) = (a', ok)"
      by (cases "fetch_callback rid from a (read_entry st off (read_header st off))")
    have "P (fst a')" using cb(1) [OF Suc.prems, of "read_entry st off (read_header st off)"] a by simp
    then show ?case using Suc a by (simp add: Let_def)
  qed simp
  then have "P (fst (snd (fetch_since st since m (fetch_callback rid from) (s, 0))))" for st since m
    using assms(2) by (simp add: fetch_since_def)
  then show ?thesis
    by (simp add: handle_fetch_packets_def require_auth_def say_simps page_limit_def Let_def case_prod_beta keeps assms(2))
qed

end
