(* ===== verification/Machine.thy ===== *)
theory Machine
  imports Delivery
begin

text \<open>
  The command processor as a state machine: everything that can happen to it between two boots as
  a labelled step relation, the states reachable from a boot, and their invariant.
\<close>

section \<open>Inputs and steps\<close>

text \<open>
  What the board calls: bytes of a frame from a connected client, a packet the radio heard, the two
  transmit notifications, the main loop's poll at a reading of the millisecond counter, what
  the transports do to the client registry, and what the board's hooks answer from then on.
\<close>

datatype input =
    Envelope lora_radio "byte list" sink
  | Received byte byte "byte list"
  | Tx_Result nat bool
  | Poll lora_radio u32
  | Attach sink
  | Detach sink
  | Session_End sink
  | Wifi_Changed
  | Hooks board_hooks

fun on_input :: "input \<Rightarrow> command_processor \<Rightarrow> command_processor" where
  "on_input (Envelope lora data from) s = on_envelope lora data (Some from) s"
| "on_input (Received rssi snr raw) s = fst (on_packet_received rssi snr raw s)"
| "on_input (Tx_Result seq ok) s = on_tx_result seq ok s"
| "on_input (Poll lora now) s = processor_poll lora now s"
| "on_input (Attach sink) s = fst (add_sink sink s)"
| "on_input (Detach sink) s = remove_sink sink s"
| "on_input (Session_End sink) s = s\<lparr>cp_authenticated := (cp_authenticated s)(sink := False)\<rparr>"
| "on_input Wifi_Changed s = on_wifi_state_changed s"
| "on_input (Hooks h) s = (if cp_hooks s = None then s else s\<lparr>cp_hooks := Some h\<rparr>)"

text \<open>What the board's hooks promise: the arrays they fill keep their size and their terminator.\<close>

definition hooks_ok :: "board_hooks option \<Rightarrow> bool" where
  "hooks_ok h = (case h of None \<Rightarrow> True | Some hooks \<Rightarrow> Status_ok (hk_fill_status hooks Status_init_zero))"

text \<open>
  A step is taken while the 32-bit sequence counter is not used up (\<open>2\<^sup>32 - 1\<close> packets since the
  boot); a received packet has a \<open>uint8_t\<close> length.
\<close>

definition live :: "command_processor \<Rightarrow> bool" where
  "live s \<longleftrightarrow> ps_next_seq (cp_store s) + 1 < 2 ^ 32"

fun input_ok :: "input \<Rightarrow> bool" where
  "input_ok (Received rssi snr raw) = (length raw < 256)"
| "input_ok (Hooks h) = hooks_ok (Some h)"
| "input_ok _ = True"

inductive cp_step :: "command_processor \<Rightarrow> input \<Rightarrow> command_processor \<Rightarrow> bool" where
  step: "live s \<Longrightarrow> input_ok i \<Longrightarrow> cp_step s i (on_input i s)"

inductive_simps cp_step_iff: "cp_step s i s'"

text \<open>A tuning the radio accepts, and a device record the validators let through.\<close>

definition tuning_valid :: "radio_settings \<Rightarrow> bool" where
  "tuning_valid c \<longleftrightarrow> rs_version c = kSerializedVersion \<and> rs_freq_hz c \<noteq> 0 \<and> rs_bw_x100khz c \<noteq> 0 \<and>
     5 \<le> rs_sf c \<and> rs_sf c \<le> 12 \<and> 5 \<le> rs_cr c \<and> rs_cr c \<le> 8 \<and> rs_power_dbm c \<le> of_nat MESHPIGEON_TX_POWER_MAX"

definition device_valid :: "device_settings \<Rightarrow> bool" where
  "device_valid d \<longleftrightarrow> device_wf d \<and> valid_name (cstr (ds_name d)) \<and> valid_pin (cstr (ds_pin d))"

text \<open>What a boot makes of a persisted device record: an unset port becomes the default port.\<close>

definition with_port :: "device_settings \<Rightarrow> device_settings" where
  "with_port d = (if ds_wifi_port d = 0 then d\<lparr>ds_wifi_port := of_nat MESHPIGEON_WIFI_PORT_DEFAULT\<rparr> else d)"

definition persisted_ok :: "memory_store \<Rightarrow> bool" where
  "persisted_ok st \<longleftrightarrow> tuning_valid (fst (ms_load radio_unset st)) \<and> device_valid (fst (ms_load_device st))"

text \<open>
  The states reachable from a boot of a freshly constructed processor on a persisted record that
  was written by the firmware (or on none).
\<close>

definition powered_on :: "lora_radio \<Rightarrow> nat \<Rightarrow> bool \<Rightarrow> uptime_clock \<Rightarrow> memory_store \<Rightarrow> byte list \<Rightarrow> byte list
    \<Rightarrow> radio_settings \<Rightarrow> device_settings \<Rightarrow> meshpigeon_RadioToClient \<Rightarrow> board_hooks option \<Rightarrow> command_processor" where
  "powered_on lora capacity calloc_ok clock persist board_name fw_version r d resp hooks =
     fst (boot lora (set_hooks hooks (command_processor_new (packet_store_new capacity calloc_ok) clock persist
       board_name fw_version r d resp (\<lambda>_. False))))"

inductive cp_reachable :: "command_processor \<Rightarrow> bool" where
  booted: "capacity < 2 ^ 32 \<Longrightarrow> persisted_ok persist \<Longrightarrow> hooks_ok hooks \<Longrightarrow>
    cp_reachable (powered_on lora capacity calloc_ok clock persist board_name fw_version r d resp hooks)"
| stepped: "cp_reachable s \<Longrightarrow> cp_step s i s' \<Longrightarrow> cp_reachable s'"

section \<open>The invariant\<close>

definition frame_ok :: "event \<Rightarrow> bool" where
  "frame_ok e = (case e of Send_Frame to buf \<Rightarrow>
       buf \<noteq> [] \<and> length buf \<le> MESHPIGEON_MAX_FRAME_PAYLOAD \<and>
       (\<exists>m. RadioToClient_ok m \<and> pb_decode RadioToClient_fields buf RadioToClient_init_zero = Inr m)
     | _ \<Rightarrow> True)"

definition cp_inv :: "command_processor \<Rightarrow> bool" where
  "cp_inv s \<longleftrightarrow> ps_inv (cp_store s) \<and> tuning_valid (cp_settings s) \<and> device_valid (cp_device s) \<and>
     ds_wifi_port (cp_device s) \<noteq> 0 \<and> hooks_ok (cp_hooks s) \<and> length (cp_sinks s) \<le> kMaxSinks \<and>
     fst (ms_load radio_unset (cp_settings_store s)) = cp_settings s \<and>
     with_port (fst (ms_load_device (cp_settings_store s))) = cp_device s \<and>
     list_all frame_ok (cp_trace s)"

subsection \<open>Every answer can be encoded\<close>

definition body_ok :: "rc_body \<Rightarrow> bool" where
  "body_ok b \<longleftrightarrow> RadioToClient_ok \<lparr>rc_id = 0, rc_body = b\<rparr>"

lemma RadioToClient_ok_body: "RadioToClient_ok m \<longleftrightarrow> body_ok (rc_body m)"
  by (simp add: body_ok_def RadioToClient_ok_def)

lemma frame_of_ok:
  assumes "body_ok b" "b \<noteq> R_none"
  shows "frame_of rid b \<noteq> []" "length (frame_of rid b) \<le> MESHPIGEON_MAX_FRAME_PAYLOAD"
    "pb_decode RadioToClient_fields (frame_of rid b) RadioToClient_init_zero = Inr \<lparr>rc_id = rid, rc_body = b\<rparr>"
proof -
  let ?m = "\<lparr>rc_id = rid, rc_body = b\<rparr>"
  have ok: "RadioToClient_ok ?m" using assms(1) by (simp add: RadioToClient_ok_body)
  have f: "frame_of rid b = RadioToClient_wire ?m"
    by (simp add: frame_of_def encode_envelope_wire [OF ok])
  show "frame_of rid b \<noteq> []" using assms(2) by (simp add: f wire_empty)
  show "length (frame_of rid b) \<le> MESHPIGEON_MAX_FRAME_PAYLOAD"
    using RadioToClient_length [OF ok] by (simp add: f frame_limit RadioToClient_size_def)
  show "pb_decode RadioToClient_fields (frame_of rid b) RadioToClient_init_zero = Inr ?m"
    by (simp add: f pb_decode_def response_default RadioToClient_dec [OF ok])
qed

lemma frames_ok:
  assumes "body_ok b" "b \<noteq> R_none"
  shows "list_all frame_ok (frames rid b ks)"
    "frames rid b ks = map (\<lambda>k. Send_Frame k (frame_of rid b)) ks"
  using frame_of_ok [OF assms, of rid] assms
  by (auto simp: frames_def list_all_iff frame_ok_def RadioToClient_ok_body)

lemma padded_copy_str [simp]:
  assumes "0 < cap"
  shows "padded cap (copy_str cap s)"
proof -
  have "copy_str cap s = take (cap - 1) (cstr s) @ replicate (cap - length (take (cap - 1) (cstr s))) 0"
    by (simp add: copy_str_def Let_def take_strnlen) (simp add: strnlen_def cstr_take)
  then show ?thesis
    using assms cstr_copy_str [OF assms, of s] by (simp add: padded_def)
qed

lemma padded_zero [simp]: "0 < n \<Longrightarrow> padded n (replicate n 0)"
  by (cases n) (simp_all add: padded_def cstr_def)

lemma body_ok_simps [simp]:
  "body_ok (error_body code)" "body_ok R_ok" "body_ok (R_pong \<lparr>po_payload = take 500 p\<rparr>)"
  "body_ok (radio_body c)" "body_ok (R_tx_result t)" "body_ok (R_fetch_end f)" "body_ok (R_packet_accepted a)"
  "error_body code \<noteq> R_none" "radio_body c \<noteq> R_none" "status_body h \<noteq> R_none" "info_body k s \<noteq> R_none"
  "device_body s \<noteq> R_none"
  by (simp_all add: body_ok_def RadioToClient_ok_def error_body_def radio_body_def Error_ok_def Error_init_zero_def
      Pong_ok_def status_body_def info_body_def device_body_def)

lemma body_ok_device [simp]: "body_ok (device_body s)"
proof -
  have "padded 21 (effective_name s)"
    by (simp add: effective_name_def protocol_limits Let_def)
  then show ?thesis by (simp add: body_ok_def RadioToClient_ok_def device_body_def DeviceSettings_ok_def)
qed

lemma body_ok_info [simp]: "body_ok (info_body k s)"
proof -
  have "length (capabilities s) \<le> 16"
    by (auto simp: capabilities_def kMaxCapabilities_def split: option.splits prod.splits)
  then show ?thesis by (simp add: body_ok_def RadioToClient_ok_def info_body_def DeviceInfo_ok_def)
qed

lemma body_ok_pong: "length (po_payload p) \<le> 500 \<Longrightarrow> body_ok (R_pong p)"
  by (simp add: body_ok_def RadioToClient_ok_def Pong_ok_def)

lemma body_ok_status: "hooks_ok h \<Longrightarrow> body_ok (status_body h)"
  by (auto simp: hooks_ok_def body_ok_def RadioToClient_ok_def status_body_def Status_ok_def Status_init_zero_def
      split: option.splits)

lemma body_ok_entry: "entry_ok e \<Longrightarrow> body_ok (R_packet_entry (packet_entry_of e))"
  by (auto simp: body_ok_def RadioToClient_ok_def PacketEntry_ok_def packet_entry_of_def entry_ok_def protocol_limits)


subsection \<open>Every operation keeps the invariant\<close>

named_theorems inv_intros \<open>what keeps \<open>cp_inv\<close>\<close>

lemma cp_inv_say [inv_intros]: "cp_inv s \<Longrightarrow> body_ok b \<Longrightarrow> b \<noteq> R_none \<Longrightarrow> cp_inv (say rid b ks s)"
  using frames_ok(1) [of b rid ks] by (simp add: cp_inv_def)

lemma cp_inv_emit [inv_intros]: "cp_inv s \<Longrightarrow> frame_ok e \<Longrightarrow> cp_inv (emit e s)"
  by (simp add: cp_inv_def)

lemma cp_inv_other [simp]:
  "cp_inv (s\<lparr>cp_clock := a\<rparr>) = cp_inv s" "cp_inv (s\<lparr>cp_set_count_since_boot := b\<rparr>) = cp_inv s"
  "cp_inv (s\<lparr>cp_radio_ok := c\<rparr>) = cp_inv s" "cp_inv (s\<lparr>cp_noise_floor_dbm := b\<rparr>) = cp_inv s"
  "cp_inv (s\<lparr>cp_auth_fails := d\<rparr>) = cp_inv s" "cp_inv (s\<lparr>cp_auth_backoff_until := f\<rparr>) = cp_inv s"
  "cp_inv (s\<lparr>cp_tx_pending := c\<rparr>) = cp_inv s" "cp_inv (s\<lparr>cp_tx_pending_seq := g\<rparr>) = cp_inv s"
  "cp_inv (s\<lparr>cp_authenticated := h\<rparr>) = cp_inv s" "cp_inv (s\<lparr>cp_response := i\<rparr>) = cp_inv s"
  by (simp_all add: cp_inv_def)

lemma cp_inv_store [inv_intros]: "cp_inv s \<Longrightarrow> ps_inv st \<Longrightarrow> cp_inv (s\<lparr>cp_store := st\<rparr>)"
  by (simp add: cp_inv_def)

lemma frame_ok_simps [simp]:
  "frame_ok Radio_Begin" "frame_ok (Radio_Apply c)" "frame_ok (Radio_Transmit raw)" "frame_ok (Save_Radio c)"
  "frame_ok (Save_Device d)" "frame_ok Clear_Device" "frame_ok (Hook_Set_Device_Name n)"
  "frame_ok (Hook_Apply_Wifi d)" "frame_ok Hook_Reboot" "frame_ok Hook_Reboot_To_Bootloader" "frame_ok Hook_Factory_Reset"
  by (simp_all add: frame_ok_def)

lemma cp_inv_facts:
  assumes "cp_inv s"
  shows "ps_inv (cp_store s)" "hooks_ok (cp_hooks s)" "device_valid (cp_device s)" "tuning_valid (cp_settings s)"
  using assms by (simp_all add: cp_inv_def)

lemma inv_require [inv_intros]:
  "cp_inv s \<Longrightarrow> (is_authorized s from \<Longrightarrow> cp_inv (k s)) \<Longrightarrow> cp_inv (require_auth rid from k s)"
  by (simp add: require_auth_def say_simps inv_intros)

lemma inv_hook [inv_intros]: "cp_inv s \<Longrightarrow> frame_ok e \<Longrightarrow> cp_inv (run_hook e s)"
  by (simp add: run_hook_def inv_intros)

lemma inv_fetch [inv_intros]:
  assumes "cp_inv s"
  shows "cp_inv (handle_fetch_packets rid req from s)"
proof (cases "is_authorized s from")
  case True
  have ok: "list_all entry_ok (ps_entries (cp_store s))"
    using ps_inv_facts(7) cp_inv_facts(1) [OF assms] by blast
  have "cp_inv (foldl (say_entry rid from) s es)" if "set es \<subseteq> set (ps_entries (cp_store s))" for es
    using that
  proof (induction es rule: rev_induct)
    case (snoc e es)
    then have "entry_ok e" using ok by (auto simp: list_all_iff)
    then show ?case using snoc by (simp add: say_entry_def cp_inv_say body_ok_entry)
  qed (simp add: assms)
  moreover have "set (page_of req (cp_store s)) \<subseteq> set (ps_entries (cp_store s))"
    by (auto simp: page_of_def dest: in_set_takeD)
  ultimately show ?thesis
    using True by (simp add: fetch_say cp_inv_facts(1) [OF assms] cp_inv_say)
next
  case False
  then show ?thesis using assms by (simp add: handle_fetch_packets_def require_auth_def say_simps inv_intros)
qed

lemma ps_inv_dropped:
  assumes "ps_inv st"
  shows "ps_inv (st\<lparr>ps_dropped := add32 (ps_dropped st) 1\<rparr>)"
proof -
  let ?t = "st\<lparr>ps_dropped := add32 (ps_dropped st) 1\<rparr>"
  have "ps_rel ?t es" if "ps_rel st es" for es
  proof -
    have "ps_frame st es \<Longrightarrow> ps_frame ?t es" using add32_bound by (simp add: ps_frame_def)
    moreover have "linear ?t es = linear st es" "wrapped ?t es = wrapped st es"
      by (simp_all add: linear_def wrapped_def)
    ultimately show ?thesis using that by (simp add: ps_rel_def)
  qed
  then show ?thesis using assms ps_rel_iff by blast
qed

lemma append_inv:
  assumes inv: "ps_inv st" and raw: "length raw \<le> MESHPIGEON_MAX_RAW_PACKET" and seq: "ps_next_seq st + 1 < 2 ^ 32"
    and app: "ps_append up rssi snr flags raw st = (st', q, out)"
  shows "ps_inv st' \<and> (if kStoredPacketOverhead + length raw \<le> ps_capacity st
    then q = ps_next_seq st \<and> 0 < q \<and> out = Some (new_entry up rssi snr flags raw q) \<and> entry_ok (new_entry up rssi snr flags raw q)
    else q = 0 \<and> out = None)"
proof (cases "kStoredPacketOverhead + length raw \<le> ps_capacity st")
  case True
  have "0 < ps_next_seq st" using ps_inv_facts(2,6) [OF inv] by linarith
  moreover have "entry_ok (new_entry up rssi snr flags raw (ps_next_seq st))"
    using raw seq by (simp add: entry_ok_def new_entry_def)
  moreover have "ps_inv st' \<and> q = ps_next_seq st \<and> out = Some (new_entry up rssi snr flags raw (ps_next_seq st))"
    using append_stored [OF inv [unfolded ps_inv_def] raw True seq, of up rssi snr flags] app
    unfolding ps_rel_iff by (elim exE conjE) simp
  ultimately show ?thesis using True by simp
next
  case False
  then have "st' = st\<lparr>ps_dropped := add32 (ps_dropped st) 1\<rparr>" "q = 0" "out = None"
    using append_refused [OF raw, of st up rssi snr flags] app by auto
  moreover have "ps_inv (st\<lparr>ps_dropped := add32 (ps_dropped st) 1\<rparr>)"
    using inv by (rule ps_inv_dropped)
  ultimately show ?thesis using False by simp
qed

lemma inv_send_packet [inv_intros]:
  assumes "cp_inv s" "live s"
  shows "cp_inv (handle_send_packet lora rid req from s)"
proof -
  obtain st q out where app: "ps_append (uptime_ms64 (cp_clock s)) 0 0 kFlagSent (spm_raw req) (cp_store s) = (st, q, out)"
    by (cases "ps_append (uptime_ms64 (cp_clock s)) 0 0 kFlagSent (spm_raw req) (cp_store s)")
  have "ps_inv st" if "length (spm_raw req) \<le> MESHPIGEON_MAX_RAW_PACKET"
    using append_inv [OF cp_inv_facts(1) [OF assms(1)] that _ app] assms(2) by (simp add: live_def)
  then show ?thesis
    using assms(1) by (simp add: send_packet_say app Let_def inv_intros not_less)
qed

lemma narrow_byte:
  fixes x :: u32 and lo hi :: u32
  assumes "lo \<le> x" "x \<le> hi" "hi < 256"
  shows "ucast lo \<le> (ucast x :: u8)" "(ucast x :: u8) \<le> ucast hi"
proof -
  have "unat (ucast y :: u8) = unat y" if "y \<le> hi" for y :: u32
    using that assms(3) by (simp add: unsigned_ucast_eq take_bit_eq_mod word_le_nat_alt word_less_nat_alt)
  then show "ucast lo \<le> (ucast x :: u8)" "(ucast x :: u8) \<le> ucast hi"
    using assms by (auto simp: word_le_nat_alt)
qed

lemma narrow_bandwidth:
  fixes b :: u32
  assumes "b \<noteq> 0" "b mod 10 = 0" "b div 10 \<le> 0xFFFF"
  shows "(ucast (b div 10) :: u16) \<noteq> 0"
proof -
  have n: "unat b \<noteq> 0" "unat b mod 10 = 0" "unat b div 10 \<le> 65535"
    using assms by (simp_all add: word_le_nat_alt unat_div unat_mod unat_eq_zero flip: unat_eq_zero)
  then have "unat (ucast (b div 10) :: u16) = unat b div 10"
    by (simp add: unsigned_ucast_eq take_bit_eq_mod unat_div)
  moreover have "unat b div 10 \<noteq> 0" using n(1,2) by presburger
  ultimately show ?thesis by (metis unat_0)
qed

lemma requested_tuning_valid:
  assumes "tuning_request_ok m"
  shows "tuning_valid (requested_tuning m n)"
  using narrow_bandwidth [of "rsm_bandwidth_hz m"] narrow_byte [of 5 "rsm_sf m" 12] narrow_byte [of 5 "rsm_cr m" 8]
    narrow_byte [of 0 "rsm_power_dbm m" "of_nat MESHPIGEON_TX_POWER_MAX"] assms
  by (simp add: tuning_valid_def tuning_request_ok_def requested_tuning_def protocol_limits)

lemma inv_retuned [inv_intros]: "cp_inv s \<Longrightarrow> tuning_valid c \<Longrightarrow> cp_inv (retuned c s)"
  using ms.radio_keeps_device [of c "cp_settings_store s"]
  by (simp add: cp_inv_def retuned_def) (simp add: ms_save_def ms_load_def)

lemma inv_set_radio [inv_intros]: "cp_inv s \<Longrightarrow> cp_inv (handle_set_radio_settings lora rid req from s)"
  by (simp add: set_radio_say Let_def requested_tuning_valid inv_intros)

lemma ucast_port_nonzero: "valid_port p \<Longrightarrow> (ucast p :: u16) \<noteq> 0"
proof
  assume p: "valid_port p" "(ucast p :: u16) = 0"
  then have "unat p \<noteq> 0" "unat p < 65536" by (auto simp: valid_port_def word_le_nat_alt unat_eq_zero)
  moreover have "unat (ucast p :: u16) = unat p mod 65536" by (simp add: unsigned_ucast_eq take_bit_eq_mod)
  ultimately show False using p(2) by simp
qed

lemma candidate_fields:
  "ds_name (candidate m d) = (if sds_has_name m then copy_str (MESHPIGEON_NAME_MAX + 1) (sds_name m) else ds_name d)"
  "ds_pin (candidate m d) = (if sds_has_pin m then set_pin (sds_pin m) else ds_pin d)"
  "ds_wifi_enabled (candidate m d) = (if sds_has_wifi_enabled m then sds_wifi_enabled m else ds_wifi_enabled d)"
  "ds_wifi_ssid (candidate m d) =
     (if sds_has_wifi_ssid m then copy_str (MESHPIGEON_SSID_MAX + 1) (sds_wifi_ssid m) else ds_wifi_ssid d)"
  "ds_wifi_password (candidate m d) =
     (if sds_has_wifi_password m then copy_str (MESHPIGEON_PASS_MAX + 1) (sds_wifi_password m) else ds_wifi_password d)"
  "ds_wifi_port (candidate m d) = (if sds_has_wifi_port m then ucast (sds_wifi_port m) else ds_wifi_port d)"
  by (simp_all add: candidate_def Let_def)

lemma set_pin_valid:
  assumes "valid_pin_set (cstr s)" "0 < length s"
  shows "char_field MESHPIGEON_PIN_MAX (set_pin s)" "valid_pin (cstr (set_pin s))"
    "cstr (set_pin s) = (if cstr s = [] then kDefaultPin else cstr s)"
proof -
  show "char_field MESHPIGEON_PIN_MAX (set_pin s)"
    unfolding set_pin_copy_str by (rule char_field_copy_str)
  have first: "s ! 0 = 0 \<longleftrightarrow> cstr s = []" using assms(2) by (cases s) (simp_all add: cstr_def)
  have "length (cstr s) \<le> MESHPIGEON_PIN_MAX"
    using assms(1) by (auto simp: valid_pin_set_def valid_pin_def)
  moreover have "take MESHPIGEON_PIN_MAX (cstr (kDefaultPin @ [0])) = kDefaultPin"
    by (simp add: kDefaultPin_def cstr_def protocol_limits)
  ultimately show pin: "cstr (set_pin s) = (if cstr s = [] then kDefaultPin else cstr s)"
    by (simp add: set_pin_copy_str cstr_copy_str first)
  have "valid_pin kDefaultPin" by (simp add: valid_pin_def kDefaultPin_def protocol_limits)
  then show "valid_pin (cstr (set_pin s))" using assms(1) pin by (auto simp: valid_pin_set_def)
qed

lemma candidate_valid:
  assumes "\<not> invalid_request m" "device_valid d" "ds_wifi_port d \<noteq> 0" "sds_has_pin m \<longrightarrow> 0 < length (sds_pin m)"
  shows "device_valid (candidate m d)" "ds_wifi_port (candidate m d) \<noteq> 0"
proof -
  have name: "take MESHPIGEON_NAME_MAX (cstr (sds_name m)) = cstr (sds_name m)" if "sds_has_name m"
    using that assms(1) by (simp add: invalid_request_def valid_name_def)
  show "device_valid (candidate m d)"
    using assms set_pin_valid [of "sds_pin m"] char_field_copy_str [of MESHPIGEON_NAME_MAX] name
      char_field_copy_str [of MESHPIGEON_SSID_MAX] char_field_copy_str [of MESHPIGEON_PASS_MAX]
    by (simp add: device_valid_def device_wf_def candidate_fields invalid_request_def cstr_copy_str) 
  show "ds_wifi_port (candidate m d) \<noteq> 0"
    using assms ucast_port_nonzero by (auto simp: candidate_fields invalid_request_def)
qed

lemma inv_rewritten [inv_intros]:
  assumes "cp_inv s" "\<not> invalid_request m" "0 < length (sds_pin m)"
  shows "cp_inv (rewritten m from s)"
proof -
  note valid = candidate_valid [OF assms(2) cp_inv_facts(3) [OF assms(1)]]
  have port: "ds_wifi_port (cp_device s) \<noteq> 0" using assms(1) by (simp add: cp_inv_def)
  have "cp_inv (t\<lparr>cp_device := candidate m (cp_device s),
      cp_settings_store := fst (ms_save_device (candidate m (cp_device s)) (cp_settings_store s)), cp_trace := cp_trace s @ es\<rparr>)"
    if "list_all frame_ok es" "cp_inv t" "cp_settings_store t = cp_settings_store s" "cp_trace t = cp_trace s" for es t
    using that valid port ms.device_keeps_radio [of radio_unset "candidate m (cp_device s)" "cp_settings_store s"] assms(3)
    by (simp add: cp_inv_def) (simp add: ms_save_device_def ms_load_device_def with_port_def)
  moreover have "cp_inv (rotate_sessions from s)" using assms(1) by (simp add: rotate_sessions_def)
  ultimately show ?thesis using assms(1) by (simp add: rewritten_def Let_def)
qed

lemma inv_set_device [inv_intros]:
  "cp_inv s \<Longrightarrow> settings_request_wf m \<Longrightarrow> cp_inv (handle_set_device_settings rid m from s)"
  by (simp add: set_device_say Let_def settings_request_wf_def char_field_def inv_intros)

lemma inv_auth [inv_intros]: "cp_inv s \<Longrightarrow> cp_inv (handle_auth rid m from s)"
  by (simp add: auth_say note_auth_failure_def Let_def inv_intros)

lemma inv_reset: "cp_inv s \<Longrightarrow> cp_inv (emit Clear_Device (s\<lparr>cp_device := device_defaults,
    cp_settings_store := ms_clear_device (cp_settings_store s)\<rparr>))"
proof -
  have "ds_wifi_port device_defaults \<noteq> 0" by (simp add: device_defaults_def protocol_limits)
  moreover have "device_valid device_defaults"
    using device_wf_defaults
    by (simp add: device_valid_def) (simp add: device_defaults_def cstr_def valid_name_def valid_pin_def kDefaultPin_def protocol_limits)
  moreover assume "cp_inv s"
  ultimately show ?thesis
    by (simp add: cp_inv_def ms.clear_keeps_radio ms.device_cleared with_port_def)
qed

lemma inv_request:
  assumes "cp_inv s" "live s" "request_wf req"
  shows "cp_inv (handle_request lora req from s)"
proof (cases "cr_body req")
  case C_factory_reset
  have "ps_inv (ps_clear (cp_store s))" using ps_inv_clear cp_inv_facts(1) [OF assms(1)] by blast
  then have "cp_inv ((emit Clear_Device (s\<lparr>cp_device := device_defaults,
      cp_settings_store := ms_clear_device (cp_settings_store s)\<rparr>))\<lparr>cp_store := ps_clear (cp_store s)\<rparr>)"
    by (intro cp_inv_store inv_reset assms(1))
  with C_factory_reset assms(1) show ?thesis
    by (simp add: handle_request_def say_simps Let_def inv_intros)
qed (use assms ps_inv_clear [OF cp_inv_facts(1) [OF assms(1)]] cp_inv_facts(2) [OF assms(1)] in
      \<open>auto simp: handle_request_def say_simps request_wf_def body_ok_status body_ok_pong intro!: inv_intros\<close>)

lemma inv_received [inv_intros]:
  assumes "cp_inv s" "live s" "length raw < 256"
  shows "cp_inv (fst (on_packet_received rssi snr raw s))"
proof -
  let ?s = "s\<lparr>cp_noise_floor_dbm := scast rssi - scast snr\<rparr>"
  obtain st q out where app: "ps_append (uptime_ms64 (cp_clock s)) rssi snr kFlagReceived raw (cp_store s) = (st, q, out)"
    by (cases "ps_append (uptime_ms64 (cp_clock s)) rssi snr kFlagReceived raw (cp_store s)")
  from append_inv [OF cp_inv_facts(1) [OF assms(1)] _ _ app] assms(2,3)
  have "ps_inv st" "\<forall>e. out = Some e \<longrightarrow> entry_ok e"
    by (auto simp: live_def protocol_limits split: if_splits)
  then show ?thesis
    using assms(1) by (auto simp: on_packet_received_def app say_simps Let_def split: option.splits intro!: inv_intros body_ok_entry)
qed

lemma inv_tx_result [inv_intros]: "cp_inv s \<Longrightarrow> cp_inv (on_tx_result seq ok s)"
  by (simp add: on_tx_result_def say_simps inv_intros)

lemma cp_inv_step:
  assumes "cp_step s i s'" "cp_inv s"
  shows "cp_inv s'"
proof -
  have live: "live s" and i: "input_ok i" and s': "s' = on_input i s" using assms(1) by (auto simp: cp_step_iff)
  show ?thesis
  proof (cases i)
    case (Envelope lora data k)
    then show ?thesis
      using inv_request [OF assms(2) live] decode_request_wf assms(2)
      by (auto simp: s' on_envelope_def split: option.splits)
  next
    case (Attach k)
    with assms(2) show ?thesis by (auto simp: s' add_sink_def cp_inv_def)
  next
    case (Detach k)
    have "length (remove1 k (cp_sinks s)) \<le> length (cp_sinks s)" by (simp add: length_remove1)
    with Detach assms(2) show ?thesis by (simp add: s' remove_sink_def cp_inv_def del: length_remove1)
  next
    case Wifi_Changed
    with assms(2) show ?thesis by (simp add: s' say_simps inv_intros body_ok_status cp_inv_facts(2))
  next
    case (Hooks h)
    with assms(2) i show ?thesis by (simp add: s') (simp add: cp_inv_def)
  qed (use assms(2) live i in \<open>simp_all add: s' processor_poll_def Let_def inv_intros\<close>)
qed

lemma boot_state:
  "powered_on lora capacity calloc_ok clock persist board_name fw_version r d resp hooks =
     \<lparr>cp_store = packet_store_new capacity calloc_ok, cp_clock = clock, cp_settings_store = persist, cp_hooks = hooks,
      cp_board_name = copy_str 17 board_name, cp_fw_version = copy_str 16 fw_version,
      cp_settings = fst (ms_load radio_unset persist), cp_set_count_since_boot = 0,
      cp_device = with_port (fst (ms_load_device persist)),
      cp_radio_ok = (lr_begin lora \<and> lr_apply lora (fst (ms_load radio_unset persist))), cp_noise_floor_dbm = 0,
      cp_auth_fails = 0, cp_auth_backoff_until = 0,
      cp_tx_pending = False, cp_tx_pending_seq = 0, cp_response = resp, cp_sinks = [],
      cp_authenticated = (\<lambda>_. False),
      cp_trace = Radio_Begin # (if lr_begin lora then [Radio_Apply (fst (ms_load radio_unset persist))] else [])\<rparr>"
proof -
  obtain r0 ok where load: "ms_load radio_unset persist = (r0, ok)" by (cases "ms_load radio_unset persist")
  then have unset: "r0 = radio_unset" if "\<not> ok" using that by (simp add: ms_load_def split: if_splits)
  show ?thesis
    by (cases ok; cases "lr_begin lora"; cases "ds_wifi_port (fst (ms_load_device persist)) = 0")
       (simp_all add: powered_on_def boot_def set_hooks_def command_processor_new_def load unset with_port_def emit_def)
qed

lemma with_port_valid: "device_valid d \<Longrightarrow> device_valid (with_port d) \<and> ds_wifi_port (with_port d) \<noteq> 0"
  by (simp add: with_port_def device_valid_def device_wf_def protocol_limits)

lemma cp_reachable_inv: "cp_reachable s \<Longrightarrow> cp_inv s"
proof (induction rule: cp_reachable.induct)
  case (booted capacity persist hooks lora calloc_ok clock board_name fw_version r d resp)
  then show ?case
    using with_port_valid by (auto simp: boot_state cp_inv_def ps_inv_new persisted_ok_def)
next
  case (stepped s i s')
  then show ?case using cp_inv_step by blast
qed

section \<open>Sample radios\<close>

text \<open>A radio as shipped and one with the PIN 1234, just booted, without hooks; for the witnesses.\<close>

definition working_lora :: lora_radio where
  "working_lora = \<lparr>lr_begin = True, lr_apply = (\<lambda>c. True), lr_transmit = (\<lambda>raw. 0), lr_tx_done = True\<rparr>"

definition fresh_radio :: command_processor where
  "fresh_radio = powered_on working_lora 700 True uptime_clock_new (memory_store_new radio_unset) [] []
     radio_unset device_defaults RadioToClient_init_zero None"

definition locked_device :: device_settings where
  "locked_device = device_defaults\<lparr>ds_pin := [0x31, 0x32, 0x33, 0x34, 0, 0, 0, 0, 0]\<rparr>"

definition locked_radio :: command_processor where
  "locked_radio = powered_on working_lora 700 True uptime_clock_new
     (fst (ms_save_device locked_device (memory_store_new radio_unset))) [] []
     radio_unset device_defaults RadioToClient_init_zero None"

lemma device_valid_samples: "device_valid device_defaults" "device_valid locked_device"
  by (simp_all add: device_valid_def device_wf_def char_field_def locked_device_def device_defaults_def cstr_def
      valid_name_def valid_pin_def kDefaultPin_def protocol_limits)

lemma sample_reachable: "cp_reachable fresh_radio" "cp_reachable locked_radio"
proof -
  have tuning: "tuning_valid radio_unset"
    by (simp add: tuning_valid_def radio_unset_def protocol_limits)
  have "persisted_ok (memory_store_new radio_unset)"
    "persisted_ok (fst (ms_save_device locked_device (memory_store_new radio_unset)))"
    using tuning device_valid_samples
    by (simp_all add: persisted_ok_def memory_store_new_def ms_load_def ms_load_device_def ms_save_device_def)
  then show "cp_reachable fresh_radio" "cp_reachable locked_radio"
    unfolding fresh_radio_def locked_radio_def by (auto intro!: booted simp: hooks_ok_def)
qed

lemma sample_facts:
  "cp_device fresh_radio = device_defaults" "cp_device locked_radio = locked_device"
  "cp_store fresh_radio = packet_store_new 700 True" "cp_store locked_radio = packet_store_new 700 True"
  "cp_hooks fresh_radio = None" "cp_hooks locked_radio = None" "cp_sinks fresh_radio = []" "cp_sinks locked_radio = []"
  "cp_radio_ok fresh_radio" "cp_radio_ok locked_radio" "\<not> cp_tx_pending fresh_radio" "\<not> cp_tx_pending locked_radio"
  "cp_authenticated fresh_radio = (\<lambda>k. False)" "cp_authenticated locked_radio = (\<lambda>k. False)"
  "cp_settings fresh_radio = radio_unset" "cp_settings locked_radio = radio_unset"
  "cp_set_count_since_boot fresh_radio = 0" "cp_set_count_since_boot locked_radio = 0"
  "cp_auth_fails locked_radio = 0" "cp_auth_backoff_until locked_radio = 0" "cp_clock locked_radio = uptime_clock_new"
  "cp_clock fresh_radio = uptime_clock_new"
  by (simp_all add: fresh_radio_def locked_radio_def boot_state ms_load_device_def memory_store_new_def ms_save_device_def
      ms_load_def with_port_def device_defaults_def locked_device_def working_lora_def protocol_limits)

lemma sample_authorized: "is_authorized fresh_radio k" "\<not> is_authorized locked_radio k"
  by (simp_all add: is_authorized_def sample_facts pin_is_default_def device_defaults_def locked_device_def
      kDefaultPin_def cstr_def protocol_limits)

lemma sample_live: "live fresh_radio" "live locked_radio"
  by (simp_all add: live_def sample_facts packet_store_new_def Let_def)

lemma on_request:
  "ClientToRadio_ok req \<Longrightarrow> cr_id req \<noteq> 0 \<Longrightarrow>
     on_envelope lora (ClientToRadio_wire req) (Some k) s = handle_request lora req k s"
  by (simp add: on_envelope_def decode_request)

end
