(* ===== verification/Access.thy ===== *)
theory Access
  imports Machine
begin

text \<open>
  Access control: what a client that has not presented the PIN can see and change, where the
  content of the radio goes, that the PIN itself never leaves it, how fast it can be guessed, and
  who stays logged in when it changes.
\<close>

section \<open>The gate\<close>

text \<open>What anyone may read, and what is only for authorized clients.\<close>

definition public_body :: "rc_body \<Rightarrow> bool" where
  "public_body b = (case b of R_pong _ \<Rightarrow> True | R_device_info _ \<Rightarrow> True | R_status _ \<Rightarrow> True | R_ok \<Rightarrow> True
     | R_error _ \<Rightarrow> True | R_tx_result _ \<Rightarrow> True | _ \<Rightarrow> False)"

definition gated :: "cr_body \<Rightarrow> bool" where
  "gated b = (case b of C_none \<Rightarrow> False | C_ping _ \<Rightarrow> False | C_get_device_info \<Rightarrow> False | C_get_status \<Rightarrow> False
     | C_auth _ \<Rightarrow> False | _ \<Rightarrow> True)"

lemma public_simps [simp]:
  "public_body (R_pong p)" "public_body (info_body k s)" "public_body (status_body h)" "public_body R_ok"
  "public_body (error_body code)" "public_body (R_tx_result t)" "\<not> public_body (device_body s)" "\<not> public_body (radio_body c)"
  "\<not> public_body (R_packet_entry e)" "\<not> public_body (R_packet_accepted a)" "\<not> public_body (R_fetch_end f)"
  by (simp_all add: public_body_def info_body_def status_body_def error_body_def device_body_def radio_body_def)

lemma gate_closed:
  "\<not> is_authorized s from \<Longrightarrow> gated (cr_body req) \<Longrightarrow>
     handle_request lora req from s = say (cr_id req) (error_body ERROR_CODE_AUTH_REQUIRED) [from] s"
  by (cases "cr_body req")
     (simp_all add: gated_def handle_request_def set_radio_say set_device_say send_packet_say handle_fetch_packets_def
       require_auth_def say_simps)

lemma note_failure_fields [simp]:
  "cp_store (note_auth_failure s) = cp_store s" "cp_settings_store (note_auth_failure s) = cp_settings_store s"
  "cp_settings (note_auth_failure s) = cp_settings s" "cp_device (note_auth_failure s) = cp_device s"
  "cp_radio_ok (note_auth_failure s) = cp_radio_ok s" "cp_tx_pending (note_auth_failure s) = cp_tx_pending s"
  "cp_tx_pending_seq (note_auth_failure s) = cp_tx_pending_seq s" "cp_sinks (note_auth_failure s) = cp_sinks s"
  "cp_set_count_since_boot (note_auth_failure s) = cp_set_count_since_boot s"
  "cp_authenticated (note_auth_failure s) = cp_authenticated s" "cp_trace (note_auth_failure s) = cp_trace s"
  "cp_clock (note_auth_failure s) = cp_clock s" "cp_hooks (note_auth_failure s) = cp_hooks s"
  "cp_board_name (note_auth_failure s) = cp_board_name s" "cp_fw_version (note_auth_failure s) = cp_fw_version s"
  "cp_noise_floor_dbm (note_auth_failure s) = cp_noise_floor_dbm s" "cp_response (note_auth_failure s) = cp_response s"
  by (simp_all add: note_auth_failure_def Let_def)

text \<open>On a stored PIN, \<open>pin_matches\<close> is equality of the two strings.\<close>

lemma char_field_decomp:
  assumes "char_field n s"
  shows "strlen s \<le> n" "s ! strlen s = 0" "i < strlen s \<Longrightarrow> s ! i \<noteq> 0" "length s = n + 1"
proof -
  show len: "length s = n + 1" "strlen s \<le> n" using assms char_field_cstr(2) by (auto simp: char_field_def)
  show "s ! strlen s = 0"
    using len nth_length_takeWhile [of "\<lambda>b. b \<noteq> 0" s] by (simp add: strlen_def cstr_def)
  show "i < strlen s \<Longrightarrow> s ! i \<noteq> 0"
    using nth_mem [of i "cstr s"] set_takeWhileD [of _ "\<lambda>b. b \<noteq> 0" s] takeWhile_nth [of i "\<lambda>b. b \<noteq> 0" s]
    by (auto simp: strlen_def cstr_def)
qed

lemma pin_matches_iff:
  assumes "char_field MESHPIGEON_PIN_MAX p" "char_field MESHPIGEON_PIN_MAX (ds_pin (cp_device s))"
  shows "pin_matches p (strlen p) s \<longleftrightarrow> cstr p \<noteq> [] \<and> cstr p = cstr (ds_pin (cp_device s))"
proof -
  define q where "q = ds_pin (cp_device s)"
  have q: "char_field MESHPIGEON_PIN_MAX q" using assms(2) by (simp add: q_def)
  note P = char_field_decomp [OF assms(1)] and Q = char_field_decomp [OF q]
  have eq: "cstr p = cstr q" if "take (strlen p) p = take (strlen p) q" "q ! strlen p = 0"
  proof -
    have "\<not> strlen p < strlen q" using Q(3) that(2) by blast
    moreover have "\<not> strlen q < strlen p"
    proof
      assume "strlen q < strlen p"
      then have "p ! strlen q = q ! strlen q"
        using arg_cong [OF that(1), of "\<lambda>xs. xs ! strlen q"] by simp
      then show False using P(3) \<open>strlen q < strlen p\<close> Q(2) by metis
    qed
    ultimately have "strlen p = strlen q" by simp
    then show ?thesis using that(1) cstr_prefix [of p] cstr_prefix [of q] by metis
  qed
  have "take (strlen p) p = take (strlen p) q \<and> q ! strlen p = 0" if "cstr p = cstr q"
  proof -
    have "strlen p = strlen q" using that unfolding strlen_def by simp
    then show ?thesis using that Q(2) cstr_prefix [of p] cstr_prefix [of q] by metis
  qed
  moreover have "strlen p = 0 \<longleftrightarrow> cstr p = []" by (simp add: strlen_def)
  ultimately show ?thesis
    using P(1) eq unfolding pin_matches_def q_def [symmetric] by (meson not_le)
qed

text \<open>The answer to an unauthorized client, and what it does to the state.\<close>

lemma auth_outcome:
  assumes "\<not> is_authorized s from" "char_field MESHPIGEON_PIN_MAX (au_pin m)"
    "char_field MESHPIGEON_PIN_MAX (ds_pin (cp_device s))"
  shows "\<exists>b t. handle_auth rid m from s = say rid b [from] t \<and> public_body b \<and> body_ok b \<and> b \<noteq> R_none \<and>
    (t = s \<or> t = note_auth_failure s \<or>
     t = s\<lparr>cp_authenticated := (cp_authenticated s)(from := True), cp_auth_fails := 0\<rparr> \<and>
     \<not> auth_backoff_active s \<and> cstr (au_pin m) = cstr (ds_pin (cp_device s)))"
proof (cases "\<not> auth_backoff_active s \<and> pin_matches (au_pin m) (strlen (au_pin m)) s")
  case True
  then have "handle_auth rid m from s
      = say rid R_ok [from] (s\<lparr>cp_authenticated := (cp_authenticated s)(from := True), cp_auth_fails := 0\<rparr>)"
    by (simp add: auth_say)
  moreover have "\<not> auth_backoff_active s \<and> cstr (au_pin m) = cstr (ds_pin (cp_device s))"
    using True pin_matches_iff [OF assms(2,3)] by simp
  ultimately show ?thesis
    by (intro exI [of _ R_ok]
        exI [of _ "s\<lparr>cp_authenticated := (cp_authenticated s)(from := True), cp_auth_fails := 0\<rparr>"]) simp
next
  case False
  then have "handle_auth rid m from s
      = say rid (error_body ERROR_CODE_AUTH_REQUIRED) [from] (if auth_backoff_active s then s else note_auth_failure s)"
    using assms(1) by (auto simp: auth_say)
  then show ?thesis
    by (intro exI [of _ "error_body ERROR_CODE_AUTH_REQUIRED"]
        exI [of _ "if auth_backoff_active s then s else note_auth_failure s"]) simp
qed

lemma ungated_reply:
  assumes "\<not> gated (cr_body req)" "\<nexists>m. cr_body req = C_auth m" "hooks_ok (cp_hooks s)" "request_wf req"
  shows "\<exists>b. handle_request lora req from s = say (cr_id req) b [from] s \<and> public_body b \<and> body_ok b \<and> b \<noteq> R_none"
proof (cases "cr_body req")
  case (C_ping m)
  then show ?thesis
    by (intro exI [of _ "R_pong \<lparr>po_payload = take 500 (pi_payload m)\<rparr>"]) (simp add: handle_request_def say_simps)
next
  case C_none
  then show ?thesis
    by (intro exI [of _ "error_body ERROR_CODE_BAD_COMMAND"]) (simp add: handle_request_def say_simps)
next
  case C_get_device_info
  then show ?thesis
    by (intro exI [of _ "info_body from s"]) (simp add: handle_request_def say_simps)
next
  case C_get_status
  then show ?thesis using assms(3)
    by (intro exI [of _ "status_body (cp_hooks s)"]) (simp add: handle_request_def say_simps body_ok_status)
qed (use assms in \<open>simp_all add: gated_def\<close>)

lemma unauthorized_reply:
  assumes "cp_inv s" "\<not> is_authorized s from" "request_wf req"
  shows "\<exists>b t. handle_request lora req from s = say (cr_id req) b [from] t \<and> public_body b \<and> body_ok b \<and> b \<noteq> R_none \<and>
    (t = s \<or> t = note_auth_failure s \<or>
     t = s\<lparr>cp_authenticated := (cp_authenticated s)(from := True), cp_auth_fails := 0\<rparr> \<and>
     (\<exists>m. cr_body req = C_auth m \<and> \<not> auth_backoff_active s \<and> cstr (au_pin m) = cstr (ds_pin (cp_device s))))"
proof (cases "gated (cr_body req)")
  case True
  show ?thesis
    by (rule exI [of _ "error_body ERROR_CODE_AUTH_REQUIRED"], rule exI [of _ s])
       (simp add: gate_closed [OF assms(2) True])
next
  case False
  show ?thesis
  proof (cases "\<exists>m. cr_body req = C_auth m")
    case True
    then obtain m where m: "cr_body req = C_auth m" by blast
    have "char_field MESHPIGEON_PIN_MAX (au_pin m)" "char_field MESHPIGEON_PIN_MAX (ds_pin (cp_device s))"
      using assms(3) m cp_inv_facts(3) [OF assms(1)] by (simp_all add: request_wf_def device_valid_def device_wf_def)
    from auth_outcome [OF assms(2) this, of "cr_id req"] m show ?thesis
      by (simp add: handle_request_def)
  next
    case no_auth: False
    from ungated_reply [OF False no_auth cp_inv_facts(2) [OF assms(1)] assms(3)] show ?thesis by blast
  qed
qed

text \<open>
  C1. The gate.  Whatever bytes a client sends that has not presented the PIN of a protected radio,
  nothing it could spoil changes: the packets, the tuning, the device settings, what is persisted,
  the transmitter and the other sessions stay as they are.  Every gated request is answered
  \<open>AUTH_REQUIRED\<close> and nothing else; the other answers carry public content and go to the client
  itself.  Its own session opens only by an \<open>Auth\<close> with exactly the stored PIN while no delay runs.
\<close>

theorem auth_gate:
  assumes "cp_reachable s" "\<not> is_authorized s from" "s' = on_envelope lora data (Some from) s"
  shows "cp_store s' = cp_store s \<and> cp_settings s' = cp_settings s \<and> cp_device s' = cp_device s \<and>
    cp_settings_store s' = cp_settings_store s \<and> cp_radio_ok s' = cp_radio_ok s \<and>
    cp_tx_pending s' = cp_tx_pending s \<and> cp_sinks s' = cp_sinks s \<and>
    (\<forall>k. k \<noteq> from \<longrightarrow> cp_authenticated s' k = cp_authenticated s k) \<and>
    (\<forall>req. decode_envelope data = Some req \<and> gated (cr_body req) \<longrightarrow>
       s' = say (cr_id req) (error_body ERROR_CODE_AUTH_REQUIRED) [from] s) \<and>
    (s' = s \<or> (\<exists>rid b. public_body b \<and> cp_trace s' = cp_trace s @ [Send_Frame from (frame_of rid b)])) \<and>
    (cp_authenticated s' from \<longrightarrow> (\<exists>rid m. decode_envelope data = Some \<lparr>cr_id = rid, cr_body = C_auth m\<rparr> \<and>
       \<not> auth_backoff_active s \<and> cstr (au_pin m) = cstr (ds_pin (cp_device s))))"
proof -
  have a: "\<not> cp_authenticated s from" using assms(2) by (simp add: is_authorized_def)
  show ?thesis
  proof (cases "decode_envelope data")
    case None
    then show ?thesis using a assms(3) by (simp add: on_envelope_def)
  next
    case (Some req)
    have s': "s' = handle_request lora req from s" using Some assms(3) by (simp add: on_envelope_def)
    obtain b t where t: "s' = say (cr_id req) b [from] t" and b: "public_body b" "body_ok b" "b \<noteq> R_none"
      and cases: "t = s \<or> t = note_auth_failure s \<or>
        t = s\<lparr>cp_authenticated := (cp_authenticated s)(from := True), cp_auth_fails := 0\<rparr> \<and>
        (\<exists>m. cr_body req = C_auth m \<and> \<not> auth_backoff_active s \<and> cstr (au_pin m) = cstr (ds_pin (cp_device s)))"
      using unauthorized_reply [OF cp_reachable_inv [OF assms(1)] assms(2), of req lora] decode_request_wf [OF Some] s'
      by auto
    have "cp_trace s' = cp_trace s @ [Send_Frame from (frame_of (cr_id req) b)]"
      using t cases frames_ok(2) [OF b(2,3), of "cr_id req" "[from]"] by auto
    then have sent: "\<exists>rid b. public_body b \<and> cp_trace s' = cp_trace s @ [Send_Frame from (frame_of rid b)]"
      using b(1) by blast
    have gate: "\<forall>r. decode_envelope data = Some r \<and> gated (cr_body r) \<longrightarrow>
        s' = say (cr_id r) (error_body ERROR_CODE_AUTH_REQUIRED) [from] s"
      using Some s' gate_closed [OF assms(2)] by simp
    have opens: "cp_authenticated s' from \<longrightarrow> (\<exists>rid m. decode_envelope data = Some \<lparr>cr_id = rid, cr_body = C_auth m\<rparr> \<and>
        \<not> auth_backoff_active s \<and> cstr (au_pin m) = cstr (ds_pin (cp_device s)))"
    proof
      assume "cp_authenticated s' from"
      then obtain m where m: "cr_body req = C_auth m" "\<not> auth_backoff_active s" "cstr (au_pin m) = cstr (ds_pin (cp_device s))"
        using cases t a by auto
      then have "req = \<lparr>cr_id = cr_id req, cr_body = C_auth m\<rparr>" by simp
      then show "\<exists>rid m. decode_envelope data = Some \<lparr>cr_id = rid, cr_body = C_auth m\<rparr> \<and>
        \<not> auth_backoff_active s \<and> cstr (au_pin m) = cstr (ds_pin (cp_device s))"
        using m Some by metis
    qed
    from cases show ?thesis
      by (intro conjI gate opens disjI2 sent) (use t in auto)
  qed
qed

lemma auth_gate_witness:
  "cp_store (on_envelope working_lora [0x08, 1, 0x42, 0] (Some 3) locked_radio) = packet_store_new 700 True \<and>
   \<not> cp_authenticated (on_envelope working_lora [0x08, 1, 0x42, 0] (Some 4) locked_radio) 3"
  using auth_gate [OF sample_reachable(2) sample_authorized(2), of _ working_lora "[0x08, 1, 0x42, 0]" 3, OF refl]
    auth_gate [OF sample_reachable(2) sample_authorized(2), of _ working_lora "[0x08, 1, 0x42, 0]" 4, OF refl]
  by (simp add: sample_facts)

section \<open>Where content goes\<close>

text \<open>Everything \<open>s'\<close> sent since \<open>s\<close> that is not public went to clients authorized in \<open>s'\<close>.\<close>

definition confined :: "command_processor \<Rightarrow> command_processor \<Rightarrow> bool" where
  "confined s s' \<longleftrightarrow> (\<exists>es. cp_trace s' = cp_trace s @ es \<and> (\<forall>k buf. Send_Frame k buf \<in> set es \<longrightarrow>
     (\<exists>rid b. buf = frame_of rid b \<and> body_ok b \<and> b \<noteq> R_none \<and> (public_body b \<or> is_authorized s' k))))"

named_theorems confined_intros \<open>steps that keep content to authorized clients\<close>

lemma confined_refl: "cp_trace s' = cp_trace s \<Longrightarrow> confined s s'"
  by (simp add: confined_def)

lemma confined_self [simp]: "confined s s"
  by (simp add: confined_refl)

lemma confined_say [confined_intros]:
  assumes "confined s t" "body_ok b" "b \<noteq> R_none" "public_body b \<or> (\<forall>k \<in> set ks. is_authorized t k)"
  shows "confined s (say rid b ks t)"
proof -
  obtain es where es: "cp_trace t = cp_trace s @ es" "\<forall>k buf. Send_Frame k buf \<in> set es \<longrightarrow>
     (\<exists>rid b. buf = frame_of rid b \<and> body_ok b \<and> b \<noteq> R_none \<and> (public_body b \<or> is_authorized t k))"
    using assms(1) by (auto simp: confined_def)
  have "\<forall>k buf. Send_Frame k buf \<in> set (frames rid b ks) \<longrightarrow> buf = frame_of rid b \<and> k \<in> set ks"
    using frames_ok(2) [OF assms(2,3), of rid ks] by auto
  then show ?thesis
    unfolding confined_def using es assms(2-4)
    by (intro exI [of _ "es @ frames rid b ks"]) (simp, blast)
qed

lemma confined_emit [confined_intros]:
  "confined s t \<Longrightarrow> (\<And>k buf. e \<noteq> Send_Frame k buf) \<Longrightarrow> confined s (emit e t)"
  unfolding confined_def by (elim exE conjE, rule_tac x = "es @ [e]" in exI) auto

lemma authorized_recipients: "k \<in> set (recipients except True s) \<Longrightarrow> is_authorized s k"
  by (simp add: recipients_def)

lemma confined_update [simp]:
  "confined s (t\<lparr>cp_store := st\<rparr>) = confined s t" "confined s (t\<lparr>cp_radio_ok := a\<rparr>) = confined s t"
  "confined s (t\<lparr>cp_tx_pending := a\<rparr>) = confined s t" "confined s (t\<lparr>cp_tx_pending_seq := q\<rparr>) = confined s t"
  "confined s (t\<lparr>cp_clock := c\<rparr>) = confined s t" "confined s (t\<lparr>cp_noise_floor_dbm := n\<rparr>) = confined s t"
  by (simp_all add: confined_def is_authorized_def)

lemma is_authorized_update [simp]:
  "is_authorized (t\<lparr>cp_store := st\<rparr>) k = is_authorized t k" "is_authorized (t\<lparr>cp_radio_ok := a\<rparr>) k = is_authorized t k"
  "is_authorized (t\<lparr>cp_tx_pending := a\<rparr>) k = is_authorized t k" "is_authorized (t\<lparr>cp_clock := c\<rparr>) k = is_authorized t k"
  "is_authorized (t\<lparr>cp_noise_floor_dbm := n\<rparr>) k = is_authorized t k"
  by (simp_all add: is_authorized_def)

lemma confined_tx_result [confined_intros]: "confined s t \<Longrightarrow> confined s (on_tx_result seq ok t)"
  by (simp add: on_tx_result_def say_simps confined_intros)

lemma confined_require [confined_intros]:
  "(is_authorized s from \<Longrightarrow> confined s (k s)) \<Longrightarrow> confined s (require_auth rid from k s)"
  by (simp add: require_auth_def say_simps confined_intros)

lemma confined_hook [confined_intros]: "confined s t \<Longrightarrow> (\<And>k buf. e \<noteq> Send_Frame k buf) \<Longrightarrow> confined s (run_hook e t)"
  by (simp add: run_hook_def confined_intros)

lemma confined_extend:
  "cp_trace t = cp_trace s @ es \<Longrightarrow> (\<And>k buf. Send_Frame k buf \<notin> set es) \<Longrightarrow> confined s t"
  unfolding confined_def by blast

lemma confined_fetch [confined_intros]:
  assumes "cp_inv s"
  shows "confined s (handle_fetch_packets rid req from s)"
proof (cases "is_authorized s from")
  case True
  have ok: "list_all entry_ok (ps_entries (cp_store s))"
    using ps_inv_facts(7) cp_inv_facts(1) [OF assms] by blast
  have "confined s (foldl (say_entry rid from) s es) \<and> is_authorized (foldl (say_entry rid from) s es) from"
    if "set es \<subseteq> set (ps_entries (cp_store s))" for es
    using that
  proof (induction es rule: rev_induct)
    case (snoc e es)
    then have "entry_ok e" using ok by (auto simp: list_all_iff)
    then show ?case using snoc True by (simp add: say_entry_def confined_say body_ok_entry)
  qed (simp add: True confined_refl)
  moreover have "set (page_of req (cp_store s)) \<subseteq> set (ps_entries (cp_store s))"
    by (auto simp: page_of_def dest: in_set_takeD)
  ultimately show ?thesis
    using True by (simp add: fetch_say cp_inv_facts(1) [OF assms] confined_say)
next
  case False
  then show ?thesis by (simp add: handle_fetch_packets_def require_auth_def say_simps confined_intros)
qed

lemma confined_set_radio [confined_intros]: "confined s (handle_set_radio_settings lora rid req from s)"
proof -
  have auth: "is_authorized (retuned c s) k = is_authorized s k" for c k by (simp add: is_authorized_def retuned_def)
  have "confined s (retuned c s)" for c
    by (rule confined_extend [of _ _ "[Radio_Apply (c\<lparr>rs_config_epoch := 0\<rparr>), Save_Radio c]"])
       (simp_all add: retuned_def)
  then show ?thesis
    by (simp add: set_radio_say Let_def auth confined_intros authorized_recipients)
qed

lemma rotate_writer: "is_authorized (rewritten m from s) from" if "is_authorized s from"
proof -
  have drop: "drop_sessions ks from auth from = auth from" for ks auth
    by (induction ks arbitrary: auth) simp_all
  show ?thesis
  proof (cases "sds_has_pin m")
    case True
    then show ?thesis by (simp add: is_authorized_def rewritten_def rotate_sessions_def Let_def drop)
  next
    case False
    then show ?thesis
      using that by (simp add: is_authorized_def rewritten_def Let_def pin_is_default_def candidate_fields)
  qed
qed

lemma confined_set_device [confined_intros]: "confined s (handle_set_device_settings rid m from s)"
proof -
  have "confined s (rewritten m from s)"
    by (rule confined_extend [of _ _ "drop (length (cp_trace s)) (cp_trace (rewritten m from s))"])
       (auto simp: rewritten_def Let_def)
  then show ?thesis
    by (simp add: set_device_say Let_def confined_intros authorized_recipients rotate_writer)
qed

lemma confined_auth [confined_intros]: "confined s (handle_auth rid m from s)"
  by (simp add: auth_say confined_intros confined_refl)

lemma confined_send_packet [confined_intros]: "confined s (handle_send_packet lora rid req from s)"
  by (simp add: send_packet_say Let_def confined_intros split: prod.splits)

lemma confined_request:
  assumes "cp_inv s" "request_wf req"
  shows "confined s (handle_request lora req from s)"
proof (cases "cr_body req")
  case C_factory_reset
  have "confined s (emit Clear_Device (s\<lparr>cp_device := device_defaults, cp_settings_store := st\<rparr>))" for st
    by (intro confined_intros confined_refl) simp_all
  with C_factory_reset show ?thesis
    by (simp add: handle_request_def say_simps Let_def confined_intros)
qed (use assms cp_inv_facts(2) [OF assms(1)] in
      \<open>auto simp: handle_request_def say_simps request_wf_def body_ok_status body_ok_pong intro!: confined_intros\<close>)

lemma confined_step:
  assumes "cp_step s i s'" "cp_inv s"
  shows "confined s s'"
proof -
  have live: "live s" and i: "input_ok i" and s': "s' = on_input i s" using assms(1) by (auto simp: cp_step_iff)
  show ?thesis
  proof (cases i)
    case (Envelope lora data k)
    then show ?thesis
      using confined_request [OF assms(2)] decode_request_wf
      by (auto simp: s' on_envelope_def confined_refl split: option.splits)
  next
    case (Received rssi snr raw)
    obtain st q out where app: "ps_append (uptime_ms64 (cp_clock s)) rssi snr kFlagReceived raw (cp_store s) = (st, q, out)"
      by (cases "ps_append (uptime_ms64 (cp_clock s)) rssi snr kFlagReceived raw (cp_store s)")
    from append_inv [OF cp_inv_facts(1) [OF assms(2)] _ _ app] live i Received
    have "\<forall>e. out = Some e \<longrightarrow> entry_ok e" by (auto simp: live_def protocol_limits split: if_splits)
    with Received show ?thesis
      by (auto simp: s' on_packet_received_def app say_simps Let_def split: option.splits
          intro!: confined_intros body_ok_entry dest: authorized_recipients)
  next
    case Wifi_Changed
    then show ?thesis using cp_inv_facts(2) [OF assms(2)] by (simp add: s' say_simps confined_intros body_ok_status)
  qed (simp_all add: s' processor_poll_def Let_def add_sink_def remove_sink_def say_simps confined_intros confined_refl)
qed

text \<open>
  C2. Content stays with authorized clients.  Whatever happens to a running radio, every frame it
  sends is a well-formed response, and one that carries anything but public content (settings with
  the Wi-Fi password, the tuning, a stored or a just received packet, a sequence number) goes to a
  client that is authorized when the step is over, also when the step changed the PIN.
\<close>

theorem content_confined:
  assumes "cp_reachable s" "cp_step s i s'"
    and "Send_Frame k buf \<in> set (drop (length (cp_trace s)) (cp_trace s'))"
  shows "\<exists>m. pb_decode RadioToClient_fields buf RadioToClient_init_zero = Inr m \<and>
    (public_body (rc_body m) \<or> is_authorized s' k)"
proof -
  have "confined s s'" by (rule confined_step [OF assms(2) cp_reachable_inv [OF assms(1)]])
  then obtain rid b where "buf = frame_of rid b" "body_ok b" "b \<noteq> R_none" "public_body b \<or> is_authorized s' k"
    using assms(3) unfolding confined_def by fastforce
  then show ?thesis using frame_of_ok(3) [of b rid] by simp
qed

lemma content_confined_witness:
  "\<exists>m. pb_decode RadioToClient_fields (frame_of 1 (device_body fresh_radio)) RadioToClient_init_zero = Inr m \<and>
    (public_body (rc_body m) \<or> is_authorized (on_input (Envelope working_lora (ClientToRadio_wire
       \<lparr>cr_id = 1, cr_body = C_get_device_settings\<rparr>) 3) fresh_radio) 3)"
proof -
  let ?i = "Envelope working_lora (ClientToRadio_wire \<lparr>cr_id = 1, cr_body = C_get_device_settings\<rparr>) 3"
  have "on_input ?i fresh_radio = say 1 (device_body fresh_radio) [3] fresh_radio"
    by (simp add: on_request ClientToRadio_ok_def handle_request_def require_auth_def sample_authorized say_simps)
  then have "Send_Frame 3 (frame_of 1 (device_body fresh_radio))
      \<in> set (drop (length (cp_trace fresh_radio)) (cp_trace (on_input ?i fresh_radio)))"
    using frames_ok(2) [of "device_body fresh_radio" 1 "[3]"] by simp
  moreover have "cp_step fresh_radio ?i (on_input ?i fresh_radio)"
    using sample_live by (simp add: cp_step_iff)
  ultimately show ?thesis
    by (intro content_confined [OF sample_reachable(1)])
qed

section \<open>The PIN never leaves the radio\<close>

text \<open>The frames of a trace, with their addressees.\<close>

fun wire :: "event list \<Rightarrow> (sink \<times> byte list) list" where
  "wire [] = []"
| "wire (Send_Frame k buf # es) = (k, buf) # wire es"
| "wire (_ # es) = wire es"

lemma wire_append [simp]: "wire (es @ fs) = wire es @ wire fs"
  by (induction es rule: wire.induct) simp_all

text \<open>Inputs that carry a PIN: an \<open>Auth\<close>, or a settings write with a PIN.\<close>

definition carries_pin :: "input \<Rightarrow> bool" where
  "carries_pin i = (case i of Envelope lora data k \<Rightarrow>
     (case decode_envelope data of None \<Rightarrow> False | Some req \<Rightarrow>
        (case cr_body req of C_auth m \<Rightarrow> True | C_set_device_settings m \<Rightarrow> sds_has_pin m | _ \<Rightarrow> False)) | _ \<Rightarrow> False)"

text \<open>Two states that agree on everything but the PIN, what is persisted and what is not a frame.\<close>

definition blank :: "command_processor \<Rightarrow> command_processor" where
  "blank s = s\<lparr>cp_device := (cp_device s)\<lparr>ds_pin := []\<rparr>, cp_settings_store := memory_store_new radio_unset, cp_trace := []\<rparr>"

definition same_but_pin :: "command_processor \<Rightarrow> command_processor \<Rightarrow> bool" where
  "same_but_pin s t \<longleftrightarrow> pin_is_default (cp_device s) = pin_is_default (cp_device t) \<and>
     wire (cp_trace s) = wire (cp_trace t) \<and> blank s = blank t"

lemma same_fields:
  assumes "same_but_pin s t"
  shows "cp_store t = cp_store s" "cp_clock t = cp_clock s" "cp_hooks t = cp_hooks s" "cp_settings t = cp_settings s"
    "cp_set_count_since_boot t = cp_set_count_since_boot s" "cp_radio_ok t = cp_radio_ok s"
    "cp_tx_pending t = cp_tx_pending s" "cp_tx_pending_seq t = cp_tx_pending_seq s" "cp_sinks t = cp_sinks s"
    "cp_authenticated t = cp_authenticated s" "is_authorized t k = is_authorized s k" "recipients x ao t = recipients x ao s"
    "device_body t = device_body s" "info_body k t = info_body k s" "first_owner_lock_active t = first_owner_lock_active s"
    "sds_has_pin m \<or> device_eq (candidate m (cp_device t)) (cp_device t) = device_eq (candidate m (cp_device s)) (cp_device s)"
proof -
  have b: "blank s = blank t" and d: "pin_is_default (cp_device s) = pin_is_default (cp_device t)"
    using assms by (simp_all add: same_but_pin_def)
  have f: "f t = f s" if "\<And>u. f (blank u) = f u" for f :: "command_processor \<Rightarrow> 'a" using b that by metis
  show fields: "cp_store t = cp_store s" "cp_clock t = cp_clock s" "cp_hooks t = cp_hooks s" "cp_settings t = cp_settings s"
    "cp_set_count_since_boot t = cp_set_count_since_boot s" "cp_radio_ok t = cp_radio_ok s"
    "cp_tx_pending t = cp_tx_pending s" "cp_tx_pending_seq t = cp_tx_pending_seq s" "cp_sinks t = cp_sinks s"
    "cp_authenticated t = cp_authenticated s"
    by (rule f, simp add: blank_def)+
  show "is_authorized t k = is_authorized s k" for k
    by (simp add: is_authorized_def d fields)
  then show "recipients x ao t = recipients x ao s" "info_body k t = info_body k s"
    using f [of "\<lambda>s. (cp_noise_floor_dbm s, cp_fw_version s, cp_board_name s)"]
    by (simp_all add: recipients_def info_body_def capabilities_def fields blank_def)
  show "device_body t = device_body s"
    by (rule f) (simp add: blank_def device_body_def effective_name_def)
  show "first_owner_lock_active t = first_owner_lock_active s" by (simp add: first_owner_lock_active_def fields)
  show "sds_has_pin m \<or> device_eq (candidate m (cp_device t)) (cp_device t) = device_eq (candidate m (cp_device s)) (cp_device s)"
    using arg_cong [OF b, of "\<lambda>s. (ds_name (cp_device s), ds_wifi_enabled (cp_device s), ds_wifi_ssid (cp_device s),
        ds_wifi_password (cp_device s), ds_wifi_port (cp_device s))"]
    by (simp add: blank_def device_eq_def candidate_fields)
qed

named_theorems same_intros \<open>steps that keep two states equal but for the PIN\<close>

lemma same_say [same_intros]: "same_but_pin s t \<Longrightarrow> same_but_pin (say rid b ks s) (say rid b ks t)"
proof -
  have "blank (say rid b ks u) = (blank u)\<lparr>cp_response := \<lparr>rc_id = rid, rc_body = b\<rparr>\<rparr>" for u
    by (simp add: blank_def say_def)
  then show "same_but_pin s t \<Longrightarrow> same_but_pin (say rid b ks s) (say rid b ks t)"
    by (simp add: same_but_pin_def)
qed

lemma same_emit [same_intros]:
  "same_but_pin s t \<Longrightarrow> wire [e] = wire [f] \<Longrightarrow> same_but_pin (emit e s) (emit f t)"
  by (simp add: same_but_pin_def) (simp add: blank_def emit_def)

lemma same_update [same_intros]:
  assumes "same_but_pin s t"
  shows "same_but_pin (s\<lparr>cp_store := x1\<rparr>) (t\<lparr>cp_store := x1\<rparr>)" "same_but_pin (s\<lparr>cp_clock := x2\<rparr>) (t\<lparr>cp_clock := x2\<rparr>)"
    "same_but_pin (s\<lparr>cp_tx_pending := x3\<rparr>) (t\<lparr>cp_tx_pending := x3\<rparr>)"
    "same_but_pin (s\<lparr>cp_tx_pending_seq := x4\<rparr>) (t\<lparr>cp_tx_pending_seq := x4\<rparr>)"
    "same_but_pin (s\<lparr>cp_noise_floor_dbm := x5\<rparr>) (t\<lparr>cp_noise_floor_dbm := x5\<rparr>)"
    "same_but_pin (s\<lparr>cp_sinks := x6\<rparr>) (t\<lparr>cp_sinks := x6\<rparr>)"
    "same_but_pin (s\<lparr>cp_authenticated := x7\<rparr>) (t\<lparr>cp_authenticated := x7\<rparr>)"
    "same_but_pin (s\<lparr>cp_hooks := x8\<rparr>) (t\<lparr>cp_hooks := x8\<rparr>)"
proof -
  have "blank (s\<lparr>cp_store := x1\<rparr>) = (blank s)\<lparr>cp_store := x1\<rparr>" "blank (s\<lparr>cp_clock := x2\<rparr>) = (blank s)\<lparr>cp_clock := x2\<rparr>"
    "blank (s\<lparr>cp_tx_pending := x3\<rparr>) = (blank s)\<lparr>cp_tx_pending := x3\<rparr>"
    "blank (s\<lparr>cp_tx_pending_seq := x4\<rparr>) = (blank s)\<lparr>cp_tx_pending_seq := x4\<rparr>"
    "blank (s\<lparr>cp_noise_floor_dbm := x5\<rparr>) = (blank s)\<lparr>cp_noise_floor_dbm := x5\<rparr>"
    "blank (s\<lparr>cp_sinks := x6\<rparr>) = (blank s)\<lparr>cp_sinks := x6\<rparr>"
    "blank (s\<lparr>cp_authenticated := x7\<rparr>) = (blank s)\<lparr>cp_authenticated := x7\<rparr>"
    "blank (s\<lparr>cp_hooks := x8\<rparr>) = (blank s)\<lparr>cp_hooks := x8\<rparr>" for s
    by (simp_all add: blank_def)
  with assms show "same_but_pin (s\<lparr>cp_store := x1\<rparr>) (t\<lparr>cp_store := x1\<rparr>)" "same_but_pin (s\<lparr>cp_clock := x2\<rparr>) (t\<lparr>cp_clock := x2\<rparr>)"
    "same_but_pin (s\<lparr>cp_tx_pending := x3\<rparr>) (t\<lparr>cp_tx_pending := x3\<rparr>)"
    "same_but_pin (s\<lparr>cp_tx_pending_seq := x4\<rparr>) (t\<lparr>cp_tx_pending_seq := x4\<rparr>)"
    "same_but_pin (s\<lparr>cp_noise_floor_dbm := x5\<rparr>) (t\<lparr>cp_noise_floor_dbm := x5\<rparr>)"
    "same_but_pin (s\<lparr>cp_sinks := x6\<rparr>) (t\<lparr>cp_sinks := x6\<rparr>)"
    "same_but_pin (s\<lparr>cp_authenticated := x7\<rparr>) (t\<lparr>cp_authenticated := x7\<rparr>)"
    "same_but_pin (s\<lparr>cp_hooks := x8\<rparr>) (t\<lparr>cp_hooks := x8\<rparr>)"
    by (simp_all add: same_but_pin_def)
qed

lemma fetch_loop_rel:
  assumes "\<And>a b e. R a b \<Longrightarrow> R (fst (cb a e)) (fst (cb b e)) \<and> snd (cb a e) = snd (cb b e)" "R a b"
  shows "R (snd (fetch_loop st since max_count cb n off d a)) (snd (fetch_loop st since max_count cb n off d b))"
  using assms(2)
proof (induction n arbitrary: off d a b)
  case (Suc n)
  obtain a' ok where a: "cb a (read_entry st off (read_header st off)) = (a', ok)"
    by (cases "cb a (read_entry st off (read_header st off))")
  obtain b' ok' where b: "cb b (read_entry st off (read_header st off)) = (b', ok')"
    by (cases "cb b (read_entry st off (read_header st off))")
  have "R a' b'" "ok' = ok" using assms(1) [OF Suc.prems, of "read_entry st off (read_header st off)"] a b by simp_all
  then show ?case using Suc.IH Suc.prems a b by (simp add: Let_def)
qed simp

lemma same_fetch [same_intros]:
  assumes "same_but_pin s t"
  shows "same_but_pin (handle_fetch_packets rid req from s) (handle_fetch_packets rid req from t)"
proof -
  define R where "R = (\<lambda>(s, n) (t, m :: u32). same_but_pin s t \<and> n = m)"
  have cb: "R (fst (fetch_callback rid from a e)) (fst (fetch_callback rid from b e)) \<and>
      snd (fetch_callback rid from a e) = snd (fetch_callback rid from b e)" if "R a b" for a b e
    using that by (auto simp: R_def fetch_callback_def say_simps same_intros split: prod.splits)
  have "R (snd (fetch_since (cp_store s) since m (fetch_callback rid from) (s, 0)))
      (snd (fetch_since (cp_store s) since m (fetch_callback rid from) (t, 0)))" for since m
    unfolding fetch_since_def by (rule fetch_loop_rel [where R = R]) (use cb in blast, simp add: R_def assms)
  then have "same_but_pin
      (case snd (fetch_since (cp_store s) since m (fetch_callback rid from) (s, 0)) of (u, n) \<Rightarrow> say rid (R_fetch_end \<lparr>fe_count = n\<rparr>) [from] u)
      (case snd (fetch_since (cp_store s) since m (fetch_callback rid from) (t, 0)) of (u, n) \<Rightarrow> say rid (R_fetch_end \<lparr>fe_count = n\<rparr>) [from] u)"
    for since m
    by (simp add: R_def case_prod_beta same_intros)
  then show ?thesis
    using assms by (simp add: handle_fetch_packets_def require_auth_def say_simps same_fields [OF assms] same_intros Let_def)
qed

lemma same_require [same_intros]:
  "same_but_pin s t \<Longrightarrow> same_but_pin (k s) (k t) \<Longrightarrow> same_but_pin (require_auth rid from k s) (require_auth rid from k t)"
  by (simp add: require_auth_def say_simps same_fields same_intros)

lemma same_hook [same_intros]: "same_but_pin s t \<Longrightarrow> same_but_pin (run_hook e s) (run_hook e t)"
  by (simp add: run_hook_def same_fields same_intros)

lemma same_set_radio [same_intros]:
  assumes "same_but_pin s t"
  shows "same_but_pin (handle_set_radio_settings lora rid req from s) (handle_set_radio_settings lora rid req from t)"
proof -
  have "blank (retuned c u) = (blank u)\<lparr>cp_settings := c, cp_radio_ok := True,
      cp_set_count_since_boot := cp_set_count_since_boot (blank u) + 1\<rparr>" for c u
    by (simp add: blank_def retuned_def)
  then have "same_but_pin (retuned c s) (retuned c t)" for c
    using assms by (simp add: same_but_pin_def) (simp add: retuned_def)
  with assms show ?thesis
    by (simp add: set_radio_say same_fields [OF assms] Let_def same_intros)
qed

lemma same_set_device [same_intros]:
  assumes "same_but_pin s t" "\<not> sds_has_pin m"
  shows "same_but_pin (handle_set_device_settings rid m from s) (handle_set_device_settings rid m from t)"
proof -
  have b: "blank (rewritten m from u) = (blank u)\<lparr>cp_device := (candidate m (cp_device (blank u)))\<rparr>" for u
    using assms(2) by (simp add: rewritten_def blank_def Let_def candidate_def)
  have pin: "pin_is_default (cp_device (rewritten m from u)) = pin_is_default (cp_device u)" for u
    using assms(2) by (simp add: rewritten_def pin_is_default_def candidate_fields Let_def)
  have wire: "wire (cp_trace (rewritten m from u)) = wire (cp_trace u)" for u
    by (simp add: rewritten_def Let_def)
  have "same_but_pin (rewritten m from s) (rewritten m from t)"
    using assms(1) by (simp add: same_but_pin_def b pin wire)
  note r = same_fields [OF this] and s = same_fields [OF assms(1)]
  have eq: "device_eq (candidate m (cp_device t)) (cp_device t) = device_eq (candidate m (cp_device s)) (cp_device s)"
    using s(16) [of m] assms(2) by blast
  show ?thesis
    using assms(1) \<open>same_but_pin (rewritten m from s) (rewritten m from t)\<close>
    by (simp add: set_device_say s(3,11,13) r(12,13) eq Let_def same_intros)
qed

lemma same_send_packet [same_intros]:
  assumes "same_but_pin s t"
  shows "same_but_pin (handle_send_packet lora rid req from s) (handle_send_packet lora rid req from t)"
  using assms
  by (simp add: send_packet_say same_fields [OF assms] Let_def same_intros split: prod.split)

lemma same_reset [same_intros]:
  assumes "same_but_pin s t"
  shows "same_but_pin (emit Clear_Device (s\<lparr>cp_device := d, cp_settings_store := st1\<rparr>))
    (emit Clear_Device (t\<lparr>cp_device := d, cp_settings_store := st2\<rparr>))"
proof -
  have "blank (emit Clear_Device (u\<lparr>cp_device := d, cp_settings_store := st\<rparr>)) = (blank u)\<lparr>cp_device := d\<lparr>ds_pin := []\<rparr>\<rparr>" for u st
    by (simp add: blank_def emit_def)
  with assms show ?thesis by (simp add: same_but_pin_def)
qed

lemma same_request:
  assumes "same_but_pin s t" "\<nexists>m. cr_body req = C_auth m" "\<forall>m. cr_body req = C_set_device_settings m \<longrightarrow> \<not> sds_has_pin m"
  shows "same_but_pin (handle_request lora req from s) (handle_request lora req from t)"
  using assms(2,3) same_fields [OF assms(1)]
  by (cases "cr_body req") (simp_all add: handle_request_def say_simps Let_def same_intros assms(1))

lemma same_input:
  assumes "same_but_pin s t" "\<not> carries_pin i"
  shows "same_but_pin (on_input i s) (on_input i t)"
proof -
  note f = same_fields [OF assms(1)]
  have tx: "same_but_pin (on_tx_result seq ok u) (on_tx_result seq ok v)" if "same_but_pin u v" for seq ok u v
    using that by (simp add: on_tx_result_def say_simps same_fields [OF that] same_intros)
  show ?thesis
  proof (cases i)
    case (Envelope lora data k)
    then show ?thesis
      using assms same_request [OF assms(1)]
      by (auto simp: on_envelope_def carries_pin_def split: option.splits cr_body.splits)
  next
    case (Received rssi snr raw)
    let ?u = "\<lambda>s. s\<lparr>cp_noise_floor_dbm := scast rssi - scast snr\<rparr>"
    have u: "same_but_pin (?u s) (?u t)" by (rule same_intros [OF assms(1)])
    obtain st q out where app: "ps_append (uptime_ms64 (cp_clock s)) rssi snr kFlagReceived raw (cp_store s) = (st, q, out)"
      by (cases "ps_append (uptime_ms64 (cp_clock s)) rssi snr kFlagReceived raw (cp_store s)")
    have "same_but_pin ((?u s)\<lparr>cp_store := st\<rparr>) ((?u t)\<lparr>cp_store := st\<rparr>)" by (rule same_intros [OF u])
    from this same_fields(12) [OF this] Received app show ?thesis
      by (simp add: on_packet_received_def f Let_def say_simps same_say split: option.split)
  next
    case (Poll lora now)
    then show ?thesis
      using tx [of "s\<lparr>cp_clock := uc_poll now (cp_clock s)\<rparr>" "t\<lparr>cp_clock := uc_poll now (cp_clock s)\<rparr>"] assms(1)
      by (simp add: processor_poll_def f Let_def same_intros)
  next
    case Wifi_Changed
    then show ?thesis using assms(1) by (simp add: say_simps f same_intros)
  qed (use assms(1) tx in \<open>simp_all add: add_sink_def remove_sink_def f same_intros\<close>)
qed



section \<open>How fast the PIN can be guessed\<close>

definition now_ms :: "command_processor \<Rightarrow> nat" where
  "now_ms s = unat (uptime_ms64 (cp_clock s))"

text \<open>
  A wrong PIN that the radio evaluated; a run in which sessions and PIN stay as they are (owners may
  use the radio, anyone may guess) and the clock stays below 146 million years.
\<close>

definition wrong_guess :: "input \<Rightarrow> command_processor \<Rightarrow> bool" where
  "wrong_guess i s = (case i of Envelope lora data k \<Rightarrow>
     (case decode_envelope data of None \<Rightarrow> False | Some req \<Rightarrow>
        (case cr_body req of C_auth m \<Rightarrow> \<not> auth_backoff_active s | _ \<Rightarrow> False)) | _ \<Rightarrow> False)"

definition guessing :: "input \<Rightarrow> command_processor \<Rightarrow> bool" where
  "guessing i s = (now_ms s < 2 ^ 62 \<and> (case i of Envelope lora data k \<Rightarrow>
     (case decode_envelope data of None \<Rightarrow> True | Some req \<Rightarrow>
        (case cr_body req of
           C_auth m \<Rightarrow> \<not> is_authorized s k \<and> \<not> pin_matches (au_pin m) (strlen (au_pin m)) s
         | C_set_device_settings m \<Rightarrow> \<not> sds_has_pin m
         | _ \<Rightarrow> True)) | _ \<Rightarrow> True))"

fun guessing_run :: "input list \<Rightarrow> command_processor \<Rightarrow> bool" where
  "guessing_run [] s = (now_ms s < 2 ^ 62)"
| "guessing_run (i # is) s = (guessing i s \<and> guessing_run is (on_input i s))"

fun wrong_guesses :: "input list \<Rightarrow> command_processor \<Rightarrow> nat" where
  "wrong_guesses [] s = 0"
| "wrong_guesses (i # is) s = of_bool (wrong_guess i s) + wrong_guesses is (on_input i s)"

definition guard_of :: "command_processor \<Rightarrow> u8 \<times> u64 \<times> uptime_clock" where
  "guard_of s = (cp_auth_fails s, cp_auth_backoff_until s, cp_clock s)"

lemma guard_simps [simp]:
  "guard_of (say rid b ks s) = guard_of s" "guard_of (emit e s) = guard_of s" "guard_of (retuned c s) = guard_of s"
  "guard_of (s\<lparr>cp_store := st\<rparr>) = guard_of s" "guard_of (s\<lparr>cp_tx_pending := a\<rparr>) = guard_of s"
  "guard_of (s\<lparr>cp_tx_pending_seq := q\<rparr>) = guard_of s" "guard_of (s\<lparr>cp_noise_floor_dbm := n\<rparr>) = guard_of s"
  "guard_of (s\<lparr>cp_device := d\<rparr>) = guard_of s" "guard_of (s\<lparr>cp_settings_store := ms\<rparr>) = guard_of s"
  "guard_of (s\<lparr>cp_sinks := ks\<rparr>) = guard_of s" "guard_of (s\<lparr>cp_authenticated := au\<rparr>) = guard_of s"
  "guard_of (run_hook e s) = guard_of s" "guard_of (on_tx_result q ok s) = guard_of s" "guard_of (s\<lparr>cp_hooks := h\<rparr>) = guard_of s"
  by (simp_all add: guard_of_def retuned_def run_hook_def on_tx_result_def say_simps)

lemma guard_fetch: "guard_of (handle_fetch_packets rid req from s) = guard_of s"
  by (rule fetch_keeps [where P = "\<lambda>t. guard_of t = guard_of s"]) simp_all

lemma guard_request:
  assumes "\<nexists>m. cr_body req = C_auth m" "\<forall>m. cr_body req = C_set_device_settings m \<longrightarrow> \<not> sds_has_pin m"
  shows "guard_of (handle_request lora req k s) = guard_of s"
proof -
  have "guard_of (handle_set_device_settings rid m k s) = guard_of s" if "\<not> sds_has_pin m" for rid m
    using that by (simp add: set_device_say rewritten_def Let_def) (simp add: guard_of_def)
  moreover have "guard_of (handle_set_radio_settings lora rid m k s) = guard_of s" for rid m
    by (simp add: set_radio_say Let_def)
  moreover have "guard_of (handle_send_packet lora rid m k s) = guard_of s" for rid m
    by (simp add: send_packet_say Let_def split: prod.split)
  ultimately show ?thesis
    using assms guard_fetch
    by (cases "cr_body req") (simp_all add: handle_request_def say_simps require_auth_def Let_def)
qed

lemma guard_input:
  assumes "guessing i s"
  shows "guard_of (on_input i s) =
    (if wrong_guess i s then guard_of (note_auth_failure s)
     else case i of Poll lora now \<Rightarrow> (cp_auth_fails s, cp_auth_backoff_until s, uc_poll now (cp_clock s)) | _ \<Rightarrow> guard_of s)"
proof (cases i)
  case (Envelope lora data k)
  show ?thesis
  proof (cases "decode_envelope data")
    case (Some req)
    show ?thesis
    proof (cases "\<exists>m. cr_body req = C_auth m")
      case True
      then obtain m where "cr_body req = C_auth m" by blast
      then show ?thesis
        using Some Envelope assms by (simp add: on_envelope_def handle_request_def auth_say wrong_guess_def guessing_def)
    next
      case False
      then show ?thesis
        using Some Envelope assms guard_request [OF False, of lora k s]
        by (auto simp: on_envelope_def wrong_guess_def guessing_def split: cr_body.splits)
    qed
  qed (simp add: Envelope on_envelope_def wrong_guess_def)
next
  case (Poll lora now)
  then show ?thesis
    by (simp add: wrong_guess_def processor_poll_def Let_def) (simp add: guard_of_def)
qed (simp_all add: wrong_guess_def on_packet_received_def add_sink_def remove_sink_def say_simps Let_def
      split: prod.split option.split)

text \<open>
  The guesses that remain possible until the time \<open>u\<close>, from a fail counter \<open>f\<close>, a delay that runs
  until \<open>b\<close> and the time \<open>t\<close>.
\<close>

definition guesses_left :: "nat \<Rightarrow> nat \<Rightarrow> nat \<Rightarrow> nat \<Rightarrow> nat" where
  "guesses_left f b t u = (if f \<le> 3 then 3 - f + (u - t) div 1000 + 1
     else if u < max t b then 0 else (u - max t b) div 1000 + 1)"

lemma guesses_left_mono: "t \<le> t' \<Longrightarrow> guesses_left f b t' u \<le> guesses_left f b t u"
  by (auto simp: guesses_left_def intro!: div_le_mono)

lemma guesses_left_guess:
  assumes "t \<le> u" "f \<le> 3 \<or> b \<le> t"
  shows "Suc (guesses_left (min 255 (Suc f)) (if 3 < min 255 (Suc f) then t + 1000 else b) t u) \<le> guesses_left f b t u"
proof (cases "f < 3")
  case True
  then show ?thesis by (simp add: guesses_left_def)
next
  case False
  have "Suc (if u < t + 1000 then 0 else (u - (t + 1000)) div 1000 + 1) \<le> (u - t) div 1000 + 1"
  proof (cases "u < t + 1000")
    case False
    then have "u - t = (u - (t + 1000)) + 1000" by simp
    then show ?thesis using False by (simp add: div_add_self2)
  qed simp
  moreover have "max t b = t" if "f \<noteq> 3" using assms(2) that False by (simp add: max_def)
  ultimately show ?thesis using False assms(1) by (auto simp: guesses_left_def)
qed

lemma uptime_poll_mono:
  assumes "unat (uptime_ms64 c) < 2 ^ 62"
  shows "unat (uptime_ms64 c) \<le> unat (uptime_ms64 (uc_poll now c))"
proof (cases "now < last_ms c")
  case True
  have "unat (rollovers c) * 2 ^ 32 < 2 ^ 62" using assms unat_uptime_ms64 [of c] by linarith
  then have "unat (rollovers c) < 2 ^ 30" by simp
  then have "unat (rollovers c + 1) = unat (rollovers c) + 1"
    by (simp add: unat_word_ariths)
  moreover have "unat (last_ms c) < 2 ^ 32" using unsigned_less [of "last_ms c"] by simp
  ultimately show ?thesis
    using True by (simp add: unat_uptime_ms64 uc_poll_def)
next
  case False
  then show ?thesis by (simp add: unat_uptime_ms64 uc_poll_def word_less_nat_alt)
qed

lemma backoff_active_iff:
  assumes "now_ms s < 2 ^ 62" "unat (cp_auth_backoff_until s) < 2 ^ 62 + 1000"
  shows "auth_backoff_active s \<longleftrightarrow> now_ms s < unat (cp_auth_backoff_until s)"
proof -
  define a where "a = uptime_ms64 (cp_clock s)"
  define b where "b = cp_auth_backoff_until s"
  have a: "unat a < 2 ^ 62" and b: "unat b < 2 ^ 62 + 1000"
    using assms by (simp_all add: a_def b_def now_ms_def)
  have "a - b <s 0 \<longleftrightarrow> bit (a - b) 63"
    using bit_last_iff [of "a - b"] by (simp add: word_sless_alt)
  also have "\<dots> \<longleftrightarrow> 2 ^ 63 \<le> unat (a - b)"
  proof -
    have "unat (a - b) < 2 ^ 64" using unsigned_less [of "a - b"] by simp
    then have "unat (a - b) div 2 ^ 63 = (if 2 ^ 63 \<le> unat (a - b) then 1 else 0)"
      by (auto intro!: div_nat_eqI)
    moreover have "bit (a - b) 63 = bit (unat (a - b)) 63" by (simp add: bit_unsigned_iff)
    then have "bit (a - b) 63 = odd (unat (a - b) div 2 ^ 63)" by (simp only: bit_iff_odd)
    ultimately show ?thesis by simp
  qed
  also have "\<dots> \<longleftrightarrow> unat a < unat b"
    using a b by (auto simp: unat_sub_if' word_le_nat_alt)
  finally have "a - b <s 0 \<longleftrightarrow> unat a < unat b" .
  then show ?thesis by (auto simp: auth_backoff_active_def a_def [symmetric] b_def [symmetric] now_ms_def)
qed

lemma guesses_bounded:
  assumes "guessing_run is s" "unat (cp_auth_backoff_until s) < 2 ^ 62 + 1000"
  shows "wrong_guesses is s \<le> guesses_left (unat (cp_auth_fails s)) (unat (cp_auth_backoff_until s)) (now_ms s) (now_ms (fold on_input is s))
    \<and> now_ms s \<le> now_ms (fold on_input is s)"
  using assms
proof (induction "is" arbitrary: s)
  case (Cons i js)
  define s' where "s' = on_input i s"
  define u where "u = now_ms (fold on_input js s')"
  have g: "guessing i s" and run: "guessing_run js s'" and now: "now_ms s < 2 ^ 62"
    using Cons.prems(1) by (auto simp: s'_def guessing_def)
  note in_s' = guard_input [OF g, folded s'_def, unfolded guard_of_def]
  show ?case
  proof (cases "wrong_guess i s")
    case False
    then have same: "cp_auth_fails s' = cp_auth_fails s" "cp_auth_backoff_until s' = cp_auth_backoff_until s"
      using in_s' by (auto split: input.splits)
    have later: "now_ms s \<le> now_ms s'"
      using in_s' False uptime_poll_mono [of "cp_clock s"] now by (auto simp: now_ms_def split: input.splits)
    have "wrong_guesses js s' \<le> guesses_left (unat (cp_auth_fails s)) (unat (cp_auth_backoff_until s)) (now_ms s') u \<and> now_ms s' \<le> u"
      using Cons.IH [OF run] Cons.prems(2) same by (simp add: u_def)
    then show ?thesis
      using False later guesses_left_mono [OF later, of "unat (cp_auth_fails s)" "unat (cp_auth_backoff_until s)" u]
      by (simp add: s'_def [symmetric] u_def [symmetric])
  next
    case True
    define f where "f = unat (cp_auth_fails s)"
    define b where "b = unat (cp_auth_backoff_until s)"
    define t where "t = now_ms s"
    have idle: "b \<le> t"
      using True backoff_active_iff [OF now Cons.prems(2)]
      by (auto simp: wrong_guess_def b_def t_def split: input.splits option.splits cr_body.splits)
    have clock: "now_ms s' = t" using True in_s' by (simp add: now_ms_def t_def)
    note failed = in_s' [unfolded if_P [OF True] note_auth_failure_def Let_def]
    have byte: "unat (if x < 0xFF then x + 1 else x) = min 255 (Suc (unat x))" for x :: u8
    proof -
      have "unat x < 2 ^ LENGTH(8)" by (rule unsigned_less)
      then show ?thesis by (auto simp: word_less_nat_alt unat_word_ariths)
    qed
    have fails': "cp_auth_fails s' = (if cp_auth_fails s < 0xFF then cp_auth_fails s + 1 else cp_auth_fails s)"
      using failed by (auto split: if_splits)
    then have fails: "unat (cp_auth_fails s') = min 255 (Suc f)" by (simp add: byte f_def del: min_less_iff_conj)
    have "cp_auth_backoff_until s' = (if 3 < cp_auth_fails s' then uptime_ms64 (cp_clock s) + 1000 else cp_auth_backoff_until s)"
      using failed by (auto simp: kAuthFailsBeforeDelay_def kAuthFailDelayMs_def split: if_splits)
    moreover have "unat (uptime_ms64 (cp_clock s) + 1000) = t + 1000"
      using now by (simp add: unat_word_ariths now_ms_def t_def)
    ultimately have backoff: "unat (cp_auth_backoff_until s') = (if 3 < min 255 (Suc f) then t + 1000 else b)"
      by (simp add: word_less_nat_alt fails b_def)
    have "wrong_guesses js s' \<le> guesses_left (min 255 (Suc f)) (if 3 < min 255 (Suc f) then t + 1000 else b) t u \<and> t \<le> u"
      using Cons.IH [OF run] now idle by (simp add: u_def fails backoff clock t_def)
    then show ?thesis
      using True guesses_left_guess [of t u f b] idle
      by (simp add: s'_def [symmetric] u_def [symmetric] f_def [symmetric] b_def [symmetric] t_def [symmetric])
  qed
qed (simp add: guesses_left_def)

text \<open>
  C22. Guessing is slow.  From a boot or a PIN change on, however many clients guess and however
  often they reconnect, the radio evaluates at most four wrong PINs at once and then one per
  second, until someone logs in; owners that use the radio meanwhile make no difference.
\<close>

theorem auth_rate_limit:
  assumes "guessing_run is s" "cp_auth_fails s = 0" "cp_auth_backoff_until s = 0"
  shows "wrong_guesses is s \<le> 4 + (now_ms (fold on_input is s) - now_ms s) div 1000"
  using guesses_bounded [OF assms(1)] assms(2,3) by (simp add: guesses_left_def)

definition guess_9999 :: input where
  "guess_9999 = Envelope working_lora (ClientToRadio_wire
     \<lparr>cr_id = 1, cr_body = C_auth \<lparr>au_pin = [0x39, 0x39, 0x39, 0x39, 0, 0, 0, 0, 0]\<rparr>\<rparr>) 3"

lemma guess_9999:
  "decode_envelope (ClientToRadio_wire \<lparr>cr_id = 1, cr_body = C_auth \<lparr>au_pin = [0x39, 0x39, 0x39, 0x39, 0, 0, 0, 0, 0]\<rparr>\<rparr>)
     = Some \<lparr>cr_id = 1, cr_body = C_auth \<lparr>au_pin = [0x39, 0x39, 0x39, 0x39, 0, 0, 0, 0, 0]\<rparr>\<rparr>"
  by (rule decode_request) (simp_all add: ClientToRadio_ok_def Auth_ok_def padded_def cstr_def eval_nat_numeral)

lemma auth_rate_limit_witness: "wrong_guesses [guess_9999, Poll working_lora 7] locked_radio \<le> 4 + 7 div 1000"
proof -
  let ?is = "[guess_9999, Poll working_lora 7]"
  have g: "guessing guess_9999 locked_radio"
    using sample_authorized(2) [of 3]
    by (simp add: guessing_def guess_9999_def guess_9999 now_ms_def sample_facts unat_uptime_ms64 uptime_clock_new_def
        pin_matches_def strlen_def cstr_def locked_device_def protocol_limits)
  have clock: "cp_clock (on_input guess_9999 locked_radio) = uptime_clock_new"
    using guard_input [OF g] by (simp add: guard_of_def sample_facts guess_9999_def split: if_splits)
  have wf: "now_ms locked_radio = 0" "now_ms (on_input guess_9999 locked_radio) = 0"
    by (simp_all add: now_ms_def clock sample_facts unat_uptime_ms64 uptime_clock_new_def)
  have "cp_clock (fold on_input ?is locked_radio) = uc_poll 7 uptime_clock_new"
    by (simp add: processor_poll_def on_tx_result_def say_simps clock Let_def)
  then have fin: "now_ms (fold on_input ?is locked_radio) = 7"
    by (simp add: now_ms_def unat_uptime_ms64 uptime_clock_new_def uc_poll_def)
  have "guessing_run ?is locked_radio"
    using g fin wf by (simp add: guessing_def)
  from auth_rate_limit [OF this] fin wf show ?thesis by (simp add: sample_facts)
qed

section \<open>Changing the PIN\<close>

lemma drop_sessions_at: "drop_sessions ks from auth k = (auth k \<and> (k = from \<or> k \<notin> set ks))"
  by (induction ks arbitrary: auth) auto

text \<open>
  Changing the PIN ends every session but the writer's.  After an accepted write of a new PIN
  the writer is logged in, every other connected client is not, the fail counter and the delay are
  cleared, and the new PIN is in force and persisted.
\<close>

theorem pin_rotation:
  assumes "is_authorized s from" "\<not> invalid_request m" "settings_request_wf m" "sds_has_pin m"
    and "device_eq (candidate m (cp_device s)) (cp_device s) = False"
    and "wifi_touched m \<longrightarrow> (case cp_hooks s of None \<Rightarrow> True | Some hooks \<Rightarrow> hk_wifi_supported hooks)"
    and "s' = handle_set_device_settings rid m from s"
  shows "cp_authenticated s' from \<and> (\<forall>k \<in> set (cp_sinks s). k \<noteq> from \<longrightarrow> \<not> cp_authenticated s' k) \<and>
    cp_auth_fails s' = 0 \<and> cp_auth_backoff_until s' = 0 \<and>
    cstr (ds_pin (cp_device s')) = (if cstr (sds_pin m) = [] then kDefaultPin else cstr (sds_pin m)) \<and>
    ms_load_device (cp_settings_store s') = (cp_device s', True)"
proof -
  define t where "t = rewritten m from s"
  have w: "\<not> (wifi_touched m \<and> (case cp_hooks s of None \<Rightarrow> False | Some hooks \<Rightarrow> \<not> hk_wifi_supported hooks))"
    using assms(6) by (auto split: option.splits)
  have s': "s' = say rid (device_body t) [from] (say 0 (device_body t) (recipients (Some from) True t) t)"
    using assms(1,2,5,7) w by (simp add: set_device_say t_def Let_def)
  have t: "cp_authenticated t = drop_sessions (cp_sinks s) from ((cp_authenticated s)(from := True))"
    "cp_auth_fails t = 0" "cp_auth_backoff_until t = 0" "ds_pin (cp_device t) = set_pin (sds_pin m)"
    "ms_load_device (cp_settings_store t) = (cp_device t, True)"
    using assms(4) by (simp_all add: t_def rewritten_def rotate_sessions_def Let_def candidate_fields
        ms_save_device_def ms_load_device_def)
  have "valid_pin_set (cstr (sds_pin m))" "0 < length (sds_pin m)"
    using assms(2-4) by (auto simp: invalid_request_def settings_request_wf_def char_field_def)
  then show ?thesis
    using set_pin_valid(3) by (simp add: s' t drop_sessions_at)
qed

definition pin_5678 :: meshpigeon_SetDeviceSettings where
  "pin_5678 = SetDeviceSettings_init_zero\<lparr>sds_has_pin := True, sds_pin := [0x35, 0x36, 0x37, 0x38, 0, 0, 0, 0, 0]\<rparr>"

lemma pin_rotation_witness:
  "\<not> cp_authenticated (handle_set_device_settings 1 pin_5678 3
       (fresh_radio\<lparr>cp_sinks := [3, 4], cp_authenticated := (\<lambda>k. True)\<rparr>)) 4"
proof -
  let ?s = "fresh_radio\<lparr>cp_sinks := [3, 4], cp_authenticated := (\<lambda>k. True)\<rparr>"
  have "settings_request_wf pin_5678"
    by (simp add: settings_request_wf_def pin_5678_def SetDeviceSettings_init_zero_def char_field_def protocol_limits)
  moreover have "\<not> invalid_request pin_5678" "\<not> wifi_touched pin_5678" "sds_has_pin pin_5678"
    by (simp_all add: invalid_request_def wifi_touched_def pin_5678_def SetDeviceSettings_init_zero_def valid_pin_set_def
        valid_pin_def cstr_def protocol_limits)
  moreover have "device_eq (candidate pin_5678 (cp_device ?s)) (cp_device ?s) = False"
  proof -
    have "cstr (set_pin (sds_pin pin_5678)) = cstr (sds_pin pin_5678)"
      using set_pin_valid(3) [of "sds_pin pin_5678"]
      by (simp add: pin_5678_def valid_pin_set_def valid_pin_def cstr_def protocol_limits)
    then show ?thesis
      by (simp add: device_eq_def candidate_fields sample_facts)
         (simp add: pin_5678_def device_defaults_def kDefaultPin_def cstr_def)
  qed
  moreover have "is_authorized ?s 3" by (simp add: is_authorized_def)
  ultimately show ?thesis
    using pin_rotation [of ?s 3 pin_5678 _ 1, OF _ _ _ _ _ _ refl] by simp
qed

end
