(* ===== verification/Requests.thy ===== *)
theory Requests
  imports Access
begin

text \<open>
  What the requests do: retuning, device settings, fetching, sending and its result, the live push,
  factory reset, and what survives a reboot.
\<close>

section \<open>The invariant, and what a reboot restores\<close>







section \<open>Retuning\<close>

definition clients_told :: "sink \<Rightarrow> u32 \<Rightarrow> rc_body \<Rightarrow> command_processor \<Rightarrow> event list" where
  "clients_told from rid b s =
     map (\<lambda>k. Send_Frame k (frame_of 0 b)) (filter (\<lambda>k. k \<noteq> from \<and> is_authorized s k) (cp_sinks s)) @
     [Send_Frame from (frame_of rid b)]"


definition new_tuning :: meshpigeon_SetRadioSettings where
  "new_tuning = \<lparr>srs_has_settings = True, srs_settings = \<lparr>rsm_freq_hz = 868000000, rsm_bandwidth_hz = 125000, rsm_sf = 7,
     rsm_cr = 5, rsm_power_dbm = 10, rsm_config_epoch = 0\<rparr>\<rparr>"

lemma new_tuning_ok: "srs_has_settings new_tuning" "tuning_request_ok (srs_settings new_tuning)"
  by (simp_all add: new_tuning_def tuning_request_ok_def protocol_limits)


section \<open>Fetching\<close>

lemma page_entries: "set (page_of req st) \<subseteq> set (ps_entries st)"
  by (auto simp: page_of_def dest: in_set_takeD)

lemma fetch_frames:
  assumes "cp_inv s" "is_authorized s from"
  shows "\<exists>resp. handle_fetch_packets rid req from s = s\<lparr>cp_trace := cp_trace s @
       map (\<lambda>e. Send_Frame from (frame_of rid (R_packet_entry (packet_entry_of e)))) (page_of req (cp_store s)) @
       [Send_Frame from (frame_of rid (R_fetch_end \<lparr>fe_count = of_nat (length (page_of req (cp_store s)))\<rparr>))],
     cp_response := resp\<rparr>"
proof -
  have ok: "list_all entry_ok (ps_entries (cp_store s))"
    using ps_inv_facts(7) cp_inv_facts(1) [OF assms(1)] by blast
  have "concat (map (\<lambda>e. frames rid (R_packet_entry (packet_entry_of e)) [from]) es)
      = map (\<lambda>e. Send_Frame from (frame_of rid (R_packet_entry (packet_entry_of e)))) es"
    if "set es \<subseteq> set (ps_entries (cp_store s))" for es
    using that ok by (induction es) (auto simp: list_all_iff frames_ok(2) body_ok_entry)
  from this [OF page_entries] show ?thesis
    unfolding fetch_say [OF cp_inv_facts(1) [OF assms(1)] assms(2)]
    by (intro exI [of _ "\<lparr>rc_id = rid, rc_body = R_fetch_end \<lparr>fe_count = of_nat (length (page_of req (cp_store s)))\<rparr>\<rparr>"])
       (simp add: fold_say_entry say_def frames_ok(2))
qed

text \<open>
  C27. Fetching.  An authorized client is answered with the retained packets above its cursor,
  oldest first, one frame each, at most as many as it asked for and at most 64, and then with a
  \<open>FetchEnd\<close> that says how many there were; the radio's state does not change.
\<close>

theorem fetch_answers:
  assumes "cp_reachable s" "is_authorized s from"
    and "page = take (if fp_max_count req = 0 \<or> fp_max_count req > 64 then 64 else unat (fp_max_count req))
      (filter (\<lambda>e. unat (fp_since_seq req) < sp_seq e) (ps_entries (cp_store s)))"
  shows "\<exists>resp. handle_fetch_packets rid req from s = s\<lparr>cp_trace := cp_trace s @
      map (\<lambda>e. Send_Frame from (frame_of rid (R_packet_entry (packet_entry_of e)))) page @
      [Send_Frame from (frame_of rid (R_fetch_end \<lparr>fe_count = of_nat (length page)\<rparr>))], cp_response := resp\<rparr>"
proof -
  have "page = page_of req (cp_store s)"
    unfolding assms(3) page_of_def page_limit_def
    by (simp add: kMaxFetchPerRequest_def Let_def word_less_nat_alt unat_eq_zero)
  then show ?thesis using fetch_frames [OF cp_reachable_inv [OF assms(1)] assms(2)] by simp
qed

lemma fetch_answers_witness:
  "\<exists>resp. handle_fetch_packets 9 \<lparr>fp_since_seq = 0, fp_max_count = 5\<rparr> 3 fresh_radio = fresh_radio\<lparr>cp_trace := cp_trace fresh_radio @
     [Send_Frame 3 (frame_of 9 (R_fetch_end \<lparr>fe_count = 0\<rparr>))], cp_response := resp\<rparr>"
  using fetch_answers [OF sample_reachable(1) sample_authorized(1), of _ "\<lparr>fp_since_seq = 0, fp_max_count = 5\<rparr>" 9 3, OF refl]
  by (simp add: sample_facts packet_store_new_def ps_entries_def Let_def)

section \<open>Sending\<close>

text \<open>What each kind of request may make the radio do, besides sending frames.\<close>

fun allowed :: "cr_body \<Rightarrow> event \<Rightarrow> bool" where
  "allowed b (Send_Frame k buf) = True"
| "allowed b (Radio_Transmit raw) = (b = C_send_packet \<lparr>spm_raw = raw\<rparr>)"
| "allowed b (Radio_Apply c) = (\<exists>m. b = C_set_radio_settings m \<and> c = requested_tuning (srs_settings m) 0)"
| "allowed b (Save_Radio c) = (\<exists>m. b = C_set_radio_settings m)"
| "allowed b (Save_Device d) = (\<exists>m. b = C_set_device_settings m)"
| "allowed b (Hook_Set_Device_Name n) = (\<exists>m. b = C_set_device_settings m \<and> sds_has_name m)"
| "allowed b (Hook_Apply_Wifi d) = (\<exists>m. b = C_set_device_settings m \<and> wifi_touched m)"
| "allowed b Clear_Device = (b = C_factory_reset)"
| "allowed b Hook_Factory_Reset = (b = C_factory_reset)"
| "allowed b Hook_Reboot = (b = C_reboot)"
| "allowed b Hook_Reboot_To_Bootloader = (b = C_bootloader)"
| "allowed b Radio_Begin = False"

definition adds :: "cr_body \<Rightarrow> command_processor \<Rightarrow> command_processor \<Rightarrow> bool" where
  "adds b s t \<longleftrightarrow> (\<exists>es. cp_trace t = cp_trace s @ es \<and> list_all (allowed b) es)"

named_theorems adds_intros \<open>what a handler adds to the trace\<close>

lemma adds_self [simp]: "adds b s s"
  by (simp add: adds_def)

lemma adds_more: "cp_trace t = cp_trace u @ es \<Longrightarrow> list_all (allowed b) es \<Longrightarrow> adds b s u \<Longrightarrow> adds b s t"
  unfolding adds_def by (elim exE conjE) (rule_tac x = "esa @ es" in exI, simp)

lemma adds_say [adds_intros]: "adds b s t \<Longrightarrow> adds b s (say rid c ks t)"
  by (rule adds_more [of _ t "frames rid c ks"]) (auto simp: frames_def list_all_iff)

lemma adds_emit [adds_intros]: "adds b s t \<Longrightarrow> allowed b e \<Longrightarrow> adds b s (emit e t)"
  by (rule adds_more [of _ t "[e]"]) auto

lemma adds_update [simp]:
  "adds b s (t\<lparr>cp_store := st\<rparr>) = adds b s t" "adds b s (t\<lparr>cp_tx_pending := a\<rparr>) = adds b s t"
  "adds b s (t\<lparr>cp_hooks := h\<rparr>) = adds b s t"
  "adds b s (t\<lparr>cp_tx_pending_seq := q\<rparr>) = adds b s t"
  "adds b s (t\<lparr>cp_clock := clk\<rparr>) = adds b s t" "adds b s (t\<lparr>cp_noise_floor_dbm := n\<rparr>) = adds b s t"
  "adds b s (t\<lparr>cp_authenticated := au\<rparr>) = adds b s t" "adds b s (t\<lparr>cp_auth_fails := f\<rparr>) = adds b s t"
  "adds b s (t\<lparr>cp_device := d\<rparr>) = adds b s t" "adds b s (t\<lparr>cp_settings_store := ms\<rparr>) = adds b s t"
  "adds b s (t\<lparr>cp_sinks := ks\<rparr>) = adds b s t" "adds b s (note_auth_failure t) = adds b s t"
  by (simp_all add: adds_def)

lemma adds_hook [adds_intros]: "adds b s t \<Longrightarrow> allowed b e \<Longrightarrow> adds b s (run_hook e t)"
  by (simp add: run_hook_def adds_intros)

lemma adds_fetch [adds_intros]:
  assumes "cp_inv s"
  shows "adds b s (handle_fetch_packets rid m k s)"
proof (cases "is_authorized s k")
  case True
  let ?es = "map (\<lambda>e. Send_Frame k (frame_of rid (R_packet_entry (packet_entry_of e)))) (page_of m (cp_store s)) @
     [Send_Frame k (frame_of rid (R_fetch_end \<lparr>fe_count = of_nat (length (page_of m (cp_store s)))\<rparr>))]"
  obtain resp where "handle_fetch_packets rid m k s = s\<lparr>cp_trace := cp_trace s @ ?es, cp_response := resp\<rparr>"
    using fetch_frames [OF assms True] by blast
  then have "cp_trace (handle_fetch_packets rid m k s) = cp_trace s @ ?es" by simp
  then show ?thesis by (rule adds_more) (auto simp: list_all_iff)
next
  case False
  then show ?thesis by (simp add: handle_fetch_packets_def require_auth_def say_simps adds_intros)
qed

lemma adds_set_radio [adds_intros]:
  "adds (C_set_radio_settings m) s (handle_set_radio_settings lora rid m k s)"
proof -
  have "adds (C_set_radio_settings m) s (retuned (requested_tuning (srs_settings m) n) s)" for n
    by (rule adds_more [of _ s "[Radio_Apply (requested_tuning (srs_settings m) 0), Save_Radio (requested_tuning (srs_settings m) n)]"])
       (simp_all add: retuned_def, simp add: requested_tuning_def)
  then show ?thesis by (simp add: set_radio_say Let_def adds_intros)
qed

lemma adds_set_device [adds_intros]: "adds (C_set_device_settings m) s (handle_set_device_settings rid m k s)"
proof -
  have "adds (C_set_device_settings m) s (rewritten m k s)"
    by (rule adds_more [of _ s "drop (length (cp_trace s)) (cp_trace (rewritten m k s))"]) (auto simp: rewritten_def Let_def)
  then show ?thesis by (simp add: set_device_say Let_def adds_intros)
qed

lemma adds_send_packet [adds_intros]: "adds (C_send_packet m) s (handle_send_packet lora rid m k s)"
  by (simp add: send_packet_say Let_def adds_intros split: prod.split)

lemma adds_request:
  assumes "cp_inv s"
  shows "adds (cr_body req) s (handle_request lora req k s)"
  using assms
  by (cases "cr_body req")
     (simp_all add: handle_request_def say_simps require_auth_def auth_say Let_def adds_intros)

lemma adds_other:
  assumes "\<nexists>lora data k. i = Envelope lora data k"
  shows "adds C_none s (on_input i s)"
  using assms
  by (cases i) (simp_all add: on_packet_received_def on_tx_result_def processor_poll_def add_sink_def remove_sink_def
      say_simps Let_def adds_intros split: prod.split option.split)

lemma allowed_none: "allowed C_none e \<Longrightarrow> \<exists>k buf. e = Send_Frame k buf"
  by (cases e) simp_all

lemma allowed_frame: "allowed b e \<Longrightarrow> \<not> gated b \<Longrightarrow> \<exists>k buf. e = Send_Frame k buf"
  by (cases e) (auto simp: gated_def)

lemma effect_cause:
  assumes "cp_inv s" "e \<in> set (drop (length (cp_trace s)) (cp_trace (on_input i s)))" "\<nexists>k buf. e = Send_Frame k buf"
  shows "\<exists>lora data k req. i = Envelope lora data k \<and> decode_envelope data = Some req \<and> is_authorized s k \<and> allowed (cr_body req) e"
proof -
  have new: "allowed b e" if "adds b s (on_input i s)" for b
    using that assms(2) by (auto simp: adds_def list_all_iff)
  obtain lora data k where i: "i = Envelope lora data k"
    using new [OF adds_other] allowed_none assms(3) by blast
  have "decode_envelope data \<noteq> None"
    using assms(2) by (intro notI) (simp add: i on_envelope_def)
  then obtain req where req: "decode_envelope data = Some req" by blast
  then have in_req: "on_input i s = handle_request lora req k s" by (simp add: i on_envelope_def)
  then have a: "allowed (cr_body req) e" using new adds_request [OF assms(1)] by simp
  then have g: "gated (cr_body req)" using allowed_frame assms(3) by blast
  have "is_authorized s k"
  proof (rule ccontr)
    assume "\<not> is_authorized s k"
    from gate_closed [OF this g, of lora] in_req assms(2,3) show False
      by (auto simp: frames_ok(2))
  qed
  with i req a show ?thesis by blast
qed

text \<open>
  C21. Every effect is asked for.  Whenever the radio transmits, retunes, writes or clears a record,
  renames itself, touches its Wi-Fi, reboots or resets, it is handling a request of that very kind
  from a client that is authorized; nothing else, neither a received packet nor a poll nor a client
  coming or going, makes it do so.
\<close>

theorem effects_asked_for:
  assumes "cp_reachable s" "cp_step s i s'" "e \<in> set (drop (length (cp_trace s)) (cp_trace s'))"
  shows "(\<exists>k buf. e = Send_Frame k buf) \<or>
    (\<exists>lora data k req. i = Envelope lora data k \<and> decode_envelope data = Some req \<and> is_authorized s k \<and> allowed (cr_body req) e)"
  using effect_cause [OF cp_reachable_inv [OF assms(1)], of e i] assms(2,3) by (auto simp: cp_step_iff)

lemma effects_asked_for_witness:
  "(\<exists>k buf. Clear_Device = Send_Frame k buf) \<or>
    (\<exists>lora data k req. Envelope working_lora (ClientToRadio_wire \<lparr>cr_id = 2, cr_body = C_factory_reset\<rparr>) 3 = Envelope lora data k \<and>
       decode_envelope data = Some req \<and> is_authorized fresh_radio k \<and> allowed (cr_body req) Clear_Device)"
proof (rule effects_asked_for [OF sample_reachable(1)])
  let ?i = "Envelope working_lora (ClientToRadio_wire \<lparr>cr_id = 2, cr_body = C_factory_reset\<rparr>) 3"
  show "cp_step fresh_radio ?i (on_input ?i fresh_radio)" using sample_live by (simp add: cp_step_iff)
  show "Clear_Device \<in> set (drop (length (cp_trace fresh_radio)) (cp_trace (on_input ?i fresh_radio)))"
    by (simp add: on_request ClientToRadio_ok_def handle_request_def require_auth_def sample_authorized say_simps run_hook_def
        sample_facts Let_def)
qed

lemma no_tx_frames: "Radio_Transmit raw \<notin> set (frames rid b ks)"
  by (auto simp: frames_def)

lemma append_last:
  assumes "ps_inv st" "length raw \<le> MESHPIGEON_MAX_RAW_PACKET" "ps_next_seq st + 1 < 2 ^ 32"
    and "ps_append up rssi snr flags raw st = (st', q, out)" "q \<noteq> 0"
  shows "q = ps_next_seq st" "out = Some (new_entry up rssi snr flags raw q)"
    "\<exists>k. ps_entries st' = drop k (ps_entries st) @ [new_entry up rssi snr flags raw q]"
proof -
  have fits: "kStoredPacketOverhead + length raw \<le> ps_capacity st"
    using append_inv [OF assms(1-4)] assms(5) by (auto split: if_splits)
  show "q = ps_next_seq st" "out = Some (new_entry up rssi snr flags raw q)"
    using append_inv [OF assms(1-4)] fits by auto
  with append_stored [OF assms(1) [unfolded ps_inv_def] assms(2) fits assms(3), of up rssi snr flags] assms(4)
  show "\<exists>k. ps_entries st' = drop k (ps_entries st) @ [new_entry up rssi snr flags raw q]"
    unfolding ps_rel_iff by (elim exE conjE) auto
qed

text \<open>
  The transmitter is used only on request.  A step keys the transmitter at most once, and only
  for a \<open>SendPacket\<close> of 1 to 255 bytes from an authorized client while the radio works and nothing
  is on the air; the packet sent is the one requested, and it is in the store under the sequence
  number the client was told.
\<close>

theorem transmits_on_request:
  assumes "cp_reachable s" "cp_step s i s'"
    and "Radio_Transmit raw \<in> set (drop (length (cp_trace s)) (cp_trace s'))"
  shows "\<exists>lora data k rid. i = Envelope lora data k \<and>
    decode_envelope data = Some \<lparr>cr_id = rid, cr_body = C_send_packet \<lparr>spm_raw = raw\<rparr>\<rparr> \<and>
    is_authorized s k \<and> cp_radio_ok s \<and> \<not> cp_tx_pending s \<and> 0 < length raw \<and> length raw \<le> 255 \<and>
    (\<exists>es. cp_trace s' = cp_trace s @ Send_Frame k (frame_of rid (R_packet_accepted \<lparr>pa_seq = of_nat (ps_next_seq (cp_store s))\<rparr>)) #
       Radio_Transmit raw # es \<and> (\<forall>raw'. Radio_Transmit raw' \<notin> set es)) \<and>
    (\<exists>old. ps_entries (cp_store s') = old @ [new_entry (uptime_ms64 (cp_clock s)) 0 0 kFlagSent raw (ps_next_seq (cp_store s))])"
proof -
  have inv: "cp_inv s" by (rule cp_reachable_inv [OF assms(1)])
  have live: "live s" and s': "s' = on_input i s" using assms(2) by (auto simp: cp_step_iff)
  obtain lora data k req where i: "i = Envelope lora data k" and req: "decode_envelope data = Some req"
      and "allowed (cr_body req) (Radio_Transmit raw)"
    using effect_cause [OF inv, of "Radio_Transmit raw" i] assms(3) s' by blast
  then have m: "cr_body req = C_send_packet m" if "m = \<lparr>spm_raw = raw\<rparr>" for m using that by simp
  define m where "m = \<lparr>spm_raw = raw\<rparr>"
  note m = m [OF m_def]
  have s'': "s' = handle_send_packet lora (cr_id req) m k s"
    using s' i req m by (simp add: on_envelope_def handle_request_def)
  obtain st q out where app: "ps_append (uptime_ms64 (cp_clock s)) 0 0 kFlagSent (spm_raw m) (cp_store s) = (st, q, out)"
    by (cases "ps_append (uptime_ms64 (cp_clock s)) 0 0 kFlagSent (spm_raw m) (cp_store s)")
  show ?thesis
  proof -
    have ok: "is_authorized s k" "spm_raw m \<noteq> []" "length (spm_raw m) \<le> MESHPIGEON_MAX_RAW_PACKET" "cp_radio_ok s"
        "\<not> cp_tx_pending s" "q \<noteq> 0"
      using assms(3) no_tx_frames by (auto simp: s'' send_packet_say app Let_def split: if_splits)
    let ?acc = "frame_of (cr_id req) (R_packet_accepted \<lparr>pa_seq = of_nat q\<rparr>)"
    obtain es where tr: "cp_trace s' = cp_trace s @ Send_Frame k ?acc # Radio_Transmit (spm_raw m) # es"
        and es: "\<forall>raw'. Radio_Transmit raw' \<notin> set es" and st: "cp_store s' = st"
      using ok no_tx_frames
      by (cases "lr_transmit lora (spm_raw m) = 0") (auto simp: s'' send_packet_say app Let_def frames_ok(2) [of "R_packet_accepted a" for a])
    have raw: "raw = spm_raw m" by (simp add: m_def)
    note l = append_last [OF cp_inv_facts(1) [OF inv] ok(3) live [unfolded live_def] app ok(6)]
    have "req = \<lparr>cr_id = cr_id req, cr_body = C_send_packet \<lparr>spm_raw = raw\<rparr>\<rparr>" using m raw by (cases req; cases m) simp
    then have dec: "decode_envelope data = Some \<lparr>cr_id = cr_id req, cr_body = C_send_packet \<lparr>spm_raw = raw\<rparr>\<rparr>"
      using req by simp
    have len: "0 < length raw" "length raw \<le> 255" using ok(2,3) raw by (simp_all add: protocol_limits)
    have "\<exists>es. cp_trace s' = cp_trace s @ Send_Frame k (frame_of (cr_id req) (R_packet_accepted
        \<lparr>pa_seq = of_nat (ps_next_seq (cp_store s))\<rparr>)) # Radio_Transmit raw # es \<and> (\<forall>raw'. Radio_Transmit raw' \<notin> set es)"
      using tr es l(1) raw by auto
    moreover have "\<exists>old. ps_entries (cp_store s') = old @ [new_entry (uptime_ms64 (cp_clock s)) 0 0 kFlagSent raw (ps_next_seq (cp_store s))]"
      using l(1,3) st raw by auto
    ultimately show ?thesis using i dec ok(1,4,5) len by blast
  qed
qed

definition send_123 :: input where
  "send_123 = Envelope working_lora (ClientToRadio_wire \<lparr>cr_id = 1, cr_body = C_send_packet \<lparr>spm_raw = [1, 2, 3]\<rparr>\<rparr>) 3"

lemma send_123:
  "decode_envelope (ClientToRadio_wire \<lparr>cr_id = 1, cr_body = C_send_packet \<lparr>spm_raw = [1, 2, 3]\<rparr>\<rparr>)
     = Some \<lparr>cr_id = 1, cr_body = C_send_packet \<lparr>spm_raw = [1, 2, 3]\<rparr>\<rparr>"
  "\<exists>st. ps_next_seq st = 2 \<and> on_input send_123 fresh_radio = (emit (Radio_Transmit [1, 2, 3]) (say 1 (R_packet_accepted \<lparr>pa_seq = 1\<rparr>) [3]
     (fresh_radio\<lparr>cp_store := st\<rparr>)))\<lparr>cp_tx_pending := True, cp_tx_pending_seq := 1\<rparr>"
proof -
  show dec: "decode_envelope (ClientToRadio_wire \<lparr>cr_id = 1, cr_body = C_send_packet \<lparr>spm_raw = [1, 2, 3]\<rparr>\<rparr>)
     = Some \<lparr>cr_id = 1, cr_body = C_send_packet \<lparr>spm_raw = [1, 2, 3]\<rparr>\<rparr>"
    by (rule decode_request) (simp_all add: ClientToRadio_ok_def SendPacket_ok_def)
  obtain st q out where app: "ps_append (uptime_ms64 (cp_clock fresh_radio)) 0 0 kFlagSent [1, 2, 3] (cp_store fresh_radio) = (st, q, out)"
    by (cases "ps_append (uptime_ms64 (cp_clock fresh_radio)) 0 0 kFlagSent [1, 2, 3] (cp_store fresh_radio)")
  have "q = 1"
    using append_inv [OF cp_inv_facts(1) [OF cp_reachable_inv [OF sample_reachable(1)]] _ sample_live(1) [unfolded live_def] app]
    by (simp add: sample_facts packet_store_new_def Let_def kStoredPacketOverhead_def protocol_limits)
  moreover have "ps_next_seq st = 2"
  proof -
    note inv = cp_inv_facts(1) [OF cp_reachable_inv [OF sample_reachable(1)]]
    have len: "length [1, 2, 3 :: byte] \<le> MESHPIGEON_MAX_RAW_PACKET" by (simp add: protocol_limits)
    have "ps_inv st" using append_inv [OF inv len sample_live(1) [unfolded live_def] app] by blast
    note st = ps_inv_facts(2,4) [OF this]
    obtain old where "ps_entries st = old @ [new_entry (uptime_ms64 (cp_clock fresh_radio)) 0 0 kFlagSent [1, 2, 3] 1]"
      using append_last(3) [OF inv len sample_live(1) [unfolded live_def] app] \<open>q = 1\<close> by auto
    then have "last (map sp_seq (ps_entries st)) = 1" "ps_entries st \<noteq> []" by (simp_all add: new_entry_def)
    then show ?thesis using st by (cases "ps_head_seq st < ps_next_seq st") auto
  qed
  ultimately show "\<exists>st. ps_next_seq st = 2 \<and> on_input send_123 fresh_radio = (emit (Radio_Transmit [1, 2, 3]) (say 1 (R_packet_accepted \<lparr>pa_seq = 1\<rparr>) [3]
     (fresh_radio\<lparr>cp_store := st\<rparr>)))\<lparr>cp_tx_pending := True, cp_tx_pending_seq := 1\<rparr>"
    using app sample_authorized(1)
    by (intro exI [of _ st]) (simp add: send_123_def on_envelope_def dec handle_request_def send_packet_say sample_facts(9,11)
        protocol_limits Let_def, simp add: working_lora_def)
qed

lemma transmits_on_request_witness:
  "\<exists>old. ps_entries (cp_store (on_input send_123 fresh_radio)) = old @ [new_entry 0 0 0 kFlagSent [1, 2, 3] 1]"
proof -
  have "cp_step fresh_radio send_123 (on_input send_123 fresh_radio)"
    using sample_live by (simp add: cp_step_iff send_123_def)
  moreover have "Radio_Transmit [1, 2, 3] \<in> set (drop (length (cp_trace fresh_radio)) (cp_trace (on_input send_123 fresh_radio)))"
    using send_123(2) by auto
  ultimately show ?thesis
    using transmits_on_request [OF sample_reachable(1)]
    by (fastforce simp: sample_facts packet_store_new_def uptime_ms64_def uptime_clock_new_def Let_def)
qed

text \<open>While a packet is on the air, only its own completion ends that.\<close>

definition tx_of :: "command_processor \<Rightarrow> bool \<times> nat" where
  "tx_of s = (cp_tx_pending s, cp_tx_pending_seq s)"

lemma tx_of_simps [simp]:
  "tx_of (say rid b ks s) = tx_of s" "tx_of (emit e s) = tx_of s" "tx_of (retuned c s) = tx_of s"
  "tx_of (rewritten m k s) = tx_of s" "tx_of (s\<lparr>cp_store := st\<rparr>) = tx_of s" "tx_of (note_auth_failure s) = tx_of s"
  "tx_of (s\<lparr>cp_device := d\<rparr>) = tx_of s" "tx_of (s\<lparr>cp_settings_store := ms\<rparr>) = tx_of s" "tx_of (run_hook e s) = tx_of s"
  "tx_of (s\<lparr>cp_sinks := ks\<rparr>) = tx_of s" "tx_of (s\<lparr>cp_authenticated := au\<rparr>) = tx_of s" "tx_of (s\<lparr>cp_auth_fails := f\<rparr>) = tx_of s"
  "tx_of (s\<lparr>cp_noise_floor_dbm := n\<rparr>) = tx_of s" "tx_of (s\<lparr>cp_clock := clk\<rparr>) = tx_of s" "tx_of (s\<lparr>cp_hooks := h\<rparr>) = tx_of s"
  by (simp_all add: tx_of_def retuned_def rewritten_def rotate_sessions_def run_hook_def Let_def)

lemma tx_of_request:
  assumes "cp_inv s" "cp_tx_pending s"
  shows "tx_of (handle_request lora req k s) = tx_of s"
proof -
  have "tx_of (handle_fetch_packets rid m k s) = tx_of s" for rid m
    by (rule fetch_keeps [where P = "\<lambda>t. tx_of t = tx_of s"]) simp_all
  moreover have "tx_of (handle_set_device_settings rid m k s) = tx_of s" for rid m by (simp add: set_device_say Let_def)
  moreover have "tx_of (handle_set_radio_settings lora rid m k s) = tx_of s" for rid m by (simp add: set_radio_say Let_def)
  moreover have "tx_of (handle_send_packet lora rid m k s) = tx_of s" for rid m using assms(2) by (simp add: send_packet_say)
  moreover have "tx_of (handle_auth rid m k s) = tx_of s" for rid m by (simp add: auth_say)
  ultimately show ?thesis
    by (cases "cr_body req") (simp_all add: handle_request_def say_simps require_auth_def Let_def)
qed

definition reports :: "nat \<Rightarrow> command_processor \<Rightarrow> command_processor \<Rightarrow> bool" where
  "reports seq s s' \<longleftrightarrow> \<not> cp_tx_pending s' \<and> (\<exists>ok. cp_trace s' = cp_trace s @
     map (\<lambda>k. Send_Frame k (frame_of 0 (R_tx_result \<lparr>tr_seq = of_nat seq, tr_success = ok\<rparr>))) (cp_sinks s))"

lemma tx_of_input:
  assumes "cp_inv s" "cp_tx_pending s"
  shows "tx_of (on_input i s) = tx_of s \<or> reports (cp_tx_pending_seq s) s (on_input i s)"
    "i = Poll lora now \<Longrightarrow> lr_tx_done lora \<Longrightarrow> reports (cp_tx_pending_seq s) s (on_input i s)"
proof -
  have all: "recipients None False u = cp_sinks u" for u by (simp add: recipients_def)
  have fin: "reports (cp_tx_pending_seq u) s (on_tx_result (cp_tx_pending_seq u) ok u)"
    if "cp_trace u = cp_trace s" "cp_sinks u = cp_sinks s" "cp_tx_pending u" for u ok
    using that by (auto simp: on_tx_result_def say_simps reports_def all frames_ok(2))
  show "i = Poll lora now \<Longrightarrow> lr_tx_done lora \<Longrightarrow> reports (cp_tx_pending_seq s) s (on_input i s)"
    using fin [of "s\<lparr>cp_clock := uc_poll now (cp_clock s)\<rparr>"] assms(2) by (simp add: processor_poll_def Let_def)
  show "tx_of (on_input i s) = tx_of s \<or> reports (cp_tx_pending_seq s) s (on_input i s)"
  proof (cases i)
    case (Envelope lora data k)
    then show ?thesis using tx_of_request [OF assms] by (simp add: on_envelope_def split: option.split)
  next
    case (Tx_Result seq ok)
    then show ?thesis using fin [of s] assms(2) by (cases "seq = cp_tx_pending_seq s") (simp_all add: on_tx_result_def)
  next
    case (Poll lora now)
    then show ?thesis
      using fin [of "s\<lparr>cp_clock := uc_poll now (cp_clock s)\<rparr>"] assms(2) by (simp add: processor_poll_def Let_def)
  qed (simp_all add: on_packet_received_def add_sink_def remove_sink_def say_simps Let_def split: prod.split option.split)
qed

fun steps_ok :: "input list \<Rightarrow> command_processor \<Rightarrow> bool" where
  "steps_ok [] s = True"
| "steps_ok (i # is) s = (live s \<and> input_ok i \<and> steps_ok is (on_input i s))"

text \<open>
  C10. A transmission is always reported.  Once a packet is on the air, whatever else happens, by
  the first poll after the radio has finished there is one step that clears the pending send and
  tells every connected client the result under the packet's sequence number.
\<close>

theorem transmission_reported:
  assumes "cp_reachable s" "cp_tx_pending s" "steps_ok is s"
    and "Poll lora now \<in> set is" "lr_tx_done lora"
  shows "\<exists>js i ks. is = js @ i # ks \<and> cp_tx_pending (fold on_input js s) \<and>
    reports (cp_tx_pending_seq s) (fold on_input js s) (on_input i (fold on_input js s))"
  using assms
proof (induction "is" arbitrary: s)
  case (Cons i ks)
  have inv: "cp_inv s" by (rule cp_reachable_inv [OF Cons.prems(1)])
  show ?case
  proof (cases "reports (cp_tx_pending_seq s) s (on_input i s)")
    case True
    then have "i # ks = [] @ i # ks \<and> cp_tx_pending (fold on_input [] s) \<and>
        reports (cp_tx_pending_seq s) (fold on_input [] s) (on_input i (fold on_input [] s))"
      using Cons.prems(2) by simp
    then show ?thesis by blast
  next
    case False
    then have keep: "cp_tx_pending (on_input i s)" "cp_tx_pending_seq (on_input i s) = cp_tx_pending_seq s"
      using tx_of_input(1) [OF inv Cons.prems(2), of i] Cons.prems(2) by (auto simp: tx_of_def)
    have later: "Poll lora now \<in> set ks"
      using False tx_of_input(2) [OF inv Cons.prems(2), of i lora now] Cons.prems(4,5) by auto
    have reach: "cp_reachable (on_input i s)"
      by (rule stepped [OF Cons.prems(1), of i]) (use Cons.prems(3) in \<open>simp add: cp_step_iff\<close>)
    have ok: "steps_ok ks (on_input i s)" using Cons.prems(3) by simp
    from Cons.IH [OF reach keep(1) ok later Cons.prems(5)] obtain js j ls where
      l: "ks = js @ j # ls" "cp_tx_pending (fold on_input js (on_input i s))"
        "reports (cp_tx_pending_seq s) (fold on_input js (on_input i s)) (on_input j (fold on_input js (on_input i s)))"
      unfolding keep(2) by blast
    then have "i # ks = (i # js) @ j # ls \<and> cp_tx_pending (fold on_input (i # js) s) \<and>
        reports (cp_tx_pending_seq s) (fold on_input (i # js) s) (on_input j (fold on_input (i # js) s))"
      by simp
    then show ?thesis by blast
  qed
qed simp

lemma sending_radio: "cp_reachable (on_input send_123 fresh_radio)" "cp_tx_pending (on_input send_123 fresh_radio)"
  "cp_tx_pending_seq (on_input send_123 fresh_radio) = 1"
proof -
  have "cp_step fresh_radio send_123 (on_input send_123 fresh_radio)"
    using sample_live by (simp add: cp_step_iff send_123_def)
  then show "cp_reachable (on_input send_123 fresh_radio)" by (rule stepped [OF sample_reachable(1)])
  show "cp_tx_pending (on_input send_123 fresh_radio)" "cp_tx_pending_seq (on_input send_123 fresh_radio) = 1"
    using send_123(2) by auto
qed

lemma transmission_reported_witness:
  "\<exists>js i ks. [Poll working_lora 9] = js @ i # ks \<and>
    reports 1 (fold on_input js (on_input send_123 fresh_radio)) (on_input i (fold on_input js (on_input send_123 fresh_radio)))"
proof -
  have "ps_next_seq (cp_store (on_input send_123 fresh_radio)) + 1 < 2 ^ 32"
    using send_123(2) by auto
  then have "steps_ok [Poll working_lora 9] (on_input send_123 fresh_radio)" by (simp add: live_def)
  from transmission_reported [OF sending_radio(1,2) this, of working_lora 9] sending_radio(3)
  show ?thesis by (auto simp: working_lora_def)
qed

section \<open>Every request is answered\<close>

text \<open>
  The envelopes a step sends, in order, each with its addressee; \<open>s\<close> and \<open>t\<close> are the states before
  and after it.
\<close>

definition said :: "command_processor \<Rightarrow> command_processor \<Rightarrow> (sink \<times> meshpigeon_RadioToClient) list \<Rightarrow> bool" where
  "said s t ms \<longleftrightarrow> list_all (\<lambda>(k, m). body_ok (rc_body m) \<and> rc_body m \<noteq> R_none) ms \<and>
     (\<exists>es. cp_trace t = cp_trace s @ es \<and> wire es = map (\<lambda>(k, m). (k, frame_of (rc_id m) (rc_body m))) ms)"

definition is_entry :: "rc_body \<Rightarrow> bool" where
  "is_entry b = (case b of R_packet_entry e \<Rightarrow> True | _ \<Rightarrow> False)"

text \<open>Pushes, and the packets of a fetch, before the one final answer; and after it.\<close>

definition pushed :: "u32 \<Rightarrow> sink \<Rightarrow> command_processor \<Rightarrow> command_processor \<Rightarrow> bool" where
  "pushed rid k s t \<longleftrightarrow> (\<exists>ms. said s t ms \<and>
     (\<forall>(j, m) \<in> set ms. rc_id m = 0 \<or> rc_id m = rid \<and> j = k \<and> is_entry (rc_body m)))"

definition answered :: "u32 \<Rightarrow> sink \<Rightarrow> command_processor \<Rightarrow> command_processor \<Rightarrow> bool" where
  "answered rid k s t \<longleftrightarrow> (\<exists>ms. said s t ms \<and>
     (\<exists>b. filter (\<lambda>(j, m). rc_id m = rid \<and> \<not> is_entry (rc_body m)) ms = [(k, \<lparr>rc_id = rid, rc_body = b\<rparr>)]) \<and>
     (\<forall>(j, m) \<in> set ms. rc_id m = 0 \<or> rc_id m = rid \<and> j = k))"

named_theorems answer_intros \<open>what leads to the answer of a request\<close>

lemma said_say:
  assumes "said s t ms" "body_ok b" "b \<noteq> R_none"
  shows "said s (say rid b ks t) (ms @ map (\<lambda>k. (k, \<lparr>rc_id = rid, rc_body = b\<rparr>)) ks)"
proof -
  have "wire (frames rid b ks) = map (\<lambda>k. (k, frame_of rid b)) ks"
    unfolding frames_ok(2) [OF assms(2,3)] by (induction ks) simp_all
  with assms show ?thesis by (auto simp: said_def list_all_iff)
qed

lemma said_emit: "said s t ms \<Longrightarrow> wire [e] = [] \<Longrightarrow> said s (emit e t) ms"
  by (auto simp: said_def)

lemma said_trace: "cp_trace t = cp_trace u \<Longrightarrow> said s u ms \<Longrightarrow> said s t ms"
  by (simp add: said_def)

lemma pushed_self [simp]: "pushed rid k s s"
  unfolding pushed_def by (intro exI [of _ "[]"]) (simp add: said_def)

lemma pushed_trace: "cp_trace t = cp_trace u \<Longrightarrow> pushed rid k s u \<Longrightarrow> pushed rid k s t"
  unfolding pushed_def using said_trace by blast

lemma pushed_emit [answer_intros]: "pushed rid k s t \<Longrightarrow> wire [e] = [] \<Longrightarrow> pushed rid k s (emit e t)"
  unfolding pushed_def using said_emit by blast

lemma pushed_say [answer_intros]:
  assumes "pushed rid k s t" "body_ok b" "b \<noteq> R_none" "r = 0 \<or> r = rid \<and> ks = [k] \<and> is_entry b"
  shows "pushed rid k s (say r b ks t)"
proof -
  obtain ms where "said s t ms" "\<forall>(j, m) \<in> set ms. rc_id m = 0 \<or> rc_id m = rid \<and> j = k \<and> is_entry (rc_body m)"
    using assms(1) by (auto simp: pushed_def)
  then show ?thesis
    using said_say [OF _ assms(2,3), of s t ms r ks] assms(4) unfolding pushed_def by fastforce
qed

lemma answered_say [answer_intros]:
  assumes "pushed rid k s t" "body_ok b" "b \<noteq> R_none" "\<not> is_entry b" "rid \<noteq> 0"
  shows "answered rid k s (say rid b [k] t)"
proof -
  obtain ms where ms: "said s t ms" "\<forall>(j, m) \<in> set ms. rc_id m = 0 \<or> rc_id m = rid \<and> j = k \<and> is_entry (rc_body m)"
    using assms(1) by (auto simp: pushed_def)
  have none: "filter (\<lambda>(j, m). rc_id m = rid \<and> \<not> is_entry (rc_body m)) ms = []"
    using ms(2) assms(5) by (auto simp: filter_empty_conv)
  from said_say [OF ms(1) assms(2,3), of rid "[k]"] ms(2) assms(4) none show ?thesis
    unfolding answered_def by (intro exI [of _ "ms @ [(k, \<lparr>rc_id = rid, rc_body = b\<rparr>)]"]) auto
qed

lemma answered_push [answer_intros]:
  assumes "answered rid k s t" "body_ok b" "b \<noteq> R_none" "rid \<noteq> 0"
  shows "answered rid k s (say 0 b ks t)"
proof -
  obtain ms c where ms: "said s t ms" "\<forall>(j, m) \<in> set ms. rc_id m = 0 \<or> rc_id m = rid \<and> j = k"
      "filter (\<lambda>(j, m). rc_id m = rid \<and> \<not> is_entry (rc_body m)) ms = [(k, \<lparr>rc_id = rid, rc_body = c\<rparr>)]"
    using assms(1) by (auto simp: answered_def)
  have "filter (\<lambda>(j, m). rc_id m = rid \<and> \<not> is_entry (rc_body m)) (map (\<lambda>k. (k, \<lparr>rc_id = 0, rc_body = b\<rparr>)) ks) = []"
    using assms(4) by (auto simp: filter_empty_conv)
  with said_say [OF ms(1) assms(2,3), of 0 ks] ms(2,3) show ?thesis
    unfolding answered_def by (intro exI [of _ "ms @ map (\<lambda>k. (k, \<lparr>rc_id = 0, rc_body = b\<rparr>)) ks"]) auto
qed

lemma answered_emit [answer_intros]: "answered rid k s t \<Longrightarrow> wire [e] = [] \<Longrightarrow> answered rid k s (emit e t)"
  unfolding answered_def using said_emit by blast

lemma answered_trace: "cp_trace t = cp_trace u \<Longrightarrow> answered rid k s u \<Longrightarrow> answered rid k s t"
  unfolding answered_def using said_trace by blast

lemma is_entry_simps [simp]:
  "\<not> is_entry (error_body c)" "\<not> is_entry R_ok" "\<not> is_entry (R_pong p)" "\<not> is_entry (radio_body t)" "\<not> is_entry (device_body s)"
  "\<not> is_entry (status_body h)" "\<not> is_entry (info_body k s)" "\<not> is_entry (R_fetch_end f)" "\<not> is_entry (R_packet_accepted a)"
  "is_entry (R_packet_entry e)"
  by (simp_all add: is_entry_def error_body_def radio_body_def device_body_def status_body_def info_body_def)

lemma pushed_update [simp]:
  "pushed rid k s (t\<lparr>cp_store := st\<rparr>) = pushed rid k s t" "pushed rid k s (t\<lparr>cp_authenticated := au\<rparr>) = pushed rid k s t"
  "pushed rid k s (t\<lparr>cp_auth_fails := f\<rparr>) = pushed rid k s t" "pushed rid k s (t\<lparr>cp_device := d\<rparr>) = pushed rid k s t"
  "pushed rid k s (t\<lparr>cp_settings_store := ms\<rparr>) = pushed rid k s t"
  by (simp_all add: pushed_def said_def)

lemma answered_update [simp]:
  "answered rid k s (t\<lparr>cp_tx_pending := a\<rparr>) = answered rid k s t"
  "answered rid k s (t\<lparr>cp_tx_pending_seq := q\<rparr>) = answered rid k s t"
  by (simp_all add: answered_def said_def)

lemma answered_require [answer_intros]:
  "rid \<noteq> 0 \<Longrightarrow> (is_authorized s k \<Longrightarrow> answered rid k s (f s)) \<Longrightarrow> answered rid k s (require_auth rid k f s)"
  by (simp add: require_auth_def say_simps answer_intros)

lemma answered_hook [answer_intros]: "answered rid k s t \<Longrightarrow> wire [e] = [] \<Longrightarrow> answered rid k s (run_hook e t)"
  by (simp add: run_hook_def answer_intros)

lemma answered_fetch [answer_intros]:
  assumes "cp_inv s" "rid \<noteq> 0"
  shows "answered rid k s (handle_fetch_packets rid req k s)"
proof (cases "is_authorized s k")
  case True
  have ok: "list_all entry_ok (ps_entries (cp_store s))"
    using ps_inv_facts(7) cp_inv_facts(1) [OF assms(1)] by blast
  have "pushed rid k s (foldl (say_entry rid k) s es)" if "set es \<subseteq> set (ps_entries (cp_store s))" for es
    using that
  proof (induction es rule: rev_induct)
    case (snoc e es)
    then have "entry_ok e" using ok by (auto simp: list_all_iff)
    then show ?case using snoc by (simp add: say_entry_def pushed_say body_ok_entry)
  qed simp
  from this [OF page_entries] show ?thesis
    using True assms(2) by (simp add: fetch_say cp_inv_facts(1) [OF assms(1)] answer_intros)
next
  case False
  then show ?thesis using assms(2) by (simp add: handle_fetch_packets_def require_auth_def say_simps answer_intros)
qed

lemma pushed_extend:
  "cp_trace t = cp_trace s @ es \<Longrightarrow> wire es = [] \<Longrightarrow> pushed rid k s t"
  unfolding pushed_def said_def by (intro exI [of _ "[]"]) auto

lemma answered_set_radio [answer_intros]: "rid \<noteq> 0 \<Longrightarrow> answered rid k s (handle_set_radio_settings lora rid req k s)"
proof -
  have "pushed rid k s (retuned c s)" for c
    by (rule pushed_extend [of _ _ "[Radio_Apply (c\<lparr>rs_config_epoch := 0\<rparr>), Save_Radio c]"]) (simp_all add: retuned_def)
  then show "rid \<noteq> 0 \<Longrightarrow> answered rid k s (handle_set_radio_settings lora rid req k s)"
    by (simp add: set_radio_say Let_def answer_intros)
qed

lemma answered_set_device [answer_intros]: "rid \<noteq> 0 \<Longrightarrow> answered rid k s (handle_set_device_settings rid m k s)"
proof -
  have "pushed rid k s (rewritten m k s)"
    by (rule pushed_extend [of _ _ "drop (length (cp_trace s)) (cp_trace (rewritten m k s))"])
       (auto simp: rewritten_def Let_def)
  then show "rid \<noteq> 0 \<Longrightarrow> answered rid k s (handle_set_device_settings rid m k s)"
    by (simp add: set_device_say Let_def answer_intros)
qed

lemma answered_auth [answer_intros]: "rid \<noteq> 0 \<Longrightarrow> answered rid k s (handle_auth rid m k s)"
proof -
  have "pushed rid k s (note_auth_failure s)" by (rule pushed_trace [of _ s]) simp_all
  then show "rid \<noteq> 0 \<Longrightarrow> answered rid k s (handle_auth rid m k s)" by (simp add: auth_say answer_intros)
qed

lemma answered_send_packet [answer_intros]: "rid \<noteq> 0 \<Longrightarrow> answered rid k s (handle_send_packet lora rid req k s)"
  by (simp add: send_packet_say Let_def answer_intros split: prod.split)

lemma answered_request:
  assumes "cp_inv s" "request_wf req" "cr_id req \<noteq> 0"
  shows "answered (cr_id req) k s (handle_request lora req k s)"
  using assms cp_inv_facts(2) [OF assms(1)]
  by (cases "cr_body req")
     (simp_all add: handle_request_def say_simps request_wf_def body_ok_status body_ok_pong Let_def answer_intros)



section \<open>Live packets\<close>

text \<open>
  C26. A received packet is stored and pushed.  It is stored behind what is retained, stamped with
  the uptime and the reading of the radio, and exactly the stored packet is pushed to every
  connected client that is authorized and to nobody else; a packet larger than the pool is neither
  stored nor pushed.
\<close>

theorem received_packet_pushed:
  assumes "cp_reachable s" "live s" "length raw < 256" "on_packet_received rssi snr raw s = (s', seq)"
    and "e = new_entry (uptime_ms64 (cp_clock s)) rssi snr kFlagReceived raw (ps_next_seq (cp_store s))"
  shows "if kStoredPacketOverhead + length raw \<le> ps_capacity (cp_store s)
    then seq = ps_next_seq (cp_store s) \<and> 0 < seq \<and> (\<exists>n. ps_entries (cp_store s') = drop n (ps_entries (cp_store s)) @ [e]) \<and>
      cp_trace s' = cp_trace s @ map (\<lambda>k. Send_Frame k (frame_of 0 (R_packet_entry (packet_entry_of e))))
        (filter (is_authorized s) (cp_sinks s))
    else seq = 0 \<and> cp_trace s' = cp_trace s"
proof -
  note inv = cp_inv_facts(1) [OF cp_reachable_inv [OF assms(1)]]
  have len: "length raw \<le> MESHPIGEON_MAX_RAW_PACKET" using assms(3) by (simp add: protocol_limits)
  obtain st q out where app: "ps_append (uptime_ms64 (cp_clock s)) rssi snr kFlagReceived raw (cp_store s) = (st, q, out)"
    by (cases "ps_append (uptime_ms64 (cp_clock s)) rssi snr kFlagReceived raw (cp_store s)")
  note a = append_inv [OF inv len assms(2) [unfolded live_def] app]
  show ?thesis
  proof (cases "kStoredPacketOverhead + length raw \<le> ps_capacity (cp_store s)")
    case True
    then have q: "q = ps_next_seq (cp_store s)" "0 < q" "out = Some e" "entry_ok e" using a assms(5) by auto
    have "\<exists>n. ps_entries st = drop n (ps_entries (cp_store s)) @ [e]"
      using append_last(3) [OF inv len assms(2) [unfolded live_def] app] q assms(5) by auto
    moreover have "filter (\<lambda>k. Some k \<noteq> None \<and> (True \<longrightarrow> is_authorized s k)) ks = filter (is_authorized s) ks" for ks
      by simp
    ultimately show ?thesis
      using True q assms(4) by (auto simp: on_packet_received_def app say_simps Let_def frames_ok(2) body_ok_entry recipients_def)
  next
    case False
    then have "q = 0" using a by auto
    then show ?thesis using False assms(4) by (auto simp: on_packet_received_def app Let_def)
  qed
qed

lemma received_packet_pushed_witness:
  "snd (on_packet_received 0xB0 5 [7, 7] fresh_radio) = 1 \<and>
   cp_trace (fst (on_packet_received 0xB0 5 [7, 7] fresh_radio)) = cp_trace fresh_radio"
  using received_packet_pushed [OF sample_reachable(1) sample_live(1), where raw = "[7, 7]" and rssi = "0xB0" and snr = "5"
      and s' = "fst (on_packet_received 0xB0 5 [7, 7] fresh_radio)" and seq = "snd (on_packet_received 0xB0 5 [7, 7] fresh_radio)",
      OF _ _ refl]
  by (simp add: sample_facts packet_store_new_def Let_def kStoredPacketOverhead_def)

section \<open>Device settings\<close>



text \<open>
  Factory reset.  It needs authorization; it forgets the packets and the device record, keeps
  the tuning, is answered before the board is told, and leaves the radio as a reboot will find it:
  with the shipped settings and open to everyone.
\<close>

theorem factory_reset:
  assumes "cp_reachable s" "is_authorized s k"
    and "s' = handle_request lora \<lparr>cr_id = rid, cr_body = C_factory_reset\<rparr> k s"
  shows "ps_entries (cp_store s') = [] \<and> cp_device s' = device_defaults \<and> cp_settings s' = cp_settings s \<and>
    is_authorized s' j \<and>
    cp_trace s' = cp_trace s @ [Clear_Device, Send_Frame k (frame_of rid R_ok)] @ (if cp_hooks s = None then [] else [Hook_Factory_Reset]) \<and>
    cp_device (powered_on lora' capacity calloc_ok clock (cp_settings_store s') board_name fw_version r d resp hooks) = device_defaults"
proof -
  have "ps_entries (ps_clear (cp_store s)) = []"
    using ps_inv_clear [OF cp_inv_facts(1) [OF cp_reachable_inv [OF assms(1)]]] by blast
  moreover have "with_port device_defaults = device_defaults" "pin_is_default device_defaults"
    by (simp_all add: with_port_def device_defaults_def pin_is_default_def kDefaultPin_def cstr_def protocol_limits)
  ultimately show ?thesis
    using assms(2) unfolding assms(3) boot_state
    by (simp add: handle_request_def require_auth_def run_hook_def say_simps frames_ok(2) is_authorized_def
        ms.device_cleared Let_def)
qed

lemma factory_reset_witness:
  "cp_device (handle_request working_lora \<lparr>cr_id = 2, cr_body = C_factory_reset\<rparr> 3 fresh_radio) = device_defaults"
  using factory_reset [OF sample_reachable(1) sample_authorized(1) refl, of working_lora 2 3] by blast

section \<open>The first-owner lock\<close>

definition tuning_of :: "command_processor \<Rightarrow> radio_settings \<times> radio_settings \<times> bool" where
  "tuning_of s = (cp_settings s, ms_load radio_unset (cp_settings_store s))"

lemma tuning_of_simps [simp]:
  "tuning_of (say rid b ks s) = tuning_of s" "tuning_of (emit e s) = tuning_of s" "tuning_of (rewritten m k s) = tuning_of s"
  "tuning_of (s\<lparr>cp_store := st\<rparr>) = tuning_of s" "tuning_of (note_auth_failure s) = tuning_of s"
  "tuning_of (s\<lparr>cp_device := d\<rparr>) = tuning_of s" "tuning_of (run_hook e s) = tuning_of s"
  "tuning_of (s\<lparr>cp_settings_store := ms_clear_device (cp_settings_store s)\<rparr>) = tuning_of s"
  "tuning_of (s\<lparr>cp_sinks := ks\<rparr>) = tuning_of s" "tuning_of (s\<lparr>cp_authenticated := au\<rparr>) = tuning_of s"
  "tuning_of (s\<lparr>cp_auth_fails := f\<rparr>) = tuning_of s" "tuning_of (s\<lparr>cp_noise_floor_dbm := n\<rparr>) = tuning_of s"
  "tuning_of (s\<lparr>cp_clock := clk\<rparr>) = tuning_of s" "tuning_of (s\<lparr>cp_tx_pending := a\<rparr>) = tuning_of s"
  "tuning_of (s\<lparr>cp_tx_pending_seq := q\<rparr>) = tuning_of s" "tuning_of (s\<lparr>cp_hooks := h\<rparr>) = tuning_of s"
  by (simp_all add: tuning_of_def rewritten_def rotate_sessions_def run_hook_def ms.device_keeps_radio ms.clear_keeps_radio Let_def)

lemma tuning_of_request:
  assumes "cp_inv s" "first_owner_lock_active s \<or> (\<nexists>m. cr_body req = C_set_radio_settings m)"
  shows "tuning_of (handle_request lora req k s) = tuning_of s"
proof -
  have "tuning_of (handle_fetch_packets rid m k s) = tuning_of s" for rid m
    by (rule fetch_keeps [where P = "\<lambda>t. tuning_of t = tuning_of s"]) simp_all
  moreover have "tuning_of (handle_set_device_settings rid m k s) = tuning_of s" for rid m by (simp add: set_device_say Let_def)
  moreover have "tuning_of (handle_set_radio_settings lora rid m k s) = tuning_of s" if "first_owner_lock_active s" for rid m
    using that by (simp add: set_radio_say)
  moreover have "tuning_of (handle_send_packet lora rid m k s) = tuning_of s" for rid m
    by (simp add: send_packet_say Let_def split: prod.split)
  moreover have "tuning_of (handle_auth rid m k s) = tuning_of s" for rid m by (simp add: auth_say)
  moreover have "tuning_of (s\<lparr>cp_device := d, cp_settings_store := ms_clear_device (cp_settings_store s)\<rparr>) = tuning_of s" for d
    by (simp add: tuning_of_def ms.clear_keeps_radio)
  ultimately show ?thesis
    using assms(2) by (cases "cr_body req") (simp_all add: handle_request_def say_simps require_auth_def Let_def)
qed

lemma lock_active_iff: "first_owner_lock_active s \<longleftrightarrow> 1 \<le> cp_set_count_since_boot s \<and> now_ms s < 300000"
  by (simp add: first_owner_lock_active_def kFirstOwnerGraceMs_def now_ms_def word_less_nat_alt)

text \<open>
  Nobody retunes a radio that was just tuned.  In the five minutes after a boot, once a tuning
  was set, nothing that happens changes the tuning in force or the persisted one; and no step ever
  changes them but a retuning request.
\<close>

theorem first_owner_lock:
  assumes "cp_reachable s" "cp_step s i s'"
    and "1 \<le> cp_set_count_since_boot s \<and> now_ms s < 300000 \<or>
      (\<nexists>lora data k rid m. i = Envelope lora data k \<and> decode_envelope data = Some \<lparr>cr_id = rid, cr_body = C_set_radio_settings m\<rparr>)"
  shows "cp_settings s' = cp_settings s \<and> ms_load radio_unset (cp_settings_store s') = ms_load radio_unset (cp_settings_store s)"
proof -
  have inv: "cp_inv s" by (rule cp_reachable_inv [OF assms(1)])
  have "tuning_of (on_input i s) = tuning_of s"
  proof (cases i)
    case (Envelope lora data k)
    show ?thesis
    proof (cases "decode_envelope data")
      case (Some req)
      have "first_owner_lock_active s \<or> (\<nexists>m. cr_body req = C_set_radio_settings m)"
        using assms(3) Envelope Some unfolding lock_active_iff by (cases req) auto
      then show ?thesis using tuning_of_request [OF inv] Envelope Some by (simp add: on_envelope_def)
    qed (simp add: Envelope on_envelope_def)
  qed (simp_all add: on_packet_received_def on_tx_result_def processor_poll_def add_sink_def remove_sink_def say_simps Let_def
      split: prod.split option.split)
  then show ?thesis using assms(2) by (simp add: tuning_of_def cp_step_iff)
qed

lemma first_owner_lock_witness: "cp_settings (on_input (Attach 5) fresh_radio) = radio_unset"
proof -
  have "cp_step fresh_radio (Attach 5) (on_input (Attach 5) fresh_radio)" using sample_live by (simp add: cp_step_iff)
  from first_owner_lock [OF sample_reachable(1) this] show ?thesis by (simp add: sample_facts)
qed

end
