(* ===== verification/Sessions.thy ===== *)
theory Sessions
  imports Requests
begin

text \<open>
  What one input of the processor can do to the client registry and to the sessions of other
  clients: handling a request never attaches or detaches a client, and only a request of a client
  itself can log it in.  The transports rest on these facts.
\<close>

definition sessions_kept :: "sink \<Rightarrow> command_processor \<Rightarrow> command_processor \<Rightarrow> bool" where
  "sessions_kept from s t \<longleftrightarrow> cp_sinks t = cp_sinks s \<and>
     (\<forall>k. cp_authenticated t k \<longrightarrow> k = from \<or> cp_authenticated s k)"

named_theorems kept_intros \<open>steps that log in nobody but the client that asks\<close>

lemma kept_simps [simp]:
  "sessions_kept from s (say rid b ks t) = sessions_kept from s t"
  "sessions_kept from s (emit e t) = sessions_kept from s t"
  "sessions_kept from s (t\<lparr>cp_store := st\<rparr>) = sessions_kept from s t"
  "sessions_kept from s (t\<lparr>cp_tx_pending := a\<rparr>) = sessions_kept from s t"
  "sessions_kept from s (t\<lparr>cp_tx_pending_seq := q\<rparr>) = sessions_kept from s t"
  "sessions_kept from s (t\<lparr>cp_auth_fails := f\<rparr>) = sessions_kept from s t"
  "sessions_kept from s (t\<lparr>cp_device := d\<rparr>) = sessions_kept from s t"
  "sessions_kept from s (t\<lparr>cp_settings_store := ms\<rparr>) = sessions_kept from s t"
  "sessions_kept from s (t\<lparr>cp_clock := clk\<rparr>) = sessions_kept from s t"
  "sessions_kept from s (t\<lparr>cp_noise_floor_dbm := n\<rparr>) = sessions_kept from s t"
  "sessions_kept from s (note_auth_failure t) = sessions_kept from s t"
  "sessions_kept from s (retuned c t) = sessions_kept from s t"
  "sessions_kept from s (run_hook e t) = sessions_kept from s t"
  by (simp_all add: sessions_kept_def retuned_def run_hook_def note_auth_failure_def Let_def)

lemma kept_refl [simp]: "sessions_kept from s s"
  by (simp add: sessions_kept_def)

lemma kept_trans: "sessions_kept from s t \<Longrightarrow> sessions_kept from t u \<Longrightarrow> sessions_kept from s u"
  unfolding sessions_kept_def by metis

lemma kept_rewritten: "sessions_kept from s (rewritten m from s)"
  by (auto simp: sessions_kept_def rewritten_def rotate_sessions_def drop_sessions_at Let_def)

lemma kept_request: "sessions_kept from s (handle_request lora req from s)"
proof -
  have login: "sessions_kept from s (s\<lparr>cp_authenticated := (cp_authenticated s)(from := True)\<rparr>)"
    by (auto simp: sessions_kept_def)
  have "sessions_kept from s (handle_send_packet lora rid m from s)" for rid m
    by (simp add: send_packet_say Let_def split: prod.split)
  moreover have "sessions_kept from s (handle_set_device_settings rid m from s)" for rid m
    by (simp add: set_device_say Let_def kept_rewritten)
  moreover have "sessions_kept from s (handle_set_radio_settings lora rid m from s)" for rid m
    by (simp add: set_radio_say Let_def)
  moreover have "sessions_kept from s (handle_fetch_packets rid m from s)" for rid m
    by (rule fetch_keeps) simp_all
  moreover have "sessions_kept from s (handle_auth rid m from s)" for rid m
    by (simp add: auth_say login)
  ultimately show ?thesis
    by (cases "cr_body req") (simp_all add: handle_request_def say_simps require_auth_def Let_def)
qed

lemma kept_envelope: "sessions_kept from s (on_envelope lora data (Some from) s)"
  by (simp add: on_envelope_def kept_request split: option.split)

lemma kept_received: "sessions_kept from s (fst (on_packet_received rssi snr raw s))"
  by (simp add: on_packet_received_def say_simps Let_def split: prod.split option.split)

lemma kept_tx_result [simp]: "sessions_kept from s (on_tx_result seq ok t) = sessions_kept from s t"
  by (simp add: on_tx_result_def say_simps)

lemma kept_poll: "sessions_kept from s (processor_poll lora now s)"
  by (simp add: processor_poll_def Let_def)

lemma kept_wifi: "sessions_kept from s (on_wifi_state_changed s)"
  by (simp add: say_simps)

text \<open>The device record stays well-formed, whatever is asked of the processor.\<close>

lemma candidate_wf: "device_wf d \<Longrightarrow> device_wf (candidate m d)"
  using char_field_copy_str [of MESHPIGEON_NAME_MAX] char_field_copy_str [of MESHPIGEON_SSID_MAX]
    char_field_copy_str [of MESHPIGEON_PASS_MAX] char_field_copy_str [of MESHPIGEON_PIN_MAX]
  by (simp add: device_wf_def candidate_fields set_pin_copy_str)

lemma rewritten_wf: "device_wf (cp_device s) \<Longrightarrow> device_wf (cp_device (rewritten m from s))"
  by (simp add: rewritten_def Let_def candidate_wf)

lemma request_wf: "device_wf (cp_device s) \<Longrightarrow> device_wf (cp_device (handle_request lora req from s))"
proof -
  assume s: "device_wf (cp_device s)"
  have "device_wf (cp_device (handle_send_packet lora rid m from s))" for rid m
    using s by (simp add: send_packet_say Let_def split: prod.split)
  moreover have "device_wf (cp_device (handle_set_device_settings rid m from s))" for rid m
    using s by (simp add: set_device_say Let_def rewritten_wf)
  moreover have "device_wf (cp_device (handle_set_radio_settings lora rid m from s))" for rid m
    using s by (simp add: set_radio_say Let_def retuned_def)
  moreover have "device_wf (cp_device (handle_fetch_packets rid m from s))" for rid m
    by (rule fetch_keeps) (simp_all add: s)
  moreover have "device_wf (cp_device (handle_auth rid m from s))" for rid m
    using s by (simp add: auth_say note_auth_failure_def Let_def)
  ultimately show ?thesis
    using s by (cases "cr_body req")
      (simp_all add: handle_request_def say_simps require_auth_def Let_def run_hook_def device_wf_defaults)
qed

lemma input_wf: "device_wf (cp_device s) \<Longrightarrow> device_wf (cp_device (on_input i s))"
  by (cases i)
     (simp_all add: on_envelope_def request_wf on_packet_received_def on_tx_result_def processor_poll_def add_sink_def remove_sink_def
        say_simps Let_def split: prod.split option.split)

section \<open>Boards drive the core\<close>

text \<open>
  What a board does with the core is a run of inputs.  \<open>core_run s t\<close> says that \<open>t\<close> is reached from
  \<open>s\<close> by some; a board answers through hooks, which no input takes away.
\<close>

definition core_run :: "command_processor \<Rightarrow> command_processor \<Rightarrow> bool" where
  "core_run s t \<longleftrightarrow> (\<exists>is. list_all input_ok is \<and> t = fold on_input is s)"

lemma core_run_refl [simp]: "core_run s s"
  unfolding core_run_def by (rule exI [of _ "[]"]) simp

lemma core_run_trans: "core_run s t \<Longrightarrow> core_run t u \<Longrightarrow> core_run s u"
  unfolding core_run_def by (elim exE) (rule_tac x = "is @ isa" in exI, simp)

lemma core_run_input: "input_ok i \<Longrightarrow> core_run s (on_input i s)"
  unfolding core_run_def by (rule exI [of _ "[i]"]) simp

lemma hooks_request: "cp_hooks (handle_request lora req from s) = cp_hooks s"
proof -
  have "cp_hooks (handle_send_packet lora rid m from s) = cp_hooks s" for rid m
    by (simp add: send_packet_say Let_def split: prod.split)
  moreover have "cp_hooks (handle_set_device_settings rid m from s) = cp_hooks s" for rid m
    by (simp add: set_device_say Let_def rewritten_def)
  moreover have "cp_hooks (handle_set_radio_settings lora rid m from s) = cp_hooks s" for rid m
    by (simp add: set_radio_say Let_def retuned_def)
  moreover have "cp_hooks (handle_fetch_packets rid m from s) = cp_hooks s" for rid m
    by (rule fetch_keeps) simp_all
  moreover have "cp_hooks (handle_auth rid m from s) = cp_hooks s" for rid m
    by (simp add: auth_say note_auth_failure_def Let_def)
  ultimately show ?thesis
    by (cases "cr_body req") (simp_all add: handle_request_def say_simps require_auth_def Let_def run_hook_def)
qed

lemma hooks_input: "cp_hooks (on_input i s) = None \<longleftrightarrow> cp_hooks s = None"
  by (cases i)
     (simp_all add: on_envelope_def hooks_request on_packet_received_def on_tx_result_def processor_poll_def add_sink_def
        remove_sink_def say_simps Let_def split: prod.split option.split)

text \<open>A call of a board that answers with \<open>h\<close>.\<close>

lemma core_run_answering:
  assumes "cp_hooks s \<noteq> None" "hooks_ok (Some h)" "input_ok i"
  shows "core_run s (on_input i (s\<lparr>cp_hooks := Some h\<rparr>))" "cp_hooks (on_input i (s\<lparr>cp_hooks := Some h\<rparr>)) \<noteq> None"
proof -
  have "s\<lparr>cp_hooks := Some h\<rparr> = on_input (Hooks h) s" using assms(1) by simp
  moreover have "core_run s (on_input (Hooks h) s)" by (rule core_run_input) (simp add: assms(2))
  ultimately show "core_run s (on_input i (s\<lparr>cp_hooks := Some h\<rparr>))"
    using core_run_trans core_run_input [OF assms(3)] by metis
  show "cp_hooks (on_input i (s\<lparr>cp_hooks := Some h\<rparr>)) \<noteq> None" by (simp add: hooks_input)
qed

lemma steps_reachable: "cp_reachable s \<Longrightarrow> steps_ok is s \<Longrightarrow> cp_reachable (fold on_input is s)"
proof (induction "is" arbitrary: s)
  case (Cons i js)
  have ok: "live s" "input_ok i" "steps_ok js (on_input i s)" using Cons.prems(2) by simp_all
  have "cp_reachable (on_input i s)"
    by (rule stepped [OF Cons.prems(1), of i]) (simp add: cp_step_iff ok)
  from Cons.IH [OF this ok(3)] show ?case by simp
qed simp

text \<open>The empty in-memory store is a legal one to boot from.\<close>

lemma persisted_none: "persisted_ok (memory_store_new junk)"
proof -
  have "tuning_valid radio_unset" by (simp add: tuning_valid_def radio_unset_def protocol_limits)
  then show ?thesis
    using device_valid_samples(1) by (simp add: persisted_ok_def memory_store_new_def ms_load_def ms_load_device_def)
qed

end
