(* ===== verification/RxFifo.thy ===== *)
theory RxFifo
  imports Framing
begin

text \<open>
  The byte sources a transport drains, and \<open>RxFifo<512>\<close> of \<open>src/transports.h\<close>, the ring between
  the BLE host task (producer) and the board loop (consumer).

  \<open>drain_source\<close> is the template \<open>drain_frames\<close> over the two methods it needs of its source; the
  locale \<open>byte_source\<close> is what they promise, and its lemma reduces the loop to the one over a list
  of bytes.  The ring is the code's: a 512-byte array and two free-running 32-bit indices.  Its
  lemmas show that it is a bounded queue whatever the indices are, their wrap-around included, and
  what the two tasks see of each other when they interleave.
\<close>

section \<open>Byte sources\<close>

text \<open>
  \<open>template <typename Src> drain_frames\<close>: \<open>avail\<close> and \<open>rd\<close> are \<open>src.available()\<close> and
  \<open>src.read()\<close>, whose \<open>int\<close> is cast to a byte.
\<close>

fun drain_source :: "('s \<Rightarrow> int) \<Rightarrow> ('s \<Rightarrow> int \<times> 's) \<Rightarrow> nat \<Rightarrow> ('p \<Rightarrow> byte list \<Rightarrow> 'p)
    \<Rightarrow> frame_reader \<Rightarrow> 'p \<Rightarrow> 's \<Rightarrow> frame_reader \<times> 'p \<times> 's" where
  "drain_source avail rd 0 on_envelope reader proc src = (reader, proc, src)"
| "drain_source avail rd (Suc budget) on_envelope reader proc src =
     (if avail src > 0
      then let (c, src) = rd src in
        (case frame_reader_feed (word_of_int c) reader of
           (reader, Frame env) \<Rightarrow> drain_source avail rd budget on_envelope reader (on_envelope proc env) src
         | (reader, _) \<Rightarrow> drain_source avail rd budget on_envelope reader proc src)
      else (reader, proc, src))"

locale byte_source =
  fixes avail :: "'s \<Rightarrow> int"
    and rd :: "'s \<Rightarrow> int \<times> 's"
    and inv :: "'s \<Rightarrow> bool"
    and contents :: "'s \<Rightarrow> byte list"
  assumes avail_contents: "inv s \<Longrightarrow> avail s = int (length (contents s))"
    and read_contents: "inv s \<Longrightarrow> contents s = b # bs \<Longrightarrow>
      \<exists>s'. rd s = (uint b, s') \<and> inv s' \<and> contents s' = bs"
begin

lemma drain_contents:
  assumes "inv src"
  shows "\<exists>src'. drain_source avail rd n f reader proc src =
      (fst (drain_loop n f reader proc (contents src)),
       fst (snd (drain_loop n f reader proc (contents src))), src') \<and> inv src' \<and>
    contents src' = snd (snd (drain_loop n f reader proc (contents src)))"
  using assms
proof (induction n arbitrary: reader proc src)
  case (Suc n)
  show ?case
  proof (cases "contents src")
    case Nil
    then show ?thesis using avail_contents [OF Suc.prems] Suc.prems by auto
  next
    case (Cons b bs)
    then obtain s' where r: "rd src = (uint b, s')" "inv s'" "contents s' = bs"
      using read_contents [OF Suc.prems] by blast
    have pos: "avail src > 0"
      using avail_contents [OF Suc.prems] by (simp add: Cons)
    obtain r' res where fd: "frame_reader_feed b reader = (r', res)" by (metis surj_pair)
    show ?thesis
      using Suc.IH [OF r(2)] by (cases res) (simp_all add: Cons pos r(1,3) fd)
  qed
qed simp

end

lemma drain_loop_Nil [simp]: "drain_loop n f reader proc [] = (reader, proc, [])"
  by (cases n) simp_all

text \<open>What every envelope keeps, the loop keeps.\<close>

lemma drain_loop_keeps:
  "(\<And>p env. P p \<Longrightarrow> P (f p env)) \<Longrightarrow> P proc \<Longrightarrow> P (fst (snd (drain_loop n f reader proc src)))"
  by (induction n f reader proc src rule: drain_loop.induct) (auto split: prod.split feed_result.split)

section \<open>The ring\<close>

definition kRxFifoBytes :: nat where "kRxFifoBytes = 512"

record rx_fifo =
  rf_buf :: "byte list"
  rf_head :: u32
  rf_tail :: u32

text \<open>A \<open>RxFifo\<close> as constructed: \<open>buf_\<close> has no initialiser, so what it holds is an argument.\<close>

definition rx_fifo_new :: "byte list \<Rightarrow> rx_fifo" where
  "rx_fifo_new buf = \<lparr>rf_buf = buf, rf_head = 0, rf_tail = 0\<rparr>"

fun rf_write :: "byte list \<Rightarrow> rx_fifo \<Rightarrow> rx_fifo" where
  "rf_write [] f = f"
| "rf_write (d # data) f =
     (if rf_head f - rf_tail f \<ge> of_nat kRxFifoBytes then f
      else rf_write data (f\<lparr>rf_buf := (rf_buf f)[unat (rf_head f AND (of_nat kRxFifoBytes - 1)) := d],
                            rf_head := rf_head f + 1\<rparr>))"

definition rf_available :: "rx_fifo \<Rightarrow> int" where
  "rf_available f = sint (rf_head f - rf_tail f)"

definition rf_read :: "rx_fifo \<Rightarrow> int \<times> rx_fifo" where
  "rf_read f =
     (if rf_head f = rf_tail f then (- 1, f)
      else (uint (rf_buf f ! unat (rf_tail f AND (of_nat kRxFifoBytes - 1))),
            f\<lparr>rf_tail := rf_tail f + 1\<rparr>))"

definition rf_clear :: "rx_fifo \<Rightarrow> rx_fifo" where
  "rf_clear f = f\<lparr>rf_tail := rf_head f\<rparr>"

subsection \<open>The queue it holds\<close>

definition rf_inv :: "rx_fifo \<Rightarrow> bool" where
  "rf_inv f \<longleftrightarrow> length (rf_buf f) = kRxFifoBytes \<and> unat (rf_head f - rf_tail f) \<le> kRxFifoBytes"

definition rf_slot :: "u32 \<Rightarrow> nat" where
  "rf_slot i = unat i mod kRxFifoBytes"

definition rf_list :: "rx_fifo \<Rightarrow> byte list" where
  "rf_list f = map (\<lambda>i. rf_buf f ! rf_slot (rf_tail f + of_nat i)) [0..<unat (rf_head f - rf_tail f)]"

lemma unat_and_511: "unat (i AND (of_nat kRxFifoBytes - 1) :: u32) = rf_slot i"
proof -
  have "(of_nat kRxFifoBytes - 1 :: u32) = mask 9"
    by (simp add: kRxFifoBytes_def mask_eq_exp_minus_1)
  then have "i AND (of_nat kRxFifoBytes - 1) = take_bit 9 i"
    by (simp add: take_bit_eq_mask)
  then show ?thesis
    by (simp add: rf_slot_def kRxFifoBytes_def unsigned_take_bit_eq take_bit_eq_mod unat_mod_distrib)
qed

lemma rf_slot_add: "rf_slot (i + of_nat n) = (unat i + n) mod kRxFifoBytes"
proof -
  have "unat (i + of_nat n) mod kRxFifoBytes = ((unat i + n) mod 2 ^ 32) mod 512"
    by (simp add: unat_word_ariths unat_of_nat mod_simps kRxFifoBytes_def)
  also have "\<dots> = (unat i + n) mod 512"
    by (rule mod_mod_cancel) simp
  finally show ?thesis by (simp add: rf_slot_def kRxFifoBytes_def)
qed

lemma rf_slot_bound: "rf_slot i < kRxFifoBytes"
  by (simp add: rf_slot_def kRxFifoBytes_def)

lemma mod_inj_window:
  assumes "(a + i) mod m = (a + j) mod m" "i < m" "j < (m :: nat)"
  shows "i = j"
proof -
  have "(int a + int i) mod int m = (int a + int j) mod int m"
    using assms(1) by (metis of_nat_add zmod_int)
  then have "int i mod int m = int j mod int m"
    by (simp add: mod_eq_dvd_iff)
  then show ?thesis
    using assms(2,3) by simp
qed

lemma rf_full_iff:
  "rf_head f - rf_tail f \<ge> of_nat kRxFifoBytes \<longleftrightarrow> length (rf_list f) \<ge> kRxFifoBytes"
  by (simp add: word_le_nat_alt rf_list_def kRxFifoBytes_def unat_of_nat)

lemma rf_list_empty: "rf_head f = rf_tail f \<longleftrightarrow> rf_list f = []"
  by (simp add: rf_list_def unat_eq_zero)

lemma unat_diff_Suc:
  assumes "unat (h - t :: u32) < 512"
  shows "unat (h + 1 - t) = Suc (unat (h - t))"
proof -
  have "h + 1 - t = (h - t) + 1" by simp
  moreover have "unat ((h - t) + 1) = unat (h - t) + 1"
    using assms by (simp add: unat_word_ariths)
  ultimately show ?thesis by (simp only:)
qed

text \<open>One byte in, one byte out.\<close>

lemma rf_head_slot: "rf_slot (rf_head f) = (unat (rf_tail f) + unat (rf_head f - rf_tail f)) mod kRxFifoBytes"
  using rf_slot_add [of "rf_tail f" "unat (rf_head f - rf_tail f)"] by simp

lemma rf_store_free:
  assumes "rf_inv f" "length (rf_list f) < kRxFifoBytes"
  shows "rf_list (f\<lparr>rf_buf := (rf_buf f)[rf_slot (rf_head f) := b]\<rparr>) = rf_list f"
    "rf_inv (f\<lparr>rf_buf := (rf_buf f)[rf_slot (rf_head f) := b]\<rparr>)"
proof -
  have n: "unat (rf_head f - rf_tail f) < kRxFifoBytes"
    using assms(2) by (simp add: rf_list_def)
  have "rf_slot (rf_tail f + of_nat i) \<noteq> rf_slot (rf_head f)" if "i < unat (rf_head f - rf_tail f)" for i
    using mod_inj_window [of "unat (rf_tail f)" i kRxFifoBytes "unat (rf_head f - rf_tail f)"] that n
    by (auto simp: rf_slot_add rf_head_slot)
  then show "rf_list (f\<lparr>rf_buf := (rf_buf f)[rf_slot (rf_head f) := b]\<rparr>) = rf_list f"
    by (auto simp: rf_list_def) (metis nth_list_update_neq)
  show "rf_inv (f\<lparr>rf_buf := (rf_buf f)[rf_slot (rf_head f) := b]\<rparr>)"
    using assms(1) by (simp add: rf_inv_def)
qed

lemma rf_publish:
  assumes "rf_inv f" "length (rf_list f) < kRxFifoBytes" "rf_buf f ! rf_slot (rf_head f) = b"
  shows "rf_list (f\<lparr>rf_head := rf_head f + 1\<rparr>) = rf_list f @ [b]"
    "rf_inv (f\<lparr>rf_head := rf_head f + 1\<rparr>)"
proof -
  have n: "unat (rf_head f - rf_tail f) < 512"
    using assms(2) by (simp add: rf_list_def kRxFifoBytes_def)
  show "rf_list (f\<lparr>rf_head := rf_head f + 1\<rparr>) = rf_list f @ [b]"
    using assms(3) by (simp add: rf_list_def unat_diff_Suc [OF n])
  show "rf_inv (f\<lparr>rf_head := rf_head f + 1\<rparr>)"
    using assms(1) n by (simp add: rf_inv_def unat_diff_Suc [OF n] kRxFifoBytes_def)
qed

lemma rf_write_list:
  assumes "rf_inv f"
  shows "rf_list (rf_write data f) = rf_list f @ take (kRxFifoBytes - length (rf_list f)) data \<and>
    rf_inv (rf_write data f)"
  using assms
proof (induction data f rule: rf_write.induct)
  case (2 d data f)
  let ?g = "f\<lparr>rf_buf := (rf_buf f)[rf_slot (rf_head f) := d]\<rparr>"
  let ?f = "?g\<lparr>rf_head := rf_head f + 1\<rparr>"
  show ?case
  proof (cases "length (rf_list f) \<ge> kRxFifoBytes")
    case True
    then show ?thesis using 2(2) by (simp only: rf_write.simps rf_full_iff) simp
  next
    case False
    have g: "rf_list ?g = rf_list f" "rf_inv ?g"
      using rf_store_free [OF 2(2)] False by simp_all
    have "rf_buf ?g ! rf_slot (rf_head ?g) = d"
      using 2(2) rf_slot_bound by (simp add: rf_inv_def)
    then have f: "rf_list ?f = rf_list f @ [d]" "rf_inv ?f"
      using rf_publish [of ?g d] g False by simp_all
    have w: "rf_write (d # data) f = rf_write data ?f"
      using False by (simp only: rf_write.simps rf_full_iff unat_and_511 if_False)
    have "rf_list (rf_write data ?f) = rf_list ?f @ take (kRxFifoBytes - length (rf_list ?f)) data \<and>
        rf_inv (rf_write data ?f)"
      using 2(1) [unfolded rf_full_iff unat_and_511] False f(2) by simp
    then show ?thesis
      using False by (simp only: w f) (simp add: Suc_diff_Suc [symmetric])
  qed
qed simp

lemma rf_read_list:
  assumes "rf_inv f" "rf_list f = b # bs"
  shows "rf_read f = (uint b, f\<lparr>rf_tail := rf_tail f + 1\<rparr>)"
    "rf_list (f\<lparr>rf_tail := rf_tail f + 1\<rparr>) = bs" "rf_inv (f\<lparr>rf_tail := rf_tail f + 1\<rparr>)"
proof -
  have ne: "rf_head f \<noteq> rf_tail f" using assms(2) by (simp add: rf_list_empty)
  then have pos: "0 < unat (rf_head f - rf_tail f)" by (simp add: unat_gt_0)
  have "rf_head f - (rf_tail f + 1) = (rf_head f - rf_tail f) - 1" by simp
  then have dec: "unat (rf_head f - (rf_tail f + 1)) = unat (rf_head f - rf_tail f) - 1"
    using pos by (metis unat_minus_one unat_gt_0)
  have l: "rf_list f = map (\<lambda>i. rf_buf f ! rf_slot (rf_tail f + of_nat i)) (0 # [1..<unat (rf_head f - rf_tail f)])"
    using pos by (simp add: rf_list_def upt_conv_Cons)
  then show "rf_read f = (uint b, f\<lparr>rf_tail := rf_tail f + 1\<rparr>)"
    using assms(2) ne by (simp add: rf_read_def unat_and_511)
  have "[1..<unat (rf_head f - rf_tail f)] = map Suc [0..<unat (rf_head f - rf_tail f) - 1]"
    using pos by (simp add: map_Suc_upt)
  then show "rf_list (f\<lparr>rf_tail := rf_tail f + 1\<rparr>) = bs"
    using l assms(2) by (simp add: rf_list_def dec add.assoc o_def)
  show "rf_inv (f\<lparr>rf_tail := rf_tail f + 1\<rparr>)"
    using assms(1) unfolding rf_inv_def by (auto simp: dec)
qed

lemma rf_available_list: "rf_inv f \<Longrightarrow> rf_available f = int (length (rf_list f))"
proof -
  assume "rf_inv f"
  then have "unat (rf_head f - rf_tail f) \<le> 512" by (simp add: rf_inv_def kRxFifoBytes_def)
  then have "uint (rf_head f - rf_tail f) < 2 ^ 31"
    by (simp add: uint_nat del: of_nat_unat)
  then have "signed_take_bit 31 (uint (rf_head f - rf_tail f)) = uint (rf_head f - rf_tail f)"
    by (intro signed_take_bit_int_eq_self) (simp_all add: order_trans [OF _ uint_ge_0])
  then show ?thesis
    by (simp add: rf_available_def rf_list_def sint_uint)
qed

interpretation rx: byte_source rf_available rf_read rf_inv rf_list
  by unfold_locales (simp_all add: rf_available_list rf_read_list)

section \<open>Two tasks\<close>

text \<open>
  The producer and the consumer interleaved.  The loop body \<open>buf_[(head_++) & (N - 1)] = data[i]\<close>
  stores a byte and advances \<open>head_\<close>, and the language leaves open which of the two other tasks see
  first; \<open>store_first\<close> says which the compiler chose.  \<open>pc_todo\<close> is what is left of the current
  write, \<open>pc_half\<close> the half of the body still to be done, \<open>pc_accepted\<close> and \<open>pc_got\<close> the bytes that
  were put into the ring and taken out of it.
\<close>

datatype half_done = Between | Stored byte | Published u32 byte

record producer_consumer =
  pc_fifo :: rx_fifo
  pc_todo :: "byte list"
  pc_half :: half_done
  pc_accepted :: "byte list"
  pc_got :: "byte list"

inductive pc_step :: "bool \<Rightarrow> producer_consumer \<Rightarrow> producer_consumer \<Rightarrow> bool" for store_first where
  call: "pc_half s = Between \<Longrightarrow> pc_todo s = [] \<Longrightarrow> pc_step store_first s (s\<lparr>pc_todo := data\<rparr>)"
| full: "pc_half s = Between \<Longrightarrow> rf_head (pc_fifo s) - rf_tail (pc_fifo s) \<ge> of_nat kRxFifoBytes \<Longrightarrow>
    pc_step store_first s (s\<lparr>pc_todo := []\<rparr>)"
| store: "store_first \<Longrightarrow> pc_half s = Between \<Longrightarrow> pc_todo s = d # data \<Longrightarrow>
    \<not> rf_head (pc_fifo s) - rf_tail (pc_fifo s) \<ge> of_nat kRxFifoBytes \<Longrightarrow>
    pc_step store_first s (s\<lparr>pc_half := Stored d, pc_todo := data, pc_fifo := (pc_fifo s)
      \<lparr>rf_buf := (rf_buf (pc_fifo s))[unat (rf_head (pc_fifo s) AND (of_nat kRxFifoBytes - 1)) := d]\<rparr>\<rparr>)"
| store_advance: "pc_half s = Stored d \<Longrightarrow>
    pc_step store_first s (s\<lparr>pc_half := Between, pc_accepted := pc_accepted s @ [d],
      pc_fifo := (pc_fifo s)\<lparr>rf_head := rf_head (pc_fifo s) + 1\<rparr>\<rparr>)"
| advance: "\<not> store_first \<Longrightarrow> pc_half s = Between \<Longrightarrow> pc_todo s = d # data \<Longrightarrow>
    \<not> rf_head (pc_fifo s) - rf_tail (pc_fifo s) \<ge> of_nat kRxFifoBytes \<Longrightarrow>
    pc_step store_first s (s\<lparr>pc_half := Published (rf_head (pc_fifo s)) d, pc_todo := data,
      pc_accepted := pc_accepted s @ [d],
      pc_fifo := (pc_fifo s)\<lparr>rf_head := rf_head (pc_fifo s) + 1\<rparr>\<rparr>)"
| advance_store: "pc_half s = Published i d \<Longrightarrow>
    pc_step store_first s (s\<lparr>pc_half := Between, pc_fifo := (pc_fifo s)
      \<lparr>rf_buf := (rf_buf (pc_fifo s))[unat (i AND (of_nat kRxFifoBytes - 1)) := d]\<rparr>\<rparr>)"
| consume: "rf_available (pc_fifo s) > 0 \<Longrightarrow> rf_read (pc_fifo s) = (c, fifo) \<Longrightarrow>
    pc_step store_first s (s\<lparr>pc_fifo := fifo, pc_got := pc_got s @ [word_of_int c]\<rparr>)"

inductive pc_reach :: "bool \<Rightarrow> producer_consumer \<Rightarrow> bool" for store_first where
  start: "length buf = kRxFifoBytes \<Longrightarrow> pc_reach store_first
    \<lparr>pc_fifo = rx_fifo_new buf, pc_todo = [], pc_half = Between, pc_accepted = [], pc_got = []\<rparr>"
| steps: "pc_reach store_first s \<Longrightarrow> pc_step store_first s s' \<Longrightarrow> pc_reach store_first s'"

definition pc_inv :: "producer_consumer \<Rightarrow> bool" where
  "pc_inv s \<longleftrightarrow> rf_inv (pc_fifo s) \<and> pc_accepted s = pc_got s @ rf_list (pc_fifo s) \<and>
     (case pc_half s of Between \<Rightarrow> True | Published i d \<Rightarrow> False
      | Stored d \<Rightarrow> length (rf_list (pc_fifo s)) < kRxFifoBytes \<and>
          rf_buf (pc_fifo s) ! rf_slot (rf_head (pc_fifo s)) = d)"

lemma pc_step_inv:
  assumes "pc_step True s s'" "pc_inv s"
  shows "pc_inv s'"
  using assms
proof cases
  case (store d data)
  have free: "length (rf_list (pc_fifo s)) < kRxFifoBytes"
    using store(5) by (simp only: rf_full_iff not_le)
  then show ?thesis
    using assms(2) rf_store_free [of "pc_fifo s" d] rf_slot_bound
    unfolding store(1) unat_and_511 by (simp add: pc_inv_def) (simp add: rf_inv_def)
next
  case (store_advance d)
  then show ?thesis
    using assms(2) rf_publish [of "pc_fifo s" d] by (simp add: pc_inv_def)
next
  case (consume c fifo)
  have inv: "rf_inv (pc_fifo s)" using assms(2) by (simp add: pc_inv_def)
  then obtain b bs where l: "rf_list (pc_fifo s) = b # bs"
    using consume(2) by (cases "rf_list (pc_fifo s)") (simp_all add: rf_available_list)
  have "c = uint b" "fifo = (pc_fifo s)\<lparr>rf_tail := rf_tail (pc_fifo s) + 1\<rparr>"
    using rf_read_list(1) [OF inv l] consume(3) by simp_all
  then show ?thesis
    using assms(2) l rf_read_list(2,3) [OF inv l] unfolding consume(1)
    by (auto simp: pc_inv_def split: half_done.splits)
qed (simp_all add: pc_inv_def)

lemma pc_reach_inv: "pc_reach True s \<Longrightarrow> pc_inv s"
proof (induction rule: pc_reach.induct)
  case (start buf)
  then show ?case by (simp add: pc_inv_def rx_fifo_new_def rf_inv_def rf_list_def)
qed (rule pc_step_inv)

text \<open>
  C17. The ring between the two tasks.  However the BLE host task and the board loop interleave, and
  also when the 32-bit indices wrap, what the board loop has read followed by what is queued is
  what the host task put in, in order, and at most 512 bytes are queued, provided a byte is stored
  before \<open>head_\<close> is seen to advance.  The language does not promise that order for the statement
  the code has: with the other one the board loop can read a byte that was never sent.
\<close>

theorem rx_fifo_interleaved:
  "(\<forall>s. pc_reach True s \<longrightarrow> pc_accepted s = pc_got s @ rf_list (pc_fifo s) \<and>
      length (rf_list (pc_fifo s)) \<le> kRxFifoBytes) \<and>
   (\<exists>s. pc_reach False s \<and> pc_accepted s = [7] \<and> pc_got s = [0])"
proof
  show "\<forall>s. pc_reach True s \<longrightarrow> pc_accepted s = pc_got s @ rf_list (pc_fifo s) \<and>
      length (rf_list (pc_fifo s)) \<le> kRxFifoBytes"
    using pc_reach_inv by (auto simp: pc_inv_def rf_inv_def rf_list_def)
next
  let ?b = "replicate kRxFifoBytes 0 :: byte list"
  let ?s0 = "\<lparr>pc_fifo = rx_fifo_new ?b, pc_todo = [], pc_half = Between, pc_accepted = [], pc_got = []\<rparr>"
  let ?s1 = "?s0\<lparr>pc_todo := [7]\<rparr>"
  let ?s2 = "?s1\<lparr>pc_half := Published 0 7, pc_todo := [], pc_accepted := [7],
    pc_fifo := \<lparr>rf_buf = ?b, rf_head = 1, rf_tail = 0\<rparr>\<rparr>"
  let ?s3 = "?s2\<lparr>pc_fifo := \<lparr>rf_buf = ?b, rf_head = 1, rf_tail = 1\<rparr>, pc_got := [0]\<rparr>"
  have "pc_reach False ?s0" by (rule pc_reach.start) simp
  moreover have "pc_step False ?s0 ?s1" by (rule pc_step.call) simp_all
  moreover have "pc_step False ?s1 ?s2"
    using pc_step.advance [of False ?s1 7 "[]"] by (simp add: rx_fifo_new_def kRxFifoBytes_def)
  moreover have "pc_step False ?s2 ?s3"
    using pc_step.consume [of ?s2 0 "\<lparr>rf_buf = ?b, rf_head = 1, rf_tail = 1\<rparr>" False]
    by (simp add: rf_available_def rf_read_def kRxFifoBytes_def)
  ultimately have "pc_reach False ?s3" by (meson pc_reach.steps)
  then show "\<exists>s. pc_reach False s \<and> pc_accepted s = [7] \<and> pc_got s = [0]"
    by (intro exI [of _ ?s3]) simp
qed

text \<open>A run of the first order: a byte is written, read, and a second one is queued.\<close>

definition pc_example :: producer_consumer where
  "pc_example = \<lparr>pc_fifo = \<lparr>rf_buf = 7 # 9 # replicate 510 0, rf_head = 2, rf_tail = 1\<rparr>, pc_todo = [],
     pc_half = Between, pc_accepted = [7, 9], pc_got = [7]\<rparr>"

lemma pc_example_reached: "pc_reach True pc_example"
proof -
  let ?b = "replicate kRxFifoBytes 0 :: byte list"
  let ?s0 = "\<lparr>pc_fifo = rx_fifo_new ?b, pc_todo = [], pc_half = Between, pc_accepted = [], pc_got = []\<rparr>"
  let ?s1 = "?s0\<lparr>pc_todo := [7, 9]\<rparr>"
  let ?s2 = "?s1\<lparr>pc_half := Stored 7, pc_todo := [9], pc_fifo := \<lparr>rf_buf = ?b[0 := 7], rf_head = 0, rf_tail = 0\<rparr>\<rparr>"
  let ?s3 = "?s2\<lparr>pc_half := Between, pc_accepted := [7], pc_fifo := \<lparr>rf_buf = ?b[0 := 7], rf_head = 1, rf_tail = 0\<rparr>\<rparr>"
  let ?s4 = "?s3\<lparr>pc_fifo := \<lparr>rf_buf = ?b[0 := 7], rf_head = 1, rf_tail = 1\<rparr>, pc_got := [7]\<rparr>"
  let ?s5 = "?s4\<lparr>pc_half := Stored 9, pc_todo := [],
    pc_fifo := \<lparr>rf_buf = ?b[0 := 7, 1 := 9], rf_head = 1, rf_tail = 1\<rparr>\<rparr>"
  have "pc_reach True ?s0" by (rule pc_reach.start) simp
  moreover have "pc_step True ?s0 ?s1" by (rule pc_step.call) simp_all
  moreover have "pc_step True ?s1 ?s2"
    using pc_step.store [of True ?s1 7 "[9]"] by (simp add: rx_fifo_new_def kRxFifoBytes_def)
  moreover have "pc_step True ?s2 ?s3" using pc_step.store_advance [of ?s2 7 True] by simp
  moreover have "pc_step True ?s3 ?s4"
    using pc_step.consume [of ?s3 7 "\<lparr>rf_buf = ?b[0 := 7], rf_head = 1, rf_tail = 1\<rparr>" True]
    by (simp add: rf_available_def rf_read_def kRxFifoBytes_def)
  moreover have "pc_step True ?s4 ?s5"
    using pc_step.store [of True ?s4 9 "[]"] by (simp add: kRxFifoBytes_def)
  moreover have "pc_step True ?s5 pc_example"
  proof -
    have "?b[0 := 7, 1 := 9] = 7 # 9 # replicate 510 0"
      by (simp add: kRxFifoBytes_def numeral_eq_Suc)
    then show ?thesis
      using pc_step.store_advance [of ?s5 9 True] by (simp add: pc_example_def)
  qed
  ultimately show ?thesis by (meson pc_reach.steps)
qed

lemma rx_fifo_interleaved_witness:
  "pc_accepted pc_example = pc_got pc_example @ rf_list (pc_fifo pc_example) \<and>
   length (rf_list (pc_fifo pc_example)) \<le> kRxFifoBytes"
  using rx_fifo_interleaved pc_example_reached by blast

end
