(* ===== verification/BleCentrals.thy ===== *)
theory BleCentrals
  imports Sessions RxFifo
begin

text \<open>
  \<open>BleSink\<close> of the ESP32 boards (\<open>src/transports.h\<close>): three connection slots, claimed and flagged
  by the callbacks of the BLE host task, registered, drained and released by \<open>pump\<close> in the board
  loop.

  A slot is a record; \<open>conns_[i]\<close> is the client \<open>central i\<close> of the processor, so its
  \<open>authenticated\<close> flag is the processor's.  The calls into NimBLE that \<open>pump\<close> and the callbacks
  make (disconnect a central, start advertising) are recorded in order.  \<open>server_\<close> and
  \<open>tx_handle\<close> of a slot are those of the one server and are not kept per slot.  The two tasks
  interleave between the slots of a \<open>pump\<close>: a step is one callback, \<open>pump\<close>'s work on one slot, or
  anything else the board loop does to the processor.
\<close>

section \<open>State\<close>

definition kMaxCentrals :: nat where "kMaxCentrals = 3"

definition central :: "nat \<Rightarrow> sink" where "central i = 1 + i"

record connection =
  cn_handle :: u16
  cn_in_use :: bool
  cn_subscribed :: bool
  cn_registered :: bool
  cn_pending_disconnect :: bool
  cn_rx :: rx_fifo
  cn_reader :: frame_reader

datatype ble_call =
    Disconnect_Central u16
  | Start_Advertising
  | Stop_Advertising
  | Set_Device_Name "byte list"
  | Set_Advertised_Name "byte list"

record ble_sink =
  bs_ready :: bool
  bs_conns :: "connection list"
  bs_proc :: command_processor
  bs_calls :: "ble_call list"

definition ble_call :: "ble_call \<Rightarrow> ble_sink \<Rightarrow> ble_sink" where
  "ble_call c b = b\<lparr>bs_calls := bs_calls b @ [c]\<rparr>"

definition set_conn :: "nat \<Rightarrow> (connection \<Rightarrow> connection) \<Rightarrow> ble_sink \<Rightarrow> ble_sink" where
  "set_conn i f b = b\<lparr>bs_conns := (bs_conns b)[i := f (bs_conns b ! i)]\<rparr>"

text \<open>
  A constructed sink; the FIFO arrays have no initialiser.  \<open>begin\<close> publishes the service, after
  which there are a processor and a server.
\<close>

definition connection_new :: "byte list \<Rightarrow> connection" where
  "connection_new buf = \<lparr>cn_handle = 0, cn_in_use = False, cn_subscribed = False, cn_registered = False,
     cn_pending_disconnect = False, cn_rx = rx_fifo_new buf, cn_reader = frame_reader_reset\<rparr>"

definition ble_sink_new :: "byte list list \<Rightarrow> command_processor \<Rightarrow> ble_sink" where
  "ble_sink_new bufs proc = \<lparr>bs_ready = False, bs_conns = map connection_new bufs, bs_proc = proc, bs_calls = []\<rparr>"

definition ble_begin :: "ble_sink \<Rightarrow> ble_sink" where
  "ble_begin b = ble_call (Set_Device_Name []) (b\<lparr>bs_ready := True\<rparr>)"

section \<open>The callbacks of the host task\<close>

definition find_conn :: "u16 \<Rightarrow> ble_sink \<Rightarrow> nat option" where
  "find_conn handle b =
     List.find (\<lambda>i. cn_in_use (bs_conns b ! i) \<and> cn_handle (bs_conns b ! i) = handle) [0..<kMaxCentrals]"

definition claim :: "u16 \<Rightarrow> ble_sink \<Rightarrow> ble_sink \<times> nat option" where
  "claim handle b =
     (case List.find (\<lambda>i. \<not> cn_in_use (bs_conns b ! i)) [0..<kMaxCentrals] of
        None \<Rightarrow> (b, None)
      | Some i \<Rightarrow>
          (let b = set_conn i (\<lambda>c. c\<lparr>cn_handle := handle, cn_in_use := True,
                 cn_pending_disconnect := False, cn_subscribed := False,
                 cn_rx := rf_clear (cn_rx c), cn_reader := frame_reader_reset\<rparr>) b
           in (b\<lparr>bs_proc := (bs_proc b)\<lparr>cp_authenticated := (cp_authenticated (bs_proc b))(central i := False)\<rparr>\<rparr>,
               Some i)))"

definition onConnect :: "u16 \<Rightarrow> ble_sink \<Rightarrow> ble_sink" where
  "onConnect handle b =
     (case claim handle b of
        (b, None) \<Rightarrow> ble_call (Disconnect_Central handle) b
      | (b, Some i) \<Rightarrow> b)"

definition onDisconnect :: "u16 \<Rightarrow> ble_sink \<Rightarrow> ble_sink" where
  "onDisconnect handle b =
     (case find_conn handle b of
        None \<Rightarrow> b
      | Some i \<Rightarrow> set_conn i (\<lambda>c. c\<lparr>cn_pending_disconnect := True\<rparr>) b)"

text \<open>\<open>desc\<close> may be NULL in the two characteristic callbacks.\<close>

definition onSubscribe :: "u16 option \<Rightarrow> u16 \<Rightarrow> ble_sink \<Rightarrow> ble_sink" where
  "onSubscribe desc sub_value b =
     (case (case desc of None \<Rightarrow> None | Some handle \<Rightarrow> find_conn handle b) of
        None \<Rightarrow> b
      | Some i \<Rightarrow> set_conn i (\<lambda>c. c\<lparr>cn_subscribed := (sub_value \<noteq> 0)\<rparr>) b)"

definition onWrite :: "u16 option \<Rightarrow> byte list \<Rightarrow> ble_sink \<Rightarrow> ble_sink" where
  "onWrite desc v b =
     (case (case desc of None \<Rightarrow> None | Some handle \<Rightarrow> find_conn handle b) of
        None \<Rightarrow> b
      | Some i \<Rightarrow> set_conn i (\<lambda>c. c\<lparr>cn_rx := rf_write v (cn_rx c)\<rparr>) b)"

section \<open>The board loop\<close>

definition set_name :: "byte list \<Rightarrow> ble_sink \<Rightarrow> ble_sink" where
  "set_name name b =
     (if \<not> bs_ready b then b
      else ble_call Start_Advertising (ble_call Stop_Advertising (ble_call (Set_Advertised_Name name)
             (ble_call (Set_Device_Name name) b))))"

definition drain_conn :: "lora_radio \<Rightarrow> nat \<Rightarrow> ble_sink \<Rightarrow> ble_sink" where
  "drain_conn lora i b =
     (let c = bs_conns b ! i;
          (reader, proc, rx) = drain_source rf_available rf_read FRAME_MAX_DRAIN_BYTES_PER_PUMP
            (\<lambda>proc env. on_envelope lora env (Some (central i)) proc) (cn_reader c) (bs_proc b) (cn_rx c)
      in (set_conn i (\<lambda>c. c\<lparr>cn_reader := reader, cn_rx := rx\<rparr>) b)\<lparr>bs_proc := proc\<rparr>)"

text \<open>
  The body of the loop of \<open>pump\<close>, for slot \<open>i\<close>: up to the drain, with whether there is one, and whole.
\<close>

definition slot_admit :: "nat \<Rightarrow> ble_sink \<Rightarrow> ble_sink \<times> bool" where
  "slot_admit i b =
     (let c = bs_conns b ! i in
      if cn_pending_disconnect c
      then let b = set_conn i (\<lambda>c. c\<lparr>cn_pending_disconnect := False\<rparr>) b;
               b = (if cn_registered c
                    then set_conn i (\<lambda>c. c\<lparr>cn_registered := False\<rparr>)
                           (b\<lparr>bs_proc := remove_sink (central i) (bs_proc b)\<rparr>)
                    else b);
               b = set_conn i (\<lambda>c. c\<lparr>cn_rx := rf_clear (cn_rx c), cn_reader := frame_reader_reset,
                     cn_in_use := False\<rparr>) b
           in (if bs_ready b then ble_call Start_Advertising b else b, False)
      else if \<not> cn_in_use c then (b, False)
      else if cn_registered c then (b, True)
      else (case add_sink (central i) (bs_proc b) of
              (proc, False) \<Rightarrow>
                (set_conn i (\<lambda>c. c\<lparr>cn_pending_disconnect := True\<rparr>)
                   (ble_call (Disconnect_Central (cn_handle c)) b), False)
            | (proc, True) \<Rightarrow>
                (ble_call Start_Advertising (set_conn i (\<lambda>c. c\<lparr>cn_registered := True\<rparr>) (b\<lparr>bs_proc := proc\<rparr>)), True)))"

definition pump_slot :: "lora_radio \<Rightarrow> nat \<Rightarrow> ble_sink \<Rightarrow> ble_sink" where
  "pump_slot lora i b = (let (b, drain) = slot_admit i b in if drain then drain_conn lora i b else b)"

lemma pump_slot_cases:
  "pump_slot lora i b =
     (let c = bs_conns b ! i in
      if cn_pending_disconnect c
      then let b = set_conn i (\<lambda>c. c\<lparr>cn_pending_disconnect := False\<rparr>) b;
               b = (if cn_registered c
                    then set_conn i (\<lambda>c. c\<lparr>cn_registered := False\<rparr>)
                           (b\<lparr>bs_proc := remove_sink (central i) (bs_proc b)\<rparr>)
                    else b);
               b = set_conn i (\<lambda>c. c\<lparr>cn_rx := rf_clear (cn_rx c), cn_reader := frame_reader_reset,
                     cn_in_use := False\<rparr>) b
           in if bs_ready b then ble_call Start_Advertising b else b
      else if \<not> cn_in_use c then b
      else if cn_registered c then drain_conn lora i b
      else (case add_sink (central i) (bs_proc b) of
              (proc, False) \<Rightarrow>
                set_conn i (\<lambda>c. c\<lparr>cn_pending_disconnect := True\<rparr>)
                  (ble_call (Disconnect_Central (cn_handle c)) b)
            | (proc, True) \<Rightarrow>
                drain_conn lora i (ble_call Start_Advertising
                  (set_conn i (\<lambda>c. c\<lparr>cn_registered := True\<rparr>) (b\<lparr>bs_proc := proc\<rparr>)))))"
  by (simp add: pump_slot_def slot_admit_def Let_def split: prod.split bool.split)

definition ble_pump :: "lora_radio \<Rightarrow> ble_sink \<Rightarrow> ble_sink" where
  "ble_pump lora b = (if \<not> bs_ready b then b else fold (pump_slot lora) [0..<kMaxCentrals] b)"

definition ble_clients :: "ble_sink \<Rightarrow> u8" where
  "ble_clients b = of_nat (length (filter cn_in_use (bs_conns b)))"

section \<open>Sending to one central\<close>

text \<open>
  What \<open>Connection::send_frame\<close> asks of the host: the negotiated MTU, a buffer for a chunk (which
  may not be had), the notification itself with its result code, and a millisecond of waiting.
\<close>

record 'l host_api =
  ha_peer_mtu :: "'l \<Rightarrow> u16 \<Rightarrow> u16"
  ha_from_flat :: "byte list \<Rightarrow> 'l \<Rightarrow> bool \<times> 'l"
  ha_notify :: "u16 \<Rightarrow> byte list \<Rightarrow> 'l \<Rightarrow> int \<times> 'l"
  ha_delay :: "'l \<Rightarrow> 'l"
  ha_enomem :: int

definition kNotifyWaitMs :: nat where "kNotifyWaitMs = 50"

text \<open>\<open>notify_chunk\<close>; the first argument counts the rounds of its loop that are left.\<close>

fun notify_rounds :: "nat \<Rightarrow> 'l host_api \<Rightarrow> u16 \<Rightarrow> byte list \<Rightarrow> 'l \<Rightarrow> bool \<times> 'l" where
  "notify_rounds 0 ha handle bytes l = (False, l)"
| "notify_rounds (Suc n) ha handle bytes l =
     (let (om, l) = ha_from_flat ha bytes l;
          (rc, l) = (if om then ha_notify ha handle bytes l else (ha_enomem ha, l))
      in if rc = 0 then (True, l)
         else if rc \<noteq> ha_enomem ha then (False, l)
         else notify_rounds n ha handle bytes (ha_delay ha l))"

definition notify_chunk :: "'l host_api \<Rightarrow> u16 \<Rightarrow> byte list \<Rightarrow> 'l \<Rightarrow> bool \<times> 'l" where
  "notify_chunk ha handle bytes l = notify_rounds (kNotifyWaitMs + 1) ha handle bytes l"

definition max_chunk :: "u16 \<Rightarrow> nat" where
  "max_chunk mtu = (if mtu > 23 then unat mtu - 3 else 20)"

lemma max_chunk_pos: "20 \<le> max_chunk mtu"
  by (simp add: max_chunk_def word_less_nat_alt) arith

function send_chunks :: "'l host_api \<Rightarrow> u16 \<Rightarrow> u16 \<Rightarrow> byte list \<Rightarrow> nat \<Rightarrow> 'l \<Rightarrow> 'l" where
  "send_chunks ha handle mtu bytes off l =
     (if off < length bytes
      then let chunk = (if length bytes - off < max_chunk mtu then length bytes - off else max_chunk mtu);
               (ok, l) = notify_chunk ha handle (take chunk (drop off bytes)) l
           in if \<not> ok then l else send_chunks ha handle mtu bytes (off + chunk) l
      else l)"
  by pat_completeness auto
termination
proof (relation "measure (\<lambda>(ha, handle, mtu, bytes, off, l). length bytes - off)")
  fix ha :: "'l host_api" and handle mtu :: u16 and bytes :: "byte list" and off :: nat and l :: 'l
    and chunk and x and ok and l'
  assume "off < length bytes" "chunk = (if length bytes - off < max_chunk mtu then length bytes - off else max_chunk mtu)"
  then show "((ha, handle, mtu, bytes, off + chunk, l'), ha, handle, mtu, bytes, off, l)
      \<in> measure (\<lambda>(ha, handle, mtu, bytes, off, l). length bytes - off)"
    using max_chunk_pos [of mtu] by (auto split: if_splits)
qed simp

declare send_chunks.simps [simp del]

definition conn_send_frame :: "'l host_api \<Rightarrow> connection \<Rightarrow> byte list \<Rightarrow> 'l \<Rightarrow> 'l" where
  "conn_send_frame ha c decoded l =
     (if \<not> cn_subscribed c then l
      else send_chunks ha (cn_handle c) (ha_peer_mtu ha l (cn_handle c)) (frame_encode_envelope decoded) 0 l)"

end
