(* ===== verification/BleSessions.thy ===== *)
theory BleSessions
  imports BleCentrals
begin

text \<open>
  The connection slots as a state machine: the callbacks of the host task and the board loop
  interleaved, the links that are up, and the invariant that ties slots, client registry, sessions
  and links together.
\<close>

section \<open>Steps\<close>

datatype ble_event =
    Link_Up u16
  | Link_Down u16
  | Subscribe u16 u16
  | Write u16 "byte list"
  | Pump lora_radio nat
  | Rename "byte list"
  | Core input

record ble_world =
  bw_ble :: ble_sink
  bw_links :: "u16 set"

text \<open>What else the board loop does to the processor never names a central of this transport.\<close>

definition is_central :: "sink \<Rightarrow> bool" where
  "is_central k \<longleftrightarrow> 1 \<le> k \<and> k \<le> kMaxCentrals"

fun foreign :: "input \<Rightarrow> bool" where
  "foreign (Envelope lora data k) = (\<not> is_central k)"
| "foreign (Attach k) = (\<not> is_central k)"
| "foreign (Detach k) = (\<not> is_central k)"
| "foreign (Session_End k) = (\<not> is_central k)"
| "foreign _ = True"

text \<open>
  A connection handle names one link at a time: the controller gives a new link a handle that no
  link has, and reports only what happens on links that are up.
\<close>

fun ble_possible :: "ble_event \<Rightarrow> ble_world \<Rightarrow> bool" where
  "ble_possible (Link_Up h) w = (h \<notin> bw_links w)"
| "ble_possible (Link_Down h) w = (h \<in> bw_links w)"
| "ble_possible (Subscribe h v) w = (h \<in> bw_links w)"
| "ble_possible (Write h v) w = (h \<in> bw_links w)"
| "ble_possible (Pump lora i) w = (i < kMaxCentrals)"
| "ble_possible (Rename name) w = True"
| "ble_possible (Core i) w = foreign i"

fun ble_on :: "ble_event \<Rightarrow> ble_world \<Rightarrow> ble_world" where
  "ble_on (Link_Up h) w = w\<lparr>bw_ble := onConnect h (bw_ble w), bw_links := insert h (bw_links w)\<rparr>"
| "ble_on (Link_Down h) w = w\<lparr>bw_ble := onDisconnect h (bw_ble w), bw_links := bw_links w - {h}\<rparr>"
| "ble_on (Subscribe h v) w = w\<lparr>bw_ble := onSubscribe (Some h) v (bw_ble w)\<rparr>"
| "ble_on (Write h v) w = w\<lparr>bw_ble := onWrite (Some h) v (bw_ble w)\<rparr>"
| "ble_on (Pump lora i) w = w\<lparr>bw_ble := pump_slot lora i (bw_ble w)\<rparr>"
| "ble_on (Rename name) w = w\<lparr>bw_ble := set_name name (bw_ble w)\<rparr>"
| "ble_on (Core i) w = w\<lparr>bw_ble := (bw_ble w)\<lparr>bs_proc := on_input i (bs_proc (bw_ble w))\<rparr>\<rparr>"

inductive ble_step :: "ble_world \<Rightarrow> ble_world \<Rightarrow> bool" where
  "ble_possible e w \<Longrightarrow> ble_step w (ble_on e w)"

inductive ble_reachable :: "ble_world \<Rightarrow> bool" where
  begun: "length bufs = kMaxCentrals \<Longrightarrow> \<forall>buf \<in> set bufs. length buf = kRxFifoBytes \<Longrightarrow>
    \<forall>i < kMaxCentrals. central i \<notin> set (cp_sinks proc) \<Longrightarrow>
    ble_reachable \<lparr>bw_ble = ble_begin (ble_sink_new bufs proc), bw_links = {}\<rparr>"
| stepped: "ble_reachable w \<Longrightarrow> ble_step w w' \<Longrightarrow> ble_reachable w'"

section \<open>The invariant of a slot\<close>

definition idle_conn :: "connection \<Rightarrow> bool \<Rightarrow> bool" where
  "idle_conn c auth \<longleftrightarrow> rf_list (cn_rx c) = [] \<and> cn_reader c = frame_reader_reset \<and> \<not> auth"

definition slot_ok :: "ble_sink \<Rightarrow> u16 set \<Rightarrow> nat \<Rightarrow> bool" where
  "slot_ok b links i \<longleftrightarrow> (let c = bs_conns b ! i in
     rf_inv (cn_rx c) \<and> (cn_registered c \<longrightarrow> cn_in_use c) \<and>
     count_list (cp_sinks (bs_proc b)) (central i) = of_bool (cn_registered c) \<and>
     (cn_in_use c \<and> \<not> cn_pending_disconnect c \<longrightarrow>
        idle_conn c (cp_authenticated (bs_proc b) (central i)) \<or>
        cn_handle c \<in> links \<and> find_conn (cn_handle c) b = Some i))"

definition ble_inv :: "ble_world \<Rightarrow> bool" where
  "ble_inv w \<longleftrightarrow> length (bs_conns (bw_ble w)) = kMaxCentrals \<and> bs_ready (bw_ble w) \<and>
     (\<forall>i < kMaxCentrals. slot_ok (bw_ble w) (bw_links w) i)"

subsection \<open>Finding slots\<close>

definition serves :: "ble_sink \<Rightarrow> u16 \<Rightarrow> nat \<Rightarrow> bool" where
  "serves b h i \<longleftrightarrow> cn_in_use (bs_conns b ! i) \<and> cn_handle (bs_conns b ! i) = h"

lemma find_conn_Some: "find_conn h b = Some i \<longleftrightarrow> i < kMaxCentrals \<and> serves b h i \<and> (\<forall>j < i. \<not> serves b h j)"
  by (auto simp: find_conn_def find_Some_iff serves_def)

lemma find_conn_None: "find_conn h b = None \<longleftrightarrow> (\<forall>i < kMaxCentrals. \<not> serves b h i)"
  by (auto simp: find_conn_def find_None_iff serves_def)

lemma count_remove1: "count_list (remove1 x xs) y = count_list xs y - of_bool (x = y)"
  by (induction xs) (auto simp: count_list_0_iff Suc_diff_le dest: count_notin)

lemma count_list_append [simp]: "count_list (xs @ ys) y = count_list xs y + count_list ys y"
  by (induction xs) auto

lemma find_conn_cong: "(\<And>i. i < kMaxCentrals \<Longrightarrow> serves b' h i = serves b h i) \<Longrightarrow> find_conn h b' = find_conn h b"
  unfolding find_conn_def serves_def by (rule find_cong) simp_all

lemma central_inj [simp]: "central i = central j \<longleftrightarrow> i = j" "is_central (central i) \<longleftrightarrow> i < kMaxCentrals"
  by (auto simp: central_def is_central_def)

lemma set_conn_simps [simp]:
  "length (bs_conns (set_conn i f b)) = length (bs_conns b)" "bs_proc (set_conn i f b) = bs_proc b"
  "bs_ready (set_conn i f b) = bs_ready b" "i \<noteq> j \<Longrightarrow> bs_conns (set_conn i f b) ! j = bs_conns b ! j"
  "i < length (bs_conns b) \<Longrightarrow> bs_conns (set_conn i f b) ! i = f (bs_conns b ! i)"
  by (simp_all add: set_conn_def)

lemma ble_call_simps [simp]:
  "bs_conns (ble_call c b) = bs_conns b" "bs_proc (ble_call c b) = bs_proc b" "bs_ready (ble_call c b) = bs_ready b"
  "find_conn h (ble_call c b) = find_conn h b" "slot_ok (ble_call c b) links i = slot_ok b links i"
  by (simp_all add: ble_call_def find_conn_def slot_ok_def)

lemma find_conn_proc [simp]: "find_conn h (b\<lparr>bs_proc := p\<rparr>) = find_conn h b"
  by (simp add: find_conn_def)

text \<open>What a slot needs of a step that does not touch it.\<close>

lemma slot_ok_frame:
  assumes "slot_ok b links j" "bs_conns b' ! j = bs_conns b ! j"
    and "count_list (cp_sinks (bs_proc b')) (central j) = count_list (cp_sinks (bs_proc b)) (central j)"
    and "cp_authenticated (bs_proc b') (central j) \<longrightarrow> cp_authenticated (bs_proc b) (central j)"
    and "\<And>h. h = cn_handle (bs_conns b ! j) \<Longrightarrow> cn_in_use (bs_conns b ! j) \<Longrightarrow> \<not> cn_pending_disconnect (bs_conns b ! j) \<Longrightarrow>
      h \<in> links \<Longrightarrow> find_conn h b = Some j \<Longrightarrow> h \<in> links' \<and> find_conn h b' = Some j"
  shows "slot_ok b' links' j"
  using assms by (auto simp: slot_ok_def idle_conn_def Let_def)

lemma find_set_conn:
  assumes "\<And>c. cn_in_use (f c) = cn_in_use c" "\<And>c. cn_handle (f c) = cn_handle c" "length (bs_conns b) = kMaxCentrals"
  shows "find_conn h (set_conn i f b) = find_conn h b"
proof (rule find_conn_cong)
  fix j assume "j < kMaxCentrals"
  then show "serves (set_conn i f b) h j = serves b h j"
    using assms by (cases "i = j") (simp_all add: serves_def)
qed

text \<open>A step that changes slot \<open>i\<close> only, and neither whether it is in use nor its handle.\<close>

lemma slots_ok_set:
  assumes "\<forall>j < kMaxCentrals. slot_ok b links j" "length (bs_conns b) = kMaxCentrals" "i < kMaxCentrals"
    and "\<And>c. cn_in_use (f c) = cn_in_use c" "\<And>c. cn_handle (f c) = cn_handle c"
    and "slot_ok b links i \<Longrightarrow> slot_ok (set_conn i f b) links i"
  shows "\<forall>j < kMaxCentrals. slot_ok (set_conn i f b) links j"
proof (intro allI impI)
  fix j assume j: "j < kMaxCentrals"
  show "slot_ok (set_conn i f b) links j"
  proof (cases "j = i")
    case False
    show ?thesis
      by (rule slot_ok_frame [of b links]) (use assms j False find_set_conn [of f b, OF assms(4,5,2)] in auto)
  qed (use assms in blast)
qed

subsection \<open>The callbacks\<close>

lemma claim_None: "claim h b = (b', None) \<Longrightarrow> b' = b"
  by (auto simp: claim_def Let_def split: option.splits)

lemma claim_Some:
  assumes "claim h b = (b', Some i)"
  shows "i < kMaxCentrals" "\<not> cn_in_use (bs_conns b ! i)"
    "b' = (set_conn i (\<lambda>c. c\<lparr>cn_handle := h, cn_in_use := True, cn_pending_disconnect := False,
             cn_subscribed := False, cn_rx := rf_clear (cn_rx c), cn_reader := frame_reader_reset\<rparr>) b)
           \<lparr>bs_proc := (bs_proc b)\<lparr>cp_authenticated := (cp_authenticated (bs_proc b))(central i := False)\<rparr>\<rparr>"
  using assms by (auto simp: claim_def Let_def find_Some_iff split: option.splits)

lemma rf_clear_ok: "rf_inv f \<Longrightarrow> rf_inv (rf_clear f)" "rf_list (rf_clear f) = []"
  by (simp_all add: rf_clear_def rf_inv_def rf_list_def)

lemma claim_inv:
  assumes "claim h b = (b', Some i)" "h \<notin> links" "length (bs_conns b) = kMaxCentrals"
    and "\<forall>j < kMaxCentrals. slot_ok b links j"
  shows "\<forall>j < kMaxCentrals. slot_ok b' (insert h links) j"
proof (intro allI impI)
  fix j assume j: "j < kMaxCentrals"
  note cl = claim_Some [OF assms(1)]
  show "slot_ok b' (insert h links) j"
  proof (cases "j = i")
    case True
    then show ?thesis
      using assms(4) cl(1,2) assms(3) unfolding cl(3)
      by (auto simp: slot_ok_def idle_conn_def rf_clear_ok Let_def)
  next
    case False
    have others: "find_conn h' b' = find_conn h' b" if "h' \<in> links" for h'
    proof (rule find_conn_cong)
      fix k assume "k < kMaxCentrals"
      then show "serves b' h' k = serves b h' k"
        using that assms(2,3) cl(1,2) unfolding cl(3) by (cases "k = i") (auto simp: serves_def)
    qed
    show ?thesis
      by (rule slot_ok_frame [of b links]) (use assms(4) j False others cl(3) in auto)
  qed
qed

lemma disconnect_inv:
  assumes "length (bs_conns b) = kMaxCentrals" "\<forall>j < kMaxCentrals. slot_ok b links j"
  shows "\<forall>j < kMaxCentrals. slot_ok (onDisconnect h b) (links - {h}) j"
proof (intro allI impI)
  fix j assume j: "j < kMaxCentrals"
  let ?f = "\<lambda>c. c\<lparr>cn_pending_disconnect := True\<rparr>"
  have same: "find_conn h' (set_conn i ?f b) = find_conn h' b" for h' i
    by (rule find_set_conn) (simp_all add: assms(1))
  show "slot_ok (onDisconnect h b) (links - {h}) j"
  proof (cases "find_conn h b = Some j")
    case True
    then show ?thesis
      using assms j by (simp add: onDisconnect_def slot_ok_def Let_def)
  next
    case False
    have "slot_ok b links j" "find_conn h' (onDisconnect h b) = find_conn h' b"
      "bs_proc (onDisconnect h b) = bs_proc b" "bs_conns (onDisconnect h b) ! j = bs_conns b ! j" for h'
      using assms(2) j same False by (auto simp: onDisconnect_def split: option.split)
    then show ?thesis
      using False by (intro slot_ok_frame [of b links j "onDisconnect h b" "links - {h}"]) auto
  qed
qed

lemma subscribe_inv:
  assumes "length (bs_conns b) = kMaxCentrals" "\<forall>j < kMaxCentrals. slot_ok b links j"
  shows "\<forall>j < kMaxCentrals. slot_ok (onSubscribe (Some h) v b) links j"
proof (cases "find_conn h b")
  case (Some i)
  then have i: "i < kMaxCentrals" by (simp add: find_conn_Some)
  have "\<forall>j < kMaxCentrals. slot_ok (set_conn i (\<lambda>c. c\<lparr>cn_subscribed := (v \<noteq> 0)\<rparr>) b) links j"
    by (rule slots_ok_set [OF assms(2,1) i])
       (use assms(1) i in \<open>simp_all add: slot_ok_def Let_def idle_conn_def find_set_conn\<close>)
  then show ?thesis by (simp add: onSubscribe_def Some)
qed (simp add: onSubscribe_def assms(2))

lemma write_inv:
  assumes "length (bs_conns b) = kMaxCentrals" "\<forall>j < kMaxCentrals. slot_ok b links j" "h \<in> links"
  shows "\<forall>j < kMaxCentrals. slot_ok (onWrite (Some h) v b) links j"
proof (cases "find_conn h b")
  case (Some i)
  then have i: "i < kMaxCentrals" "cn_handle (bs_conns b ! i) = h" by (simp_all add: find_conn_Some serves_def)
  have "\<forall>j < kMaxCentrals. slot_ok (set_conn i (\<lambda>c. c\<lparr>cn_rx := rf_write v (cn_rx c)\<rparr>) b) links j"
    by (rule slots_ok_set [OF assms(2,1) i(1)])
       (use assms(1,3) i Some rf_write_list in \<open>simp_all add: slot_ok_def Let_def find_set_conn\<close>)
  then show ?thesis by (simp add: onWrite_def Some)
qed (simp add: onWrite_def assms(2))

subsection \<open>The board loop\<close>

lemma drain_conn_effect:
  assumes "rf_inv (cn_rx (bs_conns b ! i))"
  shows "\<exists>reader rx proc. drain_conn lora i b = (set_conn i (\<lambda>c. c\<lparr>cn_reader := reader, cn_rx := rx\<rparr>) b)\<lparr>bs_proc := proc\<rparr> \<and>
    rf_inv rx \<and> sessions_kept (central i) (bs_proc b) proc \<and>
    (idle_conn (bs_conns b ! i) a \<longrightarrow> rf_list rx = [] \<and> reader = frame_reader_reset \<and> proc = bs_proc b)"
proof -
  let ?f = "\<lambda>proc env. on_envelope lora env (Some (central i)) proc"
  let ?c = "bs_conns b ! i"
  let ?d = "drain_loop FRAME_MAX_DRAIN_BYTES_PER_PUMP ?f (cn_reader ?c) (bs_proc b) (rf_list (cn_rx ?c))"
  obtain rx where rx: "drain_source rf_available rf_read FRAME_MAX_DRAIN_BYTES_PER_PUMP ?f (cn_reader ?c) (bs_proc b) (cn_rx ?c)
      = (fst ?d, fst (snd ?d), rx)" "rf_inv rx" "rf_list rx = snd (snd ?d)"
    using rx.drain_contents [OF assms, of FRAME_MAX_DRAIN_BYTES_PER_PUMP ?f "cn_reader ?c" "bs_proc b"] by blast
  have kept: "sessions_kept (central i) (bs_proc b) (fst (snd ?d))"
    by (rule drain_loop_keeps) (simp_all add: kept_trans [OF _ kept_envelope])
  have idle: "?d = (frame_reader_reset, bs_proc b, [])" if "idle_conn ?c a"
    using that by (simp add: idle_conn_def)
  show ?thesis
    using rx(2,3) kept idle
    by (intro exI [of _ "fst ?d"] exI [of _ rx] exI [of _ "fst (snd ?d)"])
       (simp only: drain_conn_def rx(1) Let_def prod.case, auto)
qed

lemma find_set_reader: "length (bs_conns b) = kMaxCentrals \<Longrightarrow>
    find_conn h (set_conn i (\<lambda>c. c\<lparr>cn_reader := r, cn_rx := x\<rparr>) b) = find_conn h b"
  by (rule find_set_conn) simp_all

lemma slot_ok_proc:
  assumes "slot_ok b links j" "sessions_kept k (bs_proc b) p" "central j \<noteq> k"
  shows "slot_ok (b\<lparr>bs_proc := p\<rparr>) links j"
  by (rule slot_ok_frame [OF assms(1)]) (use assms(2,3) in \<open>auto simp: sessions_kept_def\<close>)

lemma drain_conn_inv:
  assumes "length (bs_conns b) = kMaxCentrals" "\<forall>j < kMaxCentrals. slot_ok b links j" "i < kMaxCentrals"
    and "\<not> cn_pending_disconnect (bs_conns b ! i)" "cn_in_use (bs_conns b ! i)"
  shows "\<forall>j < kMaxCentrals. slot_ok (drain_conn lora i b) links j"
proof -
  let ?a = "cp_authenticated (bs_proc b) (central i)"
  have inv: "rf_inv (cn_rx (bs_conns b ! i))" using assms(2,3) by (auto simp: slot_ok_def Let_def)
  obtain reader rx proc where d:
    "drain_conn lora i b = (set_conn i (\<lambda>c. c\<lparr>cn_reader := reader, cn_rx := rx\<rparr>) b)\<lparr>bs_proc := proc\<rparr>"
    "rf_inv rx" "sessions_kept (central i) (bs_proc b) proc"
    "idle_conn (bs_conns b ! i) ?a \<longrightarrow> rf_list rx = [] \<and> reader = frame_reader_reset \<and> proc = bs_proc b"
    using drain_conn_effect [OF inv, where a = "?a" and lora = lora] by blast
  show ?thesis
  proof (intro allI impI)
    fix j assume j: "j < kMaxCentrals"
    show "slot_ok (drain_conn lora i b) links j"
    proof (cases "j = i")
      case True
      have "slot_ok b links i" using assms(2,3) by blast
      then show ?thesis
        using True d assms(1,3-5) by (auto simp: slot_ok_def Let_def idle_conn_def sessions_kept_def find_set_reader)
    next
      case False
      have "slot_ok b links j" using assms(2) j by blast
      then show ?thesis
        unfolding d(1)
        by (rule slot_ok_frame) (use d(3) False in \<open>auto simp: sessions_kept_def find_set_reader assms(1)\<close>)
    qed
  qed
qed

lemma release_inv:
  assumes "length (bs_conns b) = kMaxCentrals" "\<forall>j < kMaxCentrals. slot_ok b links j" "i < kMaxCentrals"
    and "cn_pending_disconnect (bs_conns b ! i)"
  shows "\<forall>j < kMaxCentrals. slot_ok (pump_slot lora i b) links j"
proof -
  let ?c = "bs_conns b ! i"
  define b' where "b' = pump_slot lora i b"
  have unreg: "(?c\<lparr>cn_pending_disconnect := False, cn_registered := False, cn_rx := rx, cn_reader := r, cn_in_use := False\<rparr>)
      = ?c\<lparr>cn_pending_disconnect := False, cn_rx := rx, cn_reader := r, cn_in_use := False\<rparr>"
    if "\<not> cn_registered ?c" for rx r
    using that by (cases ?c) simp
  have b': "bs_conns b' = (bs_conns b)[i := ?c\<lparr>cn_pending_disconnect := False, cn_registered := False,
        cn_rx := rf_clear (cn_rx ?c), cn_reader := frame_reader_reset, cn_in_use := False\<rparr>]"
      "bs_proc b' = (if cn_registered ?c then remove_sink (central i) (bs_proc b) else bs_proc b)"
    using assms(1,3,4) by (auto simp: b'_def pump_slot_cases Let_def set_conn_def unreg)
  have find: "find_conn h b' = Some j" if "find_conn h b = Some j" "j \<noteq> i" for h j
    using that assms(1,3) by (auto simp: find_conn_Some serves_def b' nth_list_update)
  show ?thesis
  proof (intro allI impI)
    fix j assume j: "j < kMaxCentrals"
    show "slot_ok (pump_slot lora i b) links j"
    proof (cases "j = i")
      case True
      have "slot_ok b links i" using assms(2,3) by blast
      then show ?thesis
        unfolding True b'_def [symmetric] using assms(1,3)
        by (auto simp: slot_ok_def Let_def b' remove_sink_def count_remove1 rf_clear_ok)
    next
      case False
      have ok: "slot_ok b links j" using assms(2) j by blast
      show ?thesis
        unfolding b'_def [symmetric]
        by (rule slot_ok_frame [OF ok]) (use False find in \<open>auto simp: b' remove_sink_def count_remove1\<close>)
    qed
  qed
qed

lemma slot_admit_fields [simp]:
  "length (bs_conns (fst (slot_admit i b))) = length (bs_conns b)" "bs_ready (fst (slot_admit i b)) = bs_ready b"
  by (simp_all add: slot_admit_def Let_def split: prod.split bool.split)

lemma admitted_conn:
  assumes "snd (slot_admit i b)" "i < length (bs_conns b)"
  shows "cn_in_use (bs_conns (fst (slot_admit i b)) ! i)" "cn_registered (bs_conns (fst (slot_admit i b)) ! i)"
    "\<not> cn_pending_disconnect (bs_conns (fst (slot_admit i b)) ! i)"
  using assms by (auto simp: slot_admit_def Let_def split: prod.splits bool.splits if_splits)

lemma slot_admit_inv:
  assumes "length (bs_conns b) = kMaxCentrals" "\<forall>j < kMaxCentrals. slot_ok b links j" "i < kMaxCentrals"
  shows "\<forall>j < kMaxCentrals. slot_ok (fst (slot_admit i b)) links j"
proof (cases "cn_pending_disconnect (bs_conns b ! i)")
  case True
  then have "fst (slot_admit i b) = pump_slot lora i b" for lora by (simp add: pump_slot_def slot_admit_def Let_def)
  then show ?thesis using release_inv [OF assms True] by simp
next
  case False
  show ?thesis
  proof (cases "cn_in_use (bs_conns b ! i) \<and> \<not> cn_registered (bs_conns b ! i)")
    case new: True
    obtain q ok where add: "add_sink (central i) (bs_proc b) = (q, ok)" by (metis surj_pair)
    show ?thesis
    proof (cases ok)
      case True
      let ?b = "set_conn i (\<lambda>c. c\<lparr>cn_registered := True\<rparr>) (b\<lparr>bs_proc := q\<rparr>)"
      have p: "cp_sinks q = cp_sinks (bs_proc b) @ [central i]" "cp_authenticated q = cp_authenticated (bs_proc b)"
        using add True by (auto simp: add_sink_def split: if_splits)
      have same: "find_conn h ?b = find_conn h b" for h
        using find_set_conn [of "\<lambda>c. c\<lparr>cn_registered := True\<rparr>" "b\<lparr>bs_proc := q\<rparr>"] assms(1) by simp
      have "slot_ok ?b links j" if j: "j < kMaxCentrals" for j
      proof (cases "j = i")
        case True
        have "slot_ok b links i" using assms(2,3) by blast
        then show ?thesis
          using True assms(1,3) new same by (auto simp: slot_ok_def Let_def idle_conn_def p)
      next
        case False
        have ok: "slot_ok b links j" using assms(2) j by blast
        show ?thesis
          by (rule slot_ok_frame [OF ok]) (use False same p in auto)
      qed
      then show ?thesis using False new True by (simp add: slot_admit_def Let_def add)
    next
      case full: False
      let ?b = "ble_call (Disconnect_Central (cn_handle (bs_conns b ! i))) b"
      have "\<forall>j < kMaxCentrals. slot_ok (set_conn i (\<lambda>c. c\<lparr>cn_pending_disconnect := True\<rparr>) ?b) links j"
        by (rule slots_ok_set) (use assms in \<open>simp_all add: slot_ok_def Let_def\<close>)
      then show ?thesis using False new full by (simp add: slot_admit_def Let_def add)
    qed
  next
    case inactive: False
    then have "fst (slot_admit i b) = b" using False by (auto simp: slot_admit_def Let_def)
    then show ?thesis using assms(2) by simp
  qed
qed

lemma pump_slot_inv:
  assumes "length (bs_conns b) = kMaxCentrals" "\<forall>j < kMaxCentrals. slot_ok b links j" "i < kMaxCentrals"
  shows "\<forall>j < kMaxCentrals. slot_ok (pump_slot lora i b) links j"
proof (cases "snd (slot_admit i b)")
  case True
  have "\<forall>j < kMaxCentrals. slot_ok (drain_conn lora i (fst (slot_admit i b))) links j"
    by (rule drain_conn_inv) (use assms slot_admit_inv [OF assms] admitted_conn [OF True] in simp_all)
  then show ?thesis using True by (simp add: pump_slot_def split_def)
next
  case False
  then show ?thesis using slot_admit_inv [OF assms] by (simp add: pump_slot_def split_def)
qed

lemma core_input_inv:
  assumes "slot_ok b links j" "foreign i" "j < kMaxCentrals"
  shows "slot_ok (b\<lparr>bs_proc := on_input i (bs_proc b)\<rparr>) links j"
proof -
  let ?s = "bs_proc b"
  have other: "k \<noteq> central j" if "\<not> is_central k" for k using that assms(3) by auto
  have "count_list (cp_sinks (on_input i ?s)) (central j) = count_list (cp_sinks ?s) (central j) \<and>
      (cp_authenticated (on_input i ?s) (central j) \<longrightarrow> cp_authenticated ?s (central j))"
  proof (cases i)
    case (Envelope lora data k)
    then show ?thesis using kept_envelope [of k ?s lora data] assms(2) other by (auto simp: sessions_kept_def)
  next
    case (Received rssi snr raw)
    then show ?thesis using kept_received [of kMaxSinks ?s rssi snr raw] kept_received [of 0 ?s rssi snr raw]
      by (auto simp: sessions_kept_def kMaxSinks_def central_def)
  next
    case (Poll lora now)
    then show ?thesis using kept_poll [of 0 ?s lora now] by (auto simp: sessions_kept_def central_def)
  next
    case (Tx_Result seq ok)
    then show ?thesis using kept_tx_result [of 0 ?s seq ok ?s] by (auto simp: sessions_kept_def central_def)
  next
    case Wifi_Changed
    then show ?thesis using kept_wifi [of 0 ?s] by (auto simp: sessions_kept_def central_def)
  qed (use assms(2) other in \<open>auto simp: add_sink_def remove_sink_def count_remove1\<close>)
  then show ?thesis
    by (intro slot_ok_frame [OF assms(1)]) auto
qed

lemma ble_step_inv:
  assumes "ble_step w w'" "ble_inv w"
  shows "ble_inv w'"
proof -
  let ?b = "bw_ble w" and ?links = "bw_links w"
  have len: "length (bs_conns ?b) = kMaxCentrals" and ok: "\<forall>j < kMaxCentrals. slot_ok ?b ?links j" and ready: "bs_ready ?b"
    using assms(2) by (auto simp: ble_inv_def)
  obtain e where e: "ble_possible e w" "w' = ble_on e w" using assms(1) by (auto elim: ble_step.cases)
  show ?thesis
  proof (cases e)
    case (Link_Up h)
    show ?thesis
    proof (cases "claim h ?b")
      case (Pair b' slot)
      show ?thesis
      proof (cases slot)
        case None
        have "slot_ok ?b (insert h ?links) j" if "j < kMaxCentrals" for j
          by (rule slot_ok_frame [of ?b ?links]) (use ok that in auto)
        moreover have "b' = ?b" using claim_None Pair None by simp
        ultimately show ?thesis
          using Pair None len ready by (simp add: e Link_Up ble_inv_def onConnect_def)
      next
        case (Some i)
        then show ?thesis
          using claim_inv [of h ?b b' i ?links] Pair e(1) Link_Up len ok ready claim_Some(3) [of h ?b b' i]
          by (simp add: e(2) ble_inv_def onConnect_def)
      qed
    qed
  next
    case (Link_Down h)
    then show ?thesis
      using disconnect_inv [OF len ok, of h] len ready
      by (simp add: e ble_inv_def) (simp add: onDisconnect_def split: option.split)
  next
    case (Subscribe h v)
    then show ?thesis
      using subscribe_inv [OF len ok, of h v] len ready
      by (simp add: e ble_inv_def) (simp add: onSubscribe_def split: option.split)
  next
    case (Write h v)
    then show ?thesis
      using write_inv [OF len ok, of h v] len ready e(1)
      by (simp add: e(2) ble_inv_def) (simp add: onWrite_def split: option.split)
  next
    case (Pump lora i)
    have "length (bs_conns (drain_conn lora i b)) = length (bs_conns b)" "bs_ready (drain_conn lora i b) = bs_ready b" for b
      by (simp_all add: drain_conn_def Let_def split: prod.split)
    then have "length (bs_conns (pump_slot lora i ?b)) = kMaxCentrals" "bs_ready (pump_slot lora i ?b)"
      using len ready by (simp_all add: pump_slot_def split_def Let_def)
    then show ?thesis
      using pump_slot_inv [OF len ok] Pump e by (simp add: ble_inv_def)
  next
    case (Rename name)
    then show ?thesis using len ready ok by (simp add: e ble_inv_def set_name_def)
  next
    case (Core i)
    then show ?thesis using len ready core_input_inv ok e by (simp add: ble_inv_def)
  qed
qed

lemma ble_reachable_inv: "ble_reachable w \<Longrightarrow> ble_inv w"
proof (induction rule: ble_reachable.induct)
  case (begun bufs proc)
  have "slot_ok (ble_begin (ble_sink_new bufs proc)) {} i" if "i < kMaxCentrals" for i
  proof -
    have "length (bufs ! i) = kRxFifoBytes" "central i \<notin> set (cp_sinks proc)"
      using begun that by auto
    then show ?thesis
      using that begun(1)
      by (simp add: slot_ok_def Let_def ble_begin_def ble_call_def ble_sink_new_def connection_new_def rf_inv_def
          rx_fifo_new_def count_list_0_iff)
  qed
  then show ?case
    using begun(1) by (simp add: ble_inv_def ble_begin_def ble_call_def ble_sink_new_def)
qed (rule ble_step_inv)

end
