(* ===== verification/BleLinks.thy ===== *)
theory BleLinks
  imports BleSessions "HOL-Library.Sublist"
begin

text \<open>
  What the ESP32 BLE transport promises: a session ends with its link, a handle that is reused
  before the board loop has reconciled the old link, and how a frame reaches its central.
\<close>

section \<open>Sessions and links\<close>

lemma slot_release:
  fixes lora
  assumes "ble_inv w" "i < kMaxCentrals" "find_conn h (bw_ble w) = Some i"
  defines "b' \<equiv> pump_slot lora i (onDisconnect h (bw_ble w))"
  shows "central i \<notin> set (cp_sinks (bs_proc b'))" "\<not> cn_in_use (bs_conns b' ! i)"
proof -
  have len: "length (bs_conns (bw_ble w)) = kMaxCentrals" and ok: "\<forall>j < kMaxCentrals. slot_ok (bw_ble w) (bw_links w) j"
    using assms(1) by (auto simp: ble_inv_def)
  let ?b = "onDisconnect h (bw_ble w)"
  have flagged: "cn_pending_disconnect (bs_conns ?b ! i)" and len': "length (bs_conns ?b) = kMaxCentrals"
    using assms(2,3) len by (simp_all add: onDisconnect_def)
  have unused: "\<not> cn_in_use (bs_conns b' ! i)" "\<not> cn_registered (bs_conns b' ! i)"
    using flagged len' assms(2) by (auto simp: b'_def pump_slot_cases Let_def)
  have "slot_ok b' (bw_links w - {h}) i"
    using pump_slot_inv [OF len' disconnect_inv [OF len ok] assms(2)] assms(2) by (simp add: b'_def)
  then have "count_list (cp_sinks (bs_proc b')) (central i) = 0"
    using unused by (simp add: slot_ok_def Let_def)
  then show "central i \<notin> set (cp_sinks (bs_proc b'))" by (simp add: count_list_0_iff)
  show "\<not> cn_in_use (bs_conns b' ! i)" by (rule unused)
qed


subsection \<open>A central logs in\<close>

text \<open>A framed request, written by a central the board loop has not seen yet, is handled by the next \<open>pump\<close>.\<close>

definition login :: "byte list \<Rightarrow> meshpigeon_ClientToRadio" where
  "login pin = \<lparr>cr_id = 1, cr_body = C_auth \<lparr>au_pin = pin\<rparr>\<rparr>"

lemma first_pump:
  assumes "length (bs_conns b) = kMaxCentrals" "i < kMaxCentrals" "bs_conns b ! i = c"
    and "cn_in_use c" "\<not> cn_registered c" "\<not> cn_pending_disconnect c" "cn_reader c = frame_reader_reset"
    and "rf_inv (cn_rx c)" "rf_list (cn_rx c) = frame_encode_envelope env"
    and "env \<noteq> []" "length env \<le> MESHPIGEON_MAX_FRAME_PAYLOAD" "add_sink (central i) (bs_proc b) = (p, True)"
  shows "bs_proc (pump_slot lora i b) = on_envelope lora env (Some (central i)) p \<and>
    bs_conns (pump_slot lora i b) ! i = c\<lparr>cn_registered := True, cn_rx := cn_rx (bs_conns (pump_slot lora i b) ! i)\<rparr>"
proof -
  let ?f = "\<lambda>proc env. on_envelope lora env (Some (central i)) proc"
  let ?n = FRAME_MAX_DRAIN_BYTES_PER_PUMP
  have "length (frame_encode_envelope env) \<le> ?n"
    using frame_encode_envelope_length [of env] by (simp add: frame_limits)
  then have "drain_loop ?n ?f frame_reader_reset p (frame_encode_envelope env) = (frame_reader_reset, ?f p env, [])"
    using drain_frames_all [of "frame_encode_envelope env" ?f frame_reader_reset p] drain_envelope [OF assms(10,11), of ?f p]
    by (simp add: drain_frames_def)
  then obtain rx where "drain_source rf_available rf_read ?n ?f frame_reader_reset p (cn_rx c) = (frame_reader_reset, ?f p env, rx)"
    using rx.drain_contents [OF assms(8), of ?n ?f frame_reader_reset p] by (auto simp: assms(9))
  then have source: "drain_source rf_available rf_read ?n ?f frame_reader_reset p (cn_rx c) = (frame_reader_reset, ?f p env, rx)" .
  define b1 where "b1 = ble_call Start_Advertising (set_conn i (\<lambda>c. c\<lparr>cn_registered := True\<rparr>) (b\<lparr>bs_proc := p\<rparr>))"
  have b1: "bs_conns b1 ! i = c\<lparr>cn_registered := True\<rparr>" "bs_proc b1 = p" "length (bs_conns b1) = kMaxCentrals"
    using assms(1-3) by (simp_all add: b1_def)
  have pump: "pump_slot lora i b = drain_conn lora i b1"
    using assms(3-6) by (simp add: pump_slot_cases assms(12) b1_def Let_def)
  have "drain_conn lora i b1 = (set_conn i (\<lambda>c. c\<lparr>cn_reader := frame_reader_reset, cn_rx := rx\<rparr>) b1)\<lparr>bs_proc := ?f p env\<rparr>"
    using source assms(7) by (simp add: drain_conn_def b1(1,2))
  then have "bs_proc (drain_conn lora i b1) = ?f p env"
    "bs_conns (drain_conn lora i b1) ! i = c\<lparr>cn_registered := True, cn_reader := frame_reader_reset, cn_rx := rx\<rparr>"
    using b1 assms(2) by simp_all
  then show ?thesis
    using assms(7) by (simp add: pump)
qed

definition pin_1234 :: "byte list" where
  "pin_1234 = [0x31, 0x32, 0x33, 0x34, 0, 0, 0, 0, 0]"

definition login_frame :: "byte list" where
  "login_frame = frame_encode_envelope (ClientToRadio_wire (login pin_1234))"

definition no_central :: ble_world where
  "no_central = \<lparr>bw_ble = ble_begin (ble_sink_new (replicate 3 (replicate 512 0)) locked_radio), bw_links = {}\<rparr>"

definition one_central :: ble_world where
  "one_central = fold ble_on [Link_Up 5, Subscribe 5 1, Write 5 login_frame, Pump working_lora 0] no_central"

lemma reachable_on: "ble_reachable w \<Longrightarrow> ble_possible e w \<Longrightarrow> ble_reachable (ble_on e w)"
  by (erule stepped) (rule ble_step.intros)

lemma one_central_reachable: "ble_reachable one_central"
proof -
  have "ble_reachable no_central"
    unfolding no_central_def by (rule begun) (simp_all add: kMaxCentrals_def kRxFifoBytes_def sample_facts)
  then have "ble_reachable (ble_on (Link_Up 5) no_central)"
    by (rule reachable_on) (simp add: no_central_def)
  then have "ble_reachable (ble_on (Subscribe 5 1) (ble_on (Link_Up 5) no_central))"
    by (rule reachable_on) simp
  then have "ble_reachable (ble_on (Write 5 login_frame) (ble_on (Subscribe 5 1) (ble_on (Link_Up 5) no_central)))"
    by (rule reachable_on) simp
  then have "ble_reachable (ble_on (Pump working_lora 0) (ble_on (Write 5 login_frame)
      (ble_on (Subscribe 5 1) (ble_on (Link_Up 5) no_central))))"
    by (rule reachable_on) (simp add: kMaxCentrals_def)
  then show ?thesis by (simp add: one_central_def)
qed

lemma login_wire:
  "on_envelope lora (ClientToRadio_wire (login pin_1234)) (Some k) s = handle_auth 1 \<lparr>au_pin = pin_1234\<rparr> k s"
  "ClientToRadio_wire (login pin_1234) \<noteq> []" "length (ClientToRadio_wire (login pin_1234)) \<le> MESHPIGEON_MAX_FRAME_PAYLOAD"
proof -
  have ok: "ClientToRadio_ok (login pin_1234)"
    by (simp add: login_def pin_1234_def ClientToRadio_ok_def Auth_ok_def padded_def cstr_def)
       (simp add: eval_nat_numeral)
  show "on_envelope lora (ClientToRadio_wire (login pin_1234)) (Some k) s = handle_auth 1 \<lparr>au_pin = pin_1234\<rparr> k s"
    using on_request [OF ok, of lora k s] by (simp add: login_def handle_request_def)
  show "ClientToRadio_wire (login pin_1234) \<noteq> []"
    by (simp add: ClientToRadio_wire_def login_def w_uint_def w_tag_nonempty)
  show "length (ClientToRadio_wire (login pin_1234)) \<le> MESHPIGEON_MAX_FRAME_PAYLOAD"
    using ClientToRadio_length [OF ok] by (simp add: ClientToRadio_size_def frame_limit)
qed

text \<open>The slots after each callback of that run.\<close>

abbreviation fresh_conn :: connection where "fresh_conn \<equiv> connection_new (replicate 512 0)"

definition conn_5 :: connection where
  "conn_5 = \<lparr>cn_handle = 5, cn_in_use = True, cn_subscribed = False, cn_registered = False,
     cn_pending_disconnect = False, cn_rx = rf_clear (cn_rx fresh_conn), cn_reader = frame_reader_reset\<rparr>"

definition locked_proc :: command_processor where
  "locked_proc = locked_radio\<lparr>cp_authenticated := (cp_authenticated locked_radio)(central 0 := False)\<rparr>"

lemma link_up_5:
  "bw_ble (ble_on (Link_Up 5) no_central) =
     \<lparr>bs_ready = True, bs_conns = [conn_5, fresh_conn, fresh_conn], bs_proc = locked_proc, bs_calls = [Set_Device_Name []]\<rparr>"
proof -
  have "replicate 3 x = [x, x, x]" for x :: "byte list" by (simp add: numeral_3_eq_3)
  then show ?thesis
    by (simp add: no_central_def onConnect_def claim_def ble_begin_def ble_call_def ble_sink_new_def kMaxCentrals_def upt_rec
        connection_new_def set_conn_def conn_5_def locked_proc_def)
qed

lemma write_5:
  "bw_ble (ble_on (Write 5 login_frame) (ble_on (Subscribe 5 1) (ble_on (Link_Up 5) no_central))) =
     \<lparr>bs_ready = True, bs_conns = [conn_5\<lparr>cn_subscribed := True, cn_rx := rf_write login_frame (cn_rx conn_5)\<rparr>, fresh_conn, fresh_conn],
      bs_proc = locked_proc, bs_calls = [Set_Device_Name []]\<rparr>"
  by (simp add: link_up_5 onSubscribe_def onWrite_def find_conn_def kMaxCentrals_def upt_rec set_conn_def conn_5_def del: ble_on.simps(1))

lemma one_central_facts:
  "bs_proc (bw_ble one_central) = handle_auth 1 \<lparr>au_pin = pin_1234\<rparr> (central 0) (locked_proc\<lparr>cp_sinks := [central 0]\<rparr>)"
  "bs_conns (bw_ble one_central) ! 0 = conn_5\<lparr>cn_subscribed := True, cn_registered := True,
     cn_rx := cn_rx (bs_conns (bw_ble one_central) ! 0)\<rparr>" "bw_links one_central = {5}"
  "cp_authenticated (bs_proc (bw_ble one_central)) (central 0)" "\<not> cn_in_use (bs_conns (bw_ble one_central) ! 1)"
proof -
  define w where "w = ble_on (Write 5 login_frame) (ble_on (Subscribe 5 1) (ble_on (Link_Up 5) no_central))"
  let ?c = "conn_5\<lparr>cn_subscribed := True, cn_rx := rf_write login_frame (cn_rx conn_5)\<rparr>"
  let ?p = "locked_proc\<lparr>cp_sinks := [central 0]\<rparr>"
  note w5 = write_5 [folded w_def]
  have one: "one_central = ble_on (Pump working_lora 0) w" by (simp add: one_central_def w_def)
  have fresh: "rf_inv (cn_rx conn_5)" "rf_list (cn_rx conn_5) = []"
    by (simp_all add: conn_5_def rf_clear_ok rf_inv_def rf_clear_def connection_new_def rx_fifo_new_def kRxFifoBytes_def rf_list_def)
  have "Auth_ok \<lparr>au_pin = pin_1234\<rparr>"
    by (simp add: pin_1234_def Auth_ok_def padded_def cstr_def) (simp add: eval_nat_numeral)
  then have "length (ClientToRadio_wire (login pin_1234)) \<le> 6 + (2 + 127)"
    using wire_sizes_rules(1) [of 1 1] wire_sizes_rules(5) [of 12 "Auth_wire \<lparr>au_pin = pin_1234\<rparr>"]
      Auth_length [of "\<lparr>au_pin = pin_1234\<rparr>"]
    by (simp add: ClientToRadio_wire_def login_def cr_body_wire_def)
  then have short: "length login_frame \<le> kRxFifoBytes"
    using cobs_encode_length [of "frame_build (ClientToRadio_wire (login pin_1234))"]
    by (simp add: login_frame_def frame_encode_envelope_wire frame_encode_wire_def length_frame_build kRxFifoBytes_def frame_limit)
  have rx: "rf_inv (cn_rx ?c)" "rf_list (cn_rx ?c) = login_frame"
    using rf_write_list [OF fresh(1), of login_frame] fresh(2) short by simp_all
  have add: "add_sink (central 0) (bs_proc (bw_ble w)) = (?p, True)"
    by (simp add: w5 add_sink_def locked_proc_def sample_facts kMaxSinks_def)
  have pumped: "bs_proc (bw_ble one_central) = on_envelope working_lora (ClientToRadio_wire (login pin_1234)) (Some (central 0)) ?p \<and>
      bs_conns (bw_ble one_central) ! 0 = ?c\<lparr>cn_registered := True, cn_rx := cn_rx (bs_conns (bw_ble one_central) ! 0)\<rparr>"
    using first_pump [of "bw_ble w" 0 ?c "ClientToRadio_wire (login pin_1234)" ?p working_lora] rx login_wire(2,3) add
    by (simp add: one w5 kMaxCentrals_def conn_5_def login_frame_def)
  then show p: "bs_proc (bw_ble one_central) = handle_auth 1 \<lparr>au_pin = pin_1234\<rparr> (central 0) ?p"
    by (simp add: login_wire(1))
  show "bs_conns (bw_ble one_central) ! 0 = conn_5\<lparr>cn_subscribed := True, cn_registered := True,
     cn_rx := cn_rx (bs_conns (bw_ble one_central) ! 0)\<rparr>"
    using pumped by (cases "bs_conns (bw_ble one_central) ! 0") (simp add: conn_5_def)
  have "bs_conns (pump_slot lora 0 b) ! 1 = bs_conns b ! 1" for lora b
    by (auto simp: pump_slot_cases drain_conn_def Let_def split: prod.split bool.split)
  then show "\<not> cn_in_use (bs_conns (bw_ble one_central) ! 1)"
    by (simp add: one w5 connection_new_def)
  show "bw_links one_central = {5}" by (simp add: one w_def no_central_def)
  have "pin_matches pin_1234 (strlen pin_1234) ?p" "\<not> auth_backoff_active ?p"
    by (simp_all add: pin_matches_def pin_1234_def strlen_def cstr_def locked_proc_def sample_facts locked_device_def
        protocol_limits auth_backoff_active_def)
  then show "cp_authenticated (bs_proc (bw_ble one_central)) (central 0)"
    by (simp add: p auth_say)
qed


section \<open>A handle reused before the board loop looks\<close>

text \<open>
  C38. Old session, new link.  A central is logged in, its link goes down and a new link comes up
  under the same handle, all before the next turn of the board loop, while a slot is free.  Then
  the old slot is flagged and will not be drained again, but until the board loop comes to it it is
  still a registered, authorized client whose handle now names the new link: a push in that window
  (a received packet, a settings change) is notified to a central that never presented the PIN.
\<close>

theorem ble_handle_reuse:
  assumes "ble_reachable w" "find_conn h (bw_ble w) = Some i" "h \<in> bw_links w"
    and "cn_registered (bs_conns (bw_ble w) ! i)" "is_authorized (bs_proc (bw_ble w)) (central i)"
    and "j < kMaxCentrals" "\<not> cn_in_use (bs_conns (bw_ble w) ! j)"
  defines "w' \<equiv> ble_on (Link_Up h) (ble_on (Link_Down h) w)"
  shows "ble_reachable w' \<and> h \<in> bw_links w' \<and>
    bs_conns (bw_ble w') ! i = (bs_conns (bw_ble w) ! i)\<lparr>cn_pending_disconnect := True\<rparr> \<and>
    cn_handle (bs_conns (bw_ble w') ! i) = h \<and> central i \<in> set (recipients None True (bs_proc (bw_ble w')))"
proof -
  let ?b = "bw_ble w"
  let ?f = "set_conn i (\<lambda>c. c\<lparr>cn_pending_disconnect := True\<rparr>) ?b"
  have inv: "length (bs_conns ?b) = kMaxCentrals" "slot_ok ?b (bw_links w) i" "i < kMaxCentrals"
    using ble_reachable_inv [OF assms(1)] assms(2) by (auto simp: ble_inv_def find_conn_Some)
  have use_i: "cn_in_use (bs_conns ?b ! i)" "cn_handle (bs_conns ?b ! i) = h"
    using assms(2) by (simp_all add: find_conn_Some serves_def)
  have down: "bw_ble (ble_on (Link_Down h) w) = ?f" by (simp add: onDisconnect_def assms(2))
  obtain b' k where claim: "claim h ?f = (b', Some k)"
  proof (cases "List.find (\<lambda>i. \<not> cn_in_use (bs_conns ?f ! i)) [0..<kMaxCentrals]")
    case None
    then have "cn_in_use (bs_conns ?f ! j)" using assms(6) by (simp add: find_None_iff)
    moreover have "bs_conns ?f ! j = bs_conns ?b ! j" using use_i(1) assms(7) by (cases "i = j") simp_all
    ultimately show ?thesis using assms(7) by simp
  next
    case (Some k)
    then show ?thesis using that by (simp add: claim_def Let_def)
  qed
  have k: "k \<noteq> i" using claim_Some(2) [OF claim] use_i(1) inv(1,3) by auto
  have w': "bw_ble w' = b'" unfolding w'_def by (simp add: onDisconnect_def assms(2) onConnect_def claim)
  have conn: "bs_conns b' ! i = (bs_conns ?b ! i)\<lparr>cn_pending_disconnect := True\<rparr>"
    using k inv(1,3) by (simp add: claim_Some(3) [OF claim])
  have "is_authorized (bs_proc b') (central i)" "cp_sinks (bs_proc b') = cp_sinks (bs_proc ?b)"
    using assms(5) k by (simp_all add: claim_Some(3) [OF claim] is_authorized_def)
  moreover have "central i \<in> set (cp_sinks (bs_proc ?b))"
    using inv(2) assms(4) by (metis (no_types, lifting) slot_ok_def count_list_0_iff of_bool_eq_0_iff)
  ultimately have "central i \<in> set (recipients None True (bs_proc b'))"
    by (simp add: recipients_def)
  moreover have "ble_reachable w'"
    unfolding w'_def by (intro reachable_on assms(1)) (simp_all add: assms(3))
  ultimately show ?thesis
    using conn use_i(2) by (simp add: w') (simp add: w'_def)
qed

lemma ble_handle_reuse_witness:
  "central 0 \<in> set (recipients None True (bs_proc (bw_ble (ble_on (Link_Up 5) (ble_on (Link_Down 5) one_central))))) \<and>
   \<not> pin_is_default (cp_device locked_radio)"
proof -
  have slot: "cn_registered (bs_conns (bw_ble one_central) ! 0)" "cn_handle (bs_conns (bw_ble one_central) ! 0) = 5"
    "cn_in_use (bs_conns (bw_ble one_central) ! 0)"
    by (subst one_central_facts(2), simp add: conn_5_def)+
  have find: "find_conn 5 (bw_ble one_central) = Some 0"
    using slot by (simp add: find_conn_Some serves_def kMaxCentrals_def)
  have "is_authorized (bs_proc (bw_ble one_central)) (central 0)"
    using one_central_facts(4) by (simp add: is_authorized_def)
  moreover have "\<not> cn_in_use (bs_conns (bw_ble one_central) ! 1)" by (rule one_central_facts(5))
  ultimately show ?thesis
    using ble_handle_reuse [OF one_central_reachable find _ slot(1), of 1] one_central_facts(3) sample_authorized(2) [of 0]
    by (simp add: kMaxCentrals_def is_authorized_def Let_def)
qed

section \<open>A frame on its way to its central\<close>

text \<open>
  What the host promises: a notification with result 0 is sent to the central of the handle and to
  nobody else, any other result sends nothing, and time passes only in \<open>delay\<close>.
\<close>

definition host_spec :: "'l host_api \<Rightarrow> ('l \<Rightarrow> (u16 \<times> byte list) list) \<Rightarrow> ('l \<Rightarrow> nat) \<Rightarrow> bool" where
  "host_spec ha sent ms \<longleftrightarrow> ha_enomem ha \<noteq> 0 \<and>
     (\<forall>bytes l. sent (snd (ha_from_flat ha bytes l)) = sent l \<and> ms (snd (ha_from_flat ha bytes l)) = ms l) \<and>
     (\<forall>h bytes l. sent (snd (ha_notify ha h bytes l)) = sent l @ (if fst (ha_notify ha h bytes l) = 0 then [(h, bytes)] else []) \<and>
        ms (snd (ha_notify ha h bytes l)) = ms l) \<and>
     (\<forall>l. sent (ha_delay ha l) = sent l \<and> ms (ha_delay ha l) = Suc (ms l))"

definition host_accepts :: "'l host_api \<Rightarrow> bool" where
  "host_accepts ha \<longleftrightarrow> (\<forall>h bytes l. fst (ha_from_flat ha bytes l) \<and> fst (ha_notify ha h bytes l) = 0)"

lemma notify_rounds_effect:
  assumes "host_spec ha sent ms"
  shows "notify_rounds n ha h bytes l = (ok, l') \<Longrightarrow>
    sent l' = sent l @ (if ok then [(h, bytes)] else []) \<and> ms l' \<le> ms l + n \<and> (host_accepts ha \<and> 0 < n \<longrightarrow> ok)"
proof (induction n arbitrary: l)
  case (Suc n)
  obtain om l1 where f: "ha_from_flat ha bytes l = (om, l1)" by (metis surj_pair)
  obtain rc l2 where r: "(if om then ha_notify ha h bytes l1 else (ha_enomem ha, l1)) = (rc, l2)" by (metis surj_pair)
  have keeps: "sent l1 = sent l" "ms l1 = ms l"
    using assms f unfolding host_spec_def by (metis snd_conv)+
  have l2: "sent l2 = sent l @ (if rc = 0 then [(h, bytes)] else [])" "ms l2 = ms l"
    "host_accepts ha \<longrightarrow> rc = 0"
  proof -
    show "sent l2 = sent l @ (if rc = 0 then [(h, bytes)] else [])"
      using assms r keeps unfolding host_spec_def by (cases om) (metis fst_conv snd_conv, simp)
    show "ms l2 = ms l"
      using assms r keeps unfolding host_spec_def by (cases om) (metis snd_conv, simp)
    show "host_accepts ha \<longrightarrow> rc = 0"
      using f r unfolding host_accepts_def by (metis fst_conv)
  qed
  show ?case
  proof (cases "rc = 0 \<or> rc \<noteq> ha_enomem ha")
    case True
    then show ?thesis using Suc.prems l2 by (auto simp: f r Let_def split: if_splits)
  next
    case False
    then have "notify_rounds n ha h bytes (ha_delay ha l2) = (ok, l')"
      using Suc.prems by (simp add: f r Let_def)
    with Suc.IH [of "ha_delay ha l2"] False l2 assms show ?thesis
      unfolding host_spec_def by auto
  qed
qed simp

lemma send_chunks_effect:
  assumes "host_spec ha sent ms"
  shows "\<exists>cs. sent (send_chunks ha h mtu bytes off l) = sent l @ map (Pair h) cs \<and>
    (\<forall>c \<in> set cs. c \<noteq> [] \<and> length c \<le> max_chunk mtu) \<and> prefix (concat cs) (drop off bytes) \<and>
    (host_accepts ha \<longrightarrow> concat cs = drop off bytes) \<and>
    ms (send_chunks ha h mtu bytes off l) \<le> ms l + 51 * ((length bytes - off + 19) div 20)"
  using assms
proof (induction ha h mtu bytes off l rule: send_chunks.induct)
  case (1 ha h mtu bytes off l)
  show ?case
  proof (cases "off < length bytes")
    case True
    define n where "n = (if length bytes - off < max_chunk mtu then length bytes - off else max_chunk mtu)"
    let ?chunk = "take n (drop off bytes)"
    obtain ok l1 where nc: "notify_chunk ha h ?chunk l = (ok, l1)" by (metis surj_pair)
    have eff: "sent l1 = sent l @ (if ok then [(h, ?chunk)] else [])" "ms l1 \<le> ms l + 51" "host_accepts ha \<longrightarrow> ok"
      using notify_rounds_effect [OF 1(2), of "kNotifyWaitMs + 1" h ?chunk l ok l1] nc
      by (simp_all add: notify_chunk_def kNotifyWaitMs_def)
    have unfold: "send_chunks ha h mtu bytes off l = (if ok then send_chunks ha h mtu bytes (off + n) l1 else l1)"
      by (subst send_chunks.simps) (simp add: True n_def [symmetric] nc Let_def)
    have size: "0 < n" "n \<le> length bytes - off" "n \<le> max_chunk mtu" "20 \<le> n \<or> n = length bytes - off"
      using True max_chunk_pos [of mtu] by (auto simp: n_def)
    have rounds: "(length bytes - (off + n) + 19) div 20 + 1 \<le> (length bytes - off + 19) div 20"
    proof -
      define y where "y = length bytes - (off + n)"
      have x: "length bytes - off = y + n" and y: "20 \<le> n \<or> y = 0" using size by (auto simp: y_def)
      have "(y + 19) div 20 + 1 = (y + 39) div 20" by (simp add: div_add_self2 [of 20 "y + 19", symmetric])
      also have "\<dots> \<le> (y + n + 19) div 20"
      proof (cases "20 \<le> n")
        case True
        then show ?thesis by (intro div_le_mono) simp
      next
        case False
        with y have y0: "y = 0" by simp
        have "20 div 20 \<le> (n + 19) div 20" using size(1) by (intro div_le_mono) simp
        then show ?thesis by (simp add: y0)
      qed
      finally show ?thesis by (simp only: x y_def [symmetric])
    qed
    show ?thesis
    proof (cases ok)
      case False
      have "ms l1 \<le> ms l + 51 * ((length bytes - off + 19) div 20)"
        using eff(2) rounds by linarith
      then show ?thesis using False eff unfold by (intro exI [of _ "[]"]) simp
    next
      case ok: True
      have pair: "(ok, l1) = notify_chunk ha h ?chunk l" by (simp add: nc)
      have "\<not> \<not> ok" using ok by simp
      from 1(1) [OF True n_def refl pair this 1(2)]
      obtain cs where cs: "sent (send_chunks ha h mtu bytes (off + n) l1) = sent l1 @ map (Pair h) cs"
        "\<forall>c \<in> set cs. c \<noteq> [] \<and> length c \<le> max_chunk mtu" "prefix (concat cs) (drop (off + n) bytes)"
        "host_accepts ha \<longrightarrow> concat cs = drop (off + n) bytes"
        "ms (send_chunks ha h mtu bytes (off + n) l1) \<le> ms l1 + 51 * ((length bytes - (off + n) + 19) div 20)"
        by blast
      have split: "drop off bytes = ?chunk @ drop (off + n) bytes"
        by (metis append_take_drop_id drop_drop add.commute)
      have time: "ms (send_chunks ha h mtu bytes off l) \<le> ms l + 51 * ((length bytes - off + 19) div 20)"
        unfolding unfold if_P [OF ok] using cs(5) eff(2) rounds by linarith
      have first: "?chunk \<noteq> [] \<and> length ?chunk \<le> max_chunk mtu" using size by simp
      have "prefix (concat (?chunk # cs)) (drop off bytes)"
        using cs(3) by (subst split) simp
      moreover have "host_accepts ha \<longrightarrow> concat (?chunk # cs) = drop off bytes"
        using cs(4) by (subst split) simp
      moreover have "sent (send_chunks ha h mtu bytes off l) = sent l @ map (Pair h) (?chunk # cs)"
        using cs(1) eff(1) ok by (simp add: unfold)
      ultimately show ?thesis
        using cs(2) first time by (intro exI [of _ "?chunk # cs"]) auto
    qed
  next
    case False
    then show ?thesis by (intro exI [of _ "[]"]) (simp add: send_chunks.simps)
  qed
qed

text \<open>
  C18. Sending a frame to a central.  It goes to that central alone and only if it has subscribed,
  in pieces its link can carry, in order and without holes; it is cut short when the host gives
  out, arrives whole when the host accepts every piece, and costs the board loop at most 1326 ms.
\<close>

theorem ble_frame_delivery:
  assumes "host_spec ha sent ms"
  shows "\<exists>cs. sent (conn_send_frame ha c decoded l) = sent l @ map (Pair (cn_handle c)) cs \<and>
    (\<forall>p \<in> set cs. p \<noteq> [] \<and> length p \<le> max_chunk (ha_peer_mtu ha l (cn_handle c))) \<and>
    prefix (concat cs) (frame_encode_envelope decoded) \<and>
    (\<not> cn_subscribed c \<longrightarrow> cs = []) \<and>
    (cn_subscribed c \<and> host_accepts ha \<longrightarrow> concat cs = frame_encode_envelope decoded) \<and>
    ms (conn_send_frame ha c decoded l) \<le> ms l + 1326"
proof (cases "cn_subscribed c")
  case True
  let ?mtu = "ha_peer_mtu ha l (cn_handle c)"
  obtain cs where cs: "sent (conn_send_frame ha c decoded l) = sent l @ map (Pair (cn_handle c)) cs"
    "\<forall>p \<in> set cs. p \<noteq> [] \<and> length p \<le> max_chunk ?mtu" "prefix (concat cs) (frame_encode_envelope decoded)"
    "host_accepts ha \<longrightarrow> concat cs = frame_encode_envelope decoded"
    "ms (conn_send_frame ha c decoded l) \<le> ms l + 51 * ((length (frame_encode_envelope decoded) + 19) div 20)"
    using send_chunks_effect [OF assms, of "cn_handle c" ?mtu "frame_encode_envelope decoded" 0 l] True
    by (auto simp: conn_send_frame_def)
  have "(length (frame_encode_envelope decoded) + 19) div 20 \<le> 26"
    using frame_encode_envelope_length [of decoded] by (simp add: frame_limits)
  then show ?thesis using cs True by (intro exI [of _ cs]) auto
next
  case False
  then show ?thesis by (intro exI [of _ "[]"]) (simp add: conn_send_frame_def)
qed

text \<open>A host whose buffers are full the first two times it is asked.\<close>

definition busy_host :: "((u16 \<times> byte list) list \<times> nat) host_api" where
  "busy_host = \<lparr>ha_peer_mtu = (\<lambda>l h. 23), ha_from_flat = (\<lambda>bytes l. (snd l \<ge> 2, l)),
     ha_notify = (\<lambda>h bytes l. (0, (fst l @ [(h, bytes)], snd l))),
     ha_delay = (\<lambda>l. (fst l, Suc (snd l))), ha_enomem = 6\<rparr>"

lemma ble_frame_delivery_witness:
  "\<exists>cs. fst (conn_send_frame busy_host (conn_5\<lparr>cn_subscribed := True\<rparr>) [1, 2, 3] ([], 0)) = map (Pair 5) cs \<and>
    prefix (concat cs) (frame_encode_envelope [1, 2, 3])"
proof -
  have "host_spec busy_host fst snd" by (simp add: host_spec_def busy_host_def)
  then show ?thesis
    using ble_frame_delivery [of busy_host fst snd "conn_5\<lparr>cn_subscribed := True\<rparr>" "[1, 2, 3]" "([], 0)"]
    by (auto simp: conn_5_def)
qed

end
