(* ===== verification/BleQueue.thy ===== *)
theory BleQueue
  imports Sessions RxFifo "HOL-Library.Sublist"
begin

text \<open>
  \<open>BleSink\<close> of the nRF52 boards (\<open>src/transports.h\<close>): one central, a ring of sixteen framed
  responses, drained in chunks of 20 bytes.

  The SoftDevice is the record \<open>nrf_link\<close> over its own state: whether a central is connected, how
  many bytes a write takes, and what a millisecond of \<open>delay\<close> brings, among it the connect and
  disconnect callbacks, which only set two flags.  \<open>q.len\<close> and \<open>q.off\<close> are natural numbers.  \<open>pump\<close>,
  which calls the processor, is with the board.
\<close>

section \<open>State\<close>

definition kQueueDepth :: nat where "kQueueDepth = 16"
definition kChunk :: nat where "kChunk = 20"
definition kDrainWaitMs :: nat where "kDrainWaitMs = 50"

record queued =
  qu_len :: nat
  qu_off :: nat
  qu_buf :: "byte list"

datatype nrf_callback = Nrf_Connect | Nrf_Disconnect

record 'l nrf_link =
  nl_connected :: "'l \<Rightarrow> nat"
  nl_write :: "byte list \<Rightarrow> 'l \<Rightarrow> nat \<times> 'l"
  nl_delay :: "'l \<Rightarrow> nrf_callback list \<times> 'l"

record 'l nrf_sink =
  ns_reader :: frame_reader
  ns_queue :: "queued list"
  ns_head :: nat
  ns_count :: nat
  ns_connected :: bool
  ns_drop_pending :: bool
  ns_link :: 'l

definition nrf_sink_new :: "queued list \<Rightarrow> 'l \<Rightarrow> 'l nrf_sink" where
  "nrf_sink_new queue l = \<lparr>ns_reader = frame_reader_reset, ns_queue = queue, ns_head = 0, ns_count = 0,
     ns_connected = False, ns_drop_pending = False, ns_link = l\<rparr>"

section \<open>Operations\<close>

fun on_nrf_callback :: "nrf_callback \<Rightarrow> 'l nrf_sink \<Rightarrow> 'l nrf_sink" where
  "on_nrf_callback Nrf_Connect s = s\<lparr>ns_connected := True\<rparr>"
| "on_nrf_callback Nrf_Disconnect s = s\<lparr>ns_connected := False, ns_drop_pending := True\<rparr>"

definition nrf_connected :: "'l nrf_link \<Rightarrow> 'l nrf_sink \<Rightarrow> bool" where
  "nrf_connected nl s \<longleftrightarrow> ns_connected s \<and> nl_connected nl (ns_link s) > 0"

definition nrf_delay :: "'l nrf_link \<Rightarrow> 'l nrf_sink \<Rightarrow> 'l nrf_sink" where
  "nrf_delay nl s =
     (let (callbacks, l) = nl_delay nl (ns_link s) in fold on_nrf_callback callbacks (s\<lparr>ns_link := l\<rparr>))"

definition nrf_drain_step :: "'l nrf_link \<Rightarrow> 'l nrf_sink \<Rightarrow> bool \<times> 'l nrf_sink" where
  "nrf_drain_step nl s =
     (if \<not> nrf_connected nl s \<or> ns_count s = 0 then (False, s)
      else let q = ns_queue s ! ns_head s;
               chunk = min (qu_len q - qu_off q) kChunk;
               (written, l) = nl_write nl (take chunk (drop (qu_off q) (qu_buf q))) (ns_link s);
               s = s\<lparr>ns_link := l\<rparr>
           in if written = 0 then (False, s)
              else let q = q\<lparr>qu_off := qu_off q + written\<rparr>;
                       s = s\<lparr>ns_queue := (ns_queue s)[ns_head s := q]\<rparr>
                   in (True, if qu_off q = qu_len q
                             then s\<lparr>ns_head := (ns_head s + 1) mod kQueueDepth, ns_count := ns_count s - 1\<rparr>
                             else s))"

text \<open>
  The loop of \<open>make_room\<close>; \<open>left\<close> is \<open>kDrainWaitMs - waited\<close>.  The first result says that the loop
  returned from the function because the link was lost.
\<close>

fun make_room_loop :: "'l nrf_link \<Rightarrow> nat \<Rightarrow> 'l nrf_sink \<Rightarrow> bool \<times> 'l nrf_sink" where
  "make_room_loop nl left s =
     (if ns_count s > 0
      then case nrf_drain_step nl s of
             (True, s) \<Rightarrow> (False, s)
           | (False, s) \<Rightarrow>
               (if left > 0
                then if \<not> nrf_connected nl s then (True, s\<lparr>ns_head := 0, ns_count := 0\<rparr>)
                     else make_room_loop nl (left - 1) (nrf_delay nl s)
                else (False, s))
      else (False, s))"

declare make_room_loop.simps [simp del]

definition nrf_make_room :: "'l nrf_link \<Rightarrow> 'l nrf_sink \<Rightarrow> 'l nrf_sink" where
  "nrf_make_room nl s =
     (case make_room_loop nl kDrainWaitMs s of
        (True, s) \<Rightarrow> s
      | (False, s) \<Rightarrow> if ns_count s = kQueueDepth then s\<lparr>ns_count := 0\<rparr> else s)"

definition nrf_send_frame :: "'l nrf_link \<Rightarrow> byte list \<Rightarrow> 'l nrf_sink \<Rightarrow> 'l nrf_sink" where
  "nrf_send_frame nl decoded s =
     (if \<not> nrf_connected nl s then s
      else let bytes = frame_encode_envelope decoded; n = length bytes; s = nrf_make_room nl s in
        if ns_count s = kQueueDepth then s
        else let i = (ns_head s + ns_count s) mod kQueueDepth; q = ns_queue s ! i in
          s\<lparr>ns_queue := (ns_queue s)[i := \<lparr>qu_len = n, qu_off = 0, qu_buf = bytes @ drop n (qu_buf q)\<rparr>],
            ns_count := ns_count s + 1\<rparr>)"

text \<open>\<open>flush(timeout_ms)\<close>; the loop may run for ever if the link takes bytes for ever.\<close>

partial_function (option) nrf_flush_loop :: "'l nrf_link \<Rightarrow> nat \<Rightarrow> nat \<Rightarrow> 'l nrf_sink \<Rightarrow> 'l nrf_sink option" where
  "nrf_flush_loop nl timeout_ms waited s =
     (if ns_count s > 0 \<and> waited < timeout_ms
      then case nrf_drain_step nl s of
             (drained, s) \<Rightarrow> if drained then nrf_flush_loop nl timeout_ms waited s
                            else nrf_flush_loop nl timeout_ms (waited + 1) (nrf_delay nl s)
      else Some s)"

definition nrf_flush :: "'l nrf_link \<Rightarrow> nat \<Rightarrow> 'l nrf_sink \<Rightarrow> 'l nrf_sink option" where
  "nrf_flush nl timeout_ms s = nrf_flush_loop nl timeout_ms 0 s"

definition nrf_ble_clients :: "'l nrf_link \<Rightarrow> 'l nrf_sink \<Rightarrow> u8" where
  "nrf_ble_clients nl s = (if nrf_connected nl s then 1 else 0)"

section \<open>The stream to the central\<close>

text \<open>What is left of a queued frame, of all of them, and the shape of the ring.\<close>

definition unsent :: "queued \<Rightarrow> byte list" where
  "unsent q = take (qu_len q - qu_off q) (drop (qu_off q) (qu_buf q))"

definition queued_at :: "'l nrf_sink \<Rightarrow> nat \<Rightarrow> queued" where
  "queued_at s i = ns_queue s ! ((ns_head s + i) mod kQueueDepth)"

definition backlog :: "'l nrf_sink \<Rightarrow> byte list list" where
  "backlog s = map (\<lambda>i. unsent (queued_at s i)) [0..<ns_count s]"

definition queue_ok :: "'l nrf_sink \<Rightarrow> bool" where
  "queue_ok s \<longleftrightarrow> length (ns_queue s) = kQueueDepth \<and> ns_head s < kQueueDepth \<and> ns_count s \<le> kQueueDepth \<and>
     (\<forall>q \<in> set (ns_queue s). length (qu_buf q) = FRAME_MAX_WIRE) \<and>
     (\<forall>i < ns_count s. qu_off (queued_at s i) < qu_len (queued_at s i) \<and> qu_len (queued_at s i) \<le> FRAME_MAX_WIRE)"

text \<open>The link: a write takes a prefix of the chunk and sends it; time passes only in \<open>delay\<close>.\<close>

definition link_spec :: "'l nrf_link \<Rightarrow> ('l \<Rightarrow> byte list) \<Rightarrow> ('l \<Rightarrow> nat) \<Rightarrow> bool" where
  "link_spec nl sent ms \<longleftrightarrow>
     (\<forall>bytes l. fst (nl_write nl bytes l) \<le> length bytes \<and>
        sent (snd (nl_write nl bytes l)) = sent l @ take (fst (nl_write nl bytes l)) bytes \<and>
        ms (snd (nl_write nl bytes l)) = ms l) \<and>
     (\<forall>l. sent (snd (nl_delay nl l)) = sent l \<and> ms (snd (nl_delay nl l)) = Suc (ms l))"

lemma queue_index: "queue_ok s \<Longrightarrow> (ns_head s + i) mod kQueueDepth < length (ns_queue s)"
  by (simp add: queue_ok_def kQueueDepth_def)

lemma queue_index_inj:
  "i < kQueueDepth \<Longrightarrow> j < kQueueDepth \<Longrightarrow> (h + i) mod kQueueDepth = (h + j) mod kQueueDepth \<longleftrightarrow> i = j"
  using mod_inj_window [of h i kQueueDepth j] by blast

lemma queued_head: "queue_ok s \<Longrightarrow> ns_queue s ! ns_head s = queued_at s 0"
  by (simp add: queued_at_def queue_ok_def)

lemma backlog_Cons: "0 < ns_count s \<Longrightarrow> backlog s = unsent (queued_at s 0) # map (\<lambda>i. unsent (queued_at s (Suc i))) [0..<ns_count s - 1]"
proof -
  assume "0 < ns_count s"
  then have "[0..<ns_count s] = 0 # map Suc [0..<ns_count s - 1]" by (simp add: upt_conv_Cons map_Suc_upt)
  then show ?thesis by (simp add: backlog_def o_def)
qed

lemma callbacks_keep [simp]:
  "ns_queue (fold on_nrf_callback cs s) = ns_queue s" "ns_head (fold on_nrf_callback cs s) = ns_head s"
  "ns_count (fold on_nrf_callback cs s) = ns_count s" "ns_link (fold on_nrf_callback cs s) = ns_link s"
  "ns_reader (fold on_nrf_callback cs s) = ns_reader s"
proof -
  have step: "ns_queue (on_nrf_callback c s) = ns_queue s" "ns_head (on_nrf_callback c s) = ns_head s"
    "ns_count (on_nrf_callback c s) = ns_count s" "ns_link (on_nrf_callback c s) = ns_link s"
    "ns_reader (on_nrf_callback c s) = ns_reader s" for c and s :: "'a nrf_sink"
    by (cases c; simp)+
  show "ns_queue (fold on_nrf_callback cs s) = ns_queue s" "ns_head (fold on_nrf_callback cs s) = ns_head s"
    "ns_count (fold on_nrf_callback cs s) = ns_count s" "ns_link (fold on_nrf_callback cs s) = ns_link s"
    "ns_reader (fold on_nrf_callback cs s) = ns_reader s"
    by (induction cs arbitrary: s) (simp_all add: step)
qed

lemma delay_effect:
  assumes "link_spec nl sent ms"
  shows "ns_queue (nrf_delay nl s) = ns_queue s" "ns_head (nrf_delay nl s) = ns_head s" "ns_count (nrf_delay nl s) = ns_count s"
    "backlog (nrf_delay nl s) = backlog s" "queue_ok (nrf_delay nl s) = queue_ok s"
    "sent (ns_link (nrf_delay nl s)) = sent (ns_link s)" "ms (ns_link (nrf_delay nl s)) = Suc (ms (ns_link s))"
proof -
  obtain cs l where d: "nl_delay nl (ns_link s) = (cs, l)" by (metis surj_pair)
  show "ns_queue (nrf_delay nl s) = ns_queue s" "ns_head (nrf_delay nl s) = ns_head s" "ns_count (nrf_delay nl s) = ns_count s"
    "backlog (nrf_delay nl s) = backlog s" "queue_ok (nrf_delay nl s) = queue_ok s"
    by (simp_all add: nrf_delay_def d backlog_def queue_ok_def queued_at_def)
  show "sent (ns_link (nrf_delay nl s)) = sent (ns_link s)" "ms (ns_link (nrf_delay nl s)) = Suc (ms (ns_link s))"
    using assms d unfolding link_spec_def by (simp_all add: nrf_delay_def) (metis snd_conv)+
qed

text \<open>Changing the frame at the front, and dropping it.\<close>

definition set_front :: "queued \<Rightarrow> 'l nrf_sink \<Rightarrow> 'l nrf_sink" where
  "set_front q s = s\<lparr>ns_queue := (ns_queue s)[ns_head s := q]\<rparr>"

definition pop_front :: "'l nrf_sink \<Rightarrow> 'l nrf_sink" where
  "pop_front s = s\<lparr>ns_head := (ns_head s + 1) mod kQueueDepth, ns_count := ns_count s - 1\<rparr>"

lemma set_front_fields [simp]:
  "ns_count (set_front q s) = ns_count s" "ns_link (set_front q s) = ns_link s" "ns_head (set_front q s) = ns_head s"
  "ns_count (pop_front s) = ns_count s - 1" "ns_link (pop_front s) = ns_link s"
  by (simp_all add: set_front_def pop_front_def)

lemma queued_set_front:
  assumes "queue_ok s" "i < kQueueDepth"
  shows "queued_at (set_front q s) i = (if i = 0 then q else queued_at s i)"
proof -
  have "ns_head s < kQueueDepth" "length (ns_queue s) = kQueueDepth" using assms(1) by (simp_all add: queue_ok_def)
  moreover have "(ns_head s + i) mod kQueueDepth = ns_head s \<longleftrightarrow> i = 0"
    using queue_index_inj [OF assms(2), of 0 "ns_head s"] calculation(1) by (simp add: kQueueDepth_def)
  ultimately show ?thesis by (auto simp: queued_at_def set_front_def)
qed

lemma queued_pop_front: "queued_at (pop_front s) i = queued_at s (Suc i)"
  by (simp add: queued_at_def pop_front_def mod_simps)

lemma set_front_ok:
  assumes "queue_ok s" "0 < ns_count s" "qu_off q \<le> qu_len q" "qu_len q \<le> FRAME_MAX_WIRE" "length (qu_buf q) = FRAME_MAX_WIRE"
  shows "backlog (set_front q s) = unsent q # tl (backlog s)" "qu_off q < qu_len q \<Longrightarrow> queue_ok (set_front q s)"
    "queue_ok (pop_front (set_front q s))" "backlog (pop_front (set_front q s)) = tl (backlog s)"
proof -
  have at: "queued_at (set_front q s) i = (if i = 0 then q else queued_at s i)" if "i < ns_count s" for i
    using queued_set_front [OF assms(1)] assms(1) that by (simp add: queue_ok_def)
  have tail: "tl (backlog s) = map (\<lambda>i. unsent (queued_at s (Suc i))) [0..<ns_count s - 1]"
    by (simp add: backlog_Cons [OF assms(2)])
  show "backlog (set_front q s) = unsent q # tl (backlog s)"
    using assms(2) at unfolding tail by (subst backlog_Cons) auto
  have bufs: "\<forall>q' \<in> set (ns_queue (set_front q s)). length (qu_buf q') = FRAME_MAX_WIRE"
    using assms(1,5) set_update_subset_insert [of "ns_queue s" "ns_head s" q]
    by (auto simp: set_front_def queue_ok_def)
  show "queue_ok (set_front q s)" if "qu_off q < qu_len q"
    using bufs at assms(1,4) that by (simp add: queue_ok_def) (simp add: set_front_def)
  have "queue_ok (pop_front (set_front q s)) \<longleftrightarrow> length (ns_queue s) = kQueueDepth \<and> ns_count s \<le> Suc kQueueDepth \<and>
     (\<forall>q' \<in> set (ns_queue (set_front q s)). length (qu_buf q') = FRAME_MAX_WIRE) \<and>
     (\<forall>i < ns_count s - 1. qu_off (queued_at (set_front q s) (Suc i)) < qu_len (queued_at (set_front q s) (Suc i)) \<and>
       qu_len (queued_at (set_front q s) (Suc i)) \<le> FRAME_MAX_WIRE)"
    by (auto simp: queue_ok_def queued_pop_front) (auto simp: pop_front_def set_front_def kQueueDepth_def)
  then show "queue_ok (pop_front (set_front q s))"
    using bufs at assms(1) by (simp add: queue_ok_def)
  show "backlog (pop_front (set_front q s)) = tl (backlog s)"
    unfolding tail by (simp add: backlog_def queued_pop_front at)
qed

text \<open>One step of draining moves bytes from the front of the backlog to the link.\<close>

lemma drain_step_effect:
  assumes "link_spec nl sent ms" "queue_ok s" "nrf_drain_step nl s = (ok, s')"
  shows "queue_ok s' \<and> sent (ns_link s') @ concat (backlog s') = sent (ns_link s) @ concat (backlog s) \<and>
    ms (ns_link s') = ms (ns_link s) \<and> (ok \<longrightarrow> length (concat (backlog s')) < length (concat (backlog s))) \<and>
    (\<not> ok \<longrightarrow> backlog s' = backlog s \<and> ns_count s' = ns_count s \<and> sent (ns_link s') = sent (ns_link s)) \<and>
    (ok \<and> kChunk < length (hd (backlog s)) \<longrightarrow> ns_count s' = ns_count s) \<and> ns_count s' \<le> ns_count s"
proof (cases "\<not> nrf_connected nl s \<or> ns_count s = 0")
  case True
  then show ?thesis using assms(2,3) by (simp add: nrf_drain_step_def)
next
  case False
  let ?q = "queued_at s 0"
  have count: "0 < ns_count s" using False by simp
  have q: "qu_off ?q < qu_len ?q" "qu_len ?q \<le> FRAME_MAX_WIRE" "length (qu_buf ?q) = FRAME_MAX_WIRE"
    using assms(2) count queue_index [OF assms(2), of 0] by (auto simp: queue_ok_def queued_at_def)
  have len: "length (unsent ?q) = qu_len ?q - qu_off ?q" using q by (simp add: unsent_def)
  let ?chunk = "take (min (qu_len ?q - qu_off ?q) kChunk) (drop (qu_off ?q) (qu_buf ?q))"
  obtain n l where w: "nl_write nl ?chunk (ns_link s) = (n, l)" by (metis surj_pair)
  have spec: "n \<le> length ?chunk" "sent l = sent (ns_link s) @ take n ?chunk" "ms l = ms (ns_link s)"
    using assms(1) w unfolding link_spec_def by (metis fst_conv snd_conv)+
  have n: "n \<le> qu_len ?q - qu_off ?q" "n \<le> kChunk" using spec(1) by simp_all
  have moved: "take n ?chunk = take n (unsent ?q)" using n by (simp add: unsent_def min_def)
  let ?s = "s\<lparr>ns_link := l\<rparr>"
  have same: "backlog ?s = backlog s" "queue_ok ?s = queue_ok s" "queued_at ?s = queued_at s"
    by (simp_all add: backlog_def queue_ok_def queued_at_def fun_eq_iff)
  show ?thesis
  proof (cases "n = 0")
    case True
    then have "ok = False" "s' = ?s"
      using assms(3) False w by (simp_all add: nrf_drain_step_def queued_head [OF assms(2)] Let_def)
    then show ?thesis using True spec same assms(2) by simp
  next
    case more: False
    let ?q' = "?q\<lparr>qu_off := qu_off ?q + n\<rparr>"
    have ok: ok and s': "s' = (if qu_off ?q + n = qu_len ?q then pop_front (set_front ?q' ?s) else set_front ?q' ?s)"
      using assms(3) False more w
      by (auto simp: nrf_drain_step_def queued_head [OF assms(2)] Let_def set_front_def pop_front_def)
    have rest: "unsent ?q' = drop n (unsent ?q)"
      by (simp add: unsent_def drop_take add.commute)
    have hd: "hd (backlog s) = unsent ?q" by (simp add: backlog_Cons [OF count])
    have front: "backlog s = unsent ?q # tl (backlog s)" by (simp add: backlog_Cons [OF count])
    have q': "qu_off ?q' \<le> qu_len ?q'" "qu_len ?q' \<le> FRAME_MAX_WIRE" "length (qu_buf ?q') = FRAME_MAX_WIRE"
      using n(1) q by simp_all
    have ok_s: "queue_ok ?s" "0 < ns_count ?s" using assms(2) count by (simp_all add: same)
    note front_ok = set_front_ok [OF ok_s q', unfolded same rest]
    have whole: "sent l @ drop n (unsent ?q) = sent (ns_link s) @ unsent ?q"
      by (simp only: spec(2) moved append.assoc append_take_drop_id)
    show ?thesis
    proof (cases "qu_off ?q + n = qu_len ?q")
      case True
      then have "drop n (unsent ?q) = []" "n = length (unsent ?q)" using len by simp_all
      moreover have "length (concat (backlog s)) = length (unsent ?q) + length (concat (tl (backlog s)))"
        by (subst front) simp
      moreover have "sent (ns_link s) @ concat (backlog s) = sent (ns_link s) @ unsent ?q @ concat (tl (backlog s))"
        by (subst front) simp
      ultimately show ?thesis
        using True ok s' front_ok(3,4) spec(3) more n(2) whole by (simp add: hd)
    next
      case part: False
      then have "qu_off ?q' < qu_len ?q'" using n(1) q(1) by simp
      note ok' = front_ok(2) [OF this]
      have "length (concat (backlog s)) = length (unsent ?q) + length (concat (tl (backlog s)))"
        by (subst front) simp
      moreover have "sent (ns_link s) @ concat (backlog s) = sent (ns_link s) @ unsent ?q @ concat (tl (backlog s))"
        by (subst front) simp
      ultimately show ?thesis
        using part ok s' front_ok(1) ok' spec(3) more n whole len q(1) by (simp add: hd)
    qed
  qed
qed

lemma make_room_loop_effect:
  assumes "link_spec nl sent ms"
  shows "queue_ok s \<Longrightarrow> make_room_loop nl left s = (lost, s') \<Longrightarrow>
    queue_ok s' \<and> ms (ns_link s') \<le> ms (ns_link s) + left \<and>
    (\<not> lost \<longrightarrow> sent (ns_link s') @ concat (backlog s') = sent (ns_link s) @ concat (backlog s) \<and>
       ns_count s' \<le> ns_count s \<and> (kChunk < length (hd (backlog s)) \<longrightarrow> ns_count s' = ns_count s)) \<and>
    (lost \<longrightarrow> ns_count s' = 0 \<and> sent (ns_link s') = sent (ns_link s) \<and> \<not> nrf_connected nl s')"
proof (induction left arbitrary: s)
  case 0
  obtain ok t where d: "nrf_drain_step nl s = (ok, t)" by (metis surj_pair)
  show ?case
    using 0 drain_step_effect [OF assms 0(1) d]
    by (cases ok) (auto simp: make_room_loop.simps [of nl 0 s] d split: if_splits)
next
  case (Suc left)
  obtain ok t where d: "nrf_drain_step nl s = (ok, t)" by (metis surj_pair)
  note eff = drain_step_effect [OF assms Suc(2) d]
  have step: "make_room_loop nl (Suc left) s =
      (if ns_count s > 0 \<and> \<not> ok
       then if \<not> nrf_connected nl t then (True, t\<lparr>ns_head := 0, ns_count := 0\<rparr>) else make_room_loop nl left (nrf_delay nl t)
       else (False, if ns_count s > 0 then t else s))"
    by (subst make_room_loop.simps) (simp add: d split: bool.split)
  show ?case
  proof (cases "ns_count s > 0 \<and> \<not> ok")
    case False
    then show ?thesis using Suc(2,3) eff by (auto simp: step split: if_splits)
  next
    case True
    show ?thesis
    proof (cases "nrf_connected nl t")
      case False
      have "s' = t\<lparr>ns_head := 0, ns_count := 0\<rparr>" "lost" using Suc(3) True False by (simp_all add: step)
      then show ?thesis using eff True False by (auto simp: queue_ok_def kQueueDepth_def nrf_connected_def)
    next
      case up: True
      have "make_room_loop nl left (nrf_delay nl t) = (lost, s')" using Suc(3) True up by (simp add: step)
      from Suc(1) [OF _ this] show ?thesis
        using eff True delay_effect [OF assms, of t] by auto
    qed
  qed
qed

section \<open>What a frame meets\<close>

lemma wire_nonempty: "length env \<le> MESHPIGEON_MAX_FRAME_PAYLOAD \<Longrightarrow> frame_encode_envelope env \<noteq> []"
  by (simp add: frame_encode_envelope_wire frame_encode_wire_def)

definition enqueue :: "byte list \<Rightarrow> 'l nrf_sink \<Rightarrow> 'l nrf_sink" where
  "enqueue bytes s =
     (let i = (ns_head s + ns_count s) mod kQueueDepth in
      s\<lparr>ns_queue := (ns_queue s)[i := \<lparr>qu_len = length bytes, qu_off = 0,
          qu_buf = bytes @ drop (length bytes) (qu_buf (ns_queue s ! i))\<rparr>],
        ns_count := ns_count s + 1\<rparr>)"

lemma enqueue_effect:
  assumes "queue_ok s" "ns_count s < kQueueDepth" "bytes \<noteq> []" "length bytes \<le> FRAME_MAX_WIRE"
  shows "queue_ok (enqueue bytes s) \<and> backlog (enqueue bytes s) = backlog s @ [bytes] \<and> ns_link (enqueue bytes s) = ns_link s"
proof -
  let ?i = "(ns_head s + ns_count s) mod kQueueDepth"
  let ?q = "\<lparr>qu_len = length bytes, qu_off = 0, qu_buf = bytes @ drop (length bytes) (qu_buf (ns_queue s ! ?i))\<rparr>"
  have i: "?i < length (ns_queue s)" by (rule queue_index [OF assms(1)])
  have buf: "length (qu_buf ?q) = FRAME_MAX_WIRE"
    using assms(1,4) i by (simp add: queue_ok_def)
  have at: "queued_at (enqueue bytes s) j = (if j = ns_count s then ?q else queued_at s j)" if "j \<le> ns_count s" for j
    using that i queue_index_inj [of j "ns_count s" "ns_head s"] assms(2)
    by (auto simp: queued_at_def enqueue_def Let_def nth_list_update)
  have bufs: "\<forall>q' \<in> set (ns_queue (enqueue bytes s)). length (qu_buf q') = FRAME_MAX_WIRE"
    using assms(1) buf set_update_subset_insert [of "ns_queue s" ?i ?q]
    by (auto simp: enqueue_def Let_def queue_ok_def)
  have fields: "ns_count (enqueue bytes s) = Suc (ns_count s)" "ns_head (enqueue bytes s) = ns_head s"
    "length (ns_queue (enqueue bytes s)) = length (ns_queue s)"
    by (simp_all add: enqueue_def Let_def)
  have "qu_off (queued_at (enqueue bytes s) j) < qu_len (queued_at (enqueue bytes s) j) \<and>
      qu_len (queued_at (enqueue bytes s) j) \<le> FRAME_MAX_WIRE" if "j < Suc (ns_count s)" for j
  proof (cases "j = ns_count s")
    case True
    then show ?thesis using assms(3,4) at [of j] by simp
  next
    case False
    then show ?thesis using assms(1) that at [of j] by (simp add: queue_ok_def)
  qed
  then have "queue_ok (enqueue bytes s)"
    using bufs assms(1,2) by (simp add: queue_ok_def fields)
  moreover have "backlog (enqueue bytes s) = backlog s @ [bytes]"
  proof -
    have "ns_count (enqueue bytes s) = Suc (ns_count s)" by (simp add: enqueue_def Let_def)
    moreover have "unsent ?q = bytes" by (simp add: unsent_def)
    ultimately show ?thesis by (simp add: backlog_def at)
  qed
  ultimately show ?thesis by (simp add: enqueue_def Let_def)
qed

text \<open>
  C16. The queue to the central.  A frame handed to a connected sink goes behind everything that is
  queued, and the bytes the link has taken followed by the queue are the stream of all frames, as
  long as there is room or room can be made within 50 ms; otherwise (the link is lost, or all
  sixteen places are taken) the frame is queued alone and what was queued is lost.  It is lost also
  when the link is taking bytes: one chunk of a full queue's oldest frame is sent, and unless it was
  the frame's last one all sixteen frames are dropped.
\<close>

theorem nrf_send_frame_stream:
  assumes "link_spec nl sent ms" "queue_ok s" "nrf_connected nl s" "length decoded \<le> MESHPIGEON_MAX_FRAME_PAYLOAD"
  defines "s' \<equiv> nrf_send_frame nl decoded s"
  shows "queue_ok s' \<and> ms (ns_link s') \<le> ms (ns_link s) + kDrainWaitMs \<and>
    (sent (ns_link s') @ concat (backlog s') = sent (ns_link s) @ concat (backlog s) @ frame_encode_envelope decoded \<or>
     backlog s' = [frame_encode_envelope decoded] \<and> prefix (sent (ns_link s')) (sent (ns_link s) @ concat (backlog s)) \<and>
       (\<not> nrf_connected nl s' \<or> ns_count s = kQueueDepth)) \<and>
    (ns_count s = kQueueDepth \<and> kChunk < length (hd (backlog s)) \<and> nrf_connected nl s' \<longrightarrow>
       backlog s' = [frame_encode_envelope decoded])"
proof -
  let ?wire = "frame_encode_envelope decoded"
  note bytes = wire_nonempty [OF assms(4)] frame_encode_envelope_length [of decoded]
  obtain lost t where loop: "make_room_loop nl kDrainWaitMs s = (lost, t)" by (metis surj_pair)
  note eff = make_room_loop_effect [OF assms(1,2) loop]
  define u where "u = nrf_make_room nl s"
  have u: "u = (if \<not> lost \<and> ns_count t = kQueueDepth then t\<lparr>ns_count := 0\<rparr> else t)"
    by (simp add: u_def nrf_make_room_def loop split: bool.split)
  have t_ok: "queue_ok t" "ns_count t \<le> kQueueDepth" using eff by (auto simp: queue_ok_def)
  have u_ok: "queue_ok u" "ns_count u < kQueueDepth"
    using eff t_ok by (auto simp: u queue_ok_def kQueueDepth_def)
  have s': "s' = enqueue ?wire u"
    using assms(3) u_ok(2) by (simp add: s'_def nrf_send_frame_def u_def [symmetric] enqueue_def Let_def)
  note enq = enqueue_effect [OF u_ok bytes]
  have up: "nrf_connected nl s' = nrf_connected nl t"
    by (simp add: s' u enqueue_def Let_def nrf_connected_def)
  have link: "ns_link u = ns_link t" by (simp add: u)
  show ?thesis
  proof (cases "\<not> lost \<and> ns_count t \<noteq> kQueueDepth")
    case True
    then have "u = t" by (simp add: u)
    moreover have "kChunk < length (hd (backlog s)) \<Longrightarrow> ns_count s \<noteq> kQueueDepth" using eff True by simp
    ultimately show ?thesis using eff enq True by (auto simp: s')
  next
    case False
    have none: "ns_count u = 0" "backlog u = []"
      using False eff by (auto simp: u backlog_def)
    have "prefix (sent (ns_link t)) (sent (ns_link s) @ concat (backlog s))"
    proof (cases lost)
      case False
      then have "sent (ns_link s) @ concat (backlog s) = sent (ns_link t) @ concat (backlog t)" using eff by simp
      then show ?thesis by (rule prefixI)
    qed (use eff in simp)
    moreover have "\<not> nrf_connected nl t \<or> ns_count s = kQueueDepth"
      using False eff assms(2) by (auto simp: queue_ok_def)
    ultimately show ?thesis
      using eff enq none up by (simp add: s' [symmetric] link)
  qed
qed

lemma flush_loop_returns:
  assumes "link_spec nl sent ms"
  shows "queue_ok s \<Longrightarrow> \<exists>s'. nrf_flush_loop nl timeout_ms waited s = Some s' \<and> queue_ok s' \<and>
    sent (ns_link s') @ concat (backlog s') = sent (ns_link s) @ concat (backlog s) \<and>
    ms (ns_link s') \<le> ms (ns_link s) + (timeout_ms - waited) \<and>
    (ns_count s' = 0 \<or> ms (ns_link s') = ms (ns_link s) + (timeout_ms - waited))"
proof (induction "timeout_ms - waited + length (concat (backlog s))" arbitrary: waited s rule: less_induct)
  case less
  show ?case
  proof (cases "ns_count s > 0 \<and> waited < timeout_ms")
    case False
    then show ?thesis using less(2) by (subst nrf_flush_loop.simps) auto
  next
    case True
    obtain ok t where d: "nrf_drain_step nl s = (ok, t)" by (metis surj_pair)
    note eff = drain_step_effect [OF assms less(2) d]
    have step: "nrf_flush_loop nl timeout_ms waited s =
        (if ok then nrf_flush_loop nl timeout_ms waited t else nrf_flush_loop nl timeout_ms (waited + 1) (nrf_delay nl t))"
      using True by (subst nrf_flush_loop.simps) (simp add: d)
    show ?thesis
    proof (cases ok)
      case ok: True
      have "timeout_ms - waited + length (concat (backlog t)) < timeout_ms - waited + length (concat (backlog s))"
        using eff ok by simp
      from less(1) [OF this] eff ok show ?thesis by (simp add: step)
    next
      case False
      let ?t = "nrf_delay nl t"
      have t: "backlog ?t = backlog s" "queue_ok ?t" "sent (ns_link ?t) = sent (ns_link s)" "ms (ns_link ?t) = Suc (ms (ns_link s))"
        using eff False delay_effect [OF assms, of t] by simp_all
      have "timeout_ms - (waited + 1) + length (concat (backlog ?t)) < timeout_ms - waited + length (concat (backlog s))"
        unfolding t(1) using True by (intro add_strict_right_mono) arith
      from less(1) [OF this t(2)] obtain s' where s': "nrf_flush_loop nl timeout_ms (waited + 1) ?t = Some s'" "queue_ok s'"
        "sent (ns_link s') @ concat (backlog s') = sent (ns_link s) @ concat (backlog s)"
        "ms (ns_link s') \<le> Suc (ms (ns_link s)) + (timeout_ms - (waited + 1))"
        "ns_count s' = 0 \<or> ms (ns_link s') = Suc (ms (ns_link s)) + (timeout_ms - (waited + 1))"
        unfolding t by blast
      have left: "Suc (ms (ns_link s)) + (timeout_ms - (waited + 1)) = ms (ns_link s) + (timeout_ms - waited)"
        using True by linarith
      show ?thesis using s' False unfolding left by (intro exI [of _ s']) (simp add: step)
    qed
  qed
qed

text \<open>
  Flushing ends.  Before a restart the queue is pushed out: the loop always returns, whatever
  the link does, has waited at most the time allowed, has sent a prefix of what was queued and kept
  the rest, and returns early only when everything is sent.
\<close>

theorem nrf_flush_returns:
  assumes "link_spec nl sent ms" "queue_ok s"
  shows "\<exists>s'. nrf_flush nl timeout_ms s = Some s' \<and> queue_ok s' \<and>
    sent (ns_link s') @ concat (backlog s') = sent (ns_link s) @ concat (backlog s) \<and>
    ms (ns_link s') \<le> ms (ns_link s) + timeout_ms \<and>
    (ns_count s' = 0 \<or> ms (ns_link s') = ms (ns_link s) + timeout_ms)"
  using flush_loop_returns [OF assms, of timeout_ms 0] by (simp add: nrf_flush_def)

text \<open>A link that takes at most eight bytes at a time and none in the first millisecond.\<close>

definition slow_link :: "(byte list \<times> nat) nrf_link" where
  "slow_link = \<lparr>nl_connected = (\<lambda>l. 1),
     nl_write = (\<lambda>bytes l. let n = (if snd l = 0 then 0 else min 8 (length bytes)) in (n, (fst l @ take n bytes, snd l))),
     nl_delay = (\<lambda>l. ([], (fst l, Suc (snd l))))\<rparr>"

definition one_queued :: "(byte list \<times> nat) nrf_sink" where
  "one_queued = \<lparr>ns_reader = frame_reader_reset,
     ns_queue = replicate kQueueDepth \<lparr>qu_len = 30, qu_off = 0, qu_buf = replicate FRAME_MAX_WIRE 7\<rparr>,
     ns_head = 0, ns_count = 1, ns_connected = True, ns_drop_pending = False, ns_link = ([], 0)\<rparr>"

lemma slow_link_spec: "link_spec slow_link fst snd"
  by (simp add: link_spec_def slow_link_def Let_def)

lemma one_queued_ok: "queue_ok one_queued" "nrf_connected slow_link one_queued"
  by (simp_all add: queue_ok_def one_queued_def kQueueDepth_def queued_at_def frame_limits nrf_connected_def slow_link_def)

lemma nrf_send_frame_stream_witness:
  "let s' = nrf_send_frame slow_link [1, 2, 3] one_queued in
     queue_ok s' \<and> snd (ns_link s') \<le> kDrainWaitMs"
  using nrf_send_frame_stream [OF slow_link_spec one_queued_ok, of "[1, 2, 3]"]
  by (simp add: Let_def frame_limits) (simp add: one_queued_def)

lemma nrf_flush_returns_witness:
  "\<exists>s'. nrf_flush slow_link 100 one_queued = Some s' \<and> snd (ns_link s') \<le> 100 \<and>
    fst (ns_link s') @ concat (backlog s') = concat (backlog one_queued)"
  using nrf_flush_returns [OF slow_link_spec one_queued_ok(1), of 100]
  by (auto simp: one_queued_def)

end
