(* ===== verification/BoardStore.thy ===== *)
theory BoardStore
  imports Settings Clock
begin

text \<open>
  \<open>BoardSettingsStore\<close> of \<open>src/main.cpp\<close>, in both builds: the ESP32 one over the key-value store NVS
  (\<open>Preferences\<close>), the nRF52 one over files of the internal flash file system, with the
  write-to-a-temporary-file-and-rename of \<open>write_record\<close>.

  The two storage libraries are records of the calls the code makes, over a state of their own, and
  \<open>nvs_spec\<close> and \<open>fs_spec\<close> say what they are documented to do in terms of what they hold.
\<close>

type_synonym key = string

section \<open>ESP32: NVS\<close>

record 'n nvs_api =
  nv_put_bytes :: "key \<Rightarrow> byte list \<Rightarrow> 'n \<Rightarrow> nat \<times> 'n"
  nv_bytes_length :: "key \<Rightarrow> 'n \<Rightarrow> nat"
  nv_get_bytes :: "key \<Rightarrow> nat \<Rightarrow> 'n \<Rightarrow> byte list"
  nv_remove :: "key \<Rightarrow> 'n \<Rightarrow> 'n"
  nv_get_ulong :: "key \<Rightarrow> u32 \<Rightarrow> 'n \<Rightarrow> u32"
  nv_put_ulong :: "key \<Rightarrow> u32 \<Rightarrow> 'n \<Rightarrow> 'n"

definition esp_save :: "'n nvs_api \<Rightarrow> radio_settings \<Rightarrow> 'n \<Rightarrow> 'n \<times> bool" where
  "esp_save nv s n =
     (let buf = radio_serialize s; (written, n) = nv_put_bytes nv ''radio'' buf n
      in (n, written = radio_kSerializedSize))"

definition esp_load :: "'n nvs_api \<Rightarrow> radio_settings \<Rightarrow> 'n \<Rightarrow> radio_settings \<times> bool" where
  "esp_load nv out n =
     (if nv_bytes_length nv ''radio'' n \<noteq> radio_kSerializedSize then (out, False)
      else radio_deserialize (nv_get_bytes nv ''radio'' radio_kSerializedSize n))"

definition esp_load_boot_count :: "'n nvs_api \<Rightarrow> 'n \<Rightarrow> u32" where
  "esp_load_boot_count nv n = nv_get_ulong nv ''boots'' 0 n"

definition esp_save_boot_count :: "'n nvs_api \<Rightarrow> u32 \<Rightarrow> 'n \<Rightarrow> 'n" where
  "esp_save_boot_count nv k n = nv_put_ulong nv ''boots'' k n"

definition esp_save_device :: "'n nvs_api \<Rightarrow> device_settings \<Rightarrow> 'n \<Rightarrow> 'n \<times> bool" where
  "esp_save_device nv d n =
     (let buf = device_serialize d; (written, n) = nv_put_bytes nv ''dev'' buf n
      in (n, written = device_kSerializedSize))"

definition esp_load_device :: "'n nvs_api \<Rightarrow> 'n \<Rightarrow> device_settings \<times> bool" where
  "esp_load_device nv n =
     (if nv_bytes_length nv ''dev'' n \<noteq> device_kSerializedSize then (device_defaults, False)
      else device_deserialize (nv_get_bytes nv ''dev'' device_kSerializedSize n))"

definition esp_clear_device :: "'n nvs_api \<Rightarrow> 'n \<Rightarrow> 'n" where
  "esp_clear_device nv n = nv_remove nv ''dev'' n"

section \<open>nRF52: files\<close>

text \<open>
  A \<open>File\<close> opened for writing is known by its path.  \<open>fs_read\<close> returns the bytes \<open>read\<close> put into the
  buffer.  \<open>InternalFS.begin()\<close> mounts the file system; what it leaves behind is not kept by the
  functions that only read.
\<close>

record 'f fs_api =
  fs_begin :: "'f \<Rightarrow> 'f"
  fs_exists :: "key \<Rightarrow> 'f \<Rightarrow> bool"
  fs_remove :: "key \<Rightarrow> 'f \<Rightarrow> 'f"
  fs_open_read :: "key \<Rightarrow> 'f \<Rightarrow> bool"
  fs_read :: "key \<Rightarrow> nat \<Rightarrow> 'f \<Rightarrow> byte list"
  fs_open_write :: "key \<Rightarrow> 'f \<Rightarrow> bool \<times> 'f"
  fs_write :: "key \<Rightarrow> byte list \<Rightarrow> 'f \<Rightarrow> nat \<times> 'f"
  fs_close :: "key \<Rightarrow> 'f \<Rightarrow> 'f"
  fs_rename :: "key \<Rightarrow> key \<Rightarrow> 'f \<Rightarrow> bool \<times> 'f"

definition kTmp :: key where "kTmp = ''/tmp.bin''"

definition write_record :: "'f fs_api \<Rightarrow> key \<Rightarrow> byte list \<Rightarrow> 'f \<Rightarrow> 'f \<times> bool" where
  "write_record fs path buf f =
     (let f = fs_begin fs f;
          f = fs_remove fs kTmp f;
          (opened, f) = fs_open_write fs kTmp f
      in if \<not> opened then (f, False)
         else let (n, f) = fs_write fs kTmp buf f; ok = (n = length buf); f = fs_close fs kTmp f in
           if ok then (case fs_rename fs kTmp path f of (renamed, f) \<Rightarrow> (f, renamed)) else (f, False))"

definition nrf_save :: "'f fs_api \<Rightarrow> radio_settings \<Rightarrow> 'f \<Rightarrow> 'f \<times> bool" where
  "nrf_save fs s f = write_record fs ''/radio.bin'' (radio_serialize s) f"

definition nrf_load :: "'f fs_api \<Rightarrow> radio_settings \<Rightarrow> 'f \<Rightarrow> radio_settings \<times> bool" where
  "nrf_load fs out f =
     (let f = fs_begin fs f in
      if \<not> fs_exists fs ''/radio.bin'' f then (out, False)
      else if \<not> fs_open_read fs ''radio.bin'' f then (out, False)
      else let buf = fs_read fs ''radio.bin'' radio_kSerializedSize f in
        if length buf \<noteq> radio_kSerializedSize then (out, False) else radio_deserialize buf)"

definition nrf_load_boot_count :: "'f fs_api \<Rightarrow> 'f \<Rightarrow> u32" where
  "nrf_load_boot_count fs f =
     (let f = fs_begin fs f in
      if \<not> fs_exists fs ''/boots.bin'' f then 0
      else if \<not> fs_open_read fs ''boots.bin'' f then 0
      else let buf = fs_read fs ''boots.bin'' 4 f in
        if length buf \<noteq> 4 then 0 else get_u32 (buf ! 0) (buf ! 1) (buf ! 2) (buf ! 3))"

definition nrf_save_boot_count :: "'f fs_api \<Rightarrow> u32 \<Rightarrow> 'f \<Rightarrow> 'f" where
  "nrf_save_boot_count fs n f = fst (write_record fs ''/boots.bin'' (put_u32 n) f)"

definition nrf_save_device :: "'f fs_api \<Rightarrow> device_settings \<Rightarrow> 'f \<Rightarrow> 'f \<times> bool" where
  "nrf_save_device fs d f = write_record fs ''/dev.bin'' (device_serialize d) f"

definition nrf_load_device :: "'f fs_api \<Rightarrow> 'f \<Rightarrow> device_settings \<times> bool" where
  "nrf_load_device fs f =
     (let f = fs_begin fs f in
      if \<not> fs_exists fs ''/dev.bin'' f then (device_defaults, False)
      else if \<not> fs_open_read fs ''dev.bin'' f then (device_defaults, False)
      else let buf = fs_read fs ''dev.bin'' device_kSerializedSize f in
        if length buf \<noteq> device_kSerializedSize then (device_defaults, False) else device_deserialize buf)"

definition nrf_clear_device :: "'f fs_api \<Rightarrow> 'f \<Rightarrow> 'f" where
  "nrf_clear_device fs f = fs_remove fs ''/dev.bin'' (fs_begin fs f)"

section \<open>What the libraries are documented to do\<close>

text \<open>
  NVS replaces a value or, when \<open>putBytes\<close> does not report the whole length, keeps what it had;
  the length of a value that is not there is 0; the values of different types share no key here.
\<close>

definition nvs_spec :: "'n nvs_api \<Rightarrow> ('n \<Rightarrow> key \<Rightarrow> byte list option) \<Rightarrow> ('n \<Rightarrow> key \<Rightarrow> u32 option) \<Rightarrow> bool" where
  "nvs_spec nv blobs longs \<longleftrightarrow>
     (\<forall>k buf n. (if fst (nv_put_bytes nv k buf n) = length buf
        then blobs (snd (nv_put_bytes nv k buf n)) = (blobs n)(k := Some buf)
        else blobs (snd (nv_put_bytes nv k buf n)) = blobs n) \<and> longs (snd (nv_put_bytes nv k buf n)) = longs n) \<and>
     (\<forall>k n. nv_bytes_length nv k n = (case blobs n k of None \<Rightarrow> 0 | Some buf \<Rightarrow> length buf)) \<and>
     (\<forall>k len buf n. blobs n k = Some buf \<longrightarrow> nv_get_bytes nv k len n = take len buf) \<and>
     (\<forall>k n. blobs (nv_remove nv k n) = (blobs n)(k := None) \<and> longs (nv_remove nv k n) = longs n) \<and>
     (\<forall>k d n. nv_get_ulong nv k d n = (case longs n k of None \<Rightarrow> d | Some v \<Rightarrow> v)) \<and>
     (\<forall>k v n. longs (nv_put_ulong nv k v n) = (longs n)(k := Some v) \<and> blobs (nv_put_ulong nv k v n) = blobs n)"

text \<open>
  The file system: a path without a leading slash names the same file; a file opened for writing is
  created or appended to; a rename replaces the target in one step or does nothing.
\<close>

definition rooted :: "key \<Rightarrow> key" where
  "rooted p = (if p \<noteq> [] \<and> hd p = CHR ''/'' then p else CHR ''/'' # p)"

definition fs_spec :: "'f fs_api \<Rightarrow> ('f \<Rightarrow> key \<Rightarrow> byte list option) \<Rightarrow> bool" where
  "fs_spec fs files \<longleftrightarrow>
     (\<forall>f. files (fs_begin fs f) = files f) \<and>
     (\<forall>p f. fs_exists fs p f = (files f (rooted p) \<noteq> None)) \<and>
     (\<forall>p f. files (fs_remove fs p f) = (files f)(rooted p := None)) \<and>
     (\<forall>p f. fs_open_read fs p f = (files f (rooted p) \<noteq> None)) \<and>
     (\<forall>p n buf f. files f (rooted p) = Some buf \<longrightarrow> fs_read fs p n f = take n buf) \<and>
     (\<forall>p f. if fst (fs_open_write fs p f)
        then files (snd (fs_open_write fs p f)) =
          (files f)(rooted p := Some (case files f (rooted p) of None \<Rightarrow> [] | Some old \<Rightarrow> old))
        else files (snd (fs_open_write fs p f)) = files f) \<and>
     (\<forall>p buf old f. files f (rooted p) = Some old \<longrightarrow> fst (fs_write fs p buf f) \<le> length buf \<and>
        files (snd (fs_write fs p buf f)) = (files f)(rooted p := Some (old @ take (fst (fs_write fs p buf f)) buf))) \<and>
     (\<forall>p f. files (fs_close fs p f) = files f) \<and>
     (\<forall>p q f. if fst (fs_rename fs p q f)
        then files f (rooted p) \<noteq> None \<and>
          files (snd (fs_rename fs p q f)) = (files f)(rooted q := files f (rooted p), rooted p := None)
        else files (snd (fs_rename fs p q f)) = files f)"

text \<open>The files the firmware uses.\<close>

definition tmp_file :: key where "tmp_file = ''/tmp.bin''"
definition radio_file :: key where "radio_file = ''/radio.bin''"
definition dev_file :: key where "dev_file = ''/dev.bin''"
definition boots_file :: key where "boots_file = ''/boots.bin''"

lemma rooted_paths [simp]:
  "rooted kTmp = tmp_file" "rooted ''/radio.bin'' = radio_file" "rooted ''radio.bin'' = radio_file"
  "rooted ''/dev.bin'' = dev_file" "rooted ''dev.bin'' = dev_file"
  "rooted ''/boots.bin'' = boots_file" "rooted ''boots.bin'' = boots_file"
  by (simp_all add: rooted_def kTmp_def tmp_file_def radio_file_def dev_file_def boots_file_def)

lemma files_distinct [simp]:
  "radio_file \<noteq> tmp_file" "dev_file \<noteq> tmp_file" "boots_file \<noteq> tmp_file" "radio_file \<noteq> dev_file" "dev_file \<noteq> radio_file"
  "radio_file \<noteq> boots_file" "boots_file \<noteq> radio_file" "dev_file \<noteq> boots_file" "boots_file \<noteq> dev_file"
  by (simp_all add: tmp_file_def radio_file_def dev_file_def boots_file_def)

lemma fs_specD:
  assumes "fs_spec fs files"
  shows "files (fs_begin fs f) = files f" "fs_exists fs p f = (files f (rooted p) \<noteq> None)"
    "files (fs_remove fs p f) = (files f)(rooted p := None)" "fs_open_read fs p f = (files f (rooted p) \<noteq> None)"
    "files f (rooted p) = Some buf \<Longrightarrow> fs_read fs p n f = take n buf" "files (fs_close fs p f) = files f"
    "files f (rooted p) = None \<Longrightarrow> fs_open_write fs p f = (ok, f') \<Longrightarrow>
       files f' = (if ok then (files f)(rooted p := Some []) else files f)"
    "files f (rooted p) = Some old \<Longrightarrow> fs_write fs p buf f = (n, f') \<Longrightarrow>
       n \<le> length buf \<and> files f' = (files f)(rooted p := Some (old @ take n buf))"
    "fs_rename fs p q f = (ok, f') \<Longrightarrow>
       files f' = (if ok then (files f)(rooted q := files f (rooted p), rooted p := None) else files f)"
  using assms unfolding fs_spec_def
  by (simp_all) (metis fst_conv snd_conv option.simps(4), metis fst_conv snd_conv, metis fst_conv snd_conv)

section \<open>The nRF52 records\<close>

text \<open>The calls of \<open>write_record\<close> one by one.\<close>

lemma write_record_calls:
  assumes "fs_spec fs files"
  obtains opened n renamed f2 f3 f4 f6 where
    "f2 = fs_remove fs kTmp (fs_begin fs f)" "fs_open_write fs kTmp f2 = (opened, f3)"
    "fs_write fs kTmp buf f3 = (n, f4)" "fs_rename fs kTmp path (fs_close fs kTmp f4) = (renamed, f6)"
    "\<And>p. p \<noteq> tmp_file \<Longrightarrow> files f2 p = files f p" "\<And>p. p \<noteq> tmp_file \<Longrightarrow> files f3 p = files f p"
    "\<And>p. opened \<Longrightarrow> p \<noteq> tmp_file \<Longrightarrow> files f4 p = files f p"
    "\<And>p. opened \<Longrightarrow> n = length buf \<Longrightarrow> p \<noteq> tmp_file \<Longrightarrow>
       files f6 p = (if renamed \<and> p = rooted path then Some buf else files f p)"
proof -
  note spec = fs_specD [OF assms]
  define f2 where "f2 = fs_remove fs kTmp (fs_begin fs f)"
  have f2: "files f2 = (files f)(tmp_file := None)" by (simp add: f2_def spec(1,3))
  obtain opened f3 where o: "fs_open_write fs kTmp f2 = (opened, f3)" by (metis surj_pair)
  have f3: "files f3 = (if opened then (files f2)(tmp_file := Some []) else files f2)"
    using spec(7) [OF _ o] f2 by simp
  obtain n f4 where w: "fs_write fs kTmp buf f3 = (n, f4)" by (metis surj_pair)
  have f4: "files f4 = (files f)(tmp_file := Some (take n buf))" if opened
    using spec(8) [OF _ w, of "[]"] f3 f2 that by simp
  obtain r f6 where ren: "fs_rename fs kTmp path (fs_close fs kTmp f4) = (r, f6)" by (metis surj_pair)
  have f6: "files f6 = (if r then (files f4)(rooted path := files f4 tmp_file, tmp_file := None) else files f4)"
    using spec(9) [OF ren] by (simp add: spec(6))
  have end6: "files f6 p = (if r \<and> p = rooted path then Some buf else files f p)"
    if "opened" "n = length buf" "p \<noteq> tmp_file" for p
    using that(3) by (simp add: f6 f4 [OF that(1)] that(2))
  show ?thesis
  proof (rule that [OF f2_def o w ren])
    show "files f2 p = files f p" if "p \<noteq> tmp_file" for p using that by (simp add: f2)
    show "files f3 p = files f p" if "p \<noteq> tmp_file" for p using that by (simp add: f3 f2)
    show "files f4 p = files f p" if opened "p \<noteq> tmp_file" for p using that by (simp add: f4)
  qed (rule end6)
qed

lemma write_record_effect:
  assumes "fs_spec fs files" "write_record fs path buf f = (f', ok)" "p \<noteq> tmp_file"
  shows "files f' p = (if ok \<and> p = rooted path then Some buf else files f p)"
proof (rule write_record_calls [OF assms(1), of f buf path])
  fix opened n renamed f2 f3 f4 f6
  assume f2: "f2 = fs_remove fs kTmp (fs_begin fs f)" and o: "fs_open_write fs kTmp f2 = (opened, f3)"
    and w: "fs_write fs kTmp buf f3 = (n, f4)" and r: "fs_rename fs kTmp path (fs_close fs kTmp f4) = (renamed, f6)"
    and keep: "\<And>p. p \<noteq> tmp_file \<Longrightarrow> files f3 p = files f p" "\<And>p. opened \<Longrightarrow> p \<noteq> tmp_file \<Longrightarrow> files f4 p = files f p"
    and fin: "\<And>p. opened \<Longrightarrow> n = length buf \<Longrightarrow> p \<noteq> tmp_file \<Longrightarrow>
       files f6 p = (if renamed \<and> p = rooted path then Some buf else files f p)"
  have "write_record fs path buf f = (if \<not> opened then (f3, False)
      else if n = length buf then (f6, renamed) else (fs_close fs kTmp f4, False))"
    by (simp add: write_record_def f2 [symmetric] o w r)
  then show ?thesis
    using assms(2,3) keep fin by (cases opened; cases "n = length buf") (auto simp: fs_specD(6) [OF assms(1)])
qed

text \<open>The states a power cut can leave behind: those between two calls of \<open>write_record\<close>.\<close>

definition write_record_cuts :: "'f fs_api \<Rightarrow> key \<Rightarrow> byte list \<Rightarrow> 'f \<Rightarrow> 'f list" where
  "write_record_cuts fs path buf f =
     (let f1 = fs_begin fs f; f2 = fs_remove fs kTmp f1; (opened, f3) = fs_open_write fs kTmp f2 in
      [f, f1, f2, f3] @
      (if \<not> opened then []
       else let (n, f4) = fs_write fs kTmp buf f3; f5 = fs_close fs kTmp f4 in
         [f4, f5] @ (if n = length buf then [snd (fs_rename fs kTmp path f5)] else [])))"

lemma write_record_cut:
  assumes "fs_spec fs files" "g \<in> set (write_record_cuts fs path buf f)" "p \<noteq> tmp_file"
  shows "files g p = files f p \<or> p = rooted path \<and> files g p = Some buf"
proof (rule write_record_calls [OF assms(1), of f buf path])
  fix opened n renamed f2 f3 f4 f6
  assume f2: "f2 = fs_remove fs kTmp (fs_begin fs f)" and o: "fs_open_write fs kTmp f2 = (opened, f3)"
    and w: "fs_write fs kTmp buf f3 = (n, f4)" and r: "fs_rename fs kTmp path (fs_close fs kTmp f4) = (renamed, f6)"
    and keep: "\<And>p. p \<noteq> tmp_file \<Longrightarrow> files f2 p = files f p" "\<And>p. p \<noteq> tmp_file \<Longrightarrow> files f3 p = files f p"
      "\<And>p. opened \<Longrightarrow> p \<noteq> tmp_file \<Longrightarrow> files f4 p = files f p"
    and fin: "\<And>p. opened \<Longrightarrow> n = length buf \<Longrightarrow> p \<noteq> tmp_file \<Longrightarrow>
       files f6 p = (if renamed \<and> p = rooted path then Some buf else files f p)"
  have "g \<in> {f, fs_begin fs f, f2, f3} \<or> opened \<and> g \<in> {f4, fs_close fs kTmp f4} \<or> opened \<and> n = length buf \<and> g = f6"
    using assms(2) by (cases opened; cases "n = length buf") (simp_all add: write_record_cuts_def f2 [symmetric] o w r)
  then show ?thesis
    using keep fin assms(3) by (elim disjE) (auto simp: fs_specD(1,6) [OF assms(1)])
qed

text \<open>What a load returns depends on its file only.\<close>

lemma nrf_load_file:
  assumes "fs_spec fs files"
  shows "nrf_load fs out f = (case files f radio_file of None \<Rightarrow> (out, False)
      | Some buf \<Rightarrow> if length buf < radio_kSerializedSize then (out, False)
                    else radio_deserialize (take radio_kSerializedSize buf))"
    "nrf_load_device fs f = (case files f dev_file of None \<Rightarrow> (device_defaults, False)
      | Some buf \<Rightarrow> if length buf < device_kSerializedSize then (device_defaults, False)
                    else device_deserialize (take device_kSerializedSize buf))"
    "nrf_load_boot_count fs f = (case files f boots_file of None \<Rightarrow> 0
      | Some buf \<Rightarrow> if length buf < 4 then 0 else get_u32 (buf ! 0) (buf ! 1) (buf ! 2) (buf ! 3))"
  by (simp_all add: nrf_load_def nrf_load_device_def nrf_load_boot_count_def Let_def min_def not_less
        fs_specD(1,2,4,5) [OF assms] split: option.split)

lemma nrf_store_laws:
  assumes "fs_spec fs files"
  shows "settings_store (nrf_save fs) (nrf_load fs) (nrf_save_device fs) (nrf_load_device fs) (nrf_clear_device fs)"
proof -
  have radio: "files s' p = (if ok \<and> p = radio_file then Some (radio_serialize r) else files s p)"
    if "nrf_save fs r s = (s', ok)" "p \<noteq> tmp_file" for r s s' ok p
    using write_record_effect [OF assms that(1) [unfolded nrf_save_def] that(2)] by simp
  have device: "files s' p = (if ok \<and> p = dev_file then Some (device_serialize d) else files s p)"
    if "nrf_save_device fs d s = (s', ok)" "p \<noteq> tmp_file" for d s s' ok p
    using write_record_effect [OF assms that(1) [unfolded nrf_save_device_def] that(2)] by simp
  have cleared: "files (nrf_clear_device fs s) = (files s)(dev_file := None)" for s
    by (simp add: nrf_clear_device_def fs_specD(1,3) [OF assms])
  show ?thesis
  proof (unfold_locales, goal_cases)
    case (1 r s s' out)
    then show ?case using radio [of r s s' True]
      by (simp add: nrf_load_file [OF assms] length_radio_serialize radio_deserialize_serialize)
  next
    case (2 r s s' out)
    then show ?case using radio [of r s s' False] by (simp add: nrf_load_file [OF assms])
  next
    case (3 d s s')
    then show ?case using device [of d s s' True]
      by (simp add: nrf_load_file [OF assms] length_device_serialize device_deserialize_serialize)
  next
    case (4 d s s')
    then show ?case using device [of d s s' False] by (simp add: nrf_load_file [OF assms])
  next
    case (6 r s)
    then show ?case using radio [of r s] by (cases "nrf_save fs r s") (simp add: nrf_load_file [OF assms])
  next
    case (7 out d s)
    then show ?case using device [of d s] by (cases "nrf_save_device fs d s") (simp add: nrf_load_file [OF assms])
  qed (simp_all add: nrf_load_file [OF assms] cleared)
qed

section \<open>The ESP32 records\<close>

lemma nvs_specD:
  assumes "nvs_spec nv blobs longs"
  shows "nv_put_bytes nv k buf n = (w, n') \<Longrightarrow>
      blobs n' = (if w = length buf then (blobs n)(k := Some buf) else blobs n) \<and> longs n' = longs n"
    "nv_bytes_length nv k n = (case blobs n k of None \<Rightarrow> 0 | Some buf \<Rightarrow> length buf)"
    "blobs n k = Some buf \<Longrightarrow> nv_get_bytes nv k len n = take len buf"
    "blobs (nv_remove nv k n) = (blobs n)(k := None)" "longs (nv_remove nv k n) = longs n"
    "nv_get_ulong nv k d n = (case longs n k of None \<Rightarrow> d | Some v \<Rightarrow> v)"
    "longs (nv_put_ulong nv k v n) = (longs n)(k := Some v)" "blobs (nv_put_ulong nv k v n) = blobs n"
  using assms unfolding nvs_spec_def by (simp_all) (metis fst_conv snd_conv)

lemma esp_load_blob:
  assumes "nvs_spec nv blobs longs"
  shows "esp_load nv out n = (case blobs n ''radio'' of None \<Rightarrow> (out, False)
      | Some buf \<Rightarrow> if length buf = radio_kSerializedSize then radio_deserialize buf else (out, False))"
    "esp_load_device nv n = (case blobs n ''dev'' of None \<Rightarrow> (device_defaults, False)
      | Some buf \<Rightarrow> if length buf = device_kSerializedSize then device_deserialize buf else (device_defaults, False))"
  by (auto simp: esp_load_def esp_load_device_def nvs_specD(2,3) [OF assms] radio_kSerializedSize_def
      device_kSerializedSize_def split: option.split)

lemma esp_store_laws:
  assumes "nvs_spec nv blobs longs"
  shows "settings_store (esp_save nv) (esp_load nv) (esp_save_device nv) (esp_load_device nv) (esp_clear_device nv)"
proof -
  have radio: "blobs s' = (if ok then (blobs s)(''radio'' := Some (radio_serialize r)) else blobs s)"
    if "esp_save nv r s = (s', ok)" for r s s' ok
  proof -
    obtain w t where p: "nv_put_bytes nv ''radio'' (radio_serialize r) s = (w, t)" by (metis surj_pair)
    then show ?thesis using that nvs_specD(1) [OF assms p] by (auto simp: esp_save_def length_radio_serialize)
  qed
  have device: "blobs s' = (if ok then (blobs s)(''dev'' := Some (device_serialize d)) else blobs s)"
    if "esp_save_device nv d s = (s', ok)" "device_wf d" for d s s' ok
  proof -
    obtain w t where p: "nv_put_bytes nv ''dev'' (device_serialize d) s = (w, t)" by (metis surj_pair)
    then show ?thesis
      using that nvs_specD(1) [OF assms p] by (auto simp: esp_save_device_def length_device_serialize)
  qed
  show ?thesis
  proof (unfold_locales, goal_cases)
    case (1 r s s' out)
    then show ?case using radio [of r s s' True]
      by (simp add: esp_load_blob [OF assms] length_radio_serialize radio_deserialize_serialize)
  next
    case (2 r s s' out)
    then show ?case using radio [of r s s' False] by (simp add: esp_load_blob [OF assms])
  next
    case (3 d s s')
    then show ?case using device [of d s s' True]
      by (simp add: esp_load_blob [OF assms] length_device_serialize device_deserialize_serialize)
  next
    case (4 d s s')
    then show ?case using device [of d s s' False] by (simp add: esp_load_blob [OF assms])
  next
    case (6 r s)
    then show ?case using radio [of r s] by (cases "esp_save nv r s") (simp add: esp_load_blob [OF assms])
  next
    case (7 out d s)
    obtain w t where p: "nv_put_bytes nv ''dev'' (device_serialize d) s = (w, t)" by (metis surj_pair)
    then show ?case
      using nvs_specD(1) [OF assms p] by (simp add: esp_save_device_def esp_load_blob [OF assms])
  qed (simp_all add: esp_load_blob [OF assms] esp_clear_device_def nvs_specD(4) [OF assms])
qed

section \<open>Properties\<close>

definition nrf_run :: "'f fs_api \<Rightarrow> store_op \<Rightarrow> 'f \<Rightarrow> 'f \<times> bool" where
  "nrf_run fs = settings_store.run_op (nrf_save fs) (nrf_save_device fs) (nrf_clear_device fs)"

definition nrf_view :: "'f fs_api \<Rightarrow> 'f \<Rightarrow> store_view" where
  "nrf_view fs = settings_store.view (nrf_load fs) (nrf_load_device fs)"

definition esp_run :: "'n nvs_api \<Rightarrow> store_op \<Rightarrow> 'n \<Rightarrow> 'n \<times> bool" where
  "esp_run nv = settings_store.run_op (esp_save nv) (esp_save_device nv) (esp_clear_device nv)"

definition esp_view :: "'n nvs_api \<Rightarrow> 'n \<Rightarrow> store_view" where
  "esp_view nv = settings_store.view (esp_load nv) (esp_load_device nv)"

lemma boot_count_round_trip:
  "nvs_spec nv blobs longs \<Longrightarrow> esp_load_boot_count nv (esp_save_boot_count nv n s) = n"
  by (simp add: esp_load_boot_count_def esp_save_boot_count_def nvs_specD)

lemma nrf_boot_count:
  assumes "fs_spec fs files" "write_record fs ''/boots.bin'' (put_u32 n) f = (f', ok)"
  shows "nrf_load_boot_count fs f' = (if ok then n else nrf_load_boot_count fs f)"
  using write_record_effect [OF assms, of boots_file]
  by (simp add: nrf_load_file [OF assms(1)] length_put) (simp add: put_u32_def get_put_u32)



text \<open>A file system and an NVS partition that are maps, for the witnesses.\<close>

definition map_fs :: "(key \<Rightarrow> byte list option) fs_api" where
  "map_fs = \<lparr>fs_begin = (\<lambda>f. f), fs_exists = (\<lambda>p f. f (rooted p) \<noteq> None), fs_remove = (\<lambda>p f. f(rooted p := None)),
     fs_open_read = (\<lambda>p f. f (rooted p) \<noteq> None), fs_read = (\<lambda>p n f. take n (the (f (rooted p)))),
     fs_open_write = (\<lambda>p f. (True, f(rooted p := Some (case f (rooted p) of None \<Rightarrow> [] | Some old \<Rightarrow> old)))),
     fs_write = (\<lambda>p buf f. (length buf, f(rooted p := Some (the (f (rooted p)) @ buf)))), fs_close = (\<lambda>p f. f),
     fs_rename = (\<lambda>p q f. if f (rooted p) = None then (False, f)
       else (True, f(rooted q := f (rooted p), rooted p := None)))\<rparr>"

definition map_nvs :: "((key \<Rightarrow> byte list option) \<times> (key \<Rightarrow> u32 option)) nvs_api" where
  "map_nvs = \<lparr>nv_put_bytes = (\<lambda>k buf n. (length buf, ((fst n)(k := Some buf), snd n))),
     nv_bytes_length = (\<lambda>k n. case fst n k of None \<Rightarrow> 0 | Some buf \<Rightarrow> length buf),
     nv_get_bytes = (\<lambda>k len n. take len (the (fst n k))), nv_remove = (\<lambda>k n. ((fst n)(k := None), snd n)),
     nv_get_ulong = (\<lambda>k d n. case snd n k of None \<Rightarrow> d | Some v \<Rightarrow> v),
     nv_put_ulong = (\<lambda>k v n. (fst n, (snd n)(k := Some v)))\<rparr>"

lemma map_fs_spec: "fs_spec map_fs (\<lambda>f. f)" and map_nvs_spec: "nvs_spec map_nvs fst snd"
  by (simp_all add: fs_spec_def map_fs_def nvs_spec_def map_nvs_def)



end
