(* ===== verification/WifiTransport.thy ===== *)
theory WifiTransport
  imports Sessions RxFifo "HOL-Library.Sublist"
begin

text \<open>
  \<open>WifiTransport\<close> (\<open>src/wifi_transport.h\<close>, \<open>src/wifi_transport.cpp\<close>): the link state machine with its
  retry ladder, the TCP server, four client slots and the bounded write of a frame to a socket.

  The transport's members and the processor form one record; slot \<open>i\<close> is the client \<open>tcp i\<close> of the
  processor.  Calls into the Wi-Fi, server and mDNS libraries are recorded in order.  What a tick of
  the board loop sees is the record \<open>wifi_tick\<close>: the one reading of the link status and of the
  millisecond counter, whether a connection is pending, what each socket has received, which are
  still connected, and which frames a socket would not take in full.  The board hooks the processor
  asks answer with the transport's state at the time they are asked.
\<close>

section \<open>State\<close>

definition kBackoffStartMs :: u32 where "kBackoffStartMs = 5000"
definition kBackoffMaxMs :: u32 where "kBackoffMaxMs = 120000"
definition kWriteBudgetMs :: u32 where "kWriteBudgetMs = 250"
definition kMaxClients :: nat where "kMaxClients = 4"

definition tcp :: "nat \<Rightarrow> sink" where "tcp i = 4 + i"

datatype wifi_state = State_OFF | State_CONNECTING | State_CONNECTED | State_AUTH_FAIL | State_ERROR

datatype wl_status = WL_CONNECTED | WL_NO_SSID_AVAIL | WL_CONNECT_FAILED | WL_OTHER

record wifi_client =
  wc_reader :: frame_reader
  wc_in_use :: bool
  wc_broken :: bool

datatype wifi_call =
    Wifi_Mode_Off
  | Wifi_Mode_Sta
  | Wifi_Set_Sleep bool
  | Wifi_Set_Auto_Reconnect bool
  | Wifi_Begin "byte list" "byte list"
  | Wifi_Disconnect
  | Server_New u16
  | Server_Begin
  | Server_Set_No_Delay
  | Server_Delete
  | Mdns_Begin "byte list"
  | Mdns_Add_Service u16
  | Mdns_End
  | Client_Stop nat
  | Accepted_Stop

record wifi_tick =
  wt_status :: wl_status
  wt_millis :: u32
  wt_pending :: bool
  wt_received :: "nat \<Rightarrow> byte list"
  wt_connected :: "nat \<Rightarrow> bool"
  wt_refuses :: "nat \<Rightarrow> byte list \<Rightarrow> bool"
  wt_mdns_ok :: bool

record wifi_link =
  wl_ssid :: "byte list"
  wl_local_ip :: "byte list"
  wl_rssi :: u32

record wifi_transport =
  wf_proc :: command_processor
  wf_board :: board_hooks
  wf_link :: wifi_link
  wf_settings :: device_settings
  wf_state :: wifi_state
  wf_hostname :: "byte list"
  wf_server :: bool
  wf_server_up :: bool
  wf_port :: u16
  wf_last_attempt_ms :: u32
  wf_backoff_ms :: u32
  wf_clients :: "wifi_client list"
  wf_num_clients :: nat
  wf_calls :: "wifi_call list"

definition wifi_call :: "wifi_call \<Rightarrow> wifi_transport \<Rightarrow> wifi_transport" where
  "wifi_call c w = w\<lparr>wf_calls := wf_calls w @ [c]\<rparr>"

definition set_client :: "nat \<Rightarrow> (wifi_client \<Rightarrow> wifi_client) \<Rightarrow> wifi_transport \<Rightarrow> wifi_transport" where
  "set_client i f w = w\<lparr>wf_clients := (wf_clients w)[i := f (wf_clients w ! i)]\<rparr>"

definition sink_free :: "command_processor \<Rightarrow> nat" where
  "sink_free s = kMaxSinks - length (cp_sinks s)"

section \<open>Status and the processor\<close>

definition wifi_fill_status :: "wifi_transport \<Rightarrow> meshpigeon_Status \<Rightarrow> meshpigeon_Status" where
  "wifi_fill_status w status =
     (let status = status\<lparr>st_wifi_state := (case wf_state w of
              State_OFF \<Rightarrow> WIFI_STATE_OFF | State_CONNECTING \<Rightarrow> WIFI_STATE_CONNECTING
            | State_CONNECTED \<Rightarrow> WIFI_STATE_CONNECTED | State_AUTH_FAIL \<Rightarrow> WIFI_STATE_AUTH_FAIL
            | State_ERROR \<Rightarrow> WIFI_STATE_ERROR)\<rparr>;
          status = status\<lparr>st_wifi_ssid := (st_wifi_ssid status)[0 := 0], st_wifi_port := ucast (wf_port w),
                     st_wifi_ipv4 := []\<rparr>
      in if wf_state w = State_CONNECTED
         then status\<lparr>st_wifi_ssid := copy_str (length (st_wifi_ssid status)) (wl_ssid (wf_link w)),
                st_wifi_ipv4 := map (\<lambda>i. wl_local_ip (wf_link w) ! i) [0..<4], st_wifi_rssi := wl_rssi (wf_link w)\<rparr>
         else status\<lparr>st_wifi_rssi := 0\<rparr>)"

definition client_count :: "wifi_transport \<Rightarrow> nat" where
  "client_count w = wf_num_clients w"

definition wifi_hooks :: "wifi_transport \<Rightarrow> board_hooks" where
  "wifi_hooks w = (wf_board w)\<lparr>hk_fill_status := wifi_fill_status w, hk_wifi_tcp_clients := of_nat (client_count w),
     hk_wifi_supported := True\<rparr>"

text \<open>
  A call into the processor.  A frame it sends to a slot whose socket is closed or does not take it
  in full sets the slot's \<open>broken\<close> flag.
\<close>

definition mark_broken :: "(nat \<Rightarrow> byte list \<Rightarrow> bool) \<Rightarrow> event list \<Rightarrow> wifi_client list \<Rightarrow> wifi_client list" where
  "mark_broken refuses es cs =
     map (\<lambda>(i, c). if \<exists>buf. Send_Frame (tcp i) buf \<in> set es \<and> (\<not> wc_in_use c \<or> refuses i buf) then c\<lparr>wc_broken := True\<rparr> else c)
       (zip [0..<length cs] cs)"

definition with_processor :: "wifi_tick \<Rightarrow> (command_processor \<Rightarrow> command_processor) \<Rightarrow> wifi_transport \<Rightarrow> wifi_transport" where
  "with_processor t f w =
     (let proc = (wf_proc w)\<lparr>cp_hooks := Some (wifi_hooks w)\<rparr>; proc' = f proc
      in w\<lparr>wf_proc := proc',
           wf_clients := mark_broken (wt_refuses t) (drop (length (cp_trace proc)) (cp_trace proc')) (wf_clients w)\<rparr>)"

definition set_state :: "wifi_tick \<Rightarrow> wifi_state \<Rightarrow> wifi_transport \<Rightarrow> wifi_transport" where
  "set_state t s w =
     (if wf_state w = s then w else with_processor t on_wifi_state_changed (w\<lparr>wf_state := s\<rparr>))"

section \<open>Link and server\<close>

definition usable :: "wifi_transport \<Rightarrow> bool" where
  "usable w \<longleftrightarrow> ds_wifi_enabled (wf_settings w) \<and> ds_wifi_ssid (wf_settings w) ! 0 \<noteq> 0"

definition drop_client :: "nat \<Rightarrow> wifi_transport \<Rightarrow> wifi_transport" where
  "drop_client i w =
     (if \<not> wc_in_use (wf_clients w ! i) then w
      else (set_client i (\<lambda>c. c\<lparr>wc_in_use := False\<rparr>)
              (wifi_call (Client_Stop i) (w\<lparr>wf_proc := remove_sink (tcp i) (wf_proc w)\<rparr>)))
           \<lparr>wf_num_clients := wf_num_clients w - 1\<rparr>)"

definition stop_server :: "wifi_transport \<Rightarrow> wifi_transport" where
  "stop_server w =
     (let w = fold drop_client [0..<kMaxClients] w;
          w = (if wf_server w then (wifi_call Server_Delete w)\<lparr>wf_server := False\<rparr> else w)
      in wifi_call Mdns_End (w\<lparr>wf_server_up := False\<rparr>))"

definition start_server :: "wifi_tick \<Rightarrow> wifi_transport \<Rightarrow> wifi_transport" where
  "start_server t w =
     (let w = stop_server w;
          w = wifi_call Server_Begin ((wifi_call (Server_New (wf_port w)) w)\<lparr>wf_server := True\<rparr>);
          w = (wifi_call Server_Set_No_Delay w)\<lparr>wf_server_up := True\<rparr>;
          w = wifi_call (Mdns_Begin (wf_hostname w)) w
      in if wt_mdns_ok t then wifi_call (Mdns_Add_Service (wf_port w)) w else w)"

definition begin_link :: "wifi_transport \<Rightarrow> wifi_transport" where
  "begin_link w = wifi_call (Wifi_Begin (cstr (ds_wifi_ssid (wf_settings w))) (cstr (ds_wifi_password (wf_settings w)))) w"

definition connect_start :: "wifi_tick \<Rightarrow> wifi_transport \<Rightarrow> wifi_transport" where
  "connect_start t w =
     (let w = set_state t State_CONNECTING w;
          w = wifi_call (Wifi_Set_Auto_Reconnect False) (wifi_call (Wifi_Set_Sleep True) (wifi_call Wifi_Mode_Sta w));
          w = begin_link w
      in w\<lparr>wf_last_attempt_ms := wt_millis t, wf_backoff_ms := kBackoffStartMs\<rparr>)"

definition wifi_disconnect :: "wifi_tick \<Rightarrow> wifi_transport \<Rightarrow> wifi_transport" where
  "wifi_disconnect t w = set_state t State_OFF (wifi_call Wifi_Mode_Off (wifi_call Wifi_Disconnect w))"

definition wifi_begin :: "wifi_tick \<Rightarrow> byte list \<Rightarrow> wifi_transport \<Rightarrow> wifi_transport" where
  "wifi_begin t hostname w =
     (let w = w\<lparr>wf_settings := device_defaults, wf_hostname := copy_str 24 hostname\<rparr>;
          w = wifi_call Wifi_Mode_Off (stop_server w)
      in set_state t State_OFF w)"

definition wifi_apply :: "wifi_tick \<Rightarrow> device_settings \<Rightarrow> wifi_transport \<Rightarrow> wifi_transport" where
  "wifi_apply t settings w =
     (let was_enabled = ds_wifi_enabled (wf_settings w);
          credentials_changed = (cstr (ds_wifi_ssid (wf_settings w)) \<noteq> cstr (ds_wifi_ssid settings) \<or>
                                 cstr (ds_wifi_password (wf_settings w)) \<noteq> cstr (ds_wifi_password settings));
          new_port = (if ds_wifi_port settings = 0 then of_nat MESHPIGEON_WIFI_PORT_DEFAULT else ds_wifi_port settings);
          port_changed = (new_port \<noteq> wf_port w);
          w = w\<lparr>wf_settings := settings\<lparr>ds_wifi_port := new_port\<rparr>, wf_port := new_port\<rparr>
      in if \<not> usable w then (if was_enabled then wifi_disconnect t (stop_server w) else w)
         else if \<not> was_enabled \<or> credentials_changed then connect_start t (wifi_disconnect t (stop_server w))
         else if port_changed \<and> wf_server_up w then start_server t w
         else w)"

section \<open>Clients\<close>

definition accept_clients :: "wifi_tick \<Rightarrow> wifi_transport \<Rightarrow> wifi_transport" where
  "accept_clients t w =
     (if \<not> wf_server_up w \<or> \<not> wf_server w \<or> \<not> wt_pending t then w
      else case List.find (\<lambda>i. \<not> wc_in_use (wf_clients w ! i)) [0..<kMaxClients] of
        None \<Rightarrow> wifi_call Accepted_Stop w
      | Some i \<Rightarrow>
          if sink_free (wf_proc w) = 0 then wifi_call Accepted_Stop w
          else let w = wifi_call (Client_Stop i) w;
                   w = set_client i (\<lambda>c. c\<lparr>wc_reader := frame_reader_reset, wc_in_use := True, wc_broken := False\<rparr>) w;
                   proc = (wf_proc w)\<lparr>cp_authenticated := (cp_authenticated (wf_proc w))(tcp i := False)\<rparr>;
                   w = w\<lparr>wf_num_clients := wf_num_clients w + 1\<rparr>
               in case add_sink (tcp i) proc of
                    (proc, True) \<Rightarrow> w\<lparr>wf_proc := proc\<rparr>
                  | (proc, False) \<Rightarrow>
                      (set_client i (\<lambda>c. c\<lparr>wc_in_use := False\<rparr>) (wifi_call (Client_Stop i) (w\<lparr>wf_proc := proc\<rparr>)))
                      \<lparr>wf_num_clients := wf_num_clients w - 1\<rparr>)"

text \<open>
  An envelope of any client, on a board whose hooks are the transport's.  A write of the Wi-Fi
  settings that is accepted calls \<open>apply\<close> in the middle of the handler: after the record is stored,
  before it is announced and answered.
\<close>

definition settings_update :: "byte list \<Rightarrow> sink \<Rightarrow> command_processor \<Rightarrow> (u32 \<times> meshpigeon_SetDeviceSettings) option" where
  "settings_update env from s =
     (case decode_envelope env of
        None \<Rightarrow> None
      | Some req \<Rightarrow>
          (case cr_body req of
             C_set_device_settings m \<Rightarrow>
               if \<not> is_authorized s from \<or> invalid_request m \<or>
                  wifi_touched m \<and> (case cp_hooks s of None \<Rightarrow> False | Some hooks \<Rightarrow> \<not> hk_wifi_supported hooks) \<or>
                  device_eq (candidate m (cp_device s)) (cp_device s)
               then None else Some (cr_id req, m)
           | _ \<Rightarrow> None))"

definition wifi_on_envelope :: "lora_radio \<Rightarrow> wifi_tick \<Rightarrow> sink \<Rightarrow> wifi_transport \<Rightarrow> byte list \<Rightarrow> wifi_transport" where
  "wifi_on_envelope lora t from w env =
     (case settings_update env from ((wf_proc w)\<lparr>cp_hooks := Some (wifi_hooks w)\<rparr>) of
        None \<Rightarrow> with_processor t (on_envelope lora env (Some from)) w
      | Some (rid, m) \<Rightarrow>
          let w = with_processor t (store_device_settings m from) w;
              w = (if wifi_touched m then wifi_apply t (cp_device (wf_proc w)) w else w)
          in with_processor t (announce_device_settings rid from) w)"

text \<open>
  The drain of a slot's socket, \<open>drain_frames\<close> over a source that \<open>apply\<close> may close between two
  frames; a closed one has nothing more available.
\<close>

fun drain_socket :: "lora_radio \<Rightarrow> wifi_tick \<Rightarrow> nat \<Rightarrow> nat \<Rightarrow> frame_reader \<Rightarrow> wifi_transport \<Rightarrow> byte list
    \<Rightarrow> frame_reader \<times> wifi_transport \<times> byte list" where
  "drain_socket lora t i 0 reader w src = (reader, w, src)"
| "drain_socket lora t i (Suc budget) reader w [] = (reader, w, [])"
| "drain_socket lora t i (Suc budget) reader w (b # src) =
     (if \<not> wc_in_use (wf_clients w ! i) then (reader, w, b # src)
      else case frame_reader_feed b reader of
             (reader, Frame env) \<Rightarrow> drain_socket lora t i budget reader (wifi_on_envelope lora t (tcp i) w env) src
           | (reader, _) \<Rightarrow> drain_socket lora t i budget reader w src)"

definition drain_client :: "lora_radio \<Rightarrow> wifi_tick \<Rightarrow> nat \<Rightarrow> wifi_transport \<Rightarrow> wifi_transport" where
  "drain_client lora t i w =
     (let (reader, w, rest) =
            drain_socket lora t i FRAME_MAX_DRAIN_BYTES_PER_PUMP (wc_reader (wf_clients w ! i)) w (wt_received t i)
      in set_client i (\<lambda>c. c\<lparr>wc_reader := reader\<rparr>) w)"

definition pump_client :: "lora_radio \<Rightarrow> wifi_tick \<Rightarrow> nat \<Rightarrow> wifi_transport \<Rightarrow> wifi_transport" where
  "pump_client lora t i w =
     (if \<not> wc_in_use (wf_clients w ! i) then w
      else let w = (if \<not> wc_broken (wf_clients w ! i) then drain_client lora t i w else w)
           in if wc_broken (wf_clients w ! i) \<or> \<not> wt_connected t i then drop_client i w else w)"

definition pump_clients :: "lora_radio \<Rightarrow> wifi_tick \<Rightarrow> wifi_transport \<Rightarrow> wifi_transport" where
  "pump_clients lora t w = fold (pump_client lora t) [0..<kMaxClients] w"

section \<open>The board loop\<close>

text \<open>The state machine of \<open>pump\<close>, and \<open>pump\<close>.\<close>

definition drive_link :: "wifi_tick \<Rightarrow> wifi_transport \<Rightarrow> wifi_transport" where
  "drive_link t w =
     (if wf_state w = State_CONNECTED \<and> wt_status t \<noteq> WL_CONNECTED
      then (set_state t State_CONNECTING (stop_server w))
             \<lparr>wf_last_attempt_ms := wt_millis t, wf_backoff_ms := kBackoffStartMs\<rparr>
      else if wf_state w = State_CONNECTING \<or> wf_state w = State_AUTH_FAIL \<or> wf_state w = State_ERROR
      then if wt_status t = WL_CONNECTED
           then let w = (if \<not> wf_server_up w then start_server t w else w)
                in set_state t State_CONNECTED (w\<lparr>wf_backoff_ms := 0\<rparr>)
           else let w = (if wt_status t = WL_NO_SSID_AVAIL then set_state t State_ERROR w
                         else if wt_status t = WL_CONNECT_FAILED then set_state t State_AUTH_FAIL w
                         else set_state t State_CONNECTING w)
                in if wt_millis t - wf_last_attempt_ms w \<ge> wf_backoff_ms w
                   then let w = w\<lparr>wf_last_attempt_ms := wt_millis t\<rparr>;
                            w = (if wf_backoff_ms w < kBackoffMaxMs
                                 then w\<lparr>wf_backoff_ms := (if wf_backoff_ms w \<noteq> 0 then wf_backoff_ms w * 2 else kBackoffStartMs)\<rparr>
                                 else w);
                            w = (if wf_backoff_ms w > kBackoffMaxMs then w\<lparr>wf_backoff_ms := kBackoffMaxMs\<rparr> else w)
                        in begin_link w
                   else w
      else w)"

definition wifi_pump :: "lora_radio \<Rightarrow> wifi_tick \<Rightarrow> wifi_transport \<Rightarrow> wifi_transport" where
  "wifi_pump lora t w =
     (if \<not> usable w then w else pump_clients lora t (accept_clients t (drive_link t w)))"

section \<open>Sending a frame\<close>

text \<open>
  \<open>::send\<close> without blocking, the millisecond counter and \<open>delay(1)\<close>, over a state of their own; the
  loop returns how many bytes were sent.
\<close>

datatype send_result = Sent nat | Would_Block | Send_Error

record 'k socket_api =
  so_send :: "byte list \<Rightarrow> 'k \<Rightarrow> send_result \<times> 'k"
  so_millis :: "'k \<Rightarrow> u32"
  so_delay :: "'k \<Rightarrow> 'k"

partial_function (option) tcp_send_loop :: "'k socket_api \<Rightarrow> u32 \<Rightarrow> byte list \<Rightarrow> nat \<Rightarrow> 'k \<Rightarrow> (nat \<times> 'k) option" where
  "tcp_send_loop so start bytes sent k =
     (if sent < length bytes
      then case so_send so (drop sent bytes) k of
             (r, k) \<Rightarrow>
               (case r of
                  Sent (Suc m) \<Rightarrow> tcp_send_loop so start bytes (sent + Suc m) k
                | Send_Error \<Rightarrow> Some (sent, k)
                | _ \<Rightarrow> if so_millis so k - start \<ge> kWriteBudgetMs then Some (sent, k)
                       else tcp_send_loop so start bytes sent (so_delay so k))
      else Some (sent, k))"

text \<open>The second result is the \<open>broken\<close> flag it sets.\<close>

definition tcp_send_frame :: "'k socket_api \<Rightarrow> byte list \<Rightarrow> 'k \<Rightarrow> ('k \<times> bool) option" where
  "tcp_send_frame so decoded k =
     (let bytes = frame_encode_envelope decoded; start = so_millis so k
      in case tcp_send_loop so start bytes 0 k of
           None \<Rightarrow> None
         | Some (sent, k) \<Rightarrow> Some (k, sent \<noteq> length bytes))"

end
