(* ===== verification/WifiMachine.thy ===== *)
theory WifiMachine
  imports WifiTransport
begin

text \<open>
  The Wi-Fi transport as a state machine: its invariant, the retry ladder, and that the write of a
  frame to a socket returns.
\<close>

section \<open>What the operations keep\<close>

lemma wifi_call_simps [simp]:
  "wf_proc (wifi_call c w) = wf_proc w" "wf_settings (wifi_call c w) = wf_settings w" "wf_state (wifi_call c w) = wf_state w"
  "wf_server (wifi_call c w) = wf_server w" "wf_server_up (wifi_call c w) = wf_server_up w" "wf_port (wifi_call c w) = wf_port w"
  "wf_last_attempt_ms (wifi_call c w) = wf_last_attempt_ms w" "wf_backoff_ms (wifi_call c w) = wf_backoff_ms w"
  "wf_clients (wifi_call c w) = wf_clients w" "wf_num_clients (wifi_call c w) = wf_num_clients w"
  "wf_calls (wifi_call c w) = wf_calls w @ [c]" "usable (wifi_call c w) = usable w"
  by (simp_all add: wifi_call_def usable_def)

lemma set_client_simps [simp]:
  "wf_proc (set_client i f w) = wf_proc w" "wf_settings (set_client i f w) = wf_settings w" "wf_state (set_client i f w) = wf_state w"
  "wf_server (set_client i f w) = wf_server w" "wf_server_up (set_client i f w) = wf_server_up w"
  "wf_backoff_ms (set_client i f w) = wf_backoff_ms w" "wf_last_attempt_ms (set_client i f w) = wf_last_attempt_ms w"
  "wf_num_clients (set_client i f w) = wf_num_clients w" "wf_calls (set_client i f w) = wf_calls w"
  "wf_port (set_client i f w) = wf_port w"
  "length (wf_clients (set_client i f w)) = length (wf_clients w)"
  "i < length (wf_clients w) \<Longrightarrow> wf_clients (set_client i f w) ! j = (if i = j then f (wf_clients w ! i) else wf_clients w ! j)"
  by (auto simp: set_client_def)

lemma mark_broken_simps [simp]:
  "length (mark_broken r es cs) = length cs"
  "i < length cs \<Longrightarrow> wc_in_use (mark_broken r es cs ! i) = wc_in_use (cs ! i)"
  "i < length cs \<Longrightarrow> wc_reader (mark_broken r es cs ! i) = wc_reader (cs ! i)"
  by (simp_all add: mark_broken_def)

lemma with_processor_simps [simp]:
  "wf_settings (with_processor t f w) = wf_settings w" "wf_state (with_processor t f w) = wf_state w"
  "wf_server (with_processor t f w) = wf_server w" "wf_server_up (with_processor t f w) = wf_server_up w"
  "wf_port (with_processor t f w) = wf_port w" "wf_last_attempt_ms (with_processor t f w) = wf_last_attempt_ms w"
  "wf_backoff_ms (with_processor t f w) = wf_backoff_ms w" "wf_num_clients (with_processor t f w) = wf_num_clients w"
  "wf_calls (with_processor t f w) = wf_calls w" "wf_proc (with_processor t f w) = f ((wf_proc w)\<lparr>cp_hooks := Some (wifi_hooks w)\<rparr>)"
  "usable (with_processor t f w) = usable w" "length (wf_clients (with_processor t f w)) = length (wf_clients w)"
  "i < length (wf_clients w) \<Longrightarrow> wc_in_use (wf_clients (with_processor t f w) ! i) = wc_in_use (wf_clients w ! i)"
  by (simp_all add: with_processor_def Let_def usable_def)

text \<open>Slots, count and registry agree.\<close>

definition slots_ok :: "wifi_transport \<Rightarrow> bool" where
  "slots_ok w \<longleftrightarrow> length (wf_clients w) = kMaxClients \<and>
     wf_num_clients w = (\<Sum>i < kMaxClients. of_bool (wc_in_use (wf_clients w ! i))) \<and>
     (\<forall>i < kMaxClients. count_list (cp_sinks (wf_proc w)) (tcp i) = of_bool (wc_in_use (wf_clients w ! i)))"

lemma tcp_inj [simp]: "tcp i = tcp j \<longleftrightarrow> i = j"
  by (simp add: tcp_def)

lemma count_remove1_nat: "count_list (remove1 x xs) y = count_list xs y - of_bool (x = y)"
  by (induction xs) (auto simp: count_list_0_iff Suc_diff_le dest: count_notin)

lemma count_append: "count_list (xs @ ys) y = count_list xs y + count_list ys y"
  by (induction xs) auto

lemma slots_ok_cong:
  assumes "slots_ok w" "length (wf_clients w') = length (wf_clients w)" "wf_num_clients w' = wf_num_clients w"
    and "\<And>i. i < kMaxClients \<Longrightarrow> wc_in_use (wf_clients w' ! i) = wc_in_use (wf_clients w ! i)"
    and "\<And>i. i < kMaxClients \<Longrightarrow> count_list (cp_sinks (wf_proc w')) (tcp i) = count_list (cp_sinks (wf_proc w)) (tcp i)"
  shows "slots_ok w'"
  using assms by (simp add: slots_ok_def)

lemma used_sum:
  assumes "i < kMaxClients"
  shows "(\<Sum>j < kMaxClients. of_bool (if j = i then b else u j)) =
    of_bool b + (\<Sum>j < kMaxClients. of_bool (u j)) - (of_bool (u i) :: nat)"
proof -
  have "(\<Sum>j < kMaxClients. of_bool (if j = i then b else u j)) = of_bool b + (\<Sum>j \<in> {..<kMaxClients} - {i}. of_bool (u j) :: nat)"
    using assms by (subst sum.remove [of _ i]) (auto intro!: sum.cong)
  moreover have "(\<Sum>j < kMaxClients. of_bool (u j)) = of_bool (u i) + (\<Sum>j \<in> {..<kMaxClients} - {i}. of_bool (u j) :: nat)"
    using assms by (subst sum.remove [of _ i]) auto
  ultimately show ?thesis by simp
qed

lemma slots_ok_set_state:
  assumes "slots_ok w"
  shows "slots_ok (set_state t s w)"
proof -
  have "cp_sinks (on_wifi_state_changed p) = cp_sinks p" for p
    using kept_wifi [of 0 p] by (simp add: sessions_kept_def)
  then show ?thesis
    using assms by (intro slots_ok_cong [OF assms]) (auto simp: set_state_def slots_ok_def)
qed

lemma set_state_simps [simp]:
  "wf_settings (set_state t s w) = wf_settings w" "wf_state (set_state t s w) = s"
  "wf_server (set_state t s w) = wf_server w" "wf_server_up (set_state t s w) = wf_server_up w"
  "wf_port (set_state t s w) = wf_port w" "wf_last_attempt_ms (set_state t s w) = wf_last_attempt_ms w"
  "wf_backoff_ms (set_state t s w) = wf_backoff_ms w" "wf_calls (set_state t s w) = wf_calls w"
  "usable (set_state t s w) = usable w" "length (wf_clients (set_state t s w)) = length (wf_clients w)"
  "i < length (wf_clients w) \<Longrightarrow> wc_in_use (wf_clients (set_state t s w) ! i) = wc_in_use (wf_clients w ! i)"
  by (simp_all add: set_state_def usable_def)

lemma drop_client_ok:
  assumes "slots_ok w" "i < kMaxClients"
  shows "slots_ok (drop_client i w)" "\<not> wc_in_use (wf_clients (drop_client i w) ! i)"
    "\<And>j. wc_in_use (wf_clients (drop_client i w) ! j) \<Longrightarrow> wc_in_use (wf_clients w ! j)"
proof -
  have len: "length (wf_clients w) = kMaxClients" using assms(1) by (simp add: slots_ok_def)
  show "\<not> wc_in_use (wf_clients (drop_client i w) ! i)"
    "\<And>j. wc_in_use (wf_clients (drop_client i w) ! j) \<Longrightarrow> wc_in_use (wf_clients w ! j)"
    using assms(2) len by (auto simp: drop_client_def split: if_splits)
  show "slots_ok (drop_client i w)"
  proof (cases "wc_in_use (wf_clients w ! i)")
    case True
    have in_use: "wc_in_use (wf_clients (drop_client i w) ! j) = (if j = i then False else wc_in_use (wf_clients w ! j))" for j
      using True assms(2) len by (simp add: drop_client_def)
    have "wf_num_clients (drop_client i w) = (\<Sum>j < kMaxClients. of_bool (wc_in_use (wf_clients (drop_client i w) ! j)))"
      unfolding in_use using used_sum [OF assms(2), of False "\<lambda>j. wc_in_use (wf_clients w ! j)"] True assms(1)
      by (simp add: drop_client_def slots_ok_def)
    moreover have "count_list (cp_sinks (wf_proc (drop_client i w))) (tcp j) = of_bool (wc_in_use (wf_clients (drop_client i w) ! j))"
      if "j < kMaxClients" for j
      unfolding in_use using True assms(1) that by (simp add: drop_client_def slots_ok_def remove_sink_def count_remove1_nat)
    moreover have "length (wf_clients (drop_client i w)) = kMaxClients" using len by (simp add: drop_client_def)
    ultimately show ?thesis by (simp add: slots_ok_def)
  qed (simp add: drop_client_def assms(1))
qed

lemma drop_client_simps [simp]:
  "wf_settings (drop_client i w) = wf_settings w" "wf_state (drop_client i w) = wf_state w"
  "wf_server (drop_client i w) = wf_server w" "wf_server_up (drop_client i w) = wf_server_up w"
  "wf_port (drop_client i w) = wf_port w" "wf_last_attempt_ms (drop_client i w) = wf_last_attempt_ms w"
  "wf_backoff_ms (drop_client i w) = wf_backoff_ms w" "usable (drop_client i w) = usable w"
  by (simp_all add: drop_client_def usable_def)

lemma fold_drop_simps [simp]:
  "wf_settings (fold drop_client xs w) = wf_settings w" "wf_state (fold drop_client xs w) = wf_state w"
  "wf_server (fold drop_client xs w) = wf_server w" "wf_server_up (fold drop_client xs w) = wf_server_up w"
  "wf_port (fold drop_client xs w) = wf_port w" "wf_last_attempt_ms (fold drop_client xs w) = wf_last_attempt_ms w"
  "wf_backoff_ms (fold drop_client xs w) = wf_backoff_ms w" "usable (fold drop_client xs w) = usable w"
  by (induction xs arbitrary: w) simp_all

lemma fold_drop_ok:
  "slots_ok w \<Longrightarrow> \<forall>i \<in> set xs. i < kMaxClients \<Longrightarrow> slots_ok (fold drop_client xs w) \<and>
     (\<forall>i \<in> set xs. \<not> wc_in_use (wf_clients (fold drop_client xs w) ! i)) \<and>
     (\<forall>j. wc_in_use (wf_clients (fold drop_client xs w) ! j) \<longrightarrow> wc_in_use (wf_clients w ! j))"
proof (induction xs arbitrary: w)
  case (Cons i xs)
  have i: "i < kMaxClients" using Cons.prems(2) by simp
  note drop = drop_client_ok [OF Cons.prems(1) i]
  have "slots_ok (fold drop_client xs (drop_client i w)) \<and>
     (\<forall>k \<in> set xs. \<not> wc_in_use (wf_clients (fold drop_client xs (drop_client i w)) ! k)) \<and>
     (\<forall>j. wc_in_use (wf_clients (fold drop_client xs (drop_client i w)) ! j) \<longrightarrow> wc_in_use (wf_clients (drop_client i w) ! j))"
    using Cons.IH [OF drop(1)] Cons.prems(2) by simp
  then show ?case using drop(2,3) by auto
qed simp

lemma stop_server_ok:
  assumes "slots_ok w"
  shows "slots_ok (stop_server w)" "\<forall>i < kMaxClients. \<not> wc_in_use (wf_clients (stop_server w) ! i)"
    "wf_server (stop_server w) = False" "wf_server_up (stop_server w) = False"
proof -
  note drop = fold_drop_ok [OF assms, of "[0..<kMaxClients]"]
  show "slots_ok (stop_server w)"
    by (rule slots_ok_cong [of "fold drop_client [0..<kMaxClients] w"]) (use drop in \<open>simp_all add: stop_server_def Let_def\<close>)
  show "\<forall>i < kMaxClients. \<not> wc_in_use (wf_clients (stop_server w) ! i)"
    using drop by (simp add: stop_server_def Let_def)
qed (simp_all add: stop_server_def Let_def)

lemma stop_server_simps [simp]:
  "wf_settings (stop_server w) = wf_settings w" "wf_state (stop_server w) = wf_state w" "wf_port (stop_server w) = wf_port w"
  "wf_last_attempt_ms (stop_server w) = wf_last_attempt_ms w" "wf_backoff_ms (stop_server w) = wf_backoff_ms w"
  "usable (stop_server w) = usable w"
  by (simp_all add: stop_server_def Let_def usable_def)

lemma start_server_ok:
  assumes "slots_ok w"
  shows "slots_ok (start_server t w)" "\<forall>i < kMaxClients. \<not> wc_in_use (wf_clients (start_server t w) ! i)"
    "wf_server (start_server t w)" "wf_server_up (start_server t w)"
proof -
  have fields: "wf_clients (start_server t w) = wf_clients (stop_server w)" "wf_proc (start_server t w) = wf_proc (stop_server w)"
    "wf_num_clients (start_server t w) = wf_num_clients (stop_server w)" "wf_server (start_server t w)" "wf_server_up (start_server t w)"
    by (simp_all add: start_server_def Let_def)
  show "slots_ok (start_server t w)"
    by (rule slots_ok_cong [OF stop_server_ok(1) [OF assms]]) (simp_all add: fields)
  show "\<forall>i < kMaxClients. \<not> wc_in_use (wf_clients (start_server t w) ! i)"
    unfolding fields by (rule stop_server_ok(2) [OF assms])
qed (simp_all add: start_server_def Let_def)

lemma start_server_simps [simp]:
  "wf_settings (start_server t w) = wf_settings w" "wf_state (start_server t w) = wf_state w" "wf_port (start_server t w) = wf_port w"
  "wf_last_attempt_ms (start_server t w) = wf_last_attempt_ms w" "wf_backoff_ms (start_server t w) = wf_backoff_ms w"
  "usable (start_server t w) = usable w"
  by (simp_all add: start_server_def Let_def usable_def)

section \<open>The machine\<close>

definition retrying :: "wifi_state \<Rightarrow> bool" where
  "retrying s \<longleftrightarrow> s = State_CONNECTING \<or> s = State_AUTH_FAIL \<or> s = State_ERROR"

lemma retrying_simps [simp]:
  "retrying State_CONNECTING" "retrying State_AUTH_FAIL" "retrying State_ERROR" "\<not> retrying State_OFF" "\<not> retrying State_CONNECTED"
  by (simp_all add: retrying_def)

definition wifi_inv :: "wifi_transport \<Rightarrow> bool" where
  "wifi_inv w \<longleftrightarrow> slots_ok w \<and> (wf_server_up w \<longleftrightarrow> wf_state w = State_CONNECTED) \<and> wf_server w = wf_server_up w \<and>
     (\<not> wf_server_up w \<longrightarrow> (\<forall>i < kMaxClients. \<not> wc_in_use (wf_clients w ! i))) \<and>
     (usable w \<longleftrightarrow> wf_state w \<noteq> State_OFF) \<and> ds_wifi_ssid (wf_settings w) \<noteq> [] \<and>
     (wf_state w = State_CONNECTED \<longrightarrow> wf_backoff_ms w = 0) \<and>
     (retrying (wf_state w) \<longrightarrow> kBackoffStartMs \<le> wf_backoff_ms w \<and> wf_backoff_ms w \<le> kBackoffMaxMs)"

lemma slots_ok_update [simp]:
  "slots_ok (wifi_call c w) = slots_ok w" "slots_ok (w\<lparr>wf_last_attempt_ms := a\<rparr>) = slots_ok w"
  "slots_ok (w\<lparr>wf_backoff_ms := b\<rparr>) = slots_ok w" "slots_ok (w\<lparr>wf_settings := s, wf_port := p\<rparr>) = slots_ok w"
  by (simp_all add: slots_ok_def)

lemma usable_update [simp]:
  "usable (w\<lparr>wf_last_attempt_ms := a\<rparr>) = usable w" "usable (w\<lparr>wf_backoff_ms := b\<rparr>) = usable w"
  by (simp_all add: usable_def)

text \<open>Doubling the delay stays between the floor and the cap.\<close>

lemma doubled_backoff:
  assumes "kBackoffStartMs \<le> b" "b < kBackoffMaxMs"
  shows "unat (b * 2) = 2 * unat b" "kBackoffStartMs \<le> b * 2"
proof -
  have n: "5000 \<le> unat b" "unat b < 120000"
    using assms by (simp_all add: kBackoffStartMs_def kBackoffMaxMs_def word_le_nat_alt word_less_nat_alt)
  then show d: "unat (b * 2) = 2 * unat b"
    by (simp add: unat_word_ariths)
  show "kBackoffStartMs \<le> b * 2"
    using n by (simp add: kBackoffStartMs_def word_le_nat_alt d)
qed

definition next_backoff :: "u32 \<Rightarrow> u32" where
  "next_backoff b = (if 2 * unat b \<le> unat kBackoffMaxMs then b * 2 else kBackoffMaxMs)"

lemma next_backoff_range:
  assumes "kBackoffStartMs \<le> b" "b \<le> kBackoffMaxMs"
  shows "kBackoffStartMs \<le> next_backoff b \<and> next_backoff b \<le> kBackoffMaxMs \<and>
    unat (next_backoff b) = min (2 * unat b) (unat kBackoffMaxMs)"
proof (cases "b < kBackoffMaxMs")
  case True
  then show ?thesis
    using doubled_backoff [OF assms(1) True] assms
    by (auto simp: next_backoff_def word_le_nat_alt kBackoffStartMs_def kBackoffMaxMs_def)
next
  case False
  then have "b = kBackoffMaxMs" using assms(2) by simp
  then show ?thesis by (simp add: next_backoff_def kBackoffStartMs_def kBackoffMaxMs_def)
qed

lemma ladder_step:
  assumes "kBackoffStartMs \<le> wf_backoff_ms w" "wf_backoff_ms w \<le> kBackoffMaxMs"
  defines "w1 \<equiv> (if wf_backoff_ms w < kBackoffMaxMs
      then w\<lparr>wf_backoff_ms := (if wf_backoff_ms w \<noteq> 0 then wf_backoff_ms w * 2 else kBackoffStartMs)\<rparr> else w)"
  shows "(if wf_backoff_ms w1 > kBackoffMaxMs then w1\<lparr>wf_backoff_ms := kBackoffMaxMs\<rparr> else w1)
    = w\<lparr>wf_backoff_ms := next_backoff (wf_backoff_ms w)\<rparr>"
proof -
  have nz: "wf_backoff_ms w \<noteq> 0" using assms(1) by (auto simp: kBackoffStartMs_def)
  show ?thesis
  proof (cases "wf_backoff_ms w < kBackoffMaxMs")
    case True
    then show ?thesis
      using nz doubled_backoff [OF assms(1) True]
      by (simp add: w1_def next_backoff_def word_less_nat_alt not_less)
  next
    case False
    then have "wf_backoff_ms w = kBackoffMaxMs" using assms(2) by simp
    then show ?thesis
      by (simp add: w1_def next_backoff_def kBackoffMaxMs_def)
  qed
qed

subsection \<open>The link\<close>

text \<open>What the retry branch of \<open>pump\<close> does, with the failure it classifies.\<close>

definition failure_state :: "wl_status \<Rightarrow> wifi_state" where
  "failure_state st = (if st = WL_NO_SSID_AVAIL then State_ERROR
     else if st = WL_CONNECT_FAILED then State_AUTH_FAIL else State_CONNECTING)"

lemma retrying_failure [simp]: "retrying (failure_state st)"
  by (simp add: failure_state_def)

lemma drive_retry:
  assumes "retrying (wf_state w)" "wt_status t \<noteq> WL_CONNECTED"
    and "kBackoffStartMs \<le> wf_backoff_ms w" "wf_backoff_ms w \<le> kBackoffMaxMs"
  shows "drive_link t w = (let w = set_state t (failure_state (wt_status t)) w in
    if wt_millis t - wf_last_attempt_ms w \<ge> wf_backoff_ms w
    then begin_link (w\<lparr>wf_last_attempt_ms := wt_millis t, wf_backoff_ms := next_backoff (wf_backoff_ms w)\<rparr>) else w)"
proof -
  have nc: "wf_state w \<noteq> State_CONNECTED" "wf_state w = State_CONNECTING \<or> wf_state w = State_AUTH_FAIL \<or> wf_state w = State_ERROR"
    using assms(1) by (auto simp: retrying_def)
  define v where "v = set_state t (failure_state (wt_status t)) w"
  have v: "(if wt_status t = WL_NO_SSID_AVAIL then set_state t State_ERROR w
            else if wt_status t = WL_CONNECT_FAILED then set_state t State_AUTH_FAIL w
            else set_state t State_CONNECTING w) = v"
    by (simp add: v_def failure_state_def)
  have step: "(let w1 = (if wf_backoff_ms (v\<lparr>wf_last_attempt_ms := wt_millis t\<rparr>) < kBackoffMaxMs
        then (v\<lparr>wf_last_attempt_ms := wt_millis t\<rparr>)\<lparr>wf_backoff_ms := (if wf_backoff_ms (v\<lparr>wf_last_attempt_ms := wt_millis t\<rparr>) \<noteq> 0
               then wf_backoff_ms (v\<lparr>wf_last_attempt_ms := wt_millis t\<rparr>) * 2 else kBackoffStartMs)\<rparr>
        else v\<lparr>wf_last_attempt_ms := wt_millis t\<rparr>)
      in if wf_backoff_ms w1 > kBackoffMaxMs then w1\<lparr>wf_backoff_ms := kBackoffMaxMs\<rparr> else w1)
    = v\<lparr>wf_last_attempt_ms := wt_millis t, wf_backoff_ms := next_backoff (wf_backoff_ms v)\<rparr>"
    unfolding Let_def
    by (subst ladder_step) (use assms(3,4) in \<open>simp_all add: v_def\<close>)
  show ?thesis
    unfolding drive_link_def Let_def v v_def [symmetric] using nc assms(2) step by (simp only: Let_def) auto
qed

lemma drive_link_inv:
  assumes "wifi_inv w" "usable w"
  shows "wifi_inv (drive_link t w)" "usable (drive_link t w)"
proof -
  have slots: "slots_ok w" using assms(1) by (simp add: wifi_inv_def)
  consider (lost) "wf_state w = State_CONNECTED" "wt_status t \<noteq> WL_CONNECTED"
    | (kept) "wf_state w = State_CONNECTED" "wt_status t = WL_CONNECTED"
    | (up) "retrying (wf_state w)" "wt_status t = WL_CONNECTED"
    | (down) "retrying (wf_state w)" "wt_status t \<noteq> WL_CONNECTED"
    using assms by (cases "wf_state w") (auto simp: wifi_inv_def retrying_def)
  then have "wifi_inv (drive_link t w) \<and> usable (drive_link t w)"
  proof cases
    case lost
    note stop = stop_server_ok [OF slots]
    have len: "length (wf_clients (stop_server w)) = kMaxClients" using stop(1) by (simp add: slots_ok_def)
    show ?thesis
      using lost assms stop slots_ok_set_state [OF stop(1)] len
      by (simp add: drive_link_def wifi_inv_def kBackoffStartMs_def kBackoffMaxMs_def)
  next
    case kept
    then show ?thesis using assms by (simp add: drive_link_def)
  next
    case up
    then have down: "\<not> wf_server_up w" using assms(1) by (auto simp: wifi_inv_def)
    note start = start_server_ok [OF slots, of t]
    have "drive_link t w = set_state t State_CONNECTED ((start_server t w)\<lparr>wf_backoff_ms := 0\<rparr>)"
      using up down by (auto simp: drive_link_def retrying_def)
    moreover have "slots_ok (set_state t State_CONNECTED ((start_server t w)\<lparr>wf_backoff_ms := 0\<rparr>))"
      by (rule slots_ok_set_state) (simp add: start(1))
    ultimately show ?thesis using start assms by (simp add: wifi_inv_def)
  next
    case down
    have range: "kBackoffStartMs \<le> wf_backoff_ms w" "wf_backoff_ms w \<le> kBackoffMaxMs"
      and off: "\<not> wf_server_up w" and empty: "\<forall>i < kMaxClients. \<not> wc_in_use (wf_clients w ! i)"
      using assms(1) down(1) by (auto simp: wifi_inv_def)
    have len: "length (wf_clients w) = kMaxClients" using slots by (simp add: slots_ok_def)
    let ?v = "set_state t (failure_state (wt_status t)) w"
    have "slots_ok ?v" by (rule slots_ok_set_state [OF slots])
    moreover have "wf_clients (begin_link v) = wf_clients v" "wf_state (begin_link v) = wf_state v" for v
      by (simp_all add: begin_link_def)
    ultimately show ?thesis
      unfolding drive_retry [OF down range] Let_def
      using assms off empty len range next_backoff_range [OF range] retrying_failure [of "wt_status t"]
      by (auto simp: wifi_inv_def begin_link_def failure_state_def)
  qed
  then show "wifi_inv (drive_link t w)" "usable (drive_link t w)" by simp_all
qed

lemma disconnect_ok:
  fixes t
  assumes "slots_ok w" "ds_wifi_ssid (wf_settings w) \<noteq> []"
  defines "v \<equiv> wifi_disconnect t (stop_server w)"
  shows "slots_ok v" "\<forall>i < kMaxClients. \<not> wc_in_use (wf_clients v ! i)" "wf_state v = State_OFF"
    "\<not> wf_server v" "\<not> wf_server_up v" "wf_settings v = wf_settings w" "usable v = usable w"
proof -
  note stop = stop_server_ok [OF assms(1)]
  have len: "length (wf_clients (stop_server w)) = kMaxClients" using stop(1) by (simp add: slots_ok_def)
  show "slots_ok v"
    unfolding v_def wifi_disconnect_def by (rule slots_ok_set_state) (simp add: stop(1))
  show "\<forall>i < kMaxClients. \<not> wc_in_use (wf_clients v ! i)"
    using stop(2) len by (simp add: v_def wifi_disconnect_def)
qed (simp_all add: v_def wifi_disconnect_def stop_server_ok [OF assms(1)])

lemma wifi_apply_inv:
  assumes "wifi_inv w" "device_wf d"
  shows "wifi_inv (wifi_apply t d w)"
proof -
  let ?port = "if ds_wifi_port d = 0 then of_nat MESHPIGEON_WIFI_PORT_DEFAULT else ds_wifi_port d"
  define v where "v = w\<lparr>wf_settings := d\<lparr>ds_wifi_port := ?port\<rparr>, wf_port := ?port\<rparr>"
  let ?same = "cstr (ds_wifi_ssid (wf_settings w)) = cstr (ds_wifi_ssid d) \<and>
    cstr (ds_wifi_password (wf_settings w)) = cstr (ds_wifi_password d)"
  have slots: "slots_ok v" "slots_ok w" using assms(1) by (simp_all add: wifi_inv_def v_def)
  have v: "wf_state v = wf_state w" "wf_server v = wf_server w" "wf_server_up v = wf_server_up w" "wf_clients v = wf_clients w"
    "wf_backoff_ms v = wf_backoff_ms w" "ds_wifi_ssid (wf_settings v) = ds_wifi_ssid d" "ds_wifi_enabled (wf_settings v) = ds_wifi_enabled d"
    by (simp_all add: v_def)
  have ssid: "ds_wifi_ssid (wf_settings v) \<noteq> []"
    using assms(2) by (auto simp: v device_wf_def char_field_def)
  have apply_eq: "wifi_apply t d w = (if \<not> usable v then (if ds_wifi_enabled (wf_settings w) then wifi_disconnect t (stop_server v) else v)
         else if \<not> ds_wifi_enabled (wf_settings w) \<or> \<not> ?same then connect_start t (wifi_disconnect t (stop_server v))
         else if ?port \<noteq> wf_port w \<and> wf_server_up v then start_server t v else v)"
    unfolding wifi_apply_def Let_def v_def [symmetric] v by simp
  note disc = disconnect_ok [OF slots(1) ssid, of t]
  consider (off) "\<not> usable v" "ds_wifi_enabled (wf_settings w)" | (idle) "\<not> usable v" "\<not> ds_wifi_enabled (wf_settings w)"
    | (connect) "usable v" "\<not> ds_wifi_enabled (wf_settings w) \<or> \<not> ?same"
    | (same) "usable v" "ds_wifi_enabled (wf_settings w)" ?same by blast
  then show ?thesis
  proof cases
    case off
    then show ?thesis using disc ssid by (simp add: apply_eq wifi_inv_def)
  next
    case idle
    then have "wf_state w = State_OFF" using assms(1) by (auto simp: wifi_inv_def usable_def)
    then show ?thesis using idle assms(1) slots ssid by (simp add: apply_eq wifi_inv_def v)
  next
    case connect
    let ?u = "wifi_disconnect t (stop_server v)"
    have "slots_ok (set_state t State_CONNECTING ?u)" by (rule slots_ok_set_state [OF disc(1)])
    moreover have "length (wf_clients ?u) = kMaxClients" using disc(1) by (simp add: slots_ok_def)
    ultimately show ?thesis
      using connect disc ssid
      by (simp add: apply_eq wifi_inv_def connect_start_def begin_link_def kBackoffStartMs_def kBackoffMaxMs_def)
  next
    case same
    have empty: "x ! 0 = 0 \<longleftrightarrow> cstr x = []" if "x \<noteq> []" for x :: "byte list" using that by (cases x) (simp_all add: cstr_def)
    have "ds_wifi_ssid (wf_settings w) \<noteq> []" using assms(1) by (simp add: wifi_inv_def)
    then have was: "usable w" using same ssid empty by (auto simp: usable_def v)
    show ?thesis
    proof (cases "?port \<noteq> wf_port w \<and> wf_server_up v")
      case True
      then show ?thesis
        using same start_server_ok [OF slots(1), of t] assms(1) ssid was by (simp add: apply_eq wifi_inv_def v)
    next
      case False
      have "wifi_inv v" using same assms(1) ssid was slots by (simp add: wifi_inv_def v)
      moreover have "wifi_apply t d w = v"
        unfolding apply_eq using False same by (simp only: simp_thms if_False if_True)
      ultimately show ?thesis by simp
    qed
  qed
qed

subsection \<open>The clients\<close>

text \<open>What the client side never touches, and the slots it leaves behind.\<close>

definition link_of :: "wifi_transport \<Rightarrow> device_settings \<times> wifi_state \<times> bool \<times> bool \<times> u16 \<times> u32 \<times> u32" where
  "link_of w = (wf_settings w, wf_state w, wf_server w, wf_server_up w, wf_port w, wf_last_attempt_ms w, wf_backoff_ms w)"

lemma wifi_inv_clients:
  assumes "wifi_inv w" "slots_ok w'" "link_of w' = link_of w"
    and "\<And>i. \<not> wf_server_up w \<Longrightarrow> i < kMaxClients \<Longrightarrow> wc_in_use (wf_clients w' ! i) \<Longrightarrow> wc_in_use (wf_clients w ! i)"
  shows "wifi_inv w'" "usable w' = usable w"
proof -
  have f: "wf_settings w' = wf_settings w" "wf_state w' = wf_state w" "wf_server w' = wf_server w"
    "wf_server_up w' = wf_server_up w" "wf_backoff_ms w' = wf_backoff_ms w"
    using assms(3) by (simp_all add: link_of_def)
  show "usable w' = usable w" by (simp add: usable_def f)
  then show "wifi_inv w'" using assms(1,2,4) by (auto simp: wifi_inv_def f)
qed

lemma accept_clients_inv:
  assumes "wifi_inv w"
  shows "wifi_inv (accept_clients t w)"
proof -
  have slots: "slots_ok w" using assms by (simp add: wifi_inv_def)
  have len: "length (wf_clients w) = kMaxClients" using slots by (simp add: slots_ok_def)
  let ?find = "List.find (\<lambda>i. \<not> wc_in_use (wf_clients w ! i)) [0..<kMaxClients]"
  show ?thesis
  proof (cases "\<not> wf_server_up w \<or> \<not> wf_server w \<or> \<not> wt_pending t \<or> ?find = None \<or> sink_free (wf_proc w) = 0")
    case True
    then have "accept_clients t w = w \<or> accept_clients t w = wifi_call Accepted_Stop w"
      by (auto simp: accept_clients_def split: option.split)
    then show ?thesis using assms by (auto simp: wifi_inv_def)
  next
    case False
    then obtain i where find: "?find = Some i" and room: "sink_free (wf_proc w) \<noteq> 0" and up: "wf_server_up w" by auto
    have i: "i < kMaxClients" "\<not> wc_in_use (wf_clients w ! i)" using find by (auto simp: find_Some_iff)
    let ?auth = "(cp_authenticated (wf_proc w))(tcp i := False)"
    let ?p = "(wf_proc w)\<lparr>cp_authenticated := ?auth, cp_sinks := cp_sinks (wf_proc w) @ [tcp i]\<rparr>"
    have add: "add_sink (tcp i) ((wf_proc w)\<lparr>cp_authenticated := ?auth\<rparr>) = (?p, True)"
      using room by (simp add: add_sink_def sink_free_def)
    define v where "v = accept_clients t w"
    have v: "v = (set_client i (\<lambda>c. c\<lparr>wc_reader := frame_reader_reset, wc_in_use := True, wc_broken := False\<rparr>)
        (wifi_call (Client_Stop i) w))\<lparr>wf_num_clients := wf_num_clients w + 1, wf_proc := ?p\<rparr>"
      using False find add by (simp add: v_def accept_clients_def Let_def)
    have in_use: "wc_in_use (wf_clients v ! j) = (if j = i then True else wc_in_use (wf_clients w ! j))" for j
      using i(1) len by (simp add: v)
    have num: "wf_num_clients v = (\<Sum>j < kMaxClients. of_bool (wc_in_use (wf_clients v ! j)))"
      unfolding in_use using used_sum [OF i(1), of True "\<lambda>j. wc_in_use (wf_clients w ! j)"] i(2) slots
      by (simp add: v slots_ok_def)
    have "count_list (cp_sinks (wf_proc v)) (tcp j) = of_bool (wc_in_use (wf_clients v ! j))" if "j < kMaxClients" for j
      unfolding in_use using i(2) slots that by (simp add: v slots_ok_def count_append)
    then have "slots_ok v" using num len by (simp add: slots_ok_def v)
    then show ?thesis
      using assms up by (intro wifi_inv_clients(1) [OF assms, of v, unfolded v_def])
        (simp_all add: v_def [symmetric], simp add: v link_of_def)
  qed
qed

lemma wifi_inv_processor:
  assumes "wifi_inv w" "\<And>s i. i < kMaxClients \<Longrightarrow> count_list (cp_sinks (f s)) (tcp i) = count_list (cp_sinks s) (tcp i)"
  shows "wifi_inv (with_processor t f w)"
proof -
  have slots: "slots_ok w" using assms(1) by (simp add: wifi_inv_def)
  then have len: "length (wf_clients w) = kMaxClients" by (simp add: slots_ok_def)
  have "slots_ok (with_processor t f w)" by (rule slots_ok_cong [OF slots]) (simp_all add: len assms(2))
  then show ?thesis
    by (rule wifi_inv_clients(1) [OF assms(1)]) (simp_all add: link_of_def len)
qed

lemma set_reader_inv:
  assumes "wifi_inv w" "i < kMaxClients"
  shows "wifi_inv (set_client i (\<lambda>c. c\<lparr>wc_reader := r\<rparr>) w)"
proof -
  let ?u = "set_client i (\<lambda>c. c\<lparr>wc_reader := r\<rparr>) w"
  have slots: "slots_ok w" using assms(1) by (simp add: wifi_inv_def)
  then have i: "i < length (wf_clients w)" using assms(2) by (simp add: slots_ok_def)
  have same: "wc_in_use (wf_clients ?u ! j) = wc_in_use (wf_clients w ! j)" for j
    using i by (cases "i = j") simp_all
  have "wf_proc ?u = wf_proc w" by simp
  then have "slots_ok ?u" by (intro slots_ok_cong [OF slots]) (simp_all only: set_client_simps same)
  then show ?thesis
    by (rule wifi_inv_clients(1) [OF assms(1)]) (simp_all only: same, simp add: link_of_def)
qed

lemma drop_client_inv:
  assumes "wifi_inv w" "i < kMaxClients"
  shows "wifi_inv (drop_client i w)"
proof -
  have "slots_ok w" using assms(1) by (simp add: wifi_inv_def)
  note drop = drop_client_ok [OF this assms(2)]
  show ?thesis
    by (rule wifi_inv_clients(1) [OF assms(1) drop(1)]) (simp_all add: link_of_def drop(3))
qed

text \<open>The device record of the processor, which the link never touches.\<close>

lemma device_kept [simp]:
  "cp_device (wf_proc (set_state t s w)) = cp_device (wf_proc w)"
  "cp_device (wf_proc (drop_client i w)) = cp_device (wf_proc w)"
  "cp_device (wf_proc (fold drop_client xs w)) = cp_device (wf_proc w)"
proof -
  show drop: "cp_device (wf_proc (drop_client i w)) = cp_device (wf_proc w)" for i w
    by (simp add: drop_client_def remove_sink_def)
  show "cp_device (wf_proc (fold drop_client xs w)) = cp_device (wf_proc w)"
    by (induction xs arbitrary: w) (simp_all add: drop)
  show "cp_device (wf_proc (set_state t s w)) = cp_device (wf_proc w)"
    by (simp add: set_state_def say_simps)
qed

lemma device_kept_server [simp]:
  "cp_device (wf_proc (stop_server w)) = cp_device (wf_proc w)"
  "cp_device (wf_proc (start_server t w)) = cp_device (wf_proc w)"
  "cp_device (wf_proc (wifi_disconnect t w)) = cp_device (wf_proc w)"
  "cp_device (wf_proc (connect_start t w)) = cp_device (wf_proc w)"
  by (simp_all add: stop_server_def start_server_def wifi_disconnect_def connect_start_def begin_link_def Let_def)

lemma device_kept_link [simp]:
  "cp_device (wf_proc (wifi_apply t d w)) = cp_device (wf_proc w)"
  "cp_device (wf_proc (drive_link t w)) = cp_device (wf_proc w)"
  "cp_device (wf_proc (accept_clients t w)) = cp_device (wf_proc w)"
  by (simp_all add: wifi_apply_def drive_link_def begin_link_def accept_clients_def add_sink_def Let_def split: option.split)

definition wifi_ok :: "wifi_transport \<Rightarrow> bool" where
  "wifi_ok w \<longleftrightarrow> wifi_inv w \<and> device_wf (cp_device (wf_proc w))"

lemma wifi_on_envelope_ok:
  assumes "wifi_ok w"
  shows "wifi_ok (wifi_on_envelope lora t k w env)"
proof -
  have inv: "wifi_inv w" and wf: "device_wf (cp_device (wf_proc w))" using assms by (simp_all add: wifi_ok_def)
  have sinks: "cp_sinks (on_envelope lora env (Some k) s) = cp_sinks s" "cp_sinks (store_device_settings m k s) = cp_sinks s"
    "cp_sinks (announce_device_settings rid k s) = cp_sinks s" for s m rid
    using kept_envelope [of k s lora env] kept_rewritten [of k s m]
    by (simp_all add: sessions_kept_def store_rewritten announce_device_settings_def say_simps)
  show ?thesis
  proof (cases "settings_update env k ((wf_proc w)\<lparr>cp_hooks := Some (wifi_hooks w)\<rparr>)")
    case None
    have "device_wf (cp_device (on_envelope lora env (Some k) ((wf_proc w)\<lparr>cp_hooks := Some (wifi_hooks w)\<rparr>)))"
      using input_wf [of _ "Envelope lora env k"] wf by simp
    moreover have "wifi_inv (with_processor t (on_envelope lora env (Some k)) w)"
      by (rule wifi_inv_processor [OF inv]) (simp add: sinks)
    ultimately show ?thesis by (simp add: wifi_on_envelope_def None wifi_ok_def)
  next
    case (Some r)
    obtain rid m where r: "r = (rid, m)" by (metis surj_pair)
    define u where "u = with_processor t (store_device_settings m k) w"
    have u: "wifi_inv u" unfolding u_def by (rule wifi_inv_processor [OF inv]) (simp add: sinks)
    have wf_u: "device_wf (cp_device (wf_proc u))" using wf by (simp add: u_def store_rewritten rewritten_wf)
    define v where "v = (if wifi_touched m then wifi_apply t (cp_device (wf_proc u)) u else u)"
    have v: "wifi_inv v" "device_wf (cp_device (wf_proc v))"
      using u wf_u wifi_apply_inv [OF u wf_u] by (simp_all add: v_def)
    have "wifi_inv (with_processor t (announce_device_settings rid k) v)"
      by (rule wifi_inv_processor [OF v(1)]) (simp add: sinks)
    moreover have "wifi_on_envelope lora t k w env = with_processor t (announce_device_settings rid k) v"
      by (simp add: wifi_on_envelope_def Some r u_def v_def Let_def)
    ultimately show ?thesis using v(2) by (simp add: wifi_ok_def announce_device_settings_def say_simps)
  qed
qed

lemma drain_socket_ok: "wifi_ok w \<Longrightarrow> wifi_ok (fst (snd (drain_socket lora t i n reader w src)))"
proof (induction lora t i n reader w src rule: drain_socket.induct)
  case (3 lora t i budget reader w b src)
  show ?case
  proof (cases "wc_in_use (wf_clients w ! i)")
    case True
    obtain reader' res where feed: "frame_reader_feed b reader = (reader', res)" by (metis surj_pair)
    show ?thesis
      using 3 True wifi_on_envelope_ok by (cases res) (simp_all add: feed)
  qed (simp add: 3(4))
qed simp_all

lemma pump_client_ok:
  assumes "wifi_ok w" "i < kMaxClients"
  shows "wifi_ok (pump_client lora t i w)"
proof -
  have drop: "wifi_ok (drop_client i u)" if "wifi_ok u" for u
    using that drop_client_inv [OF _ assms(2)] by (simp add: wifi_ok_def)
  obtain reader v rest where d: "drain_socket lora t i FRAME_MAX_DRAIN_BYTES_PER_PUMP (wc_reader (wf_clients w ! i)) w (wt_received t i)
      = (reader, v, rest)" by (metis surj_pair)
  have "wifi_ok v" using drain_socket_ok [OF assms(1), of lora t i _ _ "wt_received t i"] d by (metis fst_conv snd_conv)
  then have "wifi_ok (drain_client lora t i w)"
    using set_reader_inv [OF _ assms(2)] by (simp add: drain_client_def d wifi_ok_def)
  then show ?thesis
    using drop assms(1) unfolding pump_client_def Let_def by (simp only: simp_thms split: if_split)
qed

lemma pump_clients_ok: "wifi_ok w \<Longrightarrow> wifi_ok (pump_clients lora t w)"
proof -
  have "\<forall>i \<in> set xs. i < kMaxClients \<Longrightarrow> wifi_ok w \<Longrightarrow> wifi_ok (fold (pump_client lora t) xs w)" for xs w
    by (induction xs arbitrary: w) (simp_all add: pump_client_ok)
  then show "wifi_ok w \<Longrightarrow> wifi_ok (pump_clients lora t w)" by (simp add: pump_clients_def)
qed

lemma wifi_pump_ok:
  assumes "wifi_ok w"
  shows "wifi_ok (wifi_pump lora t w)"
proof (cases "usable w")
  case True
  have "wifi_inv w" using assms by (simp add: wifi_ok_def)
  then have "wifi_inv (accept_clients t (drive_link t w))" by (intro accept_clients_inv drive_link_inv(1) True)
  then have "wifi_ok (accept_clients t (drive_link t w))" using assms by (simp add: wifi_ok_def)
  then show ?thesis using True by (simp add: wifi_pump_def pump_clients_ok)
qed (simp add: wifi_pump_def assms)

subsection \<open>Reachable states\<close>

text \<open>
  What happens to the transport: \<open>begin\<close>, once; then \<open>pump\<close>, \<open>apply\<close> with a well-formed record, the
  envelopes of the clients of the other transports, and whatever else the board does to the
  processor, which never names a TCP client.
\<close>

fun off_tcp :: "input \<Rightarrow> bool" where
  "off_tcp (Envelope lora data k) = False"
| "off_tcp (Attach k) = (k < 4)"
| "off_tcp (Detach k) = (k < 4)"
| "off_tcp (Session_End k) = (k < 4)"
| "off_tcp _ = True"

inductive wifi_reachable :: "wifi_transport \<Rightarrow> bool" where
  begun: "length (wf_clients w) = kMaxClients \<Longrightarrow> \<forall>c \<in> set (wf_clients w). \<not> wc_in_use c \<Longrightarrow> wf_num_clients w = 0 \<Longrightarrow>
    \<forall>i < kMaxClients. tcp i \<notin> set (cp_sinks (wf_proc w)) \<Longrightarrow> device_wf (cp_device (wf_proc w)) \<Longrightarrow>
    wifi_reachable (wifi_begin t hostname w)"
| pumped: "wifi_reachable w \<Longrightarrow> wifi_reachable (wifi_pump lora t w)"
| applied: "wifi_reachable w \<Longrightarrow> device_wf d \<Longrightarrow> wifi_reachable (wifi_apply t d w)"
| asked: "wifi_reachable w \<Longrightarrow> wifi_reachable (wifi_on_envelope lora t k w env)"
| other: "wifi_reachable w \<Longrightarrow> off_tcp i \<Longrightarrow> wifi_reachable (with_processor t (on_input i) w)"

lemma off_tcp_sinks:
  assumes "off_tcp i" "j < kMaxClients"
  shows "count_list (cp_sinks (on_input i s)) (tcp j) = count_list (cp_sinks s) (tcp j)"
proof (cases i)
  case (Received rssi snr raw)
  then show ?thesis using kept_received [of 0 s rssi snr raw] by (simp add: sessions_kept_def)
next
  case (Tx_Result seq ok)
  then show ?thesis using kept_tx_result [of 0 s seq ok s] by (simp add: sessions_kept_def)
next
  case (Poll lora now)
  then show ?thesis using kept_poll [of 0 s lora now] by (simp add: sessions_kept_def)
next
  case Wifi_Changed
  then show ?thesis using kept_wifi [of 0 s] by (simp add: sessions_kept_def)
qed (use assms in \<open>auto simp: add_sink_def remove_sink_def count_append count_remove1_nat tcp_def\<close>)

lemma wifi_reachable_ok: "wifi_reachable w \<Longrightarrow> wifi_ok w"
proof (induction rule: wifi_reachable.induct)
  case (begun w t hostname)
  let ?v = "w\<lparr>wf_settings := device_defaults, wf_hostname := copy_str 24 hostname\<rparr>"
  have none: "\<not> wc_in_use (wf_clients w ! i)" if "i < kMaxClients" for i using begun(1,2) that by simp
  have "slots_ok ?v"
    using begun(1,3,4) none by (simp add: slots_ok_def count_list_0_iff)
  note stop = stop_server_ok [OF this]
  have "slots_ok (wifi_begin t hostname w)"
    unfolding wifi_begin_def Let_def by (rule slots_ok_set_state) (simp add: stop(1))
  moreover have "\<not> usable ?v" "ds_wifi_ssid device_defaults \<noteq> []" by (simp_all add: usable_def device_defaults_def)
  moreover have "length (wf_clients (stop_server ?v)) = kMaxClients" using stop(1) by (simp add: slots_ok_def)
  ultimately show ?case
    using stop(2-4) begun(5) by (simp add: wifi_ok_def wifi_inv_def wifi_begin_def Let_def)
next
  case (other w i t)
  have "wifi_inv (with_processor t (on_input i) w)"
    using other(3) by (intro wifi_inv_processor off_tcp_sinks [OF other(2)]) (simp_all add: wifi_ok_def)
  then show ?case using other(3) by (simp add: wifi_ok_def input_wf)
next
  case (applied w d t)
  then show ?case by (simp add: wifi_ok_def wifi_apply_inv)
qed (simp_all add: wifi_pump_ok wifi_on_envelope_ok)

lemma wifi_reachable_inv: "wifi_reachable w \<Longrightarrow> wifi_inv w"
  using wifi_reachable_ok by (simp add: wifi_ok_def)

end
