(* ===== verification/WifiLinks.thy ===== *)
theory WifiLinks
  imports WifiMachine
begin

text \<open>
  What the Wi-Fi transport promises: agreement of link state, server, slots and sessions; the retry
  ladder; and that a frame written to a socket cannot hold the board loop.
\<close>

section \<open>The state machine\<close>

lemma slots_used:
  assumes "slots_ok w"
  shows "wf_num_clients w = card {i. i < kMaxClients \<and> wc_in_use (wf_clients w ! i)}"
proof -
  have "(\<Sum>i < kMaxClients. of_bool (wc_in_use (wf_clients w ! i))) = card ({..<kMaxClients} \<inter> {i. wc_in_use (wf_clients w ! i)})"
    by (simp add: of_bool_def sum.If_cases)
  moreover have "{..<kMaxClients} \<inter> {i. wc_in_use (wf_clients w ! i)} = {i. i < kMaxClients \<and> wc_in_use (wf_clients w ! i)}"
    by auto
  ultimately show ?thesis using assms by (simp add: slots_ok_def)
qed

text \<open>
  C5. The state machine.  After \<open>begin\<close> and any pumps, settings and board activity: a slot is a
  registered client of the processor exactly when it is in use, and the count of clients is the
  number of such slots; the server exists and is up exactly in the state CONNECTED, outside of which
  no slot is in use; the machine is OFF exactly when Wi-Fi is disabled or has no network name; the
  delay is 0 while connected and between 5 s and 2 min while a connection is being tried.
\<close>

theorem wifi_machine:
  assumes "wifi_reachable w"
  shows "length (wf_clients w) = kMaxClients \<and>
    client_count w = card {i. i < kMaxClients \<and> wc_in_use (wf_clients w ! i)} \<and>
    (\<forall>i < kMaxClients. count_list (cp_sinks (wf_proc w)) (tcp i) = (if wc_in_use (wf_clients w ! i) then 1 else 0)) \<and>
    (wf_server w \<longleftrightarrow> wf_state w = State_CONNECTED) \<and> (wf_server_up w \<longleftrightarrow> wf_state w = State_CONNECTED) \<and>
    (wf_state w \<noteq> State_CONNECTED \<longrightarrow> client_count w = 0) \<and>
    (wf_state w = State_OFF \<longleftrightarrow> \<not> usable w) \<and>
    (wf_state w = State_CONNECTED \<longrightarrow> wf_backoff_ms w = 0) \<and>
    (wf_state w \<in> {State_CONNECTING, State_AUTH_FAIL, State_ERROR} \<longrightarrow>
       5000 \<le> unat (wf_backoff_ms w) \<and> unat (wf_backoff_ms w) \<le> 120000)"
proof -
  have inv: "wifi_inv w" by (rule wifi_reachable_inv [OF assms])
  then have slots: "slots_ok w" and up: "wf_server_up w \<longleftrightarrow> wf_state w = State_CONNECTED" "wf_server w = wf_server_up w"
    and empty: "\<not> wf_server_up w \<longrightarrow> (\<forall>i < kMaxClients. \<not> wc_in_use (wf_clients w ! i))"
    and off: "usable w \<longleftrightarrow> wf_state w \<noteq> State_OFF" and conn: "wf_state w = State_CONNECTED \<longrightarrow> wf_backoff_ms w = 0"
    and range: "retrying (wf_state w) \<longrightarrow> kBackoffStartMs \<le> wf_backoff_ms w \<and> wf_backoff_ms w \<le> kBackoffMaxMs"
    by (simp_all add: wifi_inv_def)
  have num: "client_count w = card {i. i < kMaxClients \<and> wc_in_use (wf_clients w ! i)}"
    using slots_used [OF slots] by (simp add: client_count_def)
  have "client_count w = 0" if "wf_state w \<noteq> State_CONNECTED"
  proof -
    have "{i. i < kMaxClients \<and> wc_in_use (wf_clients w ! i)} = {}" using that up empty by auto
    then show ?thesis by (simp only: num card.empty)
  qed
  moreover have "5000 \<le> unat (wf_backoff_ms w) \<and> unat (wf_backoff_ms w) \<le> 120000"
    if "wf_state w \<in> {State_CONNECTING, State_AUTH_FAIL, State_ERROR}"
    using range that by (auto simp: kBackoffStartMs_def kBackoffMaxMs_def word_le_nat_alt)
  ultimately show ?thesis using slots up off conn num by (auto simp: slots_ok_def of_bool_def)
qed

lemma pump_clients_idle:
  assumes "\<forall>i < kMaxClients. \<not> wc_in_use (wf_clients w ! i)"
  shows "pump_clients lora t w = w"
proof -
  have "\<forall>i \<in> set xs. i < kMaxClients \<Longrightarrow> fold (pump_client lora t) xs w = w" for xs
    using assms by (induction xs) (simp_all add: pump_client_def)
  then show ?thesis by (simp add: pump_clients_def)
qed

text \<open>A radio told to join the network "A", and one that has joined it.\<close>

definition home_network :: device_settings where
  "home_network = device_defaults\<lparr>ds_wifi_enabled := True, ds_wifi_ssid := 0x41 # replicate 32 0\<rparr>"

definition idle_tick :: "wl_status \<Rightarrow> u32 \<Rightarrow> wifi_tick" where
  "idle_tick status now = \<lparr>wt_status = status, wt_millis = now, wt_pending = False, wt_received = (\<lambda>i. []),
     wt_connected = (\<lambda>i. True), wt_refuses = (\<lambda>i buf. False), wt_mdns_ok = True\<rparr>"

lemma idle_tick_simps:
  "wt_status (idle_tick status now) = status" "wt_millis (idle_tick status now) = now" "\<not> wt_pending (idle_tick status now)"
  by (simp_all add: idle_tick_def)

definition unplugged :: wifi_transport where
  "unplugged = \<lparr>wf_proc = fresh_radio, wf_board = default_hooks, wf_link = \<lparr>wl_ssid = [0x41, 0], wl_local_ip = [10, 0, 0, 2], wl_rssi = 0\<rparr>,
     wf_settings = device_defaults, wf_state = State_OFF, wf_hostname = [], wf_server = False, wf_server_up = False,
     wf_port = of_nat MESHPIGEON_WIFI_PORT_DEFAULT, wf_last_attempt_ms = 0, wf_backoff_ms = 0,
     wf_clients = replicate kMaxClients \<lparr>wc_reader = frame_reader_reset, wc_in_use = False, wc_broken = False\<rparr>,
     wf_num_clients = 0, wf_calls = []\<rparr>"

definition joining :: wifi_transport where
  "joining = wifi_apply (idle_tick WL_OTHER 0) home_network (wifi_begin (idle_tick WL_OTHER 0) [] unplugged)"

definition joined :: wifi_transport where
  "joined = wifi_pump working_lora (idle_tick WL_CONNECTED 100) joining"

lemma home_network_wf: "device_wf home_network"
  using device_wf_defaults
  by (simp add: device_wf_def home_network_def char_field_def protocol_limits)

lemma joining_reachable: "wifi_reachable joining" "wifi_reachable joined"
proof -
  show "wifi_reachable joining"
    unfolding joining_def
    by (intro applied begun home_network_wf) (simp_all add: unplugged_def sample_facts kMaxClients_def device_wf_defaults)
  then show "wifi_reachable joined" unfolding joined_def by (rule pumped)
qed

lemma joining_facts:
  "wf_state joining = State_CONNECTING" "wf_settings joining = home_network\<lparr>ds_wifi_port := of_nat MESHPIGEON_WIFI_PORT_DEFAULT\<rparr>"
  "wf_last_attempt_ms joining = 0" "unat (wf_backoff_ms joining) = 5000"
proof -
  let ?w = "wifi_begin (idle_tick WL_OTHER 0) [] unplugged"
  have w: "wf_settings ?w = device_defaults" by (simp add: wifi_begin_def Let_def)
  have port: "ds_wifi_port home_network \<noteq> 0" "ds_wifi_port home_network = of_nat MESHPIGEON_WIFI_PORT_DEFAULT"
    by (simp_all add: home_network_def device_defaults_def protocol_limits)
  have "usable (?w\<lparr>wf_settings := home_network\<lparr>ds_wifi_port := of_nat MESHPIGEON_WIFI_PORT_DEFAULT\<rparr>,
      wf_port := of_nat MESHPIGEON_WIFI_PORT_DEFAULT\<rparr>)" "\<not> ds_wifi_enabled (wf_settings ?w)"
    by (simp_all add: usable_def home_network_def w device_defaults_def)
  then show "wf_state joining = State_CONNECTING" "wf_settings joining = home_network\<lparr>ds_wifi_port := of_nat MESHPIGEON_WIFI_PORT_DEFAULT\<rparr>"
    "wf_last_attempt_ms joining = 0" "unat (wf_backoff_ms joining) = 5000"
    unfolding joining_def wifi_apply_def Let_def if_not_P [OF port(1)] port(2)
    by (simp_all add: connect_start_def begin_link_def wifi_disconnect_def idle_tick_def kBackoffStartMs_def)
qed

text \<open>A transport no client has reached yet.\<close>

definition untouched :: "wifi_transport \<Rightarrow> bool" where
  "untouched w \<longleftrightarrow> wf_clients w = wf_clients unplugged \<and> cp_sinks (wf_proc w) = [] \<and> cp_device (wf_proc w) = device_defaults"

lemma untouched_update [simp]:
  "untouched (wifi_call c w) = untouched w" "untouched (w\<lparr>wf_server := a\<rparr>) = untouched w" "untouched (w\<lparr>wf_server_up := a\<rparr>) = untouched w"
  "untouched (w\<lparr>wf_settings := d\<rparr>) = untouched w" "untouched (w\<lparr>wf_port := p\<rparr>) = untouched w" "untouched (w\<lparr>wf_hostname := h\<rparr>) = untouched w"
  "untouched (w\<lparr>wf_last_attempt_ms := b\<rparr>) = untouched w" "untouched (w\<lparr>wf_backoff_ms := b\<rparr>) = untouched w"
  by (simp_all add: untouched_def)

lemma mark_broken_Nil: "mark_broken refuses [] cs = cs"
  by (rule nth_equalityI) (simp_all add: mark_broken_def)

lemma untouched_set_state: "untouched w \<Longrightarrow> untouched (set_state t s w)"
  by (simp add: untouched_def set_state_def with_processor_def mark_broken_Nil say_simps recipients_def frames_def Let_def)

lemma untouched_server: "untouched w \<Longrightarrow> untouched (stop_server w)" "untouched w \<Longrightarrow> untouched (start_server t w)"
proof -
  have stop: "untouched (stop_server w)" if "untouched w" for w
  proof -
    have "\<forall>i \<in> set xs. i < kMaxClients \<Longrightarrow> fold drop_client xs w = w" for xs
      using that by (induction xs) (simp_all add: drop_client_def untouched_def unplugged_def kMaxClients_def)
    then show ?thesis using that by (simp add: stop_server_def Let_def)
  qed
  then show "untouched w \<Longrightarrow> untouched (stop_server w)" "untouched w \<Longrightarrow> untouched (start_server t w)"
    by (simp_all add: start_server_def Let_def)
qed

lemma joined_is: "joined = drive_link (idle_tick WL_CONNECTED 100) joining" "wf_state joined = State_CONNECTED" "untouched joined"
proof -
  let ?t = "idle_tick WL_CONNECTED 100"
  let ?v = "drive_link ?t joining"
  have inv: "wifi_inv joining" by (rule wifi_reachable_inv [OF joining_reachable(1)])
  then have u: "usable joining" and down: "\<not> wf_server_up joining" using joining_facts(1) by (simp_all add: wifi_inv_def)
  have v: "?v = set_state ?t State_CONNECTED ((start_server ?t joining)\<lparr>wf_backoff_ms := 0\<rparr>)"
    using down by (simp add: drive_link_def joining_facts(1) idle_tick_def)
  have "untouched unplugged" by (simp add: untouched_def unplugged_def sample_facts)
  then have "untouched joining"
    unfolding joining_def wifi_apply_def wifi_begin_def Let_def connect_start_def begin_link_def wifi_disconnect_def
    by (simp add: untouched_set_state untouched_server)
  then have q: "untouched ?v" unfolding v by (simp add: untouched_set_state untouched_server)
  then have "pump_clients working_lora ?t ?v = ?v"
    by (intro pump_clients_idle) (simp add: untouched_def unplugged_def)
  then show j: "joined = ?v" using u v by (simp add: joined_def wifi_pump_def accept_clients_def idle_tick_def)
  show "wf_state joined = State_CONNECTED" unfolding j v by simp
  show "untouched joined" unfolding j by (rule q)
qed

lemmas joined_state = joined_is(2)

lemma wifi_machine_witness:
  "client_count joining = 0 \<and> \<not> wf_server joining \<and> wf_server joined \<and> wf_backoff_ms joined = 0 \<and>
   client_count joined = card {i. i < kMaxClients \<and> wc_in_use (wf_clients joined ! i)}"
proof -
  have "wf_state joining \<noteq> State_CONNECTED" by (simp add: joining_facts(1))
  then show ?thesis
    using wifi_machine [OF joining_reachable(1)] wifi_machine [OF joining_reachable(2)] joined_state by blast
qed

section \<open>The retry ladder\<close>

lemma pump_retry:
  assumes "wifi_inv w" "retrying (wf_state w)" "wt_status t \<noteq> WL_CONNECTED"
  shows "wifi_pump lora t w = drive_link t w"
proof -
  have u: "usable w" using assms(1,2) by (auto simp: wifi_inv_def)
  have inv: "wifi_inv (drive_link t w)" using drive_link_inv(1) [OF assms(1) u] .
  have "kBackoffStartMs \<le> wf_backoff_ms w" "wf_backoff_ms w \<le> kBackoffMaxMs"
    using assms(1,2) by (simp_all add: wifi_inv_def)
  then have "wf_state (drive_link t w) = failure_state (wt_status t)"
    by (simp add: drive_retry assms(2,3) Let_def begin_link_def)
  then have "\<not> wf_server_up (drive_link t w)" using inv by (auto simp: wifi_inv_def failure_state_def)
  moreover have "\<forall>i < kMaxClients. \<not> wc_in_use (wf_clients (drive_link t w) ! i)" using calculation inv by (simp add: wifi_inv_def)
  ultimately show ?thesis
    using u by (simp add: wifi_pump_def accept_clients_def pump_clients_idle)
qed

text \<open>One failing tick.\<close>

definition attempt_due :: "wifi_tick \<Rightarrow> wifi_transport \<Rightarrow> bool" where
  "attempt_due t w \<longleftrightarrow> wt_millis t - wf_last_attempt_ms w \<ge> wf_backoff_ms w"

definition attempt :: "wifi_transport \<Rightarrow> wifi_call" where
  "attempt w = Wifi_Begin (cstr (ds_wifi_ssid (wf_settings w))) (cstr (ds_wifi_password (wf_settings w)))"

lemma retry_tick:
  fixes lora
  assumes "wifi_inv w" "retrying (wf_state w)" "wt_status t \<noteq> WL_CONNECTED"
  defines "w' \<equiv> wifi_pump lora t w"
  shows "wifi_inv w'" "wf_state w' = failure_state (wt_status t)" "wf_settings w' = wf_settings w"
    "wf_calls w' = wf_calls w @ (if attempt_due t w then [attempt w] else [])"
    "wf_last_attempt_ms w' = (if attempt_due t w then wt_millis t else wf_last_attempt_ms w)"
    "unat (wf_backoff_ms w') = (if attempt_due t w then min (2 * unat (wf_backoff_ms w)) 120000 else unat (wf_backoff_ms w))"
proof -
  have range: "kBackoffStartMs \<le> wf_backoff_ms w" "wf_backoff_ms w \<le> kBackoffMaxMs"
    using assms(1,2) by (simp_all add: wifi_inv_def)
  have "usable w" using assms(1,2) by (auto simp: wifi_inv_def)
  then show "wifi_inv w'" unfolding w'_def pump_retry [OF assms(1-3)] by (rule drive_link_inv(1) [OF assms(1)])
  note w' = w'_def [unfolded pump_retry [OF assms(1-3)] drive_retry [OF assms(2,3) range] Let_def]
  show "wf_state w' = failure_state (wt_status t)" "wf_settings w' = wf_settings w"
    "wf_calls w' = wf_calls w @ (if attempt_due t w then [attempt w] else [])"
    "wf_last_attempt_ms w' = (if attempt_due t w then wt_millis t else wf_last_attempt_ms w)"
    "unat (wf_backoff_ms w') = (if attempt_due t w then min (2 * unat (wf_backoff_ms w)) 120000 else unat (wf_backoff_ms w))"
    using next_backoff_range [OF range]
    by (simp_all add: w' begin_link_def attempt_due_def attempt_def kBackoffMaxMs_def)
qed

text \<open>A run of failing ticks.\<close>

lemma retry_run:
  assumes "\<forall>t \<in> set ts. wt_status t \<noteq> WL_CONNECTED"
  shows "wifi_inv w \<Longrightarrow> retrying (wf_state w) \<Longrightarrow>
    (let w' = fold (wifi_pump lora) ts w in wifi_inv w' \<and> retrying (wf_state w') \<and> wf_settings w' = wf_settings w \<and>
       (\<exists>n. wf_calls w' = wf_calls w @ replicate n (attempt w) \<and>
          unat (wf_backoff_ms w') = min (2 ^ n * unat (wf_backoff_ms w)) 120000))"
  using assms
proof (induction ts arbitrary: w)
  case Nil
  then have "unat (wf_backoff_ms w) \<le> 120000"
    by (simp add: wifi_inv_def kBackoffMaxMs_def word_le_nat_alt)
  then show ?case using Nil by (auto intro!: exI [of _ 0])
next
  case (Cons t ts)
  let ?v = "wifi_pump lora t w"
  let ?w = "fold (wifi_pump lora) ts ?v"
  have t: "wt_status t \<noteq> WL_CONNECTED" using Cons.prems(3) by simp
  note tick = retry_tick [OF Cons.prems(1,2) t, of lora]
  have "\<exists>n. wf_calls ?w = wf_calls ?v @ replicate n (attempt ?v) \<and> unat (wf_backoff_ms ?w) = min (2 ^ n * unat (wf_backoff_ms ?v)) 120000"
    and rest: "wifi_inv ?w" "retrying (wf_state ?w)" "wf_settings ?w = wf_settings ?v"
    using Cons.IH [of ?v] tick(1,2) Cons.prems(3) by (simp_all add: Let_def)
  then obtain n where n: "wf_calls ?w = wf_calls ?v @ replicate n (attempt ?v)"
    "unat (wf_backoff_ms ?w) = min (2 ^ n * unat (wf_backoff_ms ?v)) 120000" by blast
  have same: "attempt ?v = attempt w" by (simp add: attempt_def tick(3))
  have "\<exists>m. wf_calls ?w = wf_calls w @ replicate m (attempt w) \<and> unat (wf_backoff_ms ?w) = min (2 ^ m * unat (wf_backoff_ms w)) 120000"
  proof (cases "attempt_due t w")
    case True
    have "min (2 ^ n * min (2 * b) 120000) 120000 = min (2 ^ Suc n * b) (120000 :: nat)" for b
    proof (cases "2 * b \<le> 120000")
      case False
      have "1 * 120000 \<le> 2 ^ n * (120000 :: nat)" by (rule mult_right_mono) simp_all
      moreover have "1 * 120000 \<le> 2 ^ n * (2 * b)" using False by (intro mult_mono) simp_all
      ultimately show ?thesis using False by simp
    qed (simp add: ac_simps)
    then show ?thesis using n tick(4,6) True same by (intro exI [of _ "Suc n"]) simp
  next
    case False
    then show ?thesis using n tick(4,6) same by (intro exI [of _ n]) simp
  qed
  then show ?case using rest tick(3) by (simp add: Let_def)
qed

text \<open>
  C11. The retry ladder.  While the link is not up, a pump shows the cause the radio reports, and
  starts the next attempt exactly when the delay since the last one has passed; however many pumps
  run, the delay has doubled with every attempt made, up to two minutes, and nothing else was asked
  of the Wi-Fi library.
\<close>

theorem wifi_retry_ladder:
  fixes lora
  assumes "wifi_reachable w" "wf_state w \<in> {State_CONNECTING, State_AUTH_FAIL, State_ERROR}"
    and "\<forall>t \<in> set (ts @ [t]). wt_status t \<noteq> WL_CONNECTED"
  defines "v \<equiv> fold (wifi_pump lora) ts w"
  shows "(\<exists>n. wf_calls v = wf_calls w @ replicate n (Wifi_Begin (cstr (ds_wifi_ssid (wf_settings w))) (cstr (ds_wifi_password (wf_settings w)))) \<and>
       unat (wf_backoff_ms v) = min (2 ^ n * unat (wf_backoff_ms w)) 120000) \<and>
    (let v' = wifi_pump lora t v in
       wf_state v' = (if wt_status t = WL_NO_SSID_AVAIL then State_ERROR
                      else if wt_status t = WL_CONNECT_FAILED then State_AUTH_FAIL else State_CONNECTING) \<and>
       (wt_millis t - wf_last_attempt_ms v \<ge> wf_backoff_ms v \<longrightarrow>
          wf_calls v' = wf_calls v @ [Wifi_Begin (cstr (ds_wifi_ssid (wf_settings w))) (cstr (ds_wifi_password (wf_settings w)))] \<and>
          wf_last_attempt_ms v' = wt_millis t \<and> unat (wf_backoff_ms v') = min (2 * unat (wf_backoff_ms v)) 120000) \<and>
       (wt_millis t - wf_last_attempt_ms v < wf_backoff_ms v \<longrightarrow>
          wf_calls v' = wf_calls v \<and> wf_last_attempt_ms v' = wf_last_attempt_ms v \<and> wf_backoff_ms v' = wf_backoff_ms v))"
proof -
  have "retrying (wf_state w)" using assms(2) by auto
  moreover have "\<forall>t \<in> set ts. wt_status t \<noteq> WL_CONNECTED" using assms(3) by simp
  ultimately have run: "wifi_inv v" "retrying (wf_state v)" "wf_settings v = wf_settings w"
    "\<exists>n. wf_calls v = wf_calls w @ replicate n (attempt w) \<and> unat (wf_backoff_ms v) = min (2 ^ n * unat (wf_backoff_ms w)) 120000"
    using retry_run [OF _ wifi_reachable_inv [OF assms(1)], of ts lora] by (simp_all add: v_def Let_def)
  have t: "wt_status t \<noteq> WL_CONNECTED" using assms(3) by simp
  note tick = retry_tick [OF run(1,2) t, of lora]
  have kept: "wf_backoff_ms (wifi_pump lora t v) = wf_backoff_ms v" if "\<not> attempt_due t v"
    using tick(6) that by (simp add: word_unat_eq_iff)
  show ?thesis
  proof (cases "attempt_due t v")
    case True
    then have "wf_backoff_ms v \<le> wt_millis t - wf_last_attempt_ms v" by (simp add: attempt_due_def)
    then show ?thesis using run(4) tick True by (simp add: Let_def attempt_def run(3) failure_state_def)
  next
    case False
    then have "\<not> wf_backoff_ms v \<le> wt_millis t - wf_last_attempt_ms v" by (simp add: attempt_due_def)
    then show ?thesis using run(4) tick kept False by (simp add: Let_def attempt_def run(3) failure_state_def)
  qed
qed

lemma wifi_retry_ladder_witness:
  "wf_calls (wifi_pump working_lora (idle_tick WL_NO_SSID_AVAIL 6000) joining) = wf_calls joining @ [Wifi_Begin [0x41] []] \<and>
   unat (wf_backoff_ms (wifi_pump working_lora (idle_tick WL_NO_SSID_AVAIL 6000) joining)) = 10000"
proof -
  have ssid: "cstr (ds_wifi_ssid (wf_settings joining)) = [0x41]" "cstr (ds_wifi_password (wf_settings joining)) = []"
    by (simp_all add: joining_facts(2) home_network_def cstr_def device_defaults_def protocol_limits)
  have "wf_backoff_ms joining \<le> 6000" using joining_facts(4) by (simp add: word_le_nat_alt)
  then show ?thesis
    using wifi_retry_ladder [OF joining_reachable(1), of "[]" "idle_tick WL_NO_SSID_AVAIL 6000" working_lora]
    by (simp add: joining_facts(1,3,4) ssid idle_tick_simps Let_def)
qed

section \<open>Reconfiguring Wi-Fi over Wi-Fi\<close>

text \<open>Whether a new record leaves an established link alone.\<close>

definition link_survives :: "device_settings \<Rightarrow> wifi_transport \<Rightarrow> bool" where
  "link_survives d w \<longleftrightarrow> ds_wifi_enabled d \<and> ds_wifi_ssid d ! 0 \<noteq> 0 \<and>
     cstr (ds_wifi_ssid d) = cstr (ds_wifi_ssid (wf_settings w)) \<and>
     cstr (ds_wifi_password d) = cstr (ds_wifi_password (wf_settings w)) \<and>
     (if ds_wifi_port d = 0 then of_nat MESHPIGEON_WIFI_PORT_DEFAULT else ds_wifi_port d) = wf_port w"

definition link_after :: "device_settings \<Rightarrow> wifi_transport \<Rightarrow> wifi_state" where
  "link_after d w =
     (if \<not> ds_wifi_enabled d \<or> ds_wifi_ssid d ! 0 = 0 then State_OFF
      else if cstr (ds_wifi_ssid d) = cstr (ds_wifi_ssid (wf_settings w)) \<and>
        cstr (ds_wifi_password d) = cstr (ds_wifi_password (wf_settings w)) then State_CONNECTED
      else State_CONNECTING)"

lemma apply_connected:
  assumes "wifi_inv w" "wf_state w = State_CONNECTED" "device_wf d"
  shows "link_survives d w \<Longrightarrow> wf_state (wifi_apply t d w) = State_CONNECTED \<and>
      wf_clients (wifi_apply t d w) = wf_clients w \<and> wf_proc (wifi_apply t d w) = wf_proc w"
    "\<not> link_survives d w \<Longrightarrow> wf_state (wifi_apply t d w) = link_after d w \<and>
      (\<forall>j < kMaxClients. \<not> wc_in_use (wf_clients (wifi_apply t d w) ! j))"
proof -
  let ?port = "if ds_wifi_port d = 0 then of_nat MESHPIGEON_WIFI_PORT_DEFAULT else ds_wifi_port d"
  let ?same = "cstr (ds_wifi_ssid (wf_settings w)) = cstr (ds_wifi_ssid d) \<and>
    cstr (ds_wifi_password (wf_settings w)) = cstr (ds_wifi_password d)"
  define v where "v = w\<lparr>wf_settings := d\<lparr>ds_wifi_port := ?port\<rparr>, wf_port := ?port\<rparr>"
  have was: "ds_wifi_enabled (wf_settings w)" "wf_server_up w" and slots: "slots_ok v"
    using assms(1,2) by (auto simp: wifi_inv_def usable_def v_def)
  have v: "wf_state v = State_CONNECTED" "wf_server_up v" "wf_clients v = wf_clients w" "wf_proc v = wf_proc w"
    "usable v \<longleftrightarrow> ds_wifi_enabled d \<and> ds_wifi_ssid d ! 0 \<noteq> 0"
    using assms(2) was(2) by (simp_all add: v_def usable_def)
  have eq: "wifi_apply t d w = (if \<not> usable v then wifi_disconnect t (stop_server v)
         else if \<not> ?same then connect_start t (wifi_disconnect t (stop_server v))
         else if ?port \<noteq> wf_port w then start_server t v else v)"
    using was v(2) unfolding wifi_apply_def Let_def v_def [symmetric] by simp
  have ssid: "ds_wifi_ssid (wf_settings v) \<noteq> []"
    using assms(3) by (auto simp: v_def device_wf_def char_field_def)
  note disc = disconnect_ok [OF slots ssid, of t]
  have len: "length (wf_clients (wifi_disconnect t (stop_server v))) = kMaxClients" using disc(1) by (simp add: slots_ok_def)
  show "wf_state (wifi_apply t d w) = State_CONNECTED \<and> wf_clients (wifi_apply t d w) = wf_clients w \<and>
      wf_proc (wifi_apply t d w) = wf_proc w" if "link_survives d w"
  proof -
    have "wifi_apply t d w = v" using that v(5) unfolding eq link_survives_def by presburger
    then show ?thesis using v by simp
  qed
  have fields: "wf_clients (connect_start t u) = wf_clients (set_state t State_CONNECTING u)" "wf_state (connect_start t u) = State_CONNECTING" for u
    by (simp_all add: connect_start_def begin_link_def Let_def)
  show "wf_state (wifi_apply t d w) = link_after d w \<and> (\<forall>j < kMaxClients. \<not> wc_in_use (wf_clients (wifi_apply t d w) ! j))"
    if "\<not> link_survives d w"
  proof -
    consider (off) "\<not> usable v" | (other) "usable v" "\<not> ?same" | (port) "usable v" ?same by blast
    then show ?thesis
    proof cases
      case off
      then have "wifi_apply t d w = wifi_disconnect t (stop_server v)" "link_after d w = State_OFF"
        using v(5) by (simp_all add: eq link_after_def)
      then show ?thesis using disc by simp
    next
      case other
      have "wifi_apply t d w = connect_start t (wifi_disconnect t (stop_server v))" unfolding eq using other by (simp only: simp_thms if_True if_False)
      moreover have "link_after d w = State_CONNECTING" unfolding link_after_def using other v(5) by (simp only: simp_thms if_True if_False) auto
      ultimately show ?thesis using disc(2) by (simp add: fields len)
    next
      case port
      then have "?port \<noteq> wf_port w" using that v(5) unfolding link_survives_def by auto
      then have "wifi_apply t d w = start_server t v" unfolding eq using port by (simp only: simp_thms if_True if_False)
      moreover have "link_after d w = State_CONNECTED" unfolding link_after_def using port v(5) by simp
      ultimately show ?thesis using start_server_ok(2) [OF slots] v(1) by simp
    qed
  qed
qed

lemma announce_trace:
  "\<exists>es. cp_trace (announce_device_settings rid k s) = cp_trace s @ es @ [Send_Frame k (frame_of rid (device_body s))]"
proof -
  have "device_body (say r b ks s) = device_body s" for r b ks by (simp add: device_body_def effective_name_def)
  then show ?thesis by (simp add: announce_device_settings_def say_simps) (simp add: frames_ok(2))
qed

lemma slots_unregistered:
  assumes "slots_ok w" "i < kMaxClients" "\<not> wc_in_use (wf_clients w ! i)"
  shows "tcp i \<notin> set (cp_sinks (wf_proc w))"
proof -
  have "count_list (cp_sinks (wf_proc w)) (tcp i) = 0" using assms by (simp add: slots_ok_def)
  then show ?thesis by (simp add: count_list_0_iff)
qed


text \<open>The radio that has joined, with one client on slot 0.\<close>

lemma pump_clients_quiet:
  assumes "\<forall>i < kMaxClients. wt_received t i = [] \<and> wt_connected t i \<and> \<not> wc_broken (wf_clients w ! i)"
  shows "pump_clients lora t w = w"
proof -
  have drain: "drain_socket lora t i n reader w [] = (reader, w, [])" for n i reader by (cases n) simp_all
  have "drain_client lora t i w = w" if "i < kMaxClients" for i
    using assms that by (simp add: drain_client_def drain set_client_def)
  then have "pump_client lora t i w = w" if "i < kMaxClients" for i
    using assms that by (simp add: pump_client_def)
  then have "\<forall>i \<in> set xs. i < kMaxClients \<Longrightarrow> fold (pump_client lora t) xs w = w" for xs by (induction xs) simp_all
  then show ?thesis by (simp add: pump_clients_def)
qed

definition knock :: wifi_tick where
  "knock = (idle_tick WL_CONNECTED 200)\<lparr>wt_pending := True\<rparr>"

definition hosting :: wifi_transport where
  "hosting = wifi_pump working_lora knock joined"

definition wifi_on :: meshpigeon_SetDeviceSettings where
  "wifi_on = SetDeviceSettings_init_zero\<lparr>sds_has_wifi_enabled := True, sds_wifi_enabled := True\<rparr>"

lemma hosting_facts:
  "wifi_reachable hosting" "wf_state hosting = State_CONNECTED" "wc_in_use (wf_clients hosting ! 0)" "cp_device (wf_proc hosting) = device_defaults"
proof -
  show "wifi_reachable hosting" unfolding hosting_def by (rule pumped [OF joining_reachable(2)])
  have inv: "wifi_inv joined" by (rule wifi_reachable_inv [OF joining_reachable(2)])
  then have up: "usable joined" "wf_server_up joined" "wf_server joined" using joined_state by (simp_all add: wifi_inv_def)
  have clients: "wf_clients joined = replicate 4 \<lparr>wc_reader = frame_reader_reset, wc_in_use = False, wc_broken = False\<rparr>"
    "cp_sinks (wf_proc joined) = []" "cp_device (wf_proc joined) = device_defaults"
    using joined_is(3) by (simp_all add: untouched_def unplugged_def kMaxClients_def)
  have "drive_link knock joined = joined" by (simp add: drive_link_def knock_def idle_tick_def joined_state)
  moreover have find: "List.find (\<lambda>i. \<not> wc_in_use (wf_clients joined ! i)) [0..<kMaxClients] = Some 0"
    by (simp add: clients kMaxClients_def upt_conv_Cons)
  define v where "v = accept_clients knock joined"
  have v: "v = (set_client 0 (\<lambda>c. c\<lparr>wc_reader := frame_reader_reset, wc_in_use := True, wc_broken := False\<rparr>)
        (wifi_call (Client_Stop 0) joined))\<lparr>wf_num_clients := wf_num_clients joined + 1,
          wf_proc := (wf_proc joined)\<lparr>cp_authenticated := (cp_authenticated (wf_proc joined))(tcp 0 := False), cp_sinks := [tcp 0]\<rparr>\<rparr>"
    using up find by (simp add: v_def accept_clients_def knock_def idle_tick_def sink_free_def clients kMaxSinks_def add_sink_def Let_def)
  have "pump_clients working_lora knock v = v"
    by (rule pump_clients_quiet) (auto simp: v knock_def idle_tick_def clients kMaxClients_def less_Suc_eq numeral_eq_Suc)
  ultimately have h: "hosting = v" using up by (simp add: hosting_def wifi_pump_def v_def)
  show "wf_state hosting = State_CONNECTED" "wc_in_use (wf_clients hosting ! 0)" "cp_device (wf_proc hosting) = device_defaults"
    using joined_state by (simp_all add: h v clients)
qed


section \<open>Writing a frame\<close>

text \<open>
  The documented behaviour of the calls: a non-blocking send takes a prefix of what it is given and
  no time; \<open>delay(1)\<close> lets at least one and at most \<open>slack\<close> milliseconds pass and sends nothing; the
  counter is the low 32 bits of the time.
\<close>

definition socket_spec :: "'k socket_api \<Rightarrow> ('k \<Rightarrow> byte list) \<Rightarrow> ('k \<Rightarrow> nat) \<Rightarrow> nat \<Rightarrow> bool" where
  "socket_spec so taken ms slack \<longleftrightarrow>
     (\<forall>bytes k. ms (snd (so_send so bytes k)) = ms k \<and>
        (case fst (so_send so bytes k) of
           Sent n \<Rightarrow> n \<le> length bytes \<and> taken (snd (so_send so bytes k)) = taken k @ take n bytes
         | _ \<Rightarrow> taken (snd (so_send so bytes k)) = taken k)) \<and>
     (\<forall>k. taken (so_delay so k) = taken k \<and> ms k < ms (so_delay so k) \<and> ms (so_delay so k) \<le> ms k + slack) \<and>
     (\<forall>k. so_millis so k = of_nat (ms k))"

lemma socket_laws:
  assumes "socket_spec so taken ms slack"
  shows "so_send so bytes k = (r, v) \<Longrightarrow> ms v = ms k"
    "so_send so bytes k = (Sent n, v) \<Longrightarrow> n \<le> length bytes \<and> taken v = taken k @ take n bytes"
    "so_send so bytes k = (Would_Block, v) \<Longrightarrow> taken v = taken k"
    "so_send so bytes k = (Send_Error, v) \<Longrightarrow> taken v = taken k"
    "taken (so_delay so k) = taken k" "ms k < ms (so_delay so k)" "ms (so_delay so k) \<le> ms k + slack"
proof -
  have send: "ms (snd (so_send so bytes k)) = ms k \<and>
      (case fst (so_send so bytes k) of
         Sent n \<Rightarrow> n \<le> length bytes \<and> taken (snd (so_send so bytes k)) = taken k @ take n bytes
       | _ \<Rightarrow> taken (snd (so_send so bytes k)) = taken k)"
    using assms by (simp add: socket_spec_def)
  show "so_send so bytes k = (r, v) \<Longrightarrow> ms v = ms k"
    "so_send so bytes k = (Sent n, v) \<Longrightarrow> n \<le> length bytes \<and> taken v = taken k @ take n bytes"
    "so_send so bytes k = (Would_Block, v) \<Longrightarrow> taken v = taken k"
    "so_send so bytes k = (Send_Error, v) \<Longrightarrow> taken v = taken k"
    using send by simp_all
  show "taken (so_delay so k) = taken k" "ms k < ms (so_delay so k)" "ms (so_delay so k) \<le> ms k + slack"
    using assms by (simp_all add: socket_spec_def)
qed

lemma budget_spent:
  assumes "socket_spec so taken ms slack" "m0 \<le> ms k" "ms k < m0 + 2 ^ 32"
  shows "so_millis so k - of_nat m0 \<ge> kWriteBudgetMs \<longleftrightarrow> m0 + 250 \<le> ms k"
proof -
  have "so_millis so k - of_nat m0 = of_nat (ms k - m0)"
    using assms(1,2) by (simp add: socket_spec_def of_nat_diff)
  moreover have "unat (of_nat (ms k - m0) :: u32) = ms k - m0"
    using assms(2,3) by (subst unat_of_nat) simp
  ultimately show ?thesis using assms(2) by (auto simp: word_le_nat_alt kWriteBudgetMs_def)
qed

lemma tcp_send_loop_returns:
  assumes "socket_spec so taken ms slack" "250 + slack < 2 ^ 32"
  shows "m0 \<le> ms k \<Longrightarrow> ms k < m0 + 250 + slack \<Longrightarrow> sent \<le> length bytes \<Longrightarrow>
    \<exists>n k'. tcp_send_loop so (of_nat m0) bytes sent k = Some (n, k') \<and> sent \<le> n \<and> n \<le> length bytes \<and>
      taken k' = taken k @ take (n - sent) (drop sent bytes) \<and> ms k \<le> ms k' \<and> ms k' < m0 + 250 + slack \<and>
      (n < length bytes \<longrightarrow> (\<exists>k0. so_send so (drop n bytes) k0 = (Send_Error, k')) \<or> m0 + 250 \<le> ms k')"
proof (induction "length bytes - sent + (m0 + 250 + slack - ms k)" arbitrary: sent k rule: less_induct)
  case less
  show ?case
  proof (cases "sent < length bytes")
    case False
    then show ?thesis using less.prems by (subst tcp_send_loop.simps) auto
  next
    case True
    obtain r v where s: "so_send so (drop sent bytes) k = (r, v)" by (metis surj_pair)
    note laws = socket_laws [OF assms(1)]
    have v: "ms v = ms k" by (rule laws(1) [OF s])
    have spent: "so_millis so v - of_nat m0 \<ge> kWriteBudgetMs \<longleftrightarrow> m0 + 250 \<le> ms k"
      using budget_spent [OF assms(1), of m0 v] less.prems assms(2) v by simp
    have wait: "\<exists>n k'. tcp_send_loop so (of_nat m0) bytes sent k = Some (n, k') \<and> sent \<le> n \<and> n \<le> length bytes \<and>
      taken k' = taken k @ take (n - sent) (drop sent bytes) \<and> ms k \<le> ms k' \<and> ms k' < m0 + 250 + slack \<and>
      (n < length bytes \<longrightarrow> (\<exists>k0. so_send so (drop n bytes) k0 = (Send_Error, k')) \<or> m0 + 250 \<le> ms k')"
      if "r = Sent 0 \<or> r = Would_Block"
    proof -
      have tk: "taken v = taken k" using that s laws(2) [of _ k 0 v] laws(3) by auto
      have step: "tcp_send_loop so (of_nat m0) bytes sent k =
          (if m0 + 250 \<le> ms k then Some (sent, v) else tcp_send_loop so (of_nat m0) bytes sent (so_delay so v))"
        using True that spent by (subst tcp_send_loop.simps) (auto simp: s)
      show ?thesis
      proof (cases "m0 + 250 \<le> ms k")
        case True
        then show ?thesis using less.prems v tk by (intro exI [of _ sent] exI [of _ v]) (simp add: step)
      next
        case False
        have d: "taken (so_delay so v) = taken v" "ms k < ms (so_delay so v)" "ms (so_delay so v) \<le> ms k + slack"
          using laws(5-7) [of v] v by simp_all
        have "length bytes - sent + (m0 + 250 + slack - ms (so_delay so v)) < length bytes - sent + (m0 + 250 + slack - ms k)"
          using d(2) less.prems(2) by linarith
        moreover have "m0 \<le> ms (so_delay so v)" "ms (so_delay so v) < m0 + 250 + slack"
          using d False less.prems by linarith+
        ultimately obtain n k' where "tcp_send_loop so (of_nat m0) bytes sent (so_delay so v) = Some (n, k')" "sent \<le> n" "n \<le> length bytes"
          "taken k' = taken (so_delay so v) @ take (n - sent) (drop sent bytes)" "ms (so_delay so v) \<le> ms k'" "ms k' < m0 + 250 + slack"
          "n < length bytes \<longrightarrow> (\<exists>k0. so_send so (drop n bytes) k0 = (Send_Error, k')) \<or> m0 + 250 \<le> ms k'"
          using less.hyps [of sent "so_delay so v"] less.prems(3) by blast
        then show ?thesis using False d tk by (intro exI [of _ n] exI [of _ k']) (simp add: step)
      qed
    qed
    show ?thesis
    proof (cases r)
      case (Sent m)
      show ?thesis
      proof (cases m)
        case 0
        then show ?thesis using wait Sent by simp
      next
        case (Suc m')
        have m: "m \<le> length bytes - sent" "taken v = taken k @ take m (drop sent bytes)" using laws(2) s Sent by (metis length_drop)+
        have step: "tcp_send_loop so (of_nat m0) bytes sent k = tcp_send_loop so (of_nat m0) bytes (sent + m) v"
          using True Sent Suc by (subst tcp_send_loop.simps) (simp add: s)
        have "length bytes - (sent + m) + (m0 + 250 + slack - ms v) < length bytes - sent + (m0 + 250 + slack - ms k)"
          using True Suc v less.prems(2) by linarith
        moreover have "m0 \<le> ms v" "ms v < m0 + 250 + slack" "sent + m \<le> length bytes"
          using less.prems v m(1) by simp_all
        ultimately obtain n k' where k': "tcp_send_loop so (of_nat m0) bytes (sent + m) v = Some (n, k')" "sent + m \<le> n" "n \<le> length bytes"
          "taken k' = taken v @ take (n - (sent + m)) (drop (sent + m) bytes)" "ms v \<le> ms k'" "ms k' < m0 + 250 + slack"
          "n < length bytes \<longrightarrow> (\<exists>k0. so_send so (drop n bytes) k0 = (Send_Error, k')) \<or> m0 + 250 \<le> ms k'"
          using less.hyps [of "sent + m" v] by blast
        have "take m (drop sent bytes) @ take (n - (sent + m)) (drop (sent + m) bytes) = take (n - sent) (drop sent bytes)"
          using take_add [of m "n - (sent + m)" "drop sent bytes"] k'(2) by (simp add: add.commute)
        then show ?thesis using k' v m(2) by (intro exI [of _ n] exI [of _ k']) (simp add: step)
      qed
    next
      case Would_Block
      then show ?thesis using wait by simp
    next
      case Send_Error
      then have "tcp_send_loop so (of_nat m0) bytes sent k = Some (sent, v)" using True by (subst tcp_send_loop.simps) (simp add: s)
      then show ?thesis using laws(4) s Send_Error v less.prems by (intro exI [of _ sent] exI [of _ v]) auto
    qed
  qed
qed

text \<open>
  C12. Writing a frame to a socket ends.  Whatever the peer does, \<open>send_frame\<close> returns within the
  write budget of 250 ms and one more \<open>delay(1)\<close>; the socket has taken a prefix of the frame, the
  slot is marked broken exactly when that is not all of it, and then only because the socket failed
  or the whole budget was spent.
\<close>

theorem tcp_send_frame_returns:
  assumes "socket_spec so taken ms slack" "250 + slack < 2 ^ 32" "0 < slack"
  shows "\<exists>n k' broken. tcp_send_frame so decoded k = Some (k', broken) \<and> n \<le> length (frame_encode_envelope decoded) \<and>
    taken k' = taken k @ take n (frame_encode_envelope decoded) \<and> ms k \<le> ms k' \<and> ms k' < ms k + 250 + slack \<and>
    (broken \<longleftrightarrow> n \<noteq> length (frame_encode_envelope decoded)) \<and>
    (broken \<longrightarrow> (\<exists>k0. so_send so (drop n (frame_encode_envelope decoded)) k0 = (Send_Error, k')) \<or> ms k + 250 \<le> ms k')"
proof -
  have start: "so_millis so k = of_nat (ms k)" using assms(1) by (simp add: socket_spec_def)
  obtain n k' where loop: "tcp_send_loop so (of_nat (ms k)) (frame_encode_envelope decoded) 0 k = Some (n, k')"
    and k': "n \<le> length (frame_encode_envelope decoded)" "taken k' = taken k @ take n (frame_encode_envelope decoded)"
      "ms k \<le> ms k'" "ms k' < ms k + 250 + slack"
      "n < length (frame_encode_envelope decoded) \<longrightarrow>
         (\<exists>k0. so_send so (drop n (frame_encode_envelope decoded)) k0 = (Send_Error, k')) \<or> ms k + 250 \<le> ms k'"
    using tcp_send_loop_returns [OF assms(1,2), of "ms k" k 0 "frame_encode_envelope decoded"] assms(3) by auto
  show ?thesis
    using k' by (intro exI [of _ n] exI [of _ k'] exI [of _ "n \<noteq> length (frame_encode_envelope decoded)"])
      (simp add: tcp_send_frame_def Let_def start loop)
qed

text \<open>A socket that takes two bytes, then none; a delay lasts one millisecond.\<close>

definition stuck_socket :: "(byte list \<times> nat) socket_api" where
  "stuck_socket = \<lparr>so_send = (\<lambda>bytes k. if length (fst k) = 0 \<and> 2 \<le> length bytes
       then (Sent 2, (take 2 bytes, snd k)) else (Would_Block, k)),
     so_millis = (\<lambda>k. of_nat (snd k)), so_delay = (\<lambda>k. (fst k, snd k + 1))\<rparr>"

lemma tcp_send_frame_returns_witness:
  "\<exists>k' broken. tcp_send_frame stuck_socket [1, 2, 3] ([], 7) = Some (k', broken) \<and> snd k' < 258"
proof -
  have "socket_spec stuck_socket fst snd 1"
    by (auto simp: socket_spec_def stuck_socket_def)
  from tcp_send_frame_returns [OF this, of "[1, 2, 3]" "([], 7)"] show ?thesis by auto
qed

end
