(* ===== verification/RadioPort.thy ===== *)
theory RadioPort
  imports Processor
begin

text \<open>
  The radio port of the boards, \<open>LoraRadioBase\<close> of \<open>src/radio_lora.h\<close>: the tuning sequence, the
  asynchronous transmission and the polled reception that both radio chips share, with the chip
  facts of \<open>src/radio_sx1262.h\<close> and \<open>src/radio_lr1110.h\<close>.

  RadioLib's object for the chip is the record \<open>chip\<close> over a state of its own; a call that returns
  \<open>RADIOLIB_ERR_NONE\<close> returns \<open>True\<close> here.  The setters get the integers whose quotients the code
  hands over as floats: \<open>freq_hz\<close> in Hz, \<open>bw_x100khz\<close> in units of 10 Hz.
\<close>

section \<open>State\<close>

record 'c chip =
  ch_standby :: "'c \<Rightarrow> bool \<times> 'c"
  ch_set_frequency :: "u32 \<Rightarrow> 'c \<Rightarrow> bool \<times> 'c"
  ch_set_bandwidth :: "u16 \<Rightarrow> 'c \<Rightarrow> bool \<times> 'c"
  ch_set_spreading_factor :: "u8 \<Rightarrow> 'c \<Rightarrow> bool \<times> 'c"
  ch_set_coding_rate :: "u8 \<Rightarrow> 'c \<Rightarrow> bool \<times> 'c"
  ch_set_preamble_length :: "nat \<Rightarrow> 'c \<Rightarrow> bool \<times> 'c"
  ch_set_output_power :: "int \<Rightarrow> 'c \<Rightarrow> bool \<times> 'c"
  ch_set_crc :: "u8 \<Rightarrow> 'c \<Rightarrow> bool \<times> 'c"
  ch_start_receive :: "'c \<Rightarrow> bool \<times> 'c"
  ch_start_transmit :: "byte list \<Rightarrow> 'c \<Rightarrow> bool \<times> 'c"
  ch_finish_transmit :: "'c \<Rightarrow> 'c"
  ch_irq_flags :: "'c \<Rightarrow> u32"
  ch_packet_length :: "'c \<Rightarrow> nat"
  ch_read_data :: "nat \<Rightarrow> 'c \<Rightarrow> byte list option \<times> 'c"
  ch_rssi :: "'c \<Rightarrow> byte"
  ch_snr :: "'c \<Rightarrow> byte"

text \<open>The interrupt bits are RadioLib's.\<close>

record irq_bits =
  irq_tx_done :: u32
  irq_rx_done :: u32
  irq_crc_err :: u32
  irq_header_err :: u32

record traits =
  kIrq :: irq_bits
  kCrcLen :: u8
  kHeaderErrQuirk :: bool

definition sx126x_traits :: "irq_bits \<Rightarrow> traits" where
  "sx126x_traits bits = \<lparr>kIrq = bits, kCrcLen = 1, kHeaderErrQuirk = False\<rparr>"

definition lr1110_traits :: "irq_bits \<Rightarrow> traits" where
  "lr1110_traits bits = \<lparr>kIrq = bits, kCrcLen = 2, kHeaderErrQuirk = True\<rparr>"

record 'c lora_port =
  lp_chip :: 'c
  lp_tx_started :: bool

section \<open>Operations\<close>

text \<open>Calls in a row, each followed by \<open>if (state != RADIOLIB_ERR_NONE) return false\<close>.\<close>

fun run_calls :: "('c \<Rightarrow> bool \<times> 'c) list \<Rightarrow> 'c \<Rightarrow> bool \<times> 'c" where
  "run_calls [] c = (True, c)"
| "run_calls (call # calls) c = (case call c of (True, c) \<Rightarrow> run_calls calls c | (False, c) \<Rightarrow> (False, c))"

definition start_rx :: "'c chip \<Rightarrow> 'c lora_port \<Rightarrow> bool \<times> 'c lora_port" where
  "start_rx ch p = (let (ok, c) = ch_start_receive ch (lp_chip p) in (ok, p\<lparr>lp_chip := c\<rparr>))"

definition tuning_calls :: "'c chip \<Rightarrow> traits \<Rightarrow> radio_settings \<Rightarrow> ('c \<Rightarrow> bool \<times> 'c) list" where
  "tuning_calls ch tr s =
     [ch_standby ch, ch_set_frequency ch (rs_freq_hz s), ch_set_bandwidth ch (rs_bw_x100khz s),
      ch_set_spreading_factor ch (rs_sf s), ch_set_coding_rate ch (rs_cr s),
      ch_set_preamble_length ch (if rs_sf s \<le> 8 then 32 else 16), ch_set_output_power ch (sint (rs_power_dbm s)),
      ch_set_crc ch (kCrcLen tr)]"

definition lora_apply :: "'c chip \<Rightarrow> traits \<Rightarrow> radio_settings \<Rightarrow> 'c lora_port \<Rightarrow> bool \<times> 'c lora_port" where
  "lora_apply ch tr s p =
     (if lp_tx_started p then (False, p)
      else case run_calls (tuning_calls ch tr s) (lp_chip p) of
             (False, c) \<Rightarrow> (False, p\<lparr>lp_chip := c\<rparr>)
           | (True, c) \<Rightarrow> start_rx ch (p\<lparr>lp_chip := c\<rparr>))"

definition lora_transmit :: "'c chip \<Rightarrow> byte list \<Rightarrow> 'c lora_port \<Rightarrow> int \<times> 'c lora_port" where
  "lora_transmit ch raw p =
     (if lp_tx_started p then (- 1, p)
      else let (_, c) = ch_standby ch (lp_chip p);
               (ok, c) = ch_start_transmit ch raw c;
               p = p\<lparr>lp_chip := c\<rparr>
           in if \<not> ok then (- 1, snd (start_rx ch p)) else (0, p\<lparr>lp_tx_started := True\<rparr>))"

definition lora_tx_done :: "'c chip \<Rightarrow> traits \<Rightarrow> 'c lora_port \<Rightarrow> bool \<times> 'c lora_port" where
  "lora_tx_done ch tr p =
     (if \<not> lp_tx_started p then (True, p)
      else if ch_irq_flags ch (lp_chip p) AND irq_tx_done (kIrq tr) \<noteq> 0
      then (True, snd (start_rx ch (p\<lparr>lp_chip := ch_finish_transmit ch (lp_chip p), lp_tx_started := False\<rparr>)))
      else (False, p))"

text \<open>\<open>Some (raw, rssi, snr)\<close> is what the out parameters hold when the result is true.\<close>

definition lora_receive :: "'c chip \<Rightarrow> traits \<Rightarrow> 'c lora_port \<Rightarrow> (byte list \<times> byte \<times> byte) option \<times> 'c lora_port" where
  "lora_receive ch tr p =
     (let irq = ch_irq_flags ch (lp_chip p) in
      if irq AND irq_rx_done (kIrq tr) = 0 then (None, p)
      else if kHeaderErrQuirk tr \<and> irq AND irq_header_err (kIrq tr) \<noteq> 0 \<and> ch_packet_length ch (lp_chip p) = 0
      then let (_, c) = ch_standby ch (lp_chip p) in (None, snd (start_rx ch (p\<lparr>lp_chip := c\<rparr>)))
      else let crc_ok = (irq AND (irq_crc_err (kIrq tr) OR irq_header_err (kIrq tr)) = 0);
               plen = ch_packet_length ch (lp_chip p);
               (data, c) = (if crc_ok \<and> 0 < plen \<and> plen \<le> MESHPIGEON_MAX_RAW_PACKET
                            then ch_read_data ch plen (lp_chip p) else (None, lp_chip p));
               p = snd (start_rx ch (p\<lparr>lp_chip := c\<rparr>))
           in (case data of
                 None \<Rightarrow> (None, p)
               | Some raw \<Rightarrow> (Some (raw, ch_rssi ch (lp_chip p), ch_snr ch (lp_chip p)), p)))"

section \<open>What the chip does\<close>

text \<open>
  The documented behaviour of the driver: a call that fails changes nothing; a setter changes its
  parameter and not the mode; \<open>standby\<close>, \<open>startReceive\<close>, \<open>startTransmit\<close> and \<open>finishTransmit\<close> change
  the mode and no parameter; reading a packet changes neither.
\<close>

datatype chip_mode = Chip_Standby | Chip_Rx | Chip_Tx "byte list"

record chip_tuning =
  ct_freq :: u32
  ct_bw :: u16
  ct_sf :: u8
  ct_cr :: u8
  ct_preamble :: nat
  ct_power :: int
  ct_crc :: u8

definition sets :: "('c \<Rightarrow> chip_mode) \<Rightarrow> ('c \<Rightarrow> chip_tuning) \<Rightarrow> ('c \<Rightarrow> bool \<times> 'c) \<Rightarrow> (chip_tuning \<Rightarrow> chip_tuning) \<Rightarrow> bool" where
  "sets mode tun call u \<longleftrightarrow> (\<forall>c. mode (snd (call c)) = mode c \<and> tun (snd (call c)) = (if fst (call c) then u (tun c) else tun c))"

definition moves :: "('c \<Rightarrow> chip_mode) \<Rightarrow> ('c \<Rightarrow> chip_tuning) \<Rightarrow> ('c \<Rightarrow> bool \<times> 'c) \<Rightarrow> chip_mode \<Rightarrow> bool" where
  "moves mode tun call m \<longleftrightarrow> (\<forall>c. tun (snd (call c)) = tun c \<and> mode (snd (call c)) = (if fst (call c) then m else mode c))"

definition chip_spec :: "'c chip \<Rightarrow> ('c \<Rightarrow> chip_mode) \<Rightarrow> ('c \<Rightarrow> chip_tuning) \<Rightarrow> bool" where
  "chip_spec ch mode tun \<longleftrightarrow>
     moves mode tun (ch_standby ch) Chip_Standby \<and> moves mode tun (ch_start_receive ch) Chip_Rx \<and>
     (\<forall>raw. moves mode tun (ch_start_transmit ch raw) (Chip_Tx raw)) \<and>
     (\<forall>c. mode (ch_finish_transmit ch c) = Chip_Standby \<and> tun (ch_finish_transmit ch c) = tun c) \<and>
     (\<forall>n c. mode (snd (ch_read_data ch n c)) = mode c \<and> tun (snd (ch_read_data ch n c)) = tun c \<and>
        (\<forall>raw. fst (ch_read_data ch n c) = Some raw \<longrightarrow> length raw = n)) \<and>
     (\<forall>x. sets mode tun (ch_set_frequency ch x) (ct_freq_update (\<lambda>_. x))) \<and>
     (\<forall>x. sets mode tun (ch_set_bandwidth ch x) (ct_bw_update (\<lambda>_. x))) \<and>
     (\<forall>x. sets mode tun (ch_set_spreading_factor ch x) (ct_sf_update (\<lambda>_. x))) \<and>
     (\<forall>x. sets mode tun (ch_set_coding_rate ch x) (ct_cr_update (\<lambda>_. x))) \<and>
     (\<forall>x. sets mode tun (ch_set_preamble_length ch x) (ct_preamble_update (\<lambda>_. x))) \<and>
     (\<forall>x. sets mode tun (ch_set_output_power ch x) (ct_power_update (\<lambda>_. x))) \<and>
     (\<forall>x. sets mode tun (ch_set_crc ch x) (ct_crc_update (\<lambda>_. x)))"

text \<open>The driver can always go to standby and to reception, and hears nothing while it sends.\<close>

definition chip_works :: "'c chip \<Rightarrow> traits \<Rightarrow> ('c \<Rightarrow> chip_mode) \<Rightarrow> bool" where
  "chip_works ch tr mode \<longleftrightarrow> (\<forall>c. fst (ch_standby ch c)) \<and> (\<forall>c. fst (ch_start_receive ch c)) \<and>
     (\<forall>c raw. mode c = Chip_Tx raw \<longrightarrow> ch_irq_flags ch c AND irq_rx_done (kIrq tr) = 0)"

section \<open>Tuning\<close>

definition tuning_updates :: "traits \<Rightarrow> radio_settings \<Rightarrow> (chip_tuning \<Rightarrow> chip_tuning) list" where
  "tuning_updates tr s =
     [ct_freq_update (\<lambda>_. rs_freq_hz s), ct_bw_update (\<lambda>_. rs_bw_x100khz s), ct_sf_update (\<lambda>_. rs_sf s),
      ct_cr_update (\<lambda>_. rs_cr s), ct_preamble_update (\<lambda>_. if rs_sf s \<le> 8 then 32 else 16),
      ct_power_update (\<lambda>_. sint (rs_power_dbm s)), ct_crc_update (\<lambda>_. kCrcLen tr)]"

definition tuned :: "traits \<Rightarrow> radio_settings \<Rightarrow> chip_tuning" where
  "tuned tr s = \<lparr>ct_freq = rs_freq_hz s, ct_bw = rs_bw_x100khz s, ct_sf = rs_sf s, ct_cr = rs_cr s,
     ct_preamble = (if rs_sf s \<le> 8 then 32 else 16), ct_power = sint (rs_power_dbm s), ct_crc = kCrcLen tr\<rparr>"

lemma all_updates: "fold (\<lambda>u t. u t) (tuning_updates tr s) t = tuned tr s"
  by (simp add: tuning_updates_def tuned_def)

text \<open>A row of setters: the ones before the first that is refused have taken effect.\<close>

lemma run_setters:
  "list_all2 (sets mode tun) calls us \<Longrightarrow> run_calls calls c = (ok, c') \<Longrightarrow>
     mode c' = mode c \<and> (\<exists>n \<le> length us. tun c' = fold (\<lambda>u t. u t) (take n us) (tun c) \<and> (ok \<longleftrightarrow> n = length us))"
proof (induction calls us arbitrary: c rule: list_all2_induct)
  case (Cons call calls u us)
  obtain ok1 c1 where call: "call c = (ok1, c1)" by (metis surj_pair)
  then have c1: "mode c1 = mode c" "tun c1 = (if ok1 then u (tun c) else tun c)"
    using Cons(1) unfolding sets_def by (metis fst_conv snd_conv)+
  show ?case
  proof (cases ok1)
    case True
    then have "run_calls calls c1 = (ok, c')" using Cons.prems call by simp
    from Cons.IH [OF this] obtain n where "mode c' = mode c1" "n \<le> length us" "tun c' = fold (\<lambda>u t. u t) (take n us) (tun c1)" "ok \<longleftrightarrow> n = length us"
      by blast
    then show ?thesis using c1 True by (intro conjI exI [of _ "Suc n"]) simp_all
  next
    case False
    then show ?thesis using Cons.prems call c1 by (intro conjI exI [of _ 0]) simp_all
  qed
qed simp

lemma tuning_setters:
  assumes "chip_spec ch mode tun"
  shows "list_all2 (sets mode tun) (tl (tuning_calls ch tr s)) (tuning_updates tr s)"
  using assms unfolding chip_spec_def by (simp add: tuning_calls_def tuning_updates_def)

text \<open>
  C36. A tuning the radio refuses.  An accepted tuning leaves the chip with every parameter set and
  receiving; while a packet is being sent nothing is touched; and a refused one leaves the chip in
  standby, not receiving, with the parameters before the refused one already changed.
\<close>

theorem radio_tuning:
  assumes "chip_spec ch mode tun" "chip_works ch tr mode" "lora_apply ch tr s p = (ok, p')"
  shows "(lp_tx_started p \<longrightarrow> \<not> ok \<and> p' = p) \<and>
    (ok \<longrightarrow> mode (lp_chip p') = Chip_Rx \<and> tun (lp_chip p') = tuned tr s \<and> \<not> lp_tx_started p') \<and>
    (\<not> ok \<and> \<not> lp_tx_started p \<longrightarrow> mode (lp_chip p') = Chip_Standby \<and> \<not> lp_tx_started p' \<and>
       (\<exists>n < length (tuning_updates tr s). tun (lp_chip p') = fold (\<lambda>u t. u t) (take n (tuning_updates tr s)) (tun (lp_chip p))))"
proof (cases "lp_tx_started p")
  case True
  then show ?thesis using assms(3) by (simp add: lora_apply_def)
next
  case False
  obtain c1 where c1: "ch_standby ch (lp_chip p) = (True, c1)" using assms(2) unfolding chip_works_def by (metis eq_fst_iff)
  then have m1: "mode c1 = Chip_Standby" "tun c1 = tun (lp_chip p)"
    using assms(1) unfolding chip_spec_def moves_def by (metis fst_conv snd_conv)+
  obtain ok2 c2 where r: "run_calls (tl (tuning_calls ch tr s)) c1 = (ok2, c2)" by (metis surj_pair)
  obtain n where c2: "mode c2 = Chip_Standby" "n \<le> length (tuning_updates tr s)" "ok2 \<longleftrightarrow> n = length (tuning_updates tr s)"
    "tun c2 = fold (\<lambda>u t. u t) (take n (tuning_updates tr s)) (tun (lp_chip p))"
    using run_setters [OF tuning_setters [OF assms(1)] r] m1 by auto
  have run: "run_calls (tuning_calls ch tr s) (lp_chip p) = (ok2, c2)"
    using r c1 by (simp add: tuning_calls_def)
  show ?thesis
  proof (cases ok2)
    case True
    obtain c3 where c3: "ch_start_receive ch c2 = (True, c3)" using assms(2) unfolding chip_works_def by (metis eq_fst_iff)
    then have "mode c3 = Chip_Rx" "tun c3 = tun c2" using assms(1) unfolding chip_spec_def moves_def by (metis fst_conv snd_conv)+
    moreover have "ok" "p' = p\<lparr>lp_chip := c3\<rparr>" using assms(3) False run True c3 by (simp_all add: lora_apply_def start_rx_def)
    ultimately show ?thesis using False True c2 all_updates by simp
  next
    case refused: False
    then have "\<not> ok" "p' = p\<lparr>lp_chip := c2\<rparr>" using assms(3) False run by (simp_all add: lora_apply_def)
    moreover have "n < length (tuning_updates tr s)" using c2 refused by simp
    ultimately show ?thesis using False c2 by auto
  qed
qed

section \<open>Sending and receiving\<close>

definition port_ok :: "('c \<Rightarrow> chip_mode) \<Rightarrow> 'c lora_port \<Rightarrow> bool" where
  "port_ok mode p \<longleftrightarrow> (if lp_tx_started p then (\<exists>raw. mode (lp_chip p) = Chip_Tx raw) else mode (lp_chip p) = Chip_Rx)"

lemma start_rx_effect:
  assumes "chip_spec ch mode tun" "chip_works ch tr mode"
  shows "mode (lp_chip (snd (start_rx ch p))) = Chip_Rx" "tun (lp_chip (snd (start_rx ch p))) = tun (lp_chip p)"
    "lp_tx_started (snd (start_rx ch p)) = lp_tx_started p"
proof -
  obtain c where c: "ch_start_receive ch (lp_chip p) = (True, c)" using assms(2) unfolding chip_works_def by (metis eq_fst_iff)
  then have "mode c = Chip_Rx" "tun c = tun (lp_chip p)" using assms(1) unfolding chip_spec_def moves_def by (metis fst_conv snd_conv)+
  then show "mode (lp_chip (snd (start_rx ch p))) = Chip_Rx" "tun (lp_chip (snd (start_rx ch p))) = tun (lp_chip p)"
    "lp_tx_started (snd (start_rx ch p)) = lp_tx_started p"
    by (simp_all add: start_rx_def c)
qed

text \<open>
  C37. The transmit and receive cycle.  As long as no tuning is refused, the port is either sending
  (and knows it) or receiving: a transmission is started only from reception and with exactly the
  bytes handed over, reported done only once the chip says so, after which the chip receives again;
  a packet is handed up only if the chip flagged it, its CRC and header are good and it fits the
  buffer, polling never disturbs a transmission, and no parameter changes.
\<close>

theorem radio_cycle:
  assumes "chip_spec ch mode tun" "chip_works ch tr mode" "port_ok mode p"
  shows "(let (r, p') = lora_transmit ch raw p in port_ok mode p' \<and> tun (lp_chip p') = tun (lp_chip p) \<and> (r = 0 \<or> r = - 1) \<and>
       (r = 0 \<longrightarrow> \<not> lp_tx_started p \<and> mode (lp_chip p') = Chip_Tx raw) \<and> (r = - 1 \<longrightarrow> lp_tx_started p' = lp_tx_started p)) \<and>
    (let (r, p') = lora_tx_done ch tr p in port_ok mode p' \<and> tun (lp_chip p') = tun (lp_chip p) \<and> (r \<longleftrightarrow> \<not> lp_tx_started p') \<and>
       (r \<longleftrightarrow> \<not> lp_tx_started p \<or> ch_irq_flags ch (lp_chip p) AND irq_tx_done (kIrq tr) \<noteq> 0)) \<and>
    (let (r, p') = lora_receive ch tr p in port_ok mode p' \<and> tun (lp_chip p') = tun (lp_chip p) \<and> lp_tx_started p' = lp_tx_started p \<and>
       (lp_tx_started p \<longrightarrow> r = None \<and> p' = p) \<and>
       (\<forall>raw rssi snr. r = Some (raw, rssi, snr) \<longrightarrow> 0 < length raw \<and> length raw \<le> MESHPIGEON_MAX_RAW_PACKET \<and>
          ch_irq_flags ch (lp_chip p) AND irq_rx_done (kIrq tr) \<noteq> 0 \<and>
          ch_irq_flags ch (lp_chip p) AND (irq_crc_err (kIrq tr) OR irq_header_err (kIrq tr)) = 0))"
proof -
  have moves: "moves mode tun (ch_standby ch) Chip_Standby" "moves mode tun (ch_start_transmit ch r) (Chip_Tx r)" for r
    using assms(1) by (simp_all add: chip_spec_def)
  note rx = start_rx_effect [OF assms(1,2)]
  have read: "mode (snd (ch_read_data ch n c)) = mode c" "tun (snd (ch_read_data ch n c)) = tun c"
    "fst (ch_read_data ch n c) = Some b \<Longrightarrow> length b = n" for n c b
    using assms(1) by (simp_all add: chip_spec_def)
  have transmit: "let (r, p') = lora_transmit ch raw p in port_ok mode p' \<and> tun (lp_chip p') = tun (lp_chip p) \<and> (r = 0 \<or> r = - 1) \<and>
       (r = 0 \<longrightarrow> \<not> lp_tx_started p \<and> mode (lp_chip p') = Chip_Tx raw) \<and> (r = - 1 \<longrightarrow> lp_tx_started p' = lp_tx_started p)"
  proof (cases "lp_tx_started p")
    case False
    obtain o1 c1 where c1: "ch_standby ch (lp_chip p) = (o1, c1)" by (metis surj_pair)
    obtain o2 c2 where c2: "ch_start_transmit ch raw c1 = (o2, c2)" by (metis surj_pair)
    have "tun c1 = tun (lp_chip p)" using moves(1) c1 unfolding moves_def by (metis snd_conv)
    moreover have "tun c2 = tun c1" "o2 \<longrightarrow> mode c2 = Chip_Tx raw" using moves(2) c2 unfolding moves_def by (metis fst_conv snd_conv)+
    ultimately show ?thesis using False rx by (cases o2) (simp_all add: lora_transmit_def c1 c2 port_ok_def)
  qed (use assms(3) in \<open>simp add: lora_transmit_def\<close>)
  have tx_done: "let (r, p') = lora_tx_done ch tr p in port_ok mode p' \<and> tun (lp_chip p') = tun (lp_chip p) \<and> (r \<longleftrightarrow> \<not> lp_tx_started p') \<and>
       (r \<longleftrightarrow> \<not> lp_tx_started p \<or> ch_irq_flags ch (lp_chip p) AND irq_tx_done (kIrq tr) \<noteq> 0)"
    using assms(1,3) rx by (simp add: lora_tx_done_def port_ok_def chip_spec_def)
  have receive: "let (r, p') = lora_receive ch tr p in port_ok mode p' \<and> tun (lp_chip p') = tun (lp_chip p) \<and> lp_tx_started p' = lp_tx_started p \<and>
       (lp_tx_started p \<longrightarrow> r = None \<and> p' = p) \<and>
       (\<forall>raw rssi snr. r = Some (raw, rssi, snr) \<longrightarrow> 0 < length raw \<and> length raw \<le> MESHPIGEON_MAX_RAW_PACKET \<and>
          ch_irq_flags ch (lp_chip p) AND irq_rx_done (kIrq tr) \<noteq> 0 \<and>
          ch_irq_flags ch (lp_chip p) AND (irq_crc_err (kIrq tr) OR irq_header_err (kIrq tr)) = 0)"
  proof (cases "ch_irq_flags ch (lp_chip p) AND irq_rx_done (kIrq tr) = 0")
    case True
    then show ?thesis using assms(3) by (simp add: lora_receive_def)
  next
    case flagged: False
    then have idle: "\<not> lp_tx_started p" using assms(2,3) unfolding chip_works_def port_ok_def by metis
    obtain o1 c1 where c1: "ch_standby ch (lp_chip p) = (o1, c1)" by (metis surj_pair)
    have t1: "tun c1 = tun (lp_chip p)" using moves(1) c1 unfolding moves_def by (metis snd_conv)
    obtain d c2 where c2: "ch_read_data ch (ch_packet_length ch (lp_chip p)) (lp_chip p) = (d, c2)" by (metis surj_pair)
    have r2: "mode c2 = mode (lp_chip p)" "tun c2 = tun (lp_chip p)" "\<And>b. d = Some b \<Longrightarrow> length b = ch_packet_length ch (lp_chip p)"
      using read [of "ch_packet_length ch (lp_chip p)" "lp_chip p"] by (simp_all add: c2)
    show ?thesis
      using flagged idle rx t1 r2 by (auto simp: lora_receive_def c1 c2 port_ok_def Let_def split: option.split)
  qed
  show ?thesis using transmit tx_done receive by blast
qed

text \<open>A chip that takes every parameter but a bandwidth other than 125 kHz, and finishes at once.\<close>

definition bench_bits :: irq_bits where
  "bench_bits = \<lparr>irq_tx_done = 1, irq_rx_done = 2, irq_crc_err = 4, irq_header_err = 8\<rparr>"

definition bench_set :: "bool \<Rightarrow> (chip_tuning \<Rightarrow> chip_tuning) \<Rightarrow> chip_mode \<times> chip_tuning \<Rightarrow> bool \<times> chip_mode \<times> chip_tuning" where
  "bench_set ok u c = (ok, fst c, if ok then u (snd c) else snd c)"

definition bench_chip :: "(chip_mode \<times> chip_tuning) chip" where
  "bench_chip = \<lparr>ch_standby = (\<lambda>c. (True, Chip_Standby, snd c)),
     ch_set_frequency = (\<lambda>x. bench_set True (ct_freq_update (\<lambda>_. x))),
     ch_set_bandwidth = (\<lambda>x. bench_set (x = 12500) (ct_bw_update (\<lambda>_. x))),
     ch_set_spreading_factor = (\<lambda>x. bench_set True (ct_sf_update (\<lambda>_. x))),
     ch_set_coding_rate = (\<lambda>x. bench_set True (ct_cr_update (\<lambda>_. x))),
     ch_set_preamble_length = (\<lambda>x. bench_set True (ct_preamble_update (\<lambda>_. x))),
     ch_set_output_power = (\<lambda>x. bench_set True (ct_power_update (\<lambda>_. x))),
     ch_set_crc = (\<lambda>x. bench_set True (ct_crc_update (\<lambda>_. x))),
     ch_start_receive = (\<lambda>c. (True, Chip_Rx, snd c)), ch_start_transmit = (\<lambda>raw c. (True, Chip_Tx raw, snd c)),
     ch_finish_transmit = (\<lambda>c. (Chip_Standby, snd c)), ch_irq_flags = (\<lambda>c. case fst c of Chip_Tx raw \<Rightarrow> 1 | _ \<Rightarrow> 0),
     ch_packet_length = (\<lambda>c. 0), ch_read_data = (\<lambda>n c. (None, c)), ch_rssi = (\<lambda>c. 0), ch_snr = (\<lambda>c. 0)\<rparr>"

definition bench_port :: "(chip_mode \<times> chip_tuning) lora_port" where
  "bench_port = \<lparr>lp_chip = (Chip_Rx, tuned (sx126x_traits bench_bits) radio_unset), lp_tx_started = False\<rparr>"

lemma bench_chip_spec: "chip_spec bench_chip fst snd" "chip_works bench_chip (sx126x_traits bench_bits) fst"
  by (auto simp: chip_spec_def moves_def sets_def bench_chip_def bench_set_def chip_works_def sx126x_traits_def bench_bits_def)

lemma radio_tuning_witness:
  "let (ok, p') = lora_apply bench_chip (sx126x_traits bench_bits) (radio_unset\<lparr>rs_freq_hz := 433000000, rs_bw_x100khz := 1234\<rparr>) bench_port in
     \<not> ok \<and> fst (lp_chip p') = Chip_Standby \<and> ct_freq (snd (lp_chip p')) = 433000000"
proof -
  let ?s = "radio_unset\<lparr>rs_freq_hz := 433000000, rs_bw_x100khz := 1234\<rparr>"
  obtain ok p' where r: "lora_apply bench_chip (sx126x_traits bench_bits) ?s bench_port = (ok, p')" by (metis surj_pair)
  have "\<not> ok" "ct_freq (snd (lp_chip p')) = 433000000"
    using r by (auto simp: lora_apply_def bench_port_def tuning_calls_def bench_chip_def bench_set_def)
  then show ?thesis
    using radio_tuning [OF bench_chip_spec r] r by (simp add: bench_port_def)
qed

lemma radio_cycle_witness:
  "let (r, p') = lora_transmit bench_chip [1, 2] bench_port in port_ok fst p' \<and> snd (lp_chip p') = snd (lp_chip bench_port)"
proof -
  have "port_ok fst bench_port" by (simp add: port_ok_def bench_port_def)
  from radio_cycle [OF bench_chip_spec this, of "[1, 2]"] show ?thesis by (simp add: split_def Let_def)
qed

end
