(* ===== verification/EncodeBounds.thy ===== *)
theory EncodeBounds
  imports Codec
begin

text \<open>
  What the encoders of nanopb do to a buffer, for every message, well-formed or not: an upper bound on
  the bytes of each field makes the 32-bit sums of the stream layer exact, so that its size checks
  hold and nothing is written past the end.
\<close>

text \<open>\<open>writes_upto e n\<close>: \<open>e\<close> adds at most \<open>n\<close> bytes, and on a buffer never more than there is room for.\<close>

definition writes_upto :: "(pb_ostream \<Rightarrow> pb_error + pb_ostream) \<Rightarrow> nat \<Rightarrow> bool" where
  "writes_upto e n \<longleftrightarrow> (\<forall>st st'. e st = Inr st' \<longrightarrow>
     os_sizing st' = os_sizing st \<and> os_max_size st' = os_max_size st \<and>
     (os_sizing st \<longrightarrow> os_bytes_written st' \<le> os_bytes_written st + n) \<and>
     (\<not> os_sizing st \<and> os_bytes_written st \<le> os_max_size st \<and> os_max_size st < 2 ^ 31 \<and> n \<le> 2 ^ 31 \<longrightarrow>
        (\<exists>bs. os_out st' = os_out st @ bs \<and> os_bytes_written st' = os_bytes_written st + length bs \<and> length bs \<le> n \<and>
           os_bytes_written st' \<le> os_max_size st)))"

lemma writes_D:
  assumes "writes_upto e n" "e st = Inr st'"
  shows "os_sizing st' = os_sizing st" "os_max_size st' = os_max_size st"
    "os_sizing st \<Longrightarrow> os_bytes_written st' \<le> os_bytes_written st + n"
    "\<not> os_sizing st \<Longrightarrow> os_bytes_written st \<le> os_max_size st \<Longrightarrow> os_max_size st < 2 ^ 31 \<Longrightarrow> n \<le> 2 ^ 31 \<Longrightarrow>
       \<exists>bs. os_out st' = os_out st @ bs \<and> os_bytes_written st' = os_bytes_written st + length bs \<and> length bs \<le> n \<and>
         os_bytes_written st' \<le> os_max_size st"
  using assms unfolding writes_upto_def by blast+

lemma writes_mono: "writes_upto e m \<Longrightarrow> m \<le> n \<Longrightarrow> writes_upto e n"
  unfolding writes_upto_def by (meson add_left_mono le_trans)

lemma writes_cong: "(\<And>st. e st = e' st) \<Longrightarrow> writes_upto e' n \<Longrightarrow> writes_upto e n"
  by (simp add: writes_upto_def)

lemma writes_if: "writes_upto e n \<Longrightarrow> writes_upto e' n \<Longrightarrow> writes_upto (\<lambda>st. if b then e st else e' st) n"
  by (cases b) simp_all

lemma writes_fail: "writes_upto (\<lambda>st. Inl e) n"
  by (simp add: writes_upto_def)

lemma writes_nothing: "writes_upto Inr n"
  by (simp add: writes_upto_def)

lemma writes_write:
  assumes "length buf \<le> n"
  shows "writes_upto (pb_write buf) n"
  unfolding writes_upto_def
proof (intro allI impI)
  fix st st' assume w: "pb_write buf st = Inr st'"
  have "add32 (os_bytes_written st) (length buf) \<le> os_bytes_written st + length buf" by (simp add: add32_def)
  moreover have "add32 (os_bytes_written st) (length buf) = os_bytes_written st + length buf"
    if "os_bytes_written st \<le> os_max_size st" "os_max_size st < 2 ^ 31 \<and> n \<le> 2 ^ 31"
    using that assms by (simp add: add32_def)
  ultimately show "os_sizing st' = os_sizing st \<and> os_max_size st' = os_max_size st \<and>
     (os_sizing st \<longrightarrow> os_bytes_written st' \<le> os_bytes_written st + n) \<and>
     (\<not> os_sizing st \<and> os_bytes_written st \<le> os_max_size st \<and> os_max_size st < 2 ^ 31 \<and> n \<le> 2 ^ 31 \<longrightarrow>
        (\<exists>bs. os_out st' = os_out st @ bs \<and> os_bytes_written st' = os_bytes_written st + length bs \<and> length bs \<le> n \<and>
           os_bytes_written st' \<le> os_max_size st))"
    using w assms by (auto simp: pb_write_def Let_def split: if_splits)
qed

lemma writes_bind:
  assumes "writes_upto e m" "writes_upto e' n"
  shows "writes_upto (\<lambda>st. case e st of Inl x \<Rightarrow> Inl x | Inr st' \<Rightarrow> e' st') (m + n)"
  unfolding writes_upto_def
proof (intro allI impI)
  fix st st' assume "(case e st of Inl x \<Rightarrow> Inl x | Inr st' \<Rightarrow> e' st') = Inr st'"
  then obtain u where u: "e st = Inr u" "e' u = Inr st'" by (auto split: sum.splits)
  note E = writes_D [OF assms(1) u(1)] and F = writes_D [OF assms(2) u(2)]
  have "\<exists>bs. os_out st' = os_out st @ bs \<and> os_bytes_written st' = os_bytes_written st + length bs \<and> length bs \<le> m + n \<and>
      os_bytes_written st' \<le> os_max_size st"
    if st: "\<not> os_sizing st" "os_bytes_written st \<le> os_max_size st" "os_max_size st < 2 ^ 31 \<and> (m + n) \<le> 2 ^ 31"
  proof -
    obtain xs where xs: "os_out u = os_out st @ xs" "os_bytes_written u = os_bytes_written st + length xs" "length xs \<le> m"
      "os_bytes_written u \<le> os_max_size st" using E(4) st by auto
    moreover obtain ys where "os_out st' = os_out u @ ys" "os_bytes_written st' = os_bytes_written u + length ys" "length ys \<le> n"
      "os_bytes_written st' \<le> os_max_size u" using F(4) E(1,2) st xs(4) by auto
    ultimately show ?thesis using E(2) by (intro exI [of _ "xs @ ys"]) simp
  qed
  then show "os_sizing st' = os_sizing st \<and> os_max_size st' = os_max_size st \<and>
     (os_sizing st \<longrightarrow> os_bytes_written st' \<le> os_bytes_written st + (m + n)) \<and>
     (\<not> os_sizing st \<and> os_bytes_written st \<le> os_max_size st \<and> os_max_size st < 2 ^ 31 \<and> (m + n) \<le> 2 ^ 31 \<longrightarrow>
        (\<exists>bs. os_out st' = os_out st @ bs \<and> os_bytes_written st' = os_bytes_written st + length bs \<and> length bs \<le> m + n \<and>
           os_bytes_written st' \<le> os_max_size st))"
    using E(1-3) F(1-3) by auto
qed

lemma writes_varint: "writes_upto (pb_encode_varint v) 10"
  using writes_write [OF length_varint_bytes_10] unfolding pb_encode_varint_bytes [abs_def] .

lemma writes_svarint: "writes_upto (pb_encode_svarint v) 10"
  using writes_varint unfolding pb_encode_svarint_def [abs_def] Let_def .

lemma writes_string: "length bs \<le> n \<Longrightarrow> writes_upto (pb_encode_string bs) (10 + n)"
  unfolding pb_encode_string_def [abs_def] by (intro writes_bind writes_varint writes_write)

lemma writes_scalar: "writes_upto (encode_scalar ltype data_size cell) 10"
proof -
  have fixed: "writes_upto (pb_enc_fixed data_size cell) 10" for data_size
  proof -
    have "writes_upto (pb_encode_fixed32 v) 10" "writes_upto (pb_encode_fixed64 w) 10" for v w
      unfolding pb_encode_fixed32_def [abs_def] pb_encode_fixed64_def [abs_def] by (simp_all add: writes_write length_put)
    then show ?thesis unfolding pb_enc_fixed_def [abs_def] by (intro writes_if writes_fail)
  qed
  have varint: "writes_upto (pb_enc_varint ltype data_size cell) 10" for ltype
    unfolding pb_enc_varint_def [abs_def] Let_def by (intro writes_if writes_fail writes_varint writes_svarint)
  show ?thesis
    using fixed varint writes_varint
    by (cases ltype) (simp_all add: encode_scalar_def [abs_def] pb_enc_bool_def [abs_def])
qed

lemma writes_cells: "writes_upto (encode_cells ltype data_size cells) (10 * length cells)"
proof (induction cells)
  case (Cons cell cells)
  have "writes_upto (encode_cells ltype data_size (cell # cells)) (10 + 10 * length cells)"
    by (rule writes_cong [OF _ writes_bind [OF writes_scalar Cons]]) simp
  then show ?case by (simp del: encode_cells.simps)
qed (rule writes_cong [OF _ writes_nothing], simp)

lemma writes_sizing: "os_sizing st \<Longrightarrow> pb_write_sizing n st = Inr st' \<Longrightarrow>
    os_sizing st' = os_sizing st \<and> os_max_size st' = os_max_size st \<and> os_bytes_written st' \<le> os_bytes_written st + n"
  by (auto simp: pb_write_sizing_def add32_def)

lemma writes_array:
  assumes "array_size \<le> n"
  shows "writes_upto (encode_array ltype data_size array_size tag cells) (20 + 10 * n)"
proof -
  have short: "writes_upto (\<lambda>st. case pb_encode_tag PB_WT_STRING tag st of Inl e \<Rightarrow> Inl e | Inr st1 \<Rightarrow>
      (case pb_encode_varint (of_nat sz) st1 of Inl e \<Rightarrow> Inl e | Inr st2 \<Rightarrow>
        (if os_sizing st2 then pb_write_sizing sz st2 else encode_cells ltype data_size cells st2))) (10 + (10 + 10 * n))"
    if "sz \<le> 10 * n" "length cells \<le> n" for sz
  proof (intro writes_bind)
    show "writes_upto (pb_encode_tag PB_WT_STRING tag) 10" unfolding pb_encode_tag_def [abs_def] by (rule writes_varint)
    show "writes_upto (pb_encode_varint (of_nat sz)) 10" by (rule writes_varint)
    show "writes_upto (\<lambda>st. if os_sizing st then pb_write_sizing sz st else encode_cells ltype data_size cells st) (10 * n)"
      unfolding writes_upto_def
    proof (intro allI impI)
      fix st st' assume r: "(if os_sizing st then pb_write_sizing sz st else encode_cells ltype data_size cells st) = Inr st'"
      have "writes_upto (encode_cells ltype data_size cells) (10 * n)"
        by (rule writes_mono [OF writes_cells]) (simp add: that(2))
      from writes_D [OF this, of st st'] writes_sizing [of st sz st'] r that(1)
      show "os_sizing st' = os_sizing st \<and> os_max_size st' = os_max_size st \<and>
         (os_sizing st \<longrightarrow> os_bytes_written st' \<le> os_bytes_written st + 10 * n) \<and>
         (\<not> os_sizing st \<and> os_bytes_written st \<le> os_max_size st \<and> os_max_size st < 2 ^ 31 \<and> 10 * n \<le> 2 ^ 31 \<longrightarrow>
            (\<exists>bs. os_out st' = os_out st @ bs \<and> os_bytes_written st' = os_bytes_written st + length bs \<and> length bs \<le> 10 * n \<and>
               os_bytes_written st' \<le> os_max_size st))"
        by (cases "os_sizing st") auto
    qed
  qed
  define elems where "elems = (if ltype = LT_FIXED32 then Inr (4 * length cells)
    else if ltype = LT_FIXED64 then Inr (8 * length cells)
    else map_sum id os_bytes_written (encode_cells ltype data_size cells PB_OSTREAM_SIZING))"
  have sz: "sz \<le> 10 * n" if "elems = Inr sz" "length cells \<le> n" for sz
    using that writes_D(3) [OF writes_cells, of ltype data_size cells PB_OSTREAM_SIZING]
    by (cases "encode_cells ltype data_size cells PB_OSTREAM_SIZING")
       (auto simp: elems_def PB_OSTREAM_SIZING_def split: if_splits)
  show ?thesis
  proof (cases "cells \<noteq> [] \<and> length cells \<le> array_size")
    case unfit: False
    show ?thesis
    proof (cases "cells = []")
      case True
      show ?thesis by (rule writes_cong [OF _ writes_nothing]) (simp add: encode_array_def True)
    next
      case False
      show ?thesis
        by (rule writes_cong [OF _ writes_fail [of Array_Max_Size_Exceeded]]) (use False unfit in \<open>simp add: encode_array_def\<close>)
    qed
  next
    case True
    then have array: "encode_array ltype data_size array_size tag cells st = (case pb_encode_tag PB_WT_STRING tag st of Inl e \<Rightarrow> Inl e
        | Inr st1 \<Rightarrow> (case elems of Inl e \<Rightarrow> Inl e | Inr sz \<Rightarrow> (case pb_encode_varint (of_nat sz) st1 of Inl e \<Rightarrow> Inl e | Inr st2 \<Rightarrow>
            (if os_sizing st2 then pb_write_sizing sz st2 else encode_cells ltype data_size cells st2))))" for st
      by (simp only: encode_array_def elems_def [symmetric] not_less [symmetric] if_False simp_thms)
    show ?thesis
    proof (cases elems)
      case (Inl x)
      have "writes_upto (\<lambda>st. case pb_encode_tag PB_WT_STRING tag st of Inl e \<Rightarrow> Inl e | Inr st1 \<Rightarrow> Inl x) (20 + 10 * n)"
        unfolding writes_upto_def by (auto split: sum.splits)
      then show ?thesis by (rule writes_cong [rotated]) (simp add: array Inl split: sum.split)
    next
      case (Inr sz)
      then have "sz \<le> 10 * n" using sz True assms by simp
      from short [OF this] True assms
      have "writes_upto (\<lambda>st. case pb_encode_tag PB_WT_STRING tag st of Inl e \<Rightarrow> Inl e | Inr st1 \<Rightarrow>
          (case pb_encode_varint (of_nat sz) st1 of Inl e \<Rightarrow> Inl e | Inr st2 \<Rightarrow>
            (if os_sizing st2 then pb_write_sizing sz st2 else encode_cells ltype data_size cells st2))) (20 + 10 * n)"
        by simp
      then show ?thesis by (rule writes_cong [rotated]) (simp add: array Inr split: sum.split)
    qed
  qed
qed

text \<open>A submessage: the size found by sizing bounds what is written the second time.\<close>

lemma writes_submessage:
  assumes "\<And>m. writes_upto (enc m) n"
  shows "writes_upto (pb_encode_submessage enc m) (10 + n)"
  unfolding writes_upto_def
proof (intro allI impI)
  fix st st' assume r: "pb_encode_submessage enc m st = Inr st'"
  then obtain sizing where s: "enc m PB_OSTREAM_SIZING = Inr sizing" by (auto simp: pb_encode_submessage_def split: sum.splits)
  let ?sz = "os_bytes_written sizing"
  obtain u where u: "pb_encode_varint (of_nat ?sz) st = Inr u"
    using r s by (auto simp: pb_encode_submessage_def Let_def split: sum.splits)
  note V = writes_D [OF writes_varint u]
  have sz: "?sz \<le> n" using writes_D(3) [OF assms s] by (simp add: PB_OSTREAM_SIZING_def)
  show "os_sizing st' = os_sizing st \<and> os_max_size st' = os_max_size st \<and>
     (os_sizing st \<longrightarrow> os_bytes_written st' \<le> os_bytes_written st + (10 + n)) \<and>
     (\<not> os_sizing st \<and> os_bytes_written st \<le> os_max_size st \<and> os_max_size st < 2 ^ 31 \<and> (10 + n) \<le> 2 ^ 31 \<longrightarrow>
        (\<exists>bs. os_out st' = os_out st @ bs \<and> os_bytes_written st' = os_bytes_written st + length bs \<and> length bs \<le> 10 + n \<and>
           os_bytes_written st' \<le> os_max_size st))"
  proof (cases "os_sizing u")
    case True
    then have "pb_write_sizing ?sz u = Inr st'" using r s u by (simp add: pb_encode_submessage_def Let_def)
    from writes_sizing [OF True this] show ?thesis using V(1-3) True sz by auto
  next
    case False
    let ?sub = "\<lparr>os_sizing = False, os_max_size = ?sz, os_bytes_written = 0, os_out = os_out u\<rparr>"
    have room: "\<not> add32 (os_bytes_written u) ?sz > os_max_size u"
      using r s u False by (auto simp: pb_encode_submessage_def Let_def)
    obtain v where v: "enc m ?sub = Inr v" "os_bytes_written v = ?sz" and
      st': "st' = u\<lparr>os_bytes_written := add32 (os_bytes_written u) ?sz, os_out := os_out v\<rparr>"
      using r s u False room by (auto simp: pb_encode_submessage_def Let_def split: sum.splits if_splits)
    have "\<exists>bs. os_out st' = os_out st @ bs \<and> os_bytes_written st' = os_bytes_written st + length bs \<and> length bs \<le> 10 + n \<and>
        os_bytes_written st' \<le> os_max_size st"
      if st: "os_bytes_written st \<le> os_max_size st" "os_max_size st < 2 ^ 31 \<and> (10 + n) \<le> 2 ^ 31"
    proof -
      obtain xs where xs: "os_out u = os_out st @ xs" "os_bytes_written u = os_bytes_written st + length xs" "length xs \<le> 10"
        "os_bytes_written u \<le> os_max_size st" using V(1,4) False st by auto
      obtain ys where ys: "os_out v = os_out u @ ys" "?sz = length ys"
        using writes_D(4) [OF assms v(1)] v(2) sz st by auto
      have "add32 (os_bytes_written u) ?sz = os_bytes_written u + ?sz"
        using xs(4) sz st by (simp add: add32_def)
      then show ?thesis
        using xs ys sz room V(2) by (intro exI [of _ "xs @ ys"]) (simp add: st')
    qed
    then show ?thesis using V(1,2) False by (simp add: st')
  qed
qed

section \<open>Messages\<close>

fun data_room :: "'m pb_data \<Rightarrow> nat \<Rightarrow> bool" where
  "data_room (Pb_Scalar ltype data_size rd wr) n = (20 \<le> n)"
| "data_room (Pb_Bytes data_size rd wr) n = (20 + data_size \<le> n)"
| "data_room (Pb_String data_size rd wr) n = (20 + data_size \<le> n)"
| "data_room (Pb_Array ltype data_size array_size rd wr) n = (20 + 10 * array_size \<le> n)"
| "data_room (Pb_Message dec enc zero is_default) n = (\<exists>k. 20 + k \<le> n \<and> (\<forall>m. writes_upto (enc m) k))"

lemma writes_basic:
  assumes "data_room (f_data f) n"
  shows "writes_upto (encode_basic_field f m) n"
proof -
  have tag: "writes_upto (pb_encode_tag_for_field f) 10"
    unfolding pb_encode_tag_for_field_def [abs_def] pb_encode_tag_def [abs_def] by (rule writes_varint)
  have bind: "writes_upto (encode_basic_field f m) n" if "\<And>st. encode_basic_field f m st =
      (case pb_encode_tag_for_field f st of Inl x \<Rightarrow> Inl x | Inr st \<Rightarrow> e st)" "writes_upto e k" "10 + k \<le> n" for e k
    by (rule writes_cong [OF that(1) writes_mono [OF writes_bind [OF tag that(2)] that(3)]])
  show ?thesis
  proof (cases "f_data f")
    case (Pb_Scalar ltype data_size rd wr)
    show ?thesis by (rule bind [OF _ writes_scalar [of ltype data_size "rd m"]]) (use assms Pb_Scalar in \<open>simp_all add: encode_basic_field_def split: sum.split\<close>)
  next
    case (Pb_Bytes data_size rd wr)
    have "writes_upto (pb_enc_bytes data_size (rd m)) (10 + data_size)"
    proof (cases "length (rd m) \<le> data_size")
      case True
      show ?thesis unfolding pb_enc_bytes_def [abs_def] by (intro writes_if writes_fail writes_string True)
    next
      case False
      then show ?thesis by (intro writes_cong [OF _ writes_fail [of Bytes_Size_Exceeded]]) (auto simp: pb_enc_bytes_def)
    qed
    then show ?thesis by (rule bind [rotated]) (use assms Pb_Bytes in \<open>simp_all add: encode_basic_field_def split: sum.split\<close>)
  next
    case (Pb_String data_size rd wr)
    let ?sz = "length (takeWhile (\<lambda>c. c \<noteq> 0) (take (data_size - 1) (rd m)))"
    have "?sz \<le> data_size" by (rule le_trans [OF length_takeWhile_le]) simp
    then have "writes_upto (pb_encode_string (take ?sz (rd m))) (10 + data_size)" by (intro writes_string) simp
    then have "writes_upto (pb_enc_string data_size (rd m)) (10 + data_size)"
      unfolding pb_enc_string_def [abs_def] Let_def by (intro writes_if writes_fail)
    then show ?thesis by (rule bind [rotated]) (use assms Pb_String in \<open>simp_all add: encode_basic_field_def split: sum.split\<close>)
  next
    case (Pb_Array ltype data_size array_size rd wr)
    show ?thesis by (rule bind [OF _ writes_fail [of Invalid_Field_Type 0]]) (use assms Pb_Array in \<open>simp_all add: encode_basic_field_def split: sum.split\<close>)
  next
    case (Pb_Message dec enc zero is_default)
    then obtain k where "20 + k \<le> n" "\<And>m. writes_upto (enc m) k" using assms by auto
    then show ?thesis by (intro bind [OF _ writes_submessage [where enc = enc and m = m]]) (use Pb_Message in \<open>simp_all add: encode_basic_field_def split: sum.split\<close>)
  qed
qed

lemma writes_field: "data_room (f_data f) n \<Longrightarrow> writes_upto (encode_field f m) n"
proof -
  assume room: "data_room (f_data f) n"
  show ?thesis
  proof (cases "case f_presence f of Oneof which enter clear \<Rightarrow> which m \<noteq> f_tag f
      | Optional has set_has \<Rightarrow> \<not> has m | Singular \<Rightarrow> pb_check_proto3_default_value f m")
    case True
    show ?thesis by (rule writes_cong [OF _ writes_nothing]) (use True in \<open>simp add: encode_field_def\<close>)
  next
    case sent: False
    show ?thesis
    proof (cases "\<exists>ltype data_size array_size rd wr. f_data f = Pb_Array ltype data_size array_size rd wr")
      case True
      then obtain ltype data_size array_size rd wr where d: "f_data f = Pb_Array ltype data_size array_size rd wr" by blast
      have "writes_upto (encode_array ltype data_size array_size (f_tag f) (rd m)) n"
        by (rule writes_mono [OF writes_array [OF le_refl]]) (use room d in simp)
      then show ?thesis by (rule writes_cong [rotated]) (use sent d in \<open>simp add: encode_field_def\<close>)
    next
      case False
      show ?thesis
        by (rule writes_cong [OF _ writes_basic [OF room]]) (use sent False in \<open>auto simp: encode_field_def split: pb_data.split\<close>)
    qed
  qed
qed

text \<open>One bound for every field is enough.\<close>

lemma writes_message:
  assumes "list_all (\<lambda>f. data_room (f_data f) n) fs"
  shows "writes_upto (pb_encode fs m) (n * length fs)"
  using assms
proof (induction fs)
  case (Cons f fs)
  have "writes_upto (pb_encode (f # fs) m) (n + n * length fs)"
    by (rule writes_cong [OF _ writes_bind [OF writes_field [of f n m]]]) (use Cons in simp_all)
  then show ?case by (simp del: pb_encode.simps)
qed (rule writes_cong [OF _ writes_nothing], simp)

lemma submsg_room:
  assumes "list_all (\<lambda>f. data_room (f_data f) k) fs" "20 + k * length fs \<le> n"
  shows "data_room (submsg fs zero rd wr) n"
  using writes_message [OF assms(1)] assms(2) unfolding submsg_def data_room.simps by blast

lemma response_room: "writes_upto (pb_encode RadioToClient_fields m) 120000"
proof -
  have member: "data_room (submsg fs zero rd wr) 10000"
    if "list_all (\<lambda>f. data_room (f_data f) 600) fs" "length fs \<le> 16" for fs :: "'a pb_field list" and zero rd and wr :: "'a \<Rightarrow> 'b \<Rightarrow> 'b"
    by (rule submsg_room [OF that(1)]) (use that(2) in simp)
  have store: "data_room (submsg StoreInfo_fields zero rd wr) 600" for zero rd and wr :: "_ \<Rightarrow> 'b \<Rightarrow> 'b"
    by (rule submsg_room [of 100]) (simp_all add: StoreInfo_fields_def f_one_def d_uint32_def)
  have "list_all (\<lambda>f. data_room (f_data f) 10000) RadioToClient_fields"
    unfolding RadioToClient_fields_def
    by (simp only: list.pred_inject, intro conjI)
       (simp_all add: f_one_def rc_member_def d_uint32_def, (rule member; simp add: store f_one_def f_opt_def d_uint32_def d_uint64_def
          d_int32_def d_bool_def d_uenum_def d_enums_def no_fields_def Pong_fields_def DeviceInfo_fields_def RadioSettings_fields_def PacketAccepted_fields_def PacketEntry_fields_def
          FetchEnd_fields_def TxResult_fields_def DeviceSettings_fields_def Status_fields_def Error_fields_def)+)
  from writes_message [OF this] show ?thesis by (rule writes_mono) (simp add: RadioToClient_fields_def)
qed

lemma envelope_fits: "cap < 2 ^ 31 \<Longrightarrow> length (encode_envelope cap m) \<le> cap"
proof (cases "pb_encode RadioToClient_fields m (pb_ostream_from_buffer cap)")
  case (Inr st)
  assume "cap < 2 ^ 31"
  with writes_D(4) [OF response_room Inr] show ?thesis
    by (auto simp: encode_envelope_def Inr) (auto simp: pb_ostream_from_buffer_def)
qed (simp add: encode_envelope_def)

text \<open>
  C35. The encoder stays inside its buffer.  Whatever the message holds, well-formed or not,
  and however small the buffer, what \<open>encode_envelope\<close> returns fits in it.
\<close>

theorem encode_stays_in_buffer:
  assumes "cap < 2 ^ 31"
  shows "length (encode_envelope cap m) \<le> cap"
  by (rule envelope_fits [OF assms])

lemma encode_stays_in_buffer_witness:
  "length (encode_envelope 5 \<lparr>rc_id = 7, rc_body = R_pong \<lparr>po_payload = replicate 4000 1\<rparr>\<rparr>) \<le> 5"
  using encode_stays_in_buffer [of 5] by simp

end
