(* ===== verification/BoardCore.thy ===== *)
theory BoardCore
  imports Sessions RadioPort EncodeBounds
begin

text \<open>
  What the board programs of both families share (\<open>src/main.cpp\<close>): names, the hooks that do not depend
  on the transports, the radio port as the core sees it, and what the events of a call into the core
  tell the board.

  \<open>board_parts\<close> is what is fixed of a board: the radio chip, a parameter, and compile-time facts.
\<close>

section \<open>State\<close>

datatype board = BOARD_XIAO_WIO | BOARD_HELTEC_V3 | BOARD_T114 | BOARD_T1000E | BOARD_OTHER

fun board_name_text :: "board \<Rightarrow> string" where
  "board_name_text BOARD_XIAO_WIO = ''XIAO WIO''"
| "board_name_text BOARD_HELTEC_V3 = ''HELTEC V3''"
| "board_name_text BOARD_T114 = ''T114''"
| "board_name_text BOARD_T1000E = ''T1000-E''"
| "board_name_text BOARD_OTHER = ''UNKNOWN''"

definition c_string :: "string \<Rightarrow> byte list" where
  "c_string s = map (\<lambda>c. of_char c) s @ [0]"

definition kBoardName :: "board \<Rightarrow> byte list" where "kBoardName b = c_string (board_name_text b)"
definition kFwVersion :: "byte list" where "kFwVersion = c_string ''0.1.0''"
definition kRebootFlushMs :: nat where "kRebootFlushMs = 100"

record 'c board_parts =
  np_chip :: "'c chip"
  np_traits :: traits
  np_radio_begin :: "'c \<Rightarrow> bool \<times> 'c"
  np_address :: "byte list option"
  np_battery :: bool
  np_board :: board

text \<open>The address of \<open>g_usb\<close>.\<close>

definition usb :: sink where "usb = 0"

section \<open>Hooks\<close>

text \<open>\<open>"%02X"\<close>\<close>

definition hex_digit :: "byte \<Rightarrow> byte" where
  "hex_digit n = (if n < 10 then 0x30 + n else 0x37 + n)"

definition hex2 :: "byte \<Rightarrow> byte list" where
  "hex2 b = [hex_digit (drop_bit 4 b), hex_digit (b AND 0x0F)]"

text \<open>\<open>mac_suffix\<close>; the address is unknown until the BLE stack is up.\<close>

definition mac_suffix :: "byte list option \<Rightarrow> byte list \<Rightarrow> byte list" where
  "mac_suffix address out =
     (let hex = (case address of None \<Rightarrow> replicate 5 0 | Some addr \<Rightarrow> hex2 (addr ! 1) @ hex2 (addr ! 0) @ [0])
      in copy_str 5 hex)"

definition board_fill_status :: "meshpigeon_Status \<Rightarrow> meshpigeon_Status" where
  "board_fill_status status = status\<lparr>st_wifi_state := WIFI_STATE_OFF\<rparr>"

definition add_capability :: "nat \<Rightarrow> u32 \<Rightarrow> u32 list \<times> u16 \<Rightarrow> u32 list \<times> u16" where
  "add_capability limit c a = (case a of (out, n) \<Rightarrow> if unat n \<ge> limit then (out, n) else (out[unat n := c], n + 1))"

definition board_fill_capabilities :: "bool \<Rightarrow> bool \<Rightarrow> u32 list \<Rightarrow> nat \<Rightarrow> u32 list \<times> u16" where
  "board_fill_capabilities wifi battery out limit =
     fold (add_capability limit)
       ((if wifi then [CAPABILITY_WIFI_STA] else []) @ (if battery then [CAPABILITY_BATTERY] else []) @
        [CAPABILITY_BLE, CAPABILITY_USB_CDC]) (out, 0)"

section \<open>The radio port\<close>

text \<open>What the port answers; before \<open>boot\<close> has applied a tuning the radio is brought up.\<close>

definition port_lora :: "('c, 'z) board_parts_scheme \<Rightarrow> 'c lora_port \<Rightarrow> lora_radio" where
  "port_lora np p = \<lparr>lr_begin = True, lr_apply = (\<lambda>s. fst (lora_apply (np_chip np) (np_traits np) s p)),
     lr_transmit = (\<lambda>raw. fst (lora_transmit (np_chip np) raw p)), lr_tx_done = fst (lora_tx_done (np_chip np) (np_traits np) p)\<rparr>"

definition boot_lora :: "('c, 'z) board_parts_scheme \<Rightarrow> 'c \<Rightarrow> lora_radio" where
  "boot_lora np c = (case np_radio_begin np c of (ok, c) \<Rightarrow> (port_lora np \<lparr>lp_chip = c, lp_tx_started = False\<rparr>)\<lparr>lr_begin := ok\<rparr>)"

section \<open>What the events do\<close>

text \<open>The calls of the radio, the renames and the frames to the console among some events.\<close>

fun port_call :: "('c, 'z) board_parts_scheme \<Rightarrow> event \<Rightarrow> 'c lora_port \<Rightarrow> 'c lora_port" where
  "port_call np Radio_Begin p = p\<lparr>lp_chip := snd (np_radio_begin np (lp_chip p))\<rparr>"
| "port_call np (Radio_Apply s) p = snd (lora_apply (np_chip np) (np_traits np) s p)"
| "port_call np (Radio_Transmit raw) p = snd (lora_transmit (np_chip np) raw p)"
| "port_call np _ p = p"

fun renamed :: "event \<Rightarrow> byte list \<Rightarrow> byte list" where
  "renamed (Hook_Set_Device_Name name) n = name"
| "renamed _ n = n"

fun console :: "event list \<Rightarrow> byte list" where
  "console [] = []"
| "console (Send_Frame k buf # es) = (if k = usb then frame_encode_envelope buf else []) @ console es"
| "console (_ # es) = console es"

fun sized :: "event \<Rightarrow> bool" where
  "sized (Send_Frame k buf) = (length buf \<le> MESHPIGEON_MAX_FRAME_PAYLOAD)"
| "sized _ = True"

definition restart :: "event \<Rightarrow> bool" where
  "restart e \<longleftrightarrow> e \<in> {Hook_Reboot, Hook_Reboot_To_Bootloader, Hook_Factory_Reset}"

lemma console_append: "console (es @ fs) = console es @ console fs"
  by (induction es rule: console.induct) simp_all

lemma frame_of_sized: "length (frame_of rid c) \<le> MESHPIGEON_MAX_FRAME_PAYLOAD"
  unfolding frame_of_def by (rule envelope_fits) (simp add: protocol_limits)

lemma frames_calls [simp]:
  "fold (port_call np) (frames rid c ks) p = p" "fold renamed (frames rid c ks) n = n" "list_all sized (frames rid c ks)"
  "\<not> list_ex restart (frames rid c ks)"
proof -
  have "fold (port_call np) (map (\<lambda>k. Send_Frame k buf) ks) p = p" "fold renamed (map (\<lambda>k. Send_Frame k buf) ks) n = n" for buf
    by (induction ks) simp_all
  then show "fold (port_call np) (frames rid c ks) p = p" "fold renamed (frames rid c ks) n = n" by (simp_all add: frames_def)
  show "list_all sized (frames rid c ks)" by (simp add: frames_def list_all_iff frame_of_sized)
  show "\<not> list_ex restart (frames rid c ks)" by (auto simp: frames_def list_ex_iff restart_def)
qed

section \<open>What the core tells the board\<close>

text \<open>
  \<open>told np p s t\<close>: the events the core added between \<open>s\<close> and \<open>t\<close>, carried out on the port \<open>p\<close> it asked,
  leave the port and the name as the core believes them to be, unless they restart the board.
\<close>

definition told :: "('c, 'z) board_parts_scheme \<Rightarrow> 'c lora_port \<Rightarrow> command_processor \<Rightarrow> command_processor \<Rightarrow> bool" where
  "told np p s t \<longleftrightarrow> (\<exists>es. cp_trace t = cp_trace s @ es \<and> list_all sized es \<and>
     (list_ex restart es \<or> lp_tx_started (fold (port_call np) es p) = cp_tx_pending t \<and> fold renamed es (effective_name s) = effective_name t))"

text \<open>Steps that only send frames.\<close>

definition frame_event :: "event \<Rightarrow> bool" where
  "frame_event e \<longleftrightarrow> (\<exists>k buf. e = Send_Frame k buf \<and> length buf \<le> MESHPIGEON_MAX_FRAME_PAYLOAD)"

definition only_frames :: "command_processor \<Rightarrow> command_processor \<Rightarrow> bool" where
  "only_frames s t \<longleftrightarrow> (\<exists>es. cp_trace t = cp_trace s @ es \<and> list_all frame_event es) \<and>
     cp_tx_pending t = cp_tx_pending s \<and> cp_device t = cp_device s \<and> cp_hooks t = cp_hooks s"

lemma frame_events:
  "list_all frame_event es \<Longrightarrow> list_all sized es \<and> \<not> list_ex restart es \<and> fold renamed es n = n \<and> fold (port_call np) es p = p"
  by (induction es) (auto simp: frame_event_def restart_def)

lemma frame_events_say: "list_all frame_event (frames rid c ks)"
  by (auto simp: frames_def list_all_iff frame_event_def frame_of_sized)

lemma only_frames_refl [simp]: "only_frames s s"
  by (simp add: only_frames_def)

lemma only_frames_say: "only_frames s t \<Longrightarrow> only_frames s (say rid c ks t)"
  using frame_events_say [of rid c ks] by (auto simp: only_frames_def)

lemma only_frames_update [simp]:
  "only_frames s (t\<lparr>cp_store := a\<rparr>) = only_frames s t" "only_frames s (t\<lparr>cp_auth_fails := f\<rparr>) = only_frames s t"
  "only_frames s (t\<lparr>cp_authenticated := g\<rparr>) = only_frames s t" "only_frames s (t\<lparr>cp_noise_floor_dbm := d\<rparr>) = only_frames s t"
  "only_frames s (t\<lparr>cp_auth_backoff_until := q\<rparr>) = only_frames s t" "only_frames s (t\<lparr>cp_clock := h\<rparr>) = only_frames s t"
  by (simp_all add: only_frames_def)

lemma told_frames: "only_frames s t \<Longrightarrow> lp_tx_started p = cp_tx_pending s \<Longrightarrow> told np p s t"
  using frame_events unfolding only_frames_def told_def by (metis effective_name_cong)

text \<open>What sends frames may follow whatever has told the board enough.\<close>

definition quiet :: "command_processor \<Rightarrow> command_processor \<Rightarrow> bool" where
  "quiet s t \<longleftrightarrow> (\<exists>es. cp_trace t = cp_trace s @ es \<and> list_all frame_event es) \<and> cp_tx_pending t = cp_tx_pending s \<and>
     effective_name t = effective_name s"

lemma only_frames_quiet: "only_frames s t \<Longrightarrow> quiet s t"
  using effective_name_cong unfolding only_frames_def quiet_def by metis

lemma quiet_refl [simp]: "quiet s s"
  by (simp add: quiet_def)

lemma quiet_trans: "quiet s t \<Longrightarrow> quiet t u \<Longrightarrow> quiet s u"
  unfolding quiet_def by (elim exE conjE) (rule conjI, rule_tac x = "es @ esa" in exI, simp_all)

lemma told_then_quiet:
  assumes "told np p s t" "quiet t u"
  shows "told np p s u"
proof -
  obtain es where es: "cp_trace t = cp_trace s @ es" "list_all sized es"
    "list_ex restart es \<or> lp_tx_started (fold (port_call np) es p) = cp_tx_pending t \<and> fold renamed es (effective_name s) = effective_name t"
    using assms(1) unfolding told_def by blast
  obtain fs where fs: "cp_trace u = cp_trace t @ fs" "list_all frame_event fs" using assms(2) unfolding quiet_def by blast
  show ?thesis
    unfolding told_def using es fs(1) assms(2) frame_events [OF fs(2), where np = np]
    by (intro exI [of _ "es @ fs"]) (auto simp: quiet_def)
qed

lemma told_quiet: "quiet s t \<Longrightarrow> lp_tx_started p = cp_tx_pending s \<Longrightarrow> told np p s t"
  by (rule told_then_quiet [OF told_frames]) simp_all

lemma told_say: "told np p s t \<Longrightarrow> told np p s (say rid c ks t)"
  by (erule told_then_quiet) (intro only_frames_quiet only_frames_say only_frames_refl)

lemma effective_name_hooks:
  assumes "cp_hooks s = Some h" "hk_mac_suffix h = hk_mac_suffix h'"
  shows "effective_name (s\<lparr>cp_hooks := Some h'\<rparr>) = effective_name s"
  using assms by (simp add: effective_name_def)

lemma told_restart:
  assumes "cp_trace t = cp_trace s @ es" "list_all sized es" "restart e" "cp_hooks t \<noteq> None"
  shows "told np p s (run_hook e t)"
  unfolding told_def using assms by (intro exI [of _ "es @ [e]"]) (auto simp: run_hook_def restart_def)

lemma started_simps [simp]:
  "lp_tx_started (snd (start_rx ch p)) = lp_tx_started p"
  "lp_tx_started (snd (lora_apply ch tr c p)) = lp_tx_started p"
  "lp_tx_started (snd (lora_transmit ch raw p)) \<longleftrightarrow> lp_tx_started p \<or> fst (lora_transmit ch raw p) = 0"
  "lp_tx_started (snd (lora_receive ch tr p)) = lp_tx_started p"
  by (auto simp: start_rx_def lora_apply_def lora_transmit_def lora_receive_def Let_def split_def split: prod.split bool.split option.split)

lemma started_tx_done [simp]: "lp_tx_started (snd (lora_tx_done ch tr p)) \<longleftrightarrow> \<not> fst (lora_tx_done ch tr p)"
  by (simp add: lora_tx_done_def)

lemma told_set_radio:
  assumes "lp_tx_started p = cp_tx_pending s"
  shows "told np p s (handle_set_radio_settings lora rid m from s)"
proof -
  have "effective_name (emit (Radio_Apply c) s) = effective_name s" for c by (rule effective_name_cong) simp_all
  then have "told np p s (emit (Radio_Apply c) s)" for c
    unfolding told_def by (intro exI [of _ "[Radio_Apply c]"]) (simp add: assms)
  moreover have "effective_name (retuned c s) = effective_name s" for c by (rule effective_name_cong) (simp_all add: retuned_def)
  then have "told np p s (retuned c s)" for c
    unfolding told_def by (intro exI [of _ "[Radio_Apply (c\<lparr>rs_config_epoch := 0\<rparr>), Save_Radio c]"]) (simp add: assms, simp add: retuned_def)
  moreover have "told np p s s" by (rule told_frames) (simp_all add: assms)
  ultimately show ?thesis by (simp add: set_radio_say Let_def told_say)
qed

lemma told_rewritten:
  assumes "lp_tx_started p = cp_tx_pending s" "cp_hooks s \<noteq> None"
  shows "told np p s (rewritten m from s)"
proof -
  let ?t = "rewritten m from s" and ?n = "effective_name (s\<lparr>cp_device := candidate m (cp_device s)\<rparr>)"
  have n: "effective_name ?t = ?n" by (rule effective_name_cong) (simp_all add: rewritten_def rotate_sessions_def Let_def)
  have "?n = effective_name s" if "\<not> sds_has_name m"
    using that by (simp add: effective_name_def candidate_fields)
  then show ?thesis
    unfolding told_def n using assms
    by (intro exI [of _ "[Save_Device (candidate m (cp_device s))] @ (if sds_has_name m then [Hook_Set_Device_Name ?n] else []) @
        (if wifi_touched m then [Hook_Apply_Wifi (candidate m (cp_device s))] else [])"])
       (simp add: rewritten_def rotate_sessions_def Let_def)
qed

lemma told_set_device:
  assumes "lp_tx_started p = cp_tx_pending s" "cp_hooks s \<noteq> None"
  shows "told np p s (handle_set_device_settings rid m from s)"
proof -
  have "told np p s s" by (rule told_frames) (simp_all add: assms)
  then show ?thesis using told_rewritten [OF assms, of np] by (simp add: set_device_say Let_def told_say)
qed

lemma told_send_packet:
  assumes "lp_tx_started p = cp_tx_pending s"
  shows "told np p s (handle_send_packet (port_lora np p) rid m from s)"
proof (cases "cp_tx_pending s")
  case True
  have "told np p s s" by (rule told_frames) (simp_all add: assms)
  with True show ?thesis by (simp add: send_packet_say told_say)
next
  case idle: False
  obtain st q out where app: "ps_append (uptime_ms64 (cp_clock s)) 0 0 kFlagSent (spm_raw m) (cp_store s) = (st, q, out)"
    by (metis prod_cases3)
  let ?raw = "spm_raw m" and ?r = "fst (lora_transmit (np_chip np) (spm_raw m) p)"
  have quiet: "told np p s (s\<lparr>cp_store := st\<rparr>)" "told np p s s" by (rule told_frames; simp add: assms)+
  define u where "u = emit (Radio_Transmit ?raw) (say rid (R_packet_accepted \<lparr>pa_seq = of_nat q\<rparr>) [from] (s\<lparr>cp_store := st\<rparr>))"
  have u: "cp_trace u = cp_trace s @ frames rid (R_packet_accepted \<lparr>pa_seq = of_nat q\<rparr>) [from] @ [Radio_Transmit ?raw]"
    "effective_name (u\<lparr>cp_tx_pending := a, cp_tx_pending_seq := b\<rparr>) = effective_name s" "effective_name u = effective_name s"
    "cp_tx_pending u = cp_tx_pending s" for a b
    by (simp_all add: u_def effective_name_def)
  have "told np p s u" if "?r \<noteq> 0"
    unfolding told_def u(1,3,4) using that idle assms by (intro exI conjI) (rule refl, simp_all)
  moreover have "told np p s (u\<lparr>cp_tx_pending := True, cp_tx_pending_seq := q\<rparr>)" if "?r = 0"
    unfolding told_def u(2) using that idle assms u(1) by (intro exI conjI) (simp, simp_all)
  ultimately show ?thesis
    using quiet idle by (simp add: send_packet_say app Let_def u_def [symmetric] told_say) (simp add: port_lora_def told_say)
qed

lemma told_request:
  assumes "lp_tx_started p = cp_tx_pending s" "cp_hooks s \<noteq> None"
  shows "told np p s (handle_request (port_lora np p) req from s)"
proof -
  note frames_only = told_frames [OF _ assms(1)]
  have fetch: "told np p s (handle_fetch_packets rid m from s)" for rid m
    by (rule frames_only, rule fetch_keeps [where P = "only_frames s"]) (simp_all add: only_frames_say)
  have auth: "told np p s (handle_auth rid m from s)" for rid m
    by (rule frames_only) (simp add: auth_say note_auth_failure_def Let_def only_frames_say)
  have quiet: "told np p s s" "told np p s (s\<lparr>cp_store := st\<rparr>)" for st by (rule frames_only; simp)+
  have restarts: "told np p s (run_hook e (say rid c ks s))" "told np p s (run_hook e (say rid c ks
      ((emit Clear_Device (s\<lparr>cp_device := device_defaults, cp_settings_store := ms\<rparr>))\<lparr>cp_store := st\<rparr>)))"
    if "restart e" for e rid c ks ms st
  proof -
    show "told np p s (run_hook e (say rid c ks s))"
      by (rule told_restart [OF _ _ that, where es = "frames rid c ks"]) (simp_all add: assms(2))
    show "told np p s (run_hook e (say rid c ks
        ((emit Clear_Device (s\<lparr>cp_device := device_defaults, cp_settings_store := ms\<rparr>))\<lparr>cp_store := st\<rparr>)))"
      by (rule told_restart [OF _ _ that, where es = "Clear_Device # frames rid c ks"]) (simp_all add: assms(2))
  qed
  have "restart Hook_Reboot" "restart Hook_Reboot_To_Bootloader" "restart Hook_Factory_Reset" by (simp_all add: restart_def)
  then show ?thesis
    using fetch auth restarts told_set_radio [OF assms(1)] told_set_device [OF assms] told_send_packet [OF assms(1)] quiet
    by (cases "cr_body req") (simp_all add: handle_request_def say_simps require_auth_def Let_def told_say)
qed

end
