(* ===== verification/Board.thy ===== *)
theory Board
  imports BoardCore BleQueue
begin

text \<open>
  The board program of the nRF52 boards, \<open>src/main.cpp\<close> with \<open>UsbCdcSink\<close> of \<open>src/transports.h\<close>: the
  hooks, \<open>setup\<close> and \<open>loop\<close>, which connect the processor with the serial console, the BLE queue and
  the radio port.

  The globals form the record \<open>nrf_board\<close>.  The processor asks the port and the hooks during a call;
  what it makes others do, read off the events it emitted, is done in the order of the events.
  \<open>nrf_parts\<close> is what is fixed: the two radios and the BLE stack, which are parameters, and the
  compile-time facts.  \<open>nrf_tick\<close> is what one round of \<open>loop\<close> finds: the readings of the hardware, the
  bytes that have arrived and what happened to the radio chip since the last round.
\<close>

section \<open>State\<close>

record ('c, 'l) nrf_parts = "'c board_parts" +
  np_link :: "'l nrf_link"

record 'c nrf_tick =
  nt_millis :: u32
  nt_battery_mv :: u16
  nt_serial_open :: bool
  nt_serial_bytes :: "byte list"
  nt_ble_bytes :: "byte list"
  nt_chip :: "'c \<Rightarrow> 'c"

text \<open>\<open>Restarted\<close>: \<open>NVIC_SystemReset\<close> was called.  \<open>Stuck\<close>: the flush before it never returned.\<close>

datatype board_end = Running | Restarted | Stuck

record ('c, 'l) nrf_board =
  nb_proc :: command_processor
  nb_usb_reader :: frame_reader
  nb_usb_in :: "byte list"
  nb_usb_out :: "byte list"
  nb_ble :: "'l nrf_sink"
  nb_ble_in :: "byte list"
  nb_port :: "'c lora_port"
  nb_name :: "byte list"
  nb_end :: board_end

text \<open>The address of \<open>g_ble\<close>.\<close>

definition ble :: sink where "ble = 1"

section \<open>Hooks\<close>

definition nrf_hooks :: "('c, 'l) nrf_parts \<Rightarrow> 'c nrf_tick \<Rightarrow> 'l nrf_sink \<Rightarrow> board_hooks" where
  "nrf_hooks np t s = default_hooks\<lparr>hk_battery_mv := nt_battery_mv t, hk_mac_suffix := mac_suffix (np_address np),
     hk_ble_clients := nrf_ble_clients (np_link np) s, hk_usb_cdc_clients := (if nt_serial_open t then 1 else 0),
     hk_fill_status := board_fill_status, hk_wifi_supported := False,
     hk_fill_capabilities := board_fill_capabilities False (np_battery np)\<rparr>"

section \<open>Events\<close>

text \<open>\<open>reboot_now\<close>\<close>

definition reboot_now :: "('c, 'l) nrf_parts \<Rightarrow> ('c, 'l) nrf_board \<Rightarrow> ('c, 'l) nrf_board" where
  "reboot_now np b =
     (case nrf_flush (np_link np) kRebootFlushMs (nb_ble b) of
        None \<Rightarrow> b\<lparr>nb_end := Stuck\<rparr>
      | Some s \<Rightarrow> b\<lparr>nb_ble := (nrf_delay (np_link np) ^^ 10) s, nb_end := Restarted\<rparr>)"

definition usb_send_frame :: "byte list \<Rightarrow> ('c, 'l) nrf_board \<Rightarrow> ('c, 'l) nrf_board" where
  "usb_send_frame decoded b = b\<lparr>nb_usb_out := nb_usb_out b @ frame_encode_envelope decoded\<rparr>"

text \<open>After the restart nothing of the call that asked for it is carried out.\<close>

definition board_event :: "('c, 'l) nrf_parts \<Rightarrow> event \<Rightarrow> ('c, 'l) nrf_board \<Rightarrow> ('c, 'l) nrf_board" where
  "board_event np e b =
     (if nb_end b \<noteq> Running then b
      else case e of
        Send_Frame k buf \<Rightarrow>
          (if k = usb then usb_send_frame buf b
           else if k = ble then b\<lparr>nb_ble := nrf_send_frame (np_link np) buf (nb_ble b)\<rparr> else b)
      | Radio_Begin \<Rightarrow> b\<lparr>nb_port := (nb_port b)\<lparr>lp_chip := snd (np_radio_begin np (lp_chip (nb_port b)))\<rparr>\<rparr>
      | Radio_Apply s \<Rightarrow> b\<lparr>nb_port := snd (lora_apply (np_chip np) (np_traits np) s (nb_port b))\<rparr>
      | Radio_Transmit raw \<Rightarrow> b\<lparr>nb_port := snd (lora_transmit (np_chip np) raw (nb_port b))\<rparr>
      | Hook_Set_Device_Name name \<Rightarrow> b\<lparr>nb_name := name\<rparr>
      | Hook_Reboot \<Rightarrow> reboot_now np b
      | Hook_Reboot_To_Bootloader \<Rightarrow> reboot_now np b
      | Hook_Factory_Reset \<Rightarrow> reboot_now np b
      | _ \<Rightarrow> b)"

text \<open>A call into the core.\<close>

definition on_board :: "('c, 'l) nrf_parts \<Rightarrow> 'c nrf_tick \<Rightarrow> (lora_radio \<Rightarrow> command_processor \<Rightarrow> command_processor)
    \<Rightarrow> ('c, 'l) nrf_board \<Rightarrow> ('c, 'l) nrf_board" where
  "on_board np t f b =
     (if nb_end b \<noteq> Running then b
      else let s = (nb_proc b)\<lparr>cp_hooks := Some (nrf_hooks np t (nb_ble b))\<rparr>; s' = f (port_lora np (nb_port b)) s
           in fold (board_event np) (drop (length (cp_trace s)) (cp_trace s')) (b\<lparr>nb_proc := s'\<rparr>))"

section \<open>The loop\<close>

definition nrf_envelope :: "('c, 'l) nrf_parts \<Rightarrow> 'c nrf_tick \<Rightarrow> sink \<Rightarrow> ('c, 'l) nrf_board \<Rightarrow> byte list \<Rightarrow> ('c, 'l) nrf_board" where
  "nrf_envelope np t k b env = on_board np t (\<lambda>lora. on_envelope lora env (Some k)) b"

definition usb_pump :: "('c, 'l) nrf_parts \<Rightarrow> 'c nrf_tick \<Rightarrow> ('c, 'l) nrf_board \<Rightarrow> ('c, 'l) nrf_board" where
  "usb_pump np t b =
     (let (reader, b, rx) = drain_frames (nrf_envelope np t usb) (nb_usb_reader b) b (nb_usb_in b)
      in b\<lparr>nb_usb_reader := reader, nb_usb_in := rx\<rparr>)"

definition nrf_pump :: "('c, 'l) nrf_parts \<Rightarrow> 'c nrf_tick \<Rightarrow> ('c, 'l) nrf_board \<Rightarrow> ('c, 'l) nrf_board" where
  "nrf_pump np t b =
     (let b = (if ns_drop_pending (nb_ble b)
               then b\<lparr>nb_ble := (nb_ble b)\<lparr>ns_drop_pending := False, ns_head := 0, ns_count := 0, ns_reader := frame_reader_reset\<rparr>,
                      nb_proc := (nb_proc b)\<lparr>cp_authenticated := (cp_authenticated (nb_proc b))(ble := False)\<rparr>, nb_ble_in := []\<rparr>
               else b);
          (reader, b, rx) = drain_frames (nrf_envelope np t ble) (ns_reader (nb_ble b)) b (nb_ble_in b);
          b = b\<lparr>nb_ble := (nb_ble b)\<lparr>ns_reader := reader\<rparr>, nb_ble_in := rx\<rparr>
      in if nb_end b \<noteq> Running then b else b\<lparr>nb_ble := snd (nrf_drain_step (np_link np) (nb_ble b))\<rparr>)"

text \<open>\<open>poll\<close> asks the radio only while a send is pending.\<close>

definition board_poll :: "('c, 'l) nrf_parts \<Rightarrow> 'c nrf_tick \<Rightarrow> ('c, 'l) nrf_board \<Rightarrow> ('c, 'l) nrf_board" where
  "board_poll np t b =
     (let b' = on_board np t (\<lambda>lora. processor_poll lora (nt_millis t)) b
      in if nb_end b = Running \<and> cp_tx_pending (nb_proc b)
         then b'\<lparr>nb_port := snd (lora_tx_done (np_chip np) (np_traits np) (nb_port b))\<rparr> else b')"

definition radio_loop :: "('c, 'l) nrf_parts \<Rightarrow> 'c nrf_tick \<Rightarrow> ('c, 'l) nrf_board \<Rightarrow> ('c, 'l) nrf_board" where
  "radio_loop np t b =
     (let b = board_poll np t b; (got, p) = lora_receive (np_chip np) (np_traits np) (nb_port b); b = b\<lparr>nb_port := p\<rparr>
      in case got of
           None \<Rightarrow> b
         | Some (raw, rssi, snr) \<Rightarrow> on_board np t (\<lambda>lora s. fst (on_packet_received rssi snr raw s)) b)"

definition unless_ended :: "(('c, 'l) nrf_board \<Rightarrow> ('c, 'l) nrf_board) \<Rightarrow> ('c, 'l) nrf_board \<Rightarrow> ('c, 'l) nrf_board" where
  "unless_ended f b = (if nb_end b \<noteq> Running then b else f b)"

definition nrf_loop :: "('c, 'l) nrf_parts \<Rightarrow> 'c nrf_tick \<Rightarrow> ('c, 'l) nrf_board \<Rightarrow> ('c, 'l) nrf_board" where
  "nrf_loop np t b =
     (let b = unless_ended (usb_pump np t) b;
          b = unless_ended (nrf_pump np t) b;
          b = unless_ended (radio_loop np t) b
      in unless_ended (\<lambda>b. b\<lparr>nb_ble := nrf_delay (np_link np) (nb_ble b)\<rparr>) b)"

text \<open>What happens between two rounds.\<close>

definition arrive :: "'c nrf_tick \<Rightarrow> ('c, 'l) nrf_board \<Rightarrow> ('c, 'l) nrf_board" where
  "arrive t b = b\<lparr>nb_usb_in := nb_usb_in b @ nt_serial_bytes t, nb_ble_in := nb_ble_in b @ nt_ble_bytes t,
     nb_port := (nb_port b)\<lparr>lp_chip := nt_chip t (lp_chip (nb_port b))\<rparr>\<rparr>"

text \<open>
  \<open>setup\<close>; \<open>boots\<close> is the boot count that was stored, and what uninitialised memory and the BLE stack
  hold is an argument.
\<close>

definition nrf_setup :: "('c, 'l) nrf_parts \<Rightarrow> 'c nrf_tick \<Rightarrow> nat \<Rightarrow> bool \<Rightarrow> u32 \<Rightarrow> memory_store \<Rightarrow> radio_settings
    \<Rightarrow> device_settings \<Rightarrow> meshpigeon_RadioToClient \<Rightarrow> queued list \<Rightarrow> 'c \<Rightarrow> 'l \<Rightarrow> ('c, 'l) nrf_board" where
  "nrf_setup np t kStoreBytes calloc_ok boots persist r d resp queue c l =
     (let s = nrf_sink_new queue l;
          proc = powered_on (boot_lora np c) kStoreBytes calloc_ok (set_boot_count (boots + 1) uptime_clock_new) persist
            (kBoardName (np_board np)) kFwVersion r d resp (Some (nrf_hooks np t s));
          b = fold (board_event np) (cp_trace proc)
            \<lparr>nb_proc = proc, nb_usb_reader = frame_reader_reset, nb_usb_in = [], nb_usb_out = [], nb_ble = s, nb_ble_in = [],
             nb_port = \<lparr>lp_chip = c, lp_tx_started = False\<rparr>, nb_name = [], nb_end = Running\<rparr>;
          b = b\<lparr>nb_proc := fst (add_sink usb (nb_proc b))\<rparr>;
          b = b\<lparr>nb_proc := fst (add_sink ble (nb_proc b))\<rparr>
      in b\<lparr>nb_name := effective_name (nb_proc b)\<rparr>)"

section \<open>What the events do\<close>

lemma send_frame_ok:
  assumes "link_spec nl sent ms" "queue_ok s" "length buf \<le> MESHPIGEON_MAX_FRAME_PAYLOAD"
  shows "queue_ok (nrf_send_frame nl buf s)"
proof (cases "nrf_connected nl s")
  case False
  then show ?thesis using assms(2) by (simp add: nrf_send_frame_def)
next
  case True
  obtain lost t where loop: "make_room_loop nl kDrainWaitMs s = (lost, t)" by (metis surj_pair)
  have t: "queue_ok t" using make_room_loop_effect [OF assms(1,2) loop] by simp
  define u where "u = nrf_make_room nl s"
  have u: "queue_ok u" "ns_count u < kQueueDepth"
    using make_room_loop_effect [OF assms(1,2) loop] t
    by (auto simp: u_def nrf_make_room_def loop queue_ok_def kQueueDepth_def split: bool.split)
  have "nrf_send_frame nl buf s = enqueue (frame_encode_envelope buf) u"
    using True u(2) by (simp add: nrf_send_frame_def u_def [symmetric] enqueue_def Let_def)
  then show ?thesis
    using enqueue_effect [OF u wire_nonempty [OF assms(3)] frame_encode_envelope_length [of buf]] by simp
qed

lemma delays_ok: "link_spec nl sent ms \<Longrightarrow> queue_ok ((nrf_delay nl ^^ n) s) = queue_ok s"
  by (induction n) (simp_all add: delay_effect(5))

lemma reboot_effect:
  assumes "link_spec (np_link np) sent ms" "queue_ok (nb_ble b)"
  shows "queue_ok (nb_ble (reboot_now np b))" "nb_end (reboot_now np b) = Restarted" "nb_proc (reboot_now np b) = nb_proc b"
  using flush_loop_returns [OF assms, of kRebootFlushMs 0] delays_ok [OF assms(1)]
  by (auto simp: reboot_now_def nrf_flush_def)

lemma event_ended [simp]: "nb_end b \<noteq> Running \<Longrightarrow> fold (board_event np) es b = b"
  by (induction es) (simp_all add: board_event_def)

lemma events_effect:
  assumes "link_spec (np_link np) sent ms" "list_all sized es" "queue_ok (nb_ble b)" "nb_end b = Running"
  defines "v \<equiv> fold (board_event np) es b"
  shows "queue_ok (nb_ble v) \<and> nb_end v \<noteq> Stuck \<and> nb_proc v = nb_proc b \<and>
    (nb_end v = Running \<longrightarrow> \<not> list_ex restart es \<and> nb_port v = fold (port_call np) es (nb_port b) \<and>
       nb_name v = fold renamed es (nb_name b) \<and> nb_usb_out v = nb_usb_out b @ console es)"
  using assms(2-4) unfolding v_def
proof (induction es arbitrary: b)
  case (Cons e es)
  let ?u = "board_event np e b"
  show ?case
  proof (cases "restart e")
    case True
    then have "?u = reboot_now np b" using Cons.prems(3) by (auto simp: board_event_def restart_def)
    then show ?thesis using reboot_effect [OF assms(1) Cons.prems(2)] by simp
  next
    case False
    then have u: "nb_end ?u = Running" "queue_ok (nb_ble ?u)" "nb_proc ?u = nb_proc b" "nb_port ?u = port_call np e (nb_port b)"
      "nb_name ?u = renamed e (nb_name b)" "nb_usb_out ?u = nb_usb_out b @ console [e]"
      using Cons.prems send_frame_ok [OF assms(1) Cons.prems(2)]
      by (cases e; simp add: board_event_def restart_def usb_send_frame_def)+
    have "console (e # es) = console [e] @ console es" using console_append [of "[e]" es] by simp
    with Cons.IH [OF _ u(2,1)] Cons.prems(1) u False show ?thesis by simp
  qed
qed simp

section \<open>The board runs the core\<close>

definition board_ok :: "('c, 'l) nrf_parts \<Rightarrow> ('c, 'l) nrf_board \<Rightarrow> bool" where
  "board_ok np b \<longleftrightarrow> (\<exists>h. cp_hooks (nb_proc b) = Some h \<and> hk_mac_suffix h = mac_suffix (np_address np)) \<and>
     queue_ok (nb_ble b) \<and> nb_end b \<noteq> Stuck \<and>
     (nb_end b = Running \<longrightarrow> lp_tx_started (nb_port b) = cp_tx_pending (nb_proc b) \<and> nb_name b = effective_name (nb_proc b) \<and>
        nb_usb_out b = console (cp_trace (nb_proc b)))"

definition board_runs :: "('c, 'l) nrf_parts \<Rightarrow> ('c, 'l) nrf_board \<Rightarrow> ('c, 'l) nrf_board \<Rightarrow> bool" where
  "board_runs np b v \<longleftrightarrow> (board_ok np b \<longrightarrow> board_ok np v \<and> core_run (nb_proc b) (nb_proc v))"

lemma board_runs_refl [simp]: "board_runs np b b"
  by (simp add: board_runs_def)

lemma board_runs_trans: "board_runs np a b \<Longrightarrow> board_runs np b c \<Longrightarrow> board_runs np a c"
  using core_run_trans unfolding board_runs_def by blast

lemma board_runs_outside:
  assumes "nb_proc v = nb_proc b" "nb_end v = nb_end b" "lp_tx_started (nb_port v) = lp_tx_started (nb_port b)" "nb_name v = nb_name b"
    and "nb_usb_out v = nb_usb_out b" "queue_ok (nb_ble b) \<Longrightarrow> queue_ok (nb_ble v)"
  shows "board_runs np b v"
  using assms unfolding board_runs_def board_ok_def by simp

lemma nrf_hooks_ok: "hooks_ok (Some (nrf_hooks np t s))" "hk_mac_suffix (nrf_hooks np t s) = mac_suffix (np_address np)"
  by (simp_all add: hooks_ok_def nrf_hooks_def board_fill_status_def Status_ok_def Status_init_zero_def)

text \<open>A call into the core whose events leave the port as the core believes it to be.\<close>

lemma on_board_told:
  fixes t :: "'c nrf_tick" and np :: "('c, 'l) nrf_parts"
  assumes link: "link_spec (np_link np) sent ms" and ok: "board_ok np b" and run: "nb_end b = Running"
  defines "s \<equiv> (nb_proc b)\<lparr>cp_hooks := Some (nrf_hooks np t (nb_ble b))\<rparr>"
  assumes told: "told np (nb_port b) s s'" and f: "f (port_lora np (nb_port b)) s = s'" and hooks: "cp_hooks s' = cp_hooks s"
  shows "board_ok np (on_board np t f b)" "nb_proc (on_board np t f b) = s'"
proof -
  obtain es where es: "cp_trace s' = cp_trace s @ es" "list_all sized es"
    "list_ex restart es \<or> lp_tx_started (fold (port_call np) es (nb_port b)) = cp_tx_pending s' \<and> fold renamed es (effective_name s) = effective_name s'"
    using told unfolding told_def by blast
  obtain h where h: "cp_hooks (nb_proc b) = Some h" "hk_mac_suffix h = mac_suffix (np_address np)" using ok unfolding board_ok_def by blast
  have name: "effective_name s = nb_name b" using ok run effective_name_hooks [OF h(1)] h(2) by (simp add: s_def nrf_hooks_ok board_ok_def)
  let ?v = "fold (board_event np) es (b\<lparr>nb_proc := s'\<rparr>)"
  have v: "on_board np t f b = ?v" using run f es(1) by (simp add: on_board_def s_def [symmetric] Let_def)
  note eff = events_effect [OF link es(2), of "b\<lparr>nb_proc := s'\<rparr>"]
  have out: "nb_usb_out b = console (cp_trace s)" using ok run by (simp add: board_ok_def s_def)
  show "nb_proc (on_board np t f b) = s'" using eff ok run by (simp add: v board_ok_def)
  show "board_ok np (on_board np t f b)"
    using eff ok run es(1,3) hooks name out nrf_hooks_ok(2) by (auto simp: v board_ok_def s_def console_append)
qed

lemma board_runs_input:
  assumes link: "link_spec (np_link np) sent ms"
    and f: "\<And>lora s. f lora s = on_input (i lora) s" "\<And>lora. input_ok (i lora)"
    and told: "\<And>p s. lp_tx_started p = cp_tx_pending s \<Longrightarrow> cp_hooks s \<noteq> None \<Longrightarrow> told np p s (f (port_lora np p) s)"
    and hooks: "\<And>lora s. cp_hooks (f lora s) = cp_hooks s"
  shows "board_runs np b (on_board np t f b)"
  unfolding board_runs_def
proof
  assume ok: "board_ok np b"
  show "board_ok np (on_board np t f b) \<and> core_run (nb_proc b) (nb_proc (on_board np t f b))"
  proof (cases "nb_end b = Running")
    case True
    let ?s = "(nb_proc b)\<lparr>cp_hooks := Some (nrf_hooks np t (nb_ble b))\<rparr>"
    have "cp_hooks (nb_proc b) \<noteq> None" "lp_tx_started (nb_port b) = cp_tx_pending ?s" using ok True by (auto simp: board_ok_def)
    then have "told np (nb_port b) ?s (f (port_lora np (nb_port b)) ?s)" by (intro told) simp_all
    note step = on_board_told [where f = f, OF link ok True this refl hooks]
    then show ?thesis using core_run_answering(1) [OF \<open>cp_hooks _ \<noteq> None\<close> nrf_hooks_ok(1) f(2)] f(1) by simp
  qed (simp add: on_board_def ok)
qed

lemma board_runs_envelope: "link_spec (np_link np) sent ms \<Longrightarrow> board_runs np b (nrf_envelope np t k b env)"
  unfolding nrf_envelope_def
  by (rule board_runs_input [where i = "\<lambda>lora. Envelope lora env k"])
     (simp_all add: on_envelope_def hooks_request told_request told_frames split: option.split)

lemma board_runs_drain:
  assumes "link_spec (np_link np) sent ms"
  shows "board_runs np b (fst (snd (drain_frames (nrf_envelope np t k) reader b src)))"
  unfolding drain_frames_def
  by (rule drain_loop_keeps [where P = "board_runs np b"])
     (use board_runs_envelope [OF assms] board_runs_trans in \<open>blast, simp\<close>)

lemma board_runs_usb:
  assumes "link_spec (np_link np) sent ms"
  shows "board_runs np b (usb_pump np t b)"
proof -
  obtain reader v rx where d: "drain_frames (nrf_envelope np t usb) (nb_usb_reader b) b (nb_usb_in b) = (reader, v, rx)" by (metis surj_pair)
  have "board_runs np b v" using board_runs_drain [OF assms, of b t usb "nb_usb_reader b" "nb_usb_in b"] by (simp add: d)
  moreover have "board_runs np v (v\<lparr>nb_usb_reader := reader, nb_usb_in := rx\<rparr>)" by (rule board_runs_outside) simp_all
  ultimately show ?thesis using board_runs_trans by (simp add: usb_pump_def d) blast
qed

text \<open>A poll that finds the transmission done clears the core's lock and, after it, the port's.\<close>

lemma board_runs_poll:
  assumes link: "link_spec (np_link np) sent ms"
  shows "board_runs np b (board_poll np t b)"
  unfolding board_runs_def
proof
  assume ok: "board_ok np b"
  let ?s = "(nb_proc b)\<lparr>cp_hooks := Some (nrf_hooks np t (nb_ble b))\<rparr>" and ?lora = "port_lora np (nb_port b)"
  let ?s' = "processor_poll ?lora (nt_millis t) ?s" and ?p = "snd (lora_tx_done (np_chip np) (np_traits np) (nb_port b))"
  show "board_ok np (board_poll np t b) \<and> core_run (nb_proc b) (nb_proc (board_poll np t b))"
  proof (cases "nb_end b = Running")
    case True
    have hooks: "cp_hooks (nb_proc b) \<noteq> None" and started: "lp_tx_started (nb_port b) = cp_tx_pending (nb_proc b)"
      using ok True by (auto simp: board_ok_def)
    have run: "core_run (nb_proc b) ?s'"
      using core_run_answering(1) [OF hooks nrf_hooks_ok(1), of "Poll ?lora (nt_millis t)"] by simp
    show ?thesis
    proof (cases "cp_tx_pending (nb_proc b) \<and> fst (lora_tx_done (np_chip np) (np_traits np) (nb_port b))")
      case False
      have "?s' = ?s\<lparr>cp_clock := uc_poll (nt_millis t) (cp_clock ?s)\<rparr>" using False by (auto simp: processor_poll_def port_lora_def Let_def)
      then have "told np (nb_port b) ?s ?s'" by (intro told_frames) (simp_all add: started)
      note step = on_board_told [where f = "\<lambda>lora. processor_poll lora (nt_millis t)", OF link ok True this refl]
      have hooks': "cp_hooks ?s' = cp_hooks ?s" by (simp add: processor_poll_def on_tx_result_def say_simps Let_def)
      let ?w = "on_board np t (\<lambda>lora. processor_poll lora (nt_millis t)) b"
      have w: "board_runs np b ?w" using step [OF hooks'] run by (simp add: board_runs_def)
      show ?thesis
      proof (cases "cp_tx_pending (nb_proc b)")
        case pending: True
        have "lp_tx_started (nb_port ?w) = lp_tx_started ?p" if "nb_end ?w = Running"
          using step [OF hooks'] that pending False
          by (simp add: board_ok_def) (simp add: processor_poll_def port_lora_def Let_def)
        then have "board_ok np (?w\<lparr>nb_port := ?p\<rparr>)" using step(1) [OF hooks'] by (simp add: board_ok_def)
        then show ?thesis using step(2) [OF hooks'] run pending True by (simp add: board_poll_def Let_def)
      qed (use w ok in \<open>simp add: board_poll_def board_runs_def Let_def\<close>)
    next
      case fin: True
      let ?u = "?s\<lparr>cp_clock := uc_poll (nt_millis t) (cp_clock ?s), cp_tx_pending := False\<rparr>"
      let ?c = "R_tx_result \<lparr>tr_seq = of_nat (cp_tx_pending_seq ?s), tr_success = True\<rparr>"
      let ?es = "frames 0 ?c (recipients None False ?s)"
      have s': "?s' = say 0 ?c (recipients None False ?s) ?u"
        using fin by (simp add: processor_poll_def port_lora_def on_tx_result_def say_simps Let_def)
      let ?v = "fold (board_event np) ?es (b\<lparr>nb_proc := ?s'\<rparr>)"
      have v: "on_board np t (\<lambda>lora. processor_poll lora (nt_millis t)) b = ?v"
        using True by (simp add: on_board_def Let_def) (simp add: s')
      have eff: "queue_ok (nb_ble ?v) \<and> nb_end ?v \<noteq> Stuck \<and> nb_proc ?v = ?s' \<and> (nb_end ?v = Running \<longrightarrow>
          nb_name ?v = nb_name b \<and> nb_usb_out ?v = nb_usb_out b @ console ?es)"
        using events_effect [OF link, of ?es "b\<lparr>nb_proc := ?s'\<rparr>"] ok True by (simp add: board_ok_def)
      have name: "effective_name ?s' = nb_name b"
      proof -
        obtain h where "cp_hooks (nb_proc b) = Some h" "hk_mac_suffix h = mac_suffix (np_address np)" using ok unfolding board_ok_def by blast
        then have "effective_name ?s = nb_name b" using ok True effective_name_hooks by (simp add: nrf_hooks_ok board_ok_def)
        moreover have "effective_name ?s' = effective_name ?s" by (rule effective_name_cong) (simp_all add: s')
        ultimately show ?thesis by simp
      qed
      have fields: "cp_hooks ?s' = cp_hooks ?s" "\<not> cp_tx_pending ?s'" "cp_trace ?s' = cp_trace (nb_proc b) @ ?es" by (simp_all add: s')
      have poll: "board_poll np t b = ?v\<lparr>nb_port := ?p\<rparr>" using fin True by (simp add: board_poll_def v)
      have "board_ok np (?v\<lparr>nb_port := ?p\<rparr>)"
        unfolding board_ok_def
        using eff name fields fin ok True nrf_hooks_ok(2) [of np t "nb_ble b"] by (simp add: board_ok_def console_append)
      then show ?thesis using eff run by (simp add: poll)
    qed
  qed (simp add: board_poll_def on_board_def ok)
qed

lemma board_runs_radio:
  assumes link: "link_spec (np_link np) sent ms" and chip: "chip_spec (np_chip np) mode tun"
  shows "board_runs np b (radio_loop np t b)"
proof -
  let ?v = "board_poll np t b"
  obtain got p where got: "lora_receive (np_chip np) (np_traits np) (nb_port ?v) = (got, p)" by (metis surj_pair)
  have v: "board_runs np b ?v" by (rule board_runs_poll [OF link])
  have "lp_tx_started p = lp_tx_started (nb_port ?v)"
    using started_simps(4) [of "np_chip np" "np_traits np" "nb_port ?v"] by (simp add: got)
  then have w: "board_runs np ?v (?v\<lparr>nb_port := p\<rparr>)" by (intro board_runs_outside) simp_all
  have "board_runs np (?v\<lparr>nb_port := p\<rparr>) (on_board np t (\<lambda>lora s. fst (on_packet_received rssi snr raw s)) (?v\<lparr>nb_port := p\<rparr>))"
    if g: "got = Some (raw, rssi, snr)" for raw rssi snr
  proof (rule board_runs_input [OF link, where i = "\<lambda>_. Received rssi snr raw"])
    have "length raw \<le> MESHPIGEON_MAX_RAW_PACKET"
      using got g chip unfolding chip_spec_def
      by (auto simp: lora_receive_def Let_def split_def split: if_splits option.splits prod.splits)
    then show "\<And>lora. input_ok (Received rssi snr raw)" by (simp add: protocol_limits)
    have frames: "only_frames s (fst (on_packet_received rssi snr raw s))" for s
      by (simp add: on_packet_received_def say_simps only_frames_say Let_def split: prod.split option.split)
    then show "\<And>p s. lp_tx_started p = cp_tx_pending s \<Longrightarrow> cp_hooks s \<noteq> None \<Longrightarrow> told np p s (fst (on_packet_received rssi snr raw s))"
      by (intro told_frames)
    show "\<And>lora s. cp_hooks (fst (on_packet_received rssi snr raw s)) = cp_hooks s" using frames unfolding only_frames_def by blast
  qed simp_all
  then have "board_runs np (?v\<lparr>nb_port := p\<rparr>) (radio_loop np t b)"
    by (cases got) (auto simp: radio_loop_def got Let_def)
  with v w show ?thesis using board_runs_trans by blast
qed

lemma board_runs_ble:
  assumes link: "link_spec (np_link np) sent ms"
  shows "board_runs np b (nrf_pump np t b)"
proof -
  define v where "v = (if ns_drop_pending (nb_ble b)
     then b\<lparr>nb_ble := (nb_ble b)\<lparr>ns_drop_pending := False, ns_head := 0, ns_count := 0, ns_reader := frame_reader_reset\<rparr>,
            nb_proc := (nb_proc b)\<lparr>cp_authenticated := (cp_authenticated (nb_proc b))(ble := False)\<rparr>, nb_ble_in := []\<rparr>
     else b)"
  obtain reader w rx where d: "drain_frames (nrf_envelope np t ble) (ns_reader (nb_ble v)) v (nb_ble_in v) = (reader, w, rx)" by (metis surj_pair)
  define u where "u = w\<lparr>nb_ble := (nb_ble w)\<lparr>ns_reader := reader\<rparr>, nb_ble_in := rx\<rparr>"
  have pump: "nrf_pump np t b = (if nb_end u \<noteq> Running then u else u\<lparr>nb_ble := snd (nrf_drain_step (np_link np) (nb_ble u))\<rparr>)"
    unfolding nrf_pump_def Let_def v_def [symmetric] d u_def by simp
  have "board_runs np b v"
  proof (cases "ns_drop_pending (nb_ble b)")
    case True
    have "core_run (nb_proc b) ((nb_proc b)\<lparr>cp_authenticated := (cp_authenticated (nb_proc b))(ble := False)\<rparr>)"
      using core_run_input [of "Session_End ble" "nb_proc b"] by simp
    moreover have "effective_name ((nb_proc b)\<lparr>cp_authenticated := a\<rparr>) = effective_name (nb_proc b)" for a
      by (rule effective_name_cong) simp_all
    ultimately show ?thesis using True by (auto simp: board_runs_def board_ok_def v_def queue_ok_def kQueueDepth_def)
  qed (simp add: v_def)
  moreover have "board_runs np v w" using board_runs_drain [OF link, of v t ble "ns_reader (nb_ble v)" "nb_ble_in v"] by (simp add: d)
  moreover have "board_runs np w u" by (rule board_runs_outside) (simp_all add: u_def queue_ok_def queued_at_def)
  moreover have "board_runs np u (u\<lparr>nb_ble := snd (nrf_drain_step (np_link np) (nb_ble u))\<rparr>)"
  proof (rule board_runs_outside)
    obtain ok s where s: "nrf_drain_step (np_link np) (nb_ble u) = (ok, s)" by (metis surj_pair)
    show "queue_ok (nb_ble (u\<lparr>nb_ble := snd (nrf_drain_step (np_link np) (nb_ble u))\<rparr>))" if "queue_ok (nb_ble u)"
      using drain_step_effect [OF link that s] by (simp add: s)
  qed simp_all
  ultimately have "board_runs np b u" "board_runs np b (u\<lparr>nb_ble := snd (nrf_drain_step (np_link np) (nb_ble u))\<rparr>)"
    using board_runs_trans by blast+
  then show ?thesis by (simp add: pump)
qed

lemma board_runs_loop:
  assumes link: "link_spec (np_link np) sent ms" and chip: "chip_spec (np_chip np) mode tun"
  shows "board_runs np b (nrf_loop np t (arrive t b))"
proof -
  have unless: "board_runs np b (unless_ended f b)" if "board_runs np b (f b)" for f and b :: "('b, 'a) nrf_board"
    using that by (simp add: unless_ended_def)
  have "board_runs np b (b\<lparr>nb_ble := nrf_delay (np_link np) (nb_ble b)\<rparr>)" for b :: "('b, 'a) nrf_board"
    by (rule board_runs_outside) (simp_all add: delay_effect(5) [OF link])
  note delay = unless [OF this]
  have "board_runs np b (arrive t b)" by (rule board_runs_outside) (simp_all add: arrive_def)
  then show ?thesis
    unfolding nrf_loop_def Let_def
    by (intro board_runs_trans [OF _ delay] board_runs_trans [OF _ unless [OF board_runs_radio [OF link chip]]]
          board_runs_trans [OF _ unless [OF board_runs_ble [OF link]]] board_runs_trans [OF _ unless [OF board_runs_usb [OF link]]])
qed

section \<open>Properties\<close>

inductive nrf_reachable :: "('c, 'l) nrf_parts \<Rightarrow> ('c, 'l) nrf_board \<Rightarrow> bool" for np where
  set_up: "store_bytes < 2 ^ 32 \<Longrightarrow> persisted_ok persist \<Longrightarrow> length queue = kQueueDepth \<Longrightarrow>
    (\<forall>q \<in> set queue. length (qu_buf q) = FRAME_MAX_WIRE) \<Longrightarrow>
    nrf_reachable np (nrf_setup np t store_bytes calloc_ok boots persist r d resp queue c l)"
| looped: "nrf_reachable np b \<Longrightarrow> nrf_reachable np (nrf_loop np t (arrive t b))"

lemma setup_ok:
  assumes link: "link_spec (np_link np) sent ms" and persist: "store_bytes < 2 ^ 32" "persisted_ok persist"
    and queue: "length queue = kQueueDepth" "\<forall>q \<in> set queue. length (qu_buf q) = FRAME_MAX_WIRE"
    and b_def: "b = nrf_setup np t store_bytes calloc_ok boots persist r d resp queue c l"
  shows "board_ok np b \<and> (\<exists>s. cp_reachable s \<and> cp_trace s \<noteq> [] \<and> core_run s (nb_proc b))"
proof -
  define s where "s = powered_on (boot_lora np c) store_bytes calloc_ok (set_boot_count (boots + 1) uptime_clock_new) persist
    (kBoardName (np_board np)) kFwVersion r d resp (Some (nrf_hooks np t (nrf_sink_new queue l)))"
  have reach: "cp_reachable s" unfolding s_def by (rule booted [OF persist nrf_hooks_ok(1)])
  have fields: "cp_hooks s = Some (nrf_hooks np t (nrf_sink_new queue l))" "\<not> cp_tx_pending s" "cp_trace s \<noteq> []" "console (cp_trace s) = []"
    "list_all sized (cp_trace s)" "\<not> list_ex restart (cp_trace s)"
    "lp_tx_started (fold (port_call np) (cp_trace s) \<lparr>lp_chip = c, lp_tx_started = False\<rparr>) = False"
    by (simp_all add: s_def boot_state restart_def)
  let ?b0 = "\<lparr>nb_proc = s, nb_usb_reader = frame_reader_reset, nb_usb_in = [], nb_usb_out = [], nb_ble = nrf_sink_new queue l,
    nb_ble_in = [], nb_port = \<lparr>lp_chip = c, lp_tx_started = False\<rparr>, nb_name = [], nb_end = Running\<rparr>"
  let ?v = "fold (board_event np) (cp_trace s) ?b0"
  have "queue_ok (nrf_sink_new queue l)" using queue by (simp add: queue_ok_def nrf_sink_new_def kQueueDepth_def)
  then have eff: "queue_ok (nb_ble ?v)" "nb_end ?v \<noteq> Stuck" "nb_proc ?v = s"
    "nb_end ?v = Running \<Longrightarrow> \<not> lp_tx_started (nb_port ?v) \<and> nb_usb_out ?v = []"
    using events_effect [OF link fields(5), of ?b0] fields(4,7) by simp_all
  define s2 where "s2 = fst (add_sink ble (fst (add_sink usb s)))"
  have b: "b = ?v\<lparr>nb_proc := s2, nb_name := effective_name s2\<rparr>"
    by (simp add: b_def nrf_setup_def s_def [symmetric] Let_def eff(3) s2_def)
  have s2: "cp_hooks s2 = cp_hooks s" "cp_tx_pending s2 = cp_tx_pending s" "cp_trace s2 = cp_trace s"
    by (simp_all add: s2_def add_sink_def)
  have "s2 = on_input (Attach ble) (on_input (Attach usb) s)" by (simp add: s2_def)
  moreover have "core_run s (on_input (Attach ble) (on_input (Attach usb) s))"
    by (rule core_run_trans; rule core_run_input) simp_all
  ultimately have "core_run s s2" by simp
  moreover have "board_ok np b"
    using eff fields s2 by (simp add: b board_ok_def nrf_hooks_ok)
  ultimately show ?thesis using reach fields(3) by (auto simp: b)
qed

lemma nrf_reachable_ok:
  assumes link: "link_spec (np_link np) sent ms" and chip: "chip_spec (np_chip np) mode tun" and "nrf_reachable np b"
  shows "board_ok np b \<and> (\<exists>s. cp_reachable s \<and> cp_trace s \<noteq> [] \<and> core_run s (nb_proc b))"
  using assms(3)
proof (induction rule: nrf_reachable.induct)
  case set_up
  then show ?case by (intro setup_ok [OF link]) (assumption+, rule refl)
next
  case (looped b t)
  then show ?case using board_runs_loop [OF link chip, of b t] core_run_trans unfolding board_runs_def by blast
qed


text \<open>
  C32. The parts of the board agree.  In every reachable state of a running nRF52 board the radio
  port is sending exactly while the core has a transmission pending, so neither can lock the other
  out; the advertised name is the effective name of the device; everything the core sent to the
  console has been written to it, whole, in order and framed; the BLE queue is well-formed; and a
  restart that is asked for always comes.
\<close>

theorem board_parts_agree:
  assumes "link_spec (np_link np) sent ms" "chip_spec (np_chip np) mode tun" "nrf_reachable np b"
  shows "queue_ok (nb_ble b) \<and> (nb_end b = Running \<or> nb_end b = Restarted) \<and>
    (nb_end b = Running \<longrightarrow> lp_tx_started (nb_port b) = cp_tx_pending (nb_proc b) \<and> nb_name b = effective_name (nb_proc b) \<and>
       nb_usb_out b = console (cp_trace (nb_proc b)))"
  using nrf_reachable_ok [OF assms] board_end.exhaust unfolding board_ok_def by metis

text \<open>A board with the sample chip and link, and its first round.\<close>

definition bench_parts :: "(chip_mode \<times> chip_tuning, byte list \<times> nat) nrf_parts" where
  "bench_parts = \<lparr>np_chip = bench_chip, np_traits = sx126x_traits bench_bits, np_radio_begin = (\<lambda>c. (True, c)),
     np_address = Some [0xF2, 0xA3, 0, 0, 0, 0], np_battery = True, np_board = BOARD_T114, np_link = slow_link\<rparr>"

definition bench_tick :: "(chip_mode \<times> chip_tuning) nrf_tick" where
  "bench_tick = \<lparr>nt_millis = 7, nt_battery_mv = 3700, nt_serial_open = True, nt_serial_bytes = [0, 1, 2, 0], nt_ble_bytes = [], nt_chip = id\<rparr>"

definition bench_board :: "(chip_mode \<times> chip_tuning, byte list \<times> nat) nrf_board" where
  "bench_board = nrf_setup bench_parts bench_tick 700 True 4 (memory_store_new radio_unset) radio_unset device_defaults RadioToClient_init_zero
     (replicate kQueueDepth \<lparr>qu_len = 0, qu_off = 0, qu_buf = replicate FRAME_MAX_WIRE 0\<rparr>) (lp_chip bench_port) ([], 0)"

lemma bench_board_reachable: "nrf_reachable bench_parts (nrf_loop bench_parts bench_tick (arrive bench_tick bench_board))"
  unfolding bench_board_def by (intro looped set_up) (simp_all add: kQueueDepth_def persisted_none)

lemma bench_parts_spec: "link_spec (np_link bench_parts) fst snd" "chip_spec (np_chip bench_parts) fst snd"
  by (simp_all add: bench_parts_def slow_link_spec bench_chip_spec)


lemma board_parts_agree_witness:
  "queue_ok (nb_ble (nrf_loop bench_parts bench_tick (arrive bench_tick bench_board)))"
  using board_parts_agree [OF bench_parts_spec bench_board_reachable] by blast

end
