(* ===== verification/EspBoard.thy ===== *)
theory EspBoard
  imports BoardCore WifiMachine BleSessions
begin

text \<open>
  The board program of the ESP32 boards: \<open>setup\<close> and \<open>loop\<close> of \<open>src/main.cpp\<close> with the console, the
  BLE transport, the Wi-Fi transport and the radio port around one processor.

  The globals form the record \<open>esp_board\<close>; the processor is the one of its Wi-Fi transport, and
  \<open>ble_of\<close> is the BLE transport as \<open>BleCentrals\<close> has it.  \<open>esp_parts\<close> is what is fixed and
  \<open>esp_tick\<close> what a part of \<open>loop\<close> finds.  A call into the core goes through \<open>esp_call\<close>, which carries
  out what the core made the board do, in order.  The callbacks of the BLE host task come between the
  parts of \<open>loop\<close> and between the slots of the BLE \<open>pump\<close>: \<open>esp_step\<close>.
\<close>

section \<open>State\<close>

record ('c, 'l) esp_parts = "'c board_parts" +
  ep_host :: "'l host_api"

record esp_tick =
  et_battery_mv :: u16
  et_serial_open :: bool
  et_wifi :: wifi_tick
  et_link :: wifi_link

record ('c, 'l) esp_board =
  eb_wifi :: wifi_transport
  eb_ready :: bool
  eb_conns :: "connection list"
  eb_calls :: "ble_call list"
  eb_host :: 'l
  eb_usb_reader :: frame_reader
  eb_usb_in :: "byte list"
  eb_usb_out :: "byte list"
  eb_port :: "'c lora_port"
  eb_restarted :: bool

definition esp_proc :: "('c, 'l) esp_board \<Rightarrow> command_processor" where
  "esp_proc b = wf_proc (eb_wifi b)"

definition ble_of :: "('c, 'l) esp_board \<Rightarrow> ble_sink" where
  "ble_of b = \<lparr>bs_ready = eb_ready b, bs_conns = eb_conns b, bs_proc = esp_proc b, bs_calls = eb_calls b\<rparr>"

definition put_ble :: "ble_sink \<Rightarrow> ('c, 'l) esp_board \<Rightarrow> ('c, 'l) esp_board" where
  "put_ble s b = b\<lparr>eb_ready := bs_ready s, eb_conns := bs_conns s, eb_calls := bs_calls s,
     eb_wifi := (eb_wifi b)\<lparr>wf_proc := bs_proc s\<rparr>\<rparr>"

section \<open>Hooks\<close>

text \<open>The hooks that the Wi-Fi transport does not answer itself.\<close>

definition esp_hooks :: "('c, 'l) esp_parts \<Rightarrow> esp_tick \<Rightarrow> ('c, 'l) esp_board \<Rightarrow> board_hooks" where
  "esp_hooks ep t b = default_hooks\<lparr>hk_battery_mv := et_battery_mv t, hk_mac_suffix := mac_suffix (np_address ep),
     hk_ble_clients := ble_clients (ble_of b), hk_usb_cdc_clients := (if et_serial_open t then 1 else 0),
     hk_fill_status := board_fill_status, hk_fill_capabilities := board_fill_capabilities True (np_battery ep)\<rparr>"

section \<open>Events\<close>

text \<open>\<open>reboot_now\<close>, where the BLE \<open>flush\<close> is a delay.\<close>

definition esp_reboot_now :: "('c, 'l) esp_parts \<Rightarrow> ('c, 'l) esp_board \<Rightarrow> ('c, 'l) esp_board" where
  "esp_reboot_now ep b =
     b\<lparr>eb_host := (ha_delay (ep_host ep) ^^ 10) ((ha_delay (ep_host ep) ^^ kRebootFlushMs) (eb_host b)), eb_restarted := True\<rparr>"

text \<open>Frames to TCP clients are the Wi-Fi transport's; after the restart nothing more is carried out.\<close>

definition esp_event :: "('c, 'l) esp_parts \<Rightarrow> event \<Rightarrow> ('c, 'l) esp_board \<Rightarrow> ('c, 'l) esp_board" where
  "esp_event ep e b =
     (if eb_restarted b then b
      else case e of
        Send_Frame k buf \<Rightarrow>
          (if k = usb then b\<lparr>eb_usb_out := eb_usb_out b @ frame_encode_envelope buf\<rparr>
           else if is_central k then b\<lparr>eb_host := conn_send_frame (ep_host ep) (eb_conns b ! (k - 1)) buf (eb_host b)\<rparr>
           else b)
      | Hook_Set_Device_Name name \<Rightarrow> put_ble (set_name name (ble_of b)) b
      | Hook_Reboot \<Rightarrow> esp_reboot_now ep b
      | Hook_Reboot_To_Bootloader \<Rightarrow> esp_reboot_now ep b
      | Hook_Factory_Reset \<Rightarrow> esp_reboot_now ep b
      | _ \<Rightarrow> b\<lparr>eb_port := port_call ep e (eb_port b)\<rparr>)"

text \<open>A call into the core, and one that may ask the radio.\<close>

definition esp_call :: "('c, 'l) esp_parts \<Rightarrow> esp_tick \<Rightarrow> (wifi_transport \<Rightarrow> wifi_transport) \<Rightarrow> ('c, 'l) esp_board \<Rightarrow> ('c, 'l) esp_board" where
  "esp_call ep t f b =
     (if eb_restarted b then b
      else let w = (eb_wifi b)\<lparr>wf_board := esp_hooks ep t b, wf_link := et_link t\<rparr>; w' = f w
           in fold (esp_event ep) (drop (length (cp_trace (wf_proc w))) (cp_trace (wf_proc w'))) (b\<lparr>eb_wifi := w'\<rparr>))"

definition esp_envelope :: "('c, 'l) esp_parts \<Rightarrow> esp_tick \<Rightarrow> sink \<Rightarrow> ('c, 'l) esp_board \<Rightarrow> byte list \<Rightarrow> ('c, 'l) esp_board" where
  "esp_envelope ep t k b env = esp_call ep t (\<lambda>w. wifi_on_envelope (port_lora ep (eb_port b)) (et_wifi t) k w env) b"

section \<open>The loop\<close>

definition esp_usb_pump :: "('c, 'l) esp_parts \<Rightarrow> esp_tick \<Rightarrow> ('c, 'l) esp_board \<Rightarrow> ('c, 'l) esp_board" where
  "esp_usb_pump ep t b =
     (let (reader, b, rx) = drain_frames (esp_envelope ep t usb) (eb_usb_reader b) b (eb_usb_in b)
      in b\<lparr>eb_usb_reader := reader, eb_usb_in := rx\<rparr>)"

subsection \<open>BLE\<close>

definition esp_drain_conn :: "('c, 'l) esp_parts \<Rightarrow> esp_tick \<Rightarrow> nat \<Rightarrow> ('c, 'l) esp_board \<Rightarrow> ('c, 'l) esp_board" where
  "esp_drain_conn ep t i b =
     (let c = eb_conns b ! i;
          (reader, b, rx) = drain_source rf_available rf_read FRAME_MAX_DRAIN_BYTES_PER_PUMP
            (esp_envelope ep t (central i)) (cn_reader c) b (cn_rx c)
      in put_ble (set_conn i (\<lambda>c. c\<lparr>cn_reader := reader, cn_rx := rx\<rparr>) (ble_of b)) b)"

definition esp_pump_slot :: "('c, 'l) esp_parts \<Rightarrow> esp_tick \<Rightarrow> nat \<Rightarrow> ('c, 'l) esp_board \<Rightarrow> ('c, 'l) esp_board" where
  "esp_pump_slot ep t i b =
     (if eb_restarted b then b
      else let (s, drain) = slot_admit i (ble_of b); b = put_ble s b
           in if drain then esp_drain_conn ep t i b else b)"

definition esp_ble_pump :: "('c, 'l) esp_parts \<Rightarrow> esp_tick \<Rightarrow> ('c, 'l) esp_board \<Rightarrow> ('c, 'l) esp_board" where
  "esp_ble_pump ep t b = (if \<not> eb_ready b then b else fold (esp_pump_slot ep t) [0..<kMaxCentrals] b)"

subsection \<open>Wi-Fi\<close>

fun esp_drain_socket :: "('c, 'l) esp_parts \<Rightarrow> esp_tick \<Rightarrow> nat \<Rightarrow> nat \<Rightarrow> frame_reader \<Rightarrow> ('c, 'l) esp_board \<Rightarrow> byte list
    \<Rightarrow> frame_reader \<times> ('c, 'l) esp_board \<times> byte list" where
  "esp_drain_socket ep t i 0 reader b src = (reader, b, src)"
| "esp_drain_socket ep t i (Suc budget) reader b [] = (reader, b, [])"
| "esp_drain_socket ep t i (Suc budget) reader b (x # src) =
     (if \<not> wc_in_use (wf_clients (eb_wifi b) ! i) then (reader, b, x # src)
      else case frame_reader_feed x reader of
             (reader, Frame env) \<Rightarrow> esp_drain_socket ep t i budget reader (esp_envelope ep t (tcp i) b env) src
           | (reader, _) \<Rightarrow> esp_drain_socket ep t i budget reader b src)"

definition esp_drain_client :: "('c, 'l) esp_parts \<Rightarrow> esp_tick \<Rightarrow> nat \<Rightarrow> ('c, 'l) esp_board \<Rightarrow> ('c, 'l) esp_board" where
  "esp_drain_client ep t i b =
     (let (reader, b, rest) = esp_drain_socket ep t i FRAME_MAX_DRAIN_BYTES_PER_PUMP (wc_reader (wf_clients (eb_wifi b) ! i)) b
            (wt_received (et_wifi t) i)
      in b\<lparr>eb_wifi := set_client i (\<lambda>c. c\<lparr>wc_reader := reader\<rparr>) (eb_wifi b)\<rparr>)"

definition esp_pump_client :: "('c, 'l) esp_parts \<Rightarrow> esp_tick \<Rightarrow> nat \<Rightarrow> ('c, 'l) esp_board \<Rightarrow> ('c, 'l) esp_board" where
  "esp_pump_client ep t i b =
     (if eb_restarted b \<or> \<not> wc_in_use (wf_clients (eb_wifi b) ! i) then b
      else let b = (if \<not> wc_broken (wf_clients (eb_wifi b) ! i) then esp_drain_client ep t i b else b)
           in if wc_broken (wf_clients (eb_wifi b) ! i) \<or> \<not> wt_connected (et_wifi t) i
              then b\<lparr>eb_wifi := drop_client i (eb_wifi b)\<rparr> else b)"

definition esp_wifi_pump :: "('c, 'l) esp_parts \<Rightarrow> esp_tick \<Rightarrow> ('c, 'l) esp_board \<Rightarrow> ('c, 'l) esp_board" where
  "esp_wifi_pump ep t b =
     (if \<not> usable (eb_wifi b) then b
      else let b = esp_call ep t (drive_link (et_wifi t)) b;
               b = esp_call ep t (accept_clients (et_wifi t)) b
           in fold (esp_pump_client ep t) [0..<kMaxClients] b)"

subsection \<open>The radio\<close>

text \<open>\<open>poll\<close> asks the radio only while a send is pending.\<close>

definition esp_poll :: "('c, 'l) esp_parts \<Rightarrow> esp_tick \<Rightarrow> ('c, 'l) esp_board \<Rightarrow> ('c, 'l) esp_board" where
  "esp_poll ep t b =
     (let lora = port_lora ep (eb_port b);
          b = (if cp_tx_pending (esp_proc b) then b\<lparr>eb_port := snd (lora_tx_done (np_chip ep) (np_traits ep) (eb_port b))\<rparr> else b)
      in esp_call ep t (with_processor (et_wifi t) (processor_poll lora (wt_millis (et_wifi t)))) b)"

definition esp_radio_loop :: "('c, 'l) esp_parts \<Rightarrow> esp_tick \<Rightarrow> ('c, 'l) esp_board \<Rightarrow> ('c, 'l) esp_board" where
  "esp_radio_loop ep t b =
     (let b = esp_poll ep t b; (got, p) = lora_receive (np_chip ep) (np_traits ep) (eb_port b); b = b\<lparr>eb_port := p\<rparr>
      in case got of
           None \<Rightarrow> b
         | Some (raw, rssi, snr) \<Rightarrow> esp_call ep t (with_processor (et_wifi t) (\<lambda>s. fst (on_packet_received rssi snr raw s))) b)"

subsection \<open>The whole\<close>

definition esp_delay :: "('c, 'l) esp_parts \<Rightarrow> ('c, 'l) esp_board \<Rightarrow> ('c, 'l) esp_board" where
  "esp_delay ep b = b\<lparr>eb_host := ha_delay (ep_host ep) (eb_host b)\<rparr>"

definition until_restart :: "(('c, 'l) esp_board \<Rightarrow> ('c, 'l) esp_board) \<Rightarrow> ('c, 'l) esp_board \<Rightarrow> ('c, 'l) esp_board" where
  "until_restart f b = (if eb_restarted b then b else f b)"

definition esp_loop :: "('c, 'l) esp_parts \<Rightarrow> esp_tick \<Rightarrow> ('c, 'l) esp_board \<Rightarrow> ('c, 'l) esp_board" where
  "esp_loop ep t b =
     fold until_restart [esp_usb_pump ep t, esp_ble_pump ep t, esp_wifi_pump ep t, esp_radio_loop ep t, esp_delay ep] b"

text \<open>
  \<open>setup\<close>.  \<open>boots\<close> is the boot count that was stored; what uninitialised memory, the radio chip and
  the BLE stack hold is an argument, \<open>bufs\<close> the arrays of the receive FIFOs.
\<close>

definition wifi_hostname :: "('c, 'l) esp_parts \<Rightarrow> byte list" where
  "wifi_hostname ep =
     (let suffix = mac_suffix (np_address ep) (replicate 5 0)
      in take 23 (map of_char ''meshpigeon-'' @ cstr suffix) @ [0])"

definition wifi_transport_new :: "command_processor \<Rightarrow> board_hooks \<Rightarrow> wifi_link \<Rightarrow> device_settings \<Rightarrow> wifi_transport" where
  "wifi_transport_new proc board link settings = \<lparr>wf_proc = proc, wf_board = board, wf_link = link, wf_settings = settings,
     wf_state = State_OFF, wf_hostname = replicate 24 0, wf_server = False, wf_server_up = False,
     wf_port = of_nat MESHPIGEON_WIFI_PORT_DEFAULT, wf_last_attempt_ms = 0, wf_backoff_ms = 0,
     wf_clients = replicate kMaxClients \<lparr>wc_reader = frame_reader_reset, wc_in_use = False, wc_broken = False\<rparr>,
     wf_num_clients = 0, wf_calls = []\<rparr>"

definition esp_setup :: "('c, 'l) esp_parts \<Rightarrow> esp_tick \<Rightarrow> nat \<Rightarrow> bool \<Rightarrow> u32 \<Rightarrow> memory_store \<Rightarrow> radio_settings
    \<Rightarrow> device_settings \<Rightarrow> meshpigeon_RadioToClient \<Rightarrow> byte list list \<Rightarrow> 'c \<Rightarrow> 'l \<Rightarrow> ('c, 'l) esp_board" where
  "esp_setup ep t kStoreBytes calloc_ok boots persist r d resp bufs c l =
     (let hooks = default_hooks\<lparr>hk_mac_suffix := mac_suffix (np_address ep), hk_fill_status := board_fill_status\<rparr>;
          proc = powered_on (boot_lora ep c) kStoreBytes calloc_ok (set_boot_count (boots + 1) uptime_clock_new) persist
            (kBoardName (np_board ep)) kFwVersion r d resp (Some hooks);
          b = fold (esp_event ep) (cp_trace proc)
            \<lparr>eb_wifi = wifi_transport_new proc hooks (et_link t) d, eb_ready = False, eb_conns = map connection_new bufs,
             eb_calls = [], eb_host = l, eb_usb_reader = frame_reader_reset, eb_usb_in = [], eb_usb_out = [],
             eb_port = \<lparr>lp_chip = c, lp_tx_started = False\<rparr>, eb_restarted = False\<rparr>;
          b = b\<lparr>eb_wifi := (eb_wifi b)\<lparr>wf_proc := fst (add_sink usb (esp_proc b))\<rparr>\<rparr>;
          b = put_ble (ble_begin (ble_of b)) b;
          b = put_ble (set_name (effective_name (esp_proc b)) (ble_of b)) b;
          b = esp_call ep t (wifi_begin (et_wifi t) (wifi_hostname ep)) b
      in esp_call ep t (wifi_apply (et_wifi t) (cp_device (esp_proc b))) b)"

section \<open>Steps\<close>

text \<open>
  The parts of \<open>loop\<close>, the bytes that arrive on the console and what happens to the radio chip, and
  the callbacks of the BLE host task on the links that are up.
\<close>

fun from_host :: "ble_event \<Rightarrow> bool" where
  "from_host (Link_Up h) = True"
| "from_host (Link_Down h) = True"
| "from_host (Subscribe h v) = True"
| "from_host (Write h v) = True"
| "from_host _ = False"

inductive esp_step :: "('c, 'l) esp_parts \<Rightarrow> ('c, 'l) esp_board \<times> u16 set \<Rightarrow> ('c, 'l) esp_board \<times> u16 set \<Rightarrow> bool" for ep where
  usb_pumped: "esp_step ep (b, links) (until_restart (esp_usb_pump ep t) b, links)"
| slot_pumped: "eb_ready b \<Longrightarrow> i < kMaxCentrals \<Longrightarrow> esp_step ep (b, links) (esp_pump_slot ep t i b, links)"
| wifi_pumped: "esp_step ep (b, links) (until_restart (esp_wifi_pump ep t) b, links)"
| radio_looped: "esp_step ep (b, links) (until_restart (esp_radio_loop ep t) b, links)"
| delayed: "esp_step ep (b, links) (until_restart (esp_delay ep) b, links)"
| arrived: "esp_step ep (b, links)
    (b\<lparr>eb_usb_in := eb_usb_in b @ bytes, eb_port := (eb_port b)\<lparr>lp_chip := chip (lp_chip (eb_port b))\<rparr>\<rparr>, links)"
| called_back: "w = \<lparr>bw_ble = ble_of b, bw_links = links\<rparr> \<Longrightarrow> from_host e \<Longrightarrow> ble_possible e w \<Longrightarrow>
    esp_step ep (b, links) (put_ble (bw_ble (ble_on e w)) b, bw_links (ble_on e w))"

inductive esp_reachable :: "('c, 'l) esp_parts \<Rightarrow> ('c, 'l) esp_board \<times> u16 set \<Rightarrow> bool" for ep where
  set_up: "store_bytes < 2 ^ 32 \<Longrightarrow> persisted_ok persist \<Longrightarrow> length bufs = kMaxCentrals \<Longrightarrow>
    (\<forall>buf \<in> set bufs. length buf = kRxFifoBytes) \<Longrightarrow>
    esp_reachable ep (esp_setup ep t store_bytes calloc_ok boots persist r d resp bufs c l, {})"
| stepped: "esp_reachable ep w \<Longrightarrow> esp_step ep w w' \<Longrightarrow> esp_reachable ep w'"

end
