(* ===== verification/EspParts.thy ===== *)
theory EspParts
  imports EspBoard
begin

text \<open>
  What the parts of the ESP32 board do to one another: the Wi-Fi transport only sends frames and never
  touches the clients of the others, the BLE slots only come and go in the client registry, and the
  events of a call leave the port, the name and the console as the core believes them to be.  From
  this follows the invariant of the whole board.
\<close>

section \<open>What the Wi-Fi transport does to the core\<close>

definition others_kept :: "sink \<Rightarrow> command_processor \<Rightarrow> command_processor \<Rightarrow> bool" where
  "others_kept k s t \<longleftrightarrow> (\<forall>j < tcp 0. count_list (cp_sinks t) j = count_list (cp_sinks s) j) \<and>
     set (cp_sinks t) \<subseteq> set (cp_sinks s) \<union> tcp ` {..<kMaxClients} \<and> (\<forall>j. cp_authenticated t j \<longrightarrow> j = k \<or> cp_authenticated s j)"

lemma others_kept_refl [simp]: "others_kept k s s"
  by (simp add: others_kept_def)

lemma others_kept_trans:
  assumes "others_kept k s t" "others_kept k t u"
  shows "others_kept k s u"
proof -
  have "set (cp_sinks u) \<subseteq> set (cp_sinks s) \<union> tcp ` {..<kMaxClients}" using assms unfolding others_kept_def by blast
  moreover have "\<forall>j. cp_authenticated u j \<longrightarrow> j = k \<or> cp_authenticated s j" using assms unfolding others_kept_def by blast
  ultimately show ?thesis using assms by (simp add: others_kept_def)
qed

lemma sessions_others: "sessions_kept k s t \<Longrightarrow> others_kept k s t"
  by (auto simp: sessions_kept_def others_kept_def)

definition answering :: "(byte list \<Rightarrow> byte list) \<Rightarrow> wifi_transport \<Rightarrow> bool" where
  "answering m w \<longleftrightarrow> hk_mac_suffix (wf_board w) = m \<and> (\<exists>h. cp_hooks (wf_proc w) = Some h \<and> hk_mac_suffix h = m)"

definition wifi_quiet :: "wifi_transport \<Rightarrow> wifi_transport \<Rightarrow> bool" where
  "wifi_quiet w v \<longleftrightarrow> (\<forall>m. answering m w \<longrightarrow> answering m v \<and> quiet (wf_proc w) (wf_proc v)) \<and>
     (\<forall>k. others_kept k (wf_proc w) (wf_proc v))"

lemma wifi_quiet_refl [simp]: "wifi_quiet w w"
  by (simp add: wifi_quiet_def)

lemma wifi_quiet_trans: "wifi_quiet w v \<Longrightarrow> wifi_quiet v u \<Longrightarrow> wifi_quiet w u"
  unfolding wifi_quiet_def using quiet_trans others_kept_trans by metis

lemma wifi_quiet_update [simp]:
  "wifi_quiet w (v\<lparr>wf_settings := a\<rparr>) = wifi_quiet w v" "wifi_quiet w (v\<lparr>wf_state := st\<rparr>) = wifi_quiet w v"
  "wifi_quiet w (v\<lparr>wf_hostname := h\<rparr>) = wifi_quiet w v" "wifi_quiet w (v\<lparr>wf_server := x\<rparr>) = wifi_quiet w v"
  "wifi_quiet w (v\<lparr>wf_server_up := x\<rparr>) = wifi_quiet w v" "wifi_quiet w (v\<lparr>wf_port := p\<rparr>) = wifi_quiet w v"
  "wifi_quiet w (v\<lparr>wf_last_attempt_ms := q\<rparr>) = wifi_quiet w v" "wifi_quiet w (v\<lparr>wf_backoff_ms := q\<rparr>) = wifi_quiet w v"
  "wifi_quiet w (v\<lparr>wf_num_clients := n\<rparr>) = wifi_quiet w v" "wifi_quiet w (v\<lparr>wf_clients := cs\<rparr>) = wifi_quiet w v"
  "wifi_quiet w (wifi_call c v) = wifi_quiet w v" "wifi_quiet w (set_client i f v) = wifi_quiet w v"
  by (simp_all add: wifi_quiet_def answering_def wifi_call_def set_client_def)

lemma wifi_quiet_cong: "wf_proc u = wf_proc v \<Longrightarrow> wf_board u = wf_board v \<Longrightarrow> wifi_quiet w u = wifi_quiet w v"
  by (simp add: wifi_quiet_def answering_def)

named_theorems quiet_intros \<open>what the Wi-Fi transport does sends frames and no more\<close>

text \<open>A call of the transport into the core.\<close>

definition answered_by :: "wifi_transport \<Rightarrow> command_processor" where
  "answered_by w = (wf_proc w)\<lparr>cp_hooks := Some (wifi_hooks w)\<rparr>"

lemma answered_by_simps [simp]:
  "cp_trace (answered_by w) = cp_trace (wf_proc w)" "cp_tx_pending (answered_by w) = cp_tx_pending (wf_proc w)"
  "cp_device (answered_by w) = cp_device (wf_proc w)" "cp_sinks (answered_by w) = cp_sinks (wf_proc w)"
  "cp_authenticated (answered_by w) = cp_authenticated (wf_proc w)" "cp_hooks (answered_by w) \<noteq> None"
  by (simp_all add: answered_by_def)

lemma answered_by_name: "answering m w \<Longrightarrow> effective_name (answered_by w) = effective_name (wf_proc w)"
  by (auto simp: answering_def answered_by_def wifi_hooks_def intro: effective_name_hooks)

lemma with_processor_answered:
  "wf_proc (with_processor t f w) = f (answered_by w)" "wf_board (with_processor t f w) = wf_board w"
  by (simp_all add: with_processor_def answered_by_def Let_def)

lemma answering_processor:
  "answering m w \<Longrightarrow> cp_hooks (f (answered_by w)) = cp_hooks (answered_by w) \<Longrightarrow> answering m (with_processor t f w)"
  by (simp add: answering_def with_processor_answered) (simp add: answered_by_def wifi_hooks_def)

lemma processor_quiet [quiet_intros]:
  assumes "wifi_quiet w v" "\<And>s. only_frames s (f s)" "\<And>k s. sessions_kept k s (f s)"
  shows "wifi_quiet w (with_processor t f v)"
proof (rule wifi_quiet_trans [OF assms(1)])
  have hooks: "cp_hooks (f s) = cp_hooks s" for s using assms(2) [of s] by (simp add: only_frames_def)
  have "quiet (wf_proc v) (f (answered_by v))" if "answering m v" for m
    using only_frames_quiet [OF assms(2), of "answered_by v"] answered_by_name [OF that] by (simp add: quiet_def)
  moreover have "others_kept k (wf_proc v) (f (answered_by v))" for k
    using sessions_others [OF assms(3), of k "answered_by v"] by (simp add: others_kept_def)
  ultimately show "wifi_quiet v (with_processor t f v)"
    unfolding wifi_quiet_def with_processor_answered(1) using answering_processor [of _ v f t] hooks by blast
qed

lemma set_state_quiet [quiet_intros]: "wifi_quiet w v \<Longrightarrow> wifi_quiet w (set_state t st v)"
  unfolding set_state_def
  by (auto intro!: processor_quiet kept_wifi) (simp add: say_simps only_frames_say)

text \<open>What only takes a slot in or out of the registry.\<close>

lemma proc_quiet:
  assumes "wifi_quiet w v" "cp_trace p = cp_trace (wf_proc v)" "cp_tx_pending p = cp_tx_pending (wf_proc v)"
    and "cp_device p = cp_device (wf_proc v)" "cp_hooks p = cp_hooks (wf_proc v)"
    and "\<And>k. others_kept k (wf_proc v) p"
  shows "wifi_quiet w (v\<lparr>wf_proc := p\<rparr>)"
  using assms(2-6) effective_name_cong [OF assms(4,5)]
  by (intro wifi_quiet_trans [OF assms(1)]) (simp add: wifi_quiet_def answering_def quiet_def)

lemma drop_client_quiet [quiet_intros]:
  assumes "wifi_quiet w v"
  shows "wifi_quiet w (drop_client i v)"
proof -
  have "others_kept k s (remove_sink (tcp i) s)" for k s
    using set_remove1_subset [of "tcp i" "cp_sinks s"] by (auto simp: others_kept_def remove_sink_def count_remove1_nat tcp_def)
  then have "wifi_quiet w (v\<lparr>wf_proc := remove_sink (tcp i) (wf_proc v)\<rparr>)"
    by (intro proc_quiet [OF assms]) (simp_all add: remove_sink_def)
  then show ?thesis using assms by (simp add: drop_client_def)
qed

lemma fold_drop_quiet [quiet_intros]: "wifi_quiet w v \<Longrightarrow> wifi_quiet w (fold drop_client xs v)"
  by (induction xs arbitrary: v) (simp_all add: drop_client_quiet)

lemma stop_server_quiet [quiet_intros]: "wifi_quiet w v \<Longrightarrow> wifi_quiet w (stop_server v)"
  by (simp add: stop_server_def Let_def fold_drop_quiet)

lemma start_server_quiet [quiet_intros]: "wifi_quiet w v \<Longrightarrow> wifi_quiet w (start_server t v)"
  by (simp add: start_server_def Let_def stop_server_quiet)

lemma wifi_apply_quiet [quiet_intros]: "wifi_quiet w v \<Longrightarrow> wifi_quiet w (wifi_apply t d v)"
  by (simp add: wifi_apply_def wifi_disconnect_def connect_start_def begin_link_def Let_def quiet_intros)

lemma wifi_begin_quiet [quiet_intros]: "wifi_quiet w v \<Longrightarrow> wifi_quiet w (wifi_begin t h v)"
  by (simp add: wifi_begin_def Let_def quiet_intros)

lemma drive_link_quiet [quiet_intros]: "wifi_quiet w v \<Longrightarrow> wifi_quiet w (drive_link t v)"
  by (simp add: drive_link_def begin_link_def Let_def quiet_intros)

lemma accept_clients_board: "wf_board (accept_clients t v) = wf_board v"
  by (simp add: accept_clients_def wifi_call_def set_client_def Let_def split: option.split prod.split bool.split)

lemma accept_clients_quiet [quiet_intros]:
  assumes "wifi_quiet w v"
  shows "wifi_quiet w (accept_clients t v)"
proof -
  have add: "wifi_quiet w (v\<lparr>wf_proc := fst (add_sink (tcp i) ((wf_proc v)\<lparr>cp_authenticated := (cp_authenticated (wf_proc v))(tcp i := False)\<rparr>))\<rparr>)"
    if "i < kMaxClients" for i
  proof (rule proc_quiet [OF assms])
    have "tcp i \<in> tcp ` {..<kMaxClients}" "\<not> tcp i < tcp 0" using that by (auto simp: tcp_def)
    then show "others_kept k (wf_proc v) (fst (add_sink (tcp i) ((wf_proc v)\<lparr>cp_authenticated := (cp_authenticated (wf_proc v))(tcp i := False)\<rparr>)))" for k
      by (auto simp: others_kept_def add_sink_def)
  qed (simp_all add: add_sink_def)
  show ?thesis
  proof (cases "List.find (\<lambda>i. \<not> wc_in_use (wf_clients v ! i)) [0..<kMaxClients]")
    case None
    then show ?thesis using assms by (simp add: accept_clients_def)
  next
    case (Some i)
    then have "i < kMaxClients" by (auto simp: find_Some_iff)
    note base = add [OF this]
    obtain q ok where q: "add_sink (tcp i) ((wf_proc v)\<lparr>cp_authenticated := (cp_authenticated (wf_proc v))(tcp i := False)\<rparr>) = (q, ok)"
      by (metis surj_pair)
    show ?thesis
    proof (cases "wf_proc (accept_clients t v) = wf_proc v")
      case True
      then show ?thesis
        using assms by (subst wifi_quiet_cong [of _ v]) (simp_all add: accept_clients_board)
    next
      case False
      then have "wf_proc (accept_clients t v) = q"
        using Some q by (auto simp: accept_clients_def Let_def split: if_splits bool.splits)
      then show ?thesis
        using base q by (subst wifi_quiet_cong [of _ "v\<lparr>wf_proc := q\<rparr>"]) (simp_all add: accept_clients_board)
    qed
  qed
qed

subsection \<open>Envelopes\<close>

lemma told_answered: "answering m w \<Longrightarrow> told np p (answered_by w) t \<Longrightarrow> told np p (wf_proc w) t"
  using answered_by_name by (simp add: told_def)

lemma told_then_wifi_quiet:
  assumes "told np p s (wf_proc w)" "answering m w" "wifi_quiet w v"
  shows "told np p s (wf_proc v)" "answering m v"
proof -
  have "quiet (wf_proc w) (wf_proc v)" "answering m v" using assms(2,3) unfolding wifi_quiet_def by blast+
  then show "told np p s (wf_proc v)" "answering m v" using told_then_quiet [OF assms(1)] by simp_all
qed

lemma announce_quiet: "wifi_quiet w (with_processor t (announce_device_settings rid k) w)"
  by (rule processor_quiet [OF wifi_quiet_refl]) (simp_all add: announce_device_settings_def say_simps only_frames_say)

lemma wifi_envelope_told:
  fixes np :: "('c, 'z) board_parts_scheme" and t :: wifi_tick and k :: sink and env :: "byte list"
  assumes m: "answering m w" and p: "lp_tx_started p = cp_tx_pending (wf_proc w)"
  defines "v \<equiv> wifi_on_envelope (port_lora np p) t k w env"
  shows "told np p (wf_proc w) (wf_proc v)" "answering m v" "others_kept k (wf_proc w) (wf_proc v)"
proof -
  have p': "lp_tx_started p = cp_tx_pending (answered_by w)" using p by simp
  have "told np p (wf_proc w) (wf_proc v) \<and> answering m v \<and> others_kept k (wf_proc w) (wf_proc v)"
  proof (cases "settings_update env k (answered_by w)")
    case None
    let ?f = "on_envelope (port_lora np p) env (Some k)"
    have v: "v = with_processor t ?f w" using None by (simp add: v_def wifi_on_envelope_def answered_by_def)
    have "told np p (answered_by w) (?f (answered_by w))"
      by (simp add: on_envelope_def told_request [OF p'] told_frames p split: option.split)
    moreover have "cp_hooks (?f s) = cp_hooks s" for s by (simp add: on_envelope_def hooks_request split: option.split)
    moreover have "others_kept k (wf_proc w) (?f (answered_by w))"
      using sessions_others [OF kept_envelope, of k "answered_by w"] by (simp add: others_kept_def)
    ultimately show ?thesis
      using told_answered [OF m] answering_processor [OF m, of ?f] unfolding v with_processor_answered(1) by blast
  next
    case (Some r)
    obtain rid msg where r: "r = (rid, msg)" by (metis surj_pair)
    define u where "u = with_processor t (store_device_settings msg k) w"
    have u: "wf_proc u = rewritten msg k (answered_by w)" by (simp add: u_def answered_by_def store_rewritten)
    have "cp_hooks (store_device_settings msg k s) = cp_hooks s" for s by (simp add: store_rewritten rewritten_def Let_def)
    then have mu: "answering m u" unfolding u_def by (rule answering_processor [OF m])
    have told_u: "told np p (wf_proc w) (wf_proc u)"
      unfolding u by (rule told_answered [OF m]) (rule told_rewritten [OF p'], simp)
    have kept_u: "others_kept k (wf_proc w) (wf_proc u)"
      using sessions_others [OF kept_rewritten, of k "answered_by w" msg] by (simp add: u others_kept_def)
    let ?u = "if wifi_touched msg then wifi_apply t (cp_device (wf_proc u)) u else u"
    have v: "v = with_processor t (announce_device_settings rid k) ?u"
      using Some by (simp add: v_def wifi_on_envelope_def r u_def answered_by_def Let_def)
    have "wifi_quiet u ?u" by (simp add: wifi_apply_quiet)
    then have "wifi_quiet u v" using announce_quiet wifi_quiet_trans unfolding v by blast
    then show ?thesis
      using told_then_wifi_quiet [OF told_u mu] others_kept_trans [OF kept_u] unfolding wifi_quiet_def by blast
  qed
  then show "told np p (wf_proc w) (wf_proc v)" "answering m v" "others_kept k (wf_proc w) (wf_proc v)" by blast+
qed

section \<open>What a call does to the board\<close>

lemma ble_of_simps [simp]:
  "ble_of (put_ble s b) = s" "esp_proc (put_ble s b) = bs_proc s" "eb_wifi (put_ble s b) = (eb_wifi b)\<lparr>wf_proc := bs_proc s\<rparr>"
  "eb_ready (put_ble s b) = bs_ready s" "eb_conns (put_ble s b) = bs_conns s" "eb_calls (put_ble s b) = bs_calls s"
  "eb_host (put_ble s b) = eb_host b" "eb_usb_out (put_ble s b) = eb_usb_out b" "eb_port (put_ble s b) = eb_port b"
  "eb_restarted (put_ble s b) = eb_restarted b"
  "bs_conns (ble_of b) = eb_conns b" "bs_proc (ble_of b) = esp_proc b" "bs_ready (ble_of b) = eb_ready b" "bs_calls (ble_of b) = eb_calls b"
  "esp_proc (b\<lparr>eb_wifi := w\<rparr>) = wf_proc w"
  by (simp_all add: ble_of_def put_ble_def esp_proc_def)

lemma same_proc [simp]: "(w::wifi_transport)\<lparr>wf_proc := wf_proc w\<rparr> = w"
  by simp

fun named_by :: "ble_call \<Rightarrow> byte list \<Rightarrow> byte list" where
  "named_by (Set_Advertised_Name name) n = name"
| "named_by _ n = n"

text \<open>The name that is advertised.\<close>

definition advertised :: "ble_call list \<Rightarrow> byte list" where
  "advertised cs = fold named_by cs []"

lemma set_conn_calls [simp]: "bs_calls (set_conn i f s) = bs_calls s"
  by (simp add: set_conn_def)

lemma set_name_effect:
  "bs_conns (set_name n s) = bs_conns s" "bs_proc (set_name n s) = bs_proc s" "bs_ready (set_name n s) = bs_ready s"
  "bs_ready s \<Longrightarrow> advertised (bs_calls (set_name n s)) = n"
  by (simp_all add: set_name_def ble_call_def advertised_def)

lemma esp_events_ended [simp]: "eb_restarted b \<Longrightarrow> fold (esp_event ep) es b = b"
  by (induction es) (simp_all add: esp_event_def)

lemma esp_events_effect:
  fixes ep :: "('c, 'l) esp_parts" and b :: "('c, 'l) esp_board"
  defines "v \<equiv> \<lambda>es b. fold (esp_event ep) es b"
  assumes "eb_ready b" "\<not> eb_restarted b"
  shows "eb_wifi (v es b) = eb_wifi b \<and> eb_conns (v es b) = eb_conns b \<and> eb_ready (v es b) \<and>
    (\<not> eb_restarted (v es b) \<longrightarrow> \<not> list_ex restart es \<and> eb_port (v es b) = fold (port_call ep) es (eb_port b) \<and>
       advertised (eb_calls (v es b)) = fold renamed es (advertised (eb_calls b)) \<and> eb_usb_out (v es b) = eb_usb_out b @ console es)"
  using assms(2,3) unfolding v_def
proof (induction es arbitrary: b)
  case (Cons e es)
  let ?u = "esp_event ep e b"
  show ?case
  proof (cases "restart e")
    case True
    then have "?u = esp_reboot_now ep b" using Cons.prems by (auto simp: esp_event_def restart_def)
    then show ?thesis using Cons.prems by (simp add: esp_reboot_now_def)
  next
    case False
    then have u: "\<not> eb_restarted ?u" "eb_ready ?u" "eb_wifi ?u = eb_wifi b" "eb_conns ?u = eb_conns b" "eb_port ?u = port_call ep e (eb_port b)"
      "advertised (eb_calls ?u) = renamed e (advertised (eb_calls b))" "eb_usb_out ?u = eb_usb_out b @ console [e]"
      using Cons.prems by (cases e; simp add: esp_event_def restart_def set_name_effect esp_proc_def)+
    have "console (e # es) = console [e] @ console es" using console_append [of "[e]" es] by simp
    with Cons.IH [OF u(2,1)] u False show ?thesis by simp
  qed
qed simp

section \<open>The invariant\<close>

definition linked :: "ble_sink \<Rightarrow> u16 set \<Rightarrow> nat \<Rightarrow> bool" where
  "linked s links i \<longleftrightarrow> cn_handle (bs_conns s ! i) \<in> links \<and> find_conn (cn_handle (bs_conns s ! i)) s = Some i"

definition esp_agrees :: "('c, 'l) esp_parts \<Rightarrow> ('c, 'l) esp_board \<Rightarrow> bool" where
  "esp_agrees ep b \<longleftrightarrow> answering (mac_suffix (np_address ep)) (eb_wifi b) \<and>
     count_list (cp_sinks (esp_proc b)) usb = 1 \<and> set (cp_sinks (esp_proc b)) \<subseteq> {..<kMaxSinks} \<and>
     (\<not> eb_restarted b \<longrightarrow> advertised (eb_calls b) = effective_name (esp_proc b) \<and>
        eb_usb_out b = console (cp_trace (esp_proc b)))"

definition esp_ok :: "('c, 'l) esp_parts \<Rightarrow> ('c, 'l) esp_board \<Rightarrow> u16 set \<Rightarrow> bool" where
  "esp_ok ep b links \<longleftrightarrow> ble_inv \<lparr>bw_ble = ble_of b, bw_links = links\<rparr> \<and> wifi_ok (eb_wifi b) \<and> esp_agrees ep b \<and>
     (\<not> eb_restarted b \<longrightarrow> lp_tx_started (eb_port b) = cp_tx_pending (esp_proc b))"

lemma ble_inv_board:
  "ble_inv \<lparr>bw_ble = s, bw_links = links\<rparr> \<longleftrightarrow>
     length (bs_conns s) = kMaxCentrals \<and> bs_ready s \<and> (\<forall>i < kMaxCentrals. slot_ok s links i)"
  by (simp add: ble_inv_def)

subsection \<open>Slots and the core\<close>

lemma below_tcp [simp]: "usb < tcp 0" "i < kMaxCentrals \<Longrightarrow> central i < tcp 0" "usb \<noteq> central i" "usb \<noteq> tcp i" "central i \<noteq> usb" "tcp i \<noteq> usb"
  "i < kMaxCentrals \<Longrightarrow> tcp j \<noteq> central i"
  by (simp_all add: usb_def tcp_def central_def kMaxCentrals_def)

lemma slots_ok_core:
  assumes "\<forall>i < kMaxCentrals. slot_ok s links i" "bs_conns s' = bs_conns s" "others_kept k (bs_proc s) (bs_proc s')"
    and "\<And>i. i < kMaxCentrals \<Longrightarrow> k = central i \<Longrightarrow> linked s links i"
  shows "\<forall>i < kMaxCentrals. slot_ok s' links i"
proof (intro allI impI)
  fix i assume i: "i < kMaxCentrals"
  have find: "find_conn h s' = find_conn h s" for h by (simp add: find_conn_def assms(2))
  have ok: "slot_ok s links i" using assms(1) i by blast
  have n: "count_list (cp_sinks (bs_proc s')) (central i) = count_list (cp_sinks (bs_proc s)) (central i)"
    using assms(3) i by (simp add: others_kept_def)
  show "slot_ok s' links i"
  proof (cases "k = central i")
    case True
    then show ?thesis using ok n find assms(2) assms(4) [OF i True] by (simp add: slot_ok_def linked_def Let_def)
  next
    case False
    then show ?thesis
      using find assms(2,3) n by (intro slot_ok_frame [OF ok]) (auto simp: others_kept_def)
  qed
qed

subsection \<open>Calls into the core\<close>

definition esp_asks :: "('c, 'l) esp_parts \<Rightarrow> esp_tick \<Rightarrow> ('c, 'l) esp_board \<Rightarrow> wifi_transport" where
  "esp_asks ep t b = (eb_wifi b)\<lparr>wf_board := esp_hooks ep t b, wf_link := et_link t\<rparr>"

lemma esp_asks_simps [simp]:
  "wf_proc (esp_asks ep t b) = esp_proc b" "wifi_ok (esp_asks ep t b) = wifi_ok (eb_wifi b)"
  by (simp_all add: esp_asks_def esp_proc_def wifi_ok_def wifi_inv_def slots_ok_def usable_def)

lemma answering_asks: "answering (mac_suffix (np_address ep)) (eb_wifi b) \<Longrightarrow> answering (mac_suffix (np_address ep)) (esp_asks ep t b)"
  by (simp add: answering_def esp_asks_def esp_hooks_def)

lemma esp_call_is:
  "\<not> eb_restarted b \<Longrightarrow> esp_call ep t f b =
     fold (esp_event ep) (drop (length (cp_trace (esp_proc b))) (cp_trace (wf_proc (f (esp_asks ep t b))))) (b\<lparr>eb_wifi := f (esp_asks ep t b)\<rparr>)"
  by (simp add: esp_call_def esp_asks_def [symmetric] Let_def)

lemma esp_call_ok:
  assumes ble: "ble_inv \<lparr>bw_ble = ble_of b, bw_links = links\<rparr>" and ok: "esp_agrees ep b"
    and wifi: "eb_restarted b \<Longrightarrow> wifi_ok (eb_wifi b)"
    and f: "\<not> eb_restarted b \<Longrightarrow> wifi_ok (f (esp_asks ep t b))"
      "\<not> eb_restarted b \<Longrightarrow> told ep (eb_port b) (esp_proc b) (wf_proc (f (esp_asks ep t b)))"
      "\<not> eb_restarted b \<Longrightarrow> answering (mac_suffix (np_address ep)) (f (esp_asks ep t b))"
      "\<not> eb_restarted b \<Longrightarrow> others_kept k (esp_proc b) (wf_proc (f (esp_asks ep t b)))"
    and k: "\<And>i. i < kMaxCentrals \<Longrightarrow> k = central i \<Longrightarrow> linked (ble_of b) links i"
  shows "esp_ok ep (esp_call ep t f b) links" "eb_conns (esp_call ep t f b) = eb_conns b"
proof -
  have "esp_ok ep (esp_call ep t f b) links \<and> eb_conns (esp_call ep t f b) = eb_conns b"
  proof (cases "eb_restarted b")
    case True
    then show ?thesis using ble ok wifi by (simp add: esp_call_def esp_ok_def)
  next
    case False
    define w where "w = f (esp_asks ep t b)"
    note f = f [OF False, folded w_def]
    obtain es where es: "cp_trace (wf_proc w) = cp_trace (esp_proc b) @ es"
      "list_ex restart es \<or> lp_tx_started (fold (port_call ep) es (eb_port b)) = cp_tx_pending (wf_proc w) \<and>
         fold renamed es (effective_name (esp_proc b)) = effective_name (wf_proc w)"
      using f(2) unfolding told_def by blast
    define v where "v = esp_call ep t f b"
    have v: "v = fold (esp_event ep) es (b\<lparr>eb_wifi := w\<rparr>)" by (simp add: v_def esp_call_is [OF False] w_def [symmetric] es(1))
    have ready: "eb_ready b" using ble by (simp add: ble_inv_board)
    note eff = esp_events_effect [of "b\<lparr>eb_wifi := w\<rparr>" ep es, folded v]
    have fields: "eb_wifi v = w" "eb_conns v = eb_conns b" "eb_ready v" "esp_proc v = wf_proc w"
      using eff ready False by (simp_all add: esp_proc_def)
    have "\<forall>i < kMaxCentrals. slot_ok (ble_of v) links i"
      by (rule slots_ok_core [where s = "ble_of b" and k = k]) (use ble fields f(4) k in \<open>simp_all add: ble_inv_board\<close>)
    then have "ble_inv \<lparr>bw_ble = ble_of v, bw_links = links\<rparr>" using ble fields by (simp add: ble_inv_board)
    moreover have "count_list (cp_sinks (wf_proc w)) usb = 1" "set (cp_sinks (wf_proc w)) \<subseteq> {..<kMaxSinks}"
    proof -
      show "count_list (cp_sinks (wf_proc w)) usb = 1" using f(4) ok by (simp add: others_kept_def esp_agrees_def)
      have "tcp ` {..<kMaxClients} \<subseteq> {..<kMaxSinks}" by (auto simp: tcp_def kMaxClients_def kMaxSinks_def)
      then show "set (cp_sinks (wf_proc w)) \<subseteq> {..<kMaxSinks}" using f(4) ok unfolding others_kept_def esp_agrees_def by blast
    qed
    ultimately show ?thesis
      using eff ready False fields f(1,3) es ok
      by (auto simp: esp_ok_def esp_agrees_def v_def [symmetric] console_append)
  qed
  then show "esp_ok ep (esp_call ep t f b) links" "eb_conns (esp_call ep t f b) = eb_conns b" by blast+
qed

lemma esp_ok_agrees: "esp_ok ep b links \<Longrightarrow> esp_agrees ep b" "esp_ok ep b links \<Longrightarrow> ble_inv \<lparr>bw_ble = ble_of b, bw_links = links\<rparr>"
  "esp_ok ep b links \<Longrightarrow> wifi_ok (eb_wifi b)"
  by (simp_all add: esp_ok_def)

lemma esp_call_quiet:
  assumes ok: "esp_ok ep b links" and f: "wifi_ok (f (esp_asks ep t b))" "\<And>w. wifi_quiet w (f w)"
  shows "esp_ok ep (esp_call ep t f b) links"
proof (rule esp_call_ok(1) [where k = usb])
  have m: "answering (mac_suffix (np_address ep)) (esp_asks ep t b)" using ok by (intro answering_asks) (simp add: esp_ok_def esp_agrees_def)
  then have "quiet (esp_proc b) (wf_proc (f (esp_asks ep t b)))" "answering (mac_suffix (np_address ep)) (f (esp_asks ep t b))"
    "others_kept usb (esp_proc b) (wf_proc (f (esp_asks ep t b)))"
    using f(2) [of "esp_asks ep t b"] unfolding wifi_quiet_def esp_asks_simps(1) by blast+
  then show "\<not> eb_restarted b \<Longrightarrow> told ep (eb_port b) (esp_proc b) (wf_proc (f (esp_asks ep t b)))"
    "answering (mac_suffix (np_address ep)) (f (esp_asks ep t b))" "others_kept usb (esp_proc b) (wf_proc (f (esp_asks ep t b)))"
    using ok by (auto simp: esp_ok_def intro: told_quiet)
qed (use ok f(1) in \<open>simp_all add: esp_ok_def\<close>)

lemma esp_envelope_ok:
  assumes ok: "esp_ok ep b links" and k: "\<And>i. i < kMaxCentrals \<Longrightarrow> k = central i \<Longrightarrow> linked (ble_of b) links i"
  shows "esp_ok ep (esp_envelope ep t k b env) links" "eb_conns (esp_envelope ep t k b env) = eb_conns b"
proof -
  let ?f = "\<lambda>w. wifi_on_envelope (port_lora ep (eb_port b)) (et_wifi t) k w env"
  have m: "answering (mac_suffix (np_address ep)) (esp_asks ep t b)" using ok by (intro answering_asks) (simp add: esp_ok_def esp_agrees_def)
  have wifi: "wifi_ok (?f (esp_asks ep t b))" using ok by (intro wifi_on_envelope_ok) (simp add: esp_ok_def esp_agrees_def)
  have p: "lp_tx_started (eb_port b) = cp_tx_pending (wf_proc (esp_asks ep t b))" if "\<not> eb_restarted b"
    using ok that by (simp add: esp_ok_def)
  note told = wifi_envelope_told [OF m p, where k = k and env = env and t = "et_wifi t", unfolded esp_asks_simps(1)]
  show "esp_ok ep (esp_envelope ep t k b env) links" "eb_conns (esp_envelope ep t k b env) = eb_conns b"
    unfolding esp_envelope_def
    by (rule esp_call_ok [where k = k and f = ?f, OF esp_ok_agrees(2,1,3) [OF ok] wifi told k]; assumption)+
qed

lemma esp_ok_update [simp]:
  "esp_ok ep (b\<lparr>eb_usb_reader := r, eb_usb_in := xs\<rparr>) links = esp_ok ep b links"
  "esp_ok ep (b\<lparr>eb_host := l\<rparr>) links = esp_ok ep b links"
  by (simp_all add: esp_ok_def esp_agrees_def ble_of_def esp_proc_def)

lemma esp_drain_ok:
  assumes "esp_ok ep b links" "\<And>i. i < kMaxCentrals \<Longrightarrow> k = central i \<Longrightarrow> linked (ble_of b) links i"
  shows "let b' = fst (snd (drain_loop n (esp_envelope ep t k) reader b src)) in esp_ok ep b' links \<and> eb_conns b' = eb_conns b"
  unfolding Let_def
proof (rule drain_loop_keeps [where P = "\<lambda>v. esp_ok ep v links \<and> eb_conns v = eb_conns b"])
  fix v env assume v: "esp_ok ep v links \<and> eb_conns v = eb_conns b"
  have "linked (ble_of v) links i" if "i < kMaxCentrals" "k = central i" for i
    using assms(2) [OF that] v by (simp add: linked_def find_conn_def)
  then show "esp_ok ep (esp_envelope ep t k v env) links \<and> eb_conns (esp_envelope ep t k v env) = eb_conns b"
    using esp_envelope_ok [of ep v links k t env] v by simp
qed (use assms in simp)

section \<open>The parts of the loop\<close>

lemma esp_usb_ok:
  assumes "esp_ok ep b links"
  shows "esp_ok ep (esp_usb_pump ep t b) links"
proof -
  obtain reader v rx where d: "drain_frames (esp_envelope ep t usb) (eb_usb_reader b) b (eb_usb_in b) = (reader, v, rx)" by (metis surj_pair)
  have "esp_ok ep v links"
    using esp_drain_ok [OF assms, of usb FRAME_MAX_DRAIN_BYTES_PER_PUMP t "eb_usb_reader b" "eb_usb_in b"] d
    by (simp add: drain_frames_def)
  then show ?thesis by (simp add: esp_usb_pump_def d)
qed

subsection \<open>BLE\<close>

text \<open>What the BLE transport does to the core outside an envelope: slots come and go, sessions end.\<close>

definition slots_only :: "command_processor \<Rightarrow> command_processor \<Rightarrow> bool" where
  "slots_only s t \<longleftrightarrow> cp_trace t = cp_trace s \<and> cp_tx_pending t = cp_tx_pending s \<and> cp_device t = cp_device s \<and> cp_hooks t = cp_hooks s \<and>
     (\<forall>j. \<not> is_central j \<longrightarrow> count_list (cp_sinks t) j = count_list (cp_sinks s) j) \<and>
     set (cp_sinks t) \<subseteq> set (cp_sinks s) \<union> {j. is_central j}"

lemma wifi_ok_slots:
  assumes "wifi_ok w" "slots_only (wf_proc w) p"
  shows "wifi_ok (w\<lparr>wf_proc := p\<rparr>)"
proof -
  have inv: "wifi_inv w" "slots_ok w" using assms(1) by (simp_all add: wifi_ok_def wifi_inv_def)
  have "\<not> is_central (tcp i)" for i by (simp add: is_central_def tcp_def kMaxCentrals_def)
  then have "slots_ok (w\<lparr>wf_proc := p\<rparr>)" using assms(2) by (intro slots_ok_cong [OF inv(2)]) (simp_all add: slots_only_def)
  then have "wifi_inv (w\<lparr>wf_proc := p\<rparr>)" by (rule wifi_inv_clients(1) [OF inv(1)]) (simp_all add: link_of_def)
  then show ?thesis using assms by (simp add: wifi_ok_def slots_only_def)
qed

lemma esp_put_ble_ok:
  assumes "esp_ok ep b links" "ble_inv \<lparr>bw_ble = s, bw_links = links'\<rparr>" "slots_only (esp_proc b) (bs_proc s)"
    and "advertised (bs_calls s) = advertised (eb_calls b)"
  shows "esp_ok ep (put_ble s b) links'"
proof -
  have "\<not> is_central usb" "{j. is_central j} \<subseteq> {..<kMaxSinks}"
    by (auto simp: is_central_def usb_def kMaxCentrals_def kMaxSinks_def)
  moreover have "effective_name (bs_proc s) = effective_name (esp_proc b)"
    using assms(3) by (intro effective_name_cong) (simp_all add: slots_only_def)
  moreover have "wifi_ok ((eb_wifi b)\<lparr>wf_proc := bs_proc s\<rparr>)"
    using assms(1,3) by (intro wifi_ok_slots) (simp_all add: esp_ok_def esp_agrees_def esp_proc_def)
  moreover have "answering m ((eb_wifi b)\<lparr>wf_proc := bs_proc s\<rparr>) = answering m (eb_wifi b)" for m
    using assms(3) by (simp add: answering_def slots_only_def esp_proc_def)
  ultimately show ?thesis
    using assms by (auto simp: esp_ok_def esp_agrees_def slots_only_def)
qed

lemma slot_admit_slots:
  assumes "i < kMaxCentrals"
  shows "slots_only (bs_proc s) (bs_proc (fst (slot_admit i s)))" "advertised (bs_calls (fst (slot_admit i s))) = advertised (bs_calls s)"
proof -
  have c: "is_central (central i)" using assms by simp
  have "slots_only p (remove_sink (central i) p)" for p
    using set_remove1_subset [of "central i" "cp_sinks p"] c by (auto simp: slots_only_def remove_sink_def count_remove1)
  moreover have "slots_only p (fst (add_sink (central i) p))" for p
    using c by (auto simp: slots_only_def add_sink_def)
  moreover have "slots_only p p" for p by (simp add: slots_only_def)
  ultimately show "slots_only (bs_proc s) (bs_proc (fst (slot_admit i s)))"
    by (simp add: slot_admit_def Let_def split: prod.split bool.split) (metis fst_conv)
  show "advertised (bs_calls (fst (slot_admit i s))) = advertised (bs_calls s)"
    by (simp add: slot_admit_def Let_def ble_call_def set_conn_def advertised_def split: prod.split bool.split)
qed

lemma drained_slots:
  assumes "\<forall>j < kMaxCentrals. slot_ok s links j" "length (bs_conns s) = kMaxCentrals" "i < kMaxCentrals" "rf_inv rx"
    and "linked s links i \<or> rf_list rx = [] \<and> reader = frame_reader_reset \<and> \<not> cp_authenticated (bs_proc s) (central i)"
  shows "\<forall>j < kMaxCentrals. slot_ok (set_conn i (\<lambda>c. c\<lparr>cn_reader := reader, cn_rx := rx\<rparr>) s) links j"
  by (rule slots_ok_set [OF assms(1-3)])
     (use assms(2-5) in \<open>auto simp: slot_ok_def linked_def idle_conn_def find_set_reader Let_def\<close>)

lemma esp_drain_conn_ok:
  assumes ok: "esp_ok ep b links" and i: "i < kMaxCentrals" "cn_in_use (eb_conns b ! i)" "\<not> cn_pending_disconnect (eb_conns b ! i)"
  shows "esp_ok ep (esp_drain_conn ep t i b) links"
proof -
  let ?c = "eb_conns b ! i" and ?f = "esp_envelope ep t (central i)"
  let ?d = "drain_loop FRAME_MAX_DRAIN_BYTES_PER_PUMP ?f (cn_reader ?c) b (rf_list (cn_rx ?c))"
  have slots: "length (eb_conns b) = kMaxCentrals" "slot_ok (ble_of b) links i" using ok i(1) by (simp_all add: esp_ok_def ble_inv_board)
  then have "rf_inv (cn_rx ?c)" by (simp add: slot_ok_def Let_def)
  then obtain rx where rx: "drain_source rf_available rf_read FRAME_MAX_DRAIN_BYTES_PER_PUMP ?f (cn_reader ?c) b (cn_rx ?c)
      = (fst ?d, fst (snd ?d), rx)" "rf_inv rx" "rf_list rx = snd (snd ?d)"
    using rx.drain_contents [of "cn_rx ?c" FRAME_MAX_DRAIN_BYTES_PER_PUMP ?f "cn_reader ?c" b] by blast
  define v where "v = fst (snd ?d)"
  have pump: "esp_drain_conn ep t i b = put_ble (set_conn i (\<lambda>c. c\<lparr>cn_reader := fst ?d, cn_rx := rx\<rparr>) (ble_of v)) v"
    by (simp add: esp_drain_conn_def rx(1) v_def Let_def)
  have v: "esp_ok ep v links \<and> eb_conns v = eb_conns b \<and>
      (linked (ble_of v) links i \<or> rf_list rx = [] \<and> fst ?d = frame_reader_reset \<and> \<not> cp_authenticated (bs_proc (ble_of v)) (central i))"
  proof (cases "linked (ble_of b) links i")
    case True
    then have "esp_ok ep v links \<and> eb_conns v = eb_conns b"
      unfolding v_def by (intro esp_drain_ok [unfolded Let_def, OF ok]) simp
    then show ?thesis using True by (simp add: linked_def find_conn_def)
  next
    case False
    then have "idle_conn ?c (cp_authenticated (esp_proc b) (central i))" using slots(2) i by (auto simp: slot_ok_def linked_def Let_def)
    then show ?thesis using ok rx(3) by (simp add: v_def idle_conn_def)
  qed
  have "\<forall>j < kMaxCentrals. slot_ok (set_conn i (\<lambda>c. c\<lparr>cn_reader := fst ?d, cn_rx := rx\<rparr>) (ble_of v)) links j"
  proof (rule drained_slots [OF _ _ i(1) rx(2)])
    show "\<forall>j < kMaxCentrals. slot_ok (ble_of v) links j" "length (bs_conns (ble_of v)) = kMaxCentrals"
      using v slots(1) by (simp_all add: esp_ok_def ble_inv_board)
  qed (use v in blast)
  then have "ble_inv \<lparr>bw_ble = set_conn i (\<lambda>c. c\<lparr>cn_reader := fst ?d, cn_rx := rx\<rparr>) (ble_of v), bw_links = links\<rparr>"
    using v slots(1) by (simp add: esp_ok_def ble_inv_board)
  then show ?thesis
    unfolding pump using v by (intro esp_put_ble_ok [where b = v]) (auto simp: slots_only_def)
qed

lemma esp_slot_ok:
  assumes ok: "esp_ok ep b links" and i: "i < kMaxCentrals"
  shows "esp_ok ep (esp_pump_slot ep t i b) links"
proof -
  obtain s drain where s: "slot_admit i (ble_of b) = (s, drain)" by (metis surj_pair)
  have len: "length (bs_conns (ble_of b)) = kMaxCentrals" and slots: "\<forall>j < kMaxCentrals. slot_ok (ble_of b) links j" "eb_ready b"
    using ok by (simp_all add: esp_ok_def ble_inv_board)
  have "ble_inv \<lparr>bw_ble = s, bw_links = links\<rparr>"
    using slot_admit_inv [OF len slots(1) i] slot_admit_fields [of i "ble_of b"] len slots(2) by (simp add: ble_inv_board s)
  then have v: "esp_ok ep (put_ble s b) links"
    using slot_admit_slots [OF i, of "ble_of b"] by (intro esp_put_ble_ok [OF ok]) (simp_all add: s)
  have "esp_ok ep (esp_drain_conn ep t i (put_ble s b)) links" if drain
    using admitted_conn [of i "ble_of b"] that i len by (intro esp_drain_conn_ok [OF v]) (simp_all add: s)
  then show ?thesis using v ok by (simp add: esp_pump_slot_def s Let_def)
qed

subsection \<open>Wi-Fi\<close>

lemma esp_wifi_ok:
  assumes ok: "esp_ok ep b links" and w: "wifi_ok w" "wifi_quiet (eb_wifi b) w" "cp_trace (wf_proc w) = cp_trace (esp_proc b)"
  shows "esp_ok ep (b\<lparr>eb_wifi := w\<rparr>) links"
proof -
  let ?m = "mac_suffix (np_address ep)" and ?b = "b\<lparr>eb_wifi := w\<rparr>"
  have m: "answering ?m (eb_wifi b)" using ok by (simp add: esp_ok_def esp_agrees_def)
  then have q: "answering ?m w" "cp_tx_pending (wf_proc w) = cp_tx_pending (esp_proc b)"
      "effective_name (wf_proc w) = effective_name (esp_proc b)" "others_kept usb (esp_proc b) (wf_proc w)"
    using w(2) by (auto simp: wifi_quiet_def quiet_def esp_proc_def)
  have "\<forall>i < kMaxCentrals. slot_ok (ble_of ?b) links i"
    by (rule slots_ok_core [where s = "ble_of b" and k = usb]) (use ok q(4) in \<open>simp_all add: esp_ok_def ble_inv_board\<close>)
  then have "ble_inv \<lparr>bw_ble = ble_of ?b, bw_links = links\<rparr>" using ok by (simp add: esp_ok_def ble_inv_board)
  moreover have "tcp ` {..<kMaxClients} \<subseteq> {..<kMaxSinks}" by (auto simp: tcp_def kMaxClients_def kMaxSinks_def)
  then have "count_list (cp_sinks (wf_proc w)) usb = 1" "set (cp_sinks (wf_proc w)) \<subseteq> {..<kMaxSinks}"
    using ok q(4) unfolding others_kept_def esp_ok_def esp_agrees_def by (simp, blast)
  ultimately show ?thesis
    using ok q w(1,3) by (simp add: esp_ok_def esp_agrees_def esp_proc_def)
qed

lemma esp_drain_socket_ok:
  assumes "esp_ok ep b links"
  shows "esp_ok ep (fst (snd (esp_drain_socket ep t i n reader b src))) links"
  using assms
proof (induction ep t i n reader b src rule: esp_drain_socket.induct)
  case (3 ep t i budget reader b x src)
  obtain reader' res where feed: "frame_reader_feed x reader = (reader', res)" by (metis surj_pair)
  have "esp_ok ep (esp_envelope ep t (tcp i) b env) links" for env
    using 3(4) by (intro esp_envelope_ok) auto
  then show ?case using 3 by (cases res) (simp_all add: feed)
qed simp_all

lemma esp_set_reader_ok:
  assumes "esp_ok ep b links" "i < kMaxClients"
  shows "esp_ok ep (b\<lparr>eb_wifi := set_client i (\<lambda>c. c\<lparr>wc_reader := r\<rparr>) (eb_wifi b)\<rparr>) links"
  using assms set_reader_inv [OF _ assms(2)]
  by (intro esp_wifi_ok) (simp_all add: esp_ok_def esp_agrees_def wifi_ok_def esp_proc_def)

lemma esp_drop_client_ok:
  assumes "esp_ok ep b links" "i < kMaxClients"
  shows "esp_ok ep (b\<lparr>eb_wifi := drop_client i (eb_wifi b)\<rparr>) links"
proof (rule esp_wifi_ok [OF assms(1)])
  show "wifi_ok (drop_client i (eb_wifi b))"
    using assms drop_client_inv [OF _ assms(2)] by (simp add: esp_ok_def esp_agrees_def wifi_ok_def)
  show "cp_trace (wf_proc (drop_client i (eb_wifi b))) = cp_trace (esp_proc b)"
    by (simp add: drop_client_def remove_sink_def esp_proc_def)
qed (simp add: drop_client_quiet)

lemma esp_pump_client_ok:
  assumes "esp_ok ep b links" "i < kMaxClients"
  shows "esp_ok ep (esp_pump_client ep t i b) links"
proof -
  obtain reader v rest where d: "esp_drain_socket ep t i FRAME_MAX_DRAIN_BYTES_PER_PUMP (wc_reader (wf_clients (eb_wifi b) ! i)) b
      (wt_received (et_wifi t) i) = (reader, v, rest)" by (metis surj_pair)
  have "esp_ok ep v links" using esp_drain_socket_ok [OF assms(1), of t i] d by (metis fst_conv snd_conv)
  then have "esp_ok ep (esp_drain_client ep t i b) links"
    using esp_set_reader_ok [OF _ assms(2)] by (simp add: esp_drain_client_def d)
  moreover have "esp_ok ep (x\<lparr>eb_wifi := drop_client i (eb_wifi x)\<rparr>) links" if "esp_ok ep x links" for x
    by (rule esp_drop_client_ok [OF that assms(2)])
  ultimately show ?thesis
    using assms(1) unfolding esp_pump_client_def Let_def by (simp only: simp_thms split: if_split)
qed

lemma wifi_ok_apply: "wifi_ok w \<Longrightarrow> device_wf d \<Longrightarrow> wifi_ok (wifi_apply t d w)"
  by (simp add: wifi_ok_def wifi_apply_inv)

lemma wifi_ok_drive: "wifi_ok w \<Longrightarrow> usable w \<Longrightarrow> wifi_ok (drive_link t w)"
  by (simp add: wifi_ok_def drive_link_inv(1))

lemma wifi_ok_accept: "wifi_ok w \<Longrightarrow> wifi_ok (accept_clients t w)"
  by (simp add: wifi_ok_def accept_clients_inv)

lemma esp_wifi_pump_ok:
  assumes ok: "esp_ok ep b links"
  shows "esp_ok ep (esp_wifi_pump ep t b) links"
proof (cases "usable (eb_wifi b)")
  case True
  define u where "u = esp_call ep t (drive_link (et_wifi t)) b"
  define v where "v = esp_call ep t (accept_clients (et_wifi t)) u"
  have wifi: "wifi_ok (eb_wifi b)" using ok by (simp add: esp_ok_def esp_agrees_def)
  have "usable (esp_asks ep t b)" using True by (simp add: esp_asks_def usable_def)
  then have u: "esp_ok ep u links"
    unfolding u_def using wifi by (intro esp_call_quiet [OF ok] wifi_ok_drive drive_link_quiet wifi_quiet_refl) simp_all
  then have "wifi_ok (eb_wifi u)" by (simp add: esp_ok_def esp_agrees_def)
  then have v: "esp_ok ep v links"
    unfolding v_def by (intro esp_call_quiet [OF u] wifi_ok_accept accept_clients_quiet wifi_quiet_refl) simp
  have "\<forall>i \<in> set is. i < kMaxClients \<Longrightarrow> esp_ok ep x links \<Longrightarrow> esp_ok ep (fold (esp_pump_client ep t) is x) links" for "is" x
    by (induction "is" arbitrary: x) (simp_all add: esp_pump_client_ok)
  then show ?thesis using True v by (simp add: esp_wifi_pump_def u_def v_def Let_def)
qed (simp add: esp_wifi_pump_def ok)

subsection \<open>The radio\<close>

lemma wifi_ok_processor:
  assumes "wifi_ok w" "\<And>s. sessions_kept k s (f s)" "\<And>s. cp_device (f s) = cp_device s"
  shows "wifi_ok (with_processor t f w)"
proof -
  have "wifi_inv (with_processor t f w)"
    using assms(1,2) by (intro wifi_inv_processor) (simp_all add: wifi_ok_def sessions_kept_def)
  then show ?thesis using assms(1,3) by (simp add: wifi_ok_def)
qed

lemma poll_kept: "sessions_kept k s (processor_poll lora now s)" "cp_device (processor_poll lora now s) = cp_device s"
    "cp_hooks (processor_poll lora now s) = cp_hooks s"
  using kept_poll by (auto simp: processor_poll_def on_tx_result_def say_simps Let_def)

text \<open>A poll that finds the transmission done clears the port's lock and the core's.\<close>

lemma told_poll:
  fixes np :: "('c, 'z) board_parts_scheme"
  assumes "lp_tx_started p = cp_tx_pending s"
  defines "p' \<equiv> (if cp_tx_pending s then snd (lora_tx_done (np_chip np) (np_traits np) p) else p)"
  shows "told np p' s (processor_poll (port_lora np p) now s)"
proof (cases "cp_tx_pending s \<and> fst (lora_tx_done (np_chip np) (np_traits np) p)")
  case False
  have "lp_tx_started p' = cp_tx_pending s" using False assms(1) by (auto simp: p'_def)
  moreover have "processor_poll (port_lora np p) now s = s\<lparr>cp_clock := uc_poll now (cp_clock s)\<rparr>"
    using False by (auto simp: processor_poll_def port_lora_def Let_def)
  ultimately show ?thesis by (intro told_frames) simp_all
next
  case True
  let ?u = "s\<lparr>cp_clock := uc_poll now (cp_clock s), cp_tx_pending := False\<rparr>"
  let ?c = "R_tx_result \<lparr>tr_seq = of_nat (cp_tx_pending_seq s), tr_success = True\<rparr>"
  have t: "processor_poll (port_lora np p) now s = say 0 ?c (recipients None False s) ?u"
    using True by (simp add: processor_poll_def port_lora_def on_tx_result_def say_simps recipients_def is_authorized_def Let_def)
  have p': "\<not> lp_tx_started p'" using True by (simp add: p'_def)
  have "effective_name ?u = effective_name s" by (rule effective_name_cong) simp_all
  then have "told np p' s ?u" using p' by (simp add: told_def)
  then show ?thesis unfolding t by (rule told_say)
qed

lemma esp_port_update [simp]:
  "ble_of (b\<lparr>eb_port := p\<rparr>) = ble_of b" "esp_agrees ep (b\<lparr>eb_port := p\<rparr>) = esp_agrees ep b"
  "esp_proc (b\<lparr>eb_port := p\<rparr>) = esp_proc b" "esp_asks ep t (b\<lparr>eb_port := p\<rparr>) = esp_asks ep t b"
  by (simp_all add: esp_agrees_def esp_asks_def esp_hooks_def ble_of_def esp_proc_def)

lemma esp_poll_ok:
  assumes ok: "esp_ok ep b links"
  shows "esp_ok ep (esp_poll ep t b) links"
proof -
  let ?p = "if cp_tx_pending (esp_proc b) then snd (lora_tx_done (np_chip ep) (np_traits ep) (eb_port b)) else eb_port b"
  let ?f = "processor_poll (port_lora ep (eb_port b)) (wt_millis (et_wifi t))" and ?w = "esp_asks ep t b"
  have m: "answering (mac_suffix (np_address ep)) ?w" and wifi: "wifi_ok ?w"
    using ok by (simp_all add: esp_ok_def esp_agrees_def answering_asks)
  have poll: "esp_poll ep t b = esp_call ep t (with_processor (et_wifi t) ?f) (b\<lparr>eb_port := ?p\<rparr>)"
    by (simp add: esp_poll_def Let_def)
  show ?thesis
    unfolding poll
  proof (rule esp_call_ok(1) [where k = usb])
    show "wifi_ok (with_processor (et_wifi t) ?f (esp_asks ep t (b\<lparr>eb_port := ?p\<rparr>)))"
      using wifi_ok_processor [OF wifi, of usb ?f] by (simp add: poll_kept)
    show "told ep (eb_port (b\<lparr>eb_port := ?p\<rparr>)) (esp_proc (b\<lparr>eb_port := ?p\<rparr>))
        (wf_proc (with_processor (et_wifi t) ?f (esp_asks ep t (b\<lparr>eb_port := ?p\<rparr>))))" if "\<not> eb_restarted (b\<lparr>eb_port := ?p\<rparr>)"
      using told_answered [OF m told_poll [of "eb_port b" "answered_by ?w" ep "wt_millis (et_wifi t)"]] ok that
      by (simp add: esp_ok_def answered_by_def [of ?w, symmetric, unfolded esp_asks_simps(1)])
    show "answering (mac_suffix (np_address ep)) (with_processor (et_wifi t) ?f (esp_asks ep t (b\<lparr>eb_port := ?p\<rparr>)))"
      using answering_processor [OF m, of ?f "et_wifi t"] by (simp add: poll_kept)
    show "others_kept usb (esp_proc (b\<lparr>eb_port := ?p\<rparr>)) (wf_proc (with_processor (et_wifi t) ?f (esp_asks ep t (b\<lparr>eb_port := ?p\<rparr>))))"
      using sessions_others [OF poll_kept(1), of usb "answered_by ?w"]
      by (simp add: others_kept_def answered_by_def)
  qed (use ok in \<open>simp_all add: esp_ok_def\<close>)
qed

lemma received_kept:
  "only_frames s (fst (on_packet_received rssi snr raw s))" "cp_device (fst (on_packet_received rssi snr raw s)) = cp_device s"
  by (simp_all add: on_packet_received_def say_simps only_frames_say Let_def split: prod.split option.split)

lemma esp_radio_ok:
  assumes ok: "esp_ok ep b links"
  shows "esp_ok ep (esp_radio_loop ep t b) links"
proof -
  let ?v = "esp_poll ep t b"
  obtain got p where got: "lora_receive (np_chip ep) (np_traits ep) (eb_port ?v) = (got, p)" by (metis surj_pair)
  have v: "esp_ok ep ?v links" by (rule esp_poll_ok [OF ok])
  have "lp_tx_started p = lp_tx_started (eb_port ?v)" using started_simps(4) [of "np_chip ep" "np_traits ep" "eb_port ?v"] by (simp add: got)
  then have u: "esp_ok ep (?v\<lparr>eb_port := p\<rparr>) links" using v by (simp add: esp_ok_def)
  have "esp_ok ep (esp_call ep t (with_processor (et_wifi t) (\<lambda>s. fst (on_packet_received rssi snr raw s))) (?v\<lparr>eb_port := p\<rparr>)) links"
    for rssi snr raw
  proof (rule esp_call_quiet [OF u])
    have "wifi_ok (eb_wifi (?v\<lparr>eb_port := p\<rparr>))" using u by (simp add: esp_ok_def esp_agrees_def)
    then show "wifi_ok (with_processor (et_wifi t) (\<lambda>s. fst (on_packet_received rssi snr raw s)) (esp_asks ep t (?v\<lparr>eb_port := p\<rparr>)))"
      by (intro wifi_ok_processor [where k = usb] kept_received received_kept) simp
    show "wifi_quiet w (with_processor (et_wifi t) (\<lambda>s. fst (on_packet_received rssi snr raw s)) w)" for w
      by (intro processor_quiet wifi_quiet_refl received_kept kept_received)
  qed
  then show ?thesis using u by (cases got) (auto simp: esp_radio_loop_def got Let_def)
qed

subsection \<open>The rest\<close>

lemma esp_arrived_ok:
  assumes "esp_ok ep b links"
  shows "esp_ok ep (b\<lparr>eb_usb_in := xs, eb_port := (eb_port b)\<lparr>lp_chip := c\<rparr>\<rparr>) links"
  using assms by (simp add: esp_ok_def esp_agrees_def ble_of_def esp_proc_def)

lemma callback_slots:
  assumes "from_host e" "length (bs_conns (bw_ble w)) = kMaxCentrals"
  shows "slots_only (bs_proc (bw_ble w)) (bs_proc (bw_ble (ble_on e w)))"
    "advertised (bs_calls (bw_ble (ble_on e w))) = advertised (bs_calls (bw_ble w))"
proof -
  let ?s = "bw_ble w"
  have up: "slots_only (bs_proc ?s) (bs_proc (onConnect h ?s)) \<and> advertised (bs_calls (onConnect h ?s)) = advertised (bs_calls ?s)" for h
    by (auto simp: onConnect_def claim_def slots_only_def ble_call_def advertised_def set_conn_def Let_def split: option.split)
  have quiet: "slots_only (bs_proc ?s) (bs_proc ?s)" by (simp add: slots_only_def)
  from assms(1) show "slots_only (bs_proc ?s) (bs_proc (bw_ble (ble_on e w)))"
    by (cases e) (simp_all add: up quiet onDisconnect_def onSubscribe_def onWrite_def split: option.split)
  from assms(1) show "advertised (bs_calls (bw_ble (ble_on e w))) = advertised (bs_calls ?s)"
    by (cases e) (simp_all add: up onDisconnect_def onSubscribe_def onWrite_def split: option.split)
qed

lemma esp_callback_ok:
  assumes ok: "esp_ok ep b links" and w: "w = \<lparr>bw_ble = ble_of b, bw_links = links\<rparr>" "from_host e" "ble_possible e w"
  shows "esp_ok ep (put_ble (bw_ble (ble_on e w)) b) (bw_links (ble_on e w))"
proof (rule esp_put_ble_ok [OF ok])
  have inv: "ble_inv w" using ok w(1) by (simp add: esp_ok_def)
  have "ble_inv (ble_on e w)" by (rule ble_step_inv [OF _ inv]) (rule ble_step.intros [OF w(3)])
  then show "ble_inv \<lparr>bw_ble = bw_ble (ble_on e w), bw_links = bw_links (ble_on e w)\<rparr>" by (cases "ble_on e w") simp
  have "length (bs_conns (bw_ble w)) = kMaxCentrals" using inv by (simp add: ble_inv_def)
  note callback_slots [OF w(2) this]
  then show "slots_only (esp_proc b) (bs_proc (bw_ble (ble_on e w)))"
    "advertised (bs_calls (bw_ble (ble_on e w))) = advertised (eb_calls b)"
    by (simp_all add: w(1))
qed

lemma esp_step_ok:
  assumes "esp_step ep (b, links) (b', links')" "esp_ok ep b links"
  shows "esp_ok ep b' links'"
  using assms(1)
proof (cases rule: esp_step.cases)
  case (called_back w e)
  then show ?thesis using esp_callback_ok [OF assms(2)] by simp
qed (use assms(2) in \<open>auto simp: until_restart_def esp_delay_def esp_usb_ok esp_slot_ok esp_wifi_pump_ok esp_radio_ok esp_arrived_ok\<close>)

end
