(* ===== verification/EspWhole.thy ===== *)
theory EspWhole
  imports EspParts
begin

text \<open>
  The ESP32 board from \<open>setup\<close> on: every state it reaches satisfies the invariant of \<open>EspParts\<close>, a
  round of \<open>loop\<close> is a sequence of its steps, and what follows for the client registry that the
  console, the BLE transport and the Wi-Fi transport share.
\<close>

section \<open>Setup\<close>

lemma wifi_begin_new:
  assumes "device_wf (cp_device p)" "\<forall>i < kMaxClients. tcp i \<notin> set (cp_sinks p)"
  shows "wifi_ok (wifi_begin t h ((wifi_transport_new p board link d)\<lparr>wf_proc := p, wf_board := board', wf_link := link'\<rparr>))"
  by (rule wifi_reachable_ok [OF wifi_reachable.begun]) (use assms in \<open>simp_all add: wifi_transport_new_def\<close>)

lemma boot_events:
  assumes "set es \<subseteq> insert Radio_Begin (range Radio_Apply)"
  shows "(\<not> eb_restarted b \<longrightarrow> fold (esp_event ep) es b = b\<lparr>eb_port := fold (port_call ep) es (eb_port b)\<rparr>) \<and>
    lp_tx_started (fold (port_call ep) es q) = lp_tx_started q"
  using assms
proof (induction es arbitrary: b q)
  case (Cons e es)
  then have "e = Radio_Begin \<or> (\<exists>c. e = Radio_Apply c)" by auto
  then show ?case using Cons by (auto simp: esp_event_def)
qed simp

lemma esp_setup_ok:
  fixes ep :: "('c, 'l) esp_parts"
  assumes persist: "store_bytes < 2 ^ 32" "persisted_ok persist"
    and bufs: "length bufs = kMaxCentrals" "\<forall>buf \<in> set bufs. length buf = kRxFifoBytes"
  shows "esp_ok ep (esp_setup ep t store_bytes calloc_ok boots persist r d resp bufs c l) {}"
proof -
  define hooks where "hooks = default_hooks\<lparr>hk_mac_suffix := mac_suffix (np_address ep), hk_fill_status := board_fill_status\<rparr>"
  define s where "s = powered_on (boot_lora ep c) store_bytes calloc_ok (set_boot_count (boots + 1) uptime_clock_new) persist
    (kBoardName (np_board ep)) kFwVersion r d resp (Some hooks)"
  define s1 where "s1 = fst (add_sink usb s)"
  have "device_valid (with_port (fst (ms_load_device persist)))" using with_port_valid persist(2) by (simp add: persisted_ok_def)
  then have s: "cp_hooks s1 = Some hooks" "\<not> cp_tx_pending s1" "console (cp_trace s1) = []" "cp_sinks s1 = [usb]" "\<not> cp_authenticated s1 k"
    "device_wf (cp_device s1)" "cp_trace s1 = cp_trace s" for k
    by (simp_all add: s1_def s_def boot_state add_sink_def kMaxSinks_def device_valid_def)
  define p where "p = fold (port_call ep) (cp_trace s) \<lparr>lp_chip = c, lp_tx_started = False\<rparr>"
  have "set (cp_trace s) \<subseteq> insert Radio_Begin (range Radio_Apply)" by (auto simp: s_def boot_state)
  note p = boot_events [OF this, of _ ep, simplified]
  define b where "b = \<lparr>eb_wifi = (wifi_transport_new s hooks (et_link t) d)\<lparr>wf_proc := s1\<rparr>, eb_ready = True,
    eb_conns = map connection_new bufs, eb_calls = bs_calls (set_name (effective_name s1) (ble_begin (ble_sink_new bufs s1))),
    eb_host = l, eb_usb_reader = frame_reader_reset, eb_usb_in = [], eb_usb_out = [], eb_port = p, eb_restarted = False\<rparr>"
  define v where "v = esp_call ep t (wifi_begin (et_wifi t) (wifi_hostname ep)) b"
  have whole: "esp_setup ep t store_bytes calloc_ok boots persist r d resp bufs c l =
      esp_call ep t (wifi_apply (et_wifi t) (cp_device (esp_proc v))) v"
    unfolding esp_setup_def hooks_def [symmetric] s_def [symmetric] Let_def
    by (simp add: p p_def [symmetric] v_def b_def s1_def esp_proc_def put_ble_def ble_of_def ble_begin_def ble_call_def set_name_def ble_sink_new_def
        wifi_transport_new_def)
  have "ble_reachable \<lparr>bw_ble = ble_begin (ble_sink_new bufs s1), bw_links = {}\<rparr>"
    by (rule ble_reachable.begun) (use bufs s(4) in auto)
  then have "\<forall>i < kMaxCentrals. slot_ok (ble_begin (ble_sink_new bufs s1)) {} i" using ble_reachable_inv by (fastforce simp: ble_inv_board)
  then have "\<forall>i < kMaxCentrals. slot_ok (ble_of b) {} i"
    by (simp add: slot_ok_def ble_of_def b_def esp_proc_def ble_begin_def ble_call_def ble_sink_new_def find_conn_def)
  then have ble: "ble_inv \<lparr>bw_ble = ble_of b, bw_links = {}\<rparr>" using bufs by (simp add: ble_inv_board b_def)
  have agrees: "esp_agrees ep b"
    using s by (simp add: esp_agrees_def b_def esp_proc_def answering_def hooks_def wifi_transport_new_def set_name_effect
        ble_begin_def ble_sink_new_def ble_call_def usb_def kMaxSinks_def)
  have port: "lp_tx_started (eb_port b) = cp_tx_pending (esp_proc b)" using s(2) p by (simp add: b_def p_def esp_proc_def)
  have w: "wifi_ok (wifi_begin (et_wifi t) (wifi_hostname ep) (esp_asks ep t b))"
    using wifi_begin_new [of s1] s(4,6) by (auto simp: esp_asks_def b_def wifi_transport_new_def)
  have q: "wifi_quiet (esp_asks ep t b) (wifi_begin (et_wifi t) (wifi_hostname ep) (esp_asks ep t b))" by (simp add: wifi_begin_quiet)
  have m: "answering (mac_suffix (np_address ep)) (esp_asks ep t b)" using agrees by (intro answering_asks) (simp add: esp_agrees_def)
  have "told ep (eb_port b) (esp_proc b) (wf_proc (esp_asks ep t b))" by (rule told_quiet) (simp_all add: port)
  note told = told_then_wifi_quiet [OF this m q]
  have v: "esp_ok ep v {}"
    unfolding v_def
    by (rule esp_call_ok(1) [OF ble agrees, where k = usb]) (use w told q in \<open>simp_all add: b_def wifi_quiet_def\<close>)
  then have "wifi_ok (eb_wifi v)" "device_wf (cp_device (esp_proc v))" by (simp_all add: esp_ok_def wifi_ok_def esp_proc_def)
  then show ?thesis
    unfolding whole
    by (intro esp_call_quiet [OF v] wifi_apply_quiet wifi_quiet_refl wifi_ok_apply) simp_all
qed

lemma esp_reachable_ok: "esp_reachable ep w \<Longrightarrow> esp_ok ep (fst w) (snd w)"
proof (induction rule: esp_reachable.induct)
  case (stepped w w')
  then show ?case using esp_step_ok [of ep "fst w" "snd w" "fst w'" "snd w'"] by simp
qed (simp add: esp_setup_ok)

text \<open>A round of \<open>loop\<close> is a sequence of steps.\<close>

lemma esp_loop_reachable:
  assumes "esp_reachable ep (b, links)"
  shows "esp_reachable ep (esp_loop ep t b, links)"
proof -
  note step = esp_reachable.stepped
  have slots: "\<forall>i \<in> set is. i < kMaxCentrals \<Longrightarrow> esp_reachable ep (x, links) \<Longrightarrow> esp_reachable ep (fold (esp_pump_slot ep t) is x, links)"
    for "is" x
  proof (induction "is" arbitrary: x)
    case (Cons i js)
    have "eb_ready x" using esp_reachable_ok [OF Cons.prems(2)] by (simp add: esp_ok_def ble_inv_board)
    then have "esp_reachable ep (esp_pump_slot ep t i x, links)" using Cons.prems by (intro step [OF Cons.prems(2)] slot_pumped) auto
    then show ?case using Cons by simp
  qed simp
  then have "esp_reachable ep (until_restart (esp_ble_pump ep t) x, links)" if "esp_reachable ep (x, links)" for x
    using that by (simp add: until_restart_def esp_ble_pump_def)
  then show ?thesis
    unfolding esp_loop_def using assms by (auto intro!: step [OF _ usb_pumped] step [OF _ wifi_pumped] step [OF _ radio_looped] step [OF _ delayed])
qed

section \<open>Properties\<close>

lemma central_reachable: "esp_reachable ep (b, links) \<Longrightarrow> i < kMaxCentrals \<Longrightarrow>
    count_list (cp_sinks (esp_proc b)) (central i) = of_bool (cn_registered (eb_conns b ! i)) \<and>
    (cn_registered (eb_conns b ! i) \<longrightarrow> cn_in_use (eb_conns b ! i)) \<and>
    (cn_in_use (eb_conns b ! i) \<and> \<not> cn_pending_disconnect (eb_conns b ! i) \<longrightarrow>
       \<not> cp_authenticated (esp_proc b) (central i) \<or> linked (ble_of b) links i)"
  using esp_reachable_ok [of ep "(b, links)"]
  by (auto simp: esp_ok_def ble_inv_board slot_ok_def idle_conn_def linked_def Let_def)

lemma tcp_reachable: "esp_reachable ep (b, links) \<Longrightarrow> slots_ok (eb_wifi b)"
  using esp_reachable_ok [of ep "(b, links)"] by (simp add: esp_ok_def wifi_ok_def wifi_inv_def)

lemma in_registry: "count_list xs k = of_bool P \<Longrightarrow> k \<in> set xs \<longleftrightarrow> P"
  by (metis count_list_0_iff of_bool_eq_0_iff)


text \<open>Who the clients are.\<close>

lemma sum_of_bool_card: "(\<Sum>i < n. of_bool (P i)) = card {i. i < (n::nat) \<and> P i}"
proof -
  have "{..<n} \<inter> {i. P i} = {i. i < n \<and> P i}" by auto
  then show ?thesis by (simp add: of_bool_def sum.If_cases)
qed

lemma card_below:
  "card {i. i < n \<and> P i} \<le> n" "i < n \<Longrightarrow> \<not> P i \<Longrightarrow> card {i. i < n \<and> P i} < (n::nat)"
proof -
  show "card {i. i < n \<and> P i} \<le> n" using card_mono [of "{..<n}" "{i. i < n \<and> P i}"] by auto
  assume "i < n" "\<not> P i"
  then have "{i. i < n \<and> P i} \<subset> {..<n}" by auto
  then show "card {i. i < n \<and> P i} < n" using psubset_card_mono [of "{..<n}"] by auto
qed

lemma registry_length:
  assumes "esp_reachable ep (b, links)"
  shows "length (cp_sinks (esp_proc b)) = 1 + (\<Sum>i < kMaxCentrals. of_bool (cn_registered (eb_conns b ! i))) + wf_num_clients (eb_wifi b)"
proof -
  let ?n = "count_list (cp_sinks (esp_proc b))"
  have ok: "esp_ok ep b links" using esp_reachable_ok [OF assms] by simp
  then have "set (cp_sinks (esp_proc b)) \<subseteq> {..<kMaxSinks}" by (simp add: esp_ok_def esp_agrees_def)
  then have "length (cp_sinks (esp_proc b)) = (\<Sum>j < kMaxSinks. ?n j)" using sum_count_set [of "cp_sinks (esp_proc b)" "{..<kMaxSinks}"] by simp
  moreover have "(\<Sum>j < kMaxSinks. ?n j) = ?n usb + (\<Sum>i < kMaxCentrals. ?n (central i)) + (\<Sum>i < kMaxClients. ?n (tcp i))"
    by (simp add: kMaxSinks_def kMaxCentrals_def kMaxClients_def usb_def central_def tcp_def eval_nat_numeral lessThan_Suc)
  moreover have "?n usb = 1" using ok by (simp add: esp_ok_def esp_agrees_def)
  moreover have "(\<Sum>i < kMaxCentrals. ?n (central i)) = (\<Sum>i < kMaxCentrals. of_bool (cn_registered (eb_conns b ! i)))"
    using central_reachable [OF assms] by (intro sum.cong) auto
  moreover have "(\<Sum>i < kMaxClients. ?n (tcp i)) = wf_num_clients (eb_wifi b)"
    using tcp_reachable [OF assms] by (simp add: slots_ok_def esp_proc_def)
  ultimately show ?thesis by simp
qed

text \<open>
  C7. The registry has room for every client the transports admit.  The three transports share its
  eight places; in every reachable state they hold one for the console, one for each registered
  central and one for each TCP client, and a central that is not registered yet, or a TCP slot that is
  free, always finds one, so neither limit can make the other turn a client away.
\<close>

theorem esp_registry_has_room:
  assumes "esp_reachable ep (b, links)"
  shows "length (cp_sinks (esp_proc b)) =
      1 + card {i. i < kMaxCentrals \<and> cn_registered (eb_conns b ! i)} + client_count (eb_wifi b) \<and>
    length (cp_sinks (esp_proc b)) \<le> kMaxSinks \<and>
    (i < kMaxCentrals \<and> \<not> cn_registered (eb_conns b ! i) \<longrightarrow> snd (add_sink (central i) (esp_proc b))) \<and>
    (i < kMaxClients \<and> \<not> wc_in_use (wf_clients (eb_wifi b) ! i) \<longrightarrow> sink_free (esp_proc b) \<noteq> 0)"
proof -
  let ?len = "length (cp_sinks (esp_proc b))"
  let ?ble = "card {i. i < kMaxCentrals \<and> cn_registered (eb_conns b ! i)}"
  have n: "client_count (eb_wifi b) = card {i. i < kMaxClients \<and> wc_in_use (wf_clients (eb_wifi b) ! i)}"
    using tcp_reachable [OF assms] by (simp add: slots_ok_def client_count_def sum_of_bool_card)
  have len: "?len = 1 + ?ble + client_count (eb_wifi b)"
    using registry_length [OF assms] by (simp add: sum_of_bool_card client_count_def)
  have all: "?ble \<le> 3" "client_count (eb_wifi b) \<le> 4" unfolding n using card_below(1) [of kMaxCentrals] card_below(1) [of kMaxClients]
    by (simp_all add: kMaxCentrals_def kMaxClients_def)
  have "snd (add_sink (central i) (esp_proc b))" if "i < kMaxCentrals" "\<not> cn_registered (eb_conns b ! i)"
    using card_below(2) [of i kMaxCentrals "\<lambda>i. cn_registered (eb_conns b ! i)"] that len all(2)
    by (simp add: kMaxCentrals_def add_sink_def kMaxSinks_def)
  moreover have "sink_free (esp_proc b) \<noteq> 0" if "i < kMaxClients" "\<not> wc_in_use (wf_clients (eb_wifi b) ! i)"
    using card_below(2) [of i kMaxClients "\<lambda>i. wc_in_use (wf_clients (eb_wifi b) ! i)"] that len all(1) n
    by (simp add: kMaxClients_def sink_free_def kMaxSinks_def)
  ultimately show ?thesis using len all by (simp add: kMaxSinks_def)
qed

subsection \<open>A board on the bench\<close>

definition esp_bench :: "(chip_mode \<times> chip_tuning, byte list) esp_parts" where
  "esp_bench = \<lparr>np_chip = bench_chip, np_traits = sx126x_traits bench_bits, np_radio_begin = (\<lambda>c. (True, c)),
     np_address = Some [0xF2, 0xA3, 0, 0, 0, 0], np_battery = False, np_board = BOARD_HELTEC_V3,
     ep_host = \<lparr>ha_peer_mtu = (\<lambda>l h. 185), ha_from_flat = (\<lambda>bytes l. (True, l)), ha_notify = (\<lambda>h bytes l. (0, l @ bytes)),
       ha_delay = id, ha_enomem = 6\<rparr>\<rparr>"

definition esp_bench_tick :: esp_tick where
  "esp_bench_tick = \<lparr>et_battery_mv = 0xFFFF, et_serial_open = True,
     et_wifi = \<lparr>wt_status = WL_OTHER, wt_millis = 7, wt_pending = False, wt_received = (\<lambda>i. []), wt_connected = (\<lambda>i. True),
       wt_refuses = (\<lambda>i buf. False), wt_mdns_ok = True\<rparr>,
     et_link = \<lparr>wl_ssid = [0], wl_local_ip = [10, 0, 0, 2], wl_rssi = 0\<rparr>\<rparr>"

definition esp_bench_board :: "(chip_mode \<times> chip_tuning, byte list) esp_board" where
  "esp_bench_board = esp_setup esp_bench esp_bench_tick 700 True 4 (memory_store_new radio_unset) radio_unset device_defaults
     RadioToClient_init_zero (replicate 3 (replicate 512 0)) (lp_chip bench_port) []"

definition esp_connected :: "(chip_mode \<times> chip_tuning, byte list) esp_board" where
  "esp_connected = put_ble (onConnect 5 (ble_of esp_bench_board)) esp_bench_board"

lemma esp_connected_reachable: "esp_reachable esp_bench (esp_connected, {5})"
proof -
  let ?w = "\<lparr>bw_ble = ble_of esp_bench_board, bw_links = {}\<rparr>"
  have "esp_reachable esp_bench (esp_bench_board, {})"
    unfolding esp_bench_board_def by (rule set_up) (simp_all add: persisted_none kMaxCentrals_def kRxFifoBytes_def)
  moreover have "esp_step esp_bench (esp_bench_board, {}) (put_ble (bw_ble (ble_on (Link_Up 5) ?w)) esp_bench_board, bw_links (ble_on (Link_Up 5) ?w))"
    by (rule called_back) simp_all
  ultimately show ?thesis
    using esp_reachable.stepped by (fastforce simp: esp_connected_def)
qed

lemma esp_events_conns: "eb_conns (fold (esp_event ep) es b) = eb_conns b"
proof (induction es arbitrary: b)
  case (Cons e es)
  have "eb_conns (esp_event ep e b) = eb_conns b"
    by (cases e) (simp_all add: esp_event_def esp_reboot_now_def set_name_effect)
  then show ?case using Cons by simp
qed simp

lemma esp_setup_conns: "eb_conns (esp_setup ep t kb ok boots persist r d resp bufs c l) = map connection_new bufs"
  by (simp add: esp_setup_def esp_call_def esp_events_conns set_name_effect ble_begin_def ble_call_def Let_def)

lemma esp_connected_slot:
  "cn_in_use (eb_conns esp_connected ! 0)" "\<not> cn_registered (eb_conns esp_connected ! 0)"
proof -
  have conns: "eb_conns esp_bench_board = replicate 3 (connection_new (replicate 512 0))"
    by (simp add: esp_bench_board_def esp_setup_conns)
  have "List.find (\<lambda>i. \<not> cn_in_use (eb_conns esp_bench_board ! i)) [0..<kMaxCentrals] = Some 0"
    by (simp add: conns kMaxCentrals_def upt_rec connection_new_def)
  then show "cn_in_use (eb_conns esp_connected ! 0)" "\<not> cn_registered (eb_conns esp_connected ! 0)"
    by (simp_all add: esp_connected_def onConnect_def claim_def set_conn_def conns connection_new_def Let_def)
qed

lemma esp_registry_has_room_witness:
  "cn_in_use (eb_conns esp_connected ! 0) \<and> snd (add_sink (central 0) (esp_proc esp_connected)) \<and>
   length (cp_sinks (esp_proc esp_connected)) \<le> kMaxSinks"
  using esp_registry_has_room [OF esp_connected_reachable, of 0] esp_connected_slot by (simp add: kMaxCentrals_def)


end
