(* ===== verification/EspCore.thy ===== *)
theory EspCore
  imports EspWhole
begin

text \<open>
  What the ESP32 board does to the core.  It is a run of inputs, except that a write of the device
  settings comes apart: between the store of the record and its announcement the Wi-Fi transport may
  change its state, drop clients and make the core announce that.  The moves below are the inputs and
  the two halves of such a write; they keep the invariant of the core.
\<close>

section \<open>Moves\<close>

datatype move = Input input | Stored meshpigeon_SetDeviceSettings sink | Announced u32 sink

fun on_move :: "move \<Rightarrow> command_processor \<Rightarrow> command_processor" where
  "on_move (Input i) s = on_input i s"
| "on_move (Stored m from) s = store_device_settings m from s"
| "on_move (Announced rid from) s = announce_device_settings rid from s"

fun move_ok :: "move \<Rightarrow> command_processor \<Rightarrow> bool" where
  "move_ok (Input i) s = input_ok i"
| "move_ok (Stored m from) s = (is_authorized s from \<and> \<not> invalid_request m \<and> settings_request_wf m)"
| "move_ok (Announced rid from) s = True"

fun moves_ok :: "move list \<Rightarrow> command_processor \<Rightarrow> bool" where
  "moves_ok [] s = True"
| "moves_ok (m # ms) s = (move_ok m s \<and> moves_ok ms (on_move m s))"

fun live_along :: "move list \<Rightarrow> command_processor \<Rightarrow> bool" where
  "live_along [] s = True"
| "live_along (m # ms) s = (live s \<and> live_along ms (on_move m s))"

lemma moves_ok_append: "moves_ok (ms @ ns) s \<longleftrightarrow> moves_ok ms s \<and> moves_ok ns (fold on_move ms s)"
  by (induction ms arbitrary: s) simp_all

lemma move_inv:
  assumes "cp_inv s" "live s" "move_ok m s"
  shows "cp_inv (on_move m s)"
proof (cases m)
  case (Input i)
  have "cp_step s i (on_input i s)" using assms Input by (simp add: cp_step_iff)
  then show ?thesis using cp_inv_step assms(1) by (simp add: Input)
next
  case (Stored msg k)
  then show ?thesis using assms by (simp add: store_rewritten inv_rewritten settings_request_wf_def char_field_def)
next
  case (Announced rid k)
  then show ?thesis using assms(1) by (simp add: announce_device_settings_def say_simps inv_intros)
qed

lemma moves_inv: "cp_inv s \<Longrightarrow> moves_ok ms s \<Longrightarrow> live_along ms s \<Longrightarrow> cp_inv (fold on_move ms s)"
  by (induction ms arbitrary: s) (simp_all add: move_inv)

text \<open>A processor with hooks keeps them.\<close>

definition moved :: "command_processor \<Rightarrow> command_processor \<Rightarrow> bool" where
  "moved s t \<longleftrightarrow> (cp_hooks s \<noteq> None \<longrightarrow> cp_hooks t \<noteq> None \<and> (\<exists>ms. moves_ok ms s \<and> t = fold on_move ms s))"

lemma moved_refl [simp]: "moved s s"
  unfolding moved_def by (metis fold_simps(1) moves_ok.simps(1))

lemma moved_trans:
  assumes "moved s t" "moved t u"
  shows "moved s u"
  unfolding moved_def
proof
  assume "cp_hooks s \<noteq> None"
  then obtain ms ns where "moves_ok ms s" "t = fold on_move ms s" "moves_ok ns t" "u = fold on_move ns t" "cp_hooks u \<noteq> None"
    using assms unfolding moved_def by blast
  then show "cp_hooks u \<noteq> None \<and> (\<exists>ms. moves_ok ms s \<and> u = fold on_move ms s)"
    by (intro conjI exI [of _ "ms @ ns"]) (simp_all add: moves_ok_append)
qed

lemma moved_move: "move_ok m s \<Longrightarrow> (cp_hooks s \<noteq> None \<Longrightarrow> cp_hooks (on_move m s) \<noteq> None) \<Longrightarrow> moved s (on_move m s)"
  unfolding moved_def by (intro impI conjI exI [of _ "[m]"]) simp_all

lemma moved_input: "input_ok i \<Longrightarrow> moved s (on_input i s)"
  using moved_move [of "Input i" s] hooks_input by simp

section \<open>The Wi-Fi transport\<close>

lemma wifi_hooks_ok: "hooks_ok (Some (wifi_hooks w))"
proof -
  have "(replicate 33 0)[0 := 0] = replicate 33 (0 :: byte)" by (simp add: list_update_same_conv)
  then show ?thesis
    by (simp add: hooks_ok_def wifi_hooks_def wifi_fill_status_def Status_ok_def Status_init_zero_def Let_def)
qed

lemma moved_answered: "moved (wf_proc w) (answered_by w)"
proof (cases "cp_hooks (wf_proc w) = None")
  case False
  then have "answered_by w = on_input (Hooks (wifi_hooks w)) (wf_proc w)" by (simp add: answered_by_def)
  then show ?thesis using moved_input [of "Hooks (wifi_hooks w)" "wf_proc w"] wifi_hooks_ok by simp
qed (simp add: moved_def)

named_theorems moved_intros \<open>what a board does to the core is a run of moves\<close>

lemma moved_processor [moved_intros]:
  assumes "moved s (wf_proc w)" "moved (answered_by w) (f (answered_by w))"
  shows "moved s (wf_proc (with_processor t f w))"
  unfolding with_processor_answered(1) using assms moved_answered moved_trans by blast

lemma moved_wifi_changed: "moved s (on_wifi_state_changed s)"
  using moved_input [of Wifi_Changed s] by simp

lemma moved_sinks:
  "moved s (remove_sink k s)" "moved s (fst (add_sink k s))" "moved s (s\<lparr>cp_authenticated := (cp_authenticated s)(k := False)\<rparr>)"
  using moved_input [of "Detach k" s] moved_input [of "Attach k" s] moved_input [of "Session_End k" s] by simp_all

lemma moved_set_state [moved_intros]: "moved s (wf_proc w) \<Longrightarrow> moved s (wf_proc (set_state t st w))"
  unfolding set_state_def using moved_processor [of s "w\<lparr>wf_state := st\<rparr>"] moved_wifi_changed by simp

lemma moved_drop [moved_intros]: "moved s (wf_proc w) \<Longrightarrow> moved s (wf_proc (drop_client i w))"
  using moved_trans [OF _ moved_sinks(1)] by (simp add: drop_client_def)

lemma moved_fold_drop [moved_intros]: "moved s (wf_proc w) \<Longrightarrow> moved s (wf_proc (fold drop_client xs w))"
  by (induction xs arbitrary: w) (simp_all add: moved_drop)

lemma moved_stop_server [moved_intros]: "moved s (wf_proc w) \<Longrightarrow> moved s (wf_proc (stop_server w))"
  by (simp add: stop_server_def Let_def moved_fold_drop)

lemma moved_start_server [moved_intros]: "moved s (wf_proc w) \<Longrightarrow> moved s (wf_proc (start_server t w))"
  by (simp add: start_server_def Let_def moved_stop_server)

lemma moved_wifi_apply [moved_intros]: "moved s (wf_proc w) \<Longrightarrow> moved s (wf_proc (wifi_apply t d w))"
  by (simp add: wifi_apply_def wifi_disconnect_def connect_start_def begin_link_def Let_def moved_intros)

lemma moved_wifi_begin [moved_intros]: "moved s (wf_proc w) \<Longrightarrow> moved s (wf_proc (wifi_begin t h w))"
  by (simp add: wifi_begin_def Let_def moved_intros)

lemma moved_drive_link [moved_intros]: "moved s (wf_proc w) \<Longrightarrow> moved s (wf_proc (drive_link t w))"
  by (simp add: drive_link_def begin_link_def Let_def moved_intros)

lemma moved_accept [moved_intros]:
  assumes "moved s (wf_proc w)"
  shows "moved s (wf_proc (accept_clients t w))"
proof (cases "List.find (\<lambda>i. \<not> wc_in_use (wf_clients w ! i)) [0..<kMaxClients]")
  case None
  then show ?thesis using assms by (simp add: accept_clients_def)
next
  case (Some i)
  let ?p = "(wf_proc w)\<lparr>cp_authenticated := (cp_authenticated (wf_proc w))(tcp i := False)\<rparr>"
  have "moved s (fst (add_sink (tcp i) ?p))" using moved_trans [OF assms] moved_trans moved_sinks by blast
  moreover obtain q ok where "add_sink (tcp i) ?p = (q, ok)" by (metis surj_pair)
  ultimately show ?thesis using assms Some by (simp add: accept_clients_def Let_def split: bool.split)
qed

text \<open>An envelope is one move, or the two halves of a write with the transport's moves between them.\<close>

lemma settings_update_ok:
  assumes "settings_update env k s = Some (rid, m)"
  shows "is_authorized s k" "\<not> invalid_request m" "settings_request_wf m"
  using assms decode_request_wf [of env]
  by (auto simp: settings_update_def request_wf_def split: option.splits cr_body.splits if_splits)

lemma moved_envelope [moved_intros]:
  assumes "moved s (wf_proc w)"
  shows "moved s (wf_proc (wifi_on_envelope lora t k w env))"
proof (cases "settings_update env k (answered_by w)")
  case None
  have "moved (answered_by w) (on_envelope lora env (Some k) (answered_by w))"
    using moved_input [of "Envelope lora env k" "answered_by w"] by simp
  then show ?thesis using None assms moved_processor [of s w] by (simp add: wifi_on_envelope_def answered_by_def)
next
  case (Some r)
  obtain rid m where r: "r = (rid, m)" by (metis surj_pair)
  note ok = settings_update_ok [OF Some [unfolded r]]
  define u where "u = with_processor t (store_device_settings m k) w"
  let ?v = "if wifi_touched m then wifi_apply t (cp_device (wf_proc u)) u else u"
  have hooks: "cp_hooks (store_device_settings m k (answered_by w)) \<noteq> None"
    by (simp add: store_rewritten rewritten_def answered_by_def Let_def)
  have "moved (answered_by w) (store_device_settings m k (answered_by w))"
    using moved_move [of "Stored m k" "answered_by w"] ok hooks by simp
  then have "moved s (wf_proc u)" unfolding u_def by (rule moved_processor [OF assms])
  then have v: "moved s (wf_proc ?v)" by (simp add: moved_intros)
  have "moved (answered_by ?v) (announce_device_settings rid k (answered_by ?v))"
    using moved_move [of "Announced rid k" "answered_by ?v"] by (simp add: announce_device_settings_def say_simps)
  then have "moved s (wf_proc (with_processor t (announce_device_settings rid k) ?v))" by (rule moved_processor [OF v])
  moreover have "wifi_on_envelope lora t k w env = with_processor t (announce_device_settings rid k) ?v"
    using Some by (simp add: wifi_on_envelope_def answered_by_def r u_def Let_def)
  ultimately show ?thesis by simp
qed

section \<open>The board\<close>

lemma esp_events_wifi: "eb_wifi (fold (esp_event ep) es b) = eb_wifi b"
proof (induction es arbitrary: b)
  case (Cons e es)
  have "eb_wifi (esp_event ep e b) = eb_wifi b"
    by (cases e) (simp_all add: esp_event_def esp_reboot_now_def set_name_effect esp_proc_def)
  then show ?case using Cons by simp
qed simp

lemma moved_call [moved_intros]:
  assumes "moved s (esp_proc b)" "\<And>w. moved (wf_proc w) (wf_proc (f w))"
  shows "moved s (esp_proc (esp_call ep t f b))"
proof (cases "eb_restarted b")
  case False
  have "esp_proc (esp_call ep t f b) = wf_proc (f (esp_asks ep t b))" by (simp add: esp_call_is [OF False] esp_proc_def esp_events_wifi)
  then show ?thesis using moved_trans [OF assms(1)] assms(2) [of "esp_asks ep t b"] by simp
qed (simp add: esp_call_def assms(1))

lemma moved_esp_envelope [moved_intros]: "moved s (esp_proc b) \<Longrightarrow> moved s (esp_proc (esp_envelope ep t k b env))"
  unfolding esp_envelope_def by (intro moved_intros moved_refl)

lemma moved_esp_drain [moved_intros]:
  "moved s (esp_proc b) \<Longrightarrow> moved s (esp_proc (fst (snd (drain_loop n (esp_envelope ep t k) reader b src))))"
  by (rule drain_loop_keeps [where P = "\<lambda>v. moved s (esp_proc v)"]) (simp_all add: moved_esp_envelope)

lemma moved_usb [moved_intros]:
  assumes "moved s (esp_proc b)"
  shows "moved s (esp_proc (esp_usb_pump ep t b))"
proof -
  obtain reader v rx where d: "drain_frames (esp_envelope ep t usb) (eb_usb_reader b) b (eb_usb_in b) = (reader, v, rx)" by (metis surj_pair)
  have "moved s (esp_proc v)"
    using moved_esp_drain [OF assms, of FRAME_MAX_DRAIN_BYTES_PER_PUMP ep t usb "eb_usb_reader b" "eb_usb_in b"] d
    by (simp add: drain_frames_def)
  then show ?thesis by (simp add: esp_usb_pump_def d esp_proc_def)
qed

lemma moved_admit: "moved (bs_proc c) (bs_proc (fst (slot_admit i c)))"
proof -
  obtain q ok where "add_sink (central i) (bs_proc c) = (q, ok)" by (metis surj_pair)
  then show ?thesis
    using moved_sinks(1) [of "bs_proc c" "central i"] moved_sinks(2) [of "bs_proc c" "central i"]
    by (auto simp: slot_admit_def Let_def split: bool.split)
qed

lemma drain_source_keeps:
  "(\<And>p env. P p \<Longrightarrow> P (f p env)) \<Longrightarrow> P proc \<Longrightarrow> P (fst (snd (drain_source avail rd n f reader proc src)))"
  by (induction avail rd n f reader proc src rule: drain_source.induct) (auto split: prod.split feed_result.split)

lemma moved_esp_slot [moved_intros]:
  assumes "moved s (esp_proc b)"
  shows "moved s (esp_proc (esp_pump_slot ep t i b))"
proof -
  obtain c drain where c: "slot_admit i (ble_of b) = (c, drain)" by (metis surj_pair)
  have v: "moved s (esp_proc (put_ble c b))" using moved_trans [OF assms] moved_admit [of "ble_of b" i] by (simp add: c)
  have "moved s (esp_proc (esp_drain_conn ep t i v))" if "moved s (esp_proc v)" for v :: "('a, 'b) esp_board"
  proof -
    obtain reader u rx where u: "drain_source rf_available rf_read FRAME_MAX_DRAIN_BYTES_PER_PUMP (esp_envelope ep t (central i))
        (cn_reader (eb_conns v ! i)) v (cn_rx (eb_conns v ! i)) = (reader, u, rx)" by (metis surj_pair)
    have "moved s (esp_proc u)"
      using drain_source_keeps [where P = "\<lambda>v. moved s (esp_proc v)" and f = "esp_envelope ep t (central i)", OF moved_esp_envelope that,
          of rf_available rf_read FRAME_MAX_DRAIN_BYTES_PER_PUMP "cn_reader (eb_conns v ! i)" "cn_rx (eb_conns v ! i)"]
      by (simp add: u)
    then show ?thesis by (simp add: esp_drain_conn_def u)
  qed
  then show ?thesis using v assms by (simp add: esp_pump_slot_def c Let_def)
qed

lemma moved_esp_socket [moved_intros]:
  "moved s (esp_proc b) \<Longrightarrow> moved s (esp_proc (fst (snd (esp_drain_socket ep t i n reader b src))))"
proof (induction ep t i n reader b src rule: esp_drain_socket.induct)
  case (3 ep t i budget reader b x src)
  obtain reader' res where feed: "frame_reader_feed x reader = (reader', res)" by (metis surj_pair)
  moreover have "moved s (esp_proc (esp_envelope ep t (tcp i) b env))" for env by (rule moved_esp_envelope [OF 3(4)])
  ultimately show ?case using 3 by (cases res) simp_all
qed simp_all

lemma moved_esp_client [moved_intros]:
  assumes "moved s (esp_proc b)"
  shows "moved s (esp_proc (esp_pump_client ep t i b))"
proof -
  obtain reader v rest where d: "esp_drain_socket ep t i FRAME_MAX_DRAIN_BYTES_PER_PUMP (wc_reader (wf_clients (eb_wifi b) ! i)) b
      (wt_received (et_wifi t) i) = (reader, v, rest)" by (metis surj_pair)
  have "moved s (esp_proc v)" using moved_esp_socket [OF assms, of ep t i] d by (metis fst_conv snd_conv)
  then have "moved s (esp_proc (esp_drain_client ep t i b))" by (simp add: esp_drain_client_def d) (simp add: esp_proc_def)
  moreover have "moved s (esp_proc (x\<lparr>eb_wifi := drop_client i (eb_wifi x)\<rparr>))" if "moved s (esp_proc x)" for x :: "('a, 'b) esp_board"
    using that moved_drop by (simp add: esp_proc_def)
  ultimately show ?thesis
    using assms unfolding esp_pump_client_def Let_def by (simp only: simp_thms split: if_split)
qed

lemma moved_esp_wifi [moved_intros]:
  assumes "moved s (esp_proc b)"
  shows "moved s (esp_proc (esp_wifi_pump ep t b))"
proof -
  have "moved s (esp_proc x) \<Longrightarrow> moved s (esp_proc (fold (esp_pump_client ep t) is x))" for "is" and x :: "('a, 'b) esp_board"
    by (induction "is" arbitrary: x) (simp_all add: moved_esp_client)
  moreover have "moved s (esp_proc (esp_call ep t (accept_clients (et_wifi t)) (esp_call ep t (drive_link (et_wifi t)) b)))"
    by (intro moved_intros moved_refl assms)
  ultimately show ?thesis using assms by (simp add: esp_wifi_pump_def Let_def)
qed

lemma moved_esp_radio [moved_intros]:
  assumes chip: "chip_spec (np_chip ep) mode tun" and "moved s (esp_proc b)"
  shows "moved s (esp_proc (esp_radio_loop ep t b))"
proof -
  have poll: "moved p (processor_poll lora now p)" for lora now p using moved_input [of "Poll lora now" p] by simp
  have v: "moved s (esp_proc (esp_poll ep t b))"
    unfolding esp_poll_def Let_def using assms(2) by (intro moved_intros moved_refl poll) simp
  obtain got p where got: "lora_receive (np_chip ep) (np_traits ep) (eb_port (esp_poll ep t b)) = (got, p)" by (metis surj_pair)
  have "moved s (esp_proc (esp_call ep t (with_processor (et_wifi t) (\<lambda>s. fst (on_packet_received rssi snr raw s))) ((esp_poll ep t b)\<lparr>eb_port := p\<rparr>)))"
    if g: "got = Some (raw, rssi, snr)" for raw rssi snr
  proof -
    have "length raw \<le> MESHPIGEON_MAX_RAW_PACKET"
      using got g chip unfolding chip_spec_def
      by (auto simp: lora_receive_def Let_def split_def split: if_splits option.splits prod.splits)
    then have "moved q (fst (on_packet_received rssi snr raw q))" for q
      using moved_input [of "Received rssi snr raw" q] by (simp add: protocol_limits)
    then show ?thesis using v by (intro moved_intros moved_refl) simp_all
  qed
  then show ?thesis using v by (cases got) (auto simp: esp_radio_loop_def got Let_def)
qed

lemma moved_callback:
  assumes "from_host e"
  shows "moved (bs_proc (bw_ble w)) (bs_proc (bw_ble (ble_on e w)))"
proof -
  have "moved (bs_proc (bw_ble w)) (bs_proc (onConnect h (bw_ble w)))" for h
    using moved_sinks(3) by (auto simp: onConnect_def claim_def ble_call_def Let_def split: option.split)
  then show ?thesis
    using assms by (cases e) (simp_all add: onDisconnect_def onSubscribe_def onWrite_def split: option.split)
qed

lemma moved_step:
  assumes "esp_step ep (b, links) (b', links')" "chip_spec (np_chip ep) mode tun" "moved s (esp_proc b)"
  shows "moved s (esp_proc b')"
  using assms(1)
proof (cases rule: esp_step.cases)
  case (called_back w e)
  then show ?thesis using moved_trans [OF assms(3)] moved_callback [of e w] by simp
qed (use assms(2,3) in \<open>auto simp: until_restart_def esp_delay_def moved_intros, simp_all add: esp_proc_def\<close>)

section \<open>Properties\<close>

lemma moved_setup:
  assumes "store_bytes < 2 ^ 32" "persisted_ok persist"
  shows "\<exists>s. cp_reachable s \<and> cp_trace s \<noteq> [] \<and> cp_hooks s \<noteq> None \<and>
    moved s (esp_proc (esp_setup ep t store_bytes calloc_ok boots persist r d resp bufs c l))"
proof -
  define hooks where "hooks = default_hooks\<lparr>hk_mac_suffix := mac_suffix (np_address ep), hk_fill_status := board_fill_status\<rparr>"
  define s where "s = powered_on (boot_lora ep c) store_bytes calloc_ok (set_boot_count (boots + 1) uptime_clock_new) persist
    (kBoardName (np_board ep)) kFwVersion r d resp (Some hooks)"
  have "hooks_ok (Some hooks)" by (simp add: hooks_ok_def hooks_def board_fill_status_def Status_ok_def Status_init_zero_def)
  then have s: "cp_reachable s" "cp_trace s \<noteq> []" "cp_hooks s \<noteq> None"
    unfolding s_def by (intro booted assms, simp_all add: boot_state)
  have "moved s (esp_proc (esp_setup ep t store_bytes calloc_ok boots persist r d resp bufs c l))"
    unfolding esp_setup_def hooks_def [symmetric] s_def [symmetric] Let_def
    by (intro moved_intros moved_refl)
       (simp add: set_name_effect ble_begin_def ble_call_def moved_sinks, simp add: esp_proc_def esp_events_wifi wifi_transport_new_def moved_sinks)
  with s show ?thesis by blast
qed

lemma esp_reachable_moved:
  assumes chip: "chip_spec (np_chip ep) mode tun" and "esp_reachable ep w"
  shows "\<exists>s. cp_reachable s \<and> cp_trace s \<noteq> [] \<and> cp_hooks s \<noteq> None \<and> moved s (esp_proc (fst w))"
  using assms(2)
proof (induction rule: esp_reachable.induct)
  case (stepped w w')
  then show ?case using moved_step [OF _ chip, of "fst w" "snd w" "fst w'" "snd w'"] by fastforce
next
  case set_up
  then show ?case unfolding fst_conv by (intro moved_setup)
qed



end
