(* ===== verification/Simulator.thy ===== *)
theory Simulator
  imports Sessions RxFifo
begin

text \<open>
  The desktop simulator: the scripted radio \<open>SimRadio\<close> (\<open>include/meshpigeon/sim_radio.h\<close>) and the
  main loop around the core (\<open>src/sim_main.cpp\<close>).

  Its globals form the record \<open>sim_world\<close>.  A client is a sink address and a reader; what \<open>recv\<close>
  returns for it in one round of the loop is an argument, like whether a connection is waiting.  The
  radio answers a call of the core from its state; the calls the core made, read off the events it
  emitted, then move that state.
\<close>

section \<open>The radio\<close>

record sim_radio =
  sr_rng :: u32
  sr_loss_pct :: u8
  sr_dup_pct :: u8
  sr_applied :: radio_settings
  sr_last_tx :: "byte list"
  sr_tx_count :: nat
  sr_tx_active :: bool
  sr_tx_ticks_left :: int
  sr_air :: "byte list list"

definition kTxTicks :: int where "kTxTicks = 3"

definition sim_radio_new :: "u32 \<Rightarrow> radio_settings \<Rightarrow> byte list \<Rightarrow> sim_radio" where
  "sim_radio_new seed applied last_tx = \<lparr>sr_rng = seed, sr_loss_pct = 0, sr_dup_pct = 0, sr_applied = applied, sr_last_tx = last_tx,
     sr_tx_count = 0, sr_tx_active = False, sr_tx_ticks_left = kTxTicks, sr_air = []\<rparr>"

definition sim_rng :: "sim_radio \<Rightarrow> u32 \<times> sim_radio" where
  "sim_rng r = (let x = sr_rng r * 1103515245 + 12345 in (drop_bit 16 x AND 0x7FFF, r\<lparr>sr_rng := x\<rparr>))"

definition sim_loss :: "sim_radio \<Rightarrow> int \<times> sim_radio" where
  "sim_loss r = (let (x, r) = sim_rng r in (uint (x mod 100), r))"

definition sim_apply :: "radio_settings \<Rightarrow> sim_radio \<Rightarrow> bool \<times> sim_radio" where
  "sim_apply s r = (rs_freq_hz s \<ge> 150000000 \<and> rs_sf s \<ge> 5 \<and> rs_sf s \<le> 12, r\<lparr>sr_applied := s\<rparr>)"

text \<open>The length is the caller's, cast to \<open>uint8_t\<close>.\<close>

definition sim_transmit :: "byte list \<Rightarrow> sim_radio \<Rightarrow> int \<times> sim_radio" where
  "sim_transmit raw r =
     (let (x, r) = sim_loss r in
      if x < uint (sr_loss_pct r) then (- 1, r)
      else (0, r\<lparr>sr_last_tx := take (length raw mod 256) raw, sr_tx_count := sr_tx_count r + 1, sr_tx_active := True\<rparr>))"

definition sim_tx_done :: "sim_radio \<Rightarrow> bool \<times> sim_radio" where
  "sim_tx_done r =
     (if \<not> sr_tx_active r then (True, r)
      else let r = r\<lparr>sr_tx_ticks_left := sr_tx_ticks_left r - 1\<rparr> in
        if sr_tx_ticks_left r \<le> 0
        then let r = r\<lparr>sr_tx_active := False\<rparr>;
                 (x, r) = sim_loss r;
                 r = (if x \<ge> uint (sr_loss_pct r)
                      then let r = r\<lparr>sr_air := sr_air r @ [sr_last_tx r]\<rparr>; (y, r) = sim_loss r
                           in if y < uint (sr_dup_pct r) then r\<lparr>sr_air := sr_air r @ [sr_last_tx r]\<rparr> else r
                      else r)
             in (True, r\<lparr>sr_tx_ticks_left := kTxTicks\<rparr>)
        else (False, r))"

definition sim_receive :: "sim_radio \<Rightarrow> (byte list \<times> byte \<times> byte) option \<times> sim_radio" where
  "sim_receive r =
     (case sr_air r of
        [] \<Rightarrow> (None, r)
      | p # air \<Rightarrow>
          let (x, r) = sim_rng r; (y, r) = sim_rng r
          in (Some (p, - 60 - ucast (x mod 40), ucast (y mod 12)), r\<lparr>sr_air := air\<rparr>))"

definition sim_inject :: "byte list \<Rightarrow> sim_radio \<Rightarrow> sim_radio" where
  "sim_inject raw r = r\<lparr>sr_air := sr_air r @ [raw]\<rparr>"

definition set_loss :: "u8 \<Rightarrow> sim_radio \<Rightarrow> sim_radio" where
  "set_loss pct r = r\<lparr>sr_loss_pct := pct\<rparr>"

definition set_dup :: "u8 \<Rightarrow> sim_radio \<Rightarrow> sim_radio" where
  "set_dup pct r = r\<lparr>sr_dup_pct := pct\<rparr>"

text \<open>What the radio answers in a state, and where the calls of the core leave it.\<close>

definition sim_lora :: "sim_radio \<Rightarrow> lora_radio" where
  "sim_lora r = \<lparr>lr_begin = True, lr_apply = (\<lambda>s. fst (sim_apply s r)), lr_transmit = (\<lambda>raw. fst (sim_transmit raw r)),
     lr_tx_done = fst (sim_tx_done r)\<rparr>"

fun radio_after :: "event list \<Rightarrow> sim_radio \<Rightarrow> sim_radio" where
  "radio_after [] r = r"
| "radio_after (e # es) r = radio_after es (case e of
     Radio_Apply s \<Rightarrow> snd (sim_apply s r) | Radio_Transmit raw \<Rightarrow> snd (sim_transmit raw r) | _ \<Rightarrow> r)"

section \<open>The world\<close>

record sim_client =
  sc_sink :: sink
  sc_reader :: frame_reader

record sim_world =
  sw_proc :: command_processor
  sw_radio :: sim_radio
  sw_millis :: u32
  sw_fake_wifi :: bool
  sw_fake_state :: u32
  sw_fake_changed_ms :: u32
  sw_tcp_clients :: nat
  sw_last_traffic :: u32
  sw_clients :: "sim_client list"
  sw_next :: sink

datatype recv_result = Recv_Closed | Recv_Nothing | Recv_Dead | Recv "byte list"

section \<open>Hooks\<close>

text \<open>\<open>''sim-net''\<close> and \<open>''A3F2''\<close>, and the copy \<open>strncpy\<close> makes of them.\<close>

definition sim_fill_capabilities :: "u32 list \<Rightarrow> nat \<Rightarrow> u32 list \<times> u16" where
  "sim_fill_capabilities out limit =
     foldl (\<lambda>(out, n) c. (if unat n < limit then out[unat n := c] else out, n + 1)) (out, 0) [CAPABILITY_WIFI_STA]"

definition sim_fill_status :: "u32 \<Rightarrow> meshpigeon_Status \<Rightarrow> meshpigeon_Status" where
  "sim_fill_status state status =
     (let status = status\<lparr>st_wifi_state := state\<rparr> in
      if state = WIFI_STATE_CONNECTED
      then status\<lparr>st_wifi_ssid := copy_str (length (st_wifi_ssid status)) [0x73, 0x69, 0x6D, 0x2D, 0x6E, 0x65, 0x74, 0],
             st_wifi_ipv4 := [192, 168, 1, 50], st_wifi_port := 5000, st_wifi_rssi := - 55\<rparr>
      else status)"

definition sim_hooks :: "u32 \<Rightarrow> nat \<Rightarrow> board_hooks" where
  "sim_hooks state clients = default_hooks\<lparr>hk_mac_suffix := (\<lambda>out. [0x41, 0x33, 0x46, 0x32, 0]), hk_wifi_supported := True,
     hk_fill_capabilities := sim_fill_capabilities, hk_fill_status := sim_fill_status state,
     hk_wifi_tcp_clients := of_nat clients\<rparr>"

section \<open>The loop\<close>

text \<open>A call into the core.\<close>

definition with_core :: "(lora_radio \<Rightarrow> command_processor \<Rightarrow> command_processor) \<Rightarrow> sim_world \<Rightarrow> sim_world" where
  "with_core f w =
     (let s = (sw_proc w)\<lparr>cp_hooks := Some (sim_hooks (sw_fake_state w) (sw_tcp_clients w))\<rparr>; s' = f (sim_lora (sw_radio w)) s
      in w\<lparr>sw_proc := s', sw_radio := radio_after (drop (length (cp_trace s)) (cp_trace s')) (sw_radio w)\<rparr>)"

text \<open>\<open>poll\<close> asks the radio only while a send is pending.\<close>

definition sim_poll :: "sim_world \<Rightarrow> sim_world" where
  "sim_poll w =
     (let w' = with_core (\<lambda>lora. processor_poll lora (sw_millis w)) w
      in if cp_tx_pending (sw_proc w) then w'\<lparr>sw_radio := snd (sim_tx_done (sw_radio w))\<rparr> else w')"

definition fake_wifi_tick :: "sim_world \<Rightarrow> sim_world" where
  "fake_wifi_tick w =
     (if \<not> sw_fake_wifi w then w
      else let now = sw_millis w in
        if sw_fake_state w = WIFI_STATE_OFF
        then with_core (\<lambda>lora. on_wifi_state_changed) (w\<lparr>sw_fake_state := WIFI_STATE_CONNECTING, sw_fake_changed_ms := now\<rparr>)
        else if sw_fake_state w = WIFI_STATE_CONNECTING \<and> now - sw_fake_changed_ms w \<ge> 2000
        then with_core (\<lambda>lora. on_wifi_state_changed) (w\<lparr>sw_fake_state := WIFI_STATE_CONNECTED, sw_fake_changed_ms := now\<rparr>)
        else w)"

text \<open>The synthetic packet: a type byte, the time in host order (little-endian), the text with its NUL.\<close>

definition sim_text :: "byte list" where
  "sim_text = map (\<lambda>c. of_char c) ''sim: hello from the desktop mesh''"

definition sim_traffic :: "u32 \<Rightarrow> byte list" where
  "sim_traffic now = 0x45 # put_u32 now @ sim_text @ [0]"

definition sim_loop_tick :: "u32 \<Rightarrow> sim_world \<Rightarrow> sim_world" where
  "sim_loop_tick traffic_ms w =
     (let w = w\<lparr>sw_millis := sw_millis w + 1\<rparr>;
          w = sim_poll w;
          w = fake_wifi_tick w;
          w = (if traffic_ms > 0 \<and> sw_millis w - sw_last_traffic w \<ge> traffic_ms
               then w\<lparr>sw_last_traffic := sw_millis w, sw_radio := sim_inject (sim_traffic (sw_millis w)) (sw_radio w)\<rparr>
               else w);
          (got, r) = sim_receive (sw_radio w);
          w = w\<lparr>sw_radio := r\<rparr>
      in case got of
           None \<Rightarrow> w
         | Some (raw, rssi, snr) \<Rightarrow> with_core (\<lambda>lora s. fst (on_packet_received rssi snr raw s)) w)"

text \<open>\<open>Client::pump\<close> of client \<open>i\<close>.\<close>

definition sim_envelope :: "sink \<Rightarrow> sim_world \<Rightarrow> byte list \<Rightarrow> sim_world" where
  "sim_envelope k w env = with_core (\<lambda>lora. on_envelope lora env (Some k)) w"

definition sim_pump :: "(sink \<Rightarrow> recv_result) \<Rightarrow> nat \<Rightarrow> sim_world \<Rightarrow> bool \<times> sim_world" where
  "sim_pump recv i w =
     (let c = sw_clients w ! i in
      case recv (sc_sink c) of
        Recv_Closed \<Rightarrow> (False, w)
      | Recv_Nothing \<Rightarrow> (True, w)
      | Recv_Dead \<Rightarrow> (False, w)
      | Recv buf \<Rightarrow>
          let (reader, w, rest) = drain_frames (sim_envelope (sc_sink c)) (sc_reader c) w buf
          in (True, w\<lparr>sw_clients := (sw_clients w)[i := c\<lparr>sc_reader := reader\<rparr>]\<rparr>))"

definition sim_drop :: "nat \<Rightarrow> sim_world \<Rightarrow> sim_world" where
  "sim_drop i w =
     (let w = w\<lparr>sw_proc := remove_sink (sc_sink (sw_clients w ! i)) (sw_proc w)\<rparr>;
          w = w\<lparr>sw_clients := take i (sw_clients w) @ drop (Suc i) (sw_clients w)\<rparr>
      in w\<lparr>sw_tcp_clients := length (sw_clients w)\<rparr>)"

text \<open>The loop over \<open>clients\<close>; \<open>n\<close> bounds the rounds, and the number of clients is enough of them.\<close>

fun sim_pump_from :: "nat \<Rightarrow> (sink \<Rightarrow> recv_result) \<Rightarrow> nat \<Rightarrow> sim_world \<Rightarrow> sim_world" where
  "sim_pump_from 0 recv i w = w"
| "sim_pump_from (Suc n) recv i w =
     (if i < length (sw_clients w)
      then case sim_pump recv i w of
             (False, w) \<Rightarrow> sim_pump_from n recv i (sim_drop i w)
           | (True, w) \<Rightarrow> sim_pump_from n recv (i + 1) w
      else w)"

definition sim_accept :: "sim_world \<Rightarrow> sim_world" where
  "sim_accept w =
     (let k = sw_next w;
          s = (sw_proc w)\<lparr>cp_authenticated := (cp_authenticated (sw_proc w))(k := False)\<rparr>;
          w = w\<lparr>sw_next := k + 1\<rparr>
      in case add_sink k s of
           (s, False) \<Rightarrow> w\<lparr>sw_proc := s\<rparr>
         | (s, True) \<Rightarrow>
             let w = w\<lparr>sw_proc := s, sw_clients := sw_clients w @ [\<lparr>sc_sink = k, sc_reader = frame_reader_reset\<rparr>]\<rparr>
             in w\<lparr>sw_tcp_clients := length (sw_clients w)\<rparr>)"

text \<open>One round of \<open>while (true)\<close>: what \<open>select\<close> found, then the tick.\<close>

definition sim_round :: "u32 \<Rightarrow> bool \<Rightarrow> bool \<Rightarrow> (sink \<Rightarrow> recv_result) \<Rightarrow> sim_world \<Rightarrow> sim_world" where
  "sim_round traffic_ms ready accepted recv w =
     (let w = (if \<not> ready then w
               else let w = (if accepted then sim_accept w else w)
                    in sim_pump_from (length (sw_clients w)) recv 0 w)
      in sim_loop_tick traffic_ms w)"

text \<open>
  \<open>main\<close> up to the loop, with the command line already read; what uninitialised members hold is an
  argument.
\<close>

definition sim_start :: "nat \<Rightarrow> u8 \<Rightarrow> u8 \<Rightarrow> bool \<Rightarrow> bool \<Rightarrow> radio_settings \<Rightarrow> byte list \<Rightarrow> device_settings
    \<Rightarrow> meshpigeon_RadioToClient \<Rightarrow> sim_world" where
  "sim_start store_bytes loss dup fake_wifi calloc_ok junk junk_tx d resp =
     (let r = set_dup dup (set_loss loss (sim_radio_new 1234 junk junk_tx));
          proc = powered_on (sim_lora r) store_bytes calloc_ok uptime_clock_new (memory_store_new junk)
            [0x53, 0x49, 0x4D, 0] [0x30, 0x2E, 0x31, 0x2E, 0x30, 0] junk d resp (Some (sim_hooks WIFI_STATE_OFF 0))
      in \<lparr>sw_proc = proc, sw_radio = radio_after (cp_trace proc) r, sw_millis = 0, sw_fake_wifi = fake_wifi,
          sw_fake_state = WIFI_STATE_OFF, sw_fake_changed_ms = 0, sw_tcp_clients = 0, sw_last_traffic = 0,
          sw_clients = [], sw_next = 0\<rparr>)"

section \<open>The simulator runs the core\<close>

definition air_ok :: "sim_radio \<Rightarrow> bool" where
  "air_ok r \<longleftrightarrow> length (sr_last_tx r) < 256 \<and> (\<forall>p \<in> set (sr_air r). length p < 256)"

lemma air_ok_simps [simp]:
  "air_ok (snd (sim_apply s r)) = air_ok r" "air_ok (snd (sim_rng r)) = air_ok r" "air_ok (snd (sim_loss r)) = air_ok r"
  "air_ok (r\<lparr>sr_tx_ticks_left := t\<rparr>) = air_ok r" "air_ok (r\<lparr>sr_tx_active := a\<rparr>) = air_ok r"
  by (simp_all add: air_ok_def sim_apply_def sim_rng_def sim_loss_def Let_def)

lemma sim_loss_fields [simp]:
  "sr_loss_pct (snd (sim_loss r)) = sr_loss_pct r" "sr_dup_pct (snd (sim_loss r)) = sr_dup_pct r" "sr_air (snd (sim_loss r)) = sr_air r"
  "sr_last_tx (snd (sim_loss r)) = sr_last_tx r" "sr_tx_active (snd (sim_loss r)) = sr_tx_active r"
  "sr_tx_ticks_left (snd (sim_loss r)) = sr_tx_ticks_left r"
  by (simp_all add: sim_loss_def sim_rng_def Let_def)

lemma air_ok_transmit: "air_ok r \<Longrightarrow> air_ok (snd (sim_transmit raw r))"
  by (simp add: sim_transmit_def Let_def split_def) (simp add: air_ok_def)

lemma air_ok_done: "air_ok r \<Longrightarrow> air_ok (snd (sim_tx_done r))"
  by (simp add: sim_tx_done_def Let_def split_def) (auto simp: air_ok_def)

lemma air_ok_after: "air_ok r \<Longrightarrow> air_ok (radio_after es r)"
  by (induction es arbitrary: r) (simp_all add: air_ok_transmit split: event.split)

lemma sim_receive_ok:
  assumes "air_ok r" "sim_receive r = (got, r')"
  shows "air_ok r'" "got = Some (raw, rssi, snr) \<Longrightarrow> length raw < 256"
  using assms by (auto simp: sim_receive_def air_ok_def sim_rng_def Let_def split: list.splits)

lemma sim_hooks_ok: "hooks_ok (Some (sim_hooks state clients))"
proof -
  have "padded 33 (copy_str 33 s)" for s using padded_copy_str [of 32 s] by simp
  then show ?thesis
    by (simp add: hooks_ok_def sim_hooks_def sim_fill_status_def Status_ok_def Status_init_zero_def Let_def)
qed

text \<open>What one part of the loop does with the core, given that the board answers and the air is sound.\<close>

definition sim_ok :: "sim_world \<Rightarrow> bool" where
  "sim_ok w \<longleftrightarrow> cp_hooks (sw_proc w) \<noteq> None \<and> air_ok (sw_radio w)"

definition sim_runs :: "sim_world \<Rightarrow> sim_world \<Rightarrow> bool" where
  "sim_runs w w' \<longleftrightarrow> (sim_ok w \<longrightarrow> sim_ok w' \<and> core_run (sw_proc w) (sw_proc w'))"

lemma sim_runs_refl [simp]: "sim_runs w w"
  by (simp add: sim_runs_def)

lemma sim_runs_trans: "sim_runs w v \<Longrightarrow> sim_runs v u \<Longrightarrow> sim_runs w u"
  using core_run_trans unfolding sim_runs_def by blast

lemma sim_runs_outside:
  "sw_proc w' = sw_proc w \<Longrightarrow> (air_ok (sw_radio w) \<Longrightarrow> air_ok (sw_radio w')) \<Longrightarrow> sim_runs w w'"
  by (simp add: sim_runs_def sim_ok_def)

lemma sim_runs_input:
  assumes "\<And>lora s. f lora s = on_input (i lora) s" "\<And>lora. input_ok (i lora)"
  shows "sim_runs w (with_core f w)"
  unfolding sim_runs_def
proof
  let ?h = "sim_hooks (sw_fake_state w) (sw_tcp_clients w)" and ?i = "i (sim_lora (sw_radio w))"
  assume "sim_ok w"
  then have h: "cp_hooks (sw_proc w) \<noteq> None" and air: "air_ok (sw_radio w)" by (simp_all add: sim_ok_def)
  have p: "sw_proc (with_core f w) = on_input ?i ((sw_proc w)\<lparr>cp_hooks := Some ?h\<rparr>)" by (simp add: with_core_def assms(1) Let_def)
  have "air_ok (sw_radio (with_core f w))" by (simp add: with_core_def air_ok_after air Let_def)
  then show "sim_ok (with_core f w) \<and> core_run (sw_proc w) (sw_proc (with_core f w))"
    unfolding p sim_ok_def using core_run_answering [OF h sim_hooks_ok assms(2)] by blast
qed

lemma sim_runs_tick: "sim_runs w (sim_loop_tick traffic_ms w)"
proof -
  define w1 where "w1 = w\<lparr>sw_millis := sw_millis w + 1\<rparr>"
  define w2 where "w2 = sim_poll w1"
  define w3 where "w3 = fake_wifi_tick w2"
  define w4 where "w4 = (if traffic_ms > 0 \<and> sw_millis w3 - sw_last_traffic w3 \<ge> traffic_ms
    then w3\<lparr>sw_last_traffic := sw_millis w3, sw_radio := sim_inject (sim_traffic (sw_millis w3)) (sw_radio w3)\<rparr> else w3)"
  obtain got r where got: "sim_receive (sw_radio w4) = (got, r)" by (metis surj_pair)
  have "sim_runs w w1" by (rule sim_runs_outside) (simp_all add: w1_def)
  moreover have "sim_runs w1 w2"
  proof -
    let ?v = "with_core (\<lambda>lora. processor_poll lora (sw_millis w1)) w1"
    have v: "sim_runs w1 ?v" by (rule sim_runs_input [where i = "\<lambda>lora. Poll lora (sw_millis w1)"]) simp_all
    have "sim_runs ?v (?v\<lparr>sw_radio := snd (sim_tx_done (sw_radio w1))\<rparr>)" if "air_ok (sw_radio w1)"
      by (rule sim_runs_outside) (simp_all add: that air_ok_done)
    then show ?thesis using v sim_runs_trans unfolding w2_def sim_poll_def Let_def sim_runs_def sim_ok_def by fastforce
  qed
  moreover have "sim_runs w2 w3"
  proof -
    have "sim_runs w2 (with_core (\<lambda>lora. on_wifi_state_changed) (w2\<lparr>sw_fake_state := a, sw_fake_changed_ms := b\<rparr>))" for a b
    proof (rule sim_runs_trans)
      show "sim_runs w2 (w2\<lparr>sw_fake_state := a, sw_fake_changed_ms := b\<rparr>)" by (rule sim_runs_outside) simp_all
      show "sim_runs (w2\<lparr>sw_fake_state := a, sw_fake_changed_ms := b\<rparr>)
          (with_core (\<lambda>lora. on_wifi_state_changed) (w2\<lparr>sw_fake_state := a, sw_fake_changed_ms := b\<rparr>))"
        by (rule sim_runs_input [where i = "\<lambda>_. Wifi_Changed"]) simp_all
    qed
    then show ?thesis by (simp add: w3_def fake_wifi_tick_def Let_def)
  qed
  moreover have "sim_runs w3 w4"
  proof -
    have "length (sim_traffic now) < 256" for now by (simp add: sim_traffic_def sim_text_def length_put)
    then show ?thesis by (intro sim_runs_outside) (auto simp: w4_def sim_inject_def air_ok_def)
  qed
  moreover have "sim_runs w4 (w4\<lparr>sw_radio := r\<rparr>)"
    by (rule sim_runs_outside) (simp_all add: sim_receive_ok(1) [OF _ got])
  moreover have "sim_runs w4 (with_core (\<lambda>lora s. fst (on_packet_received rssi snr raw s)) (w4\<lparr>sw_radio := r\<rparr>))"
    if "got = Some (raw, rssi, snr)" for raw rssi snr
  proof (cases "sim_ok w4")
    case True
    then have "length raw < 256" using sim_receive_ok(2) [OF _ got that] by (simp add: sim_ok_def)
    then have "sim_runs (w4\<lparr>sw_radio := r\<rparr>) (with_core (\<lambda>lora s. fst (on_packet_received rssi snr raw s)) (w4\<lparr>sw_radio := r\<rparr>))"
      by (intro sim_runs_input [where i = "\<lambda>_. Received rssi snr raw"]) simp_all
    then show ?thesis by (rule sim_runs_trans [rotated]) (rule calculation(5))
  qed (simp add: sim_runs_def)
  ultimately have "sim_runs w w4" and
    last: "sim_runs w4 (case got of None \<Rightarrow> w4\<lparr>sw_radio := r\<rparr>
       | Some (raw, rssi, snr) \<Rightarrow> with_core (\<lambda>lora s. fst (on_packet_received rssi snr raw s)) (w4\<lparr>sw_radio := r\<rparr>))"
    using sim_runs_trans by (blast, simp split: option.split)
  moreover have "sim_loop_tick traffic_ms w = (case got of None \<Rightarrow> w4\<lparr>sw_radio := r\<rparr>
       | Some (raw, rssi, snr) \<Rightarrow> with_core (\<lambda>lora s. fst (on_packet_received rssi snr raw s)) (w4\<lparr>sw_radio := r\<rparr>))"
    unfolding sim_loop_tick_def Let_def w1_def [symmetric] w2_def [symmetric] w3_def [symmetric] w4_def [symmetric] got by simp
  ultimately show ?thesis using sim_runs_trans by simp
qed

lemma sim_runs_pump: "sim_runs w (snd (sim_pump recv i w))"
proof (cases "recv (sc_sink (sw_clients w ! i))")
  case (Recv buf)
  let ?c = "sw_clients w ! i"
  obtain reader v rest where d: "drain_frames (sim_envelope (sc_sink ?c)) (sc_reader ?c) w buf = (reader, v, rest)" by (metis surj_pair)
  have "sim_runs w (fst (snd (drain_frames (sim_envelope (sc_sink ?c)) (sc_reader ?c) w buf)))"
    unfolding drain_frames_def
  proof (rule drain_loop_keeps [where P = "sim_runs w"])
    fix p env assume p: "sim_runs w p"
    have "sim_runs p (sim_envelope (sc_sink ?c) p env)"
      unfolding sim_envelope_def by (rule sim_runs_input [where i = "\<lambda>lora. Envelope lora env (sc_sink ?c)"]) simp_all
    with p show "sim_runs w (sim_envelope (sc_sink ?c) p env)" by (rule sim_runs_trans)
  qed simp
  then have "sim_runs w v" by (simp add: d)
  moreover have "sim_runs v (v\<lparr>sw_clients := cs\<rparr>)" for cs by (rule sim_runs_outside) simp_all
  ultimately have "sim_runs w (v\<lparr>sw_clients := cs\<rparr>)" for cs by (rule sim_runs_trans)
  then show ?thesis by (simp add: sim_pump_def Recv d Let_def)
qed (simp_all add: sim_pump_def)

lemma sim_runs_core_only:
  assumes "sw_proc w' = on_input i (sw_proc w)" "input_ok i" "sw_radio w' = sw_radio w"
  shows "sim_runs w w'"
  using core_run_input [OF assms(2), of "sw_proc w"] by (simp add: sim_runs_def sim_ok_def assms(1,3) hooks_input)

lemma sim_runs_drop: "sim_runs w (sim_drop i w)"
  by (rule sim_runs_core_only [of _ "Detach (sc_sink (sw_clients w ! i))"]) (simp_all add: sim_drop_def Let_def)

lemma sim_runs_pump_from: "sim_runs w (sim_pump_from n recv i w)"
proof (induction n recv i w rule: sim_pump_from.induct)
  case (2 n recv i w)
  obtain ok v where p: "sim_pump recv i w = (ok, v)" by (metis surj_pair)
  have v: "sim_runs w v" using sim_runs_pump [of w recv i] by (simp add: p)
  show ?case
  proof (cases "i < length (sw_clients w)")
    case True
    show ?thesis
    proof (cases ok)
      case True
      then have "sim_runs v (sim_pump_from n recv (i + 1) v)" using 2 \<open>i < _\<close> p by simp
      with v have "sim_runs w (sim_pump_from n recv (i + 1) v)" by (rule sim_runs_trans)
      then show ?thesis using True \<open>i < _\<close> p by simp
    next
      case False
      then have "sim_runs (sim_drop i v) (sim_pump_from n recv i (sim_drop i v))" using 2 \<open>i < _\<close> p by simp
      with sim_runs_drop have "sim_runs v (sim_pump_from n recv i (sim_drop i v))" by (rule sim_runs_trans)
      with v have "sim_runs w (sim_pump_from n recv i (sim_drop i v))" by (rule sim_runs_trans)
      then show ?thesis using False \<open>i < _\<close> p by simp
    qed
  qed simp
qed simp

lemma sim_runs_accept: "sim_runs w (sim_accept w)"
proof -
  let ?k = "sw_next w" and ?v = "w\<lparr>sw_proc := on_input (Session_End (sw_next w)) (sw_proc w)\<rparr>"
  have "sim_runs w ?v" by (rule sim_runs_core_only [of _ "Session_End ?k"]) simp_all
  moreover have "sim_runs ?v (sim_accept w)"
    by (rule sim_runs_core_only [of _ "Attach ?k"]) (simp_all add: sim_accept_def Let_def split: prod.split bool.split)
  ultimately show ?thesis by (rule sim_runs_trans)
qed

lemma sim_runs_round: "sim_runs w (sim_round traffic_ms ready accepted recv w)"
proof -
  define v where "v = (if accepted then sim_accept w else w)"
  have "sim_runs w v" by (simp add: v_def sim_runs_accept)
  then have "sim_runs w (sim_pump_from (length (sw_clients v)) recv 0 v)" by (rule sim_runs_trans) (rule sim_runs_pump_from)
  then have "sim_runs w (if \<not> ready then w else sim_pump_from (length (sw_clients v)) recv 0 v)" by simp
  from sim_runs_trans [OF this sim_runs_tick [of _ traffic_ms]]
  show ?thesis unfolding sim_round_def v_def [symmetric] Let_def by (simp only: if_cancel)
qed

text \<open>Every state of the simulator: the start, then rounds.\<close>

inductive sim_reachable :: "sim_world \<Rightarrow> bool" where
  started: "store_bytes < 2 ^ 32 \<Longrightarrow> length junk_tx < 256 \<Longrightarrow>
    sim_reachable (sim_start store_bytes loss dup fake_wifi calloc_ok junk junk_tx d resp)"
| round: "sim_reachable w \<Longrightarrow> sim_reachable (sim_round traffic_ms ready accepted recv w)"

text \<open>
  The simulator runs the core the boards run.  Whatever its clients send, when they come and
  go, however the loop is scheduled and whatever the loss, duplication and traffic options are, the
  processor of a running simulator is a processor that booted with the simulator's hooks on an empty
  settings store and then took a run of inputs, each within what the core promises to handle; so it
  is a reachable state of the core, with everything that holds of those, as long as the sequence
  counter has not run out.
\<close>

theorem simulator_runs_the_core:
  assumes "sim_reachable w"
  shows "\<exists>s is. cp_reachable s \<and> cp_trace s \<noteq> [] \<and> list_all input_ok is \<and> sw_proc w = fold on_input is s \<and>
    (steps_ok is s \<longrightarrow> cp_reachable (sw_proc w))"
proof -
  have "sim_ok w \<and> (\<exists>s. cp_reachable s \<and> cp_trace s \<noteq> [] \<and> core_run s (sw_proc w))"
    using assms
  proof (induction rule: sim_reachable.induct)
    case (started store_bytes junk_tx loss dup fake_wifi calloc_ok junk d resp)
    let ?r = "set_dup dup (set_loss loss (sim_radio_new 1234 junk junk_tx))"
    let ?w = "sim_start store_bytes loss dup fake_wifi calloc_ok junk junk_tx d resp"
    have air: "air_ok ?r" using started(2) by (simp add: air_ok_def set_dup_def set_loss_def sim_radio_new_def)
    have "cp_reachable (sw_proc ?w)"
      unfolding sim_start_def Let_def
      by (simp only: sim_world.simps) (rule booted [OF started(1) persisted_none sim_hooks_ok])
    moreover have "cp_hooks (sw_proc ?w) \<noteq> None" "cp_trace (sw_proc ?w) \<noteq> []"
      by (simp_all add: sim_start_def boot_state Let_def)
    moreover have "air_ok (sw_radio ?w)" by (simp add: sim_start_def air_ok_after air Let_def)
    ultimately show ?case using core_run_refl unfolding sim_ok_def by blast
  next
    case (round w traffic_ms ready accepted recv)
    then show ?case using sim_runs_round [of w traffic_ms ready accepted recv] core_run_trans unfolding sim_runs_def by blast
  qed
  then obtain s "is" where s: "cp_reachable s" "cp_trace s \<noteq> []" "list_all input_ok is" "sw_proc w = fold on_input is s"
    unfolding core_run_def by blast
  then show ?thesis using steps_reachable [OF s(1)] by metis
qed

definition bench_start :: sim_world where
  "bench_start = sim_start 700 0 0 False True radio_unset [] device_defaults RadioToClient_init_zero"

lemma bench_reachable: "sim_reachable bench_start"
  unfolding bench_start_def by (rule started) simp_all

lemma simulator_runs_the_core_witness:
  "\<exists>s is. cp_reachable s \<and> list_all input_ok is \<and>
     sw_proc (sim_round 0 True True (\<lambda>k. Recv_Nothing) bench_start) = fold on_input is s"
  using simulator_runs_the_core [OF round [OF bench_reachable, of 0 True True "\<lambda>k. Recv_Nothing"]] by blast

text \<open>The loop over the clients ends within as many rounds as there are clients.\<close>

lemma with_core_fields [simp]:
  "sw_clients (with_core f w) = sw_clients w" "sw_millis (with_core f w) = sw_millis w"
  "sw_fake_wifi (with_core f w) = sw_fake_wifi w" "sw_fake_state (with_core f w) = sw_fake_state w"
  "sw_fake_changed_ms (with_core f w) = sw_fake_changed_ms w" "sw_last_traffic (with_core f w) = sw_last_traffic w"
  by (simp_all add: with_core_def Let_def)

lemma sim_pump_length: "length (sw_clients (snd (sim_pump recv i w))) = length (sw_clients w)"
proof (cases "recv (sc_sink (sw_clients w ! i))")
  case (Recv buf)
  let ?c = "sw_clients w ! i"
  obtain reader v rest where d: "drain_frames (sim_envelope (sc_sink ?c)) (sc_reader ?c) w buf = (reader, v, rest)" by (metis surj_pair)
  have "sw_clients (fst (snd (drain_frames (sim_envelope (sc_sink ?c)) (sc_reader ?c) w buf))) = sw_clients w"
    unfolding drain_frames_def
    by (rule drain_loop_keeps [where P = "\<lambda>v. sw_clients v = sw_clients w"]) (simp_all add: sim_envelope_def)
  then show ?thesis by (simp add: sim_pump_def Recv d Let_def)
qed (simp_all add: sim_pump_def)

lemma sim_pump_enough: "length (sw_clients w) - i \<le> n \<Longrightarrow> sim_pump_from (n + m) recv i w = sim_pump_from n recv i w"
proof (induction n recv i w rule: sim_pump_from.induct)
  case (1 recv i w)
  then show ?case by (cases m) simp_all
next
  case (2 n recv i w)
  obtain ok v where p: "sim_pump recv i w = (ok, v)" by (metis surj_pair)
  have len: "length (sw_clients v) = length (sw_clients w)" using sim_pump_length [of recv i w] by (simp add: p)
  have drop: "length (sw_clients (sim_drop i v)) = length (sw_clients w) - 1" if "i < length (sw_clients w)"
    using that len by (simp add: sim_drop_def Let_def)
  show ?case
  proof (cases "i < length (sw_clients w)")
    case True
    then show ?thesis using 2 p len drop by (cases ok) simp_all
  qed simp
qed

section \<open>A transmission comes back\<close>

text \<open>One tick while the radio sends, and the one in which it is done.\<close>

lemma sim_done_waiting: "sr_tx_active r \<Longrightarrow> 1 < sr_tx_ticks_left r \<Longrightarrow> sim_tx_done r = (False, r\<lparr>sr_tx_ticks_left := sr_tx_ticks_left r - 1\<rparr>)"
  by (simp add: sim_tx_done_def Let_def)

lemma sim_done_last:
  assumes "sr_tx_active r" "sr_tx_ticks_left r \<le> 1" "sr_loss_pct r = 0" "sr_dup_pct r = 0"
  shows "\<exists>r'. sim_tx_done r = (True, r') \<and> sr_air r' = sr_air r @ [sr_last_tx r] \<and> \<not> sr_tx_active r' \<and> sr_tx_ticks_left r' = kTxTicks"
proof -
  have pos: "0 \<le> fst (sim_loss r)" for r by (simp add: sim_loss_def split_def Let_def)
  then have "\<not> fst (sim_loss r) < 0" for r by (simp add: not_less)
  then show ?thesis using assms pos by (simp add: sim_tx_done_def Let_def split_def)
qed

lemma quiet_tick:
  assumes "\<not> sw_fake_wifi w" "cp_tx_pending (sw_proc w)" "sim_tx_done (sw_radio w) = (sent, r)"
  defines "v \<equiv> (sw_proc w)\<lparr>cp_hooks := Some (sim_hooks (sw_fake_state w) (sw_tcp_clients w)), cp_clock := uc_poll (sw_millis w + 1) (cp_clock (sw_proc w))\<rparr>"
  defines "v' \<equiv> (if sent then on_tx_result (cp_tx_pending_seq (sw_proc w)) True v else v)"
  shows "sim_loop_tick 0 w = (let (got, r') = sim_receive r; u = w\<lparr>sw_millis := sw_millis w + 1, sw_proc := v', sw_radio := r'\<rparr> in
     case got of None \<Rightarrow> u | Some (raw, rssi, snr) \<Rightarrow> with_core (\<lambda>lora s. fst (on_packet_received rssi snr raw s)) u)"
proof -
  have "sim_poll (w\<lparr>sw_millis := sw_millis w + 1\<rparr>) = w\<lparr>sw_millis := sw_millis w + 1, sw_proc := v', sw_radio := r\<rparr>"
    using assms(2,3) by (simp add: sim_poll_def with_core_def sim_lora_def processor_poll_def v_def v'_def Let_def)
  then have "sim_loop_tick 0 w = (let w = w\<lparr>sw_millis := sw_millis w + 1, sw_proc := v', sw_radio := r\<rparr>;
        (got, r) = sim_receive (sw_radio w); w = w\<lparr>sw_radio := r\<rparr>
      in case got of None \<Rightarrow> w | Some (raw, rssi, snr) \<Rightarrow> with_core (\<lambda>lora s. fst (on_packet_received rssi snr raw s)) w)"
    unfolding sim_loop_tick_def Let_def using assms(1) by (simp only: fake_wifi_tick_def) simp
  then show ?thesis by (cases "fst (sim_receive r)") (simp_all add: Let_def split_def)
qed

lemma sint_byte: "- 128 \<le> x \<Longrightarrow> x < 128 \<Longrightarrow> sint (word_of_int x :: byte) = x"
  by (simp add: signed_of_int signed_take_bit_int_eq_self)

lemma signal_range:
  fixes x y :: u32
  shows "- 99 \<le> sint (- 60 - ucast (x mod 40) :: byte)" "sint (- 60 - ucast (x mod 40) :: byte) \<le> - 60"
    "0 \<le> sint (ucast (y mod 12) :: byte)" "sint (ucast (y mod 12) :: byte) \<le> 11"
proof -
  have x: "0 \<le> uint (x mod 40)" "uint (x mod 40) < 40" and y: "0 \<le> uint (y mod 12)" "uint (y mod 12) < 12"
    by (simp_all add: uint_mod)
  have "(- 60 - ucast (x mod 40) :: byte) = word_of_int (- 60 - uint (x mod 40))" "(ucast (y mod 12) :: byte) = word_of_int (uint (y mod 12))"
    by simp_all
  then have "sint (- 60 - ucast (x mod 40) :: byte) = - 60 - uint (x mod 40)" "sint (ucast (y mod 12) :: byte) = uint (y mod 12)"
    using x y sint_byte [of "- 60 - uint (x mod 40)"] sint_byte [of "uint (y mod 12)"] by (simp_all only:)
  then show "- 99 \<le> sint (- 60 - ucast (x mod 40) :: byte)" "sint (- 60 - ucast (x mod 40) :: byte) \<le> - 60"
    "0 \<le> sint (ucast (y mod 12) :: byte)" "sint (ucast (y mod 12) :: byte) \<le> 11"
    using x y by simp_all
qed

lemma radio_after_frames: "radio_after (frames rid b ks) r = r"
  by (simp add: frames_def) (induction ks; simp)

lemma received_radio:
  "\<exists>es. cp_trace (fst (on_packet_received rssi snr raw s)) = cp_trace s @ es \<and> radio_after es r = r"
proof -
  obtain st q out where app: "ps_append (uptime_ms64 (cp_clock s)) rssi snr kFlagReceived raw (cp_store s) = (st, q, out)"
    by (metis prod_cases3)
  have same: "uptime_ms64 (cp_clock s) = uptime_ms64 (cp_clock (s\<lparr>cp_noise_floor_dbm := n\<rparr>))" for n by simp
  show ?thesis
    by (cases out) (auto simp: on_packet_received_def app say_simps Let_def radio_after_frames intro: exI [of _ "[]"])
qed

text \<open>
  In the simulator a transmission is heard.  With no loss, no duplication and nothing else on
  the air, three ticks after the radio took a packet the send is no longer pending, the result was
  told to every client under the packet's sequence number, and in the same tick the packet came
  back from the air to the core, unchanged, with a signal between -99 and -60 dBm and 0 to 11 dB;
  the radio is ready for the next one.
\<close>

theorem sim_transmission_heard:
  assumes "sr_loss_pct r = 0" "sr_dup_pct r = 0" "sr_air r = []" "\<not> sr_tx_active r" "sr_tx_ticks_left r = kTxTicks"
    and "sim_transmit raw r = (0, sw_radio w)" "length raw < 256" "cp_tx_pending (sw_proc w)" "\<not> sw_fake_wifi w"
  shows "\<exists>u rssi snr. let w3 = sim_loop_tick 0 (sim_loop_tick 0 (sim_loop_tick 0 w)) in
    cp_tx_pending (sw_proc (sim_loop_tick 0 (sim_loop_tick 0 w))) \<and> \<not> cp_tx_pending u \<and>
    cp_trace u = cp_trace (sw_proc w) @ map (\<lambda>k. Send_Frame k (frame_of 0 (R_tx_result
      \<lparr>tr_seq = of_nat (cp_tx_pending_seq (sw_proc w)), tr_success = True\<rparr>))) (cp_sinks (sw_proc w)) \<and>
    sw_proc w3 = fst (on_packet_received rssi snr raw u) \<and>
    - 99 \<le> sint rssi \<and> sint rssi \<le> - 60 \<and> 0 \<le> sint snr \<and> sint snr \<le> 11 \<and>
    sr_air (sw_radio w3) = [] \<and> \<not> sr_tx_active (sw_radio w3) \<and> sr_tx_ticks_left (sw_radio w3) = kTxTicks"
proof -
  have r0: "sr_tx_active (sw_radio w)" "sr_tx_ticks_left (sw_radio w) = 3" "sr_last_tx (sw_radio w) = raw" "sr_air (sw_radio w) = []"
    "sr_loss_pct (sw_radio w) = 0" "sr_dup_pct (sw_radio w) = 0"
  proof -
    have "sw_radio w = (snd (sim_loss r))\<lparr>sr_last_tx := raw, sr_tx_count := sr_tx_count (snd (sim_loss r)) + 1, sr_tx_active := True\<rparr>"
      using assms(6,7) by (auto simp: sim_transmit_def split_def Let_def split: if_splits)
    then show "sr_tx_active (sw_radio w)" "sr_tx_ticks_left (sw_radio w) = 3" "sr_last_tx (sw_radio w) = raw" "sr_air (sw_radio w) = []"
      "sr_loss_pct (sw_radio w) = 0" "sr_dup_pct (sw_radio w) = 0"
      using assms(1-5) by (simp_all add: kTxTicks_def)
  qed
  define w1 where "w1 = sim_loop_tick 0 w"
  define w2 where "w2 = sim_loop_tick 0 w1"
  have receive_none: "sr_air q = [] \<Longrightarrow> sim_receive q = (None, q)" for q by (simp add: sim_receive_def)
  note d1 = sim_done_waiting [OF r0(1), unfolded r0(2), simplified]
  have w1: "sw_radio w1 = (sw_radio w)\<lparr>sr_tx_ticks_left := 2\<rparr>" "\<not> sw_fake_wifi w1" "cp_tx_pending (sw_proc w1)"
    "cp_trace (sw_proc w1) = cp_trace (sw_proc w)" "cp_sinks (sw_proc w1) = cp_sinks (sw_proc w)"
    "cp_tx_pending_seq (sw_proc w1) = cp_tx_pending_seq (sw_proc w)"
    unfolding w1_def quiet_tick [OF assms(9,8) d1] using assms(8,9) r0(4) by (simp_all add: receive_none Let_def)
  have d2: "sim_tx_done (sw_radio w1) = (False, (sw_radio w)\<lparr>sr_tx_ticks_left := 1\<rparr>)"
    using r0(1) by (simp add: w1(1) sim_done_waiting)
  have w2: "sw_radio w2 = (sw_radio w)\<lparr>sr_tx_ticks_left := 1\<rparr>" "\<not> sw_fake_wifi w2" "cp_tx_pending (sw_proc w2)"
    "cp_trace (sw_proc w2) = cp_trace (sw_proc w)" "cp_sinks (sw_proc w2) = cp_sinks (sw_proc w)"
    "cp_tx_pending_seq (sw_proc w2) = cp_tx_pending_seq (sw_proc w)"
    unfolding w2_def quiet_tick [OF w1(2,3) d2] using w1 r0(4) by (simp_all add: receive_none Let_def)
  obtain q where d3: "sim_tx_done (sw_radio w2) = (True, q)" and q: "sr_air q = [raw]" "\<not> sr_tx_active q" "sr_tx_ticks_left q = kTxTicks"
    using sim_done_last [of "sw_radio w2"] r0 by (auto simp: w2(1))
  obtain x q1 where x: "sim_rng q = (x, q1)" by (metis surj_pair)
  obtain y q2 where y: "sim_rng q1 = (y, q2)" by (metis surj_pair)
  have q2: "sr_tx_active q2 = sr_tx_active q" "sr_tx_ticks_left q2 = sr_tx_ticks_left q" "sr_air q2 = sr_air q"
    using x y by (auto simp: sim_rng_def Let_def)
  let ?rssi = "- 60 - ucast (x mod 40) :: byte" and ?snr = "ucast (y mod 12) :: byte"
  have got: "sim_receive q = (Some (raw, ?rssi, ?snr), q2\<lparr>sr_air := []\<rparr>)" using q(1) x y by (simp add: sim_receive_def)
  define v where "v = (sw_proc w2)\<lparr>cp_hooks := Some (sim_hooks (sw_fake_state w2) (sw_tcp_clients w2)), cp_clock := uc_poll (sw_millis w2 + 1) (cp_clock (sw_proc w2))\<rparr>"
  define u0 where "u0 = on_tx_result (cp_tx_pending_seq (sw_proc w2)) True v"
  have hooks: "cp_hooks u0 = cp_hooks v" by (simp add: u0_def on_tx_result_def say_simps)
  have u_fix: "u0\<lparr>cp_hooks := Some (sim_hooks (sw_fake_state w2) (sw_tcp_clients w2))\<rparr> = u0"
    using hooks by (simp add: v_def)
  have w3: "sim_loop_tick 0 w2 = with_core (\<lambda>lora s. fst (on_packet_received ?rssi ?snr raw s))
      (w2\<lparr>sw_millis := sw_millis w2 + 1, sw_proc := u0, sw_radio := q2\<lparr>sr_air := []\<rparr>\<rparr>)"
    unfolding quiet_tick [OF w2(2,3) d3] by (simp add: got Let_def u0_def v_def)
  have proc: "sw_proc (sim_loop_tick 0 w2) = fst (on_packet_received ?rssi ?snr raw u0)"
    unfolding w3 with_core_def Let_def using u_fix by simp
  have "\<not> cp_tx_pending u0" "cp_trace u0 = cp_trace (sw_proc w) @ map (\<lambda>k. Send_Frame k (frame_of 0 (R_tx_result
      \<lparr>tr_seq = of_nat (cp_tx_pending_seq (sw_proc w)), tr_success = True\<rparr>))) (cp_sinks (sw_proc w))"
    using w2 by (simp_all add: u0_def on_tx_result_def say_simps v_def recipients_def frames_ok(2))
  moreover have "sw_radio (sim_loop_tick 0 w2) = q2\<lparr>sr_air := []\<rparr>"
  proof -
    obtain es where "cp_trace (fst (on_packet_received ?rssi ?snr raw u0)) = cp_trace u0 @ es"
      "radio_after es (q2\<lparr>sr_air := []\<rparr>) = q2\<lparr>sr_air := []\<rparr>" using received_radio by blast
    then show ?thesis unfolding w3 with_core_def Let_def using u_fix by simp
  qed
  moreover note signal_range(1,2) [of x] signal_range(3,4) [of y]
  ultimately show ?thesis
    using proc w2(3) q(2,3) q2 unfolding w1_def w2_def Let_def by (intro exI [of _ u0] exI [of _ ?rssi] exI [of _ ?snr]) simp
qed

lemma sim_transmission_heard_witness:
  "let r = sim_radio_new 1234 radio_unset [];
       w = bench_start\<lparr>sw_proc := (sw_proc bench_start)\<lparr>cp_tx_pending := True, cp_tx_pending_seq := 1\<rparr>,
             sw_radio := snd (sim_transmit [1, 2, 3] r)\<rparr>
   in \<exists>u rssi snr. \<not> cp_tx_pending u \<and>
     sw_proc (sim_loop_tick 0 (sim_loop_tick 0 (sim_loop_tick 0 w))) = fst (on_packet_received rssi snr [1, 2, 3] u)"
proof -
  let ?r = "sim_radio_new 1234 radio_unset []"
  let ?w = "bench_start\<lparr>sw_proc := (sw_proc bench_start)\<lparr>cp_tx_pending := True, cp_tx_pending_seq := 1\<rparr>,
             sw_radio := snd (sim_transmit [1, 2, 3] ?r)\<rparr>"
  have "0 \<le> fst (sim_loss ?r)" by (simp add: sim_loss_def split_def Let_def)
  then have "fst (sim_transmit [1, 2, 3] ?r) = 0"
    by (simp add: sim_transmit_def split_def Let_def not_less) (simp add: sim_radio_new_def)
  then have "sim_transmit [1, 2, 3] ?r = (0, sw_radio ?w)" by (simp add: prod_eq_iff)
  moreover have "\<not> sw_fake_wifi ?w" by (simp add: bench_start_def sim_start_def Let_def)
  ultimately show ?thesis
    using sim_transmission_heard [of ?r "[1, 2, 3]" ?w] unfolding Let_def by (simp add: sim_radio_new_def) blast
qed

section \<open>The scripted Wi-Fi\<close>

lemma sim_poll_fields [simp]:
  "sw_millis (sim_poll w) = sw_millis w" "sw_fake_wifi (sim_poll w) = sw_fake_wifi w" "sw_fake_state (sim_poll w) = sw_fake_state w"
  "sw_fake_changed_ms (sim_poll w) = sw_fake_changed_ms w"
  by (simp_all add: sim_poll_def Let_def)

lemma tick_wifi:
  "sw_millis (sim_loop_tick traffic_ms w) = sw_millis w + 1" "sw_fake_wifi (sim_loop_tick traffic_ms w) = sw_fake_wifi w"
  "sw_fake_state (sim_loop_tick traffic_ms w) = sw_fake_state (fake_wifi_tick (sim_poll (w\<lparr>sw_millis := sw_millis w + 1\<rparr>)))"
  "sw_fake_changed_ms (sim_loop_tick traffic_ms w) = sw_fake_changed_ms (fake_wifi_tick (sim_poll (w\<lparr>sw_millis := sw_millis w + 1\<rparr>)))"
proof -
  have w: "sw_millis (fake_wifi_tick v) = sw_millis v" "sw_fake_wifi (fake_wifi_tick v) = sw_fake_wifi v" for v
    by (simp_all add: fake_wifi_tick_def Let_def)
  show "sw_millis (sim_loop_tick traffic_ms w) = sw_millis w + 1" "sw_fake_wifi (sim_loop_tick traffic_ms w) = sw_fake_wifi w"
    "sw_fake_state (sim_loop_tick traffic_ms w) = sw_fake_state (fake_wifi_tick (sim_poll (w\<lparr>sw_millis := sw_millis w + 1\<rparr>)))"
    "sw_fake_changed_ms (sim_loop_tick traffic_ms w) = sw_fake_changed_ms (fake_wifi_tick (sim_poll (w\<lparr>sw_millis := sw_millis w + 1\<rparr>)))"
    by (simp_all add: sim_loop_tick_def Let_def w split: prod.split option.split)
qed

text \<open>Off, connecting from the first tick, connected from the two thousand and first.\<close>

lemma sim_wifi_script:
  assumes "sw_fake_wifi w" "sw_fake_state w = WIFI_STATE_OFF"
  shows "sw_fake_state ((sim_loop_tick traffic_ms ^^ n) w) =
    (if n = 0 then WIFI_STATE_OFF else if n \<le> 2000 then WIFI_STATE_CONNECTING else WIFI_STATE_CONNECTED)"
proof -
  let ?w = "\<lambda>n. (sim_loop_tick traffic_ms ^^ n) w"
  have st: "WIFI_STATE_CONNECTING \<noteq> WIFI_STATE_OFF" "WIFI_STATE_CONNECTED \<noteq> WIFI_STATE_OFF" "WIFI_STATE_CONNECTED \<noteq> WIFI_STATE_CONNECTING"
    by (simp_all add: WIFI_STATE_CONNECTING_def WIFI_STATE_CONNECTED_def WIFI_STATE_OFF_def)
  have "sw_fake_wifi (?w n) \<and> sw_millis (?w n) = sw_millis w + of_nat n \<and>
    (n = 0 \<longrightarrow> sw_fake_state (?w n) = WIFI_STATE_OFF) \<and>
    (0 < n \<and> n \<le> 2000 \<longrightarrow> sw_fake_state (?w n) = WIFI_STATE_CONNECTING \<and> sw_fake_changed_ms (?w n) = sw_millis w + 1) \<and>
    (2000 < n \<longrightarrow> sw_fake_state (?w n) = WIFI_STATE_CONNECTED)"
  proof (induction n)
    case (Suc n)
    let ?v = "sim_poll ((?w n)\<lparr>sw_millis := sw_millis (?w n) + 1\<rparr>)"
    have now: "sw_millis ?v = sw_millis w + 1 + of_nat n" using Suc by simp
    have step: "?w (Suc n) = sim_loop_tick traffic_ms (?w n)" by simp
    have wait: "(2000 :: u32) \<le> of_nat n \<longleftrightarrow> n = 2000" if "n \<le> 2000"
      using that by (auto simp: word_le_nat_alt unat_of_nat)
    consider "n = 0" | "0 < n" "n \<le> 2000" | "2000 < n" by linarith
    then show ?case
    proof cases
      case 1
      then show ?thesis using Suc st unfolding step tick_wifi by (simp add: fake_wifi_tick_def Let_def)
    next
      case 2
      have "sw_millis ?v - sw_fake_changed_ms ?v = of_nat n" using now Suc 2 by simp
      then show ?thesis using Suc st 2 wait unfolding step tick_wifi by (simp add: fake_wifi_tick_def Let_def ac_simps)
    next
      case 3
      then show ?thesis using Suc st unfolding step tick_wifi by (simp add: fake_wifi_tick_def Let_def)
    qed
  qed (simp add: assms)
  then show ?thesis by auto
qed

end
